(* ===== verification/Prelude.thy ===== *)
theory Prelude
  imports Complex_Main "HOL-Library.List_Lexorder" "HOL-Library.Char_ord"
    "HOL-Library.Sublist" "HOL-Library.AList"
begin

text \<open>
  Shared vocabulary of the development: Go maps with text keys, the two loop shapes the
  package uses everywhere (stop at the first error; collect every problem), and the generic
  facts about them. A Go \<^verbatim>\<open>map[string]V\<close> is an association list; only its lookup
  function and its sorted key list are ever observed, as in the source, where every
  iteration goes through \<^verbatim>\<open>sortedKeys\<close>.
\<close>

section \<open>Automation collections\<close>

named_theorems map_simps "lookup, store and key facts of Go maps"
named_theorems loop_simps "the error-collecting loops"

section \<open>Go maps\<close>

type_synonym 'v gomap = "(string \<times> 'v) list"

text \<open>\<^verbatim>\<open>m[k] = v\<close>\<close>

definition put :: "string \<Rightarrow> 'v \<Rightarrow> 'v gomap \<Rightarrow> 'v gomap" where
  "put k v m = AList.update k v m"

text \<open>\<^verbatim>\<open>hasKey\<close> of validate.go: the comma-ok form of a lookup.\<close>

definition hasKey :: "'v gomap \<Rightarrow> string \<Rightarrow> bool" where
  "hasKey m k = (map_of m k \<noteq> None)"

text \<open>\<^verbatim>\<open>sortedKeys\<close> of types.go.\<close>

definition sortedKeys :: "'v gomap \<Rightarrow> string list" where
  "sortedKeys m = sort (remdups (map fst m))"

text \<open>\<^verbatim>\<open>sortedStrings\<close> of types.go: a sorted copy.\<close>

definition sortedStrings :: "string list \<Rightarrow> string list" where
  "sortedStrings s = sort s"

lemma put_lookup [map_simps]: "map_of (put k v m) = (map_of m)(k \<mapsto> v)"
  by (simp add: put_def AList.update_conv')

lemma put_keys: "map fst (put k v m) = (if k \<in> fst ` set m then map fst m else map fst m @ [k])"
  by (simp add: put_def update_keys)

lemma put_new: "map_of m k = None \<Longrightarrow> put k v m = m @ [(k, v)]"
  by (induction m) (auto simp: put_def split: if_splits)

lemma put_same: "map_of m k = Some c \<Longrightarrow> g v = g c \<Longrightarrow> map (g \<circ> snd) (put k v m) = map (g \<circ> snd) m"
  by (induction m) (auto simp: put_def split: if_splits)

lemma put_mem: "p \<in> set (put k v m) \<Longrightarrow> p = (k, v) \<or> p \<in> set m"
  by (induction m) (auto simp: put_def split: if_splits)

lemma length_put: "length (put k v m) = (if map_of m k = None then Suc (length m) else length m)"
  by (induction m) (auto simp: put_def)

lemma set_sortedKeys [map_simps]: "set (sortedKeys m) = fst ` set m"
  by (simp add: sortedKeys_def)

lemma set_sortedKeys_dom: "set (sortedKeys m) = dom (map_of m)"
  by (simp add: set_sortedKeys dom_map_of_conv_image_fst)

lemma distinct_sortedKeys [map_simps, simp]: "distinct (sortedKeys m)"
  by (simp add: sortedKeys_def)

lemma sorted_sortedKeys [map_simps, simp]: "sorted (sortedKeys m)"
  by (simp add: sortedKeys_def)

lemma hasKey_iff [map_simps]: "hasKey m k \<longleftrightarrow> k \<in> fst ` set m"
  by (simp add: hasKey_def map_of_eq_None_iff)

lemma in_sortedKeysD: "k \<in> set (sortedKeys m) \<Longrightarrow> \<exists>v. map_of m k = Some v"
  by (auto simp: set_sortedKeys_dom)

lemma map_of_in_sortedKeys: "map_of m k = Some v \<Longrightarrow> k \<in> set (sortedKeys m)"
  by (auto simp: set_sortedKeys_dom)

lemma sortedKeys_cong: "fst ` set m = fst ` set n \<Longrightarrow> sortedKeys m = sortedKeys n"
  unfolding sortedKeys_def
  by (rule sorted_distinct_set_unique) simp_all

text \<open>
  The interface the rest of the code relies on: a store that answers lookups, and a key
  list that is exactly its domain. Every loop over \<open>sortedKeys\<close> is a loop over the
  entries, whatever order they were stored in.
\<close>

locale keyed_store =
  fixes lookup :: "'m \<Rightarrow> string \<Rightarrow> 'v option"
    and store :: "string \<Rightarrow> 'v \<Rightarrow> 'm \<Rightarrow> 'm"
    and keys :: "'m \<Rightarrow> string list"
  assumes lookup_store: "lookup (store k v m) j = (if j = k then Some v else lookup m j)"
    and keys_dom: "set (keys m) = {k. lookup m k \<noteq> None}"
    and keys_sorted: "sorted (keys m)"
    and keys_distinct: "distinct (keys m)"
begin

lemma keys_lookup: "k \<in> set (keys m) \<longleftrightarrow> (\<exists>v. lookup m k = Some v)"
  by (simp add: keys_dom)

lemma keys_determined:
  assumes "\<And>k. (lookup m k = None) = (lookup n k = None)"
  shows "keys m = keys n"
  by (rule sorted_distinct_set_unique) (simp_all add: keys_sorted keys_distinct keys_dom assms)

lemma set_keys_store: "set (keys (store k v m)) = insert k (set (keys m))"
  by (auto simp: keys_dom lookup_store)

lemma ball_keys: "(\<forall>k \<in> set (keys m). P k (lookup m k)) \<longleftrightarrow> (\<forall>k v. lookup m k = Some v \<longrightarrow> P k (Some v))"
  by (auto simp: keys_dom)

end

interpretation gm: keyed_store map_of put sortedKeys
  by unfold_locales (auto simp: put_lookup set_sortedKeys_dom)

section \<open>Loops that stop at the first error\<close>

fun first_err :: "('a \<Rightarrow> 'e option) \<Rightarrow> 'a list \<Rightarrow> 'e option" where
  "first_err f [] = None"
| "first_err f (x # xs) = (case f x of Some e \<Rightarrow> Some e | None \<Rightarrow> first_err f xs)"

lemma first_err_None [loop_simps]: "first_err f xs = None \<longleftrightarrow> (\<forall>x \<in> set xs. f x = None)"
  by (induction xs) (auto split: option.splits)

lemma first_err_SomeD: "first_err f xs = Some e \<Longrightarrow> \<exists>x \<in> set xs. f x = Some e"
  by (induction xs) (auto split: option.splits)

lemma first_err_cong [fundef_cong]:
  "xs = ys \<Longrightarrow> (\<And>x. x \<in> set ys \<Longrightarrow> f x = g x) \<Longrightarrow> first_err f xs = first_err g ys"
  by (induction xs arbitrary: ys) (auto split: option.splits)

text \<open>Two checks in sequence, and one check \<^verbatim>\<open>if bad { return err }\<close>.\<close>

definition or_err :: "'e option \<Rightarrow> 'e option \<Rightarrow> 'e option" where
  "or_err a b = (case a of Some e \<Rightarrow> Some e | None \<Rightarrow> b)"

definition err_if :: "bool \<Rightarrow> 'e \<Rightarrow> 'e option" where
  "err_if bad e = (if bad then Some e else None)"

lemma or_err_None [simp]: "or_err a b = None \<longleftrightarrow> a = None \<and> b = None"
  by (simp add: or_err_def split: option.splits)

lemma or_err_simps [simp]: "or_err None b = b" "or_err (Some e) b = Some e"
  by (simp_all add: or_err_def)

lemma err_if_None [simp]: "err_if bad e = None \<longleftrightarrow> \<not> bad"
  by (simp add: err_if_def)

lemma err_if_simps [simp]: "err_if True e = Some e" "err_if False e = None"
  by (simp_all add: err_if_def)

text \<open>The same loop building a list: \<^verbatim>\<open>if err != nil { return nil, err }\<close> in each round.\<close>

fun map_err :: "('a \<Rightarrow> 'e + 'b) \<Rightarrow> 'a list \<Rightarrow> 'e + 'b list" where
  "map_err f [] = Inr []"
| "map_err f (x # xs) = (case f x of Inl e \<Rightarrow> Inl e
     | Inr y \<Rightarrow> (case map_err f xs of Inl e \<Rightarrow> Inl e | Inr ys \<Rightarrow> Inr (y # ys)))"

lemma map_err_Inr [loop_simps]:
  "map_err f xs = Inr ys \<longleftrightarrow> list_all2 (\<lambda>x y. f x = Inr y) xs ys"
proof (induction xs arbitrary: ys)
  case (Cons x xs)
  show ?case
    by (cases ys) (auto simp: Cons.IH [symmetric] split: sum.splits)
qed auto

lemma map_err_mem: "map_err f xs = Inr ys \<Longrightarrow> y \<in> set ys \<Longrightarrow> \<exists>x \<in> set xs. f x = Inr y"
  by (induction xs arbitrary: ys) (auto split: sum.splits)

lemma map_err_cong [fundef_cong]:
  "xs = ys \<Longrightarrow> (\<And>x. x \<in> set ys \<Longrightarrow> f x = g x) \<Longrightarrow> map_err f xs = map_err g ys"
  by (induction xs arbitrary: ys) (auto split: sum.splits)

section \<open>Small list facts\<close>

lemma size_map_of: "map_of m k = Some t \<Longrightarrow> size t < Suc (size_list (size_prod (\<lambda>_. 0) size) m)"
  by (induction m) (auto split: if_splits)

lemma list_all_keys [simp]:
  "list_all (\<lambda>k. case map_of m k of None \<Rightarrow> True | Some u \<Rightarrow> P u) (map fst m)
     \<longleftrightarrow> (\<forall>k u. map_of m k = Some u \<longrightarrow> P u)"
proof -
  have "k \<in> fst ` set m" if "map_of m k = Some u" for k u
    using map_of_SomeD [OF that] by force
  then show ?thesis by (auto simp: list_all_iff split: option.splits)
qed

lemma size_list_mem: "x \<in> set xs \<Longrightarrow> f x < Suc (size_list f xs)"
  by (induction xs) auto

lemma size_snd_mem: "p \<in> set m \<Longrightarrow> size (snd p) < Suc (size_list (size_prod (\<lambda>_. 0) size) m)"
  by (induction m) auto

text \<open>\<^verbatim>\<open>slices.Index\<close>: the first position of a value, or None for -1.\<close>

fun index_of :: "'a \<Rightarrow> 'a list \<Rightarrow> nat option" where
  "index_of x [] = None"
| "index_of x (y # ys) = (if x = y then Some 0 else map_option Suc (index_of x ys))"

lemma index_of_None [simp]: "index_of x xs = None \<longleftrightarrow> x \<notin> set xs"
  by (induction xs) auto

lemma index_of_Some: "index_of x xs = Some i \<Longrightarrow> i < length xs \<and> xs ! i = x \<and> x \<notin> set (take i xs)"
  by (induction xs arbitrary: i) (auto split: if_splits)

lemma find_append: "find P (xs @ ys) = (case find P xs of Some x \<Rightarrow> Some x | None \<Rightarrow> find P ys)"
  by (induction xs) auto

lemma find_SomeD: "find P xs = Some x \<Longrightarrow> x \<in> set xs \<and> P x"
  by (induction xs) (auto split: if_splits)

lemma find_unique: "x \<in> set xs \<Longrightarrow> P x \<Longrightarrow> (\<And>y. y \<in> set xs \<Longrightarrow> P y \<Longrightarrow> y = x) \<Longrightarrow> find P xs = Some x"
  by (metis find_SomeD find_None_iff not_None_eq)

lemma index_of_nth: "index_of x xs = Some i \<Longrightarrow> xs ! i = x"
  by (simp add: index_of_Some)

lemma index_of_lt: "index_of x xs = Some i \<Longrightarrow> i < length xs"
  by (simp add: index_of_Some)

lemma index_of_distinct:
  assumes "\<forall>i < length xs. index_of (xs ! i) xs = Some i"
  shows "distinct xs"
  using assms by (metis distinct_conv_nth option.inject)

end
