(* ===== verification/GoNum.thy ===== *)
theory GoNum
  imports Prelude
begin

text \<open>
  The Go numbers the package computes with: \<^verbatim>\<open>int64\<close> (and the 64-bit \<^verbatim>\<open>int\<close>), held as an
  integer with the two's-complement wrap-around written out where the code multiplies or
  adds; decimal text (\<^verbatim>\<open>strconv.Itoa\<close>, \<^verbatim>\<open>Atoi\<close>, \<^verbatim>\<open>ParseInt\<close>); and finite \<^verbatim>\<open>float64\<close> values
  as the rational they denote, with the rounding of conversions to the nearest binary64
  value, ties to even.
\<close>

section \<open>64-bit integers\<close>

definition max_int64 :: int where
  "max_int64 = 9223372036854775807"

definition min_int64 :: int where
  "min_int64 = -9223372036854775808"

definition in_int64 :: "int \<Rightarrow> bool" where
  "in_int64 n \<longleftrightarrow> min_int64 \<le> n \<and> n \<le> max_int64"

text \<open>The value of a 64-bit arithmetic result: overflow wraps.\<close>

definition wrap64 :: "int \<Rightarrow> int" where
  "wrap64 n = (n + 9223372036854775808) mod 18446744073709551616 - 9223372036854775808"

lemma wrap64_in [simp]: "in_int64 (wrap64 n)"
proof -
  let ?m = "(n + 9223372036854775808) mod 18446744073709551616"
  have "0 \<le> ?m" and "?m < 18446744073709551616" by simp_all
  then show ?thesis
    unfolding in_int64_def wrap64_def min_int64_def max_int64_def by linarith
qed

lemma wrap64_id: "in_int64 n \<Longrightarrow> wrap64 n = n"
  by (simp add: in_int64_def wrap64_def min_int64_def max_int64_def)

lemma wrap64_over: "max_int64 < n \<Longrightarrow> n \<le> 2 * max_int64 + 1 \<Longrightarrow> wrap64 n = n - 18446744073709551616"
proof -
  assume n: "max_int64 < n" "n \<le> 2 * max_int64 + 1"
  have "(n + 9223372036854775808) mod 18446744073709551616 = (n - 9223372036854775808) mod 18446744073709551616"
    using minus_mod_self2 [of "n + 9223372036854775808" 18446744073709551616] by simp
  also have "\<dots> = n - 9223372036854775808"
    using n by (intro mod_pos_pos_trivial) (simp_all add: max_int64_def)
  finally show ?thesis by (simp add: wrap64_def)
qed

section \<open>Decimal text\<close>

fun nat_text :: "nat \<Rightarrow> string" where
  "nat_text n = (if n < 10 then [char_of (48 + n)] else nat_text (n div 10) @ [char_of (48 + n mod 10)])"

declare nat_text.simps [simp del]

lemma char_of_digits [simp]:
  "char_of (48::nat) = CHR ''0''" "char_of (49::nat) = CHR ''1''" "char_of (50::nat) = CHR ''2''"
  "char_of (51::nat) = CHR ''3''" "char_of (52::nat) = CHR ''4''" "char_of (53::nat) = CHR ''5''"
  "char_of (54::nat) = CHR ''6''" "char_of (55::nat) = CHR ''7''" "char_of (56::nat) = CHR ''8''"
  "char_of (57::nat) = CHR ''9''"
  by code_simp+

text \<open>\<^verbatim>\<open>strconv.Itoa\<close>\<close>

definition itoa :: "int \<Rightarrow> string" where
  "itoa i = (if i < 0 then CHR ''-'' # nat_text (nat (- i)) else nat_text (nat i))"

definition is_digit :: "char \<Rightarrow> bool" where
  "is_digit c \<longleftrightarrow> 48 \<le> (of_char c :: nat) \<and> (of_char c :: nat) \<le> 57"

definition digit_val :: "char \<Rightarrow> nat" where
  "digit_val c = of_char c - 48"

definition digits_val :: "string \<Rightarrow> nat" where
  "digits_val s = foldl (\<lambda>n c. 10 * n + digit_val c) 0 s"

text \<open>\<^verbatim>\<open>strconv.ParseInt(s, 10, 64)\<close>, and \<^verbatim>\<open>Atoi\<close>: an optional sign, digits, in range.\<close>

definition parse_nat :: "string \<Rightarrow> nat option" where
  "parse_nat s = (if s \<noteq> [] \<and> list_all is_digit s then Some (digits_val s) else None)"

definition range_checked :: "int \<Rightarrow> int option" where
  "range_checked n = (if in_int64 n then Some n else None)"

fun atoi :: "string \<Rightarrow> int option" where
  "atoi [] = None"
| "atoi (c # s) =
     (if c = CHR ''-'' then Option.bind (parse_nat s) (\<lambda>n. range_checked (- int n))
      else if c = CHR ''+'' then Option.bind (parse_nat s) (\<lambda>n. range_checked (int n))
      else Option.bind (parse_nat (c # s)) (\<lambda>n. range_checked (int n)))"

lemma is_digit_char_of [simp]: "(n::nat) < 10 \<Longrightarrow> is_digit (char_of (48 + n))"
  by (simp add: is_digit_def of_char_of)

lemma digit_val_char_of [simp]: "(n::nat) < 10 \<Longrightarrow> digit_val (char_of (48 + n)) = n"
  by (simp add: digit_val_def of_char_of)

lemma digits_val_snoc: "digits_val (s @ [c]) = 10 * digits_val s + digit_val c"
  by (simp add: digits_val_def)

lemma nat_text_nonempty [simp]: "nat_text n \<noteq> []"
  by (subst nat_text.simps) simp

lemma nat_text_digits [simp]: "list_all is_digit (nat_text n)"
proof (induction n rule: nat_text.induct)
  case (1 n)
  then show ?case by (subst nat_text.simps) simp
qed

lemma digits_val_nat_text [simp]: "digits_val (nat_text n) = n"
proof (induction n rule: nat_text.induct)
  case (1 n)
  show ?case
  proof (cases "n < 10")
    case True
    then show ?thesis by (subst nat_text.simps) (simp add: digits_val_def)
  next
    case False
    with 1 show ?thesis by (subst nat_text.simps) (simp add: digits_val_snoc)
  qed
qed

lemma parse_nat_text [simp]: "parse_nat (nat_text n) = Some n"
  by (simp add: parse_nat_def)

lemma not_digit_minus: "\<not> is_digit (CHR ''-'')"
  by (simp add: is_digit_def)

lemma not_digit_plus: "\<not> is_digit (CHR ''+'')"
  by (simp add: is_digit_def)

lemma nat_text_hd: "nat_text n = c # s \<Longrightarrow> c \<noteq> CHR ''-'' \<and> c \<noteq> CHR ''+''"
  using nat_text_digits [of n] not_digit_minus not_digit_plus by auto

lemma atoi_itoa: "in_int64 i \<Longrightarrow> atoi (itoa i) = Some i"
proof (cases "i < 0")
  case True
  moreover assume "in_int64 i"
  ultimately show ?thesis by (simp add: itoa_def range_checked_def)
next
  case False
  assume "in_int64 i"
  moreover obtain c s where "nat_text (nat i) = c # s"
    using nat_text_nonempty [of "nat i"] by (cases "nat_text (nat i)") auto
  ultimately show ?thesis
    using False nat_text_hd [of "nat i" c s] parse_nat_text [of "nat i"]
    by (simp add: itoa_def range_checked_def)
qed

lemma nat_text_inject: "nat_text m = nat_text n \<Longrightarrow> m = n"
  by (metis digits_val_nat_text)

lemma itoa_inject: "itoa i = itoa j \<Longrightarrow> i = j"
  by (auto simp: itoa_def dest: nat_text_inject nat_text_hd nat_text_hd [OF sym] split: if_splits)

lemma atoi_in_int64: "atoi s = Some n \<Longrightarrow> in_int64 n"
  by (cases s rule: atoi.cases)
    (auto simp: range_checked_def split: if_splits bind_splits)

section \<open>float64\<close>

text \<open>
  A finite binary64 value: negative zero, or the rational it denotes. Infinities and NaN
  never become values of this package: \<^verbatim>\<open>canonicalJSON\<close> and the YAML subset refuse them.
\<close>

datatype float64 = NegZero | Fin rat

fun fval :: "float64 \<Rightarrow> rat" where
  "fval NegZero = 0"
| "fval (Fin r) = r"

fun bits :: "nat \<Rightarrow> nat" where
  "bits n = (if n = 0 then 0 else Suc (bits (n div 2)))"

declare bits.simps [simp del]

definition round_half_even :: "nat \<Rightarrow> nat \<Rightarrow> nat" where
  "round_half_even a b = (let q = a div b; r = a mod b in
     if 2 * r < b then q else if b < 2 * r then q + 1 else if even q then q else q + 1)"

text \<open>The exponent of the leading bit of \<open>n / d\<close>.\<close>

definition leading_exp :: "nat \<Rightarrow> nat \<Rightarrow> int" where
  "leading_exp n d = (let k = int (bits n) - int (bits d) in
     if d * 2 ^ nat k \<le> n * 2 ^ nat (- k) then k else k - 1)"

text \<open>
  \<open>n / d\<close> rounded to a multiple of \<open>2 ^ u\<close>, where \<open>u\<close> leaves 53 significant bits (fewer
  below the smallest normal number); \<open>None\<close> beyond the largest finite value.
\<close>

definition overflow_bound :: nat where
  "overflow_bound = 2 ^ 1024"

definition round_ratio :: "nat \<Rightarrow> nat \<Rightarrow> rat option" where
  "round_ratio n d = (if n = 0 then Some 0 else
     let u = max (leading_exp n d - 52) (- 1074);
         m = round_half_even (n * 2 ^ nat (- u)) (d * 2 ^ nat u);
         r = (if 0 \<le> u then of_nat (m * 2 ^ nat u) else of_nat m / of_nat (2 ^ nat (- u)))
     in if r < of_nat overflow_bound then Some r else None)"

text \<open>\<^verbatim>\<open>float64(x)\<close> of an \<^verbatim>\<open>int64\<close>; a magnitude of at most \<open>2 ^ 63\<close> is never out of range.\<close>

definition float_of_int :: "int \<Rightarrow> float64" where
  "float_of_int i = (case round_ratio (nat \<bar>i\<bar>) 1 of
     Some r \<Rightarrow> Fin (if i < 0 then - r else r) | None \<Rightarrow> Fin 0)"

definition float_le :: "float64 \<Rightarrow> float64 \<Rightarrow> bool" where
  "float_le a b \<longleftrightarrow> fval a \<le> fval b"

definition float_less :: "float64 \<Rightarrow> float64 \<Rightarrow> bool" where
  "float_less a b \<longleftrightarrow> fval a < fval b"

definition float_eq :: "float64 \<Rightarrow> float64 \<Rightarrow> bool" where
  "float_eq a b \<longleftrightarrow> fval a = fval b"

text \<open>
  \<^verbatim>\<open>strconv.ParseFloat(s, 64)\<close> on decimal text: sign, digits, an optional fraction and an
  optional exponent. The other spellings ParseFloat reads (hexadecimal, underscores, Inf,
  NaN) never reach it: its callers have matched the text as a JSON number or a plain
  decimal first.
\<close>

definition span_digits :: "string \<Rightarrow> string \<times> string" where
  "span_digits s = (takeWhile is_digit s, dropWhile is_digit s)"

definition parse_exp :: "string \<Rightarrow> int option" where
  "parse_exp s = (case s of
     [] \<Rightarrow> Some 0
   | c # t \<Rightarrow>
       if c \<noteq> CHR ''e'' \<and> c \<noteq> CHR ''E'' then None
       else (case t of
           [] \<Rightarrow> None
         | d # v \<Rightarrow> if d = CHR ''-'' then map_option (\<lambda>n. - int n) (parse_nat v)
             else if d = CHR ''+'' then map_option int (parse_nat v)
             else map_option int (parse_nat t)))"

definition decimal_value :: "bool \<Rightarrow> string \<Rightarrow> string \<Rightarrow> int \<Rightarrow> float64 option" where
  "decimal_value neg whole fraction e = (let
     m = digits_val (whole @ fraction); k = e - int (length fraction)
   in case round_ratio (m * 10 ^ nat k) (10 ^ nat (- k)) of
        None \<Rightarrow> None
      | Some r \<Rightarrow> Some (if neg then (if r = 0 then NegZero else Fin (- r)) else Fin r))"

definition parse_float :: "string \<Rightarrow> float64 option" where
  "parse_float s = (let
     neg = (s \<noteq> [] \<and> hd s = CHR ''-'');
     t = (if s \<noteq> [] \<and> (hd s = CHR ''-'' \<or> hd s = CHR ''+'') then tl s else s);
     (whole, r1) = span_digits t;
     (fraction, r2) = (if r1 \<noteq> [] \<and> hd r1 = CHR ''.'' then span_digits (tl r1) else ([], r1))
   in if whole = [] \<and> fraction = [] then None
      else case parse_exp r2 of None \<Rightarrow> None | Some e \<Rightarrow> decimal_value neg whole fraction e)"

lemma bits_0 [simp]: "bits 0 = 0"
  by (simp add: bits.simps)

lemma bits_bound: "n < 2 ^ bits n"
proof (induction n rule: bits.induct)
  case (1 n)
  show ?case
  proof (cases "n = 0")
    case False
    with 1 have "n div 2 < 2 ^ bits (n div 2)" by simp
    then have "n < 2 * 2 ^ bits (n div 2)" by linarith
    with False show ?thesis by (simp add: bits.simps [of n])
  qed simp
qed

lemma bits_lower: "n \<noteq> 0 \<Longrightarrow> 2 ^ (bits n - 1) \<le> n"
proof (induction n rule: bits.induct)
  case (1 n)
  show ?case
  proof (cases "n div 2 = 0")
    case True
    with 1 show ?thesis by (simp add: bits.simps [of n])
  next
    case False
    with 1 have "2 ^ (bits (n div 2) - 1) \<le> n div 2" by simp
    moreover have "bits (n div 2) \<noteq> 0" using False by (simp add: bits.simps [of "n div 2"])
    then obtain k where "bits (n div 2) = Suc k" by (cases "bits (n div 2)") auto
    ultimately have "2 ^ Suc k \<le> 2 * (n div 2)" by simp
    then show ?thesis using \<open>bits (n div 2) = Suc k\<close> 1(2) by (simp add: bits.simps [of n])
  qed
qed

lemma bits_mono_bound: "n < 2 ^ k \<Longrightarrow> bits n \<le> k"
proof (rule ccontr)
  assume "n < 2 ^ k" and "\<not> bits n \<le> k"
  then have "n \<noteq> 0" by (metis bits_0 zero_le)
  with bits_lower have "2 ^ (bits n - 1) \<le> n" by blast
  moreover have "(2::nat) ^ k \<le> 2 ^ (bits n - 1)"
    using \<open>\<not> bits n \<le> k\<close> by (intro power_increasing) auto
  ultimately show False using \<open>n < 2 ^ k\<close> by linarith
qed

lemma round_half_even_1 [simp]: "round_half_even a (Suc 0) = a"
  by (simp add: round_half_even_def)

text \<open>Integers of up to 53 bits convert exactly.\<close>

lemma round_ratio_small: "n < 2 ^ 53 \<Longrightarrow> round_ratio n 1 = Some (of_nat n)"
proof (cases "n = 0")
  case True
  then show ?thesis by (simp add: round_ratio_def)
next
  case False
  assume "n < 2 ^ 53"
  then have b: "bits n \<le> 53" by (intro bits_mono_bound)
  let ?u = "max (leading_exp n 1 - 52) (- 1074)"
  have b1: "bits 1 = 1" by (simp add: bits.simps)
  from b have le: "leading_exp n 1 \<le> 52" unfolding leading_exp_def Let_def b1 by simp
  then have u: "?u \<le> 0" by simp
  have "n < overflow_bound" unfolding overflow_bound_def
    using \<open>n < 2 ^ 53\<close> by (rule less_le_trans) (rule power_increasing, simp_all)
  then show ?thesis
    using False u by (auto simp: round_ratio_def Let_def)
qed

lemma float_of_int_exact: "\<bar>i\<bar> < 2 ^ 53 \<Longrightarrow> fval (float_of_int i) = of_int i"
proof -
  assume "\<bar>i\<bar> < 2 ^ 53"
  then have "nat \<bar>i\<bar> < 2 ^ 53" by (simp add: nat_less_iff)
  from round_ratio_small [OF this] show ?thesis by (simp add: float_of_int_def)
qed

end
