(* ===== verification/GoText.thy ===== *)
theory GoText
  imports GoNum
begin

text \<open>
  Go strings are byte sequences, modelled as \<^typ>\<open>char list\<close>: the \<^verbatim>\<open>strings\<close> and
  \<^verbatim>\<open>unicode/utf8\<close> operations the package calls, and the regular expressions of
  validate.go, refs.go, types.go and yaml.go as predicates. All of those expressions are
  anchored at both ends, and all but \<^verbatim>\<open>opaquePattern\<close> use ASCII classes only.
\<close>

section \<open>Character classes\<close>

definition ccode :: "char \<Rightarrow> nat" where
  "ccode c = of_char c"

definition is_lower :: "char \<Rightarrow> bool" where
  "is_lower c \<longleftrightarrow> 97 \<le> ccode c \<and> ccode c \<le> 122"

definition is_upper :: "char \<Rightarrow> bool" where
  "is_upper c \<longleftrightarrow> 65 \<le> ccode c \<and> ccode c \<le> 90"

definition is_alpha :: "char \<Rightarrow> bool" where
  "is_alpha c \<longleftrightarrow> is_lower c \<or> is_upper c"

definition is_alnum :: "char \<Rightarrow> bool" where
  "is_alnum c \<longleftrightarrow> is_alpha c \<or> is_digit c"

text \<open>\<^verbatim>\<open>strings.ToLower\<close> on ASCII text.\<close>

definition lower_char :: "char \<Rightarrow> char" where
  "lower_char c = (if is_upper c then char_of (ccode c + 32) else c)"

definition toLower :: "string \<Rightarrow> string" where
  "toLower s = map lower_char s"

section \<open>Prefixes, suffixes, substrings\<close>

definition hasPrefix :: "string \<Rightarrow> string \<Rightarrow> bool" where
  "hasPrefix s p = prefix p s"

definition hasSuffix :: "string \<Rightarrow> string \<Rightarrow> bool" where
  "hasSuffix s p = prefix (rev p) (rev s)"

definition containsByte :: "string \<Rightarrow> char \<Rightarrow> bool" where
  "containsByte s c \<longleftrightarrow> c \<in> set s"

lemma hasPrefix_append [simp]: "hasPrefix (p @ s) p"
  by (simp add: hasPrefix_def)

text \<open>\<^verbatim>\<open>strings.Split\<close> at a one-byte separator: never an empty list.\<close>

fun split_at :: "char \<Rightarrow> string \<Rightarrow> string list" where
  "split_at d [] = [[]]"
| "split_at d (c # s) = (if c = d then [] # split_at d s
     else case split_at d s of [] \<Rightarrow> [[c]] | w # ws \<Rightarrow> (c # w) # ws)"

text \<open>\<^verbatim>\<open>strings.Join\<close>\<close>

fun join :: "string \<Rightarrow> string list \<Rightarrow> string" where
  "join sep [] = []"
| "join sep [w] = w"
| "join sep (w # v # ws) = w @ sep @ join sep (v # ws)"

text \<open>\<^verbatim>\<open>strings.Cut\<close> at a one-byte separator.\<close>

definition cut :: "string \<Rightarrow> char \<Rightarrow> string \<times> string \<times> bool" where
  "cut s d = (takeWhile (\<lambda>c. c \<noteq> d) s, drop 1 (dropWhile (\<lambda>c. c \<noteq> d) s), d \<in> set s)"

lemma split_at_nonempty [simp]: "split_at d s \<noteq> []"
  by (induction s) (auto split: list.splits)

lemma join_Cons: "ws \<noteq> [] \<Longrightarrow> join sep (w # ws) = w @ sep @ join sep ws"
  by (cases ws) auto

lemma join_split_at [simp]: "join [d] (split_at d s) = s"
proof (induction s)
  case (Cons c s)
  obtain w ws where w: "split_at d s = w # ws"
    by (cases "split_at d s") auto
  with Cons show ?case
    by (cases ws) (auto simp: join_Cons)
qed simp

lemma split_at_no_sep: "w \<in> set (split_at d s) \<Longrightarrow> d \<notin> set w"
  by (induction s arbitrary: w) (auto split: list.splits if_splits)

lemma split_at_plain: "d \<notin> set s \<Longrightarrow> split_at d s = [s]"
  by (induction s) auto

lemma split_at_append: "d \<notin> set w \<Longrightarrow> split_at d (w @ d # s) = w # split_at d s"
  by (induction w) auto

lemma split_at_join:
  "ws \<noteq> [] \<Longrightarrow> (\<forall>w \<in> set ws. d \<notin> set w) \<Longrightarrow> split_at d (join [d] ws) = ws"
proof (induction ws)
  case (Cons w ws)
  then show ?case
    by (cases "ws = []") (auto simp: split_at_plain split_at_append join_Cons)
qed simp

section \<open>UTF-8\<close>

text \<open>
  \<^verbatim>\<open>utf8.DecodeRuneInString\<close>: the size in bytes of the first rune and its code point; an
  invalid or incomplete sequence is one byte of U+FFFD.
\<close>

definition rune_error :: nat where
  "rune_error = 65533"

definition cont_byte :: "nat \<Rightarrow> nat \<Rightarrow> char \<Rightarrow> bool" where
  "cont_byte lo hi c \<longleftrightarrow> lo \<le> ccode c \<and> ccode c \<le> hi"

definition cont :: "char \<Rightarrow> nat" where
  "cont c = ccode c mod 64"

text \<open>The length of the sequence a first byte starts and the bounds of its second byte.\<close>

definition first_byte :: "nat \<Rightarrow> (nat \<times> nat \<times> nat) option" where
  "first_byte b = (
     if b < 128 then Some (1, 0, 0)
     else if b < 194 then None
     else if b < 224 then Some (2, 128, 191)
     else if b = 224 then Some (3, 160, 191)
     else if b = 237 then Some (3, 128, 159)
     else if b < 240 then Some (3, 128, 191)
     else if b = 240 then Some (4, 144, 191)
     else if b < 244 then Some (4, 128, 191)
     else if b = 244 then Some (4, 128, 143)
     else None)"

definition decodeRune :: "string \<Rightarrow> nat \<times> nat" where
  "decodeRune s = (case s of [] \<Rightarrow> (rune_error, 0)
   | c0 # t \<Rightarrow> (case first_byte (ccode c0) of
       None \<Rightarrow> (rune_error, 1)
     | Some (n, lo, hi) \<Rightarrow>
         if n = 1 then (ccode c0, 1)
         else if length t < n - 1 \<or> \<not> cont_byte lo hi (t ! 0) then (rune_error, 1)
         else if n = 2 then (ccode c0 mod 32 * 64 + cont (t ! 0), 2)
         else if \<not> cont_byte 128 191 (t ! 1) then (rune_error, 1)
         else if n = 3 then (ccode c0 mod 16 * 4096 + cont (t ! 0) * 64 + cont (t ! 1), 3)
         else if \<not> cont_byte 128 191 (t ! 2) then (rune_error, 1)
         else (ccode c0 mod 8 * 262144 + cont (t ! 0) * 4096 + cont (t ! 1) * 64 + cont (t ! 2), 4)))"

lemma decodeRune_size: "s \<noteq> [] \<Longrightarrow> 1 \<le> snd (decodeRune s) \<and> snd (decodeRune s) \<le> length s"
  by (auto simp: decodeRune_def first_byte_def Suc_le_eq split: list.splits option.splits if_splits)

text \<open>The runes of a string, each with the bytes it was read from.\<close>

function runes :: "string \<Rightarrow> (nat \<times> string) list" where
  "runes s = (if s = [] then [] else
     let (r, n) = decodeRune s in (r, take n s) # runes (drop n s))"
  by pat_completeness auto
termination
proof (relation "measure length", goal_cases)
  case (2 s x r n)
  then show ?case using decodeRune_size [of s] by (cases "decodeRune s") auto
qed simp

declare runes.simps [simp del]

text \<open>\<^verbatim>\<open>utf8.RuneCountInString\<close>\<close>

definition runeCount :: "string \<Rightarrow> nat" where
  "runeCount s = length (runes s)"

lemma runes_Nil [simp]: "runes [] = []"
  by (simp add: runes.simps)

lemma runes_code [code]:
  "runes [] = []"
  "runes (c # s) = (let (r, n) = decodeRune (c # s) in (r, take n (c # s)) # runes (drop n (c # s)))"
  by (simp_all add: runes.simps [of "c # s"])

lemma runes_bytes: "concat (map snd (runes s)) = s"
proof (induction s rule: runes.induct)
  case (1 s)
  then show ?case
    by (subst runes.simps) (auto split: prod.splits)
qed

lemma runeCount_le_length: "runeCount s \<le> length s"
  unfolding runeCount_def
proof (induction s rule: runes.induct)
  case (1 s)
  show ?case
  proof (cases "s = []")
    case False
    obtain r n where rn: "decodeRune s = (r, n)" by fastforce
    with False have "1 \<le> n" "n \<le> length s" using decodeRune_size [of s] by auto
    with False rn 1 have "length (runes (drop n s)) \<le> length s - n" by fastforce
    with False rn \<open>1 \<le> n\<close> \<open>n \<le> length s\<close> show ?thesis by (subst runes.simps) auto
  qed simp
qed

lemma runes_ascii: "list_all (\<lambda>c. ccode c < 128) s \<Longrightarrow> runes s = map (\<lambda>c. (ccode c, [c])) s"
proof (induction s)
  case (Cons c s)
  then have "decodeRune (c # s) = (ccode c, 1)"
    by (simp add: decodeRune_def first_byte_def)
  with Cons show ?case by (subst runes.simps) auto
qed simp

lemma runeCount_ascii: "list_all (\<lambda>c. ccode c < 128) s \<Longrightarrow> runeCount s = length s"
  by (simp add: runeCount_def runes_ascii)

text \<open>\<^verbatim>\<open>strings.Fields\<close> and \<^verbatim>\<open>strings.TrimSpace\<close>: runs of \<^verbatim>\<open>unicode.IsSpace\<close> runes.\<close>

definition is_space_rune :: "nat \<Rightarrow> bool" where
  "is_space_rune r \<longleftrightarrow> (9 \<le> r \<and> r \<le> 13) \<or> r = 32 \<or> r = 133 \<or> r = 160 \<or> r = 5760
     \<or> (8192 \<le> r \<and> r \<le> 8202) \<or> r = 8232 \<or> r = 8233 \<or> r = 8239 \<or> r = 8287 \<or> r = 12288"

lemma is_space_rune_code [code]:
  "is_space_rune r = (if r \<le> 32 then 9 \<le> r \<and> r \<le> 13 \<or> r = 32 else if r < 128 then False else
     r = 133 \<or> r = 160 \<or> r = 5760 \<or> (8192 \<le> r \<and> r \<le> 8202) \<or> r = 8232 \<or> r = 8233 \<or> r = 8239 \<or> r = 8287 \<or> r = 12288)"
  by (simp add: is_space_rune_def)

fun group_fields :: "string \<Rightarrow> (nat \<times> string) list \<Rightarrow> string list" where
  "group_fields w [] = (if w = [] then [] else [w])"
| "group_fields w ((r, b) # rs) =
     (if is_space_rune r then (if w = [] then [] else [w]) @ group_fields [] rs
      else group_fields (w @ b) rs)"

definition splitFields :: "string \<Rightarrow> string list" where
  "splitFields s = group_fields [] (runes s)"

definition trimSpace :: "string \<Rightarrow> string" where
  "trimSpace s = concat (map snd (rev (dropWhile (\<lambda>p. is_space_rune (fst p))
     (rev (dropWhile (\<lambda>p. is_space_rune (fst p)) (runes s))))))"

lemma group_fields_nonempty: "w \<in> set (group_fields v rs) \<Longrightarrow> \<forall>p \<in> set rs. snd p \<noteq> [] \<Longrightarrow> w \<noteq> []"
  by (induction v rs rule: group_fields.induct) (auto split: if_splits)

lemma runes_nonempty_bytes: "p \<in> set (runes s) \<Longrightarrow> snd p \<noteq> []"
proof (induction s rule: runes.induct)
  case (1 s)
  obtain r n where rn: "decodeRune s = (r, n)" by fastforce
  show ?case
  proof (cases "s = []")
    case False
    with 1(2) rn have "p = (r, take n s) \<or> p \<in> set (runes (drop n s))"
      by (simp add: runes.simps [of s])
    with 1(1) False rn show ?thesis using decodeRune_size [of s] by fastforce
  qed (use 1(2) in simp)
qed

lemma fields_nonempty: "w \<in> set (splitFields s) \<Longrightarrow> w \<noteq> []"
  unfolding splitFields_def by (rule group_fields_nonempty) (auto dest: runes_nonempty_bytes)

section \<open>The package's patterns\<close>

fun starts_then :: "(char \<Rightarrow> bool) \<Rightarrow> (char \<Rightarrow> bool) \<Rightarrow> string \<Rightarrow> bool" where
  "starts_then p q [] = False"
| "starts_then p q (c # s) = (p c \<and> list_all q s)"

text \<open>\<^verbatim>\<open>^[a-z][a-z0-9-]{0,63}$\<close>\<close>

definition namePattern :: "string \<Rightarrow> bool" where
  "namePattern s \<longleftrightarrow> length s \<le> 64 \<and>
     starts_then is_lower (\<lambda>c. is_lower c \<or> is_digit c \<or> c = CHR ''-'') s"

text \<open>\<^verbatim>\<open>^[a-z][a-z0-9_]{0,63}$\<close>\<close>

definition identifierPattern :: "string \<Rightarrow> bool" where
  "identifierPattern s \<longleftrightarrow> length s \<le> 64 \<and>
     starts_then is_lower (\<lambda>c. is_lower c \<or> is_digit c \<or> c = CHR ''_'') s"

text \<open>\<^verbatim>\<open>^[a-z][a-z0-9_]*(\.[a-z][a-z0-9_]*)+$\<close>\<close>

definition capabilityPattern :: "string \<Rightarrow> bool" where
  "capabilityPattern s \<longleftrightarrow> (let parts = split_at (CHR ''.'') s in
     2 \<le> length parts \<and>
     list_all (starts_then is_lower (\<lambda>c. is_lower c \<or> is_digit c \<or> c = CHR ''_'')) parts)"

text \<open>\<^verbatim>\<open>^[a-z0-9][a-z0-9._-]*/[A-Za-z0-9][A-Za-z0-9._:-]*$\<close>: neither class holds a slash.\<close>

definition modelPattern :: "string \<Rightarrow> bool" where
  "modelPattern s \<longleftrightarrow> (case split_at (CHR ''/'') s of
     [vendor, model] \<Rightarrow>
       starts_then (\<lambda>c. is_lower c \<or> is_digit c)
         (\<lambda>c. is_lower c \<or> is_digit c \<or> c \<in> set ''._-'') vendor \<and>
       starts_then is_alnum (\<lambda>c. is_alnum c \<or> c \<in> set ''._:-'') model
   | _ \<Rightarrow> False)"

text \<open>\<^verbatim>\<open>^[^\s\x00-\x1f\x7f]{1,256}$\<close>: 1 to 256 runes, no space or control byte.\<close>

definition opaquePattern :: "string \<Rightarrow> bool" where
  "opaquePattern s \<longleftrightarrow> 1 \<le> runeCount s \<and> runeCount s \<le> 256 \<and>
     list_all (\<lambda>c. 32 < ccode c \<and> ccode c \<noteq> 127) s"

text \<open>\<^verbatim>\<open>^[A-Za-z_][A-Za-z0-9_]*$\<close>\<close>

definition refSegment :: "string \<Rightarrow> bool" where
  "refSegment s \<longleftrightarrow> starts_then (\<lambda>c. is_alpha c \<or> c = CHR ''_'') (\<lambda>c. is_alnum c \<or> c = CHR ''_'') s"

text \<open>\<^verbatim>\<open>^-?(0|[1-9][0-9]*)$\<close>: \<^verbatim>\<open>integerText\<close> and \<^verbatim>\<open>plainInteger\<close>.\<close>

definition strip_minus :: "string \<Rightarrow> string" where
  "strip_minus s = (case s of c # t \<Rightarrow> if c = CHR ''-'' then t else s | [] \<Rightarrow> s)"

definition natural_text :: "string \<Rightarrow> bool" where
  "natural_text s \<longleftrightarrow> s \<noteq> [] \<and> list_all is_digit s \<and> (hd s = CHR ''0'' \<longrightarrow> length s = 1)"

definition integerText :: "string \<Rightarrow> bool" where
  "integerText s = natural_text (strip_minus s)"

text \<open>\<^verbatim>\<open>^-?(0|[1-9][0-9]*)\.[0-9]+$\<close>: \<^verbatim>\<open>plainDecimal\<close>.\<close>

definition plainDecimal :: "string \<Rightarrow> bool" where
  "plainDecimal s \<longleftrightarrow> (case split_at (CHR ''.'') (strip_minus s) of
     [whole, fraction] \<Rightarrow> natural_text whole \<and> fraction \<noteq> [] \<and> list_all is_digit fraction
   | _ \<Rightarrow> False)"

text \<open>\<^verbatim>\<open>^-?(0|[1-9][0-9]*)(\.[0-9]+)?$\<close>: \<^verbatim>\<open>decimalText\<close> of execute.go.\<close>

definition decimalText :: "string \<Rightarrow> bool" where
  "decimalText s \<longleftrightarrow> integerText s \<or> plainDecimal s"

lemma refSegment_no_dot: "refSegment s \<Longrightarrow> CHR ''.'' \<notin> set s"
  by (cases s)
    (auto simp: refSegment_def list_all_iff is_alnum_def is_alpha_def is_lower_def is_upper_def
       is_digit_def ccode_def)

lemma refSegment_nonempty: "refSegment s \<Longrightarrow> s \<noteq> []"
  by (auto simp: refSegment_def)

lemma identifier_refSegment: "identifierPattern s \<Longrightarrow> refSegment s"
  by (cases s)
    (auto simp: identifierPattern_def refSegment_def is_alnum_def is_alpha_def list_all_iff)

lemma identifier_nonempty: "identifierPattern s \<Longrightarrow> s \<noteq> []"
  by (auto simp: identifierPattern_def)

end
