(* ===== verification/Values.thy ===== *)
theory Values
  imports GoText
begin

text \<open>
  Canonical values (types.go): string, int64, float64, bool, list and object, with
  \<^verbatim>\<open>nil\<close> for an absent value; their canonical JSON encoding, which decides equality of
  compound values and is digested into the Run Key; and unformatted error messages.
\<close>

section \<open>Values\<close>

datatype val =
    VNil
  | VStr string
  | VInt int
  | VFloat float64
  | VBool bool
  | VList "val list"
  | VObj "(string \<times> val) list"

text \<open>
  An error or a problem message is the format string of its \<^verbatim>\<open>fmt\<close> call and the
  arguments; nothing in the package computes with the formatted text.
\<close>

datatype errmsg = Errf string "farg list"
  and farg = S string | I int | F float64 | V val | Vs "val list" | E errmsg

text \<open>\<^verbatim>\<open>number\<close> of types.go: the float64 of an integer or number value.\<close>

fun number :: "val \<Rightarrow> float64 option" where
  "number (VInt n) = Some (float_of_int n)"
| "number (VFloat x) = Some x"
| "number _ = None"

text \<open>\<^verbatim>\<open>valueKind\<close> of types.go.\<close>

fun valueKind :: "val \<Rightarrow> string" where
  "valueKind VNil = ''nothing''"
| "valueKind (VStr _) = ''string''"
| "valueKind (VInt _) = ''integer''"
| "valueKind (VFloat _) = ''number''"
| "valueKind (VBool _) = ''boolean''"
| "valueKind (VList _) = ''list''"
| "valueKind (VObj _) = ''object''"

section \<open>Float text\<close>

text \<open>
  \<^verbatim>\<open>strconv.FormatFloat\<close> with precision -1: the least number of significant digits that
  reads back as the same value. The result is the digits without trailing zeros and the
  position of the decimal point before them.
\<close>

definition point_position :: "nat \<Rightarrow> nat \<Rightarrow> int" where
  "point_position n d = (let k = int (length (nat_text n)) - int (length (nat_text d)) in
     if d * 10 ^ nat k \<le> n * 10 ^ nat (- k) then k + 1 else k)"

definition digits_at :: "nat \<Rightarrow> nat \<Rightarrow> int \<Rightarrow> nat \<Rightarrow> nat" where
  "digits_at n d k p = (let e = int p - k in
     round_half_even (n * 10 ^ nat e) (d * 10 ^ nat (- e)))"

definition reads_back :: "nat \<Rightarrow> nat \<Rightarrow> int \<Rightarrow> nat \<Rightarrow> bool" where
  "reads_back n d k p = (let e = k - int p in
     round_ratio (digits_at n d k p * 10 ^ nat e) (10 ^ nat (- e)) = Some (of_nat n / of_nat d))"

definition shortest_digits :: "nat \<Rightarrow> nat \<Rightarrow> string \<times> int" where
  "shortest_digits n d = (let
     k = point_position n d;
     p = (case find (reads_back n d k) [1..<18] of Some p \<Rightarrow> p | None \<Rightarrow> 17);
     t = nat_text (digits_at n d k p);
     dp = k + int (length t) - int p
   in (rev (dropWhile (\<lambda>c. c = CHR ''0'') (rev t)), dp))"

definition fixed_text :: "string \<Rightarrow> int \<Rightarrow> string" where
  "fixed_text t dp = (
     if dp \<le> 0 then ''0.'' @ replicate (nat (- dp)) (CHR ''0'') @ t
     else if int (length t) \<le> dp then t @ replicate (nat dp - length t) (CHR ''0'')
     else take (nat dp) t @ ''.'' @ drop (nat dp) t)"

definition exponent_text :: "string \<Rightarrow> int \<Rightarrow> string" where
  "exponent_text t dp = take 1 t @ (if length t = 1 then '''' else ''.'' @ drop 1 t) @
     (if dp - 1 < 0 then ''e-'' else ''e+'') @ nat_text (nat \<bar>dp - 1\<bar>)"

text \<open>The number encoding of \<^verbatim>\<open>encoding/json\<close>: exponents below 1e-6 and from 1e21 on.\<close>

definition json_float :: "float64 \<Rightarrow> string" where
  "json_float x = (case x of NegZero \<Rightarrow> ''-0'' | Fin r \<Rightarrow>
     if r = 0 then ''0'' else
     let (n, d) = quotient_of \<bar>r\<bar>; (t, dp) = shortest_digits (nat n) (nat d) in
     (if r < 0 then ''-'' else '''') @
     (if \<bar>r\<bar> < 1 / 1000000 \<or> of_nat (10 ^ 21) \<le> \<bar>r\<bar> then exponent_text t dp else fixed_text t dp))"

section \<open>Canonical JSON\<close>

definition hex_digit :: "nat \<Rightarrow> char" where
  "hex_digit n = ''0123456789abcdef'' ! n"

text \<open>
  The string encoding of \<^verbatim>\<open>encoding/json\<close> without HTML escaping: control bytes, quotes and
  backslashes are escaped, an invalid byte becomes the escape of U+FFFD, and the line
  separators U+2028 and U+2029 are escaped.
\<close>

definition escape_rune :: "nat \<times> string \<Rightarrow> string" where
  "escape_rune p = (let (r, b) = p in
     if length b = 1 then
       (if r < 128 then
          (if r = 34 \<or> r = 92 then CHR 0x5C # b
           else if r = 8 then CHR 0x5C # ''b''
           else if r = 9 then CHR 0x5C # ''t''
           else if r = 10 then CHR 0x5C # ''n''
           else if r = 12 then CHR 0x5C # ''f''
           else if r = 13 then CHR 0x5C # ''r''
           else if r < 32 then CHR 0x5C # ''u00'' @ [hex_digit (r div 16), hex_digit (r mod 16)]
           else b)
        else CHR 0x5C # ''ufffd'')
     else if r = 8232 \<or> r = 8233 then CHR 0x5C # ''u202'' @ [hex_digit (r mod 16)]
     else b)"

definition json_string :: "string \<Rightarrow> string" where
  "json_string s = CHR 0x22 # concat (map escape_rune (runes s)) @ [CHR 0x22]"

text \<open>\<^verbatim>\<open>canonicalBytes\<close> of types.go; a canonical value always encodes.\<close>

function canonicalBytes :: "val \<Rightarrow> string" where
  "canonicalBytes VNil = ''null''"
| "canonicalBytes (VStr s) = json_string s"
| "canonicalBytes (VInt n) = itoa n"
| "canonicalBytes (VFloat x) = json_float x"
| "canonicalBytes (VBool b) = (if b then ''true'' else ''false'')"
| "canonicalBytes (VList xs) = ''['' @ join '','' (map canonicalBytes xs) @ '']''"
| "canonicalBytes (VObj m) = ''{'' @ join '','' (map (\<lambda>k. json_string k @ '':'' @
     (case map_of m k of Some v \<Rightarrow> canonicalBytes v | None \<Rightarrow> [])) (sortedKeys m)) @ ''}''"
  by pat_completeness auto
termination
  by (relation "measure size") (auto simp: size_list_mem dest!: size_map_of)

text \<open>\<^verbatim>\<open>equalValues\<close>: numbers by value, everything else by canonical encoding.\<close>

definition equalValues :: "val \<Rightarrow> val \<Rightarrow> bool" where
  "equalValues a b = (case number a of
     Some x \<Rightarrow> (case number b of Some y \<Rightarrow> float_eq x y | None \<Rightarrow> False)
   | None \<Rightarrow> canonicalBytes a = canonicalBytes b)"

lemma equalValues_refl [simp]: "equalValues v v"
  by (simp add: equalValues_def float_eq_def split: option.splits)

lemma canonicalBytes_VBool_VStr: "canonicalBytes (VBool b) \<noteq> canonicalBytes (VStr s)"
  by (simp add: json_string_def)

text \<open>\<^verbatim>\<open>slices.ContainsFunc(t.Enum, ...)\<close>\<close>

definition enum_holds :: "val list \<Rightarrow> val \<Rightarrow> bool" where
  "enum_holds es v = list_ex (\<lambda>e. equalValues e v) es"

text \<open>\<^verbatim>\<open>walkValue\<close> of refs.go; a missing field reads as nil.\<close>

fun field_value :: "val \<Rightarrow> string \<Rightarrow> val" where
  "field_value (VObj m) name = (case map_of m name of Some v \<Rightarrow> v | None \<Rightarrow> VNil)"
| "field_value _ name = VNil"

fun walkValue :: "val \<Rightarrow> string list \<Rightarrow> val" where
  "walkValue v [] = v"
| "walkValue v (name # path) = (case v of VObj m \<Rightarrow> walkValue (field_value v name) path | _ \<Rightarrow> VNil)"

lemma walkValue_VNil [simp]: "walkValue VNil p = VNil"
  by (cases p) auto

lemma walkValue_Cons: "walkValue v (name # path) = walkValue (field_value v name) path"
  by (cases v) auto

end
