(* ===== verification/Types.thy ===== *)
theory Types
  imports Values
begin

text \<open>
  The closed type system of types.go: \<^verbatim>\<open>Type\<close>, value checking, assignability and the
  static type of a literal. A \<^verbatim>\<open>*Type\<close> is a \<^typ>\<open>'a option\<close>, \<open>None\<close> for the nil pointer,
  which the source treats as the type of any value; the pointers stored under a property
  are never nil. Checking returns the first error, in the order of the source.
\<close>

section \<open>Types\<close>

datatype kind = KAny | KString | KInteger | KNumber | KBoolean | KObject | KArray

datatype ty = Type
  (Kind: kind)
  (Properties: "(string \<times> ty) list")
  (Required: "string list")
  (Open: bool)
  (Items: "ty option")
  (Enum: "val list")
  (Minimum: "float64 option")
  (Maximum: "float64 option")
  (MinLength: "int option")
  (MaxLength: "int option")
  (MinItems: "int option")
  (MaxItems: "int option")
  (Withheld: string)

definition plain :: "kind \<Rightarrow> ty" where
  "plain k = Type k [] [] False None [] None None None None None None []"

definition AnyType :: ty where "AnyType = plain KAny"
definition StringType :: ty where "StringType = plain KString"
definition IntegerType :: ty where "IntegerType = plain KInteger"
definition NumberType :: ty where "NumberType = plain KNumber"
definition BooleanType :: ty where "BooleanType = plain KBoolean"

definition ArrayType :: "ty option \<Rightarrow> ty" where
  "ArrayType items = Type KArray [] [] False items [] None None None None None None []"

record tfield =
  Name :: string
  FType :: ty
  Optional :: bool

abbreviation fld :: "string \<Rightarrow> ty \<Rightarrow> tfield" where
  "fld n t \<equiv> \<lparr>Name = n, FType = t, Optional = False\<rparr>"

abbreviation optfld :: "string \<Rightarrow> ty \<Rightarrow> tfield" where
  "optfld n t \<equiv> \<lparr>Name = n, FType = t, Optional = True\<rparr>"

text \<open>\<^verbatim>\<open>ObjectType\<close>: properties stored in order (a later field of the same name replaces an
  earlier one), required names sorted.\<close>

definition ObjectType :: "tfield list \<Rightarrow> ty" where
  "ObjectType fs = Type KObject (fold (\<lambda>f m. put (Name f) (FType f) m) fs [])
     (sort (map Name (filter (\<lambda>f. \<not> Optional f) fs))) False None [] None None None None None None []"

definition openObject :: "tfield list \<Rightarrow> ty" where
  "openObject fs = (case ObjectType fs of Type k ps rs o1 it en mn mx nl xl ni xi w \<Rightarrow>
     Type k ps rs True it en mn mx nl xl ni xi w)"

definition set_MaxItems :: "ty \<Rightarrow> int option \<Rightarrow> ty" where
  "set_MaxItems t n = Type (Kind t) (Properties t) (Required t) (Open t) (Items t) (Enum t)
     (Minimum t) (Maximum t) (MinLength t) (MaxLength t) (MinItems t) n (Withheld t)"

definition set_MinItems :: "ty \<Rightarrow> int option \<Rightarrow> ty" where
  "set_MinItems t n = Type (Kind t) (Properties t) (Required t) (Open t) (Items t) (Enum t)
     (Minimum t) (Maximum t) (MinLength t) (MaxLength t) n (MaxItems t) (Withheld t)"

definition set_Withheld :: "ty \<Rightarrow> string \<Rightarrow> ty" where
  "set_Withheld t w = Type (Kind t) (Properties t) (Required t) (Open t) (Items t) (Enum t)
     (Minimum t) (Maximum t) (MinLength t) (MaxLength t) (MinItems t) (MaxItems t) w"

definition set_Properties :: "ty \<Rightarrow> (string \<times> ty) list \<Rightarrow> string list \<Rightarrow> ty" where
  "set_Properties t ps rs = Type (Kind t) ps rs (Open t) (Items t) (Enum t)
     (Minimum t) (Maximum t) (MinLength t) (MaxLength t) (MinItems t) (MaxItems t) (Withheld t)"

lemma size_Items: "Items t = Some u \<Longrightarrow> size u < size t"
  by (cases t) auto

lemma size_Property: "map_of (Properties t) k = Some u \<Longrightarrow> size u < size t"
  by (cases t) (auto dest!: size_map_of)

text \<open>\<^verbatim>\<open>isAny\<close>, \<^verbatim>\<open>requires\<close>\<close>

definition isAny :: "ty option \<Rightarrow> bool" where
  "isAny t = (case t of None \<Rightarrow> True | Some u \<Rightarrow> Kind u = KAny)"

definition requires :: "ty \<Rightarrow> string \<Rightarrow> bool" where
  "requires t name \<longleftrightarrow> name \<in> set (Required t)"

lemma isAny_simps [simp]: "isAny None" "isAny (Some u) \<longleftrightarrow> Kind u = KAny"
  by (simp_all add: isAny_def)

fun kind_text :: "kind \<Rightarrow> string" where
  "kind_text KAny = ''any''"
| "kind_text KString = ''string''"
| "kind_text KInteger = ''integer''"
| "kind_text KNumber = ''number''"
| "kind_text KBoolean = ''boolean''"
| "kind_text KObject = ''object''"
| "kind_text KArray = ''array''"

text \<open>\<^verbatim>\<open>describe\<close>: at most four field names, then an ellipsis (U+2026).\<close>

function describe :: "ty option \<Rightarrow> string" where
  "describe None = ''any value''"
| "describe (Some t) = (case Kind t of
     KAny \<Rightarrow> ''any value''
   | KArray \<Rightarrow> ''list of '' @ describe (Items t)
   | KObject \<Rightarrow> (let names = sortedKeys (Properties t);
         shown = (if 4 < length names then take 4 names @ [[CHR 0xE2, CHR 0x80, CHR 0xA6]] else names)
       in ''object{'' @ join '', '' shown @ ''}'')
   | k \<Rightarrow> kind_text k)"
  by pat_completeness auto
termination
proof (relation "measure (\<lambda>t. case t of None \<Rightarrow> 0 | Some u \<Rightarrow> size u)", goal_cases)
  case (2 t)
  then show ?case using size_Items [of t] by (cases t) (auto split: option.splits)
qed simp

text \<open>\<^verbatim>\<open>field\<close>: \<open>None\<close> when there is no such field.\<close>

definition field :: "ty option \<Rightarrow> string \<Rightarrow> ty option" where
  "field t name = (case t of None \<Rightarrow> Some AnyType
   | Some u \<Rightarrow> if Kind u = KAny then Some AnyType
       else if Kind u \<noteq> KObject then None
       else (case map_of (Properties u) name of
           Some f \<Rightarrow> Some f
         | None \<Rightarrow> if Open u then Some AnyType else None))"

section \<open>Checking a value\<close>

definition joinPath :: "string \<Rightarrow> string \<Rightarrow> string" where
  "joinPath path name = (if path = [] then name else path @ ''.'' @ name)"

definition atPath :: "string \<Rightarrow> string \<Rightarrow> farg list \<Rightarrow> errmsg" where
  "atPath path format args = Errf (''%s: '' @ format) (S (if path = [] then ''value'' else path) # args)"

definition wrong_kind :: "string \<Rightarrow> string \<Rightarrow> val \<Rightarrow> errmsg option" where
  "wrong_kind path want v = Some (atPath path (''expected '' @ want @ '', got %s'') [S (valueKind v)])"

text \<open>The length bounds of a string and of a list.\<close>

definition below :: "int \<Rightarrow> int option \<Rightarrow> bool" where
  "below n lo = (case lo of None \<Rightarrow> False | Some l \<Rightarrow> n < l)"

definition beyond :: "int \<Rightarrow> int option \<Rightarrow> bool" where
  "beyond n hi = (case hi of None \<Rightarrow> False | Some h \<Rightarrow> h < n)"

definition check_length :: "ty \<Rightarrow> string \<Rightarrow> string \<Rightarrow> errmsg option" where
  "check_length t s path = (let n = int (runeCount s) in
     or_err (err_if (below n (MinLength t)) (atPath path ''shorter than %d characters'' [I (the (MinLength t))]))
       (err_if (beyond n (MaxLength t)) (atPath path ''longer than %d characters'' [I (the (MaxLength t))])))"

definition check_count :: "ty \<Rightarrow> val list \<Rightarrow> string \<Rightarrow> errmsg option" where
  "check_count t list path = (let n = int (length list) in
     or_err (err_if (below n (MinItems t)) (atPath path ''has %d items; at least %d'' [I n, I (the (MinItems t))]))
       (err_if (beyond n (MaxItems t)) (atPath path ''has %d items; at most %d'' [I n, I (the (MaxItems t))])))"

text \<open>The minimum and maximum of an integer or number, then the enumeration of any kind.\<close>

definition check_bounds :: "ty \<Rightarrow> val \<Rightarrow> string \<Rightarrow> errmsg option" where
  "check_bounds t v path = (case number v of None \<Rightarrow> None | Some n \<Rightarrow>
     if Kind t \<noteq> KInteger \<and> Kind t \<noteq> KNumber then None
     else or_err
       (case Minimum t of None \<Rightarrow> None
        | Some lo \<Rightarrow> err_if (float_less n lo) (atPath path ''below the minimum %s'' [F lo]))
       (case Maximum t of None \<Rightarrow> None
        | Some hi \<Rightarrow> err_if (float_less hi n) (atPath path ''above the maximum %s'' [F hi])))"

definition check_enum :: "ty \<Rightarrow> val \<Rightarrow> string \<Rightarrow> errmsg option" where
  "check_enum t v path = err_if (Enum t \<noteq> [] \<and> \<not> enum_holds (Enum t) v)
     (atPath path ''%s is not one of %s'' [V v, Vs (Enum t)])"

text \<open>\<^verbatim>\<open>checkAt\<close>\<close>

function checkAt :: "ty option \<Rightarrow> val \<Rightarrow> string \<Rightarrow> errmsg option" where
  "checkAt None v path = None"
| "checkAt (Some t) v path = (
     if Kind t = KAny then None
     else if v = VNil then Some (atPath path ''expected %s, got nothing'' [S (describe (Some t))])
     else or_err
       (case Kind t of
          KString \<Rightarrow> (case v of VStr s \<Rightarrow> check_length t s path | _ \<Rightarrow> wrong_kind path ''string'' v)
        | KInteger \<Rightarrow> (case v of VInt _ \<Rightarrow> None | _ \<Rightarrow> wrong_kind path ''integer'' v)
        | KNumber \<Rightarrow> (case v of VInt _ \<Rightarrow> None | VFloat _ \<Rightarrow> None | _ \<Rightarrow> wrong_kind path ''number'' v)
        | KBoolean \<Rightarrow> (case v of VBool _ \<Rightarrow> None | _ \<Rightarrow> wrong_kind path ''boolean'' v)
        | KArray \<Rightarrow> (case v of
            VList list \<Rightarrow> or_err (check_count t list path)
              (first_err (\<lambda>(i, item). checkAt (Items t) item (path @ ''['' @ itoa (int i) @ '']''))
                (List.enumerate 0 list))
          | _ \<Rightarrow> wrong_kind path ''list'' v)
        | KObject \<Rightarrow> (case v of
            VObj m \<Rightarrow> or_err
              (first_err (\<lambda>name. err_if (\<not> hasKey m name) (atPath path ''missing field %s'' [S name])) (Required t))
              (first_err (\<lambda>name. case map_of (Properties t) name of
                   None \<Rightarrow> err_if (\<not> Open t) (atPath path ''unexpected field %s'' [S name])
                 | Some ft \<Rightarrow> (case map_of m name of None \<Rightarrow> None
                     | Some x \<Rightarrow> checkAt (Some ft) x (joinPath path name)))
                (sortedKeys m))
          | _ \<Rightarrow> wrong_kind path ''object'' v)
        | KAny \<Rightarrow> None)
       (or_err (check_bounds t v path) (check_enum t v path)))"
  by pat_completeness auto
termination
  by (relation "measure (\<lambda>(t, v, path). size v)")
    (auto simp: in_set_enumerate_eq size_list_mem dest!: size_map_of)

text \<open>\<^verbatim>\<open>checkValue\<close>\<close>

definition checkValue :: "ty option \<Rightarrow> val \<Rightarrow> errmsg option" where
  "checkValue t v = checkAt t v []"

declare checkAt.simps(2) [simp del]

section \<open>What a conforming value is\<close>

text \<open>
  The specification \<^verbatim>\<open>checkAt\<close> implements, without messages, paths and evaluation order.
\<close>

definition in_float_range :: "ty \<Rightarrow> float64 \<Rightarrow> bool" where
  "in_float_range t n \<longleftrightarrow>
     (\<forall>lo. Minimum t = Some lo \<longrightarrow> fval lo \<le> fval n) \<and> (\<forall>hi. Maximum t = Some hi \<longrightarrow> fval n \<le> fval hi)"

definition in_count_range :: "int option \<Rightarrow> int option \<Rightarrow> nat \<Rightarrow> bool" where
  "in_count_range lo hi n \<longleftrightarrow> (\<forall>l. lo = Some l \<longrightarrow> l \<le> int n) \<and> (\<forall>h. hi = Some h \<longrightarrow> int n \<le> h)"

inductive conforms :: "ty option \<Rightarrow> val \<Rightarrow> bool" where
  any: "isAny t \<Longrightarrow> conforms t v"
| string: "Kind t = KString \<Longrightarrow> in_count_range (MinLength t) (MaxLength t) (runeCount s) \<Longrightarrow>
    Enum t = [] \<or> enum_holds (Enum t) (VStr s) \<Longrightarrow> conforms (Some t) (VStr s)"
| integer: "Kind t = KInteger \<or> Kind t = KNumber \<Longrightarrow> in_float_range t (float_of_int n) \<Longrightarrow>
    Enum t = [] \<or> enum_holds (Enum t) (VInt n) \<Longrightarrow> conforms (Some t) (VInt n)"
| float: "Kind t = KNumber \<Longrightarrow> in_float_range t x \<Longrightarrow>
    Enum t = [] \<or> enum_holds (Enum t) (VFloat x) \<Longrightarrow> conforms (Some t) (VFloat x)"
| boolean: "Kind t = KBoolean \<Longrightarrow> Enum t = [] \<or> enum_holds (Enum t) (VBool b) \<Longrightarrow>
    conforms (Some t) (VBool b)"
| array: "Kind t = KArray \<Longrightarrow> in_count_range (MinItems t) (MaxItems t) (length xs) \<Longrightarrow>
    (\<And>x. x \<in> set xs \<Longrightarrow> conforms (Items t) x) \<Longrightarrow>
    Enum t = [] \<or> enum_holds (Enum t) (VList xs) \<Longrightarrow> conforms (Some t) (VList xs)"
| object: "Kind t = KObject \<Longrightarrow> (\<And>name. name \<in> set (Required t) \<Longrightarrow> map_of m name \<noteq> None) \<Longrightarrow>
    (\<And>name x ft. map_of m name = Some x \<Longrightarrow> map_of (Properties t) name = Some ft \<Longrightarrow> conforms (Some ft) x) \<Longrightarrow>
    (\<And>name x. map_of m name = Some x \<Longrightarrow> map_of (Properties t) name = None \<Longrightarrow> Open t) \<Longrightarrow>
    Enum t = [] \<or> enum_holds (Enum t) (VObj m) \<Longrightarrow> conforms (Some t) (VObj m)"

inductive_simps conforms_nil_ty [simp]: "conforms None v"
inductive_simps conforms_VNil: "conforms (Some t) VNil"
inductive_simps conforms_VStr: "conforms (Some t) (VStr s)"
inductive_simps conforms_VInt: "conforms (Some t) (VInt n)"
inductive_simps conforms_VFloat: "conforms (Some t) (VFloat x)"
inductive_simps conforms_VBool: "conforms (Some t) (VBool b)"
inductive_simps conforms_VList: "conforms (Some t) (VList xs)"
inductive_simps conforms_VObj: "conforms (Some t) (VObj m)"

lemmas conforms_simps = conforms_VNil conforms_VStr conforms_VInt conforms_VFloat conforms_VBool
  conforms_VList conforms_VObj

lemma check_length_None:
  "check_length t s path = None \<longleftrightarrow> in_count_range (MinLength t) (MaxLength t) (runeCount s)"
  by (auto simp: check_length_def in_count_range_def below_def beyond_def Let_def split: option.splits)

lemma check_count_None:
  "check_count t xs path = None \<longleftrightarrow> in_count_range (MinItems t) (MaxItems t) (length xs)"
  by (auto simp: check_count_def in_count_range_def below_def beyond_def Let_def split: option.splits)

lemma check_bounds_None:
  "check_bounds t v path = None \<longleftrightarrow>
     (\<forall>n. number v = Some n \<longrightarrow> Kind t = KInteger \<or> Kind t = KNumber \<longrightarrow> in_float_range t n)"
  by (auto simp: check_bounds_def in_float_range_def float_less_def split: option.splits)

lemma check_enum_None:
  "check_enum t v path = None \<longleftrightarrow> Enum t = [] \<or> enum_holds (Enum t) v"
  by (auto simp: check_enum_def)

lemmas check_None = check_length_None check_count_None check_bounds_None check_enum_None

lemma wrong_kind_neq [simp]: "wrong_kind path want v \<noteq> None"
  by (simp add: wrong_kind_def)

lemma ball_enumerate: "(\<forall>(i, x) \<in> set (List.enumerate n xs). P x) \<longleftrightarrow> (\<forall>x \<in> set xs. P x)"
  by (induction xs arbitrary: n) auto

lemma conforms_KAny [simp]: "Kind t = KAny \<Longrightarrow> conforms (Some t) v"
  by (simp add: conforms.any)

lemma conforms_AnyType [simp]: "conforms (Some AnyType) v"
  by (simp add: AnyType_def plain_def)

text \<open>The entry of one field of an object value, on both sides.\<close>

definition check_entry :: "ty \<Rightarrow> (string \<times> val) list \<Rightarrow> string \<Rightarrow> string \<Rightarrow> errmsg option" where
  "check_entry t m path name = (case map_of (Properties t) name of
     None \<Rightarrow> err_if (\<not> Open t) (atPath path ''unexpected field %s'' [S name])
   | Some ft \<Rightarrow> (case map_of m name of None \<Rightarrow> None
       | Some x \<Rightarrow> checkAt (Some ft) x (joinPath path name)))"

definition entry_conforms :: "ty \<Rightarrow> string \<Rightarrow> val \<Rightarrow> bool" where
  "entry_conforms t name x =
     (case map_of (Properties t) name of None \<Rightarrow> Open t | Some ft \<Rightarrow> conforms (Some ft) x)"

lemma checkAt_object:
  "Kind t = KObject \<Longrightarrow> checkAt (Some t) (VObj m) path = None \<longleftrightarrow>
     (\<forall>name \<in> set (Required t). hasKey m name) \<and>
     (\<forall>name \<in> set (sortedKeys m). check_entry t m path name = None) \<and>
     (Enum t = [] \<or> enum_holds (Enum t) (VObj m))"
  unfolding check_entry_def
  by (simp add: checkAt.simps(2) first_err_None check_bounds_None check_enum_None)

lemma conforms_object:
  "Kind t = KObject \<Longrightarrow> conforms (Some t) (VObj m) \<longleftrightarrow>
     (\<forall>name \<in> set (Required t). hasKey m name) \<and>
     (\<forall>name x. map_of m name = Some x \<longrightarrow> entry_conforms t name x) \<and>
     (Enum t = [] \<or> enum_holds (Enum t) (VObj m))"
  unfolding conforms_VObj entry_conforms_def hasKey_def by (simp split: option.splits) blast

lemma checkAt_conforms: "checkAt t v path = None \<longleftrightarrow> conforms t v"
proof (induction t v path rule: checkAt.induct)
  case (2 t v path)
  show ?case
  proof (cases "Kind t = KAny")
    case True
    then show ?thesis by (simp add: checkAt.simps(2) conforms.any)
  next
    case any: False
    show ?thesis
    proof (cases v)
      case (VList xs)
      have items: "(\<forall>p \<in> set (List.enumerate 0 xs).
          (case p of (i, item) \<Rightarrow> checkAt (Items t) item (path @ ''['' @ itoa (int i) @ '']'')) = None)
        \<longleftrightarrow> (\<forall>x \<in> set xs. conforms (Items t) x)" if "Kind t = KArray"
        using "2.IH"(2) any that VList ball_enumerate [of 0 xs "conforms (Items t)"]
        by (fastforce simp: split_beta)
      show ?thesis
        using any VList items
        by (cases "Kind t") (auto simp: checkAt.simps(2) conforms_VList first_err_None check_None)
    next
      case (VObj m)
      have props: "(\<forall>name \<in> set (sortedKeys m). check_entry t m path name = None) \<longleftrightarrow>
          (\<forall>name x. map_of m name = Some x \<longrightarrow> entry_conforms t name x)" if "Kind t = KObject"
      proof -
        have "check_entry t m path name = None \<longleftrightarrow> entry_conforms t name x"
          if "name \<in> set (sortedKeys m)" "map_of m name = Some x" for name x
          using "2.IH"(1) any \<open>Kind t = KObject\<close> that VObj
          by (auto simp: check_entry_def entry_conforms_def split: option.splits)
        then show ?thesis
          using in_sortedKeysD map_of_in_sortedKeys by metis
      qed
      show ?thesis
      proof (cases "Kind t = KObject")
        case True
        then show ?thesis by (simp add: VObj checkAt_object conforms_object props)
      qed (use any VObj in \<open>cases "Kind t"; auto simp: checkAt.simps(2) conforms_VObj\<close>)
    qed (cases "Kind t"; use any in \<open>auto simp: checkAt.simps(2) conforms_simps check_None\<close>)+
  qed
qed simp

end
