(* ===== verification/Assign.thy ===== *)
theory Assign
  imports Types
begin

text \<open>
  Assignability between types (types.go, \<^verbatim>\<open>assignable\<close>) and the static type of a literal,
  with what a successful check promises about values: a value of the source type has every
  field the destination requires and the destination's kinds throughout. It promises nothing
  about the destination's bounds, enumerations or closedness, which the run time checks.
\<close>

section \<open>Assignability\<close>

function assignable :: "ty option \<Rightarrow> ty option \<Rightarrow> errmsg option" where
  "assignable None d = None"
| "assignable (Some s) None = None"
| "assignable (Some s) (Some d) = (
     if Kind d = KAny \<or> Kind s = KAny then None
     else if Kind d = KNumber \<and> Kind s = KInteger then None
     else if Kind s \<noteq> Kind d then Some (Errf ''%s is not %s'' [S (describe (Some s)), S (describe (Some d))])
     else (case Kind d of
       KArray \<Rightarrow> map_option (\<lambda>e. Errf ''items: %w'' [E e]) (assignable (Items s) (Items d))
     | KObject \<Rightarrow> first_err (\<lambda>name. case map_of (Properties s) name of
           None \<Rightarrow> err_if (requires d name) (Errf ''missing field %s'' [S name])
         | Some sp \<Rightarrow> or_err
             (err_if (requires d name \<and> \<not> requires s name) (Errf ''field %s may be absent'' [S name]))
             (case map_of (Properties d) name of None \<Rightarrow> None
              | Some dp \<Rightarrow> map_option (\<lambda>e. Errf ''field %s: %w'' [S name, E e]) (assignable (Some sp) (Some dp))))
         (sortedKeys (Properties d))
     | _ \<Rightarrow> None))"
  by pat_completeness auto
termination
proof (relation "measure (\<lambda>(s, d). case d of None \<Rightarrow> 0 | Some u \<Rightarrow> size u)", goal_cases)
  case (2 s d name sp dp)
  then show ?case using size_Property [of d name dp] by simp
next
  case (3 s d)
  then show ?case using size_Items [of d] by (cases d) (auto split: option.splits)
qed simp

declare assignable.simps(3) [simp del]

text \<open>The source's \<^verbatim>\<open>typeOfValue\<close>: a list literal has the type of its first element.\<close>

function typeOfValue :: "val \<Rightarrow> ty" where
  "typeOfValue VNil = AnyType"
| "typeOfValue (VStr _) = StringType"
| "typeOfValue (VInt _) = IntegerType"
| "typeOfValue (VFloat _) = NumberType"
| "typeOfValue (VBool _) = BooleanType"
| "typeOfValue (VList xs) = (case xs of [] \<Rightarrow> ArrayType (Some AnyType)
     | x # _ \<Rightarrow> ArrayType (Some (typeOfValue x)))"
| "typeOfValue (VObj m) = ObjectType (map (\<lambda>k. fld k
     (case map_of m k of Some v \<Rightarrow> typeOfValue v | None \<Rightarrow> AnyType)) (sortedKeys m))"
  by pat_completeness auto
termination
  by (relation "measure size") (auto dest!: size_map_of)

section \<open>What assignability promises\<close>

text \<open>A type without bounds, enumerations and closed objects: its kinds and required fields.\<close>

primrec erase :: "ty \<Rightarrow> ty" where
  "erase (Type k ps rs opn it en mn mx nl xl ni xi w) =
     Type k (map (map_prod id erase) ps) rs True (map_option erase it) [] None None None None None None w"

text \<open>No part of the type accepts any value, and every object is closed.\<close>

function strict :: "ty \<Rightarrow> bool" where
  "strict t \<longleftrightarrow> Kind t \<noteq> KAny \<and>
     (Kind t = KArray \<longrightarrow> (case Items t of None \<Rightarrow> False | Some u \<Rightarrow> strict u)) \<and>
     (Kind t = KObject \<longrightarrow> \<not> Open t \<and> list_all (\<lambda>k. case map_of (Properties t) k of
        None \<Rightarrow> True | Some u \<Rightarrow> strict u) (map fst (Properties t)))"
  by pat_completeness auto
termination
  by (relation "measure size") (auto dest: size_Property size_Items)

text \<open>Every required field is a declared property, at every depth.\<close>

function wf_ty :: "ty \<Rightarrow> bool" where
  "wf_ty t \<longleftrightarrow> set (Required t) \<subseteq> fst ` set (Properties t) \<and>
     (case Items t of None \<Rightarrow> True | Some u \<Rightarrow> wf_ty u) \<and>
     list_all (\<lambda>k. case map_of (Properties t) k of None \<Rightarrow> True | Some u \<Rightarrow> wf_ty u) (map fst (Properties t))"
  by pat_completeness auto
termination
  by (relation "measure size") (auto dest: size_Property size_Items)

declare strict.simps [simp del] wf_ty.simps [simp del]

lemma erase_sel [simp]:
  "Kind (erase t) = Kind t" "Required (erase t) = Required t" "Open (erase t)"
  "Enum (erase t) = []" "Minimum (erase t) = None" "Maximum (erase t) = None"
  "MinLength (erase t) = None" "MaxLength (erase t) = None" "MinItems (erase t) = None"
  "MaxItems (erase t) = None" "Items (erase t) = map_option erase (Items t)"
  by (cases t; simp)+

lemma map_of_map_prod: "map_of (map (map_prod id f) ps) k = map_option f (map_of ps k)"
  by (induction ps) auto

lemma erase_property [simp]: "map_of (Properties (erase t)) k = map_option erase (map_of (Properties t) k)"
  by (cases t) (simp add: map_of_map_prod)

lemma strict_item: "strict t \<Longrightarrow> Kind t = KArray \<Longrightarrow> \<exists>u. Items t = Some u \<and> strict u"
  by (subst (asm) strict.simps) (auto split: option.splits)

lemma strict_property: "strict t \<Longrightarrow> Kind t = KObject \<Longrightarrow> map_of (Properties t) k = Some u \<Longrightarrow> strict u"
  by (subst (asm) strict.simps)
    (auto split: option.splits)

lemma strict_closed: "strict t \<Longrightarrow> Kind t = KObject \<Longrightarrow> \<not> Open t"
  by (subst (asm) strict.simps) simp

lemma strict_not_any: "strict t \<Longrightarrow> Kind t \<noteq> KAny"
  by (subst (asm) strict.simps) simp

lemma wf_ty_item: "wf_ty t \<Longrightarrow> Items t = Some u \<Longrightarrow> wf_ty u"
  by (subst (asm) wf_ty.simps) simp

lemma wf_ty_property: "wf_ty t \<Longrightarrow> map_of (Properties t) k = Some u \<Longrightarrow> wf_ty u"
  by (subst (asm) wf_ty.simps)
    (auto split: option.splits)

lemma wf_ty_required: "wf_ty t \<Longrightarrow> k \<in> set (Required t) \<Longrightarrow> \<exists>u. map_of (Properties t) k = Some u"
  by (subst (asm) wf_ty.simps) (auto simp: map_of_eq_None_iff image_iff dest!: subsetD weak_map_of_SomeI)

lemma conforms_erase_scalar:
  "Kind t \<noteq> KArray \<Longrightarrow> Kind t \<noteq> KObject \<Longrightarrow> conforms (Some t) v \<Longrightarrow> conforms (Some (erase t)) v"
  by (cases v) (auto simp: conforms_simps in_count_range_def in_float_range_def)

text \<open>Assignable objects, field by field.\<close>

lemma assignable_field:
  assumes ok: "assignable (Some s) (Some d) = None" and "Kind s = KObject" "Kind d = KObject"
    and dp: "map_of (Properties d) k = Some dp"
  shows "case map_of (Properties s) k of None \<Rightarrow> \<not> requires d k
    | Some sp \<Rightarrow> (requires d k \<longrightarrow> requires s k) \<and> assignable (Some sp) (Some dp) = None"
proof -
  have "k \<in> set (sortedKeys (Properties d))" using dp by (rule map_of_in_sortedKeys)
  with ok assms(2,3) have "(case map_of (Properties s) k of
           None \<Rightarrow> err_if (requires d k) (Errf ''missing field %s'' [S k])
         | Some sp \<Rightarrow> or_err
             (err_if (requires d k \<and> \<not> requires s k) (Errf ''field %s may be absent'' [S k]))
             (case map_of (Properties d) k of None \<Rightarrow> None
              | Some dp \<Rightarrow> map_option (\<lambda>e. Errf ''field %s: %w'' [S k, E e]) (assignable (Some sp) (Some dp)))) = None"
    by (simp add: assignable.simps(3) first_err_None)
  then show ?thesis using dp by (auto split: option.splits)
qed

lemma assignable_same_kind:
  "assignable (Some s) (Some d) = None \<Longrightarrow> strict s \<Longrightarrow>
     Kind d = KAny \<or> Kind s = Kind d \<or> Kind s = KInteger \<and> Kind d = KNumber"
  by (auto simp: assignable.simps(3) dest: strict_not_any split: if_splits)

text \<open>The object case of soundness, given soundness of the fields.\<close>

lemma assignable_object_conforms:
  assumes ok: "assignable (Some s) (Some d) = None" and ks: "Kind s = KObject" and kd: "Kind d = KObject"
    and strict: "strict s" and wf: "wf_ty d" and cs: "conforms (Some s) (VObj m)"
    and fields: "\<And>k sp dp x. map_of (Properties s) k = Some sp \<Longrightarrow> map_of (Properties d) k = Some dp \<Longrightarrow>
      assignable (Some sp) (Some dp) = None \<Longrightarrow> conforms (Some sp) x \<Longrightarrow> conforms (Some (erase dp)) x"
  shows "conforms (Some (erase d)) (VObj m)"
proof -
  have "hasKey m k" if k: "k \<in> set (Required d)" for k
  proof -
    obtain dp where dp: "map_of (Properties d) k = Some dp"
      using wf_ty_required [OF wf k] by blast
    have "requires s k"
      using assignable_field [OF ok ks kd dp] k by (auto simp: requires_def split: option.splits)
    then show ?thesis using cs by (simp add: conforms_object [OF ks] requires_def)
  qed
  moreover have "entry_conforms (erase d) k x" if x: "map_of m k = Some x" for k x
  proof (cases "map_of (Properties d) k")
    case (Some dp)
    have "entry_conforms s k x" using cs x by (simp add: conforms_object [OF ks])
    then obtain sp where sp: "map_of (Properties s) k = Some sp" and "conforms (Some sp) x"
      using strict_closed [OF strict ks] by (auto simp: entry_conforms_def split: option.splits)
    then show ?thesis
      using fields [OF sp Some] assignable_field [OF ok ks kd Some]
      by (simp add: entry_conforms_def Some)
  qed (simp add: entry_conforms_def)
  ultimately show ?thesis using kd by (simp add: conforms_object)
qed

lemma assignable_array_conforms:
  assumes ok: "assignable (Some s) (Some d) = None" and ks: "Kind s = KArray" and kd: "Kind d = KArray"
    and strict: "strict s" and cs: "conforms (Some s) v"
    and item: "\<And>u x. Items s = Some u \<Longrightarrow> strict u \<Longrightarrow> assignable (Some u) (Items d) = None \<Longrightarrow>
      conforms (Some u) x \<Longrightarrow> conforms (map_option erase (Items d)) x"
  shows "conforms (Some (erase d)) v"
proof -
  obtain u where u: "Items s = Some u" "strict u"
    using strict_item [OF strict ks] by blast
  obtain xs where v: "v = VList xs" and xs: "\<forall>x \<in> set xs. conforms (Some u) x"
    using cs ks u by (cases v) (auto simp: conforms_simps)
  have "assignable (Some u) (Items d) = None"
    using ok ks kd u by (simp add: assignable.simps(3))
  then have "\<forall>x \<in> set xs. conforms (map_option erase (Items d)) x"
    using item [OF u] xs by blast
  then show ?thesis using kd by (simp add: v conforms_VList in_count_range_def)
qed

text \<open>
  Soundness: a value that conforms to a strict source type conforms to the destination with
  its bounds, enumerations and closedness erased.
\<close>

lemma assignable_sound:
  "assignable s d = None \<Longrightarrow> (\<forall>t. s = Some t \<longrightarrow> strict t) \<Longrightarrow> (\<forall>t. d = Some t \<longrightarrow> wf_ty t) \<Longrightarrow>
   s \<noteq> None \<Longrightarrow> conforms s v \<Longrightarrow> conforms (map_option erase d) v"
proof (induction s d arbitrary: v rule: assignable.induct)
  case (3 s d)
  have strict: "strict s" and wf: "wf_ty d" and conf: "conforms (Some s) v"
    using "3.prems" by auto
  consider "Kind d = KAny" | "Kind s = KInteger" "Kind d = KNumber" | "Kind s = Kind d" "Kind d \<noteq> KAny"
    using assignable_same_kind [OF "3.prems"(1) strict] by blast
  then show ?case
  proof cases
    case 1
    then show ?thesis by (simp add: conforms.any)
  next
    case 2
    then show ?thesis
      using conf by (cases v) (auto simp: conforms_simps in_float_range_def)
  next
    case same: 3
    consider "Kind d = KArray" | "Kind d = KObject" | "Kind d \<noteq> KArray" "Kind d \<noteq> KObject" by blast
    then show ?thesis
    proof cases
      case 1
      then show ?thesis
        using assignable_array_conforms [OF "3.prems"(1) _ 1 strict conf] "3.IH"(2) same wf wf_ty_item
        by simp
    next
      case obj: 2
      with conf same obtain m where v: "v = VObj m"
        by (cases v) (auto simp: conforms_simps)
      have "conforms (Some (erase dp)) x"
        if "map_of (Properties s) k = Some sp" "map_of (Properties d) k = Some dp"
          "assignable (Some sp) (Some dp) = None" "conforms (Some sp) x" for k sp dp x
        using "3.IH"(1) same obj that strict_property [OF strict] wf_ty_property [OF wf]
          map_of_in_sortedKeys [OF that(2)] by simp
      then show ?thesis
        unfolding v using assignable_object_conforms [OF "3.prems"(1) _ obj strict wf] same obj conf v
        by simp
    next
      case 3
      then show ?thesis
        using same conf by (cases v) (auto simp: conforms_simps in_count_range_def in_float_range_def)
    qed
  qed
qed simp_all

end
