(* ===== verification/Refs.thy ===== *)
theory Refs
  imports Assign
begin

text \<open>
  References (refs.go): the only way a value flows between steps. A reference is parsed from
  its text, its field path is followed through a type when the definition is validated and
  through a value when the run reads it.
\<close>

section \<open>Parsing\<close>

record ref =
  Raw :: string
  Root :: string
  RName :: string
  Path :: "string list"

definition refInputs :: string where "refInputs = ''inputs''"
definition refSteps :: string where "refSteps = ''steps''"
definition refItem :: string where "refItem = ''item''"
definition refSchedule :: string where "refSchedule = ''schedule''"

lemmas root_defs = refInputs_def refSteps_def refItem_def refSchedule_def

definition refHelp :: string where
  "refHelp = ''use $inputs.<name>, $steps.<id>.output or $item, with dotted field names''"

definition isRefText :: "string \<Rightarrow> bool" where
  "isRefText s = hasPrefix s ''$''"

definition bad_ref :: "string \<Rightarrow> errmsg + ref" where
  "bad_ref s = Inl (Errf ''%s is not a reference; %s'' [S s, S refHelp])"

definition parseRef :: "string \<Rightarrow> errmsg + ref" where
  "parseRef s = (
     if \<not> hasPrefix s ''$'' then bad_ref s
     else let parts = split_at (CHR ''.'') (drop 1 s); n = length parts; rt = hd parts in
       if \<not> list_all refSegment parts then bad_ref s
       else if rt = refInputs then
         (if n < 2 then bad_ref s
          else Inr \<lparr>Raw = s, Root = rt, RName = parts ! 1, Path = drop 2 parts\<rparr>)
       else if rt = refSteps then
         (if n < 3 \<or> parts ! 2 \<noteq> ''output'' then bad_ref s
          else Inr \<lparr>Raw = s, Root = rt, RName = parts ! 1, Path = drop 3 parts\<rparr>)
       else if rt = refItem then
         Inr \<lparr>Raw = s, Root = rt, RName = [], Path = drop 1 parts\<rparr>
       else if rt = refSchedule then
         (if n \<noteq> 2 \<or> (parts ! 1 \<noteq> ''date'' \<and> parts ! 1 \<noteq> ''time'')
          then Inl (Errf ''%s is not a schedule value; use $schedule.date or $schedule.time'' [S s])
          else Inr \<lparr>Raw = s, Root = rt, RName = parts ! 1, Path = []\<rparr>)
       else bad_ref s)"

text \<open>The text of a reference, from its parts: the grammar the comment of \<^verbatim>\<open>Ref\<close> states.\<close>

definition ref_parts :: "string \<Rightarrow> string \<Rightarrow> string list \<Rightarrow> string list" where
  "ref_parts rt name path = (
     if rt = refInputs then [rt, name] @ path
     else if rt = refSteps then [rt, name, ''output''] @ path
     else if rt = refItem then rt # path
     else [rt, name])"

definition ref_text :: "string \<Rightarrow> string \<Rightarrow> string list \<Rightarrow> string" where
  "ref_text rt name path = CHR ''$'' # join ''.'' (ref_parts rt name path)"

definition valid_ref :: "string \<Rightarrow> string \<Rightarrow> string list \<Rightarrow> bool" where
  "valid_ref rt name path \<longleftrightarrow> list_all refSegment path \<and>
     ((rt = refInputs \<or> rt = refSteps) \<and> refSegment name \<or>
      rt = refItem \<and> name = [] \<or>
      rt = refSchedule \<and> (name = ''date'' \<or> name = ''time'') \<and> path = [])"

lemma refSegment_roots [simp]:
  "refSegment refInputs" "refSegment refSteps" "refSegment refItem" "refSegment refSchedule"
  "refSegment ''output''" "refSegment ''date''" "refSegment ''time''"
  by (simp_all add: root_defs refSegment_def is_alpha_def is_alnum_def is_lower_def ccode_def)

lemma roots_distinct [simp]:
  "refSteps \<noteq> refInputs" "refItem \<noteq> refInputs" "refItem \<noteq> refSteps"
  "refSchedule \<noteq> refInputs" "refSchedule \<noteq> refSteps" "refSchedule \<noteq> refItem"
  "refInputs \<noteq> refSteps" "refInputs \<noteq> refItem" "refSteps \<noteq> refItem"
  "refInputs \<noteq> refSchedule" "refSteps \<noteq> refSchedule" "refItem \<noteq> refSchedule"
  by (simp_all add: root_defs)

lemma hasPrefix_dollar [simp]: "hasPrefix s ''$'' \<longleftrightarrow> (\<exists>t. s = CHR ''$'' # t)"
  by (cases s) (auto simp: hasPrefix_def)

lemma ref_parts_segments: "valid_ref rt name path \<Longrightarrow> list_all refSegment (ref_parts rt name path)"
  by (auto simp: valid_ref_def ref_parts_def)

lemma split_ref_text:
  assumes "valid_ref rt name path"
  shows "split_at (CHR ''.'') (drop 1 (ref_text rt name path)) = ref_parts rt name path"
proof -
  have "ref_parts rt name path \<noteq> []" by (auto simp: ref_parts_def)
  moreover have "\<forall>w \<in> set (ref_parts rt name path). CHR ''.'' \<notin> set w"
    using ref_parts_segments [OF assms] refSegment_no_dot by (auto simp: list_all_iff)
  ultimately show ?thesis by (simp add: ref_text_def split_at_join)
qed

lemma parseRef_ref_text:
  assumes "valid_ref rt name path"
  shows "parseRef (ref_text rt name path) =
    Inr \<lparr>Raw = ref_text rt name path, Root = rt, RName = name, Path = path\<rparr>"
  using split_ref_text [OF assms] ref_parts_segments [OF assms] assms
  by (auto simp: parseRef_def Let_def valid_ref_def ref_parts_def ref_text_def)

lemma parseRef_sound:
  assumes "parseRef s = Inr r"
  shows "Raw r = s \<and> valid_ref (Root r) (RName r) (Path r) \<and> s = ref_text (Root r) (RName r) (Path r)"
proof -
  obtain t where s: "s = CHR ''$'' # t"
    using assms by (auto simp: parseRef_def bad_ref_def split: if_splits)
  define parts where "parts = split_at (CHR ''.'') t"
  have t: "t = join ''.'' parts" unfolding parts_def by simp
  have parse: "parseRef s = Inr r" by fact
  obtain rt rest where parts: "parts = rt # rest"
    using split_at_nonempty unfolding parts_def by (metis neq_Nil_conv)
  have seg: "list_all refSegment parts"
    using parse by (auto simp: s parseRef_def bad_ref_def parts_def Let_def split: if_splits)
  consider (inputs) name path where "rt = refInputs" "rest = name # path"
      "r = \<lparr>Raw = s, Root = rt, RName = name, Path = path\<rparr>"
    | (steps) name path where "rt = refSteps" "rest = name # ''output'' # path"
      "r = \<lparr>Raw = s, Root = rt, RName = name, Path = path\<rparr>"
    | (item) "rt = refItem" "r = \<lparr>Raw = s, Root = rt, RName = [], Path = rest\<rparr>"
    | (schedule) name where "rt = refSchedule" "rest = [name]" "name = ''date'' \<or> name = ''time''"
      "r = \<lparr>Raw = s, Root = rt, RName = name, Path = []\<rparr>"
  proof (cases rest)
    case Nil
    with that parse show ?thesis
      by (auto simp: s parseRef_def bad_ref_def parts_def [symmetric] parts Let_def split: if_splits)
  next
    case (Cons name path)
    with that parse show ?thesis
      by (cases path)
        (auto simp: s parseRef_def bad_ref_def parts_def [symmetric] parts Let_def split: if_splits)
  qed
  then show ?thesis
    using seg unfolding s t parts
    by cases (auto simp: valid_ref_def ref_text_def ref_parts_def)
qed

section \<open>Following a path\<close>

text \<open>\<^verbatim>\<open>walkType\<close>; the second argument is the part of the path already followed.\<close>

fun walkFrom :: "ty option \<Rightarrow> string list \<Rightarrow> string list \<Rightarrow> errmsg + ty option" where
  "walkFrom t past [] = Inr t"
| "walkFrom t past (name # path) = (case field t name of
     None \<Rightarrow> Inl (Errf ''%s has no field %s (it is %s)''
       [S (if past = [] then ''the value'' else join ''.'' past), S name, S (describe t)])
   | Some u \<Rightarrow> if Withheld u \<noteq> [] then
         Inl (Errf ''%s cannot be read: %s'' [S (join ''.'' (past @ [name])), S (Withheld u)])
       else walkFrom (Some u) (past @ [name]) path)"

definition walkType :: "ty option \<Rightarrow> string list \<Rightarrow> errmsg + ty option" where
  "walkType t path = walkFrom t [] path"

text \<open>
  The contract between typing and reading: one field read of a conforming value conforms to
  the field's type or reads as absent, and absent stays absent.
\<close>

locale typed_reads =
  fixes conf :: "'t \<Rightarrow> 'v \<Rightarrow> bool"
    and tfield :: "'t \<Rightarrow> string \<Rightarrow> 't option"
    and vfield :: "'v \<Rightarrow> string \<Rightarrow> 'v"
    and absent :: 'v
  assumes read: "conf t v \<Longrightarrow> tfield t n = Some u \<Longrightarrow> conf u (vfield v n) \<or> vfield v n = absent"
    and absent_read: "vfield absent n = absent"
begin

fun tpath :: "'t \<Rightarrow> string list \<Rightarrow> 't option" where
  "tpath t [] = Some t"
| "tpath t (n # p) = (case tfield t n of None \<Rightarrow> None | Some u \<Rightarrow> tpath u p)"

fun vpath :: "'v \<Rightarrow> string list \<Rightarrow> 'v" where
  "vpath v [] = v"
| "vpath v (n # p) = vpath (vfield v n) p"

lemma vpath_absent: "vpath absent p = absent"
  by (induction p) (simp_all add: absent_read)

lemma path_read:
  "conf t v \<Longrightarrow> tpath t p = Some u \<Longrightarrow> conf u (vpath v p) \<or> vpath v p = absent"
proof (induction p arbitrary: t v)
  case (Cons n p)
  then obtain w where w: "tfield t n = Some w" "tpath w p = Some u"
    by (auto split: option.splits)
  from read [OF Cons.prems(1) w(1)] show ?case
    using Cons.IH [OF _ w(2)] vpath_absent by auto
qed simp

end

lemma field_read:
  assumes "conforms t v" and "field t n = Some u"
  shows "conforms (Some u) (field_value v n) \<or> field_value v n = VNil"
proof (cases t)
  case None
  with assms show ?thesis by (auto simp: field_def)
next
  case (Some s)
  show ?thesis
  proof (cases "Kind s = KObject")
    case True
    with assms Some obtain m where v: "v = VObj m"
      by (cases v) (auto simp: conforms_simps)
    have e: "entry_conforms s n x" if "map_of m n = Some x" for x
      using assms(1) that by (simp add: Some v conforms_object [OF True])
    show ?thesis
      using e assms(2) True
      by (auto simp: v Some field_def entry_conforms_def split: option.splits if_splits)
  next
    case False
    with assms Some show ?thesis
      by (auto simp: field_def split: if_splits)
  qed
qed

interpretation tr: typed_reads conforms "\<lambda>t n. map_option Some (field t n)" field_value VNil
  by unfold_locales (auto dest: field_read)

lemma tr_tpath_walk: "walkFrom t past p = Inr u \<Longrightarrow> tr.tpath t p = Some u"
  by (induction t past p rule: walkFrom.induct) (auto split: option.splits if_splits)

lemma tr_vpath_walk: "tr.vpath v p = walkValue v p"
  by (induction p arbitrary: v) (simp_all add: walkValue_Cons del: walkValue.simps(2))

text \<open>A path that validates reads, in every conforming value, a conforming value or nothing.\<close>

lemma walk_sound:
  "walkType t p = Inr u \<Longrightarrow> conforms t v \<Longrightarrow> conforms u (walkValue v p) \<or> walkValue v p = VNil"
  using tr.path_read [of t v p u] tr_tpath_walk [of t "[]" p u]
  by (simp add: walkType_def tr_vpath_walk)

end
