(* ===== verification/Schema.thy ===== *)
theory Schema
  imports Refs
begin

text \<open>
  JSON documents and the accepted JSON Schema subset (types.go, schema.go). The tokenizer of
  \<^verbatim>\<open>encoding/json\<close> is a parameter: a decoder from bytes to a JSON tree whose numbers keep
  their text. Everything after it, the canonical values and the schema rules, is defined
  here. A schema that is accepted describes typed data only: it is strict (no part accepts
  any value, every object is closed) and well-formed.
\<close>

section \<open>Canonical JSON values\<close>

datatype json =
    JNull
  | JBool bool
  | JNumber string
  | JString string
  | JArray "json list"
  | JObject "(string \<times> json) list"

type_synonym decoder = "string \<Rightarrow> errmsg + json"

text \<open>A number's text: plain integers become int64, everything else a finite float64.\<close>

definition canonicalNumber :: "string \<Rightarrow> errmsg + val" where
  "canonicalNumber s = (
     if integerText s then
       (case atoi s of None \<Rightarrow> Inl (Errf ''integer %s is out of range'' [S s]) | Some n \<Rightarrow> Inr (VInt n))
     else
       (case parse_float s of None \<Rightarrow> Inl (Errf ''number %s is out of range'' [S s]) | Some x \<Rightarrow> Inr (VFloat x)))"

text \<open>\<^verbatim>\<open>canonicalJSON\<close>\<close>

function canonicalJSON :: "json \<Rightarrow> errmsg + val" where
  "canonicalJSON JNull = Inr VNil"
| "canonicalJSON (JBool b) = Inr (VBool b)"
| "canonicalJSON (JNumber s) = canonicalNumber s"
| "canonicalJSON (JString s) = Inr (VStr s)"
| "canonicalJSON (JArray xs) = (case map_err canonicalJSON xs of Inl e \<Rightarrow> Inl e | Inr vs \<Rightarrow> Inr (VList vs))"
| "canonicalJSON (JObject m) =
     (case map_err (\<lambda>p. case canonicalJSON (snd p) of Inl e \<Rightarrow> Inl e | Inr v \<Rightarrow> Inr (fst p, v)) m of
        Inl e \<Rightarrow> Inl e | Inr kvs \<Rightarrow> Inr (VObj kvs))"
  by pat_completeness auto
termination
  by (relation "measure size") (auto simp: size_list_mem size_snd_mem)

text \<open>\<^verbatim>\<open>parseCanonicalJSON\<close>\<close>

definition parseCanonicalJSON :: "decoder \<Rightarrow> string \<Rightarrow> errmsg + val" where
  "parseCanonicalJSON decode data = (case decode data of Inl e \<Rightarrow> Inl e | Inr j \<Rightarrow> canonicalJSON j)"

text \<open>Every integer of a canonical document fits 64 bits.\<close>

fun ints_in_range :: "val \<Rightarrow> bool" where
  "ints_in_range (VInt n) = in_int64 n"
| "ints_in_range (VList xs) = list_all ints_in_range xs"
| "ints_in_range (VObj m) = list_all (\<lambda>p. ints_in_range (snd p)) m"
| "ints_in_range _ = True"

lemma canonicalJSON_ints: "canonicalJSON j = Inr v \<Longrightarrow> ints_in_range v"
proof (induction j arbitrary: v rule: canonicalJSON.induct)
  case (3 s)
  then show ?case
    by (auto simp: canonicalNumber_def dest: atoi_in_int64 split: if_splits option.splits)
next
  case (5 xs)
  then obtain vs where "map_err canonicalJSON xs = Inr vs" "v = VList vs"
    by (auto split: sum.splits)
  with 5 show ?case by (auto simp: list_all_iff dest: map_err_mem)
next
  case (6 m)
  then obtain kvs where "v = VObj kvs"
    and "map_err (\<lambda>p. case canonicalJSON (snd p) of Inl e \<Rightarrow> Inl e | Inr v \<Rightarrow> Inr (fst p, v)) m = Inr kvs"
    by (auto split: sum.splits)
  with 6 show ?case by (fastforce simp: list_all_iff dest: map_err_mem split: sum.splits)
qed auto

section \<open>The schema subset\<close>

definition schemaKeywords :: "string list" where
  "schemaKeywords = [''type'', ''properties'', ''required'', ''items'', ''enum'', ''minimum'',
     ''maximum'', ''minLength'', ''maxLength'', ''minItems'', ''maxItems'',
     ''additionalProperties'', ''title'', ''description'']"

definition schema_kind :: "val option \<Rightarrow> kind option" where
  "schema_kind v = (case v of
     Some (VStr s) \<Rightarrow> find (\<lambda>k. kind_text k = s) [KString, KInteger, KNumber, KBoolean, KObject, KArray]
   | _ \<Rightarrow> None)"

definition schema_err :: "string \<Rightarrow> string \<Rightarrow> farg list \<Rightarrow> errmsg" where
  "schema_err path format args = Errf (''%s: '' @ format) (S (if path = [] then ''root'' else path) # args)"

definition schema_only :: "(string \<times> val) list \<Rightarrow> string \<Rightarrow> kind \<Rightarrow> kind list \<Rightarrow> string list \<Rightarrow> errmsg option" where
  "schema_only m path k kinds keys = first_err (\<lambda>key. err_if (hasKey m key \<and> k \<notin> set kinds)
     (schema_err path ''%s does not apply to %s'' [S key, S (kind_text k)])) keys"

definition schema_placement :: "(string \<times> val) list \<Rightarrow> string \<Rightarrow> kind \<Rightarrow> errmsg list" where
  "schema_placement m path k = List.map_filter id
    [schema_only m path k [KObject] [''properties'', ''required'', ''additionalProperties''],
     schema_only m path k [KArray] [''items'', ''minItems'', ''maxItems''],
     schema_only m path k [KString] [''minLength'', ''maxLength''],
     schema_only m path k [KInteger, KNumber] [''minimum'', ''maximum''],
     schema_only m path k [KString, KInteger, KNumber, KBoolean] [''enum'']]"

definition schema_count :: "(string \<times> val) list \<Rightarrow> string \<Rightarrow> string \<Rightarrow> errmsg + int option" where
  "schema_count m path key = (case map_of m key of None \<Rightarrow> Inr None
   | Some (VInt n) \<Rightarrow> if n < 0 then Inl (schema_err path ''%s must be a non-negative integer'' [S key]) else Inr (Some n)
   | Some _ \<Rightarrow> Inl (schema_err path ''%s must be a non-negative integer'' [S key]))"

definition schema_bound :: "(string \<times> val) list \<Rightarrow> string \<Rightarrow> string \<Rightarrow> errmsg + float64 option" where
  "schema_bound m path key = (case map_of m key of None \<Rightarrow> Inr None
   | Some x \<Rightarrow> (case number x of None \<Rightarrow> Inl (schema_err path ''%s must be a number'' [S key])
       | Some n \<Rightarrow> Inr (Some n)))"

text \<open>The part of \<^verbatim>\<open>schemaType\<close> before the children: keywords, kind, placement and bounds.\<close>

definition schema_header :: "(string \<times> val) list \<Rightarrow> string \<Rightarrow> errmsg + ty" where
  "schema_header m path =
    (case first_err (\<lambda>k. err_if (k \<notin> set schemaKeywords) (schema_err path ''keyword %s is not supported'' [S k]))
            (sortedKeys m) of Some e \<Rightarrow> Inl e | None \<Rightarrow>
    (case schema_kind (map_of m ''type'') of
       None \<Rightarrow> Inl (schema_err path ''type must be one of string, integer, number, boolean, object or array'' [])
     | Some k \<Rightarrow>
    (case schema_placement m path k of e # es \<Rightarrow> Inl (Errf ''errors.Join'' (map E (e # es))) | [] \<Rightarrow>
    (case first_err (\<lambda>s. case map_of m s of None \<Rightarrow> None | Some (VStr _) \<Rightarrow> None
              | Some _ \<Rightarrow> Some (schema_err path ''%s must be text'' [S s])) [''title'', ''description''] of
       Some e \<Rightarrow> Inl e | None \<Rightarrow>
    (case schema_count m path ''minLength'' of Inl e \<Rightarrow> Inl e | Inr nl \<Rightarrow>
    (case schema_count m path ''maxLength'' of Inl e \<Rightarrow> Inl e | Inr xl \<Rightarrow>
    (case schema_count m path ''minItems'' of Inl e \<Rightarrow> Inl e | Inr ni \<Rightarrow>
    (case schema_count m path ''maxItems'' of Inl e \<Rightarrow> Inl e | Inr xi \<Rightarrow>
    (case schema_bound m path ''minimum'' of Inl e \<Rightarrow> Inl e | Inr mn \<Rightarrow>
    (case schema_bound m path ''maximum'' of Inl e \<Rightarrow> Inl e | Inr mx \<Rightarrow>
      Inr (Type k [] [] False None [] mn mx nl xl ni xi [])))))))))))"

text \<open>The required list of an object: property names, each once.\<close>

fun schema_required :: "string \<Rightarrow> string list \<Rightarrow> string list \<Rightarrow> val list \<Rightarrow> errmsg + string list" where
  "schema_required path props acc [] = Inr (sort acc)"
| "schema_required path props acc (x # xs) = (case x of
     VStr name \<Rightarrow>
       if name \<notin> set props then Inl (schema_err path ''required names %v, which is not a property'' [V x])
       else if name \<in> set acc then Inl (schema_err path ''required lists %s twice'' [S name])
       else schema_required path props (acc @ [name]) xs
   | _ \<Rightarrow> Inl (schema_err path ''required names %v, which is not a property'' [V x]))"

definition schema_enum :: "(string \<times> val) list \<Rightarrow> string \<Rightarrow> kind \<Rightarrow> errmsg + val list" where
  "schema_enum m path k = (case map_of m ''enum'' of
     None \<Rightarrow> Inr []
   | Some (VList list) \<Rightarrow>
       if list = [] then Inl (schema_err path ''enum must be a non-empty list'' [])
       else (case first_err (\<lambda>x. err_if (checkValue (Some (plain k)) x \<noteq> None)
                (schema_err path ''enum value %s is not %s'' [V x, S (kind_text k)])) list of
            Some e \<Rightarrow> Inl e | None \<Rightarrow> Inr list)
   | Some _ \<Rightarrow> Inl (schema_err path ''enum must be a non-empty list'' []))"

definition with_children :: "ty \<Rightarrow> (string \<times> ty) list \<Rightarrow> string list \<Rightarrow> ty option \<Rightarrow> val list \<Rightarrow> ty" where
  "with_children t ps rs it en = Type (Kind t) ps rs (Open t) it en
     (Minimum t) (Maximum t) (MinLength t) (MaxLength t) (MinItems t) (MaxItems t) (Withheld t)"

text \<open>\<^verbatim>\<open>schemaType\<close>\<close>

function schemaType :: "val \<Rightarrow> string \<Rightarrow> errmsg + ty" where
  "schemaType v path = (case v of
     VObj m \<Rightarrow> (case schema_header m path of Inl e \<Rightarrow> Inl e | Inr t \<Rightarrow>
       (case (case Kind t of
           KObject \<Rightarrow>
             (if map_of m ''additionalProperties'' \<noteq> Some (VBool False)
              then Inl (schema_err path ''every object must declare additionalProperties: false'' [])
              else (case (case map_of m ''properties'' of
                  None \<Rightarrow> Inr []
                | Some props \<Rightarrow> (case props of
                    VObj pm \<Rightarrow> map_err (\<lambda>name. case map_of pm name of
                        None \<Rightarrow> Inl (schema_err path '''' [])
                      | Some child \<Rightarrow> (case schemaType child (joinPath path (''properties.'' @ name)) of
                            Inl e \<Rightarrow> Inl e | Inr c \<Rightarrow> Inr (name, c))) (sortedKeys pm)
                  | _ \<Rightarrow> Inl (schema_err path ''properties must be an object'' []))) of
                 Inl e \<Rightarrow> Inl e
               | Inr ps \<Rightarrow> (case map_of m ''required'' of
                     None \<Rightarrow> Inr (ps, [], None)
                   | Some (VList list) \<Rightarrow> (case schema_required path (map fst ps) [] list of
                         Inl e \<Rightarrow> Inl e | Inr rs \<Rightarrow> Inr (ps, rs, None))
                   | Some _ \<Rightarrow> Inl (schema_err path ''required must be a list of property names'' []))))
         | KArray \<Rightarrow> (case map_of m ''items'' of
               None \<Rightarrow> Inl (schema_err path ''an array must declare items'' [])
             | Some items \<Rightarrow> (case schemaType items (joinPath path ''items'') of
                   Inl e \<Rightarrow> Inl e | Inr c \<Rightarrow> Inr ([], [], Some c)))
         | _ \<Rightarrow> Inr ([], [], None)) of
         Inl e \<Rightarrow> Inl e
       | Inr (ps, rs, it) \<Rightarrow> (case schema_enum m path (Kind t) of
             Inl e \<Rightarrow> Inl e | Inr en \<Rightarrow> Inr (with_children t ps rs it en))))
   | _ \<Rightarrow> Inl (schema_err path ''a schema must be an object'' []))"
  by pat_completeness auto
termination
  by (relation "measure (\<lambda>(v, path). size v)") (fastforce dest!: size_map_of)+

declare schemaType.simps [simp del]

text \<open>\<^verbatim>\<open>parseSchema\<close>: the type, and the canonical JSON that is hashed.\<close>

definition parseSchema :: "decoder \<Rightarrow> string \<Rightarrow> errmsg + ty \<times> string" where
  "parseSchema decode data = (case parseCanonicalJSON decode data of
     Inl e \<Rightarrow> Inl (Errf ''is not valid JSON: %v'' [E e])
   | Inr v \<Rightarrow> (case schemaType v [] of Inl e \<Rightarrow> Inl e | Inr t \<Rightarrow> Inr (t, canonicalBytes v)))"

section \<open>Accepted schemas are strict and well-formed\<close>

lemma schema_kind_not_any: "schema_kind v = Some k \<Longrightarrow> k \<noteq> KAny"
  by (auto simp: schema_kind_def split: option.splits val.splits if_splits)

lemma schema_header_shape:
  "schema_header m path = Inr t \<Longrightarrow>
     Kind t \<noteq> KAny \<and> \<not> Open t \<and> Properties t = [] \<and> Required t = [] \<and> Items t = None"
  by (auto simp: schema_header_def simp del: first_err.simps dest: schema_kind_not_any
      split: option.splits sum.splits list.splits)

lemma schema_required_subset:
  "schema_required path props acc xs = Inr rs \<Longrightarrow> set acc \<subseteq> set props \<Longrightarrow> set rs \<subseteq> set props"
  by (induction path props acc xs rule: schema_required.induct) (auto split: val.splits if_splits)

text \<open>What an accepted schema document was, one level deep.\<close>

lemma schemaType_cases:
  assumes "schemaType v path = Inr t"
  obtains (object) m ps rs en t0 where "v = VObj m" "schema_header m path = Inr t0" "Kind t0 = KObject"
      "t = with_children t0 ps rs None en" "set rs \<subseteq> fst ` set ps"
      "\<And>name c. (name, c) \<in> set ps \<Longrightarrow> \<exists>pm child p. map_of m ''properties'' = Some (VObj pm) \<and>
         name \<in> set (sortedKeys pm) \<and> map_of pm name = Some child \<and>
         p = joinPath path (''properties.'' @ name) \<and> schemaType child p = Inr c"
  | (array) m items c en t0 where "v = VObj m" "schema_header m path = Inr t0" "Kind t0 = KArray"
      "t = with_children t0 [] [] (Some c) en" "map_of m ''items'' = Some items"
      "schemaType items (joinPath path ''items'') = Inr c"
  | (scalar) m en t0 where "v = VObj m" "schema_header m path = Inr t0" "Kind t0 \<noteq> KObject" "Kind t0 \<noteq> KArray"
      "t = with_children t0 [] [] None en"
proof -
  from assms obtain m t0 where v: "v = VObj m" and h: "schema_header m path = Inr t0"
    by (auto simp: schemaType.simps [of v] split: val.splits sum.splits)
  consider "Kind t0 = KObject" | "Kind t0 = KArray" | "Kind t0 \<noteq> KObject" "Kind t0 \<noteq> KArray" by blast
  then show ?thesis
  proof cases
    case 2
    then show ?thesis
      using assms [unfolded v schemaType.simps [of "VObj m"]] array [OF v h 2]
      by (auto simp: h split: option.splits sum.splits)
  next
    case 3
    then show ?thesis
      using assms [unfolded v schemaType.simps [of "VObj m"]] scalar [OF v h 3]
      by (cases "Kind t0") (auto simp: h split: sum.splits)
  next
    case obj: 1
    define P where "P = (case map_of m ''properties'' of
                  None \<Rightarrow> Inr []
                | Some props \<Rightarrow> (case props of
                    VObj pm \<Rightarrow> map_err (\<lambda>name. case map_of pm name of
                        None \<Rightarrow> Inl (schema_err path '''' [])
                      | Some child \<Rightarrow> (case schemaType child (joinPath path (''properties.'' @ name)) of
                            Inl e \<Rightarrow> Inl e | Inr c \<Rightarrow> Inr (name, c))) (sortedKeys pm)
                  | _ \<Rightarrow> Inl (schema_err path ''properties must be an object'' [])))"
    from assms [unfolded v schemaType.simps [of "VObj m"]]
    obtain ps rs en where t: "t = with_children t0 ps rs None en" and P: "P = Inr ps"
      and rs: "rs = [] \<or> (\<exists>list. schema_required path (map fst ps) [] list = Inr rs)"
      unfolding val.case h sum.case obj kind.case P_def [symmetric]
      by (auto split: option.splits sum.splits val.splits if_splits) blast
    note ps = P [unfolded P_def]
    have sub: "set rs \<subseteq> fst ` set ps"
      using rs schema_required_subset [of path "map fst ps" "[]"] by auto
    have mem: "\<exists>pm child p. map_of m ''properties'' = Some (VObj pm) \<and>
         name \<in> set (sortedKeys pm) \<and> map_of pm name = Some child \<and>
         p = joinPath path (''properties.'' @ name) \<and> schemaType child p = Inr c"
      if "(name, c) \<in> set ps" for name c
      using ps that
      by (auto dest!: map_err_mem split: option.splits val.splits sum.splits)
    show ?thesis using object [OF v h obj t sub mem] .
  qed
qed

lemma with_children_sel [simp]:
  "Kind (with_children t ps rs it en) = Kind t" "Properties (with_children t ps rs it en) = ps"
  "Required (with_children t ps rs it en) = rs" "Open (with_children t ps rs it en) = Open t"
  "Items (with_children t ps rs it en) = it" "Enum (with_children t ps rs it en) = en"
  by (simp_all add: with_children_def)

lemma schemaType_strict_wf: "schemaType v path = Inr t \<Longrightarrow> strict t \<and> wf_ty t"
proof (induction v arbitrary: path t rule: measure_induct_rule [of size])
  case (less v)
  from less.prems show ?case
  proof (cases rule: schemaType_cases)
    case (object m ps rs en t0)
    have "strict c \<and> wf_ty c" if c: "map_of ps name = Some c" for name c
    proof -
      obtain pm child p where "map_of m ''properties'' = Some (VObj pm)" "map_of pm name = Some child"
          "schemaType child p = Inr c"
        using object(6) [OF map_of_SomeD [OF c]] by blast
      moreover have "size child < size v"
        using calculation object(1) by (fastforce dest!: size_map_of)
      ultimately show ?thesis using less.IH by blast
    qed
    then show ?thesis
      using object schema_header_shape [OF object(2)]
      by (subst strict.simps, subst wf_ty.simps) auto
  next
    case (array m items c en t0)
    have "size items < size v" using array by (auto dest!: size_map_of)
    then have "strict c \<and> wf_ty c" using less.IH array by blast
    then show ?thesis
      using array schema_header_shape [OF array(2)]
      by (subst strict.simps, subst wf_ty.simps) auto
  next
    case (scalar m en t0)
    then show ?thesis
      using schema_header_shape [OF scalar(2)]
      by (subst strict.simps, subst wf_ty.simps) auto
  qed
qed

end
