(* ===== verification/Messages.thy ===== *)
theory Messages
  imports Values
begin

text \<open>
  The text of an error. Validation only collects its messages, but at run time the text of a
  failed item is part of a map's output, so it is written out here: \<^verbatim>\<open>fmt.Sprintf\<close> for the verbs
  the package uses, and the helpers that write values (types.go) and counts (report.go).
  \<open>quote\<close> is \<^verbatim>\<open>strconv.Quote\<close>, whose escapes depend on Unicode's table of printable characters.
\<close>

type_synonym quoter = "string \<Rightarrow> string"

section \<open>Numbers and values\<close>

text \<open>\<^verbatim>\<open>formatNumber\<close>: the shortest decimal that reads back, without an exponent.\<close>

definition formatNumber :: "float64 \<Rightarrow> string" where
  "formatNumber x = (case x of NegZero \<Rightarrow> ''-0'' | Fin r \<Rightarrow>
     if r = 0 then ''0'' else
     let (n, d) = quotient_of \<bar>r\<bar>; (t, dp) = shortest_digits (nat n) (nat d) in
     (if r < 0 then ''-'' else '''') @ fixed_text t dp)"

definition formatValue :: "quoter \<Rightarrow> val \<Rightarrow> string" where
  "formatValue quote x = (case x of VStr s \<Rightarrow> quote s | _ \<Rightarrow> canonicalBytes x)"

definition formatEnum :: "quoter \<Rightarrow> val list \<Rightarrow> string" where
  "formatEnum quote vs = join '', '' (map (formatValue quote) vs)"

definition plural :: "int \<Rightarrow> string \<Rightarrow> string" where
  "plural n word = (if n = 1 then ''1 '' @ word else itoa n @ '' '' @ word @ ''s'')"

text \<open>\<^verbatim>\<open>grouped\<close>: thousands separators. The loop takes three digits off the end while more are left.\<close>

function group_digits :: "string \<Rightarrow> string list \<Rightarrow> string list" where
  "group_digits s parts = (if length s \<le> 3 then s # parts
     else group_digits (take (length s - 3) s) (drop (length s - 3) s # parts))"
  by pat_completeness auto
termination
  by (relation "measure (\<lambda>(s, parts). length s)") auto

declare group_digits.simps [simp del]

definition grouped :: "int \<Rightarrow> string" where
  "grouped n = (let s = itoa n; neg = hasPrefix s ''-''; digits = (if neg then drop 1 s else s);
     out = join '','' (group_digits digits []) in if neg then CHR ''-'' # out else out)"

section \<open>Format strings\<close>

fun sprintf :: "quoter \<Rightarrow> string \<Rightarrow> string list \<Rightarrow> string" where
  "sprintf quote (c # d # cs) args = (
     if c \<noteq> CHR ''%'' then c # sprintf quote (d # cs) args
     else if d = CHR ''%'' then d # sprintf quote cs args
     else (case args of
         [] \<Rightarrow> ''%!'' @ d # ''(MISSING)'' @ sprintf quote cs []
       | a # as \<Rightarrow> (if d = CHR ''q'' then quote a else a) @ sprintf quote cs as))"
| "sprintf quote cs args = cs"

primrec errText :: "quoter \<Rightarrow> errmsg \<Rightarrow> string" and argText :: "quoter \<Rightarrow> farg \<Rightarrow> string" where
  "errText quote (Errf f as) = sprintf quote f (map (argText quote) as)"
| "argText quote (S s) = s"
| "argText quote (I i) = itoa i"
| "argText quote (F x) = formatNumber x"
| "argText quote (V x) = formatValue quote x"
| "argText quote (Vs xs) = formatEnum quote xs"
| "argText quote (E e) = errText quote e"

text \<open>Grouping only inserts separators: the groups are the digits, in order, three to a group.\<close>

lemma group_digits_concat: "concat (group_digits s parts) = s @ concat parts"
proof (induction s parts rule: group_digits.induct)
  case (1 s parts)
  show ?case
    by (subst group_digits.simps) (use 1 in \<open>simp add: append_assoc [symmetric] del: append_assoc\<close>)
qed

lemma group_digits_sizes:
  "s \<noteq> [] \<Longrightarrow> \<exists>g gs. group_digits s parts = g # gs @ parts \<and> g \<noteq> [] \<and> length g \<le> 3 \<and> (\<forall>x \<in> set gs. length x = 3)"
proof (induction s parts rule: group_digits.induct)
  case (1 s parts)
  show ?case
  proof (cases "length s \<le> 3")
    case True
    with 1 show ?thesis by (subst group_digits.simps) simp
  next
    case False
    with 1 obtain g gs where g: "group_digits (take (length s - 3) s) (drop (length s - 3) s # parts) =
        g # gs @ drop (length s - 3) s # parts" "g \<noteq> []" "length g \<le> 3" "\<forall>x \<in> set gs. length x = 3"
      by (auto simp: neq_Nil_conv)
    then have "group_digits s parts = g # (gs @ [drop (length s - 3) s]) @ parts"
      using False by (subst group_digits.simps) simp
    then show ?thesis using g False by (intro exI [of _ g] exI [of _ "gs @ [drop (length s - 3) s]"]) auto
  qed
qed

end
