(* ===== verification/AgentResult.thy ===== *)
theory AgentResult
  imports Schema Messages
begin

text \<open>
  The typed result of an agent's Markdown report (simulate.go, \<^verbatim>\<open>extractAgentResult\<close>): the last
  fenced json block of the last Result section. The source finds them with three multi-line
  regular expressions, none of which but the block's body can cross a line end, so they are
  written here as predicates on lines.
\<close>

section \<open>Lines\<close>

definition newline :: char where
  "newline = CHR 0x0A"

definition is_blank :: "char \<Rightarrow> bool" where
  "is_blank c \<longleftrightarrow> c = CHR '' '' \<or> c = CHR 0x09"

text \<open>\<^verbatim>\<open>resultHeading\<close>: two hashes, blanks, the word, and nothing but blanks after it.\<close>

definition is_result_heading :: "string \<Rightarrow> bool" where
  "is_result_heading l = (
     let r = dropWhile is_blank (drop 2 l) in
     hasPrefix l ''##'' \<and> r \<noteq> drop 2 l \<and> hasPrefix r ''Result'' \<and> list_all is_blank (drop 6 r))"

text \<open>\<^verbatim>\<open>nextHeading\<close>: one or two hashes and a blank.\<close>

definition is_next_heading :: "string \<Rightarrow> bool" where
  "is_next_heading l = (case l of
     c1 # c2 # cs \<Rightarrow> c1 = CHR ''#'' \<and>
       (is_blank c2 \<or> c2 = CHR ''#'' \<and> (case cs of c3 # _ \<Rightarrow> is_blank c3 | [] \<Rightarrow> False))
   | _ \<Rightarrow> False)"

definition opens_block :: "string \<Rightarrow> bool" where
  "opens_block l \<longleftrightarrow> hasPrefix l ''```json'' \<and> list_all is_blank (drop 7 l)"

definition closes_block :: "string \<Rightarrow> bool" where
  "closes_block l \<longleftrightarrow> hasPrefix l ''```'' \<and> list_all is_blank (drop 3 l)"

text \<open>\<^verbatim>\<open>jsonBlock.FindAllStringSubmatch\<close>: each block runs to the first closing line after its opening.\<close>

function json_blocks :: "string list \<Rightarrow> string list" where
  "json_blocks [] = []"
| "json_blocks (l # ls) = (
     if opens_block l then
       (case dropWhile (\<lambda>x. \<not> closes_block x) ls of
          [] \<Rightarrow> json_blocks ls
        | c # rest \<Rightarrow> concat (map (\<lambda>x. x @ [newline]) (takeWhile (\<lambda>x. \<not> closes_block x) ls)) # json_blocks rest)
     else json_blocks ls)"
  by pat_completeness auto
termination
proof (relation "measure length", goal_cases)
  case (3 l ls c rest)
  then show ?case using length_dropWhile_le [of "\<lambda>x. \<not> closes_block x" ls] by simp
qed auto

text \<open>What follows the last result heading; the heading's own line is over, so it leaves an empty one.\<close>

fun last_section :: "string list \<Rightarrow> string list option" where
  "last_section [] = None"
| "last_section (l # ls) = (case last_section ls of Some s \<Rightarrow> Some s
     | None \<Rightarrow> if is_result_heading l then Some ls else None)"

section \<open>The result\<close>

definition extractAgentResult :: "decoder \<Rightarrow> string \<Rightarrow> errmsg + val" where
  "extractAgentResult dc report = (case last_section (split_at newline report) of
     None \<Rightarrow> Inl (Errf ''the report has no ## Result section'' [])
   | Some ls \<Rightarrow> let blocks = json_blocks (takeWhile (\<lambda>l. \<not> is_next_heading l) ls) in
       if blocks = [] then Inl (Errf ''the ## Result section has no ```json block'' [])
       else (case parseCanonicalJSON dc (last blocks) of
           Inl e \<Rightarrow> Inl (Errf ''the ## Result block is not valid JSON: %v'' [E e])
         | Inr x \<Rightarrow> (case x of VObj m \<Rightarrow> Inr x | _ \<Rightarrow> Inl (Errf ''the ## Result block is not a JSON object'' []))))"

text \<open>A result is always an object.\<close>

lemma extract_object: "extractAgentResult dc report = Inr x \<Longrightarrow> \<exists>m. x = VObj m"
  by (auto simp: extractAgentResult_def Let_def split: option.splits if_splits sum.splits val.splits)

text \<open>
  The report \<^verbatim>\<open>agentResult\<close> (simulate.go) writes around a result gives that result back, whatever the
  summary says: its own heading is the last one.
\<close>

definition result_report :: "string \<Rightarrow> string \<Rightarrow> string" where
  "result_report summary block = ''## Summary'' @ newline # summary @ newline # newline #
     ''## Result'' @ newline # ''```json'' @ newline # block @ newline # ''```'' @ [newline]"

lemma last_section_append: "last_section xs = Some s \<Longrightarrow> last_section (ms @ xs) = Some s"
  by (induction ms) auto

lemma split_at_join2: "split_at d (xs @ d # ys) = split_at d xs @ split_at d ys"
proof (induction xs)
  case (Cons c xs)
  obtain w ws where "split_at d xs = w # ws" by (cases "split_at d xs") auto
  with Cons show ?case by simp
qed simp

lemma char_tests [simp]: "\<not> is_blank (CHR ''#'')" "\<not> is_blank (CHR ''R'')" "\<not> is_blank (CHR ''`'')" "is_blank (CHR '' '')"
  "\<not> is_blank (CHR ''j'')"
  by (simp_all add: is_blank_def)

lemma plain_lines [simp]: "newline \<notin> set ''## Result''" "newline \<notin> set ''```json''" "newline \<notin> set ''```''" "newline \<notin> set ''## Summary''"
  by (simp_all add: newline_def)

lemma extract_result_report:
  assumes "newline \<notin> set block" and "\<not> hasPrefix block ''#''" and "\<not> hasPrefix block ''`''"
  shows "extractAgentResult dc (result_report summary block) =
    (case parseCanonicalJSON dc (block @ [newline]) of
       Inl e \<Rightarrow> Inl (Errf ''the ## Result block is not valid JSON: %v'' [E e])
     | Inr x \<Rightarrow> (case x of VObj m \<Rightarrow> Inr x | _ \<Rightarrow> Inl (Errf ''the ## Result block is not a JSON object'' [])))"
proof -
  let ?tail = "[''## Result'', ''```json'', block, ''```'', []]"
  have "split_at newline (result_report summary block) = ''## Summary'' # split_at newline (summary @ [newline]) @ ?tail"
  proof -
    have "split_at newline (''## Result'' @ newline # ''```json'' @ newline # block @ newline # ''```'' @ [newline]) = ?tail"
      by (simp only: split_at_append plain_lines assms(1) not_False_eq_True split_at.simps)
    then show ?thesis
      unfolding result_report_def
      by (simp only: split_at_append plain_lines not_False_eq_True split_at_join2 [of newline "summary @ [newline]", simplified append_assoc append.simps])
  qed
  moreover have nh: "\<not> is_next_heading block" "\<not> closes_block block" "\<not> is_result_heading block"
    using assms(2,3) by (cases block; auto simp: is_next_heading_def closes_block_def is_result_heading_def hasPrefix_def Let_def split: list.splits)+
  have "last_section ?tail = Some (tl ?tail)"
    using nh by (simp add: is_result_heading_def hasPrefix_def)
  then have "last_section (''## Summary'' # split_at newline (summary @ [newline]) @ ?tail) = Some (tl ?tail)"
    using last_section_append [of ?tail _ "''## Summary'' # split_at newline (summary @ [newline])"] by simp
  moreover have "json_blocks (takeWhile (\<lambda>l. \<not> is_next_heading l) (tl ?tail)) = [block @ [newline]]"
    using nh by (simp add: is_next_heading_def opens_block_def closes_block_def hasPrefix_def)
  ultimately show ?thesis by (simp add: extractAgentResult_def)
qed

end
