(* ===== verification/Definition.thy ===== *)
theory Definition
  imports Schema
begin

text \<open>
  The closed workflow.yaml schema (definition.go), the values of its YAML nodes (yaml.go,
  \<^verbatim>\<open>nodeValue\<close>), its bounds, and the durations it writes as text (\<^verbatim>\<open>time.ParseDuration\<close>).
  The YAML parser is third-party code: a definition starts here as the decoded struct, with
  the run-time values still YAML nodes.
\<close>

section \<open>YAML nodes\<close>

text \<open>
  What the package reads of a \<^verbatim>\<open>yaml.Node\<close>: its kind, a scalar's short tag and text with its
  line, a sequence's items, a mapping's key texts and values. \<open>YAbsent\<close> is a node of kind 0,
  which was not written.
\<close>

datatype ynode =
    YAbsent
  | YScalar string string int
  | YSeq "ynode list"
  | YMap "(string \<times> ynode) list"
  | YOther int

definition written :: "ynode \<Rightarrow> bool" where
  "written n \<longleftrightarrow> n \<noteq> YAbsent"

definition scalarValue :: "string \<Rightarrow> string \<Rightarrow> int \<Rightarrow> errmsg + val" where
  "scalarValue tag text line = (
     if tag = ''!!str'' then Inr (VStr text)
     else if tag = ''!!int'' then
       (case atoi text of None \<Rightarrow> Inl (Errf ''strconv.ParseInt: parsing %q'' [S text]) | Some n \<Rightarrow> Inr (VInt n))
     else if tag = ''!!float'' then
       (case parse_float text of None \<Rightarrow> Inl (Errf ''strconv.ParseFloat: parsing %q'' [S text]) | Some x \<Rightarrow> Inr (VFloat x))
     else if tag = ''!!bool'' then Inr (VBool (text = ''true''))
     else Inl (Errf ''line %d: %s is not an accepted value'' [I line, S text]))"

text \<open>\<^verbatim>\<open>nodeValue\<close>\<close>

function nodeValue :: "ynode \<Rightarrow> errmsg + val" where
  "nodeValue YAbsent = Inl (Errf ''line %d: unsupported value'' [I 0])"
| "nodeValue (YOther line) = Inl (Errf ''line %d: unsupported value'' [I line])"
| "nodeValue (YScalar tag text line) = scalarValue tag text line"
| "nodeValue (YSeq xs) = (case map_err nodeValue xs of Inl e \<Rightarrow> Inl e | Inr vs \<Rightarrow> Inr (VList vs))"
| "nodeValue (YMap m) =
     (case map_err (\<lambda>p. case nodeValue (snd p) of Inl e \<Rightarrow> Inl e | Inr v \<Rightarrow> Inr (fst p, v)) m of
        Inl e \<Rightarrow> Inl e | Inr kvs \<Rightarrow> Inr (VObj (fold (\<lambda>(k, v) out. put k v out) kvs [])))"
  by pat_completeness auto
termination
  by (relation "measure size") (auto simp: size_list_mem size_snd_mem)

section \<open>The definition\<close>

record inputSpec =
  i_Type :: string
  i_Description :: string
  i_Required :: bool
  i_Default :: ynode
  i_Enum :: "ynode list"
  i_Minimum :: "float64 option"
  i_Maximum :: "float64 option"
  i_MaxLength :: "int option"
  i_Sensitive :: bool

record modelPolicy =
  m_Version :: int
  m_Provider :: string
  m_Model :: string
  m_Temperature :: "float64 option"
  m_MaxOutputTokens :: int

record limits =
  l_MaxDuration :: string
  l_MaxAttempts :: int
  l_MaxParallel :: int
  l_MaxTokens :: int

record operation =
  o_Capability :: string
  o_Connection :: string
  o_Resources :: "string list"
  o_MaxCallsPerRun :: int

record catchUp =
  c_Policy :: string
  c_MaxRuns :: int

record schedule =
  s_Cron :: string
  s_Timezone :: string
  s_CatchUp :: "catchUp option"
  s_Inputs :: "(string \<times> ynode) list"

record retry =
  r_MaxAttempts :: int
  r_Backoff :: string

record budget =
  b_Time :: string
  b_Tokens :: int

record condition =
  w_Ref :: string
  w_Op :: string
  w_Value :: ynode

record branchCase =
  When :: "condition option"
  CNext :: string

text \<open>
  A step, and a map step's item. Both decode into the same Go struct; an item cannot be a map
  (\<^verbatim>\<open>itemKinds\<close>), so its own \<^verbatim>\<open>Item\<close> field is never read and is left out here. \<open>keys\<close> are the
  fields the YAML wrote.
\<close>

record step0 =
  ID :: string
  SKind :: string
  Description :: string
  Next :: string
  Retry :: "retry option"
  Input :: "(string \<times> ynode) list"
  Function :: string
  Capability :: string
  Contract :: string
  Connection :: string
  Resource :: string
  ModelPolicy :: string
  Prompt :: string
  OutputSchema :: string
  Worker :: string
  Objective :: string
  Budget :: "budget option"
  Cases :: "branchCase list"
  Default :: string
  Message :: string
  ResponseSchema :: string
  Over :: string
  SMaxItems :: int
  MaxParallel :: int
  OnItemFailure :: string
  MinSucceeded :: int
  keys :: "string list"

record step = step0 +
  Item :: "step0 option"

record definition_ =
  SchemaVersion :: int
  DName :: string
  DDescription :: string
  Inputs :: "(string \<times> inputSpec) list"
  RunKey :: "string list option"
  ModelPolicies :: "(string \<times> modelPolicy) list"
  Limits :: "limits option"
  Authority :: "operation list option"
  Schedule :: "schedule option"
  Retention :: "string option"
  Start :: string
  Steps :: "step list"
  Outputs :: "(string \<times> string) list"

text \<open>Step kinds, and the worker presets an agent step may run.\<close>

definition KindDeterministic :: string where "KindDeterministic = ''deterministic''"
definition KindCapability :: string where "KindCapability = ''capability''"
definition KindAI :: string where "KindAI = ''ai''"
definition KindBranch :: string where "KindBranch = ''branch''"
definition KindInterrupt :: string where "KindInterrupt = ''interrupt''"
definition KindMap :: string where "KindMap = ''map''"
definition KindAgent :: string where "KindAgent = ''agent''"

lemmas kind_defs = KindDeterministic_def KindCapability_def KindAI_def KindBranch_def
  KindInterrupt_def KindMap_def KindAgent_def

definition workers :: "string list" where
  "workers = [''research'', ''explore'', ''build'']"

section \<open>Bounds\<close>

definition second :: int where "second = 1000000000"

definition currentSchemaVersion :: int where "currentSchemaVersion = 1"
definition maxRunDuration :: int where "maxRunDuration = 168 * 3600 * second"
definition maxRunAttempts :: int where "maxRunAttempts = 10000"
definition maxRunParallel :: int where "maxRunParallel = 32"
definition maxRunTokens :: int where "maxRunTokens = 1000000000"
definition maxStepAttempts :: int where "maxStepAttempts = 5"
definition maxBackoff :: int where "maxBackoff = 10 * 60 * second"
definition maxMapItems :: int where "maxMapItems = 1000"
definition maxCallsPerRun :: int where "maxCallsPerRun = 1000"
definition maxCatchUpRuns :: int where "maxCatchUpRuns = 31"
definition maxRunKeyInputs :: int where "maxRunKeyInputs = 8"
definition maxOutputTokens :: int where "maxOutputTokens = 200000"
definition maxMessageBytes :: int where "maxMessageBytes = 2000"
definition maxPromptBytes :: int where "maxPromptBytes = 65536"
definition maxSchemaBytes :: int where "maxSchemaBytes = 65536"

lemmas bound_defs = second_def currentSchemaVersion_def maxRunDuration_def maxRunAttempts_def
  maxRunParallel_def maxRunTokens_def maxStepAttempts_def maxBackoff_def maxMapItems_def
  maxCallsPerRun_def maxCatchUpRuns_def maxRunKeyInputs_def maxOutputTokens_def
  maxMessageBytes_def maxPromptBytes_def maxSchemaBytes_def

section \<open>Durations\<close>

text \<open>
  \<^verbatim>\<open>time.ParseDuration\<close>: a sign, then decimal numbers with units, added in uint64
  nanoseconds with its overflow checks. The fraction is scaled in float64 and truncated.
\<close>

definition unit_ns :: "string \<Rightarrow> nat option" where
  "unit_ns u = map_of [(''ns'', 1), (''us'', 1000),
     ([CHR 0xC2, CHR 0xB5, CHR ''s''], 1000), ([CHR 0xCE, CHR 0xBC, CHR ''s''], 1000),
     (''ms'', 1000000), (''s'', 1000000000), (''m'', 60000000000), (''h'', 3600000000000)] u"

definition two63 :: nat where "two63 = 9223372036854775808"
definition two64 :: nat where "two64 = 18446744073709551616"

text \<open>The digits of a fraction that fit: the value and the power of ten that scales it.\<close>

fun leadingFraction :: "nat \<Rightarrow> nat \<Rightarrow> bool \<Rightarrow> string \<Rightarrow> nat \<times> nat" where
  "leadingFraction x scale over [] = (x, scale)"
| "leadingFraction x scale over (c # s) =
     (if over \<or> (two63 - 1) div 10 < x then leadingFraction x scale True s
      else if two63 < x * 10 + digit_val c then leadingFraction x scale True s
      else leadingFraction (x * 10 + digit_val c) (scale * 10) False s)"

definition round_rat :: "rat \<Rightarrow> rat" where
  "round_rat r = (let (n, d) = quotient_of r in
     case round_ratio (nat n) (nat d) of Some x \<Rightarrow> x | None \<Rightarrow> 0)"

definition fraction_ns :: "nat \<Rightarrow> nat \<Rightarrow> nat \<Rightarrow> nat" where
  "fraction_ns f unit scale = nat \<lfloor>round_rat (round_rat (of_nat f) * round_rat (of_nat unit / of_nat scale))\<rfloor>"

text \<open>One number with its unit: its nanoseconds and the rest of the text.\<close>

definition duration_part :: "string \<Rightarrow> (nat \<times> string) option" where
  "duration_part s = (let
     (whole, r1) = span_digits s;
     (fraction, r2) = (if r1 \<noteq> [] \<and> hd r1 = CHR ''.'' then span_digits (tl r1) else ([], r1));
     u = takeWhile (\<lambda>c. c \<noteq> CHR ''.'' \<and> \<not> is_digit c) r2;
     rest = dropWhile (\<lambda>c. c \<noteq> CHR ''.'' \<and> \<not> is_digit c) r2
   in if whole = [] \<and> fraction = [] then None
      else if two63 < digits_val whole then None
      else (case unit_ns u of None \<Rightarrow> None | Some unit \<Rightarrow>
        if two63 div unit < digits_val whole then None
        else let (f, scale) = leadingFraction 0 1 False fraction;
                 v = digits_val whole * unit + (if 0 < f then fraction_ns f unit scale else 0)
          in if two63 < v then None else Some (v, rest)))"

lemma dropWhile_length: "length (dropWhile p s) \<le> length s"
  by (simp add: length_dropWhile_le)

lemma span_digits_append: "span_digits s = (w, r) \<Longrightarrow> s = w @ r"
  by (auto simp: span_digits_def)

lemma duration_part_shorter: "duration_part s = Some (v, rest) \<Longrightarrow> length rest < length s"
proof -
  assume d: "duration_part s = Some (v, rest)"
  obtain whole r1 where w: "span_digits s = (whole, r1)" by fastforce
  define q where "q = (if r1 \<noteq> [] \<and> hd r1 = CHR ''.'' then span_digits (tl r1) else ([], r1))"
  obtain fr r2 where f: "q = (fr, r2)" by fastforce
  have l1: "length r1 + length whole = length s"
    using span_digits_append [OF w] by simp
  have l2: "length r2 + length fr \<le> length r1"
    using f span_digits_append [of "tl r1" fr r2] by (cases r1) (auto simp: q_def split: if_splits)
  from d have ne: "whole \<noteq> [] \<or> fr \<noteq> []"
    and rest: "rest = dropWhile (\<lambda>c. c \<noteq> CHR ''.'' \<and> \<not> is_digit c) r2"
    by (auto simp: duration_part_def w q_def [symmetric] f Let_def split: if_splits option.splits prod.splits)
  have "length rest \<le> length r2" unfolding rest by (rule dropWhile_length)
  moreover have "0 < length whole + length fr" using ne by auto
  ultimately show ?thesis using l1 l2 by linarith
qed

function duration_sum :: "string \<Rightarrow> nat \<Rightarrow> nat option" where
  "duration_sum s d = (if s = [] then Some d else
     case duration_part s of None \<Rightarrow> None
     | Some (v, rest) \<Rightarrow> let d' = (d + v) mod two64 in
         if two63 < d' then None else duration_sum rest d')"
  by pat_completeness auto
termination
  by (relation "measure (\<lambda>(s, d). length s)") (auto dest: duration_part_shorter)

declare duration_sum.simps [simp del]

definition parseDuration :: "string \<Rightarrow> int option" where
  "parseDuration s = (let
     neg = (s \<noteq> [] \<and> hd s = CHR ''-'');
     t = (if s \<noteq> [] \<and> (hd s = CHR ''-'' \<or> hd s = CHR ''+'') then tl s else s)
   in if t = ''0'' then Some 0
      else if t = [] then None
      else (case duration_sum t 0 of None \<Rightarrow> None
        | Some d \<Rightarrow> if neg then Some (- int d)
            else if two63 - 1 < d then None else Some (int d)))"

text \<open>\<^verbatim>\<open>parsePositiveDuration\<close> of validate.go.\<close>

definition parsePositiveDuration :: "string \<Rightarrow> errmsg + int" where
  "parsePositiveDuration s = (case parseDuration s of
     Some d \<Rightarrow> if d \<le> 0 then Inl (Errf ''%q is not a positive duration such as 90s, 10m or 2h'' [S s]) else Inr d
   | None \<Rightarrow> Inl (Errf ''%q is not a positive duration such as 90s, 10m or 2h'' [S s]))"

lemma parsePositiveDuration_pos: "parsePositiveDuration s = Inr d \<Longrightarrow> 0 < d"
  by (auto simp: parsePositiveDuration_def split: option.splits if_splits)

end
