(* ===== verification/Functions.thy ===== *)
theory Functions
  imports Refs
begin

text \<open>
  The reviewed deterministic functions of functions.go: the \<^verbatim>\<open>Function\<close> record, argument
  checks, and the bodies of \<^verbatim>\<open>collect_claims\<close>, \<^verbatim>\<open>expand_ballots\<close>, \<^verbatim>\<open>majority_filter\<close>,
  \<^verbatim>\<open>split_evenly\<close> and \<^verbatim>\<open>require_zero\<close>, with what each promises. A call returns a value, refuses
  its input, or panics.
\<close>

section \<open>Functions and their arguments\<close>

record param =
  PName :: string
  PType :: ty
  Min :: int
  Max :: int

record staticArg =
  SType :: "ty option"
  Literal :: val
  IsConst :: bool

datatype outcome = Returned val | Refused errmsg | Panicked string

record func =
  FName :: string
  Version :: int
  Params :: "param list"
  Result :: ty
  Refine :: "(staticArg gomap \<Rightarrow> ty) option"
  Call :: "val gomap \<Rightarrow> outcome"

definition fID :: "func \<Rightarrow> string" where
  "fID f = FName f @ ''@'' @ itoa (Version f)"

definition param_bounds :: "param \<Rightarrow> val \<Rightarrow> errmsg option" where
  "param_bounds p v = (case v of
     VInt n \<Rightarrow> err_if (Max p \<noteq> 0 \<and> (n < Min p \<or> n > Max p))
       (Errf ''%s must be between %d and %d'' [S (PName p), I (Min p), I (Max p)])
   | _ \<Rightarrow> None)"

definition checkArgs :: "param list \<Rightarrow> val gomap \<Rightarrow> errmsg option" where
  "checkArgs params args = first_err (\<lambda>p. case map_of args (PName p) of
      None \<Rightarrow> Some (Errf ''missing argument %s'' [S (PName p)])
    | Some v \<Rightarrow> or_err (checkAt (Some (PType p)) v (PName p)) (param_bounds p v)) params"

text \<open>A checked argument is there, has its declared type and lies within its bounds.\<close>

definition arg_ok :: "param \<Rightarrow> val \<Rightarrow> bool" where
  "arg_ok p v \<longleftrightarrow> conforms (Some (PType p)) v \<and>
     (\<forall>n. v = VInt n \<longrightarrow> Max p \<noteq> 0 \<longrightarrow> Min p \<le> n \<and> n \<le> Max p)"

lemma param_bounds_None:
  "param_bounds p v = None \<longleftrightarrow> (\<forall>n. v = VInt n \<longrightarrow> Max p \<noteq> 0 \<longrightarrow> Min p \<le> n \<and> n \<le> Max p)"
  by (auto simp: param_bounds_def split: val.splits)

lemma checkArgs_None:
  "checkArgs ps args = None \<longleftrightarrow> (\<forall>p \<in> set ps. \<exists>v. map_of args (PName p) = Some v \<and> arg_ok p v)"
  by (auto simp: checkArgs_def first_err_None arg_ok_def checkAt_conforms param_bounds_None split: option.splits)

text \<open>The comma-ok type assertions of the function bodies: \<^verbatim>\<open>x, _ := v.(string)\<close>.\<close>

fun str_of :: "val \<Rightarrow> string" where
  "str_of (VStr s) = s"
| "str_of _ = []"

fun list_of :: "val \<Rightarrow> val list" where
  "list_of (VList xs) = xs"
| "list_of _ = []"

fun int_of :: "val \<Rightarrow> int" where
  "int_of (VInt n) = n"
| "int_of _ = 0"

definition arg_val :: "val gomap \<Rightarrow> string \<Rightarrow> val" where
  "arg_val args name = (case map_of args name of Some v \<Rightarrow> v | None \<Rightarrow> VNil)"

lemma conforms_ArrayType: "conforms (Some (ArrayType it)) v \<longleftrightarrow> (\<exists>xs. v = VList xs \<and> (\<forall>x \<in> set xs. conforms it x))"
  by (cases v) (auto simp: ArrayType_def conforms_simps in_count_range_def)

lemma conforms_IntegerType: "conforms (Some IntegerType) v \<longleftrightarrow> (\<exists>n. v = VInt n)"
  by (cases v) (auto simp: IntegerType_def plain_def conforms_simps in_float_range_def)

lemma conforms_StringType: "conforms (Some StringType) v \<longleftrightarrow> (\<exists>s. v = VStr s)"
  by (cases v) (auto simp: StringType_def plain_def conforms_simps in_count_range_def)

lemma conforms_BooleanType: "conforms (Some BooleanType) v \<longleftrightarrow> (\<exists>b. v = VBool b)"
  by (cases v) (auto simp: BooleanType_def plain_def conforms_simps)

lemmas conforms_plain = conforms_ArrayType conforms_IntegerType conforms_StringType conforms_BooleanType

text \<open>A checked body: the argument check, then the function proper.\<close>

definition checked :: "param list \<Rightarrow> (val gomap \<Rightarrow> outcome) \<Rightarrow> val gomap \<Rightarrow> outcome" where
  "checked ps body args = (case checkArgs ps args of Some e \<Rightarrow> Refused e | None \<Rightarrow> body args)"

lemma checked_Returned:
  "checked ps body args = Returned r \<longleftrightarrow> checkArgs ps args = None \<and> body args = Returned r"
  by (auto simp: checked_def split: option.splits)

section \<open>split\_evenly\<close>

definition maxSplitTotal :: int where "maxSplitTotal = 1000000000000"
definition maxSplitParts :: int where "maxSplitParts = 1000"

definition split_params :: "param list" where
  "split_params = [\<lparr>PName = ''total'', PType = IntegerType, Min = 0, Max = maxSplitTotal\<rparr>,
     \<lparr>PName = ''parts'', PType = IntegerType, Min = 1, Max = maxSplitParts\<rparr>]"

definition split_result :: "int \<Rightarrow> int \<Rightarrow> ty" where
  "split_result lo hi = ObjectType
     [fld ''shares'' (set_MaxItems (set_MinItems (ArrayType (Some IntegerType)) (Some lo)) (Some hi)),
      fld ''share'' IntegerType, fld ''remainder'' IntegerType]"

text \<open>\<^verbatim>\<open>total/parts\<close> and \<^verbatim>\<open>total%parts\<close>: both arguments are non-negative once checked.\<close>

definition shares_of :: "int \<Rightarrow> int \<Rightarrow> int list" where
  "shares_of tot parts = map (\<lambda>i. if int i < tot mod parts then tot div parts + 1 else tot div parts)
     [0..<nat parts]"

definition split_body :: "val gomap \<Rightarrow> outcome" where
  "split_body args = (let tot = int_of (arg_val args ''total''); parts = int_of (arg_val args ''parts'') in
     Returned (VObj [(''shares'', VList (map VInt (shares_of tot parts))),
       (''share'', VInt (tot div parts)), (''remainder'', VInt (tot mod parts))]))"

definition split_refine :: "staticArg gomap \<Rightarrow> ty" where
  "split_refine args = (case map_of args ''parts'' of
     Some a \<Rightarrow> (case Literal a of VInt n \<Rightarrow> if IsConst a then split_result n n else split_result 1 maxSplitParts
       | _ \<Rightarrow> split_result 1 maxSplitParts)
   | None \<Rightarrow> split_result 1 maxSplitParts)"

definition splitEvenly :: func where
  "splitEvenly = \<lparr>FName = ''split_evenly'', Version = 1, Params = split_params,
     Result = split_result 1 maxSplitParts, Refine = Some split_refine,
     Call = checked split_params split_body\<rparr>"

lemma length_shares [simp]: "length (shares_of tot parts) = nat parts"
  by (simp add: shares_of_def)

lemma sum_shares_upto:
  assumes "0 \<le> r" and "r \<le> int n"
  shows "(\<Sum>i \<leftarrow> [0..<n]. if int i < r then q + 1 else q) = q * int n + (r::int)"
proof -
  have "(\<Sum>i \<leftarrow> [0..<n]. if int i < r then q + 1 else q) = (\<Sum>i \<leftarrow> [0..<n]. q + (if i < nat r then 1 else 0))"
    by (rule arg_cong [where f = sum_list], rule map_cong) (use assms in auto)
  also have "\<dots> = q * int n + (\<Sum>i \<leftarrow> [0..<n]. if i < nat r then 1 else 0)"
    by (simp add: sum_list_addf sum_list_triv)
  also have "(\<Sum>i \<leftarrow> [0..<n]. if i < nat r then 1 else (0::int)) = (\<Sum>i \<in> {0..<n}. if i < nat r then 1 else 0)"
    by (simp add: interv_sum_list_conv_sum_set_nat)
  also have "\<dots> = int (card ({0..<n} \<inter> {i. i < nat r}))"
    by (simp add: sum.If_cases)
  also have "{0..<n} \<inter> {i. i < nat r} = {0..<nat r}"
    using assms by auto
  finally show ?thesis using assms by simp
qed

lemma sum_shares: "0 < parts \<Longrightarrow> sum_list (shares_of tot parts) = tot"
  using sum_shares_upto [of "tot mod parts" "nat parts" "tot div parts"]
  by (simp add: shares_of_def pos_mod_bound order_less_imp_le)

lemma shares_bounds:
  "0 < parts \<Longrightarrow> s \<in> set (shares_of tot parts) \<Longrightarrow> s = tot div parts \<or> s = tot div parts + 1"
  by (auto simp: shares_of_def split: if_splits)

lemma shares_decreasing: "sorted_wrt (\<ge>) (shares_of tot parts)"
  by (auto simp: shares_of_def sorted_wrt_iff_nth_less)

lemma split_args:
  assumes "checkArgs split_params args = None"
  obtains tot parts where "map_of args ''total'' = Some (VInt tot)" "map_of args ''parts'' = Some (VInt parts)"
    "0 \<le> tot" "tot \<le> maxSplitTotal" "1 \<le> parts" "parts \<le> maxSplitParts"
  using assms
  by (fastforce simp: checkArgs_None split_params_def arg_ok_def conforms_plain maxSplitTotal_def maxSplitParts_def)

section \<open>require\_zero\<close>

definition maxRequireCount :: int where "maxRequireCount = 1000000000"
definition maxRequireSubject :: int where "maxRequireSubject = 200"

definition subjectType :: ty where
  "subjectType = Type KString [] [] False None [] None None None (Some maxRequireSubject) None None []"

definition require_params :: "param list" where
  "require_params = [\<lparr>PName = ''count'', PType = IntegerType, Min = 0, Max = maxRequireCount\<rparr>,
     \<lparr>PName = ''subject'', PType = subjectType, Min = 0, Max = 0\<rparr>]"

definition require_body :: "val gomap \<Rightarrow> outcome" where
  "require_body args = (let count = int_of (arg_val args ''count''); subject = str_of (arg_val args ''subject'') in
     if trimSpace subject = [] then Refused (Errf ''subject must name what was counted'' [])
     else if count \<noteq> 0 then Refused (Errf ''%d %s'' [I count, S (trimSpace subject)])
     else Returned (VObj [(''count'', VInt 0)]))"

definition requireZero :: func where
  "requireZero = \<lparr>FName = ''require_zero'', Version = 1, Params = require_params,
     Result = ObjectType [fld ''count'' IntegerType], Refine = None,
     Call = checked require_params require_body\<rparr>"

section \<open>expand\_ballots\<close>

definition ballotType :: ty where
  "ballotType = ObjectType [fld ''id'' StringType, fld ''claim_id'' StringType, fld ''text'' StringType,
     fld ''sources'' (ArrayType (Some StringType)), fld ''voter'' IntegerType]"

definition expand_params :: "param list" where
  "expand_params = [\<lparr>PName = ''claims'', PType = ArrayType (Some (openObject
       [fld ''id'' StringType, fld ''text'' StringType, fld ''sources'' (ArrayType (Some StringType))])),
       Min = 0, Max = 0\<rparr>,
     \<lparr>PName = ''votes'', PType = IntegerType, Min = 1, Max = 7\<rparr>]"

definition expand_result :: "int option \<Rightarrow> ty" where
  "expand_result bound = ObjectType
     [fld ''ballots'' (set_MaxItems (ArrayType (Some ballotType)) bound), fld ''count'' IntegerType]"

text \<open>The static list bound is an int64 product, so it wraps.\<close>

definition expand_refine :: "staticArg gomap \<Rightarrow> ty" where
  "expand_refine args = (case (map_of args ''claims'', map_of args ''votes'') of
     (Some claims, Some votes) \<Rightarrow> (case (Literal votes, SType claims) of
         (VInt n, Some t) \<Rightarrow> if IsConst votes then expand_result (map_option (\<lambda>m. wrap64 (m * n)) (MaxItems t))
           else expand_result None
       | _ \<Rightarrow> expand_result None)
   | _ \<Rightarrow> expand_result None)"

definition ballot :: "val \<Rightarrow> int \<Rightarrow> val" where
  "ballot c voter = VObj
     [(''id'', VStr (str_of (walkValue c [''id'']) @ ''-v'' @ itoa voter)),
      (''claim_id'', VStr (str_of (walkValue c [''id'']))), (''text'', VStr (str_of (walkValue c [''text'']))),
      (''sources'', VList (list_of (walkValue c [''sources'']))), (''voter'', VInt voter)]"

definition ballots_of :: "val list \<Rightarrow> int \<Rightarrow> val list" where
  "ballots_of claims votes = concat (map (\<lambda>c. map (ballot c) [1..votes]) claims)"

definition expand_body :: "val gomap \<Rightarrow> outcome" where
  "expand_body args = (let ballots = ballots_of (list_of (arg_val args ''claims'')) (int_of (arg_val args ''votes'')) in
     Returned (VObj [(''ballots'', VList ballots), (''count'', VInt (int (length ballots)))]))"

definition expandBallots :: func where
  "expandBallots = \<lparr>FName = ''expand_ballots'', Version = 1, Params = expand_params,
     Result = expand_result None, Refine = Some expand_refine,
     Call = checked expand_params expand_body\<rparr>"

lemma length_ballots: "length (ballots_of claims votes) = length claims * nat votes"
  by (induction claims) (simp_all add: ballots_of_def)

text \<open>An object type built from fields of distinct names, and its conforming values.\<close>

lemma fold_put_lookup:
  "map_of (fold (\<lambda>f m. put (Name f) (FType f) m) fs m) k =
     (case find (\<lambda>f. Name f = k) (rev fs) of Some f \<Rightarrow> Some (FType f) | None \<Rightarrow> map_of m k)"
  by (induction fs arbitrary: m) (auto simp: find_append put_lookup split: option.splits)

lemma ObjectType_sel [simp]:
  "Kind (ObjectType fs) = KObject" "Open (ObjectType fs) = False" "Enum (ObjectType fs) = []"
  "Required (ObjectType fs) = sort (map Name (filter (\<lambda>f. \<not> Optional f) fs))"
  "Kind (openObject fs) = KObject" "Open (openObject fs)" "Enum (openObject fs) = []"
  "Required (openObject fs) = sort (map Name (filter (\<lambda>f. \<not> Optional f) fs))"
  by (simp_all add: ObjectType_def openObject_def)

lemma ObjectType_property [simp]:
  "map_of (Properties (ObjectType fs)) k = map_option FType (find (\<lambda>f. Name f = k) (rev fs))"
  "map_of (Properties (openObject fs)) k = map_option FType (find (\<lambda>f. Name f = k) (rev fs))"
  by (simp_all add: ObjectType_def openObject_def fold_put_lookup split: option.splits)

lemma conforms_ObjectType:
  "conforms (Some (ObjectType fs)) (VObj m) \<longleftrightarrow>
     (\<forall>f \<in> set fs. \<not> Optional f \<longrightarrow> hasKey m (Name f)) \<and>
     (\<forall>k x. map_of m k = Some x \<longrightarrow> (\<exists>f. find (\<lambda>f. Name f = k) (rev fs) = Some f \<and> conforms (Some (FType f)) x))"
proof -
  have "entry_conforms (ObjectType fs) k x \<longleftrightarrow>
      (\<exists>f. find (\<lambda>f. Name f = k) (rev fs) = Some f \<and> conforms (Some (FType f)) x)" for k x
    by (cases "find (\<lambda>f. Name f = k) (rev fs)") (simp_all add: entry_conforms_def)
  then show ?thesis by (simp add: conforms_object) blast
qed

lemma conforms_openObject:
  "conforms (Some (openObject fs)) (VObj m) \<longleftrightarrow>
     (\<forall>f \<in> set fs. \<not> Optional f \<longrightarrow> hasKey m (Name f)) \<and>
     (\<forall>k x f. map_of m k = Some x \<longrightarrow> find (\<lambda>f. Name f = k) (rev fs) = Some f \<longrightarrow> conforms (Some (FType f)) x)"
proof -
  have "entry_conforms (openObject fs) k x \<longleftrightarrow>
      (\<forall>f. find (\<lambda>f. Name f = k) (rev fs) = Some f \<longrightarrow> conforms (Some (FType f)) x)" for k x
    by (cases "find (\<lambda>f. Name f = k) (rev fs)") (simp_all add: entry_conforms_def)
  then show ?thesis by (simp add: conforms_object) blast
qed

lemma conforms_openObject_D:
  assumes "conforms (Some (openObject fs)) v" and "find (\<lambda>f. Name f = k) (rev fs) = Some f" and "\<not> Optional f"
  shows "\<exists>x. walkValue v [k] = x \<and> conforms (Some (FType f)) x"
proof -
  obtain m where v: "v = VObj m" using assms(1) by (cases v) (auto simp: conforms_simps)
  have f: "f \<in> set fs" "Name f = k"
    using find_SomeD [OF assms(2)] by auto
  then have "hasKey m k" using assms(1,3) by (auto simp: v conforms_openObject)
  then obtain x where x: "map_of m k = Some x" by (auto simp: hasKey_def)
  with assms(1,2) show ?thesis by (auto simp: v conforms_openObject)
qed

lemma conforms_set_MaxItems:
  "conforms (Some (set_MaxItems (ArrayType it) hi)) v \<longleftrightarrow>
     (\<exists>xs. v = VList xs \<and> (\<forall>x \<in> set xs. conforms it x) \<and> (\<forall>h. hi = Some h \<longrightarrow> int (length xs) \<le> h))"
  by (cases v) (auto simp: ArrayType_def set_MaxItems_def conforms_simps in_count_range_def)

lemma conforms_fields:
  assumes d: "distinct (map Name fs)"
    and l: "list_all2 (\<lambda>f p. fst p = Name f \<and> conforms (Some (FType f)) (snd p)) fs m"
  shows "conforms (Some (ObjectType fs)) (VObj m)"
proof -
  have names: "map fst m = map Name fs"
    using l by (simp add: list_all2_conv_all_nth list_eq_iff_nth_eq)
  have field: "\<exists>f. find (\<lambda>f. Name f = k) (rev fs) = Some f \<and> conforms (Some (FType f)) x"
    if "map_of m k = Some x" for k x
  proof -
    from map_of_SomeD [OF that] obtain i where i: "i < length m" "m ! i = (k, x)"
      by (auto simp: in_set_conv_nth)
    then have f: "i < length fs" "Name (fs ! i) = k" "conforms (Some (FType (fs ! i))) x"
      using l by (auto simp: list_all2_conv_all_nth)
    have "find (\<lambda>f. Name f = k) (rev fs) = Some (fs ! i)"
      by (rule find_unique) (use f d in \<open>auto simp: in_set_conv_nth distinct_conv_nth\<close>)
    with f show ?thesis by auto
  qed
  have "hasKey m (Name f)" if "f \<in> set fs" for f
  proof -
    have "Name f \<in> set (map fst m)" using that by (simp add: names)
    then show ?thesis by (simp add: hasKey_iff)
  qed
  with field show ?thesis by (simp add: conforms_ObjectType)
qed

section \<open>majority\_filter\<close>

definition verdicts :: "string list" where
  "verdicts = [''supported'', ''refuted'', ''unclear'']"

definition majority_params :: "param list" where
  "majority_params =
    [\<lparr>PName = ''claims'', PType = ArrayType (Some (openObject [fld ''id'' StringType])), Min = 0, Max = 0\<rparr>,
     \<lparr>PName = ''votes'', PType = ArrayType (Some (openObject
        [fld ''item'' (openObject [fld ''claim_id'' StringType]),
         fld ''output'' (openObject [fld ''result'' (openObject [fld ''verdict'' StringType])])])), Min = 0, Max = 0\<rparr>,
     \<lparr>PName = ''quorum'', PType = IntegerType, Min = 1, Max = 7\<rparr>]"

definition add_count :: "ty \<Rightarrow> string \<Rightarrow> ty" where
  "add_count t v = set_Properties t (put v IntegerType (Properties t))
     (if requires t v then Required t else sort (Required t @ [v]))"

definition tallied :: "ty option \<Rightarrow> ty" where
  "tallied claim = (let t = (case claim of
       Some c \<Rightarrow> if Kind c = KObject then c else openObject [fld ''id'' StringType]
     | None \<Rightarrow> openObject [fld ''id'' StringType])
   in fold (\<lambda>v t. add_count t v) verdicts t)"

definition majority_result :: "ty option \<Rightarrow> int option \<Rightarrow> ty" where
  "majority_result claim bound = ObjectType
     [fld ''accepted'' (set_MaxItems (ArrayType (Some (tallied claim))) bound),
      fld ''rejected'' (set_MaxItems (ArrayType (Some (tallied claim))) bound),
      fld ''accepted_count'' IntegerType, fld ''rejected_count'' IntegerType]"

definition majority_refine :: "staticArg gomap \<Rightarrow> ty" where
  "majority_refine args = (case map_of args ''claims'' of
     Some a \<Rightarrow> (case SType a of
         Some t \<Rightarrow> if Kind t \<noteq> KArray then majority_result (Some AnyType) None
           else majority_result (Items t) (MaxItems t)
       | None \<Rightarrow> majority_result (Some AnyType) None)
   | None \<Rightarrow> majority_result (Some AnyType) None)"

definition zero_counts :: "int gomap" where
  "zero_counts = map (\<lambda>v. (v, 0)) verdicts"

definition claim_id :: "val \<Rightarrow> string" where
  "claim_id c = str_of (walkValue c [''id''])"

definition vote_claim :: "val \<Rightarrow> string" where
  "vote_claim v = str_of (walkValue v [''item'', ''claim_id''])"

definition vote_verdict :: "val \<Rightarrow> string" where
  "vote_verdict v = str_of (walkValue v [''output'', ''result'', ''verdict''])"

definition new_tally :: "val list \<Rightarrow> int gomap gomap" where
  "new_tally claims = fold (\<lambda>c t. put (claim_id c) zero_counts t) claims []"

fun count_votes :: "int gomap gomap \<Rightarrow> val list \<Rightarrow> errmsg + int gomap gomap" where
  "count_votes tally [] = Inr tally"
| "count_votes tally (v # vs) = (case map_of tally (vote_claim v) of
     None \<Rightarrow> Inl (Errf ''a vote names claim %q, which is not in claims'' [S (vote_claim v)])
   | Some counts \<Rightarrow> (case map_of counts (vote_verdict v) of
       None \<Rightarrow> Inl (Errf ''vote for claim %s has verdict %q; expected %s''
          [S (vote_claim v), S (vote_verdict v), S (join '', '' verdicts)])
     | Some n \<Rightarrow> count_votes (put (vote_claim v) (put (vote_verdict v) (n + 1) counts) tally) vs))"

fun fields_of :: "val \<Rightarrow> (string \<times> val) list" where
  "fields_of (VObj m) = m"
| "fields_of _ = []"

definition tally_of :: "int gomap gomap \<Rightarrow> string \<Rightarrow> int gomap" where
  "tally_of tally cid = (case map_of tally cid of Some c \<Rightarrow> c | None \<Rightarrow> [])"

definition count_of :: "int gomap \<Rightarrow> string \<Rightarrow> int" where
  "count_of counts v = (case map_of counts v of Some n \<Rightarrow> n | None \<Rightarrow> 0)"

definition tallied_claim :: "int gomap gomap \<Rightarrow> val \<Rightarrow> val" where
  "tallied_claim tally c = (let counts = tally_of tally (str_of (field_value c ''id'')) in
     VObj (fold (\<lambda>k out. put k (VInt (count_of counts k)) out) (sortedKeys counts) (fields_of c)))"

definition accepts :: "int gomap gomap \<Rightarrow> int \<Rightarrow> val \<Rightarrow> bool" where
  "accepts tally quorum c \<longleftrightarrow> quorum \<le> count_of (tally_of tally (str_of (field_value c ''id''))) ''supported''"

definition majority_body :: "val gomap \<Rightarrow> outcome" where
  "majority_body args = (let quorum = int_of (arg_val args ''quorum''); claims = list_of (arg_val args ''claims'') in
     case count_votes (new_tally claims) (list_of (arg_val args ''votes'')) of
       Inl e \<Rightarrow> Refused e
     | Inr tally \<Rightarrow>
        let accepted = map (tallied_claim tally) (filter (accepts tally quorum) claims);
            rejected = map (tallied_claim tally) (filter (\<lambda>c. \<not> accepts tally quorum c) claims)
        in Returned (VObj [(''accepted'', VList accepted), (''rejected'', VList rejected),
             (''accepted_count'', VInt (int (length accepted))), (''rejected_count'', VInt (int (length rejected)))]))"

definition majorityFilter :: func where
  "majorityFilter = \<lparr>FName = ''majority_filter'', Version = 1, Params = majority_params,
     Result = majority_result (Some AnyType) None, Refine = Some majority_refine,
     Call = checked majority_params majority_body\<rparr>"

text \<open>The tally is the number of votes of each verdict that name the claim.\<close>

definition votes_for :: "val list \<Rightarrow> string \<Rightarrow> string \<Rightarrow> int" where
  "votes_for votes cid v = int (length (filter (\<lambda>x. vote_claim x = cid \<and> vote_verdict x = v) votes))"

lemma new_tally_lookup:
  "map_of (new_tally claims) cid = (if cid \<in> claim_id ` set claims then Some zero_counts else None)"
proof -
  have "map_of (fold (\<lambda>c t. put (claim_id c) zero_counts t) claims t) cid =
      (if cid \<in> claim_id ` set claims then Some zero_counts else map_of t cid)" for t
    by (induction claims arbitrary: t) (auto simp: put_lookup)
  then show ?thesis by (simp add: new_tally_def)
qed

lemma count_votes_counts:
  assumes "count_votes tally votes = Inr tally'"
  shows "map_of tally' cid = None \<longleftrightarrow> map_of tally cid = None"
    and "map_of (tally_of tally' cid) v = map_option (\<lambda>n. n + votes_for votes cid v) (map_of (tally_of tally cid) v)"
  using assms
  by (induction tally votes rule: count_votes.induct)
    (auto simp: votes_for_def tally_of_def put_lookup option.map_comp comp_def option.map_ident
       split: option.splits if_splits)

lemma majority_counts:
  assumes "count_votes (new_tally claims) votes = Inr tally" and "c \<in> set claims"
  shows "map_of (tally_of tally (claim_id c)) v = (if v \<in> set verdicts then Some (votes_for votes (claim_id c) v) else None)"
  using count_votes_counts(2) [OF assms(1), of "claim_id c" v] assms(2)
  by (auto simp: tally_of_def [of "new_tally claims"] new_tally_lookup zero_counts_def verdicts_def)

text \<open>A conforming claim keeps its fields and gains the three counts.\<close>

lemma fold_put_fun_lookup:
  "map_of (fold (\<lambda>k out. put k (f k) out) ks m) j = (if j \<in> set ks then Some (f j) else map_of m j)"
  by (induction ks arbitrary: m) (auto simp: put_lookup)

lemma tallied_claim_lookup:
  assumes "count_votes (new_tally claims) votes = Inr tally" and "c \<in> set claims"
  shows "\<exists>m. tallied_claim tally c = VObj m \<and> (\<forall>k. map_of m k =
     (if k \<in> set verdicts then Some (VInt (votes_for votes (claim_id c) k)) else map_of (fields_of c) k))"
proof -
  have walk: "str_of (field_value c ''id'') = claim_id c"
    by (cases c) (simp_all add: claim_id_def)
  have keys: "set (sortedKeys (tally_of tally (claim_id c))) = set verdicts"
    using majority_counts [OF assms] by (auto simp: set_sortedKeys_dom split: if_splits)
  show ?thesis
    using majority_counts [OF assms]
    by (simp add: tallied_claim_def walk fold_put_fun_lookup keys count_of_def)
qed

lemma accepts_iff:
  assumes "count_votes (new_tally claims) votes = Inr tally" and "c \<in> set claims"
  shows "accepts tally quorum c \<longleftrightarrow> quorum \<le> votes_for votes (claim_id c) ''supported''"
proof -
  have walk: "str_of (field_value c ''id'') = claim_id c"
    by (cases c) (simp_all add: claim_id_def)
  show ?thesis
    using majority_counts [OF assms, of "''supported''"]
    by (simp add: accepts_def walk count_of_def verdicts_def)
qed

lemma tallied_lookup:
  "map_of (Properties (tallied c)) k = (if k \<in> set verdicts then Some IntegerType
     else map_of (Properties (case c of Some c \<Rightarrow> if Kind c = KObject then c else openObject [fld ''id'' StringType]
            | None \<Rightarrow> openObject [fld ''id'' StringType])) k)"
  by (simp add: tallied_def verdicts_def Let_def add_count_def set_Properties_def put_lookup)

lemma tallied_required:
  "set (Required (tallied c)) = set verdicts \<union> set (Required (case c of
     Some c \<Rightarrow> if Kind c = KObject then c else openObject [fld ''id'' StringType]
   | None \<Rightarrow> openObject [fld ''id'' StringType]))"
  by (auto simp: tallied_def verdicts_def Let_def add_count_def set_Properties_def requires_def)

lemma tallied_sel:
  "Kind (tallied c) = KObject"
  "Open (tallied c) \<longleftrightarrow> (case c of Some c \<Rightarrow> if Kind c = KObject then Open c else True | None \<Rightarrow> True)"
  "Enum (tallied c) = (case c of Some c \<Rightarrow> if Kind c = KObject then Enum c else [] | None \<Rightarrow> [])"
  by (auto simp: tallied_def verdicts_def Let_def add_count_def set_Properties_def split: option.splits)

lemma tallied_claim_conforms:
  assumes v: "count_votes (new_tally claims) votes = Inr tally" and c: "c \<in> set claims"
    and sch: "conforms (Some (openObject [fld ''id'' StringType])) c"
    and t: "conforms ty c" and en: "\<And>u. ty = Some u \<Longrightarrow> Enum u = []"
  shows "conforms (Some (tallied ty)) (tallied_claim tally c)"
proof -
  obtain cm where cm: "c = VObj cm" using sch by (cases c) (auto simp: conforms_simps)
  define base where "base = (case ty of Some u \<Rightarrow> if Kind u = KObject then u else openObject [fld ''id'' StringType]
     | None \<Rightarrow> openObject [fld ''id'' StringType])"
  have base: "conforms (Some base) c" and kind: "Kind base = KObject"
    using t sch by (auto simp: base_def split: option.splits)
  obtain m where m: "tallied_claim tally c = VObj m"
      "\<And>k. map_of m k = (if k \<in> set verdicts then Some (VInt (votes_for votes (claim_id c) k)) else map_of cm k)"
    using tallied_claim_lookup [OF v c] by (auto simp: cm)
  have req: "hasKey m name" if "name \<in> set (Required (tallied ty))" for name
    using that base by (auto simp: tallied_required base_def [symmetric] cm conforms_object [OF kind] hasKey_def m(2))
  have opn: "Open (tallied ty) \<longleftrightarrow> Open base"
    by (auto simp: tallied_sel base_def split: option.splits)
  have entry: "entry_conforms (tallied ty) name x" if x: "map_of m name = Some x" for name x
  proof (cases "name \<in> set verdicts")
    case True
    with x show ?thesis by (auto simp: entry_conforms_def tallied_lookup m(2) conforms_plain)
  next
    case False
    then have "map_of cm name = Some x" using x m(2) by simp
    then have "entry_conforms base name x" using base by (simp add: cm conforms_object [OF kind])
    then show ?thesis
      using False by (auto simp: entry_conforms_def tallied_lookup base_def [symmetric] opn split: option.splits)
  qed
  have "Enum (tallied ty) = []"
    using en by (auto simp: tallied_sel split: option.splits)
  then show ?thesis
    using req entry by (simp add: m(1) conforms_object [OF tallied_sel(1)])
qed

section \<open>collect\_claims\<close>

text \<open>
  \<^verbatim>\<open>strings.ToLower\<close> needs Unicode's case tables: it is the parameter \<open>lower\<close>. The claims
  built so far are kept in order under their lower-cased text, as \<^verbatim>\<open>byKey\<close> and \<^verbatim>\<open>claims\<close> do
  together; \<^verbatim>\<open>fmt.Sprint\<close> of a checked text is the text itself.
\<close>

record claim =
  c_id :: string
  c_angle :: string
  c_text :: string
  c_sources :: "string list"
  c_unverified :: "string list"

definition claimType :: ty where
  "claimType = ObjectType [fld ''id'' StringType, fld ''angle_id'' StringType, fld ''text'' StringType,
     fld ''sources'' (ArrayType (Some StringType)), fld ''unverified_sources'' (ArrayType (Some StringType))]"

definition findingType :: ty where
  "findingType = openObject
     [fld ''item'' (openObject [fld ''id'' StringType]),
      fld ''output'' (openObject
        [fld ''sources'' (ArrayType (Some (openObject [fld ''url'' StringType]))),
         fld ''result'' (openObject [fld ''claims'' (ArrayType (Some (openObject
            [fld ''text'' StringType, fld ''sources'' (ArrayType (Some StringType))])))])])]"

definition collect_params :: "param list" where
  "collect_params = [\<lparr>PName = ''findings'', PType = ArrayType (Some findingType), Min = 0, Max = 0\<rparr>,
     \<lparr>PName = ''max_claims'', PType = IntegerType, Min = 1, Max = 100\<rparr>]"

definition collect_result :: "int option \<Rightarrow> ty" where
  "collect_result bound = ObjectType [fld ''claims'' (set_MaxItems (ArrayType (Some claimType)) bound),
     fld ''count'' IntegerType, fld ''dropped'' IntegerType]"

definition collect_refine :: "staticArg gomap \<Rightarrow> ty" where
  "collect_refine args = (case map_of args ''max_claims'' of
     Some a \<Rightarrow> (case Literal a of VInt n \<Rightarrow> if IsConst a then collect_result (Some n) else collect_result None
       | _ \<Rightarrow> collect_result None)
   | None \<Rightarrow> collect_result None)"

definition add_once :: "string list \<Rightarrow> string \<Rightarrow> string list" where
  "add_once xs u = (if u \<in> set xs then xs else xs @ [u])"

definition cite :: "string set \<Rightarrow> claim \<Rightarrow> val \<Rightarrow> claim" where
  "cite fetched c s = (case s of
     VStr u \<Rightarrow> if u \<in> fetched then c\<lparr>c_sources := add_once (c_sources c) u\<rparr>
       else c\<lparr>c_unverified := add_once (c_unverified c) u\<rparr>
   | _ \<Rightarrow> c)"

definition fetched_of :: "val \<Rightarrow> string set" where
  "fetched_of f = set (List.map_filter (\<lambda>s. case walkValue s [''url''] of VStr u \<Rightarrow> Some u | _ \<Rightarrow> None)
     (list_of (walkValue f [''output'', ''sources''])))"

definition claim_words :: "val \<Rightarrow> string" where
  "claim_words c = join '' '' (splitFields (str_of (walkValue c [''text''])))"

definition cited_of :: "val \<Rightarrow> val list" where
  "cited_of c = list_of (walkValue c [''sources''])"

type_synonym collected = "claim gomap \<times> int"

definition collect_one :: "(string \<Rightarrow> string) \<Rightarrow> int \<Rightarrow> val \<Rightarrow> val \<Rightarrow> collected \<Rightarrow> collected" where
  "collect_one lower limit f c st = (case st of (claims, dropped) \<Rightarrow>
     let key = lower (claim_words c) in
     if claim_words c = [] then st
     else (case map_of claims key of
         Some cl \<Rightarrow> (put key (foldl (cite (fetched_of f)) cl (cited_of c)) claims, dropped)
       | None \<Rightarrow>
           if limit \<le> int (length claims) then (claims, dropped + 1)
           else let cl = \<lparr>c_id = ''c'' @ itoa (int (length claims) + 1),
                    c_angle = str_of (walkValue f [''item'', ''id'']), c_text = claim_words c,
                    c_sources = [], c_unverified = []\<rparr>
                in (put key (foldl (cite (fetched_of f)) cl (cited_of c)) claims, dropped)))"

definition collect_finding :: "(string \<Rightarrow> string) \<Rightarrow> int \<Rightarrow> val \<Rightarrow> collected \<Rightarrow> collected" where
  "collect_finding lower limit f st =
     fold (collect_one lower limit f) (list_of (walkValue f [''output'', ''result'', ''claims''])) st"

definition claim_val :: "claim \<Rightarrow> val" where
  "claim_val c = VObj [(''id'', VStr (c_id c)), (''angle_id'', VStr (c_angle c)), (''text'', VStr (c_text c)),
     (''sources'', VList (map VStr (c_sources c))), (''unverified_sources'', VList (map VStr (c_unverified c)))]"

definition collect_all :: "(string \<Rightarrow> string) \<Rightarrow> int \<Rightarrow> val list \<Rightarrow> collected" where
  "collect_all lower limit findings = fold (collect_finding lower limit) findings ([], 0)"

definition collect_body :: "(string \<Rightarrow> string) \<Rightarrow> val gomap \<Rightarrow> outcome" where
  "collect_body lower args = (let (claims, dropped) =
       collect_all lower (int_of (arg_val args ''max_claims'')) (list_of (arg_val args ''findings'')) in
     Returned (VObj [(''claims'', VList (map (claim_val \<circ> snd) claims)),
       (''count'', VInt (int (length claims))), (''dropped'', VInt dropped)]))"

definition collectClaims :: "(string \<Rightarrow> string) \<Rightarrow> func" where
  "collectClaims lower = \<lparr>FName = ''collect_claims'', Version = 1, Params = collect_params,
     Result = collect_result None, Refine = Some collect_refine,
     Call = checked collect_params (collect_body lower)\<rparr>"

text \<open>What the loop keeps: numbered, distinct claims within the limit, citing only fetched sources.\<close>

definition claim_good :: "(string \<Rightarrow> string) \<Rightarrow> string set \<Rightarrow> string \<times> claim \<Rightarrow> bool" where
  "claim_good lower urls p \<longleftrightarrow> fst p = lower (c_text (snd p)) \<and> c_text (snd p) \<noteq> [] \<and>
     distinct (c_sources (snd p)) \<and> distinct (c_unverified (snd p)) \<and> set (c_sources (snd p)) \<subseteq> urls"

definition collect_inv :: "(string \<Rightarrow> string) \<Rightarrow> int \<Rightarrow> string set \<Rightarrow> collected \<Rightarrow> bool" where
  "collect_inv lower limit urls st \<longleftrightarrow> distinct (map fst (fst st)) \<and>
     (fst st \<noteq> [] \<longrightarrow> int (length (fst st)) \<le> limit) \<and> 0 \<le> snd st \<and>
     map (c_id \<circ> snd) (fst st) = map (\<lambda>i. ''c'' @ itoa (int i + 1)) [0..<length (fst st)] \<and>
     (\<forall>p \<in> set (fst st). claim_good lower urls p)"

lemma cite_id [simp]: "c_id (cite u c s) = c_id c" "c_text (cite u c s) = c_text c" "c_angle (cite u c s) = c_angle c"
  by (auto simp: cite_def split: val.splits)

lemma cites_id [simp]:
  "c_id (foldl (cite u) c ss) = c_id c" "c_text (foldl (cite u) c ss) = c_text c"
  by (induction ss arbitrary: c) simp_all

lemma cite_good: "claim_good lower urls (k, c) \<Longrightarrow> u \<subseteq> urls \<Longrightarrow> claim_good lower urls (k, cite u c s)"
  by (auto simp: cite_def claim_good_def add_once_def split: val.splits)

lemma cites_good: "claim_good lower urls (k, c) \<Longrightarrow> u \<subseteq> urls \<Longrightarrow> claim_good lower urls (k, foldl (cite u) c ss)"
  by (induction ss arbitrary: c) (simp_all add: cite_good)

lemma collect_one_inv:
  assumes inv: "collect_inv lower limit urls st" and u: "fetched_of f \<subseteq> urls"
  shows "collect_inv lower limit urls (collect_one lower limit f c st)"
proof -
  obtain claims dropped where st: "st = (claims, dropped)" by fastforce
  define words where "words = claim_words c"
  define cited where "cited = cited_of c"
  note one = collect_one_def st prod.case Let_def words_def [symmetric] cited_def [symmetric]
  show ?thesis
  proof (cases "words = []")
    case True
    with inv show ?thesis by (simp add: one)
  next
    case words: False
    show ?thesis
    proof (cases "map_of claims (lower words)")
      case (Some cl)
      define cl' where "cl' = foldl (cite (fetched_of f)) cl cited"
      have good: "claim_good lower urls (lower words, cl')"
        using inv map_of_SomeD [OF Some] u by (auto simp: cl'_def collect_inv_def st intro!: cites_good)
      have ids: "map (c_id \<circ> snd) (put (lower words) cl' claims) = map (c_id \<circ> snd) claims"
        by (rule put_same [OF Some]) (simp add: cl'_def)
      have ne: "lower words \<in> fst ` set claims" using map_of_SomeD [OF Some] by force
      show ?thesis
        using inv good ids ne
        by (auto simp: one words Some cl'_def [symmetric] collect_inv_def put_keys length_put dest!: put_mem)
    next
      case None
      show ?thesis
      proof (cases "limit \<le> int (length claims)")
        case True
        with inv show ?thesis by (simp add: one words None collect_inv_def)
      next
        case False
        define new where "new = \<lparr>c_id = ''c'' @ itoa (int (length claims) + 1),
          c_angle = str_of (walkValue f [''item'', ''id'']), c_text = words, c_sources = [], c_unverified = []\<rparr>"
        have "claim_good lower urls (lower words, foldl (cite (fetched_of f)) new cited)"
          using u words by (intro cites_good) (simp_all add: claim_good_def new_def)
        moreover have "lower words \<notin> fst ` set claims" using None by (simp add: map_of_eq_None_iff)
        ultimately show ?thesis
          using inv False
          by (auto simp: one words None new_def [symmetric] collect_inv_def put_new)
            (simp add: new_def)
      qed
    qed
  qed
qed

lemma collect_all_inv:
  "collect_inv lower limit (\<Union>f \<in> set findings. fetched_of f) (collect_all lower limit findings)"
  unfolding collect_all_def
proof (rule fold_invariant [where Q = "\<lambda>f. f \<in> set findings"])
  show "collect_inv lower limit (\<Union>f \<in> set findings. fetched_of f) ([], 0)"
    by (simp add: collect_inv_def)
next
  fix f st
  assume "f \<in> set findings" "collect_inv lower limit (\<Union>f \<in> set findings. fetched_of f) st"
  then show "collect_inv lower limit (\<Union>f \<in> set findings. fetched_of f) (collect_finding lower limit f st)"
    unfolding collect_finding_def
    by - (rule fold_invariant [where Q = "\<lambda>_. True"], auto intro!: collect_one_inv)
qed simp

section \<open>Calling a function\<close>

text \<open>
  \<^verbatim>\<open>node.call\<close> of execute.go: a failure is the function refusing its input or panicking; broken
  is a result outside the function's declared type.
\<close>

datatype callResult = CallOk val | CallFailure errmsg | CallBroken errmsg

definition call :: "func \<Rightarrow> string \<Rightarrow> val gomap \<Rightarrow> callResult" where
  "call f path input = (case Call f input of
     Panicked r \<Rightarrow> CallFailure (Errf ''%s panicked: %v'' [S (fID f), S r])
   | Refused e \<Rightarrow> CallFailure e
   | Returned result \<Rightarrow> (case checkValue (Some (Result f)) result of
       Some e \<Rightarrow> CallBroken (Errf ''%s: %s returned a value outside its result type: %v'' [S path, S (fID f), E e])
     | None \<Rightarrow> CallOk result))"

text \<open>
  The contract of a reviewed function: it checks its arguments, and what it returns has its
  result type. A caller may then rely on a call never being broken.
\<close>

locale reviewed_function =
  fixes f :: func
  assumes checks: "Call f args = Returned r \<Longrightarrow> checkArgs (Params f) args = None"
    and typed: "Call f args = Returned r \<Longrightarrow> conforms (Some (Result f)) r"
begin

lemma result_checks: "Call f input = Returned r \<Longrightarrow> checkValue (Some (Result f)) r = None"
  using typed by (simp add: checkValue_def checkAt_conforms)

lemma never_broken: "call f path input \<noteq> CallBroken e"
  by (auto simp: call_def dest: result_checks split: outcome.splits option.splits)

lemma ok_typed: "call f path input = CallOk v \<longleftrightarrow> Call f input = Returned v"
  by (auto simp: call_def dest: result_checks split: outcome.splits option.splits)

lemma missing_refused: "p \<in> set (Params f) \<Longrightarrow> map_of input (PName p) = None \<Longrightarrow> call f path input \<noteq> CallOk v"
  using checks [of input] by (fastforce simp: ok_typed checkArgs_None)

end

lemma conforms_result1: "conforms (Some (ObjectType [fld a t])) (VObj [(a, x)]) \<longleftrightarrow> conforms (Some t) x"
  by (auto simp: conforms_ObjectType hasKey_def)

interpretation require_zero: reviewed_function requireZero
proof
  fix args r assume "Call requireZero args = Returned r"
  then show "checkArgs (Params requireZero) args = None" "conforms (Some (Result requireZero)) r"
    by (auto simp: requireZero_def checked_Returned require_body_def Let_def conforms_result1 conforms_plain
        split: if_splits)
qed

lemma split_result_conforms:
  "lo \<le> int (nat parts) \<Longrightarrow> int (nat parts) \<le> hi \<Longrightarrow> conforms (Some (split_result lo hi))
     (VObj [(''shares'', VList (map VInt (shares_of tot parts))), (''share'', VInt q), (''remainder'', VInt m)])"
  unfolding split_result_def
  by (rule conforms_fields)
    (auto simp: conforms_plain ArrayType_def set_MaxItems_def set_MinItems_def conforms_simps in_count_range_def)

interpretation split_evenly: reviewed_function splitEvenly
proof
  fix args r assume "Call splitEvenly args = Returned r"
  then have c: "checkArgs split_params args = None" and r: "split_body args = Returned r"
    by (simp_all add: splitEvenly_def checked_Returned)
  then show "checkArgs (Params splitEvenly) args = None" by (simp add: splitEvenly_def)
  from c obtain tot parts where "map_of args ''total'' = Some (VInt tot)" "map_of args ''parts'' = Some (VInt parts)"
      "1 \<le> parts" "parts \<le> maxSplitParts" by (rule split_args)
  with r show "conforms (Some (Result splitEvenly)) r"
    by (auto simp: splitEvenly_def split_body_def arg_val_def Let_def intro!: split_result_conforms)
qed

lemma expand_result_conforms:
  assumes "\<forall>c \<in> set claims. conforms (Some (openObject [fld ''id'' StringType, fld ''text'' StringType,
        fld ''sources'' (ArrayType (Some StringType))])) c"
    and "\<forall>h. bound = Some h \<longrightarrow> int (length claims * nat votes) \<le> h"
  shows "conforms (Some (expand_result bound))
     (VObj [(''ballots'', VList (ballots_of claims votes)), (''count'', VInt n)])"
proof -
  have "conforms (Some ballotType) (ballot c voter)" if c: "c \<in> set claims" for c voter
  proof -
    obtain xs where "walkValue c [''sources''] = VList xs" "\<forall>x \<in> set xs. conforms (Some StringType) x"
      using conforms_openObject_D [OF assms(1) [rule_format, OF c], of "''sources''"]
      by (force simp: conforms_plain)
    then show ?thesis
      unfolding ballotType_def ballot_def
      by (intro conforms_fields) (auto simp: conforms_plain)
  qed
  then show ?thesis
    unfolding expand_result_def
    by (intro conforms_fields) (use assms(2) in \<open>auto simp: conforms_plain conforms_set_MaxItems ballots_of_def length_ballots [unfolded ballots_of_def]\<close>)
qed

interpretation expand_ballots: reviewed_function expandBallots
proof
  fix args r assume "Call expandBallots args = Returned r"
  then have c: "checkArgs expand_params args = None" and r: "expand_body args = Returned r"
    by (simp_all add: expandBallots_def checked_Returned)
  then show "checkArgs (Params expandBallots) args = None" by (simp add: expandBallots_def)
  from c r show "conforms (Some (Result expandBallots)) r"
    by (auto simp: expandBallots_def expand_body_def arg_val_def Let_def checkArgs_None expand_params_def
        arg_ok_def conforms_ArrayType intro!: expand_result_conforms)
qed

lemma claim_val_conforms: "conforms (Some claimType) (claim_val c)"
  unfolding claimType_def claim_val_def by (rule conforms_fields) (auto simp: conforms_plain)

lemma collect_result_conforms:
  "(\<forall>h. bound = Some h \<longrightarrow> int (length claims) \<le> h) \<Longrightarrow> conforms (Some (collect_result bound))
     (VObj [(''claims'', VList (map (claim_val \<circ> snd) claims)), (''count'', VInt n), (''dropped'', VInt d)])"
  unfolding collect_result_def
  by (rule conforms_fields) (auto simp: conforms_plain conforms_set_MaxItems claim_val_conforms)

interpretation collect_claims: reviewed_function "collectClaims lower" for lower
  by unfold_locales (auto simp: collectClaims_def checked_Returned collect_body_def Let_def
      intro!: collect_result_conforms split: prod.splits)

lemma majority_result_conforms:
  assumes "count_votes (new_tally claims) votes = Inr tally"
    and "\<forall>c \<in> set claims. conforms (Some (openObject [fld ''id'' StringType])) c"
    and "\<forall>c \<in> set claims. conforms ty c" and "\<And>u. ty = Some u \<Longrightarrow> Enum u = []"
    and "\<forall>h. bound = Some h \<longrightarrow> int (length claims) \<le> h"
  shows "conforms (Some (majority_result ty bound))
     (VObj [(''accepted'', VList (map (tallied_claim tally) (filter P claims))),
       (''rejected'', VList (map (tallied_claim tally) (filter Q claims))),
       (''accepted_count'', VInt m), (''rejected_count'', VInt n)])"
proof -
  have len: "int (length (filter R claims)) \<le> h" if "bound = Some h" for R h
  proof -
    have "int (length claims) \<le> h" using assms(5) that by simp
    then show ?thesis using length_filter_le [of R claims] by linarith
  qed
  have "conforms (Some (tallied ty)) (tallied_claim tally c)" if "c \<in> set claims" for c
    using tallied_claim_conforms [OF assms(1) that] assms(2-4) that by blast
  then show ?thesis
    unfolding majority_result_def
    by (intro conforms_fields) (auto simp: conforms_plain conforms_set_MaxItems len)
qed

interpretation majority_filter: reviewed_function majorityFilter
proof
  fix args r assume "Call majorityFilter args = Returned r"
  then have c: "checkArgs majority_params args = None" and r: "majority_body args = Returned r"
    by (simp_all add: majorityFilter_def checked_Returned)
  then show "checkArgs (Params majorityFilter) args = None" by (simp add: majorityFilter_def)
  from c obtain claims where "map_of args ''claims'' = Some (VList claims)"
      "\<forall>c \<in> set claims. conforms (Some (openObject [fld ''id'' StringType])) c"
    by (auto simp: checkArgs_None majority_params_def arg_ok_def conforms_ArrayType)
  with r show "conforms (Some (Result majorityFilter)) r"
    by (auto simp: majorityFilter_def majority_body_def arg_val_def Let_def AnyType_def plain_def
        intro!: majority_result_conforms split: sum.splits)
qed

section \<open>Refined result types\<close>

text \<open>
  What validation knows of a step's arguments agrees with the arguments of a call: a constant
  is passed as written, and every argument has its static type.
\<close>

definition static_ok :: "staticArg gomap \<Rightarrow> val gomap \<Rightarrow> bool" where
  "static_ok static args \<longleftrightarrow> (\<forall>name a. map_of static name = Some a \<longrightarrow>
     (\<exists>v. map_of args name = Some v \<and> (IsConst a \<longrightarrow> v = Literal a) \<and> conforms (SType a) v))"

lemma static_okD:
  "static_ok static args \<Longrightarrow> map_of static name = Some a \<Longrightarrow>
     \<exists>v. map_of args name = Some v \<and> (IsConst a \<longrightarrow> v = Literal a) \<and> conforms (SType a) v"
  by (simp add: static_ok_def)

lemma split_refined:
  assumes "Call splitEvenly args = Returned r" and "static_ok static args"
  shows "conforms (Some (split_refine static)) r"
proof -
  from assms(1) have c: "checkArgs split_params args = None" and r: "split_body args = Returned r"
    by (simp_all add: splitEvenly_def checked_Returned)
  from c obtain tot parts where p: "map_of args ''total'' = Some (VInt tot)" "map_of args ''parts'' = Some (VInt parts)"
      "1 \<le> parts" "parts \<le> maxSplitParts" by (rule split_args)
  show ?thesis
    using r p static_okD [OF assms(2), of "''parts''"]
    by (fastforce simp: split_refine_def split_body_def arg_val_def Let_def
        intro!: split_result_conforms split: option.splits val.splits)
qed

lemma collect_count:
  assumes "1 \<le> limit"
  shows "int (length (fst (collect_all lower limit findings))) \<le> limit"
  using collect_all_inv [of lower limit findings] assms
  by (cases "fst (collect_all lower limit findings)") (auto simp: collect_inv_def)

lemma collect_refined:
  assumes "Call (collectClaims lower) args = Returned r" and "static_ok static args"
  shows "conforms (Some (collect_refine static)) r"
proof -
  from assms(1) have c: "checkArgs collect_params args = None" and r: "collect_body lower args = Returned r"
    by (simp_all add: collectClaims_def checked_Returned)
  from c obtain n where n: "map_of args ''max_claims'' = Some (VInt n)" "1 \<le> n"
    by (auto simp: checkArgs_None collect_params_def arg_ok_def conforms_plain)
  have "conforms (Some (collect_result b)) r" if "\<forall>h. b = Some h \<longrightarrow> h = n" for b
    using r n that collect_count [OF n(2), of lower "list_of (arg_val args ''findings'')"]
    by (auto simp: collect_body_def Let_def arg_val_def intro!: collect_result_conforms split: prod.splits)
  then show ?thesis
    using n static_okD [OF assms(2), of "''max_claims''"]
    by (fastforce simp: collect_refine_def split: option.splits val.splits)
qed

lemma expand_refined:
  assumes "Call expandBallots args = Returned r" and "static_ok static args"
    and "\<And>a v t m n. map_of static ''claims'' = Some a \<Longrightarrow> map_of static ''votes'' = Some v \<Longrightarrow> SType a = Some t \<Longrightarrow>
       MaxItems t = Some m \<Longrightarrow> Literal v = VInt n \<Longrightarrow> in_int64 (m * n) \<and> Kind t = KArray"
  shows "conforms (Some (expand_refine static)) r"
proof -
  from assms(1) have c: "checkArgs expand_params args = None" and r: "expand_body args = Returned r"
    by (simp_all add: expandBallots_def checked_Returned)
  from c obtain claims votes where a: "map_of args ''claims'' = Some (VList claims)" "map_of args ''votes'' = Some (VInt votes)"
      "1 \<le> votes" and cl: "\<forall>c \<in> set claims. conforms (Some (openObject [fld ''id'' StringType, fld ''text'' StringType,
        fld ''sources'' (ArrayType (Some StringType))])) c"
    by (auto simp: checkArgs_None expand_params_def arg_ok_def conforms_plain)
  have ok: "conforms (Some (expand_result b)) r" if "\<forall>h. b = Some h \<longrightarrow> int (length claims * nat votes) \<le> h" for b
    using r a cl that by (auto simp: expand_body_def Let_def arg_val_def intro!: expand_result_conforms)
  show ?thesis
  proof (cases "\<exists>sa sv t m n. map_of static ''claims'' = Some sa \<and> map_of static ''votes'' = Some sv \<and>
      SType sa = Some t \<and> MaxItems t = Some m \<and> Literal sv = VInt n \<and> IsConst sv")
    case True
    then obtain sa sv t m n where s: "map_of static ''claims'' = Some sa" "map_of static ''votes'' = Some sv"
      "SType sa = Some t" "MaxItems t = Some m" "Literal sv = VInt n" "IsConst sv" by blast
    have n: "n = votes" using static_okD [OF assms(2) s(2)] s a by auto
    have k: "in_int64 (m * n)" "Kind t = KArray" using assms(3) s by blast+
    have "int (length claims) \<le> m"
      using static_okD [OF assms(2) s(1)] s(3,4) a k(2) by (auto simp: conforms_VList in_count_range_def)
    then have "int (length claims) * votes \<le> m * votes" using a(3) by (intro mult_right_mono) auto
    then show ?thesis
      using s n k(1) a(3) by (auto simp: expand_refine_def wrap64_id intro!: ok)
  next
    case False
    then have "expand_refine static = expand_result None"
      by (auto simp: expand_refine_def split: option.splits val.splits)
    then show ?thesis by (simp add: ok)
  qed
qed

lemma majority_refined:
  assumes "Call majorityFilter args = Returned r" and "static_ok static args"
    and "\<And>a t u. map_of static ''claims'' = Some a \<Longrightarrow> SType a = Some t \<Longrightarrow> Items t = Some u \<Longrightarrow> Enum u = []"
  shows "conforms (Some (majority_refine static)) r"
proof -
  from assms(1) have c: "checkArgs majority_params args = None" and r: "majority_body args = Returned r"
    by (simp_all add: majorityFilter_def checked_Returned)
  from c obtain claims where cl: "map_of args ''claims'' = Some (VList claims)"
      "\<forall>c \<in> set claims. conforms (Some (openObject [fld ''id'' StringType])) c"
    by (auto simp: checkArgs_None majority_params_def arg_ok_def conforms_ArrayType)
  have ok: "conforms (Some (majority_result ty b)) r"
    if "\<forall>c \<in> set claims. conforms ty c" "\<And>u. ty = Some u \<Longrightarrow> Enum u = []" "\<forall>h. b = Some h \<longrightarrow> int (length claims) \<le> h" for ty b
    using r cl that by (auto simp: majority_body_def arg_val_def Let_def intro!: majority_result_conforms split: sum.splits)
  have any: "conforms (Some (majority_result (Some AnyType) None)) r"
    by (rule ok) (simp_all add: AnyType_def plain_def)
  show ?thesis
  proof (cases "\<exists>a t. map_of static ''claims'' = Some a \<and> SType a = Some t \<and> Kind t = KArray")
    case True
    then obtain a t where s: "map_of static ''claims'' = Some a" "SType a = Some t" "Kind t = KArray" by blast
    have "conforms (Some t) (VList claims)" using static_okD [OF assms(2) s(1)] s(2) cl(1) by auto
    then have "\<forall>c \<in> set claims. conforms (Items t) c" "\<forall>h. MaxItems t = Some h \<longrightarrow> int (length claims) \<le> h"
      using s(3) by (auto simp: conforms_VList in_count_range_def)
    then show ?thesis using s assms(3) [OF s(1,2)] by (auto simp: majority_refine_def intro!: ok)
  next
    case False
    then show ?thesis using any by (auto simp: majority_refine_def split: option.splits)
  qed
qed

section \<open>What the functions return\<close>

lemma count_votes_known:
  "count_votes tally vs = Inr t \<Longrightarrow> x \<in> set vs \<Longrightarrow> map_of (tally_of tally (vote_claim x)) (vote_verdict x) \<noteq> None"
proof (induction tally vs rule: count_votes.induct)
  case (2 tally v vs)
  then obtain counts n where c: "map_of tally (vote_claim v) = Some counts" "map_of counts (vote_verdict v) = Some n"
      and r: "count_votes (put (vote_claim v) (put (vote_verdict v) (n + 1) counts) tally) vs = Inr t"
    by (auto split: option.splits)
  show ?case
  proof (cases "x = v")
    case True
    then show ?thesis using c by (simp add: tally_of_def)
  next
    case False
    then have "x \<in> set vs" using "2.prems" by simp
    from "2.IH" [OF c r this] show ?thesis using c by (auto simp: tally_of_def put_lookup split: if_splits)
  qed
qed simp

lemma majority_exact:
  assumes "Call majorityFilter args = Returned r"
  shows "\<exists>claims votes quorum tally. map_of args ''claims'' = Some (VList claims) \<and> map_of args ''votes'' = Some (VList votes) \<and>
    map_of args ''quorum'' = Some (VInt quorum) \<and> (\<forall>x \<in> set votes. vote_claim x \<in> claim_id ` set claims \<and> vote_verdict x \<in> set verdicts) \<and>
    field_value r ''accepted'' = VList (map (tallied_claim tally) (filter (\<lambda>c. quorum \<le> votes_for votes (claim_id c) ''supported'') claims)) \<and>
    field_value r ''rejected'' = VList (map (tallied_claim tally) (filter (\<lambda>c. \<not> quorum \<le> votes_for votes (claim_id c) ''supported'') claims)) \<and>
    (\<forall>c \<in> set claims. \<forall>v \<in> set verdicts. map_of (tally_of tally (claim_id c)) v = Some (votes_for votes (claim_id c) v))"
proof -
  from assms have c: "checkArgs majority_params args = None" and b: "majority_body args = Returned r"
    by (simp_all add: majorityFilter_def checked_Returned)
  from c obtain claims where cl: "map_of args ''claims'' = Some (VList claims)"
    by (fastforce simp: checkArgs_None majority_params_def arg_ok_def conforms_plain)
  from c obtain votes where vo: "map_of args ''votes'' = Some (VList votes)"
    by (fastforce simp: checkArgs_None majority_params_def arg_ok_def conforms_plain)
  from c obtain quorum where qu: "map_of args ''quorum'' = Some (VInt quorum)"
    by (fastforce simp: checkArgs_None majority_params_def arg_ok_def conforms_plain)
  obtain tally where t: "count_votes (new_tally claims) votes = Inr tally"
    using b by (auto simp: majority_body_def arg_val_def cl vo qu split: sum.splits)
  have acc: "filter (accepts tally quorum) claims = filter (\<lambda>c. quorum \<le> votes_for votes (claim_id c) ''supported'') claims"
    by (rule filter_cong) (simp_all add: accepts_iff [OF t])
  have rej: "filter (\<lambda>c. \<not> accepts tally quorum c) claims = filter (\<lambda>c. \<not> quorum \<le> votes_for votes (claim_id c) ''supported'') claims"
    by (rule filter_cong) (simp_all add: accepts_iff [OF t])
  have known: "vote_claim x \<in> claim_id ` set claims \<and> vote_verdict x \<in> set verdicts" if "x \<in> set votes" for x
    using count_votes_known [OF t that]
    by (auto simp: tally_of_def new_tally_lookup zero_counts_def split: if_splits dest: map_of_SomeD)
  have counts: "\<forall>c \<in> set claims. \<forall>v \<in> set verdicts. map_of (tally_of tally (claim_id c)) v = Some (votes_for votes (claim_id c) v)"
    using majority_counts [OF t] by simp
  have "field_value r ''accepted'' = VList (map (tallied_claim tally) (filter (accepts tally quorum) claims)) \<and>
      field_value r ''rejected'' = VList (map (tallied_claim tally) (filter (\<lambda>c. \<not> accepts tally quorum c) claims))"
    using b by (auto simp: majority_body_def arg_val_def cl vo qu t Let_def)
  then show ?thesis using cl vo qu known counts unfolding acc rej by blast
qed

lemma collect_sourced:
  assumes "1 \<le> limit"
  shows "int (length (fst (collect_all lower limit findings))) \<le> limit \<and> 0 \<le> snd (collect_all lower limit findings) \<and>
    distinct (map (lower \<circ> c_text \<circ> snd) (fst (collect_all lower limit findings))) \<and>
    map (c_id \<circ> snd) (fst (collect_all lower limit findings)) =
      map (\<lambda>i. ''c'' @ itoa (int i + 1)) [0..<length (fst (collect_all lower limit findings))] \<and>
    (\<forall>c \<in> set (map snd (fst (collect_all lower limit findings))). distinct (c_sources c) \<and>
       set (c_sources c) \<subseteq> (\<Union>f \<in> set findings. fetched_of f))"
proof -
  note inv = collect_all_inv [of lower limit findings, unfolded collect_inv_def]
  have e: "map (lower \<circ> c_text \<circ> snd) (fst (collect_all lower limit findings)) = map fst (fst (collect_all lower limit findings))"
    using inv by (auto simp: claim_good_def)
  show ?thesis unfolding e using inv collect_count [OF assms, of lower findings] by (auto simp: claim_good_def)
qed

lemma collect_exact:
  assumes "Call (collectClaims lower) args = Returned r"
  shows "\<exists>limit findings cs. map_of args ''max_claims'' = Some (VInt limit) \<and> map_of args ''findings'' = Some (VList findings) \<and>
    field_value r ''claims'' = VList (map claim_val cs) \<and> field_value r ''count'' = VInt (int (length cs)) \<and>
    int (length cs) \<le> limit \<and> distinct (map (lower \<circ> c_text) cs) \<and>
    map c_id cs = map (\<lambda>i. ''c'' @ itoa (int i + 1)) [0..<length cs] \<and>
    (\<forall>c \<in> set cs. distinct (c_sources c) \<and> set (c_sources c) \<subseteq> (\<Union>f \<in> set findings. fetched_of f))"
proof -
  from assms have c: "checkArgs collect_params args = None" and b: "collect_body lower args = Returned r"
    by (simp_all add: collectClaims_def checked_Returned)
  from c obtain limit where l: "map_of args ''max_claims'' = Some (VInt limit)" "1 \<le> limit"
    by (fastforce simp: checkArgs_None collect_params_def arg_ok_def conforms_plain)
  from c obtain findings where f: "map_of args ''findings'' = Some (VList findings)"
    by (fastforce simp: checkArgs_None collect_params_def arg_ok_def conforms_plain)
  let ?cs = "map snd (fst (collect_all lower limit findings))"
  have "field_value r ''claims'' = VList (map claim_val ?cs) \<and> field_value r ''count'' = VInt (int (length ?cs))"
    using b by (auto simp: collect_body_def arg_val_def l f split_beta)
  moreover have "length ?cs = length (fst (collect_all lower limit findings))" by simp
  moreover note collect_sourced [OF l(2), of lower findings] l(1) f
  ultimately show ?thesis unfolding map_map [symmetric] o_assoc [symmetric] by metis
qed

end
