(* ===== verification/Gate.thy ===== *)
theory Gate
  imports Functions
begin

text \<open>
  The reviewed function \<^verbatim>\<open>gate_proposals\<close> (gate\_proposals.go): between a model's proposed
  classifications and the owner's review. It keeps, for each candidate in order, the first proposal
  that satisfies every rule, and counts the rest as dropped.
\<close>

section \<open>The function\<close>

definition maxGateCandidates :: nat where "maxGateCandidates = 40"
definition maxGateReason :: nat where "maxGateReason = 200"

definition gateLineType :: ty where
  "gateLineType = ObjectType [fld ''id'' StringType, fld ''date'' StringType, fld ''name'' StringType,
     fld ''merchant_name'' StringType, fld ''net_cents'' IntegerType, fld ''category'' StringType,
     fld ''confidence'' NumberType,
     fld ''reason'' (Type KString [] [] False None [] None None None (Some (int maxGateReason)) None None []),
     fld ''rule'' BooleanType]"

definition gate_params :: "param list" where
  "gate_params = [
     \<lparr>PName = ''candidates'', PType = ArrayType (Some (openObject [fld ''id'' StringType, fld ''date'' StringType,
        fld ''name'' StringType, fld ''merchant_name'' StringType, fld ''net_cents'' IntegerType])), Min = 0, Max = 0\<rparr>,
     \<lparr>PName = ''proposals'', PType = ArrayType (Some (openObject [fld ''id'' StringType, fld ''category'' StringType,
        fld ''confidence'' NumberType, fld ''reason'' StringType, fld ''rule'' BooleanType])), Min = 0, Max = 0\<rparr>,
     \<lparr>PName = ''categories'', PType = ArrayType (Some StringType), Min = 0, Max = 0\<rparr>,
     \<lparr>PName = ''min_confidence'', PType = Type KNumber [] [] False None [] (Some (Fin 0)) (Some (Fin 1)) None None None None [],
        Min = 0, Max = 0\<rparr>]"

definition gate_result :: ty where
  "gate_result = ObjectType [fld ''lines'' (set_MaxItems (ArrayType (Some gateLineType)) (Some (int maxGateCandidates))),
     fld ''kept'' IntegerType, fld ''dropped'' IntegerType]"

text \<open>\<^verbatim>\<open>gateNumber\<close>: floats of the model are finite, so only another kind is an error.\<close>

definition gateNumber :: "val \<Rightarrow> float64 option" where
  "gateNumber v = number v"

fun bool_of :: "val \<Rightarrow> bool" where
  "bool_of (VBool b) = b"
| "bool_of _ = False"

definition known_categories :: "val list \<Rightarrow> string set" where
  "known_categories cs = set (List.map_filter (\<lambda>c. case c of VStr s \<Rightarrow> if trimSpace s \<noteq> [] then Some s else None | _ \<Rightarrow> None) cs)"

definition item_id :: "val \<Rightarrow> string" where
  "item_id c = str_of (walkValue c [''id''])"

text \<open>The candidates by id, each with its position; \<open>n\<close> is the next position.\<close>

fun gate_candidates :: "nat \<Rightarrow> (nat \<times> val) gomap \<Rightarrow> val list \<Rightarrow> errmsg + (nat \<times> val) gomap" where
  "gate_candidates n m [] = Inr m"
| "gate_candidates n m (c # cs) = (
     if item_id c = [] then Inl (Errf ''candidates[%d] has no id'' [I (int n)])
     else if hasKey m (item_id c) then Inl (Errf ''candidate %q appears twice'' [S (item_id c)])
     else gate_candidates (Suc n) (put (item_id c) (n, c) m) cs)"

record gated =
  gated_lines :: "val option list"
  gated_kept :: int
  gated_dropped :: int
  gated_seen :: "string set"

definition gate_reason :: "val \<Rightarrow> string" where
  "gate_reason p = (let r = join '' '' (splitFields (str_of (walkValue p [''reason'']))) in
     if maxGateReason < length r then take maxGateReason r else r)"

definition gate_line :: "val \<Rightarrow> val \<Rightarrow> val" where
  "gate_line c p = VObj [(''id'', VStr (item_id p)), (''date'', VStr (str_of (walkValue c [''date'']))),
     (''name'', VStr (str_of (walkValue c [''name'']))), (''merchant_name'', VStr (str_of (walkValue c [''merchant_name'']))),
     (''net_cents'', VInt (int_of (walkValue c [''net_cents'']))), (''category'', VStr (str_of (walkValue p [''category'']))),
     (''confidence'', VFloat (case gateNumber (walkValue p [''confidence'']) of Some x \<Rightarrow> x | None \<Rightarrow> Fin 0)),
     (''reason'', VStr (gate_reason p)), (''rule'', VBool (bool_of (walkValue p [''rule''])))]"

text \<open>The rules a proposal is held to, once its id names the candidate \<open>c\<close>.\<close>

definition gate_refuses :: "string set \<Rightarrow> float64 \<Rightarrow> val \<Rightarrow> val \<Rightarrow> bool" where
  "gate_refuses known least c p \<longleftrightarrow> str_of (walkValue p [''category'']) \<notin> known \<or>
     (case gateNumber (walkValue p [''confidence'']) of None \<Rightarrow> True | Some x \<Rightarrow> float_less x least) \<or>
     bool_of (walkValue p [''rule'']) \<and> trimSpace (str_of (walkValue c [''merchant_name''])) = []"

definition gate_step :: "string set \<Rightarrow> float64 \<Rightarrow> (nat \<times> val) gomap \<Rightarrow> val \<Rightarrow> gated \<Rightarrow> gated" where
  "gate_step known least byID p g = (case map_of byID (item_id p) of
     None \<Rightarrow> g\<lparr>gated_dropped := gated_dropped g + 1\<rparr>
   | Some (i, c) \<Rightarrow>
       if item_id p \<in> gated_seen g \<or> gate_refuses known least c p then g\<lparr>gated_dropped := gated_dropped g + 1\<rparr>
       else g\<lparr>gated_seen := insert (item_id p) (gated_seen g), gated_lines := (gated_lines g)[i := Some (gate_line c p)],
         gated_kept := gated_kept g + 1\<rparr>)"

definition gate_all :: "string set \<Rightarrow> float64 \<Rightarrow> (nat \<times> val) gomap \<Rightarrow> nat \<Rightarrow> val list \<Rightarrow> gated" where
  "gate_all known least byID n proposals = fold (gate_step known least byID) proposals
     \<lparr>gated_lines = replicate n None, gated_kept = 0, gated_dropped = 0, gated_seen = {}\<rparr>"

definition gate_body :: "val gomap \<Rightarrow> outcome" where
  "gate_body args = (case gateNumber (arg_val args ''min_confidence'') of
     None \<Rightarrow> Refused (Errf ''min_confidence must be between 0 and 1'' [])
   | Some least \<Rightarrow>
       if float_less least (Fin 0) \<or> float_less (Fin 1) least then Refused (Errf ''min_confidence must be between 0 and 1'' [])
       else let known = known_categories (list_of (arg_val args ''categories'')); cs = list_of (arg_val args ''candidates'') in
         if maxGateCandidates < length cs then Refused (Errf ''at most %d candidates can be gated at once'' [I (int maxGateCandidates)])
         else (case gate_candidates 0 [] cs of
             Inl e \<Rightarrow> Refused e
           | Inr byID \<Rightarrow> let g = gate_all known least byID (length cs) (list_of (arg_val args ''proposals'')) in
               Returned (VObj [(''lines'', VList (List.map_filter id (gated_lines g))),
                 (''kept'', VInt (gated_kept g)), (''dropped'', VInt (gated_dropped g))])))"

definition gateProposals :: func where
  "gateProposals = \<lparr>FName = ''gate_proposals'', Version = 1, Params = gate_params, Result = gate_result, Refine = None,
     Call = checked gate_params gate_body\<rparr>"

section \<open>Candidates\<close>

lemma gate_candidates_ok:
  assumes "gate_candidates n m cs = Inr byID" and "\<forall>k \<in> fst ` set m. k \<noteq> []"
  shows "distinct (map item_id cs) \<and> item_id ` set cs \<inter> fst ` set m = {} \<and> (\<forall>c \<in> set cs. item_id c \<noteq> []) \<and>
    (\<forall>k. map_of byID k = (case find (\<lambda>(i, c). item_id c = k) (List.enumerate n cs) of Some p \<Rightarrow> Some p | None \<Rightarrow> map_of m k))"
  using assms
proof (induction n m cs arbitrary: byID rule: gate_candidates.induct)
  case (2 n m c cs)
  then have c: "item_id c \<noteq> []" "\<not> hasKey m (item_id c)"
    and r: "gate_candidates (Suc n) (put (item_id c) (n, c) m) cs = Inr byID"
    by (auto split: if_splits)
  have k: "fst ` set (put (item_id c) (n, c) m) = insert (item_id c) (fst ` set m)"
    by (metis hasKey_iff c(2) put_keys list.set_map set_append list.simps(15) empty_set Un_insert_right Un_empty_right)
  have IH: "distinct (map item_id cs)" "item_id ` set cs \<inter> insert (item_id c) (fst ` set m) = {}" "\<forall>c \<in> set cs. item_id c \<noteq> []"
    "\<And>k. map_of byID k = (case find (\<lambda>(i, c). item_id c = k) (List.enumerate (Suc n) cs) of Some p \<Rightarrow> Some p
       | None \<Rightarrow> map_of (put (item_id c) (n, c) m) k)"
    using "2.IH" [OF c r] "2.prems"(2) c(1) unfolding k by auto
  have "map_of byID k = (case find (\<lambda>(i, c). item_id c = k) (List.enumerate n (c # cs)) of Some p \<Rightarrow> Some p | None \<Rightarrow> map_of m k)" for k
  proof (cases "item_id c = k")
    case True
    have "find (\<lambda>(i, d). item_id d = k) (List.enumerate (Suc n) cs) = None"
    proof -
      have "item_id d \<noteq> k" if "(i, d) \<in> set (List.enumerate (Suc n) cs)" for i d
        using imageI [OF set_zip_rightD [OF that [unfolded enumerate_eq_zip]], of item_id] IH(2) True by auto
      then show ?thesis by (auto simp: find_None_iff)
    qed
    then show ?thesis using True by (simp add: IH(4) put_lookup)
  next
    case False
    then show ?thesis by (cases "find (\<lambda>(i, c). item_id c = k) (List.enumerate (Suc n) cs)") (auto simp: IH(4) put_lookup)
  qed
  then show ?case using IH(1-3) c by (auto simp: hasKey_iff)
qed simp

lemma find_enumerate:
  assumes "distinct (map item_id cs)"
  shows "find (\<lambda>(i, c). item_id c = k) (List.enumerate 0 cs) = Some (i, c) \<longleftrightarrow> i < length cs \<and> cs ! i = c \<and> item_id c = k"
proof
  assume "find (\<lambda>(i, c). item_id c = k) (List.enumerate 0 cs) = Some (i, c)"
  from find_SomeD [OF this] show "i < length cs \<and> cs ! i = c \<and> item_id c = k" by (auto simp: in_set_enumerate_eq)
next
  assume i: "i < length cs \<and> cs ! i = c \<and> item_id c = k"
  show "find (\<lambda>(i, c). item_id c = k) (List.enumerate 0 cs) = Some (i, c)"
  proof (rule find_unique)
    fix q assume q: "q \<in> set (List.enumerate 0 cs)" "case q of (i, c) \<Rightarrow> item_id c = k"
    then have "map item_id cs ! fst q = map item_id cs ! i" "fst q < length cs"
      using i by (auto simp: in_set_enumerate_eq)
    then have "fst q = i" using assms i by (metis nth_eq_iff_index_eq length_map)
    then show "q = (i, c)" using q i by (auto simp: in_set_enumerate_eq)
  qed (use i in \<open>auto simp: in_set_enumerate_eq\<close>)
qed

section \<open>What the gate keeps\<close>

definition gate_accepts :: "string set \<Rightarrow> float64 \<Rightarrow> val \<Rightarrow> val \<Rightarrow> bool" where
  "gate_accepts known least c p \<longleftrightarrow> item_id p = item_id c \<and> \<not> gate_refuses known least c p"

definition gate_inv :: "string set \<Rightarrow> float64 \<Rightarrow> val list \<Rightarrow> val list \<Rightarrow> gated \<Rightarrow> bool" where
  "gate_inv known least cs ps g \<longleftrightarrow>
     gated_lines g = map (\<lambda>c. map_option (gate_line c) (find (gate_accepts known least c) ps)) cs \<and>
     gated_seen g = item_id ` {c \<in> set cs. \<exists>p \<in> set ps. gate_accepts known least c p} \<and>
     gated_kept g = int (length (List.map_filter id (gated_lines g))) \<and>
     gated_kept g + gated_dropped g = int (length ps)"

lemma map_filter_update:
  "i < length ls \<Longrightarrow> ls ! i = None \<Longrightarrow> length (List.map_filter id (ls[i := Some x])) = Suc (length (List.map_filter id ls))"
  by (induction ls arbitrary: i) (auto simp: List.map_filter_simps nth_Cons split: nat.splits option.splits)

lemma find_exists: "(\<exists>x. find P xs = Some x) \<longleftrightarrow> (\<exists>x \<in> set xs. P x)"
  by (induction xs) auto

lemma gate_step_inv:
  assumes d: "distinct (map item_id cs)"
    and idx: "\<And>k. map_of byID k = find (\<lambda>(i, c). item_id c = k) (List.enumerate 0 cs)"
    and g: "gate_inv known least cs ps g"
  shows "gate_inv known least cs (ps @ [p]) (gate_step known least byID p g)"
proof -
  define new where "new c = map_option (gate_line c) (find (gate_accepts known least c) ps)" for c
  have lines: "gated_lines g = map new cs" using g by (simp add: gate_inv_def new_def)
  have app: "map_option (gate_line c) (find (gate_accepts known least c) (ps @ [p])) =
      (case new c of Some l \<Rightarrow> Some l | None \<Rightarrow> if gate_accepts known least c p then Some (gate_line c p) else None)" for c
    by (simp add: new_def find_append split: option.splits)
  have seen: "item_id c \<in> gated_seen g \<longleftrightarrow> new c \<noteq> None" if "c \<in> set cs" for c
  proof -
    have "c' = c" if "c' \<in> set cs" "item_id c' = item_id c" for c'
      using d that \<open>c \<in> set cs\<close> by (auto simp: distinct_map inj_on_def)
    then have "item_id c \<in> gated_seen g \<longleftrightarrow> (\<exists>p \<in> set ps. gate_accepts known least c p)"
      using g that by (auto simp: gate_inv_def)
    then show ?thesis using find_exists [of "gate_accepts known least c" ps] by (auto simp: new_def)
  qed
  have drop: "gate_inv known least cs (ps @ [p]) (g\<lparr>gated_dropped := gated_dropped g + 1\<rparr>)"
    if h: "\<And>c. c \<in> set cs \<Longrightarrow> gate_accepts known least c p \<Longrightarrow> new c \<noteq> None"
  proof -
    have "(case new c of Some l \<Rightarrow> Some l | None \<Rightarrow> if gate_accepts known least c p then Some (gate_line c p) else None) = new c"
      if "c \<in> set cs" for c using h [OF that] by (cases "new c") auto
    then have "map (\<lambda>c. map_option (gate_line c) (find (gate_accepts known least c) (ps @ [p]))) cs = map new cs"
      unfolding app by simp
    moreover have "\<exists>q \<in> set ps. gate_accepts known least c q" if "c \<in> set cs" "gate_accepts known least c p" for c
      using h [OF that] find_exists [of "gate_accepts known least c" ps] by (auto simp: new_def)
    then have "{c \<in> set cs. \<exists>q \<in> set (ps @ [p]). gate_accepts known least c q} = {c \<in> set cs. \<exists>q \<in> set ps. gate_accepts known least c q}"
      by auto
    ultimately show ?thesis using g lines by (simp add: gate_inv_def)
  qed
  show ?thesis
  proof (cases "map_of byID (item_id p)")
    case None
    have "\<not> gate_accepts known least c p" if c: "c \<in> set cs" for c
    proof
      assume "gate_accepts known least c p"
      then have "item_id c = item_id p" by (simp add: gate_accepts_def)
      moreover obtain i where "i < length cs" "cs ! i = c" using c by (auto simp: in_set_conv_nth)
      ultimately have "find (\<lambda>(i, c). item_id c = item_id p) (List.enumerate 0 cs) = Some (i, c)"
        using find_enumerate [OF d] by blast
      with None show False by (simp add: idx)
    qed
    then show ?thesis using drop by (simp add: gate_step_def None)
  next
    case (Some q)
    obtain i c where q: "q = (i, c)" by fastforce
    then have i: "i < length cs" "cs ! i = c" "item_id c = item_id p"
      using Some find_enumerate [OF d, of "item_id p" i c] by (auto simp: idx)
    have only: "c' = c" if "c' \<in> set cs" "gate_accepts known least c' p" for c'
      using d that i nth_mem [OF i(1)] by (auto simp: distinct_map inj_on_def gate_accepts_def)
    show ?thesis
    proof (cases "item_id p \<in> gated_seen g \<or> gate_refuses known least c p")
      case True
      then have "new c' \<noteq> None" if "c' \<in> set cs" "gate_accepts known least c' p" for c'
        using only [OF that] that seen [OF that(1)] by (auto simp: gate_accepts_def)
      with drop show ?thesis using True by (simp add: gate_step_def Some q)
    next
      case False
      then have acc: "gate_accepts known least c p" and n: "new c = None"
        using i seen [of c] nth_mem [OF i(1)] by (auto simp: gate_accepts_def)
      have "map (\<lambda>c. map_option (gate_line c) (find (gate_accepts known least c) (ps @ [p]))) cs = (map new cs)[i := Some (gate_line c p)]"
      proof (rule nth_equalityI)
        fix j assume j: "j < length (map (\<lambda>c. map_option (gate_line c) (find (gate_accepts known least c) (ps @ [p]))) cs)"
        then have j': "j < length cs" by simp
        show "map (\<lambda>c. map_option (gate_line c) (find (gate_accepts known least c) (ps @ [p]))) cs ! j = (map new cs)[i := Some (gate_line c p)] ! j"
        proof (cases "j = i")
          case True
          then show ?thesis using i acc n j' by (simp add: app)
        next
          case ne: False
          have "cs ! j \<noteq> c"
            using d ne j' i by (metis distinct_map nth_eq_iff_index_eq)
          then have "\<not> gate_accepts known least (cs ! j) p" using only nth_mem [OF j'] by blast
          then show ?thesis using ne j' by (simp add: app split: option.splits)
        qed
      qed simp
      moreover have "{c \<in> set cs. \<exists>q \<in> set (ps @ [p]). gate_accepts known least c q} =
          insert c {c \<in> set cs. \<exists>q \<in> set ps. gate_accepts known least c q}"
        using acc nth_mem [OF i(1)] unfolding i(2) by (auto dest: only)
      then have "item_id ` {c \<in> set cs. \<exists>q \<in> set (ps @ [p]). gate_accepts known least c q} = insert (item_id p) (gated_seen g)"
        using g i(3) by (simp add: gate_inv_def)
      moreover have "length (List.map_filter id ((map new cs)[i := Some (gate_line c p)])) = Suc (length (List.map_filter id (map new cs)))"
        by (rule map_filter_update) (use i n in simp_all)
      ultimately show ?thesis using False g lines by (simp add: gate_step_def Some q gate_inv_def)
    qed
  qed
qed

lemma gate_all_inv:
  assumes "gate_candidates 0 [] cs = Inr byID"
  shows "gate_inv known least cs ps (gate_all known least byID (length cs) ps)"
proof -
  have "\<forall>k \<in> fst ` set ([] :: (nat \<times> val) gomap). k \<noteq> []" by simp
  note ok = gate_candidates_ok [OF assms this]
  have d: "distinct (map item_id cs)" using ok by (rule conjunct1)
  have c: "map_of byID k = find (\<lambda>(i, c). item_id c = k) (List.enumerate 0 cs)" for k
    using ok [THEN conjunct2, THEN conjunct2, THEN conjunct2, rule_format, of k]
    by (cases "find (\<lambda>(i, c). item_id c = k) (List.enumerate 0 cs)") simp_all
  show ?thesis
  proof (induction ps rule: rev_induct)
    case Nil
    have "List.map_filter id (replicate n None) = []" for n by (induction n) (simp_all add: List.map_filter_simps)
    then show ?case by (simp add: gate_inv_def gate_all_def map_replicate_const)
  next
    case (snoc p ps)
    from gate_step_inv [OF d c snoc] show ?case by (simp add: gate_all_def)
  qed
qed

section \<open>Its contract\<close>

lemma runeCount_take: "length s \<le> n \<Longrightarrow> runeCount s \<le> n"
  using runeCount_le_length [of s] by linarith

lemma gate_line_conforms: "conforms (Some gateLineType) (gate_line c p)"
proof -
  have "length (gate_reason p) \<le> maxGateReason" by (simp add: gate_reason_def Let_def)
  then have "int (runeCount (gate_reason p)) \<le> int maxGateReason" using runeCount_take by simp
  then have "conforms (Some (Type KString [] [] False None [] None None None (Some (int maxGateReason)) None None [])) (VStr (gate_reason p))"
    by (simp add: conforms_VStr in_count_range_def)
  moreover have "conforms (Some NumberType) (VFloat x)" for x
    by (simp add: NumberType_def plain_def conforms_VFloat in_float_range_def)
  ultimately show ?thesis
    unfolding gateLineType_def gate_line_def by (intro conforms_fields) (auto simp: conforms_plain)
qed

lemma length_map_filter: "length (List.map_filter f xs) \<le> length xs"
  by (simp add: List.map_filter_def)

lemma gate_result_conforms:
  assumes "gate_inv known least cs ps g" and "length cs \<le> maxGateCandidates"
  shows "conforms (Some gate_result) (VObj [(''lines'', VList (List.map_filter id (gated_lines g))),
    (''kept'', VInt m), (''dropped'', VInt n)])"
proof -
  have "l \<in> set (List.map_filter id (gated_lines g)) \<Longrightarrow> conforms (Some gateLineType) l" for l
    using assms(1) by (auto simp: gate_inv_def List.map_filter_def gate_line_conforms)
  moreover have "length (List.map_filter id (gated_lines g)) \<le> maxGateCandidates"
    using length_map_filter [of id "gated_lines g"] assms by (simp add: gate_inv_def)
  ultimately show ?thesis
    unfolding gate_result_def by (intro conforms_fields) (auto simp: conforms_plain conforms_set_MaxItems)
qed

lemma gate_returned:
  assumes "Call gateProposals args = Returned r"
  shows "\<exists>least byID. gateNumber (arg_val args ''min_confidence'') = Some least \<and>
    length (list_of (arg_val args ''candidates'')) \<le> maxGateCandidates \<and>
    gate_candidates 0 [] (list_of (arg_val args ''candidates'')) = Inr byID \<and>
    (\<exists>g. gate_inv (known_categories (list_of (arg_val args ''categories''))) least (list_of (arg_val args ''candidates''))
        (list_of (arg_val args ''proposals'')) g \<and>
      r = VObj [(''lines'', VList (List.map_filter id (gated_lines g))), (''kept'', VInt (gated_kept g)), (''dropped'', VInt (gated_dropped g))])"
proof -
  from assms have "gate_body args = Returned r" by (simp add: gateProposals_def checked_Returned)
  then show ?thesis
    using gate_all_inv
    by (auto simp: gate_body_def Let_def not_less split: option.splits if_splits sum.splits intro!: exI)
qed

interpretation gate_proposals: reviewed_function gateProposals
proof
  fix args r assume c: "Call gateProposals args = Returned r"
  then show "checkArgs (Params gateProposals) args = None" by (simp add: gateProposals_def checked_Returned)
  show "conforms (Some (Result gateProposals)) r"
    using gate_returned [OF c] gate_result_conforms by (auto simp: gateProposals_def)
qed

text \<open>
  What a call returns: a line for each candidate that some proposal for it satisfies every rule for,
  in the candidates' order, made from the first such proposal.
\<close>

lemma gate_exact:
  assumes "Call gateProposals args = Returned r"
  shows "\<exists>cs ps least lines. map_of args ''candidates'' = Some (VList cs) \<and> map_of args ''proposals'' = Some (VList ps) \<and>
    gateNumber (arg_val args ''min_confidence'') = Some least \<and> distinct (map item_id cs) \<and>
    lines = List.map_filter (\<lambda>c. map_option (gate_line c)
      (find (gate_accepts (known_categories (list_of (arg_val args ''categories''))) least c) ps)) cs \<and>
    field_value r ''lines'' = VList lines \<and> field_value r ''kept'' = VInt (int (length lines)) \<and>
    field_value r ''dropped'' = VInt (int (length ps) - int (length lines))"
proof -
  have "checkArgs gate_params args = None" using assms by (simp add: gateProposals_def checked_Returned)
  then obtain cs ps where a: "map_of args ''candidates'' = Some (VList cs)" "map_of args ''proposals'' = Some (VList ps)"
    by (fastforce simp: checkArgs_None gate_params_def arg_ok_def conforms_ArrayType)
  then have v: "list_of (arg_val args ''candidates'') = cs" "list_of (arg_val args ''proposals'') = ps" by (simp_all add: arg_val_def)
  obtain least byID g where l: "gateNumber (arg_val args ''min_confidence'') = Some least" and b: "gate_candidates 0 [] cs = Inr byID"
    and g: "gate_inv (known_categories (list_of (arg_val args ''categories''))) least cs ps g"
    and r: "r = VObj [(''lines'', VList (List.map_filter id (gated_lines g))), (''kept'', VInt (gated_kept g)), (''dropped'', VInt (gated_dropped g))]"
    using gate_returned [OF assms] unfolding v by blast
  have d: "distinct (map item_id cs)" using gate_candidates_ok [OF b] by simp
  have f: "List.map_filter id (map h xs) = List.map_filter h xs" for h :: "val \<Rightarrow> val option" and xs
    by (induction xs) (simp_all add: List.map_filter_simps split: option.splits)
  define lines where "lines = List.map_filter (\<lambda>c. map_option (gate_line c)
      (find (gate_accepts (known_categories (list_of (arg_val args ''categories''))) least c) ps)) cs"
  have "List.map_filter id (gated_lines g) = lines" using g by (simp add: gate_inv_def f lines_def)
  then have "field_value r ''lines'' = VList lines" "field_value r ''kept'' = VInt (int (length lines))"
      "field_value r ''dropped'' = VInt (int (length ps) - int (length lines))"
    using g r by (simp_all add: gate_inv_def)
  then show ?thesis using a l d lines_def by blast
qed

end
