(* ===== verification/Verdicts.thy ===== *)
theory Verdicts
  imports Functions
begin

text \<open>
  The reviewed function \<^verbatim>\<open>tally_verdicts\<close> (citations.go): independent verifiers' votes on each
  claim. A vote counts only with evidence its verifier fetched, and an accepted claim may cite only
  that evidence.
\<close>

section \<open>The function\<close>

definition verdictTally :: "string list" where
  "verdictTally = [''supported'', ''refuted'', ''insufficient'']"

definition tally_params :: "param list" where
  "tally_params = [
     \<lparr>PName = ''claims'', PType = ArrayType (Some (openObject [fld ''id'' StringType, fld ''text'' StringType,
        optfld ''angle_id'' StringType])), Min = 0, Max = 0\<rparr>,
     \<lparr>PName = ''votes'', PType = ArrayType (Some (openObject [
        fld ''item'' (openObject [fld ''claim_id'' StringType]),
        fld ''output'' (openObject [fld ''sources'' (ArrayType (Some (openObject [fld ''url'' StringType]))),
          fld ''result'' (openObject [fld ''verdict'' StringType, fld ''evidence'' (ArrayType (Some StringType))])])])),
        Min = 0, Max = 0\<rparr>,
     \<lparr>PName = ''quorum'', PType = IntegerType, Min = 1, Max = 7\<rparr>]"

definition countedType :: "bool \<Rightarrow> ty" where
  "countedType withSources = ObjectType ([fld ''id'' StringType, fld ''angle_id'' StringType, fld ''text'' StringType,
     fld ''supported'' IntegerType, fld ''refuted'' IntegerType, fld ''insufficient'' IntegerType] @
     (if withSources then [fld ''sources'' (ArrayType (Some StringType))] else []))"

definition tally_result :: "int option \<Rightarrow> ty" where
  "tally_result bound = ObjectType [
     fld ''accepted'' (set_MaxItems (ArrayType (Some (countedType True))) bound),
     fld ''rejected'' (set_MaxItems (ArrayType (Some (countedType False))) bound),
     fld ''accepted_count'' IntegerType, fld ''rejected_count'' IntegerType, fld ''downgraded'' IntegerType,
     fld ''notes'' (ArrayType (Some StringType))]"

definition tally_refine :: "staticArg gomap \<Rightarrow> ty" where
  "tally_refine static = (case map_of static ''claims'' of
     Some a \<Rightarrow> (case SType a of Some t \<Rightarrow> if Kind t = KArray then tally_result (MaxItems t) else tally_result None
       | None \<Rightarrow> tally_result None)
   | None \<Rightarrow> tally_result None)"

record ballot_box =
  bb_counts :: "int gomap"
  bb_sources :: "string list"

definition empty_box :: ballot_box where
  "empty_box = \<lparr>bb_counts = map (\<lambda>x. (x, 0)) verdictTally, bb_sources = []\<rparr>"

record tallying =
  ty_boxes :: "ballot_box gomap"
  ty_notes :: "string list"
  ty_downgraded :: int

definition vote_fetched :: "val \<Rightarrow> string set" where
  "vote_fetched v = set (List.map_filter (\<lambda>s. case walkValue s [''url''] of VStr u \<Rightarrow> Some (trimSpace u) | _ \<Rightarrow> None)
     (list_of (walkValue v [''output'', ''sources''])))"

definition add_evidence :: "string set \<Rightarrow> val \<Rightarrow> string list \<Rightarrow> string list" where
  "add_evidence fetched e xs = (case e of
     VStr u \<Rightarrow> if trimSpace u \<in> fetched \<and> trimSpace u \<notin> set xs then xs @ [trimSpace u] else xs
   | _ \<Rightarrow> xs)"

definition vote_evidence :: "val \<Rightarrow> string list" where
  "vote_evidence v = fold (add_evidence (vote_fetched v)) (list_of (walkValue v [''output'', ''result'', ''evidence''])) []"

definition cast_verdict :: "val \<Rightarrow> string" where
  "cast_verdict v = str_of (walkValue v [''output'', ''result'', ''verdict''])"

text \<open>A vote without evidence counts as insufficient.\<close>

definition downgrades :: "val \<Rightarrow> bool" where
  "downgrades v \<longleftrightarrow> cast_verdict v \<noteq> ''insufficient'' \<and> vote_evidence v = []"

definition counted_as :: "val \<Rightarrow> string" where
  "counted_as v = (if downgrades v then ''insufficient'' else cast_verdict v)"

definition downgrade_note :: "val \<Rightarrow> string" where
  "downgrade_note v = vote_claim v @ '': a '' @ cast_verdict v @
     '' vote named no evidence URL its verifier fetched; counted insufficient''"

definition add_vote :: "val \<Rightarrow> ballot_box \<Rightarrow> ballot_box" where
  "add_vote v b = \<lparr>bb_counts = put (counted_as v) (count_of (bb_counts b) (counted_as v) + 1) (bb_counts b),
     bb_sources = (if counted_as v = ''supported'' then fold (\<lambda>u xs. add_once xs u) (vote_evidence v) (bb_sources b) else bb_sources b)\<rparr>"

fun tally_votes :: "tallying \<Rightarrow> val list \<Rightarrow> errmsg + tallying" where
  "tally_votes t [] = Inr t"
| "tally_votes t (v # vs) = (case map_of (ty_boxes t) (vote_claim v) of
     None \<Rightarrow> Inl (Errf ''a vote names claim %q, which is not in claims'' [S (vote_claim v)])
   | Some b \<Rightarrow>
       if cast_verdict v \<notin> set verdictTally then
         Inl (Errf ''vote for claim %s has verdict %q; expected %s'' [S (vote_claim v), S (cast_verdict v), S (join '', '' verdictTally)])
       else tally_votes \<lparr>ty_boxes = put (vote_claim v) (add_vote v b) (ty_boxes t),
          ty_notes = (if downgrades v then ty_notes t @ [downgrade_note v] else ty_notes t),
          ty_downgraded = (if downgrades v then ty_downgraded t + 1 else ty_downgraded t)\<rparr> vs)"

definition boxes_for :: "val list \<Rightarrow> ballot_box gomap" where
  "boxes_for claims = fold (\<lambda>c. put (claim_id c) empty_box) claims []"

definition box_of :: "tallying \<Rightarrow> val \<Rightarrow> ballot_box" where
  "box_of t c = (case map_of (ty_boxes t) (claim_id c) of Some b \<Rightarrow> b | None \<Rightarrow> empty_box)"

definition counted :: "bool \<Rightarrow> tallying \<Rightarrow> val \<Rightarrow> val" where
  "counted withSources t c = (let b = box_of t c in
     VObj ([(''id'', VStr (claim_id c)), (''angle_id'', VStr (str_of (walkValue c [''angle_id'']))),
       (''text'', VStr (str_of (walkValue c [''text'']))), (''supported'', VInt (count_of (bb_counts b) ''supported'')),
       (''refuted'', VInt (count_of (bb_counts b) ''refuted'')), (''insufficient'', VInt (count_of (bb_counts b) ''insufficient''))] @
       (if withSources then [(''sources'', VList (map VStr (bb_sources b)))] else [])))"

definition tally_body :: "val gomap \<Rightarrow> outcome" where
  "tally_body args = (let claims = list_of (arg_val args ''claims''); quorum = int_of (arg_val args ''quorum'') in
     case tally_votes \<lparr>ty_boxes = boxes_for claims, ty_notes = [], ty_downgraded = 0\<rparr> (list_of (arg_val args ''votes'')) of
       Inl e \<Rightarrow> Refused e
     | Inr t \<Rightarrow> let accept = (\<lambda>c. quorum \<le> count_of (bb_counts (box_of t c)) ''supported'');
           accepted = filter accept claims; rejected = filter (\<lambda>c. \<not> accept c) claims in
         Returned (VObj [(''accepted'', VList (map (counted True t) accepted)), (''rejected'', VList (map (counted False t) rejected)),
           (''accepted_count'', VInt (int (length accepted))), (''rejected_count'', VInt (int (length rejected))),
           (''downgraded'', VInt (ty_downgraded t)), (''notes'', VList (map VStr (ty_notes t)))]))"

definition tallyVerdicts :: func where
  "tallyVerdicts = \<lparr>FName = ''tally_verdicts'', Version = 1, Params = tally_params, Result = tally_result None,
     Refine = Some tally_refine, Call = checked tally_params tally_body\<rparr>"

section \<open>Its contract\<close>

lemma counted_conforms: "conforms (Some (countedType w)) (counted w t c)"
  unfolding countedType_def counted_def Let_def
  by (rule conforms_fields) (cases w; auto simp: conforms_plain)+

lemma tally_result_conforms:
  assumes "\<forall>h. bound = Some h \<longrightarrow> int (length claims) \<le> h"
  shows "conforms (Some (tally_result bound)) (VObj [(''accepted'', VList (map (counted True t) (filter P claims))),
    (''rejected'', VList (map (counted False t) (filter Q claims))), (''accepted_count'', VInt a), (''rejected_count'', VInt b),
    (''downgraded'', VInt d), (''notes'', VList (map VStr ns))])"
proof -
  have "int (length (filter R claims)) \<le> h" if "bound = Some h" for R h
  proof -
    have "int (length claims) \<le> h" using assms that by simp
    then show ?thesis using length_filter_le [of R claims] by linarith
  qed
  then show ?thesis
    unfolding tally_result_def by (intro conforms_fields) (auto simp: conforms_plain conforms_set_MaxItems counted_conforms)
qed

interpretation tally_verdicts: reviewed_function tallyVerdicts
proof
  fix args r assume c: "Call tallyVerdicts args = Returned r"
  then show "checkArgs (Params tallyVerdicts) args = None" by (simp add: tallyVerdicts_def checked_Returned)
  from c have "tally_body args = Returned r" by (simp add: tallyVerdicts_def checked_Returned)
  then show "conforms (Some (Result tallyVerdicts)) r"
    by (auto simp: tallyVerdicts_def tally_body_def Let_def intro!: tally_result_conforms split: sum.splits)
qed

section \<open>What is counted and cited\<close>

definition cast_for :: "val list \<Rightarrow> string \<Rightarrow> string \<Rightarrow> val list" where
  "cast_for votes i x = filter (\<lambda>v. vote_claim v = i \<and> counted_as v = x) votes"

lemma cast_for_simps [simp]:
  "cast_for [] i x = []"
  "cast_for (v # vs) i x = (if vote_claim v = i \<and> counted_as v = x then v # cast_for vs i x else cast_for vs i x)"
  by (simp_all add: cast_for_def)

definition citable :: "string list \<Rightarrow> val list \<Rightarrow> string list" where
  "citable xs vs = fold (\<lambda>u xs. add_once xs u) (concat (map vote_evidence vs)) xs"

lemma citable_simps [simp]: "citable xs [] = xs"
  "citable xs (v # vs) = citable (fold (\<lambda>u xs. add_once xs u) (vote_evidence v) xs) vs"
  by (simp_all add: citable_def)

lemma tally_votes_boxes:
  "tally_votes t vs = Inr t' \<Longrightarrow> map_of (ty_boxes t) i = Some b \<Longrightarrow>
     \<exists>b'. map_of (ty_boxes t') i = Some b' \<and> bb_sources b' = citable (bb_sources b) (cast_for vs i ''supported'') \<and>
       (\<forall>x. count_of (bb_counts b') x = count_of (bb_counts b) x + int (length (cast_for vs i x)))"
proof (induction t vs arbitrary: b rule: tally_votes.induct)
  case (2 t v vs)
  from "2.prems" obtain c where c: "map_of (ty_boxes t) (vote_claim v) = Some c" by (auto split: option.splits)
  have ok: "\<not> cast_verdict v \<notin> set verdictTally" using "2.prems" by (auto split: option.splits if_splits)
  define t1 where "t1 = \<lparr>ty_boxes = put (vote_claim v) (add_vote v c) (ty_boxes t),
          ty_notes = (if downgrades v then ty_notes t @ [downgrade_note v] else ty_notes t),
          ty_downgraded = (if downgrades v then ty_downgraded t + 1 else ty_downgraded t)\<rparr>"
  have r: "tally_votes t1 vs = Inr t'" using "2.prems" c ok by (simp add: t1_def)
  define b1 where "b1 = (if vote_claim v = i then add_vote v b else b)"
  have "map_of (ty_boxes t1) i = Some b1" using "2.prems"(2) c by (auto simp: t1_def put_lookup b1_def)
  from "2.IH" [OF c ok r [unfolded t1_def] this [unfolded t1_def]]
  obtain b' where b': "map_of (ty_boxes t') i = Some b'" "bb_sources b' = citable (bb_sources b1) (cast_for vs i ''supported'')"
    "\<And>x. count_of (bb_counts b') x = count_of (bb_counts b1) x + int (length (cast_for vs i x))" by blast
  have "count_of (bb_counts b1) x = count_of (bb_counts b) x + (if vote_claim v = i \<and> counted_as v = x then 1 else 0)" for x
    by (simp add: b1_def add_vote_def count_of_def put_lookup)
  moreover have "bb_sources b1 = (if vote_claim v = i \<and> counted_as v = ''supported''
      then fold (\<lambda>u xs. add_once xs u) (vote_evidence v) (bb_sources b) else bb_sources b)"
    by (simp add: b1_def add_vote_def)
  ultimately show ?case using b' by simp
qed simp

lemma boxes_for_lookup: "map_of (boxes_for claims) i = (if i \<in> claim_id ` set claims then Some empty_box else None)"
proof -
  have "map_of (fold (\<lambda>c. put (claim_id c) empty_box) claims m) i =
      (if i \<in> claim_id ` set claims then Some empty_box else map_of m i)" for m
    by (induction claims arbitrary: m) (auto simp: put_lookup)
  from this [of "[]"] show ?thesis by (simp add: boxes_for_def)
qed

lemma empty_box_counts: "count_of (bb_counts empty_box) x = 0" "bb_sources empty_box = []"
  by (auto simp: empty_box_def count_of_def verdictTally_def)

lemma tallied_box:
  assumes "tally_votes \<lparr>ty_boxes = boxes_for claims, ty_notes = [], ty_downgraded = 0\<rparr> votes = Inr t" and "c \<in> set claims"
  shows "bb_sources (box_of t c) = citable [] (cast_for votes (claim_id c) ''supported'')"
    "count_of (bb_counts (box_of t c)) x = int (length (cast_for votes (claim_id c) x))"
proof -
  have "map_of (boxes_for claims) (claim_id c) = Some empty_box" using assms(2) by (simp add: boxes_for_lookup)
  then obtain b where "map_of (ty_boxes t) (claim_id c) = Some b" "bb_sources b = citable [] (cast_for votes (claim_id c) ''supported'')"
    "count_of (bb_counts b) x = int (length (cast_for votes (claim_id c) x))" for x
    using tally_votes_boxes [OF assms(1), of "claim_id c" empty_box] by (auto simp: empty_box_counts)
  then show "bb_sources (box_of t c) = citable [] (cast_for votes (claim_id c) ''supported'')"
    "count_of (bb_counts (box_of t c)) x = int (length (cast_for votes (claim_id c) x))" by (simp_all add: box_of_def)
qed

lemma set_add_once: "set (fold (\<lambda>u xs. add_once xs u) us xs) = set xs \<union> set us"
  by (induction us arbitrary: xs) (auto simp: add_once_def)

lemma distinct_add_once: "distinct xs \<Longrightarrow> distinct (fold (\<lambda>u xs. add_once xs u) us xs)"
  by (induction us arbitrary: xs) (auto simp: add_once_def)

lemma evidence_fetched: "set (vote_evidence v) \<subseteq> vote_fetched v"
proof -
  have "set xs \<subseteq> vote_fetched v \<Longrightarrow> set (fold (add_evidence (vote_fetched v)) es xs) \<subseteq> vote_fetched v" for es xs
    by (induction es arbitrary: xs) (auto simp: add_evidence_def split: val.splits)
  from this [of "[]"] show ?thesis by (simp add: vote_evidence_def)
qed

lemma citable_fetched:
  "u \<in> set (citable [] (cast_for votes i ''supported'')) \<Longrightarrow>
     \<exists>v \<in> set votes. vote_claim v = i \<and> cast_verdict v = ''supported'' \<and> u \<in> vote_fetched v"
  using evidence_fetched
  by (fastforce simp: citable_def set_add_once cast_for_def counted_as_def split: if_splits)

lemma tally_exact:
  assumes "Call tallyVerdicts args = Returned r"
  shows "\<exists>claims votes quorum t. map_of args ''claims'' = Some (VList claims) \<and> map_of args ''votes'' = Some (VList votes) \<and>
    map_of args ''quorum'' = Some (VInt quorum) \<and>
    field_value r ''accepted'' = VList (map (counted True t) (filter (\<lambda>c. quorum \<le> int (length (cast_for votes (claim_id c) ''supported''))) claims)) \<and>
    field_value r ''rejected'' = VList (map (counted False t) (filter (\<lambda>c. \<not> quorum \<le> int (length (cast_for votes (claim_id c) ''supported''))) claims)) \<and>
    (\<forall>c \<in> set claims. bb_sources (box_of t c) = citable [] (cast_for votes (claim_id c) ''supported'') \<and>
       (\<forall>x. count_of (bb_counts (box_of t c)) x = int (length (cast_for votes (claim_id c) x))))"
proof -
  from assms have c: "checkArgs tally_params args = None" and b: "tally_body args = Returned r"
    by (simp_all add: tallyVerdicts_def checked_Returned)
  from c obtain claims votes quorum where a: "map_of args ''claims'' = Some (VList claims)" "map_of args ''votes'' = Some (VList votes)"
      "map_of args ''quorum'' = Some (VInt quorum)"
    by (fastforce simp: checkArgs_None tally_params_def arg_ok_def conforms_ArrayType conforms_IntegerType)
  then have v: "list_of (arg_val args ''claims'') = claims" "list_of (arg_val args ''votes'') = votes" "int_of (arg_val args ''quorum'') = quorum"
    by (simp_all add: arg_val_def)
  obtain t where t: "tally_votes \<lparr>ty_boxes = boxes_for claims, ty_notes = [], ty_downgraded = 0\<rparr> votes = Inr t"
    using b by (auto simp: tally_body_def v Let_def split: sum.splits)
  note box = tallied_box [OF t]
  have "filter (\<lambda>c. quorum \<le> count_of (bb_counts (box_of t c)) ''supported'') claims =
      filter (\<lambda>c. quorum \<le> int (length (cast_for votes (claim_id c) ''supported''))) claims"
    "filter (\<lambda>c. \<not> quorum \<le> count_of (bb_counts (box_of t c)) ''supported'') claims =
      filter (\<lambda>c. \<not> quorum \<le> int (length (cast_for votes (claim_id c) ''supported''))) claims"
    by (rule filter_cong; simp add: box)+
  then have "field_value r ''accepted'' = VList (map (counted True t) (filter (\<lambda>c. quorum \<le> int (length (cast_for votes (claim_id c) ''supported''))) claims))"
    "field_value r ''rejected'' = VList (map (counted False t) (filter (\<lambda>c. \<not> quorum \<le> int (length (cast_for votes (claim_id c) ''supported''))) claims))"
    using b by (auto simp: tally_body_def v t Let_def)
  with a box show ?thesis by blast
qed

end
