(* ===== verification/Research.thy ===== *)
theory Research
  imports Functions "HOL-Library.Product_Lexorder"
begin

text \<open>
  The steps of the built-in deep research before verification (research.go): source keys,
  \<^verbatim>\<open>dedup_sources\<close>, \<^verbatim>\<open>rank_claims\<close> and \<^verbatim>\<open>expand_ballots@2\<close>. \<^verbatim>\<open>strings.ToLower\<close> and \<^verbatim>\<open>url.Parse\<close>
  (with the parts of a URL the code reads) are the parameters \<open>lower\<close> and \<open>parse_url\<close>.
\<close>

section \<open>Source keys\<close>

record urlParts =
  u_Scheme :: string
  u_Hostname :: string
  u_Opaque :: string
  u_EscapedPath :: string
  u_RawQuery :: string

type_synonym url_parser = "string \<Rightarrow> urlParts option"

definition maxSourceURLBytes :: nat where "maxSourceURLBytes = 500"

text \<open>\<^verbatim>\<open>unicode.IsControl\<close> and the format characters \<^verbatim>\<open>unicode.Cf\<close>.\<close>

definition is_control_rune :: "nat \<Rightarrow> bool" where
  "is_control_rune r \<longleftrightarrow> r < 32 \<or> 127 \<le> r \<and> r < 160"

definition format_ranges :: "(nat \<times> nat) list" where
  "format_ranges = [(0xAD, 0xAD), (0x600, 0x605), (0x61C, 0x61C), (0x6DD, 0x6DD), (0x70F, 0x70F), (0x890, 0x891), (0x8E2, 0x8E2),
     (0x180E, 0x180E), (0x200B, 0x200F), (0x202A, 0x202E), (0x2060, 0x2064), (0x2066, 0x206F), (0xFEFF, 0xFEFF), (0xFFF9, 0xFFFB),
     (0x110BD, 0x110BD), (0x110CD, 0x110CD), (0x13430, 0x1343F), (0x1BCA0, 0x1BCA3), (0x1D173, 0x1D17A), (0xE0001, 0xE0001),
     (0xE0020, 0xE007F)]"

definition is_format_rune :: "nat \<Rightarrow> bool" where
  "is_format_rune r \<longleftrightarrow> list_ex (\<lambda>(a, b). a \<le> r \<and> r \<le> b) format_ranges"

lemma is_format_rune_code [code]:
  "is_format_rune r = (if r < 128 then False else list_ex (\<lambda>(a, b). a \<le> r \<and> r \<le> b) format_ranges)"
  by (auto simp: is_format_rune_def format_ranges_def)

definition trim_slashes :: "string \<Rightarrow> string" where
  "trim_slashes s = rev (dropWhile (\<lambda>c. c = CHR ''/'') (rev s))"

definition sourceKey :: "(string \<Rightarrow> string) \<Rightarrow> url_parser \<Rightarrow> string \<Rightarrow> string option" where
  "sourceKey lower parse_url raw0 = (let raw = trimSpace raw0 in
     if raw = [] \<or> maxSourceURLBytes < length raw then None
     else if list_ex (\<lambda>(r, _). r = 92 \<or> is_space_rune r \<or> is_control_rune r \<or> is_format_rune r) (runes raw) then None
     else (case parse_url raw of
         None \<Rightarrow> None
       | Some u \<Rightarrow>
           if lower (u_Scheme u) \<noteq> ''http'' \<and> lower (u_Scheme u) \<noteq> ''https'' then None
           else let h = lower (u_Hostname u); host = (if hasPrefix h ''www.'' then drop 4 h else h) in
             if host = [] \<or> u_Opaque u \<noteq> [] then None
             else Some (host @ trim_slashes (u_EscapedPath u) @ (if u_RawQuery u \<noteq> [] then ''?'' @ u_RawQuery u else []))))"

definition stringField :: "val \<Rightarrow> string list \<Rightarrow> string" where
  "stringField v path = str_of (walkValue v path)"

definition intField :: "val \<Rightarrow> string list \<Rightarrow> int" where
  "intField v path = int_of (walkValue v path)"

definition listField :: "val \<Rightarrow> string list \<Rightarrow> val list" where
  "listField v path = list_of (walkValue v path)"

definition fetchedKeys :: "(string \<Rightarrow> string) \<Rightarrow> url_parser \<Rightarrow> val \<Rightarrow> string gomap" where
  "fetchedKeys lower parse_url v = fold (\<lambda>s m. let u = stringField s [''url''] in
     case sourceKey lower parse_url u of
       None \<Rightarrow> m
     | Some key \<Rightarrow> if hasKey m key then m else put key (trimSpace u) m) (listField v [''sources'']) []"

definition position :: "string list \<Rightarrow> string \<Rightarrow> nat" where
  "position order x = (case index_of x order of Some i \<Rightarrow> i | None \<Rightarrow> length order)"

definition relevanceRank :: "string list" where "relevanceRank = [''high'', ''medium'', ''low'']"
definition importanceRank :: "string list" where "importanceRank = [''central'', ''supporting'', ''tangential'']"
definition qualityRank :: "string list" where "qualityRank = [''primary'', ''secondary'', ''blog'', ''forum'', ''unreliable'']"
definition confidenceRank :: "string list" where "confidenceRank = [''high'', ''medium'', ''low'']"

definition enumType :: "string list \<Rightarrow> ty" where
  "enumType xs = Type KString [] [] False None (map VStr xs) None None None None None None []"

lemma conforms_enumType: "s \<in> set xs \<Longrightarrow> conforms (Some (enumType xs)) (VStr s)"
  by (auto simp: enumType_def conforms_VStr in_count_range_def enum_holds_def list_ex_iff intro!: bexI equalValues_refl)

definition boundedList :: "ty \<Rightarrow> int option \<Rightarrow> ty" where
  "boundedList t bound = set_MaxItems (ArrayType (Some t)) bound"

definition literalBound :: "staticArg gomap \<Rightarrow> string \<Rightarrow> int option" where
  "literalBound static name = (case map_of static name of
     Some a \<Rightarrow> if \<not> IsConst a then None else (case Literal a of VInt n \<Rightarrow> Some n | _ \<Rightarrow> None)
   | None \<Rightarrow> None)"

definition listBound :: "staticArg gomap \<Rightarrow> string \<Rightarrow> int option" where
  "listBound static name = (case map_of static name of
     Some a \<Rightarrow> (case SType a of Some t \<Rightarrow> if Kind t = KArray then MaxItems t else None | None \<Rightarrow> None)
   | None \<Rightarrow> None)"

definition count_text :: "int \<Rightarrow> string \<Rightarrow> string \<Rightarrow> string" where
  "count_text n one many = (if n = 1 then ''1 '' @ one else itoa n @ '' '' @ many)"

lemma fetchedKeys_lookup:
  "map_of (fetchedKeys lower parse_url v) key = Some u \<Longrightarrow>
     \<exists>s \<in> set (listField v [''sources'']). sourceKey lower parse_url (stringField s [''url'']) = Some key \<and> u = trimSpace (stringField s [''url''])"
proof -
  define f where "f = (\<lambda>s m. let u = stringField s [''url''] in case sourceKey lower parse_url u of
       None \<Rightarrow> m | Some key \<Rightarrow> if hasKey m key then m else put key (trimSpace u) m)"
  have "map_of (fold f ss m) key = Some u \<Longrightarrow> map_of m key = Some u \<or>
      (\<exists>s \<in> set ss. sourceKey lower parse_url (stringField s [''url'']) = Some key \<and> u = trimSpace (stringField s [''url'']))" for ss m
  proof (induction ss arbitrary: m)
    case (Cons s ss)
    from Cons.IH [of "f s m"] Cons.prems show ?case
      by (auto simp: f_def Let_def put_lookup split: option.splits if_splits)
  qed simp
  from this [of _ "[]"] show "map_of (fetchedKeys lower parse_url v) key = Some u \<Longrightarrow> ?thesis"
    by (auto simp: fetchedKeys_def f_def [symmetric])
qed

section \<open>dedup\_sources\<close>

record searchHit =
  sh_angle :: nat
  sh_position :: nat
  sh_hit :: val
  sh_label :: string

definition dedup_params :: "param list" where
  "dedup_params = [
     \<lparr>PName = ''results'', PType = ArrayType (Some (openObject [
        fld ''item'' (openObject [fld ''label'' StringType]),
        fld ''output'' (openObject [fld ''result'' (openObject [fld ''results'' (ArrayType (Some (openObject [
          fld ''url'' StringType, fld ''title'' StringType, optfld ''snippet'' StringType, fld ''relevance'' StringType])))])])])),
        Min = 0, Max = 0\<rparr>,
     \<lparr>PName = ''max_sources'', PType = IntegerType, Min = 1, Max = 100\<rparr>]"

definition dedupSourceType :: ty where
  "dedupSourceType = ObjectType [fld ''id'' StringType, fld ''url'' StringType, fld ''key'' StringType, fld ''title'' StringType,
     fld ''snippet'' StringType, fld ''relevance'' StringType, fld ''angle'' StringType]"

definition dedup_result :: "int option \<Rightarrow> ty" where
  "dedup_result bound = ObjectType [fld ''sources'' (boundedList dedupSourceType bound), fld ''count'' IntegerType,
     fld ''candidates'' IntegerType, fld ''duplicates'' IntegerType, fld ''budget_dropped'' IntegerType, fld ''invalid'' IntegerType,
     fld ''dropped'' (ArrayType (Some (ObjectType [fld ''url'' StringType, fld ''angle'' StringType, fld ''reason'' StringType])))]"

definition search_hits :: "val list \<Rightarrow> searchHit list" where
  "search_hits results = concat (map (\<lambda>(a, r). map (\<lambda>(p, h). \<lparr>sh_angle = a, sh_position = p, sh_hit = h,
       sh_label = stringField r [''item'', ''label'']\<rparr>) (List.enumerate 0 (listField r [''output'', ''result'', ''results''])))
     (List.enumerate 0 results))"

definition relevance_order :: "searchHit \<Rightarrow> nat \<times> nat \<times> nat" where
  "relevance_order c = (position relevanceRank (stringField (sh_hit c) [''relevance'']), sh_angle c, sh_position c)"

definition hit_url :: "searchHit \<Rightarrow> string" where
  "hit_url c = trimSpace (stringField (sh_hit c) [''url''])"

record deduped =
  dd_sources :: "val list"
  dd_kept :: "string gomap"
  dd_over :: "string set"
  dd_duplicates :: int
  dd_budget :: int
  dd_invalid :: int
  dd_dropped :: "val list"

definition drop_hit :: "searchHit \<Rightarrow> string \<Rightarrow> deduped \<Rightarrow> deduped" where
  "drop_hit c reason d = d\<lparr>dd_dropped := dd_dropped d @ [VObj [(''url'', VStr (hit_url c)), (''angle'', VStr (sh_label c)), (''reason'', VStr reason)]]\<rparr>"

definition dedup_source :: "string \<Rightarrow> string \<Rightarrow> searchHit \<Rightarrow> val" where
  "dedup_source i key c = VObj [(''id'', VStr i), (''url'', VStr (hit_url c)), (''key'', VStr key),
     (''title'', VStr (stringField (sh_hit c) [''title''])), (''snippet'', VStr (stringField (sh_hit c) [''snippet''])),
     (''relevance'', VStr (stringField (sh_hit c) [''relevance''])), (''angle'', VStr (sh_label c))]"

definition dedup_step :: "(string \<Rightarrow> string) \<Rightarrow> url_parser \<Rightarrow> int \<Rightarrow> searchHit \<Rightarrow> deduped \<Rightarrow> deduped" where
  "dedup_step lower parse_url limit c d = (case sourceKey lower parse_url (hit_url c) of
     None \<Rightarrow> drop_hit c ''invalid URL'' (d\<lparr>dd_invalid := dd_invalid d + 1\<rparr>)
   | Some key \<Rightarrow> (case map_of (dd_kept d) key of
         Some i \<Rightarrow> drop_hit c (''duplicate of '' @ i) (d\<lparr>dd_duplicates := dd_duplicates d + 1\<rparr>)
       | None \<Rightarrow>
           if key \<in> dd_over d then
             drop_hit c ''duplicate of a result over the source budget'' (d\<lparr>dd_duplicates := dd_duplicates d + 1\<rparr>)
           else if limit \<le> int (length (dd_sources d)) then
             drop_hit c ''over the source budget'' (d\<lparr>dd_budget := dd_budget d + 1, dd_over := insert key (dd_over d)\<rparr>)
           else let i = ''s'' @ itoa (int (length (dd_sources d)) + 1) in
             d\<lparr>dd_kept := put key i (dd_kept d), dd_sources := dd_sources d @ [dedup_source i key c]\<rparr>))"

definition dedup_all :: "(string \<Rightarrow> string) \<Rightarrow> url_parser \<Rightarrow> int \<Rightarrow> searchHit list \<Rightarrow> deduped" where
  "dedup_all lower parse_url limit hits = fold (dedup_step lower parse_url limit) hits
     \<lparr>dd_sources = [], dd_kept = [], dd_over = {}, dd_duplicates = 0, dd_budget = 0, dd_invalid = 0, dd_dropped = []\<rparr>"

definition dedup_body :: "(string \<Rightarrow> string) \<Rightarrow> url_parser \<Rightarrow> val gomap \<Rightarrow> outcome" where
  "dedup_body lower parse_url args = (let hits = sort_key relevance_order (search_hits (list_of (arg_val args ''results'')));
       d = dedup_all lower parse_url (int_of (arg_val args ''max_sources'')) hits in
     Returned (VObj [(''sources'', VList (dd_sources d)), (''count'', VInt (int (length (dd_sources d)))),
       (''candidates'', VInt (int (length hits))), (''duplicates'', VInt (dd_duplicates d)), (''budget_dropped'', VInt (dd_budget d)),
       (''invalid'', VInt (dd_invalid d)), (''dropped'', VList (dd_dropped d))]))"

definition dedup_refine :: "staticArg gomap \<Rightarrow> ty" where
  "dedup_refine static = dedup_result (literalBound static ''max_sources'')"

definition dedupSources :: "(string \<Rightarrow> string) \<Rightarrow> url_parser \<Rightarrow> func" where
  "dedupSources lower parse_url = \<lparr>FName = ''dedup_sources'', Version = 1, Params = dedup_params, Result = dedup_result None,
     Refine = Some dedup_refine, Call = checked dedup_params (dedup_body lower parse_url)\<rparr>"

subsection \<open>First occurrences\<close>

text \<open>The reference: the first hit of every key, in order.\<close>

definition first_hit :: "(searchHit \<Rightarrow> string option) \<Rightarrow> searchHit \<Rightarrow> (string \<times> searchHit) list \<Rightarrow> (string \<times> searchHit) list" where
  "first_hit key c ps = (case key c of None \<Rightarrow> ps | Some k \<Rightarrow> if hasKey ps k then ps else ps @ [(k, c)])"

definition first_hits :: "(searchHit \<Rightarrow> string option) \<Rightarrow> searchHit list \<Rightarrow> (string \<times> searchHit) list" where
  "first_hits key hs = fold (first_hit key) hs []"

definition numbered :: "string \<Rightarrow> (string \<Rightarrow> 'a \<Rightarrow> 'b) \<Rightarrow> 'a list \<Rightarrow> 'b list" where
  "numbered pre f xs = map (\<lambda>(i, x). f (pre @ itoa (int i + 1)) x) (List.enumerate 0 xs)"

lemma numbered_snoc: "numbered pre f (xs @ [x]) = numbered pre f xs @ [f (pre @ itoa (int (length xs) + 1)) x]"
  by (simp add: numbered_def enumerate_append_eq)

lemma numbered_Nil [simp]: "numbered pre f [] = []"
  by (simp add: numbered_def)

lemma length_numbered [simp]: "length (numbered pre f xs) = length xs"
  by (simp add: numbered_def)

definition hit_key :: "(string \<Rightarrow> string) \<Rightarrow> url_parser \<Rightarrow> searchHit \<Rightarrow> string option" where
  "hit_key lower parse_url c = sourceKey lower parse_url (hit_url c)"

definition keep_source :: "string \<Rightarrow> string \<times> searchHit \<Rightarrow> val" where
  "keep_source i p = dedup_source i (fst p) (snd p)"

definition dedup_inv :: "(searchHit \<Rightarrow> string option) \<Rightarrow> nat \<Rightarrow> searchHit list \<Rightarrow> deduped \<Rightarrow> bool" where
  "dedup_inv key limit hs d \<longleftrightarrow> (let fh = first_hits key hs in
     dd_sources d = numbered ''s'' keep_source (take limit fh) \<and>
     fst ` set (dd_kept d) = fst ` set (take limit fh) \<and> dd_over d = fst ` set (drop limit fh) \<and>
     dd_budget d = int (length (drop limit fh)) \<and> dd_invalid d = int (length (filter (\<lambda>c. key c = None) hs)) \<and>
     dd_duplicates d = int (length (filter (\<lambda>c. key c \<noteq> None) hs)) - int (length fh) \<and>
     length (dd_dropped d) + min (length fh) limit = length hs)"

lemma first_hits_snoc: "first_hits key (hs @ [c]) = first_hit key c (first_hits key hs)"
  by (simp add: first_hits_def)

lemma drop_hit_sel [simp]:
  "dd_sources (drop_hit c r d) = dd_sources d" "dd_kept (drop_hit c r d) = dd_kept d" "dd_over (drop_hit c r d) = dd_over d"
  "dd_budget (drop_hit c r d) = dd_budget d" "dd_invalid (drop_hit c r d) = dd_invalid d"
  "dd_duplicates (drop_hit c r d) = dd_duplicates d" "length (dd_dropped (drop_hit c r d)) = Suc (length (dd_dropped d))"
  by (simp_all add: drop_hit_def)

lemma put_keys_set: "fst ` set (put k v m) = insert k (fst ` set m)"
  using arg_cong [OF put_keys [of k v m], of set] by (auto split: if_splits)

lemma dedup_step_inv:
  assumes inv: "dedup_inv (hit_key lower parse_url) (nat limit) hs d"
  shows "dedup_inv (hit_key lower parse_url) (nat limit) (hs @ [c]) (dedup_step lower parse_url limit c d)"
proof -
  define key where "key = hit_key lower parse_url"
  define fh where "fh = first_hits key hs"
  note I = inv [folded key_def, unfolded dedup_inv_def, folded fh_def, unfolded Let_def]
  have step: "dedup_step lower parse_url limit c d = (case key c of
     None \<Rightarrow> drop_hit c ''invalid URL'' (d\<lparr>dd_invalid := dd_invalid d + 1\<rparr>)
   | Some k \<Rightarrow> (case map_of (dd_kept d) k of
         Some i \<Rightarrow> drop_hit c (''duplicate of '' @ i) (d\<lparr>dd_duplicates := dd_duplicates d + 1\<rparr>)
       | None \<Rightarrow>
           if k \<in> dd_over d then drop_hit c ''duplicate of a result over the source budget'' (d\<lparr>dd_duplicates := dd_duplicates d + 1\<rparr>)
           else if limit \<le> int (length (dd_sources d)) then
             drop_hit c ''over the source budget'' (d\<lparr>dd_budget := dd_budget d + 1, dd_over := insert k (dd_over d)\<rparr>)
           else let i = ''s'' @ itoa (int (length (dd_sources d)) + 1) in
             d\<lparr>dd_kept := put k i (dd_kept d), dd_sources := dd_sources d @ [dedup_source i k c]\<rparr>))"
    by (simp add: dedup_step_def key_def hit_key_def)
  have fh': "first_hits key (hs @ [c]) = first_hit key c fh" by (simp add: first_hits_snoc fh_def)
  have mem: "fst ` set fh = fst ` set (take (nat limit) fh) \<union> fst ` set (drop (nat limit) fh)"
    by (metis append_take_drop_id image_Un set_append)
  show ?thesis
  proof (cases "key c")
    case None
    then show ?thesis using I by (simp add: dedup_inv_def key_def [symmetric] fh' first_hit_def step Let_def)
  next
    case (Some k)
    note simps = dedup_inv_def key_def [symmetric] fh' first_hit_def step Some Let_def hasKey_iff
    show ?thesis
    proof (cases "k \<in> fst ` set fh")
      case True
      show ?thesis
      proof (cases "map_of (dd_kept d) k")
        case None
        then have "k \<in> dd_over d" using True I mem by (auto simp: map_of_eq_None_iff)
        then show ?thesis using I True None by (simp add: simps)
      next
        case (Some i)
        then show ?thesis using I True by (simp add: simps)
      qed
    next
      case False
      then have n: "map_of (dd_kept d) k = None" "k \<notin> dd_over d" using I mem by (auto simp: map_of_eq_None_iff)
      have len: "length (dd_sources d) = min (nat limit) (length fh)" using I by simp
      show ?thesis
      proof (cases "limit \<le> int (length (dd_sources d))")
        case True
        then have "nat limit \<le> length fh" using len by linarith
        then show ?thesis using I n False True by (simp add: simps)
      next
        case under: False
        then have l: "length fh < nat limit" using len by linarith
        then show ?thesis
          using I n False under len
          by (simp add: simps numbered_snoc keep_source_def put_keys_set)
      qed
    qed
  qed
qed

lemma dedup_all_inv: "dedup_inv (hit_key lower parse_url) (nat limit) hs (dedup_all lower parse_url limit hs)"
proof (induction hs rule: rev_induct)
  case Nil
  show ?case by (simp add: dedup_inv_def dedup_all_def first_hits_def)
next
  case (snoc c hs)
  from dedup_step_inv [OF snoc] show ?case by (simp add: dedup_all_def)
qed

lemma first_hits_find: "map_of (first_hits key hs) k = find (\<lambda>c. key c = Some k) hs"
proof (induction hs rule: rev_induct)
  case (snoc c hs)
  then show ?case
    by (auto simp: first_hits_snoc first_hit_def find_append hasKey_def map_add_def split: option.splits)
qed (simp add: first_hits_def)

lemma first_hits_distinct: "distinct (map fst (first_hits key hs))"
proof (induction hs rule: rev_induct)
  case (snoc c hs)
  then show ?case by (auto simp: first_hits_snoc first_hit_def hasKey_iff split: option.splits)
qed (simp add: first_hits_def)

subsection \<open>Its contract\<close>

lemma dedup_dropped_conform:
  assumes "list_all (conforms (Some (ObjectType [fld ''url'' StringType, fld ''angle'' StringType, fld ''reason'' StringType]))) (dd_dropped d)"
  shows "list_all (conforms (Some (ObjectType [fld ''url'' StringType, fld ''angle'' StringType, fld ''reason'' StringType])))
    (dd_dropped (dedup_step lower parse_url limit c d))"
proof -
  have "conforms (Some (ObjectType [fld ''url'' StringType, fld ''angle'' StringType, fld ''reason'' StringType]))
      (VObj [(''url'', VStr a), (''angle'', VStr b), (''reason'', VStr x)])" for a b x
    by (rule conforms_fields) (auto simp: conforms_plain)
  then show ?thesis using assms by (auto simp: dedup_step_def drop_hit_def Let_def split: option.splits)
qed

lemma dedup_sources_conform: "conforms (Some dedupSourceType) (dedup_source i k c)"
  unfolding dedupSourceType_def dedup_source_def by (rule conforms_fields) (auto simp: conforms_plain)

lemma dedup_result_conforms:
  assumes "\<forall>h. bound = Some h \<longrightarrow> limit \<le> h" and "1 \<le> limit"
  shows "conforms (Some (dedup_result bound)) (VObj [(''sources'', VList (dd_sources (dedup_all lower parse_url limit hits))),
     (''count'', VInt a), (''candidates'', VInt b), (''duplicates'', VInt x), (''budget_dropped'', VInt e), (''invalid'', VInt f),
     (''dropped'', VList (dd_dropped (dedup_all lower parse_url limit hits)))])"
proof -
  have src: "dd_sources (dedup_all lower parse_url limit hits) =
      numbered ''s'' keep_source (take (nat limit) (first_hits (hit_key lower parse_url) hits))"
    using dedup_all_inv [of lower parse_url limit hits] by (simp add: dedup_inv_def Let_def)
  have "conforms (Some dedupSourceType) x" if "x \<in> set (numbered ''s'' keep_source ps)" for x ps
    using that by (auto simp: numbered_def keep_source_def dedup_sources_conform)
  moreover have "list_all (conforms (Some (ObjectType [fld ''url'' StringType, fld ''angle'' StringType, fld ''reason'' StringType])))
      (dd_dropped (dedup_all lower parse_url limit hits))"
    unfolding dedup_all_def by (rule fold_invariant [where Q = "\<lambda>_. True"]) (auto intro: dedup_dropped_conform)
  ultimately show ?thesis
    unfolding dedup_result_def src boundedList_def
    by (intro conforms_fields) (use assms in \<open>auto simp: conforms_plain conforms_set_MaxItems list_all_iff\<close>)
qed

lemma dedup_args:
  assumes "checkArgs dedup_params args = None"
  obtains results limit where "map_of args ''results'' = Some (VList results)" "map_of args ''max_sources'' = Some (VInt limit)"
    "1 \<le> limit" "limit \<le> 100"
  using assms by (fastforce simp: checkArgs_None dedup_params_def arg_ok_def conforms_plain)

interpretation dedup_sources: reviewed_function "dedupSources lower parse_url" for lower parse_url
proof
  fix args r assume c: "Call (dedupSources lower parse_url) args = Returned r"
  then have a: "checkArgs dedup_params args = None" and b: "dedup_body lower parse_url args = Returned r"
    by (simp_all add: dedupSources_def checked_Returned)
  then show "checkArgs (Params (dedupSources lower parse_url)) args = None" by (simp add: dedupSources_def)
  from a obtain limit where "map_of args ''max_sources'' = Some (VInt limit)" "1 \<le> limit" by (rule dedup_args)
  then show "conforms (Some (Result (dedupSources lower parse_url))) r"
    using b by (auto simp: dedupSources_def dedup_body_def Let_def arg_val_def intro!: dedup_result_conforms)
qed

text \<open>
  What a call returns: the first hit of each key in relevance order, up to the budget, numbered; and
  every other result is accounted for.
\<close>

lemma dedup_exact:
  assumes "Call (dedupSources lower parse_url) args = Returned r"
  shows "\<exists>results limit hits fh. map_of args ''results'' = Some (VList results) \<and> map_of args ''max_sources'' = Some (VInt limit) \<and>
    1 \<le> limit \<and> hits = sort_key relevance_order (search_hits results) \<and> fh = first_hits (hit_key lower parse_url) hits \<and>
    field_value r ''sources'' = VList (numbered ''s'' keep_source (take (nat limit) fh)) \<and>
    field_value r ''candidates'' = VInt (int (length hits)) \<and>
    field_value r ''invalid'' = VInt (int (length (filter (\<lambda>c. hit_key lower parse_url c = None) hits))) \<and>
    field_value r ''duplicates'' = VInt (int (length (filter (\<lambda>c. hit_key lower parse_url c \<noteq> None) hits)) - int (length fh)) \<and>
    field_value r ''budget_dropped'' = VInt (int (length (drop (nat limit) fh)))"
proof -
  from assms have a: "checkArgs dedup_params args = None" and b: "dedup_body lower parse_url args = Returned r"
    by (simp_all add: dedupSources_def checked_Returned)
  from a obtain results limit where ar: "map_of args ''results'' = Some (VList results)" "map_of args ''max_sources'' = Some (VInt limit)"
    "1 \<le> limit" by (rule dedup_args)
  define hits where "hits = sort_key relevance_order (search_hits results)"
  note inv = dedup_all_inv [of lower parse_url limit hits, unfolded dedup_inv_def Let_def]
  have "r = VObj [(''sources'', VList (dd_sources (dedup_all lower parse_url limit hits))),
       (''count'', VInt (int (length (dd_sources (dedup_all lower parse_url limit hits))))),
       (''candidates'', VInt (int (length hits))), (''duplicates'', VInt (dd_duplicates (dedup_all lower parse_url limit hits))),
       (''budget_dropped'', VInt (dd_budget (dedup_all lower parse_url limit hits))),
       (''invalid'', VInt (dd_invalid (dedup_all lower parse_url limit hits))), (''dropped'', VList (dd_dropped (dedup_all lower parse_url limit hits)))]"
    using b ar by (simp add: dedup_body_def Let_def arg_val_def hits_def)
  then have "field_value r ''sources'' = VList (numbered ''s'' keep_source (take (nat limit) (first_hits (hit_key lower parse_url) hits)))"
    "field_value r ''candidates'' = VInt (int (length hits))"
    "field_value r ''invalid'' = VInt (int (length (filter (\<lambda>c. hit_key lower parse_url c = None) hits)))"
    "field_value r ''duplicates'' = VInt (int (length (filter (\<lambda>c. hit_key lower parse_url c \<noteq> None) hits)) - int (length (first_hits (hit_key lower parse_url) hits)))"
    "field_value r ''budget_dropped'' = VInt (int (length (drop (nat limit) (first_hits (hit_key lower parse_url) hits))))"
    using inv by simp_all
  with ar show ?thesis unfolding hits_def by blast
qed

end
