(* ===== verification/Ranking.thy ===== *)
theory Ranking
  imports Research
begin

text \<open>
  \<^verbatim>\<open>rank_claims\<close> and \<^verbatim>\<open>expand_ballots@2\<close> (research.go): the claims of the sources their extractor
  fetched, in order of importance and quality, and one ballot for each claim and voter.
\<close>

section \<open>rank\_claims\<close>

definition rankedClaimType :: ty where
  "rankedClaimType = ObjectType [fld ''id'' StringType, fld ''text'' StringType, fld ''quote'' StringType,
     fld ''importance'' StringType, fld ''source_id'' StringType, fld ''source_url'' StringType, fld ''source_title'' StringType,
     fld ''source_quality'' StringType, fld ''publish_date'' StringType, fld ''angle'' StringType]"

definition extractedSource :: ty where
  "extractedSource = openObject [fld ''id'' StringType, fld ''url'' StringType, optfld ''title'' StringType, optfld ''angle'' StringType]"

definition rank_params :: "param list" where
  "rank_params = [
     \<lparr>PName = ''extractions'', PType = openObject [
        fld ''results'' (ArrayType (Some (openObject [fld ''index'' IntegerType, fld ''item'' extractedSource,
          fld ''output'' (openObject [fld ''sources'' (ArrayType (Some (openObject [fld ''url'' StringType]))),
            fld ''result'' (openObject [fld ''source_quality'' StringType, optfld ''publish_date'' StringType,
              fld ''claims'' (ArrayType (Some (openObject [fld ''claim'' StringType, fld ''quote'' StringType,
                fld ''importance'' StringType])))])])]))),
        fld ''failures'' (ArrayType (Some (openObject [fld ''index'' IntegerType, fld ''item'' extractedSource]))),
        fld ''failed'' IntegerType], Min = 0, Max = 0\<rparr>,
     \<lparr>PName = ''max_claims'', PType = IntegerType, Min = 1, Max = 100\<rparr>]"

definition sourceSummaryType :: ty where
  "sourceSummaryType = ObjectType [fld ''id'' StringType, fld ''url'' StringType, fld ''quality'' StringType,
     fld ''claims'' IntegerType, fld ''read'' BooleanType]"

definition rank_result :: "int option \<Rightarrow> ty" where
  "rank_result bound = ObjectType [fld ''claims'' (boundedList rankedClaimType bound), fld ''count'' IntegerType,
     fld ''extracted'' IntegerType, fld ''unfetched'' IntegerType, fld ''dropped'' IntegerType, fld ''sources_read'' IntegerType,
     fld ''extraction_failed'' IntegerType, fld ''sources'' (ArrayType (Some sourceSummaryType)),
     fld ''notes'' (ArrayType (Some StringType))]"

record extraction =
  ex_index :: int
  ex_source :: val
  ex_output :: val
  ex_succeeded :: bool

definition extraction_entries :: "val \<Rightarrow> extraction list" where
  "extraction_entries ex = sort_key ex_index
     (map (\<lambda>r. \<lparr>ex_index = intField r [''index''], ex_source = walkValue r [''item''], ex_output = walkValue r [''output''],
          ex_succeeded = True\<rparr>) (listField ex [''results'']) @
      map (\<lambda>f. \<lparr>ex_index = intField f [''index''], ex_source = walkValue f [''item''], ex_output = VNil, ex_succeeded = False\<rparr>)
        (listField ex [''failures'']))"

record rankCandidate =
  rc_fields :: "(string \<times> val) list"
  rc_entry :: nat
  rc_position :: nat
  rc_importance :: nat
  rc_quality :: nat

definition source_url :: "extraction \<Rightarrow> string" where
  "source_url en = trimSpace (stringField (ex_source en) [''url''])"

definition source_fetched :: "(string \<Rightarrow> string) \<Rightarrow> url_parser \<Rightarrow> extraction \<Rightarrow> bool" where
  "source_fetched lower parse_url en = (case sourceKey lower parse_url (source_url en) of
     None \<Rightarrow> False | Some key \<Rightarrow> hasKey (fetchedKeys lower parse_url (ex_output en)) key)"

definition extracted_claims :: "extraction \<Rightarrow> val list" where
  "extracted_claims en = listField (ex_output en) [''result'', ''claims'']"

definition rank_text :: "val \<Rightarrow> string" where
  "rank_text c = join '' '' (splitFields (stringField c [''claim'']))"

definition source_quality :: "extraction \<Rightarrow> string" where
  "source_quality en = stringField (ex_output en) [''result'', ''source_quality'']"

text \<open>The candidate a claim of a read source makes, if it has any text.\<close>

definition rank_candidate :: "nat \<Rightarrow> extraction \<Rightarrow> nat \<times> val \<Rightarrow> rankCandidate option" where
  "rank_candidate e en pc = (case pc of (p, c) \<Rightarrow>
     if rank_text c = [] then None
     else Some \<lparr>rc_fields = [(''text'', VStr (rank_text c)), (''quote'', VStr (stringField c [''quote''])),
            (''importance'', VStr (stringField c [''importance''])), (''source_id'', VStr (stringField (ex_source en) [''id''])),
            (''source_url'', VStr (source_url en)), (''source_title'', VStr (stringField (ex_source en) [''title''])),
            (''source_quality'', VStr (source_quality en)),
            (''publish_date'', VStr (stringField (ex_output en) [''result'', ''publish_date''])),
            (''angle'', VStr (stringField (ex_source en) [''angle'']))],
         rc_entry = e, rc_position = p, rc_importance = position importanceRank (stringField c [''importance'']),
         rc_quality = position qualityRank (source_quality en)\<rparr>)"

definition entry_candidates :: "nat \<Rightarrow> extraction \<Rightarrow> rankCandidate list" where
  "entry_candidates e en = List.map_filter (rank_candidate e en) (List.enumerate 0 (extracted_claims en))"

record ranking =
  rk_candidates :: "rankCandidate list"
  rk_sources :: "val list"
  rk_notes :: "string list"
  rk_extracted :: int
  rk_unfetched :: int
  rk_read :: int

definition source_summary :: "extraction \<Rightarrow> string \<Rightarrow> int \<Rightarrow> bool \<Rightarrow> val" where
  "source_summary en quality claims read = VObj [(''id'', VStr (stringField (ex_source en) [''id''])), (''url'', VStr (source_url en)),
     (''quality'', VStr quality), (''claims'', VInt claims), (''read'', VBool read)]"

definition rank_entry :: "(string \<Rightarrow> string) \<Rightarrow> url_parser \<Rightarrow> nat \<times> extraction \<Rightarrow> ranking \<Rightarrow> ranking" where
  "rank_entry lower parse_url een k = (case een of (e, en) \<Rightarrow>
     if \<not> ex_succeeded en then k\<lparr>rk_sources := rk_sources k @ [source_summary en [] 0 False]\<rparr>
     else if \<not> source_fetched lower parse_url en then
       k\<lparr>rk_sources := rk_sources k @ [source_summary en (source_quality en) 0 False],
         rk_unfetched := rk_unfetched k + int (length (extracted_claims en)),
         rk_notes := (if extracted_claims en = [] then rk_notes k else rk_notes k @
            [stringField (ex_source en) [''id''] @ '': its extractor did not fetch '' @ source_url en @ '', so its '' @
             count_text (int (length (extracted_claims en))) ''claim was'' ''claims were'' @ '' dropped''])\<rparr>
     else let cs = entry_candidates e en in
       k\<lparr>rk_sources := rk_sources k @ [source_summary en (source_quality en) (int (length cs)) True],
         rk_read := rk_read k + 1, rk_extracted := rk_extracted k + int (length cs), rk_candidates := rk_candidates k @ cs\<rparr>)"

definition rank_entries :: "(string \<Rightarrow> string) \<Rightarrow> url_parser \<Rightarrow> extraction list \<Rightarrow> ranking" where
  "rank_entries lower parse_url ens = fold (rank_entry lower parse_url) (List.enumerate 0 ens)
     \<lparr>rk_candidates = [], rk_sources = [], rk_notes = [], rk_extracted = 0, rk_unfetched = 0, rk_read = 0\<rparr>"

definition rank_order :: "rankCandidate \<Rightarrow> nat \<times> nat \<times> nat \<times> nat" where
  "rank_order c = (rc_importance c, rc_quality c, rc_entry c, rc_position c)"

definition ranked_claim :: "string \<Rightarrow> rankCandidate \<Rightarrow> val" where
  "ranked_claim i c = VObj ((''id'', VStr i) # rc_fields c)"

definition rank_body :: "(string \<Rightarrow> string) \<Rightarrow> url_parser \<Rightarrow> val gomap \<Rightarrow> outcome" where
  "rank_body lower parse_url args = (let ex = arg_val args ''extractions''; limit = int_of (arg_val args ''max_claims'');
       k = rank_entries lower parse_url (extraction_entries ex);
       kept = numbered ''c'' ranked_claim (take (nat limit) (sort_key rank_order (rk_candidates k))) in
     Returned (VObj [(''claims'', VList kept), (''count'', VInt (int (length kept))), (''extracted'', VInt (rk_extracted k)),
       (''unfetched'', VInt (rk_unfetched k)), (''dropped'', VInt (int (length (rk_candidates k)) - int (length kept))),
       (''sources_read'', VInt (rk_read k)), (''extraction_failed'', VInt (intField ex [''failed''])),
       (''sources'', VList (rk_sources k)), (''notes'', VList (map VStr (rk_notes k)))]))"

definition rank_refine :: "staticArg gomap \<Rightarrow> ty" where
  "rank_refine static = rank_result (literalBound static ''max_claims'')"

definition rankClaims :: "(string \<Rightarrow> string) \<Rightarrow> url_parser \<Rightarrow> func" where
  "rankClaims lower parse_url = \<lparr>FName = ''rank_claims'', Version = 1, Params = rank_params, Result = rank_result None,
     Refine = Some rank_refine, Call = checked rank_params (rank_body lower parse_url)\<rparr>"

subsection \<open>Its contract\<close>

lemma ranked_claim_conforms: "rank_candidate e en pc = Some c \<Longrightarrow> conforms (Some rankedClaimType) (ranked_claim i c)"
  unfolding rankedClaimType_def ranked_claim_def
  by (cases pc) (auto simp: rank_candidate_def conforms_plain split: if_splits intro!: conforms_fields)

text \<open>The candidates are the claims of the read sources, in entry order.\<close>

definition all_candidates :: "(string \<Rightarrow> string) \<Rightarrow> url_parser \<Rightarrow> extraction list \<Rightarrow> rankCandidate list" where
  "all_candidates lower parse_url ens = concat (map (\<lambda>(e, en). entry_candidates e en)
     (filter (\<lambda>(e, en). ex_succeeded en \<and> source_fetched lower parse_url en) (List.enumerate 0 ens)))"

definition summary_ok :: "val \<Rightarrow> bool" where
  "summary_ok v \<longleftrightarrow> conforms (Some sourceSummaryType) v"

lemma summary_conforms: "summary_ok (source_summary en q n b)"
  unfolding summary_ok_def sourceSummaryType_def source_summary_def by (rule conforms_fields) (auto simp: conforms_plain)

lemma rank_entries_ok:
  "rk_candidates (rank_entries lower parse_url ens) = all_candidates lower parse_url ens \<and>
   rk_extracted (rank_entries lower parse_url ens) = int (length (all_candidates lower parse_url ens)) \<and>
   list_all summary_ok (rk_sources (rank_entries lower parse_url ens)) \<and>
   length (rk_sources (rank_entries lower parse_url ens)) = length ens \<and>
   rk_unfetched (rank_entries lower parse_url ens) =
     (\<Sum>en \<leftarrow> filter (\<lambda>en. ex_succeeded en \<and> \<not> source_fetched lower parse_url en) ens. int (length (extracted_claims en))) \<and>
   rk_read (rank_entries lower parse_url ens) = int (length (filter (\<lambda>en. ex_succeeded en \<and> source_fetched lower parse_url en) ens))"
proof (induction ens rule: rev_induct)
  case Nil
  show ?case by (simp add: rank_entries_def all_candidates_def)
next
  case (snoc en ens)
  have "rank_entries lower parse_url (ens @ [en]) = rank_entry lower parse_url (length ens, en) (rank_entries lower parse_url ens)"
    by (simp add: rank_entries_def enumerate_append_eq)
  moreover have "all_candidates lower parse_url (ens @ [en]) = all_candidates lower parse_url ens @
      (if ex_succeeded en \<and> source_fetched lower parse_url en then entry_candidates (length ens) en else [])"
    by (simp add: all_candidates_def enumerate_append_eq)
  ultimately show ?case using snoc by (simp add: rank_entry_def Let_def summary_conforms)
qed

lemma rank_result_conforms:
  assumes "\<forall>h. bound = Some h \<longrightarrow> limit \<le> h" and "1 \<le> limit"
  shows "conforms (Some (rank_result bound)) (VObj [
     (''claims'', VList (numbered ''c'' ranked_claim (take (nat limit) (sort_key rank_order (all_candidates lower parse_url ens))))),
     (''count'', VInt a), (''extracted'', VInt b), (''unfetched'', VInt x), (''dropped'', VInt d), (''sources_read'', VInt e),
     (''extraction_failed'', VInt f), (''sources'', VList (rk_sources (rank_entries lower parse_url ens))), (''notes'', VList (map VStr ns))])"
proof -
  have "conforms (Some rankedClaimType) v"
    if v: "v \<in> set (numbered ''c'' ranked_claim (take (nat limit) (sort_key rank_order (all_candidates lower parse_url ens))))" for v
  proof -
    obtain i c where c: "v = ranked_claim i c" "c \<in> set (take (nat limit) (sort_key rank_order (all_candidates lower parse_url ens)))"
      using v set_zip_rightD by (fastforce simp: numbered_def enumerate_eq_zip)
    then have "c \<in> set (all_candidates lower parse_url ens)" using in_set_takeD by fastforce
    then show ?thesis
      using c(1) by (auto simp: all_candidates_def entry_candidates_def List.map_filter_def ranked_claim_conforms)
  qed
  moreover have "int (length (numbered ''c'' ranked_claim (take (nat limit) (sort_key rank_order (all_candidates lower parse_url ens))))) \<le> limit"
    using assms(2) by simp
  moreover have "\<forall>s \<in> set (rk_sources (rank_entries lower parse_url ens)). conforms (Some sourceSummaryType) s"
    using rank_entries_ok [of lower parse_url ens] by (simp add: list_all_iff summary_ok_def)
  ultimately show ?thesis
    unfolding rank_result_def boundedList_def
    by (intro conforms_fields) (use assms in \<open>auto simp: conforms_plain conforms_set_MaxItems\<close>)
qed

lemma rank_args:
  assumes "checkArgs rank_params args = None"
  obtains ex limit where "map_of args ''extractions'' = Some ex" "map_of args ''max_claims'' = Some (VInt limit)" "1 \<le> limit" "limit \<le> 100"
  using assms by (fastforce simp: checkArgs_None rank_params_def arg_ok_def conforms_plain)

interpretation rank_claims: reviewed_function "rankClaims lower parse_url" for lower parse_url
proof
  fix args r assume c: "Call (rankClaims lower parse_url) args = Returned r"
  then have a: "checkArgs rank_params args = None" and b: "rank_body lower parse_url args = Returned r"
    by (simp_all add: rankClaims_def checked_Returned)
  then show "checkArgs (Params (rankClaims lower parse_url)) args = None" by (simp add: rankClaims_def)
  from a obtain limit where "map_of args ''max_claims'' = Some (VInt limit)" "1 \<le> limit" by (rule rank_args)
  then show "conforms (Some (Result (rankClaims lower parse_url))) r"
    using b rank_entries_ok [of lower parse_url]
    by (auto simp: rankClaims_def rank_body_def Let_def arg_val_def simp del: length_numbered intro!: rank_result_conforms)
qed

lemma rank_exact:
  assumes "Call (rankClaims lower parse_url) args = Returned r"
  shows "\<exists>ex limit cs. map_of args ''extractions'' = Some ex \<and> map_of args ''max_claims'' = Some (VInt limit) \<and>
    cs = sort_key rank_order (all_candidates lower parse_url (extraction_entries ex)) \<and>
    field_value r ''claims'' = VList (numbered ''c'' ranked_claim (take (nat limit) cs)) \<and>
    field_value r ''extracted'' = VInt (int (length cs)) \<and> field_value r ''dropped'' = VInt (int (length (drop (nat limit) cs)))"
proof -
  from assms have a: "checkArgs rank_params args = None" and b: "rank_body lower parse_url args = Returned r"
    by (simp_all add: rankClaims_def checked_Returned)
  from a obtain ex limit where ar: "map_of args ''extractions'' = Some ex" "map_of args ''max_claims'' = Some (VInt limit)"
    by (rule rank_args)
  define cs where "cs = sort_key rank_order (all_candidates lower parse_url (extraction_entries ex))"
  note ok = rank_entries_ok [of lower parse_url "extraction_entries ex"]
  have l: "length cs = length (all_candidates lower parse_url (extraction_entries ex))" by (simp add: cs_def)
  have "field_value r ''claims'' = VList (numbered ''c'' ranked_claim (take (nat limit) cs))"
    "field_value r ''extracted'' = VInt (int (length cs))" "field_value r ''dropped'' = VInt (int (length (drop (nat limit) cs)))"
    using b ar ok unfolding l by (auto simp: rank_body_def Let_def arg_val_def cs_def [symmetric] l [symmetric])
  with ar cs_def show ?thesis by blast
qed

text \<open>Every candidate quotes a source its extractor fetched.\<close>

definition lookup_field :: "rankCandidate \<Rightarrow> string \<Rightarrow> val" where
  "lookup_field c name = (case map_of (rc_fields c) name of Some x \<Rightarrow> x | None \<Rightarrow> VNil)"

lemma candidate_source: "c \<in> set (entry_candidates e en) \<Longrightarrow> lookup_field c ''source_url'' = VStr (source_url en)"
proof -
  assume "c \<in> set (entry_candidates e en)"
  then obtain pc where "rank_candidate e en pc = Some c" by (auto simp: entry_candidates_def List.map_filter_def)
  then show ?thesis by (cases pc) (auto simp: rank_candidate_def lookup_field_def split: if_splits)
qed

lemma candidate_fetched:
  assumes "c \<in> set (all_candidates lower parse_url ens)"
  shows "\<exists>en \<in> set ens. ex_succeeded en \<and> lookup_field c ''source_url'' = VStr (source_url en) \<and>
    (\<exists>key s. sourceKey lower parse_url (source_url en) = Some key \<and> s \<in> set (listField (ex_output en) [''sources'']) \<and>
       sourceKey lower parse_url (stringField s [''url'']) = Some key)"
proof -
  obtain e en where en: "(e, en) \<in> set (List.enumerate 0 ens)" "ex_succeeded en" "source_fetched lower parse_url en"
      "c \<in> set (entry_candidates e en)" using assms by (auto simp: all_candidates_def)
  then obtain key u where k: "sourceKey lower parse_url (source_url en) = Some key" "map_of (fetchedKeys lower parse_url (ex_output en)) key = Some u"
    by (auto simp: source_fetched_def hasKey_def split: option.splits)
  have "lookup_field c ''source_url'' = VStr (source_url en)" by (rule candidate_source [OF en(4)])
  moreover have "en \<in> set ens" using en(1) set_zip_rightD by (fastforce simp: enumerate_eq_zip)
  ultimately show ?thesis using en(2) k(1) fetchedKeys_lookup [OF k(2)] by blast
qed

section \<open>expand\_ballots, version 2\<close>

definition ballot2Type :: ty where
  "ballot2Type = ObjectType [fld ''id'' StringType, fld ''claim_id'' StringType, fld ''voter'' IntegerType, fld ''text'' StringType,
     fld ''quote'' StringType, fld ''source_url'' StringType, fld ''source_quality'' StringType, fld ''publish_date'' StringType]"

definition expand2_params :: "param list" where
  "expand2_params = [
     \<lparr>PName = ''claims'', PType = ArrayType (Some (openObject [fld ''id'' StringType, fld ''text'' StringType, fld ''quote'' StringType,
        fld ''source_url'' StringType, fld ''source_quality'' StringType, optfld ''publish_date'' StringType])), Min = 0, Max = 0\<rparr>,
     \<lparr>PName = ''votes'', PType = IntegerType, Min = 1, Max = 7\<rparr>]"

definition expand2_result :: "int option \<Rightarrow> ty" where
  "expand2_result bound = ObjectType [fld ''ballots'' (boundedList ballot2Type bound), fld ''count'' IntegerType]"

text \<open>The static bound is an int64 product.\<close>

definition expand2_refine :: "staticArg gomap \<Rightarrow> ty" where
  "expand2_refine static = (case (listBound static ''claims'', literalBound static ''votes'') of
     (Some m, Some n) \<Rightarrow> expand2_result (Some (wrap64 (m * n)))
   | _ \<Rightarrow> expand2_result None)"

definition ballot2 :: "val \<Rightarrow> int \<Rightarrow> val" where
  "ballot2 c voter = VObj [(''id'', VStr (stringField c [''id''] @ ''-v'' @ itoa voter)), (''claim_id'', VStr (stringField c [''id''])),
     (''voter'', VInt voter), (''text'', VStr (stringField c [''text''])), (''quote'', VStr (stringField c [''quote''])),
     (''source_url'', VStr (stringField c [''source_url''])), (''source_quality'', VStr (stringField c [''source_quality''])),
     (''publish_date'', VStr (stringField c [''publish_date'']))]"

definition ballots2_of :: "val list \<Rightarrow> int \<Rightarrow> val list" where
  "ballots2_of claims votes = concat (map (\<lambda>c. map (ballot2 c) [1..votes]) claims)"

definition expand2_body :: "val gomap \<Rightarrow> outcome" where
  "expand2_body args = (let ballots = ballots2_of (list_of (arg_val args ''claims'')) (int_of (arg_val args ''votes'')) in
     Returned (VObj [(''ballots'', VList ballots), (''count'', VInt (int (length ballots)))]))"

definition expandBallotsV2 :: func where
  "expandBallotsV2 = \<lparr>FName = ''expand_ballots'', Version = 2, Params = expand2_params, Result = expand2_result None,
     Refine = Some expand2_refine, Call = checked expand2_params expand2_body\<rparr>"

lemma length_ballots2: "length (ballots2_of claims votes) = length claims * nat votes"
  by (induction claims) (simp_all add: ballots2_of_def)

lemma expand2_result_conforms:
  assumes "\<forall>h. bound = Some h \<longrightarrow> int (length claims * nat votes) \<le> h"
  shows "conforms (Some (expand2_result bound)) (VObj [(''ballots'', VList (ballots2_of claims votes)), (''count'', VInt n)])"
proof -
  have "conforms (Some ballot2Type) (ballot2 c voter)" for c voter
    unfolding ballot2Type_def ballot2_def by (rule conforms_fields) (auto simp: conforms_plain)
  then have "\<forall>b \<in> set (ballots2_of claims votes). conforms (Some ballot2Type) b" by (auto simp: ballots2_of_def)
  then show ?thesis
    unfolding expand2_result_def boundedList_def
    by (intro conforms_fields) (use assms in \<open>auto simp: conforms_plain conforms_set_MaxItems length_ballots2\<close>)
qed

interpretation expand_ballots2: reviewed_function expandBallotsV2
  by unfold_locales (auto simp: expandBallotsV2_def checked_Returned expand2_body_def Let_def intro!: expand2_result_conforms)

end
