(* ===== verification/Adversarial.thy ===== *)
theory Adversarial
  imports Research
begin

text \<open>
  \<^verbatim>\<open>tally_adversarial\<close> (research.go): the adversarial votes on each claim, which claims they confirm,
  refute or leave unverified, what a confirmed claim may cite, and the report of a run that confirmed
  nothing.
\<close>

section \<open>The type of a call\<close>

definition adversarial_params :: "param list" where
  "adversarial_params = [
     \<lparr>PName = ''claims'', PType = ArrayType (Some (openObject [fld ''id'' StringType, fld ''text'' StringType, fld ''quote'' StringType,
        fld ''importance'' StringType, fld ''source_url'' StringType, fld ''source_quality'' StringType, optfld ''publish_date'' StringType])),
        Min = 0, Max = 0\<rparr>,
     \<lparr>PName = ''votes'', PType = ArrayType (Some (openObject [
        fld ''item'' (openObject [fld ''claim_id'' StringType, optfld ''voter'' IntegerType]),
        fld ''output'' (openObject [fld ''sources'' (ArrayType (Some (openObject [fld ''url'' StringType]))),
          fld ''result'' (openObject [fld ''refuted'' BooleanType, fld ''evidence'' StringType,
            fld ''evidence_urls'' (ArrayType (Some StringType)), fld ''confidence'' StringType, optfld ''counter_source'' StringType])])])),
        Min = 0, Max = 0\<rparr>,
     \<lparr>PName = ''votes_per_claim'', PType = IntegerType, Min = 1, Max = 7\<rparr>,
     \<lparr>PName = ''refutations_required'', PType = IntegerType, Min = 1, Max = 7\<rparr>,
     \<lparr>PName = ''min_valid_votes'', PType = IntegerType, Min = 1, Max = 7\<rparr>,
     \<lparr>PName = ''sources'', PType = openObject [fld ''count'' IntegerType, fld ''candidates'' IntegerType, fld ''duplicates'' IntegerType,
        fld ''budget_dropped'' IntegerType], Min = 0, Max = 0\<rparr>,
     \<lparr>PName = ''ranked'', PType = openObject [fld ''extracted'' IntegerType, fld ''unfetched'' IntegerType, fld ''sources_read'' IntegerType,
        fld ''extraction_failed'' IntegerType], Min = 0, Max = 0\<rparr>]"

definition confidences :: "string list" where "confidences = [''high'', ''medium'', ''low'']"
definition run_outcomes :: "string list" where
  "run_outcomes = [''confirmed'', ''all_refuted'', ''verifiers_failed'', ''refuted_and_unverified'', ''no_claims'']"

definition confirmedType :: ty where
  "confirmedType = ObjectType [fld ''id'' StringType, fld ''text'' StringType, fld ''quote'' StringType, fld ''source_url'' StringType,
     fld ''source_quality'' StringType, fld ''publish_date'' StringType, fld ''importance'' StringType, fld ''vote'' StringType,
     fld ''confidence'' (enumType confidences), fld ''evidence'' StringType, fld ''verifier_confidence'' StringType,
     fld ''sources'' (ArrayType (Some StringType))]"

definition refutedType :: ty where
  "refutedType = ObjectType [fld ''id'' StringType, fld ''text'' StringType, fld ''source_url'' StringType, fld ''vote'' StringType,
     fld ''evidence'' StringType, fld ''counter_source'' StringType]"

definition unverifiedType :: ty where
  "unverifiedType = ObjectType [fld ''id'' StringType, fld ''text'' StringType, fld ''source_url'' StringType, fld ''valid'' IntegerType,
     fld ''refuted'' IntegerType, fld ''errored'' IntegerType, fld ''invalid'' IntegerType, fld ''missing'' IntegerType]"

definition statNames :: "string list" where
  "statNames = [''sources'', ''candidates'', ''duplicates'', ''budget_dropped'', ''sources_read'', ''extraction_failed'', ''claims_extracted'',
     ''claims_unfetched'', ''claims_verified'', ''confirmed'', ''refuted'', ''unverified'', ''ballots'', ''valid_votes'', ''invalid_votes'',
     ''missing_votes'']"

definition statsType :: ty where
  "statsType = ObjectType (map (\<lambda>n. fld n IntegerType) statNames)"

definition inconclusiveType :: ty where
  "inconclusiveType = ObjectType [fld ''title'' StringType, fld ''summary'' StringType, fld ''body_markdown'' StringType,
     fld ''citations'' (ArrayType (Some (ObjectType [fld ''marker'' StringType, fld ''url'' StringType])))]"

definition adversarial_result :: "int option \<Rightarrow> ty" where
  "adversarial_result bound = ObjectType [fld ''confirmed'' (boundedList confirmedType bound), fld ''refuted'' (boundedList refutedType bound),
     fld ''unverified'' (boundedList unverifiedType bound), fld ''confirmed_count'' IntegerType, fld ''refuted_count'' IntegerType,
     fld ''unverified_count'' IntegerType, fld ''outcome'' (enumType run_outcomes), fld ''summary'' StringType,
     fld ''inconclusive_report'' inconclusiveType, fld ''stats'' statsType, fld ''notes'' (ArrayType (Some StringType))]"

section \<open>Reading the votes\<close>

record ballotVote =
  bv_voter :: int
  bv_valid :: bool
  bv_refuted :: bool
  bv_confidence :: string
  bv_evidence :: string
  bv_urls :: "string list"
  bv_fetched :: "string gomap"
  bv_counter :: string

fun bool_val :: "val \<Rightarrow> bool" where
  "bool_val (VBool b) = b"
| "bool_val _ = False"

definition named_url :: "(string \<Rightarrow> string) \<Rightarrow> url_parser \<Rightarrow> string gomap \<Rightarrow> val \<Rightarrow> string gomap \<Rightarrow> string gomap" where
  "named_url lower parse_url fetched e seen = (case sourceKey lower parse_url (str_of e) of
     None \<Rightarrow> seen
   | Some key \<Rightarrow> (case map_of fetched key of
         None \<Rightarrow> seen
       | Some recorded \<Rightarrow> if hasKey seen key then seen else put key recorded seen))"

text \<open>The evidence URLs that were fetched, by key, in the order they are named, as recorded.\<close>

definition evidence_urls :: "(string \<Rightarrow> string) \<Rightarrow> url_parser \<Rightarrow> val \<Rightarrow> string gomap" where
  "evidence_urls lower parse_url output = fold (named_url lower parse_url (fetchedKeys lower parse_url output))
     (listField output [''result'', ''evidence_urls'']) []"

definition read_vote :: "(string \<Rightarrow> string) \<Rightarrow> url_parser \<Rightarrow> nat \<Rightarrow> val \<Rightarrow> ballotVote" where
  "read_vote lower parse_url n v = (let output = walkValue v [''output'']; voter = intField v [''item'', ''voter''];
       urls = map snd (evidence_urls lower parse_url output) in
     \<lparr>bv_voter = (if voter = 0 then int n + 1 else voter), bv_valid = (urls \<noteq> []), bv_refuted = bool_val (walkValue output [''result'', ''refuted'']),
      bv_confidence = stringField output [''result'', ''confidence''], bv_evidence = stringField output [''result'', ''evidence''],
      bv_urls = urls, bv_fetched = fetchedKeys lower parse_url output, bv_counter = stringField output [''result'', ''counter_source'']\<rparr>)"

definition claim_of_vote :: "val \<Rightarrow> string" where
  "claim_of_vote v = stringField v [''item'', ''claim_id'']"

definition uncounted_note :: "string \<Rightarrow> ballotVote \<Rightarrow> string list" where
  "uncounted_note i b = (if bv_valid b then [] else [i @ '' voter '' @ itoa (bv_voter b) @
     '': named no evidence URL its verifier fetched; its vote was not counted''])"

fun read_votes :: "(string \<Rightarrow> string) \<Rightarrow> url_parser \<Rightarrow> int \<Rightarrow> ballotVote list gomap \<Rightarrow> string list \<Rightarrow> val list \<Rightarrow> errmsg + ballotVote list gomap \<times> string list" where
  "read_votes lower parse_url perClaim m notes [] = Inr (m, notes)"
| "read_votes lower parse_url perClaim m notes (v # vs) = (let i = claim_of_vote v in case map_of m i of
     None \<Rightarrow> Inl (Errf ''a vote names claim %q, which is not in claims'' [S i])
   | Some bs \<Rightarrow>
       if perClaim \<le> int (length bs) then Inl (Errf ''claim %s has more than votes_per_claim %d votes'' [S i, I perClaim])
       else let b = read_vote lower parse_url (length bs) v in
         read_votes lower parse_url perClaim (put i (bs @ [b]) m)
           (notes @ uncounted_note i b) vs)"

definition claim_key :: "val \<Rightarrow> string" where
  "claim_key c = stringField c [''id'']"

definition no_votes :: "val list \<Rightarrow> ballotVote list gomap" where
  "no_votes claims = fold (\<lambda>c. put (claim_key c) []) claims []"

section \<open>Judging a claim\<close>

definition valid_votes :: "ballotVote list \<Rightarrow> ballotVote list" where
  "valid_votes bs = filter bv_valid bs"
definition refuting :: "ballotVote list \<Rightarrow> ballotVote list" where
  "refuting bs = filter bv_refuted (valid_votes bs)"
definition surviving :: "ballotVote list \<Rightarrow> ballotVote list" where
  "surviving bs = filter (\<lambda>b. \<not> bv_refuted b) (valid_votes bs)"

definition num :: "'a list \<Rightarrow> int" where "num xs = int (length xs)"

definition vote_text :: "ballotVote list \<Rightarrow> string" where
  "vote_text bs = itoa (num (valid_votes bs) - num (refuting bs)) @ ''-'' @ itoa (num (refuting bs))"

definition counter_source :: "(string \<Rightarrow> string) \<Rightarrow> url_parser \<Rightarrow> string \<Rightarrow> ballotVote \<Rightarrow> string \<times> string list" where
  "counter_source lower parse_url i b = (if bv_counter b = [] then ([], [])
     else (case (case sourceKey lower parse_url (bv_counter b) of None \<Rightarrow> None | Some key \<Rightarrow> map_of (bv_fetched b) key) of
         Some recorded \<Rightarrow> (recorded, [])
       | None \<Rightarrow> ([], [i @ '' voter '' @ itoa (bv_voter b) @ '': its counter source was not a URL it fetched; left out''])))"

definition refuted_claim :: "(string \<Rightarrow> string) \<Rightarrow> url_parser \<Rightarrow> val \<Rightarrow> ballotVote list \<Rightarrow> val \<times> string list" where
  "refuted_claim lower parse_url c bs = (let
       (evidence, counter, notes) = (case find (\<lambda>b. bv_valid b \<and> bv_refuted b) bs of
           None \<Rightarrow> ([], [], [])
         | Some b \<Rightarrow> (bv_evidence b, counter_source lower parse_url (claim_key c) b)) in
     (VObj [(''id'', VStr (claim_key c)), (''text'', VStr (stringField c [''text''])), (''source_url'', VStr (stringField c [''source_url''])),
       (''vote'', VStr (vote_text bs)), (''evidence'', VStr evidence), (''counter_source'', VStr counter)], notes))"

definition better :: "ballotVote \<Rightarrow> ballotVote \<Rightarrow> ballotVote" where
  "better b best = (if position confidenceRank (bv_confidence b) < position confidenceRank (bv_confidence best) then b else best)"

definition confidence_level :: "int \<Rightarrow> string \<Rightarrow> ballotVote list \<Rightarrow> ballotVote \<Rightarrow> nat" where
  "confidence_level perClaim quality bs best = (let
      l0 = (if refuting bs = [] \<and> num (valid_votes bs) = perClaim then 0 else 1);
      l1 = (if quality = ''primary'' then l0 else if quality = ''secondary'' then max l0 1 else max l0 2)
    in if bv_confidence best \<noteq> ''high'' then min (l1 + 1) 2 else l1)"

definition key_of :: "(string \<Rightarrow> string) \<Rightarrow> url_parser \<Rightarrow> string \<Rightarrow> string" where
  "key_of lower parse_url u = (case sourceKey lower parse_url u of Some k \<Rightarrow> k | None \<Rightarrow> [])"

text \<open>The URLs a confirmed claim cites, by key.\<close>

definition add_citation :: "(string \<Rightarrow> string) \<Rightarrow> url_parser \<Rightarrow> string \<Rightarrow> string gomap \<Rightarrow> string gomap" where
  "add_citation lower parse_url u cited = (let k = key_of lower parse_url u in if hasKey cited k then cited else put k u cited)"

definition citations_of :: "(string \<Rightarrow> string) \<Rightarrow> url_parser \<Rightarrow> string \<Rightarrow> ballotVote list \<Rightarrow> string list" where
  "citations_of lower parse_url own bs = (let
      cited = fold (add_citation lower parse_url) (concat (map bv_urls (surviving bs))) [];
      extra = (case sourceKey lower parse_url own of
          None \<Rightarrow> []
        | Some key \<Rightarrow> if \<not> hasKey cited key \<and> list_ex (\<lambda>b. hasKey (bv_fetched b) key) (surviving bs) then [trimSpace own] else [])
    in map snd cited @ extra)"

text \<open>\<^verbatim>\<open>surviving[0]\<close> panics when no vote survives.\<close>

definition confirmed_claim :: "(string \<Rightarrow> string) \<Rightarrow> url_parser \<Rightarrow> int \<Rightarrow> val \<Rightarrow> ballotVote list \<Rightarrow> val option" where
  "confirmed_claim lower parse_url perClaim c bs = (case surviving bs of
     [] \<Rightarrow> None
   | b # rest \<Rightarrow> let best = fold better rest b; quality = stringField c [''source_quality'']; own = stringField c [''source_url''] in
       Some (VObj [(''id'', VStr (claim_key c)), (''text'', VStr (stringField c [''text''])), (''quote'', VStr (stringField c [''quote''])),
         (''source_url'', VStr own), (''source_quality'', VStr quality), (''publish_date'', VStr (stringField c [''publish_date''])),
         (''importance'', VStr (stringField c [''importance''])), (''vote'', VStr (vote_text bs)),
         (''confidence'', VStr (confidences ! confidence_level perClaim quality bs best)), (''evidence'', VStr (bv_evidence best)),
         (''verifier_confidence'', VStr (bv_confidence best)), (''sources'', VList (map VStr (citations_of lower parse_url own bs)))]))"

definition unverified_claim :: "int \<Rightarrow> val \<Rightarrow> ballotVote list \<Rightarrow> val" where
  "unverified_claim perClaim c bs = VObj [(''id'', VStr (claim_key c)), (''text'', VStr (stringField c [''text''])),
     (''source_url'', VStr (stringField c [''source_url''])), (''valid'', VInt (num (valid_votes bs))), (''refuted'', VInt (num (refuting bs))),
     (''errored'', VInt (perClaim - num (valid_votes bs))), (''invalid'', VInt (num bs - num (valid_votes bs))),
     (''missing'', VInt (perClaim - num bs))]"

record adversarial =
  ad_confirmed :: "val list"
  ad_refuted :: "val list"
  ad_unverified :: "val list"
  ad_notes :: "string list"
  ad_valid :: int
  ad_invalid :: int
  ad_missing :: int

fun judge_claims :: "(string \<Rightarrow> string) \<Rightarrow> url_parser \<Rightarrow> int \<times> int \<times> int \<Rightarrow> ballotVote list gomap \<Rightarrow> adversarial \<Rightarrow> val list \<Rightarrow> adversarial option" where
  "judge_claims lower parse_url rules m a [] = Some a"
| "judge_claims lower parse_url rules m a (c # cs) = (case rules of (perClaim, needed, minValid) \<Rightarrow> let
      bs = (case map_of m (claim_key c) of Some bs \<Rightarrow> bs | None \<Rightarrow> []);
      a1 = a\<lparr>ad_valid := ad_valid a + num (valid_votes bs), ad_invalid := ad_invalid a + (num bs - num (valid_votes bs)),
         ad_missing := ad_missing a + (perClaim - num bs)\<rparr>
    in if needed \<le> num (refuting bs) then
         (let (x, notes) = refuted_claim lower parse_url c bs in
            judge_claims lower parse_url rules m (a1\<lparr>ad_refuted := ad_refuted a1 @ [x], ad_notes := ad_notes a1 @ notes\<rparr>) cs)
       else if minValid \<le> num (valid_votes bs) then
         (case confirmed_claim lower parse_url perClaim c bs of
            None \<Rightarrow> None
          | Some x \<Rightarrow> judge_claims lower parse_url rules m (a1\<lparr>ad_confirmed := ad_confirmed a1 @ [x]\<rparr>) cs)
       else judge_claims lower parse_url rules m (a1\<lparr>ad_unverified := ad_unverified a1 @ [unverified_claim perClaim c bs]\<rparr>) cs)"

section \<open>The outcome and its report\<close>

definition countWere :: "int \<Rightarrow> string" where
  "countWere n = (if n = 1 then ''1 was'' else itoa n @ '' were'')"

definition run_outcome :: "nat \<Rightarrow> int \<Rightarrow> int \<Rightarrow> int \<Rightarrow> string" where
  "run_outcome claims nConfirmed nRefuted nUnverified = (
     if claims = 0 then ''no_claims'' else if 0 < nConfirmed then ''confirmed''
     else if nUnverified = 0 then ''all_refuted'' else if nRefuted = 0 then ''verifiers_failed'' else ''refuted_and_unverified'')"

definition run_summary :: "nat \<Rightarrow> int \<Rightarrow> int \<Rightarrow> int \<Rightarrow> val \<Rightarrow> val \<Rightarrow> string" where
  "run_summary claims nConfirmed nRefuted nUnverified sources ranked = (
     if claims = 0 then ''No claims were extracted: '' @ count_text (intField sources [''count'']) ''source was'' ''sources were'' @
       '' selected and '' @ countWere (intField ranked [''sources_read'']) @ '' read, with no checkable claim ('' @
       count_text (intField ranked [''extraction_failed'']) ''extraction failed'' ''extractions failed'' @ ''; '' @
       count_text (intField ranked [''unfetched'']) ''claim named a source its extractor did not fetch''
         ''claims named a source their extractor did not fetch'' @ ''). '' @
       count_text (intField sources [''duplicates'']) ''duplicate URL'' ''duplicate URLs'' @ '' and '' @
       count_text (intField sources [''budget_dropped'']) ''result over the source budget was'' ''results over the source budget were'' @ '' dropped.''
     else if 0 < nConfirmed then itoa nConfirmed @ '' of '' @ itoa (int claims) @ '' claims survived adversarial verification ('' @
       itoa nRefuted @ '' refuted, '' @ itoa nUnverified @ '' unverified).''
     else if nUnverified = 0 then ''All '' @ count_text nRefuted ''claim was'' ''claims were'' @
       '' refuted by adversarial verification. The research is inconclusive: the sources may be weak or the claims overstated.''
     else if nRefuted = 0 then ''Could not verify any claim: the verifiers of all '' @ count_text nUnverified ''claim'' ''claims'' @
       '' failed or gave no evidence they fetched (likely rate limits or provider errors). This is an infrastructure failure, not a research finding; start the run again or check the claims yourself.''
     else count_text nRefuted ''claim was'' ''claims were'' @ '' refuted by adversarial verification and '' @ itoa nUnverified @
       '' could not be verified ('' @ (if nUnverified = 1 then ''its verifiers failed'' else ''their verifiers failed'') @
       ''). No claim survived; the research is inconclusive.'')"

text \<open>
  \<^verbatim>\<open>webLine\<close>: \<^verbatim>\<open>strings.Map\<close> drops a rune the function refuses and writes an invalid byte as U+FFFD;
  then whitespace is collapsed.
\<close>

definition web_rune :: "nat \<times> string \<Rightarrow> string" where
  "web_rune p = (case p of (r, b) \<Rightarrow>
     if is_control_rune r \<and> \<not> is_space_rune r \<or> is_format_rune r then []
     else if r = 0xFFFD \<and> length b = 1 then [CHR 0xEF, CHR 0xBF, CHR 0xBD] else b)"

lemma web_rune_code [code]:
  "web_rune p = (case p of (r, b) \<Rightarrow> if r < 128 then (if is_control_rune r \<and> \<not> is_space_rune r then [] else b) else
     if is_control_rune r \<and> \<not> is_space_rune r \<or> is_format_rune r then []
     else if r = 0xFFFD \<and> length b = 1 then [CHR 0xEF, CHR 0xBF, CHR 0xBD] else b)"
  by (cases p) (auto simp: web_rune_def is_format_rune_code)

definition webLine :: "string \<Rightarrow> string" where
  "webLine s = join '' '' (splitFields (concat (map web_rune (runes s))))"

definition line_break :: string where "line_break = [CHR 0x0A]"

definition inconclusiveReport :: "string \<Rightarrow> val list \<Rightarrow> val list \<Rightarrow> int \<Rightarrow> val" where
  "inconclusiveReport summary refuted unverified perClaim = VObj [(''title'', VStr ''Research inconclusive''), (''summary'', VStr summary),
     (''body_markdown'', VStr (''## What happened'' @ line_break @ line_break @ summary @ line_break @
        (if refuted = [] then [] else line_break @ ''## Refuted claims'' @ line_break @ line_break @
           concat (map (\<lambda>x. ''- '' @ webLine (stringField x [''text'']) @ '' (vote '' @ stringField x [''vote''] @ '')'' @ line_break) refuted)) @
        (if unverified = [] then [] else line_break @ ''## Unverified claims'' @ line_break @ line_break @
           concat (map (\<lambda>x. ''- '' @ webLine (stringField x [''text'']) @ '' ('' @ itoa (intField x [''errored'']) @ '' of '' @ itoa perClaim @
             '' votes not counted)'' @ line_break) unverified)))),
     (''citations'', VList [])]"

definition run_stats :: "nat \<Rightarrow> int \<Rightarrow> adversarial \<Rightarrow> val \<Rightarrow> val \<Rightarrow> int list" where
  "run_stats claims perClaim a sources ranked = [intField sources [''count''], intField sources [''candidates''], intField sources [''duplicates''],
     intField sources [''budget_dropped''], intField ranked [''sources_read''], intField ranked [''extraction_failed''],
     intField ranked [''extracted''], intField ranked [''unfetched''], int claims, num (ad_confirmed a), num (ad_refuted a),
     num (ad_unverified a), int claims * perClaim, ad_valid a, ad_invalid a, ad_missing a]"

definition adversarial_value :: "val list \<Rightarrow> int \<Rightarrow> adversarial \<Rightarrow> val \<Rightarrow> val \<Rightarrow> val" where
  "adversarial_value claims perClaim a sources ranked = (let
      nc = num (ad_confirmed a); nr = num (ad_refuted a); nu = num (ad_unverified a);
      summary = run_summary (length claims) nc nr nu sources ranked in
     VObj [(''confirmed'', VList (ad_confirmed a)), (''refuted'', VList (ad_refuted a)), (''unverified'', VList (ad_unverified a)),
       (''confirmed_count'', VInt nc), (''refuted_count'', VInt nr), (''unverified_count'', VInt nu),
       (''outcome'', VStr (run_outcome (length claims) nc nr nu)), (''summary'', VStr summary),
       (''inconclusive_report'', inconclusiveReport summary (ad_refuted a) (ad_unverified a) perClaim),
       (''stats'', VObj (map2 (\<lambda>n x. (n, VInt x)) statNames (run_stats (length claims) perClaim a sources ranked))),
       (''notes'', VList (map VStr (ad_notes a)))])"

definition tallyClaims :: "(string \<Rightarrow> string) \<Rightarrow> url_parser \<Rightarrow> val gomap \<Rightarrow> outcome" where
  "tallyClaims lower parse_url args = (let perClaim = int_of (arg_val args ''votes_per_claim''); needed = int_of (arg_val args ''refutations_required'');
      minValid = int_of (arg_val args ''min_valid_votes''); claims = list_of (arg_val args ''claims'') in
     case read_votes lower parse_url perClaim (no_votes claims) [] (list_of (arg_val args ''votes'')) of
       Inl e \<Rightarrow> Refused e
     | Inr (m, notes) \<Rightarrow> (case judge_claims lower parse_url (perClaim, needed, minValid) m
           \<lparr>ad_confirmed = [], ad_refuted = [], ad_unverified = [], ad_notes = notes, ad_valid = 0, ad_invalid = 0, ad_missing = 0\<rparr> claims of
         None \<Rightarrow> Panicked ''runtime error: index out of range [0] with length 0''
       | Some a \<Rightarrow> Returned (adversarial_value claims perClaim a (arg_val args ''sources'') (arg_val args ''ranked''))))"

definition adversarial_refine :: "staticArg gomap \<Rightarrow> ty" where
  "adversarial_refine static = adversarial_result (listBound static ''claims'')"

definition tallyAdversarial :: "(string \<Rightarrow> string) \<Rightarrow> url_parser \<Rightarrow> func" where
  "tallyAdversarial lower parse_url = \<lparr>FName = ''tally_adversarial'', Version = 1, Params = adversarial_params,
     Result = adversarial_result None, Refine = Some adversarial_refine, Call = checked adversarial_params (tallyClaims lower parse_url)\<rparr>"

section \<open>What the votes of a claim are\<close>

text \<open>The reference: the votes that name the claim, read in order.\<close>

definition votes_on :: "(string \<Rightarrow> string) \<Rightarrow> url_parser \<Rightarrow> val list \<Rightarrow> string \<Rightarrow> ballotVote list" where
  "votes_on lower parse_url votes i = map (\<lambda>(n, v). read_vote lower parse_url n v) (List.enumerate 0 (filter (\<lambda>v. claim_of_vote v = i) votes))"

lemma votes_on_snoc: "votes_on lower parse_url (vs @ [v]) i = votes_on lower parse_url vs i @
    (if claim_of_vote v = i then [read_vote lower parse_url (length (votes_on lower parse_url vs i)) v] else [])"
  by (simp add: votes_on_def enumerate_append_eq)

lemma read_votes_votes_on:
  assumes "read_votes lower parse_url perClaim m nts vs = Inr (m', nts')"
    and "\<And>i bs. map_of m i = Some bs \<Longrightarrow> bs = votes_on lower parse_url us i"
  shows "map_of m' i = (case map_of m i of None \<Rightarrow> None | Some _ \<Rightarrow> Some (votes_on lower parse_url (us @ vs) i))"
  using assms
proof (induction lower parse_url perClaim m nts vs arbitrary: us rule: read_votes.induct)
  case (1 lower parse_url perClaim m nts)
  then show ?case by (auto split: option.splits)
next
  case (2 lower parse_url perClaim m nts v vs)
  define i0 where "i0 = claim_of_vote v"
  obtain bs where bs: "map_of m i0 = Some bs" using "2.prems"(1) by (auto simp: i0_def Let_def split: option.splits)
  have n: "\<not> perClaim \<le> int (length bs)" using "2.prems"(1) bs by (auto simp: i0_def Let_def split: if_splits)
  define b where "b = read_vote lower parse_url (length bs) v"
  define ns where "ns = nts @ uncounted_note i0 b"
  have r: "read_votes lower parse_url perClaim (put i0 (bs @ [b]) m) ns vs = Inr (m', nts')"
    using "2.prems"(1) bs n by (simp add: i0_def b_def ns_def Let_def)
  have "bs = votes_on lower parse_url us i0" by (rule "2.prems"(2) [OF bs])
  then have nxt: "bs' = votes_on lower parse_url (us @ [v]) j" if "map_of (put i0 (bs @ [b]) m) j = Some bs'" for j bs'
    using that "2.prems"(2) [of j bs'] by (auto simp: put_lookup votes_on_snoc i0_def b_def split: if_splits)
  have "map_of m' i = (case map_of (put i0 (bs @ [b]) m) i of None \<Rightarrow> None | Some _ \<Rightarrow> Some (votes_on lower parse_url (us @ v # vs) i))"
    using "2.IH" [OF i0_def bs n b_def, of "us @ [v]"] r nxt unfolding ns_def append_assoc append_Cons append_Nil by blast
  then show ?case using bs by (cases "i = i0") (auto simp: put_lookup)
qed

lemma no_votes_lookup: "map_of (no_votes claims) i = (if i \<in> claim_key ` set claims then Some [] else None)"
proof -
  have "map_of (fold (\<lambda>c. put (claim_key c) ([] :: ballotVote list)) claims m) i = (if i \<in> claim_key ` set claims then Some [] else map_of m i)" for m
    by (induction claims arbitrary: m) (auto simp: put_lookup)
  from this [of "[]"] show ?thesis by (simp add: no_votes_def)
qed

lemma read_all_votes:
  assumes "read_votes lower parse_url perClaim (no_votes claims) [] votes = Inr (m, notes)" and "c \<in> set claims"
  shows "map_of m (claim_key c) = Some (votes_on lower parse_url votes (claim_key c))"
proof -
  have "bs = votes_on lower parse_url [] i" if "map_of (no_votes claims) i = Some bs" for i bs
    using that by (simp add: no_votes_lookup votes_on_def split: if_splits)
  from read_votes_votes_on [OF assms(1) this, of "claim_key c"] show ?thesis using assms(2) by (simp add: no_votes_lookup)
qed

section \<open>What is confirmed, refuted and cited\<close>

lemma valid_split: "num (valid_votes bs) = num (refuting bs) + num (surviving bs)"
proof -
  have "length xs = length (filter bv_refuted xs) + length (filter (\<lambda>b. \<not> bv_refuted b) xs)" for xs
    by (induction xs) simp_all
  from this [of "valid_votes bs"] show ?thesis by (simp add: num_def refuting_def surviving_def)
qed

definition refutes :: "int \<Rightarrow> ballotVote list \<Rightarrow> bool" where
  "refutes needed bs \<longleftrightarrow> needed \<le> num (refuting bs)"

definition confirms :: "int \<Rightarrow> int \<Rightarrow> ballotVote list \<Rightarrow> bool" where
  "confirms needed minValid bs \<longleftrightarrow> \<not> refutes needed bs \<and> minValid \<le> num (valid_votes bs)"

lemma judge_claims_spec:
  assumes "\<forall>c \<in> set cs. map_of m (claim_key c) = Some (bs c)"
  shows "judge_claims lower parse_url (perClaim, needed, minValid) m a cs =
    (if \<exists>c \<in> set cs. confirms needed minValid (bs c) \<and> surviving (bs c) = [] then None else Some \<lparr>
       ad_confirmed = ad_confirmed a @ map (\<lambda>c. the (confirmed_claim lower parse_url perClaim c (bs c))) (filter (\<lambda>c. confirms needed minValid (bs c)) cs),
       ad_refuted = ad_refuted a @ map (\<lambda>c. fst (refuted_claim lower parse_url c (bs c))) (filter (\<lambda>c. refutes needed (bs c)) cs),
       ad_unverified = ad_unverified a @ map (\<lambda>c. unverified_claim perClaim c (bs c))
          (filter (\<lambda>c. \<not> refutes needed (bs c) \<and> \<not> confirms needed minValid (bs c)) cs),
       ad_notes = ad_notes a @ concat (map (\<lambda>c. snd (refuted_claim lower parse_url c (bs c))) (filter (\<lambda>c. refutes needed (bs c)) cs)),
       ad_valid = ad_valid a + (\<Sum>c \<leftarrow> cs. num (valid_votes (bs c))),
       ad_invalid = ad_invalid a + (\<Sum>c \<leftarrow> cs. num (bs c) - num (valid_votes (bs c))),
       ad_missing = ad_missing a + (\<Sum>c \<leftarrow> cs. perClaim - num (bs c))\<rparr>)"
  using assms
proof (induction cs arbitrary: a)
  case (Cons c cs)
  have m: "map_of m (claim_key c) = Some (bs c)" and IH: "\<forall>c \<in> set cs. map_of m (claim_key c) = Some (bs c)"
    using Cons.prems by simp_all
  have none: "confirmed_claim lower parse_url perClaim c (bs c) = None \<longleftrightarrow> surviving (bs c) = []"
    by (simp add: confirmed_claim_def Let_def split: list.splits)
  obtain x ns where x: "refuted_claim lower parse_url c (bs c) = (x, ns)" by fastforce
  show ?case
  proof (cases "refutes needed (bs c)")
    case True
    then have "needed \<le> num (refuting (bs c))" "\<not> confirms needed minValid (bs c)" by (simp_all add: refutes_def confirms_def)
    then show ?thesis using True by (simp add: m x Let_def Cons.IH [OF IH])
  next
    case False
    then have r: "\<not> needed \<le> num (refuting (bs c))" by (simp add: refutes_def)
    show ?thesis
    proof (cases "minValid \<le> num (valid_votes (bs c))")
      case True
      then have cf: "confirms needed minValid (bs c)" using False by (simp add: confirms_def)
      show ?thesis
      proof (cases "confirmed_claim lower parse_url perClaim c (bs c)")
        case None
        then show ?thesis using cf none r True by (simp add: m Let_def)
      next
        case (Some y)
        then show ?thesis using cf none r True False by (simp add: m Let_def Cons.IH [OF IH])
      qed
    next
      case no: False
      then have "\<not> confirms needed minValid (bs c)" by (simp add: confirms_def)
      then show ?thesis using r no False by (simp add: m Let_def Cons.IH [OF IH])
    qed
  qed
qed simp

text \<open>A majority rule that needs no more refutations than valid votes never finds the surviving list empty.\<close>

lemma survivors: "needed \<le> minValid \<Longrightarrow> confirms needed minValid bs \<Longrightarrow> surviving bs \<noteq> []"
  using valid_split [of bs] by (auto simp: confirms_def refutes_def num_def)

lemma evidence_recorded:
  "map_of (evidence_urls lower parse_url output) k = Some u \<Longrightarrow> map_of (fetchedKeys lower parse_url output) k = Some u"
proof -
  define f where "f = named_url lower parse_url (fetchedKeys lower parse_url output)"
  have "map_of (fold f es m) k = Some u \<Longrightarrow> map_of m k = Some u \<or> map_of (fetchedKeys lower parse_url output) k = Some u" for es m
  proof (induction es arbitrary: m)
    case (Cons e es)
    from Cons.IH [of "f e m"] Cons.prems show ?case
      by (auto simp: f_def named_url_def put_lookup split: option.splits if_splits)
  qed simp
  from this [of _ "[]"] show "map_of (evidence_urls lower parse_url output) k = Some u \<Longrightarrow> ?thesis"
    by (simp add: evidence_urls_def f_def)
qed

lemma evidence_keys_distinct: "distinct (map fst (evidence_urls lower parse_url output))"
  unfolding evidence_urls_def
  by (rule fold_invariant [where Q = "\<lambda>_. True"])
    (auto simp: named_url_def put_keys hasKey_iff split: option.splits)

definition fetched_by :: "val \<Rightarrow> val list" where
  "fetched_by v = listField (walkValue v [''output'']) [''sources'']"

lemma vote_urls_fetched:
  assumes "u \<in> set (bv_urls (read_vote lower parse_url n v))"
  shows "\<exists>s \<in> set (fetched_by v). u = trimSpace (stringField s [''url''])"
proof -
  define w where "w = walkValue v [''output'']"
  obtain k where "(k, u) \<in> set (evidence_urls lower parse_url w)"
    using assms by (auto simp: read_vote_def Let_def w_def)
  then have "map_of (evidence_urls lower parse_url w) k = Some u" using evidence_keys_distinct by simp
  from fetchedKeys_lookup [OF evidence_recorded [OF this]] show ?thesis by (auto simp: fetched_by_def w_def)
qed

lemma add_citation_values: "u \<in> snd ` set (fold (add_citation lower parse_url) us m) \<Longrightarrow> u \<in> snd ` set m \<or> u \<in> set us"
proof (induction us arbitrary: m)
  case (Cons x us)
  then show ?case by (fastforce simp: add_citation_def Let_def dest: put_mem split: if_splits)
qed simp

lemma votes_onD: "b \<in> set (votes_on lower parse_url votes i) \<Longrightarrow>
  \<exists>n v. v \<in> set votes \<and> claim_of_vote v = i \<and> b = read_vote lower parse_url n v"
  using set_zip_rightD by (fastforce simp: votes_on_def enumerate_eq_zip)

lemma citations_cases:
  assumes "u \<in> set (citations_of lower parse_url own bs)"
  obtains (evidence) b where "b \<in> set (surviving bs)" "u \<in> set (bv_urls b)"
    | (own) b key where "b \<in> set (surviving bs)" "u = trimSpace own" "sourceKey lower parse_url own = Some key" "hasKey (bv_fetched b) key"
proof -
  define cited where "cited = fold (add_citation lower parse_url) (concat (map bv_urls (surviving bs))) []"
  have c: "citations_of lower parse_url own bs = map snd cited @ (case sourceKey lower parse_url own of None \<Rightarrow> []
    | Some key \<Rightarrow> if \<not> hasKey cited key \<and> list_ex (\<lambda>b. hasKey (bv_fetched b) key) (surviving bs) then [trimSpace own] else [])"
    by (simp only: citations_of_def cited_def Let_def)
  show ?thesis
  proof (cases "u \<in> snd ` set cited")
    case True
    then have "u \<in> set (concat (map bv_urls (surviving bs)))"
      using add_citation_values [of u lower parse_url "concat (map bv_urls (surviving bs))" "[]"] by (simp add: cited_def)
    then show ?thesis using evidence by auto
  next
    case False
    then have n: "u \<notin> set (map snd cited)" by simp
    show ?thesis
    proof (cases "sourceKey lower parse_url own")
      case None
      then show ?thesis using assms n unfolding c by simp
    next
      case (Some key)
      then have "u = trimSpace own" "\<exists>b \<in> set (surviving bs). hasKey (bv_fetched b) key"
        using assms n unfolding c by (simp_all add: list_ex_iff split: if_splits)
      then show ?thesis using own Some by blast
    qed
  qed
qed

lemma refuted_flag: "bv_refuted (read_vote lower parse_url n v) = bool_val (walkValue v [''output'', ''result'', ''refuted''])"
  by (simp add: read_vote_def Let_def walkValue_Cons del: walkValue.simps(2))

text \<open>A confirmed claim cites only what a surviving verifier of it fetched.\<close>

lemma citation_fetched:
  assumes "u \<in> set (citations_of lower parse_url own (votes_on lower parse_url votes i))"
  shows "\<exists>v \<in> set votes. claim_of_vote v = i \<and> \<not> bool_val (walkValue v [''output'', ''result'', ''refuted'']) \<and>
    (\<exists>s \<in> set (fetched_by v). u = trimSpace (stringField s [''url'']) \<or>
       u = trimSpace own \<and> sourceKey lower parse_url own \<noteq> None \<and> sourceKey lower parse_url (stringField s [''url'']) = sourceKey lower parse_url own)"
proof -
  define bs where "bs = votes_on lower parse_url votes i"
  have surv: "\<exists>n v. v \<in> set votes \<and> claim_of_vote v = i \<and> b = read_vote lower parse_url n v \<and>
      \<not> bool_val (walkValue v [''output'', ''result'', ''refuted''])" if "b \<in> set (surviving bs)" for b
  proof -
    have b: "b \<in> set bs" "\<not> bv_refuted b" using that by (auto simp: surviving_def valid_votes_def)
    obtain n v where "v \<in> set votes" "claim_of_vote v = i" "b = read_vote lower parse_url n v" using votes_onD b(1) unfolding bs_def by blast
    then show ?thesis using b(2) refuted_flag by metis
  qed
  from assms [folded bs_def] show ?thesis
  proof (cases rule: citations_cases)
    case (evidence b)
    then show ?thesis using surv [OF evidence(1)] vote_urls_fetched by blast
  next
    case (own b key)
    obtain n v where v: "v \<in> set votes" "claim_of_vote v = i" "b = read_vote lower parse_url n v"
        "\<not> bool_val (walkValue v [''output'', ''result'', ''refuted''])" using surv [OF own(1)] by blast
    have "bv_fetched b = fetchedKeys lower parse_url (walkValue v [''output''])" by (simp add: v(3) read_vote_def Let_def)
    then obtain s where "s \<in> set (fetched_by v)" "sourceKey lower parse_url (stringField s [''url'']) = Some key"
      using own(4) fetchedKeys_lookup [of lower parse_url _ key] by (fastforce simp: hasKey_def fetched_by_def)
    then show ?thesis using v own(2,3) by auto
  qed
qed

section \<open>Its contract\<close>

lemma level_bound: "confidence_level perClaim q bs best \<le> 2"
  by (simp add: confidence_level_def Let_def)

lemma confidence_in: "confidences ! confidence_level perClaim q bs best \<in> set confidences"
proof -
  have "confidence_level perClaim q bs best < length confidences"
    using level_bound [of perClaim q bs best] by (simp add: confidences_def)
  then show ?thesis by (rule nth_mem)
qed

lemma confirmed_conforms: "confirmed_claim lower parse_url perClaim c bs = Some x \<Longrightarrow> conforms (Some confirmedType) x"
  unfolding confirmedType_def
  by (auto simp: confirmed_claim_def Let_def conforms_plain conforms_enumType confidence_in split: list.splits intro!: conforms_fields)

lemma refuted_conforms: "conforms (Some refutedType) (fst (refuted_claim lower parse_url c bs))"
  unfolding refutedType_def by (auto simp: refuted_claim_def Let_def conforms_plain split: prod.splits intro!: conforms_fields)

lemma unverified_conforms: "conforms (Some unverifiedType) (unverified_claim perClaim c bs)"
  unfolding unverifiedType_def unverified_claim_def by (rule conforms_fields) (auto simp: conforms_plain)

lemma report_conforms: "conforms (Some inconclusiveType) (inconclusiveReport summary refuted unverified perClaim)"
  unfolding inconclusiveType_def inconclusiveReport_def by (rule conforms_fields) (auto simp: conforms_plain)

lemma stats_conforms: "conforms (Some statsType) (VObj (map2 (\<lambda>n x. (n, VInt x)) statNames (run_stats claims perClaim a sources ranked)))"
  unfolding statsType_def by (rule conforms_fields) (simp_all add: statNames_def run_stats_def conforms_plain)

lemma adversarial_conforms:
  assumes "list_all (conforms (Some confirmedType)) (ad_confirmed a)" and "list_all (conforms (Some refutedType)) (ad_refuted a)"
    and "list_all (conforms (Some unverifiedType)) (ad_unverified a)"
    and "\<forall>h. bound = Some h \<longrightarrow> num (ad_confirmed a) \<le> h \<and> num (ad_refuted a) \<le> h \<and> num (ad_unverified a) \<le> h"
  shows "conforms (Some (adversarial_result bound)) (adversarial_value claims perClaim a sources ranked)"
proof -
  have "run_outcome n x y z \<in> set run_outcomes" for n x y z by (simp add: run_outcome_def run_outcomes_def)
  then show ?thesis
    unfolding adversarial_result_def adversarial_value_def Let_def boundedList_def
    by (intro conforms_fields)
      (use assms in \<open>auto simp: conforms_plain conforms_set_MaxItems conforms_enumType report_conforms stats_conforms list_all_iff num_def\<close>)
qed

lemma adversarial_args:
  assumes "checkArgs adversarial_params args = None"
  obtains claims votes perClaim needed minValid where "map_of args ''claims'' = Some (VList claims)" "map_of args ''votes'' = Some (VList votes)"
    "map_of args ''votes_per_claim'' = Some (VInt perClaim)" "map_of args ''refutations_required'' = Some (VInt needed)"
    "map_of args ''min_valid_votes'' = Some (VInt minValid)" "1 \<le> perClaim" "1 \<le> needed" "1 \<le> minValid"
  using assms by (fastforce simp: checkArgs_None adversarial_params_def arg_ok_def conforms_ArrayType conforms_IntegerType)

text \<open>The outcome of a call whose votes can be read, claim by claim.\<close>

lemma tally_outcome:
  assumes "checkArgs adversarial_params args = None"
    and "map_of args ''claims'' = Some (VList claims)" "map_of args ''votes'' = Some (VList votes)"
    and "map_of args ''votes_per_claim'' = Some (VInt perClaim)" "map_of args ''refutations_required'' = Some (VInt needed)"
    and "map_of args ''min_valid_votes'' = Some (VInt minValid)"
    and "\<And>c. bs c = votes_on lower parse_url votes (claim_key c)"
  shows "(\<exists>e. tallyClaims lower parse_url args = Refused e) \<or>
    (if \<exists>c \<in> set claims. confirms needed minValid (bs c) \<and> surviving (bs c) = [] then \<exists>e. tallyClaims lower parse_url args = Panicked e
     else \<exists>a sources ranked. tallyClaims lower parse_url args = Returned (adversarial_value claims perClaim a sources ranked) \<and>
       ad_confirmed a = map (\<lambda>c. the (confirmed_claim lower parse_url perClaim c (bs c))) (filter (\<lambda>c. confirms needed minValid (bs c)) claims) \<and>
       ad_refuted a = map (\<lambda>c. fst (refuted_claim lower parse_url c (bs c))) (filter (\<lambda>c. refutes needed (bs c)) claims) \<and>
       ad_unverified a = map (\<lambda>c. unverified_claim perClaim c (bs c))
         (filter (\<lambda>c. \<not> refutes needed (bs c) \<and> \<not> confirms needed minValid (bs c)) claims))"
proof -
  have v: "list_of (arg_val args ''claims'') = claims" "list_of (arg_val args ''votes'') = votes"
    "int_of (arg_val args ''votes_per_claim'') = perClaim" "int_of (arg_val args ''refutations_required'') = needed"
    "int_of (arg_val args ''min_valid_votes'') = minValid" using assms(2-6) by (simp_all add: arg_val_def)
  show ?thesis
  proof (cases "read_votes lower parse_url perClaim (no_votes claims) [] votes")
    case (Inl e)
    then show ?thesis by (simp add: tallyClaims_def v Let_def)
  next
    case (Inr p)
    obtain m ns where p: "p = (m, ns)" by fastforce
    have "\<forall>c \<in> set claims. map_of m (claim_key c) = Some (bs c)"
      using read_all_votes [OF Inr [unfolded p]] by (simp add: assms(7))
    note spec = judge_claims_spec [OF this, of lower parse_url perClaim needed minValid
        "\<lparr>ad_confirmed = [], ad_refuted = [], ad_unverified = [], ad_notes = ns, ad_valid = 0, ad_invalid = 0, ad_missing = 0\<rparr>"]
    let ?a0 = "\<lparr>ad_confirmed = [], ad_refuted = [], ad_unverified = [], ad_notes = ns, ad_valid = 0, ad_invalid = 0, ad_missing = 0\<rparr>"
    have t: "tallyClaims lower parse_url args = (case judge_claims lower parse_url (perClaim, needed, minValid) m ?a0 claims of
         None \<Rightarrow> Panicked ''runtime error: index out of range [0] with length 0''
       | Some a \<Rightarrow> Returned (adversarial_value claims perClaim a (arg_val args ''sources'') (arg_val args ''ranked'')))"
      by (simp add: tallyClaims_def v Let_def Inr p del: judge_claims.simps)
    show ?thesis
    proof (cases "\<exists>c \<in> set claims. confirms needed minValid (bs c) \<and> surviving (bs c) = []")
      case True
      then show ?thesis by (simp add: t spec)
    next
      case False
      then obtain a where "judge_claims lower parse_url (perClaim, needed, minValid) m ?a0 claims = Some a"
        "ad_confirmed a = map (\<lambda>c. the (confirmed_claim lower parse_url perClaim c (bs c))) (filter (\<lambda>c. confirms needed minValid (bs c)) claims)"
        "ad_refuted a = map (\<lambda>c. fst (refuted_claim lower parse_url c (bs c))) (filter (\<lambda>c. refutes needed (bs c)) claims)"
        "ad_unverified a = map (\<lambda>c. unverified_claim perClaim c (bs c))
           (filter (\<lambda>c. \<not> refutes needed (bs c) \<and> \<not> confirms needed minValid (bs c)) claims)"
        using spec by simp
      then show ?thesis unfolding if_not_P [OF False] t by auto
    qed
  qed
qed

lemma tally_returned:
  assumes "Call (tallyAdversarial lower parse_url) args = Returned r"
  shows "\<exists>claims votes perClaim needed minValid a sources ranked. map_of args ''claims'' = Some (VList claims) \<and>
    map_of args ''votes'' = Some (VList votes) \<and> map_of args ''votes_per_claim'' = Some (VInt perClaim) \<and>
    map_of args ''refutations_required'' = Some (VInt needed) \<and> map_of args ''min_valid_votes'' = Some (VInt minValid) \<and>
    r = adversarial_value claims perClaim a sources ranked \<and>
    (\<forall>c \<in> set claims. confirms needed minValid (votes_on lower parse_url votes (claim_key c)) \<longrightarrow>
       surviving (votes_on lower parse_url votes (claim_key c)) \<noteq> []) \<and>
    ad_confirmed a = map (\<lambda>c. the (confirmed_claim lower parse_url perClaim c (votes_on lower parse_url votes (claim_key c))))
      (filter (\<lambda>c. confirms needed minValid (votes_on lower parse_url votes (claim_key c))) claims) \<and>
    ad_refuted a = map (\<lambda>c. fst (refuted_claim lower parse_url c (votes_on lower parse_url votes (claim_key c))))
      (filter (\<lambda>c. refutes needed (votes_on lower parse_url votes (claim_key c))) claims) \<and>
    ad_unverified a = map (\<lambda>c. unverified_claim perClaim c (votes_on lower parse_url votes (claim_key c)))
      (filter (\<lambda>c. \<not> refutes needed (votes_on lower parse_url votes (claim_key c)) \<and>
         \<not> confirms needed minValid (votes_on lower parse_url votes (claim_key c))) claims)"
proof -
  from assms have c: "checkArgs adversarial_params args = None" and b: "tallyClaims lower parse_url args = Returned r"
    by (simp_all add: tallyAdversarial_def checked_Returned)
  from c obtain claims votes perClaim needed minValid where a: "map_of args ''claims'' = Some (VList claims)"
    "map_of args ''votes'' = Some (VList votes)" "map_of args ''votes_per_claim'' = Some (VInt perClaim)"
    "map_of args ''refutations_required'' = Some (VInt needed)" "map_of args ''min_valid_votes'' = Some (VInt minValid)"
    by (rule adversarial_args)
  show ?thesis
    using tally_outcome [OF c a refl, of lower parse_url] b a by (auto split: if_splits)
qed

lemma confirmed_some: "surviving bs \<noteq> [] \<Longrightarrow> \<exists>x. confirmed_claim lower parse_url perClaim c bs = Some x"
  by (cases "surviving bs") (simp_all add: confirmed_claim_def Let_def)

interpretation tally_adversarial: reviewed_function "tallyAdversarial lower parse_url" for lower parse_url
proof
  fix args r assume call: "Call (tallyAdversarial lower parse_url) args = Returned r"
  then show "checkArgs (Params (tallyAdversarial lower parse_url)) args = None" by (simp add: tallyAdversarial_def checked_Returned)
  obtain claims votes perClaim needed minValid a sources ranked where r: "r = adversarial_value claims perClaim a sources ranked"
    and s: "\<forall>c \<in> set claims. confirms needed minValid (votes_on lower parse_url votes (claim_key c)) \<longrightarrow>
       surviving (votes_on lower parse_url votes (claim_key c)) \<noteq> []"
    and l: "ad_confirmed a = map (\<lambda>c. the (confirmed_claim lower parse_url perClaim c (votes_on lower parse_url votes (claim_key c))))
      (filter (\<lambda>c. confirms needed minValid (votes_on lower parse_url votes (claim_key c))) claims)"
    "ad_refuted a = map (\<lambda>c. fst (refuted_claim lower parse_url c (votes_on lower parse_url votes (claim_key c))))
      (filter (\<lambda>c. refutes needed (votes_on lower parse_url votes (claim_key c))) claims)"
    "ad_unverified a = map (\<lambda>c. unverified_claim perClaim c (votes_on lower parse_url votes (claim_key c)))
      (filter (\<lambda>c. \<not> refutes needed (votes_on lower parse_url votes (claim_key c)) \<and>
         \<not> confirms needed minValid (votes_on lower parse_url votes (claim_key c))) claims)"
    using tally_returned [OF call] by blast
  have "conforms (Some confirmedType) (the (confirmed_claim lower parse_url perClaim c bs))" if "surviving bs \<noteq> []" for c bs
    using confirmed_some [OF that, of lower parse_url perClaim c] confirmed_conforms by fastforce
  then show "conforms (Some (Result (tallyAdversarial lower parse_url))) r"
    using s by (auto simp: tallyAdversarial_def r l list_all_iff refuted_conforms unverified_conforms intro!: adversarial_conforms)
qed

text \<open>When a call panics: a claim with enough valid votes, every one refuting it, but fewer than a refutation needs.\<close>

lemma tally_panics:
  assumes "Call (tallyAdversarial lower parse_url) args = Panicked e"
  shows "\<exists>claims votes needed minValid. map_of args ''claims'' = Some (VList claims) \<and> map_of args ''votes'' = Some (VList votes) \<and>
    map_of args ''refutations_required'' = Some (VInt needed) \<and> map_of args ''min_valid_votes'' = Some (VInt minValid) \<and>
    minValid < needed \<and> (\<exists>c \<in> set claims. \<exists>n. n = num (valid_votes (votes_on lower parse_url votes (claim_key c))) \<and>
      n = num (refuting (votes_on lower parse_url votes (claim_key c))) \<and> minValid \<le> n \<and> n < needed)"
proof -
  have c: "checkArgs adversarial_params args = None" and b: "tallyClaims lower parse_url args = Panicked e"
    using assms by (auto simp: tallyAdversarial_def checked_def split: option.splits)
  from c obtain claims votes perClaim needed minValid where a: "map_of args ''claims'' = Some (VList claims)"
    "map_of args ''votes'' = Some (VList votes)" "map_of args ''votes_per_claim'' = Some (VInt perClaim)"
    "map_of args ''refutations_required'' = Some (VInt needed)" "map_of args ''min_valid_votes'' = Some (VInt minValid)"
    by (rule adversarial_args)
  then obtain c where c: "c \<in> set claims" "confirms needed minValid (votes_on lower parse_url votes (claim_key c))"
      "surviving (votes_on lower parse_url votes (claim_key c)) = []"
    using tally_outcome [OF c a refl, of lower parse_url] b by (auto split: if_splits)
  then have "num (valid_votes (votes_on lower parse_url votes (claim_key c))) = num (refuting (votes_on lower parse_url votes (claim_key c)))"
    "minValid \<le> num (valid_votes (votes_on lower parse_url votes (claim_key c)))"
    "num (refuting (votes_on lower parse_url votes (claim_key c))) < needed"
    using valid_split [of "votes_on lower parse_url votes (claim_key c)"] by (auto simp: confirms_def refutes_def num_def)
  then show ?thesis using a c(1) by force
qed

text \<open>
  What a call returns: the claims split in three, each list in the claims' order, and no confirmed
  claim cites a URL that no surviving verifier of it fetched.
\<close>

definition value_id :: "val \<Rightarrow> string" where
  "value_id x = str_of (field_value x ''id'')"

definition value_sources :: "val \<Rightarrow> val list" where
  "value_sources x = list_of (field_value x ''sources'')"

lemma confirmed_fields:
  "confirmed_claim lower parse_url perClaim c bs = Some x \<Longrightarrow> value_id x = claim_key c \<and>
     value_sources x = map VStr (citations_of lower parse_url (stringField c [''source_url'']) bs)"
  by (auto simp: confirmed_claim_def Let_def value_id_def value_sources_def split: list.splits)

lemma refuted_id: "value_id (fst (refuted_claim lower parse_url c bs)) = claim_key c"
  by (auto simp: refuted_claim_def Let_def value_id_def split: prod.splits)

lemma unverified_id: "value_id (unverified_claim perClaim c bs) = claim_key c"
  by (simp add: unverified_claim_def value_id_def)

lemma adversarial_exact:
  assumes "Call (tallyAdversarial lower parse_url) args = Returned r"
  shows "\<exists>claims votes needed minValid confirmed refuted unverified. map_of args ''claims'' = Some (VList claims) \<and>
    map_of args ''votes'' = Some (VList votes) \<and> map_of args ''refutations_required'' = Some (VInt needed) \<and>
    map_of args ''min_valid_votes'' = Some (VInt minValid) \<and> field_value r ''confirmed'' = VList confirmed \<and>
    field_value r ''refuted'' = VList refuted \<and> field_value r ''unverified'' = VList unverified \<and>
    map value_id confirmed = map claim_key (filter (\<lambda>c. confirms needed minValid (votes_on lower parse_url votes (claim_key c))) claims) \<and>
    map value_id refuted = map claim_key (filter (\<lambda>c. refutes needed (votes_on lower parse_url votes (claim_key c))) claims) \<and>
    map value_id unverified = map claim_key (filter (\<lambda>c. \<not> refutes needed (votes_on lower parse_url votes (claim_key c)) \<and>
       \<not> confirms needed minValid (votes_on lower parse_url votes (claim_key c))) claims) \<and>
    list_all2 (\<lambda>x c. value_sources x = map VStr (citations_of lower parse_url (stringField c [''source_url''])
        (votes_on lower parse_url votes (claim_key c)))) confirmed
      (filter (\<lambda>c. confirms needed minValid (votes_on lower parse_url votes (claim_key c))) claims)"
proof -
  obtain claims votes perClaim needed minValid a sources ranked where args: "map_of args ''claims'' = Some (VList claims)"
    "map_of args ''votes'' = Some (VList votes)" "map_of args ''refutations_required'' = Some (VInt needed)"
    "map_of args ''min_valid_votes'' = Some (VInt minValid)" and r: "r = adversarial_value claims perClaim a sources ranked"
    and s: "\<forall>c \<in> set claims. confirms needed minValid (votes_on lower parse_url votes (claim_key c)) \<longrightarrow>
       surviving (votes_on lower parse_url votes (claim_key c)) \<noteq> []"
    and l: "ad_confirmed a = map (\<lambda>c. the (confirmed_claim lower parse_url perClaim c (votes_on lower parse_url votes (claim_key c))))
      (filter (\<lambda>c. confirms needed minValid (votes_on lower parse_url votes (claim_key c))) claims)"
    "ad_refuted a = map (\<lambda>c. fst (refuted_claim lower parse_url c (votes_on lower parse_url votes (claim_key c))))
      (filter (\<lambda>c. refutes needed (votes_on lower parse_url votes (claim_key c))) claims)"
    "ad_unverified a = map (\<lambda>c. unverified_claim perClaim c (votes_on lower parse_url votes (claim_key c)))
      (filter (\<lambda>c. \<not> refutes needed (votes_on lower parse_url votes (claim_key c)) \<and>
         \<not> confirms needed minValid (votes_on lower parse_url votes (claim_key c))) claims)"
    using tally_returned [OF assms] by blast
  define cs where "cs = filter (\<lambda>c. confirms needed minValid (votes_on lower parse_url votes (claim_key c))) claims"
  have sel: "value_id (the (confirmed_claim lower parse_url perClaim c (votes_on lower parse_url votes (claim_key c)))) = claim_key c \<and>
      value_sources (the (confirmed_claim lower parse_url perClaim c (votes_on lower parse_url votes (claim_key c)))) =
        map VStr (citations_of lower parse_url (stringField c [''source_url'']) (votes_on lower parse_url votes (claim_key c)))" if "c \<in> set cs" for c
  proof -
    have "surviving (votes_on lower parse_url votes (claim_key c)) \<noteq> []" using s that by (auto simp: cs_def)
    then obtain x where x: "confirmed_claim lower parse_url perClaim c (votes_on lower parse_url votes (claim_key c)) = Some x"
      using confirmed_some by blast
    show ?thesis using confirmed_fields [OF x] by (simp add: x)
  qed
  have "map value_id (ad_confirmed a) = map claim_key cs" unfolding l cs_def [symmetric] using sel by simp
  moreover have "list_all2 (\<lambda>x c. value_sources x = map VStr (citations_of lower parse_url (stringField c [''source_url''])
        (votes_on lower parse_url votes (claim_key c)))) (ad_confirmed a) cs"
    unfolding l cs_def [symmetric] list.rel_map using sel by (auto intro!: list.rel_refl_strong)
  moreover have "field_value r ''confirmed'' = VList (ad_confirmed a)" "field_value r ''refuted'' = VList (ad_refuted a)"
    "field_value r ''unverified'' = VList (ad_unverified a)" by (simp_all add: r adversarial_value_def Let_def)
  moreover have "map value_id (ad_refuted a) = map claim_key (filter (\<lambda>c. refutes needed (votes_on lower parse_url votes (claim_key c))) claims)"
    "map value_id (ad_unverified a) = map claim_key (filter (\<lambda>c. \<not> refutes needed (votes_on lower parse_url votes (claim_key c)) \<and>
         \<not> confirms needed minValid (votes_on lower parse_url votes (claim_key c))) claims)"
    by (simp_all add: l refuted_id unverified_id comp_def)
  ultimately show ?thesis using args unfolding cs_def by blast
qed

text \<open>A verifier of the claim that did not refute it fetched the URL, or the claim's own source under the same key.\<close>

definition fetched_for :: "(string \<Rightarrow> string) \<Rightarrow> url_parser \<Rightarrow> val list \<Rightarrow> val \<Rightarrow> string \<Rightarrow> bool" where
  "fetched_for lower parse_url votes c u \<longleftrightarrow> (let own = stringField c [''source_url''] in
     list_ex (\<lambda>v. claim_of_vote v = claim_key c \<and> \<not> bool_val (walkValue v [''output'', ''result'', ''refuted'']) \<and>
       list_ex (\<lambda>s. u = trimSpace (stringField s [''url'']) \<or> u = trimSpace own \<and> sourceKey lower parse_url own \<noteq> None \<and>
         sourceKey lower parse_url (stringField s [''url'']) = sourceKey lower parse_url own) (fetched_by v)) votes)"

lemma fetched_forI:
  assumes "u \<in> set (citations_of lower parse_url (stringField c [''source_url'']) (votes_on lower parse_url votes (claim_key c)))"
  shows "fetched_for lower parse_url votes c u"
proof -
  obtain v s where "v \<in> set votes" "claim_of_vote v = claim_key c" "\<not> bool_val (walkValue v [''output'', ''result'', ''refuted''])"
    "s \<in> set (fetched_by v)" "u = trimSpace (stringField s [''url'']) \<or> u = trimSpace (stringField c [''source_url'']) \<and>
       sourceKey lower parse_url (stringField c [''source_url'']) \<noteq> None \<and>
       sourceKey lower parse_url (stringField s [''url'']) = sourceKey lower parse_url (stringField c [''source_url''])"
    using citation_fetched [OF assms] by blast
  then show ?thesis unfolding fetched_for_def Let_def list_ex_iff by (intro bexI [of _ v] conjI bexI [of _ s])
qed

lemma confirmed_sources_fetched:
  assumes "Call (tallyAdversarial lower parse_url) args = Returned r"
  shows "\<exists>claims votes confirmed. map_of args ''claims'' = Some (VList claims) \<and> map_of args ''votes'' = Some (VList votes) \<and>
    field_value r ''confirmed'' = VList confirmed \<and>
    (\<forall>x \<in> set confirmed. \<exists>c \<in> set claims. value_id x = claim_key c \<and>
       (\<exists>us. value_sources x = map VStr us \<and> list_all (fetched_for lower parse_url votes c) us))"
proof -
  obtain claims votes needed minValid confirmed where a: "map_of args ''claims'' = Some (VList claims)"
    "map_of args ''votes'' = Some (VList votes)" "field_value r ''confirmed'' = VList confirmed"
    and ids: "map value_id confirmed = map claim_key (filter (\<lambda>c. confirms needed minValid (votes_on lower parse_url votes (claim_key c))) claims)"
    and src: "list_all2 (\<lambda>x c. value_sources x = map VStr (citations_of lower parse_url (stringField c [''source_url''])
        (votes_on lower parse_url votes (claim_key c)))) confirmed
      (filter (\<lambda>c. confirms needed minValid (votes_on lower parse_url votes (claim_key c))) claims)"
    using adversarial_exact [OF assms] by (elim exE conjE) (rule that)
  define kept where "kept = filter (\<lambda>c. confirms needed minValid (votes_on lower parse_url votes (claim_key c))) claims"
  have "\<exists>c \<in> set claims. value_id x = claim_key c \<and> (\<exists>us. value_sources x = map VStr us \<and> list_all (fetched_for lower parse_url votes c) us)"
    if x: "x \<in> set confirmed" for x
  proof -
    obtain i where i: "i < length confirmed" "x = confirmed ! i" using x by (auto simp: in_set_conv_nth)
    have l: "length kept = length confirmed" using ids unfolding kept_def [symmetric] by (metis length_map)
    then have c: "kept ! i \<in> set claims" using i nth_mem [of i kept] by (simp add: kept_def)
    have "value_id x = claim_key (kept ! i)" using ids i l unfolding kept_def [symmetric] by (metis nth_map)
    moreover have "value_sources x = map VStr (citations_of lower parse_url (stringField (kept ! i) [''source_url''])
        (votes_on lower parse_url votes (claim_key (kept ! i))))"
      using src i unfolding kept_def [symmetric] by (simp add: list_all2_conv_all_nth)
    moreover have "list_all (fetched_for lower parse_url votes (kept ! i)) (citations_of lower parse_url (stringField (kept ! i) [''source_url''])
        (votes_on lower parse_url votes (claim_key (kept ! i))))"
      unfolding list_all_iff by (blast intro: fetched_forI)
    ultimately show ?thesis using c by blast
  qed
  then show ?thesis using a by blast
qed

end
