(* ===== verification/Citations.thy ===== *)
theory Citations
  imports Research
begin

text \<open>
  The reviewed function \<^verbatim>\<open>check_citations\<close> (citations.go): the citation rule of a synthesized
  report. The regular expression \<^verbatim>\<open>reportToken\<close> is a scanner here: at each position it tries a
  markdown link, then an inline marker, then a bare URL.
\<close>

section \<open>Tokens of a report\<close>

definition is_tab_or_space :: "char \<Rightarrow> bool" where "is_tab_or_space c \<longleftrightarrow> c = CHR '' '' \<or> c = CHR 0x09"

text \<open>The class \<^verbatim>\<open>\s\<close> of regexp.\<close>

definition is_re_space :: "char \<Rightarrow> bool" where
  "is_re_space c \<longleftrightarrow> c \<in> {CHR '' '', CHR 0x09, CHR 0x0A, CHR 0x0C, CHR 0x0D}"

text \<open>The length of a leading \<^verbatim>\<open>https?://\<close>, zero when there is none.\<close>

definition scheme_length :: "string \<Rightarrow> nat" where
  "scheme_length s = (if hasPrefix s ''http://'' then 7 else if hasPrefix s ''https://'' then 8 else 0)"

text \<open>A URL of the characters \<open>ok\<close> accepts, at least one after the scheme.\<close>

definition url_of :: "(char \<Rightarrow> bool) \<Rightarrow> string \<Rightarrow> string option" where
  "url_of ok s = (let n = scheme_length s; body = takeWhile ok (drop n s) in
     if n = 0 \<or> body = [] then None else Some (take n s @ body))"

datatype token = Link string string | Marker string | Bare string

definition link_char :: "char \<Rightarrow> bool" where
  "link_char c \<longleftrightarrow> \<not> is_re_space c \<and> c \<noteq> CHR ''('' \<and> c \<noteq> CHR '')''"

definition bare_char :: "char \<Rightarrow> bool" where
  "bare_char c \<longleftrightarrow> \<not> is_re_space c \<and> c \<notin> set ''<>()[]\"'' \<and> c \<noteq> CHR 0x27 \<and> c \<noteq> CHR 0x60"

definition match_link :: "string \<Rightarrow> (token \<times> nat) option" where
  "match_link s = (if \<not> hasPrefix s ''['' then None else
     let label = takeWhile (\<lambda>c. c \<noteq> CHR ''['' \<and> c \<noteq> CHR '']'' \<and> c \<noteq> CHR 0x0A) (drop 1 s); r = drop (1 + length label) s in
     if \<not> hasPrefix r ''](''  then None
     else (case url_of link_char (drop 2 r) of
         None \<Rightarrow> None
       | Some u \<Rightarrow> if hasPrefix (drop (2 + length u) r) '')'' then Some (Link label u, length label + length u + 4) else None))"

text \<open>\<^verbatim>\<open>S[0-9]{1,3}\<close>: the length matched, zero for none. Three digits are the most it takes.\<close>

definition marker_length :: "string \<Rightarrow> nat" where
  "marker_length s = (if \<not> hasPrefix s ''S'' then 0 else
     let n = length (takeWhile is_digit (take 3 (drop 1 s))) in if n = 0 then 0 else Suc n)"

text \<open>\<^verbatim>\<open>[ \t]*,[ \t]*\<close>\<close>

definition comma_length :: "string \<Rightarrow> nat" where
  "comma_length s = (let n = length (takeWhile is_tab_or_space s) in
     if hasPrefix (drop n s) '','' then n + 1 + length (takeWhile is_tab_or_space (drop (n + 1) s)) else 0)"

text \<open>Further markers, each after a comma: the length of all of them. The fuel is the text's length.\<close>

fun more_markers :: "nat \<Rightarrow> string \<Rightarrow> nat" where
  "more_markers 0 s = 0"
| "more_markers (Suc k) s = (let n = comma_length s; m = marker_length (drop n s) in
     if n = 0 \<or> m = 0 then 0 else n + m + more_markers k (drop (n + m) s))"

definition match_marker :: "string \<Rightarrow> (token \<times> nat) option" where
  "match_marker s = (if \<not> hasPrefix s ''['' then None else
     let m = marker_length (drop 1 s); n = m + more_markers (length s) (drop (1 + m) s) in
     if m = 0 \<or> \<not> hasPrefix (drop (1 + n) s) '']'' then None else Some (Marker (take n (drop 1 s)), n + 2))"

definition match_bare :: "string \<Rightarrow> (token \<times> nat) option" where
  "match_bare s = map_option (\<lambda>u. (Bare u, length u)) (url_of bare_char s)"

definition match_token :: "string \<Rightarrow> (token \<times> nat) option" where
  "match_token s = (case match_link s of Some r \<Rightarrow> Some r | None \<Rightarrow> (case match_marker s of Some r \<Rightarrow> Some r | None \<Rightarrow> match_bare s))"

text \<open>The pieces of a text in order, each with the text after it.\<close>

datatype piece = Plain char | Token token string

fun scan :: "string \<Rightarrow> (piece \<times> string) list" where
  "scan [] = []"
| "scan (c # s) = (case match_token (c # s) of
     None \<Rightarrow> (Plain c, s) # scan s
   | Some (t, n) \<Rightarrow> (Token t (c # take (n - 1) s), drop (n - 1) s) # scan (drop (n - 1) s))"

section \<open>The allowed sources and the listed citations\<close>

type_synonym supports = "string list gomap"

definition support :: "string \<Rightarrow> val \<Rightarrow> supports \<Rightarrow> supports" where
  "support i s m = (case s of
     VStr u0 \<Rightarrow> let u = trimSpace u0; ids = (case map_of m u of Some ids \<Rightarrow> ids | None \<Rightarrow> []) in
       if u \<noteq> [] \<and> i \<notin> set ids then put u (ids @ [i]) m else m
   | _ \<Rightarrow> m)"

definition supports_of :: "val list \<Rightarrow> supports" where
  "supports_of claims = fold (\<lambda>c. fold (support (stringField c [''id''])) (listField c [''sources''])) claims []"

definition supporters :: "supports \<Rightarrow> string \<Rightarrow> string list" where
  "supporters m u = (case map_of m u of Some ids \<Rightarrow> ids | None \<Rightarrow> [])"

definition markerName :: "string \<Rightarrow> bool" where
  "markerName s \<longleftrightarrow> hasPrefix s ''S'' \<and> 2 \<le> length s \<and> length s \<le> 4 \<and> list_all is_digit (drop 1 s)"

record citation =
  ci_marker :: string
  ci_url :: string
  ci_problem :: string

record listedCitations =
  li_entries :: "citation list"
  li_valid :: "string gomap"
  li_known :: "string set"

definition malformed_marker :: string where
  "malformed_marker = ''malformed marker; use S1, S2, '' @ [CHR 0xE2, CHR 0x80, CHR 0xA6]"

definition citation_problem :: "supports \<Rightarrow> string set \<Rightarrow> string \<Rightarrow> string \<Rightarrow> string" where
  "citation_problem sp known marker u = (
     if \<not> markerName marker then malformed_marker
     else if marker \<in> known then ''duplicate marker''
     else if supporters sp u = [] then u @ '' is not a source a verifier fetched and relied on for an accepted claim''
     else [])"

definition list_citation :: "supports \<Rightarrow> val \<Rightarrow> listedCitations \<Rightarrow> listedCitations" where
  "list_citation sp c l = (let marker = trimSpace (stringField c [''marker'']); u = trimSpace (stringField c [''url'']);
       problem = citation_problem sp (li_known l) marker u in
     \<lparr>li_entries = li_entries l @ [\<lparr>ci_marker = marker, ci_url = u, ci_problem = problem\<rparr>],
      li_valid = (if problem = [] then put marker u (li_valid l) else li_valid l),
      li_known = (if markerName marker then insert marker (li_known l) else li_known l)\<rparr>)"

definition list_citations :: "supports \<Rightarrow> val list \<Rightarrow> listedCitations" where
  "list_citations sp cs = fold (list_citation sp) cs \<lparr>li_entries = [], li_valid = [], li_known = {}\<rparr>"

section \<open>Cleaning the text\<close>

record removal =
  rm_kind :: string
  rm_value :: string
  rm_reason :: string

record cleaning =
  cl_out :: string
  cl_used :: "string set"
  cl_removals :: "removal list"

definition trim_blanks :: "string \<Rightarrow> string" where
  "trim_blanks s = rev (dropWhile is_tab_or_space (rev (dropWhile is_tab_or_space s)))"

definition marker_names :: "string \<Rightarrow> string list" where
  "marker_names s = map trim_blanks (split_at (CHR '','') s)"

text \<open>\<^verbatim>\<open>valid[name] != ""\<close>\<close>

definition is_valid :: "listedCitations \<Rightarrow> string \<Rightarrow> bool" where
  "is_valid l name \<longleftrightarrow> (case map_of (li_valid l) name of Some u \<Rightarrow> u \<noteq> [] | None \<Rightarrow> False)"

definition bad_marker :: "listedCitations \<Rightarrow> string \<Rightarrow> removal" where
  "bad_marker l name = \<lparr>rm_kind = ''marker'', rm_value = name,
     rm_reason = (if name \<in> li_known l then ''cites a removed citation'' else ''cites no listed citation'')\<rparr>"

definition bad_link :: "string \<Rightarrow> removal" where
  "bad_link u = \<lparr>rm_kind = ''link'', rm_value = u, rm_reason = ''not a verified source''\<rparr>"

definition unverifiedLink :: string where "unverifiedLink = ''[unverified link removed]''"

definition url_tail :: "char \<Rightarrow> bool" where "url_tail c \<longleftrightarrow> c \<in> set ''.,;:!?*_''"

definition trim_tail :: "string \<Rightarrow> string" where
  "trim_tail s = rev (dropWhile url_tail (rev s))"

definition drop_space :: "string \<Rightarrow> string \<Rightarrow> string" where
  "drop_space out rest = (if out \<noteq> [] \<and> last out = CHR '' '' \<and>
       (case rest of [] \<Rightarrow> True | c # _ \<Rightarrow> is_tab_or_space c \<or> c = CHR 0x0D \<or> c = CHR 0x0A \<or> c \<in> set ''.,;:!?)'') then butlast out else out)"

definition clean_piece :: "supports \<Rightarrow> listedCitations \<Rightarrow> piece \<times> string \<Rightarrow> cleaning \<Rightarrow> cleaning" where
  "clean_piece sp l p st = (case p of
     (Plain c, _) \<Rightarrow> st\<lparr>cl_out := cl_out st @ [c]\<rparr>
   | (Token (Link label u) raw, _) \<Rightarrow>
       if supporters sp u \<noteq> [] then st\<lparr>cl_out := cl_out st @ raw\<rparr>
       else st\<lparr>cl_out := cl_out st @ label, cl_removals := cl_removals st @ [bad_link u]\<rparr>
   | (Token (Marker names) raw, rest) \<Rightarrow> let kept = filter (is_valid l) (marker_names names) in
       st\<lparr>cl_out := (if kept = [] then drop_space (cl_out st) rest else cl_out st @ concat (map (\<lambda>n. ''['' @ n @ '']'') kept)),
          cl_used := cl_used st \<union> set kept,
          cl_removals := cl_removals st @ map (bad_marker l) (filter (\<lambda>n. \<not> is_valid l n) (marker_names names))\<rparr>
   | (Token (Bare tok) raw, _) \<Rightarrow> let u = trim_tail tok in
       if supporters sp u \<noteq> [] then st\<lparr>cl_out := cl_out st @ raw\<rparr>
       else st\<lparr>cl_out := cl_out st @ unverifiedLink @ drop (length u) tok, cl_removals := cl_removals st @ [bad_link u]\<rparr>)"

definition clean_text :: "supports \<Rightarrow> listedCitations \<Rightarrow> string \<Rightarrow> cleaning \<Rightarrow> cleaning" where
  "clean_text sp l s st = fold (clean_piece sp l) (scan s) (st\<lparr>cl_out := []\<rparr>)"

section \<open>The checked report\<close>

definition remove_once :: "removal \<Rightarrow> removal list \<Rightarrow> removal list" where
  "remove_once r rs = (if r \<in> set rs then rs else rs @ [r])"

record kept =
  kp_citations :: "citation list"
  kp_removed :: "removal list"

definition keep_entry :: "string set \<Rightarrow> citation \<Rightarrow> kept \<Rightarrow> kept" where
  "keep_entry used e k = (
     if ci_problem e \<noteq> [] then k\<lparr>kp_removed := remove_once \<lparr>rm_kind = ''citation'', rm_value = ci_marker e, rm_reason = ci_problem e\<rparr> (kp_removed k)\<rparr>
     else if ci_marker e \<notin> used then k\<lparr>kp_removed := remove_once \<lparr>rm_kind = ''citation'', rm_value = ci_marker e,
        rm_reason = ''never cited in the report''\<rparr> (kp_removed k)\<rparr>
     else if ci_marker e \<in> ci_marker ` set (kp_citations k) then k
     else k\<lparr>kp_citations := kp_citations k @ [e]\<rparr>)"

record checkedReport =
  cr_title :: string
  cr_summary :: string
  cr_body :: string
  cr_citations :: "citation list"
  cr_removed :: "removal list"

definition check_report :: "supports \<Rightarrow> listedCitations \<Rightarrow> string \<Rightarrow> string \<Rightarrow> string \<Rightarrow> checkedReport" where
  "check_report sp l title summary body = (let
      t = clean_text sp l title \<lparr>cl_out = [], cl_used = {}, cl_removals = []\<rparr>;
      s = clean_text sp l summary t;
      b = clean_text sp l body s;
      k = fold (keep_entry (cl_used b)) (li_entries l) \<lparr>kp_citations = [], kp_removed = []\<rparr>
    in \<lparr>cr_title = cl_out t, cr_summary = cl_out s, cr_body = cl_out b, cr_citations = kp_citations k,
        cr_removed = fold remove_once (cl_removals b) (kp_removed k)\<rparr>)"

definition removal_val :: "removal \<Rightarrow> val" where
  "removal_val r = VObj [(''kind'', VStr (rm_kind r)), (''value'', VStr (rm_value r)), (''reason'', VStr (rm_reason r))]"

definition citation_val :: "supports \<Rightarrow> citation \<Rightarrow> val" where
  "citation_val sp e = VObj [(''marker'', VStr (ci_marker e)), (''url'', VStr (ci_url e)), (''claim_ids'', VList (map VStr (supporters sp (ci_url e))))]"

definition citationCheck :: "val \<Rightarrow> val list \<Rightarrow> val" where
  "citationCheck report claims = (let sp = supports_of claims; l = list_citations sp (listField report [''citations'']);
      c = check_report sp l (stringField report [''title'']) (stringField report [''summary'']) (stringField report [''body_markdown'']);
      cited = concat (map (\<lambda>e. supporters sp (ci_url e)) (cr_citations c));
      ids = map (\<lambda>c. stringField c [''id'']) claims in
    VObj [(''title'', VStr (cr_title c)), (''summary'', VStr (cr_summary c)), (''body_markdown'', VStr (cr_body c)),
      (''citations'', VList (map (citation_val sp) (cr_citations c))), (''removed'', VList (map removal_val (cr_removed c))),
      (''status'', VStr (if cr_removed c = [] then ''verified'' else ''corrected'')),
      (''cited_claims'', VList (map VStr (filter (\<lambda>i. i \<in> set cited) ids))),
      (''uncited_claims'', VList (map VStr (filter (\<lambda>i. i \<notin> set cited) ids)))])"

section \<open>The function\<close>

definition citation_params :: "param list" where
  "citation_params = [
     \<lparr>PName = ''report'', PType = openObject [fld ''title'' StringType, fld ''summary'' StringType, fld ''body_markdown'' StringType,
        fld ''citations'' (ArrayType (Some (openObject [fld ''marker'' StringType, fld ''url'' StringType])))], Min = 0, Max = 0\<rparr>,
     \<lparr>PName = ''claims'', PType = ArrayType (Some (openObject [fld ''id'' StringType, fld ''sources'' (ArrayType (Some StringType))])),
        Min = 0, Max = 0\<rparr>]"

definition removalType :: ty where
  "removalType = ObjectType [fld ''kind'' (enumType [''citation'', ''marker'', ''link'']), fld ''value'' StringType, fld ''reason'' StringType]"

definition citationType :: ty where
  "citationType = ObjectType [fld ''marker'' StringType, fld ''url'' StringType, fld ''claim_ids'' (ArrayType (Some StringType))]"

definition citation_result :: ty where
  "citation_result = ObjectType [fld ''title'' StringType, fld ''summary'' StringType, fld ''body_markdown'' StringType,
     fld ''citations'' (ArrayType (Some citationType)), fld ''removed'' (ArrayType (Some removalType)),
     fld ''status'' (enumType [''verified'', ''corrected'']), fld ''cited_claims'' (ArrayType (Some StringType)),
     fld ''uncited_claims'' (ArrayType (Some StringType))]"

definition citation_body :: "val gomap \<Rightarrow> outcome" where
  "citation_body args = Returned (citationCheck (arg_val args ''report'') (list_of (arg_val args ''claims'')))"

definition checkCitations :: func where
  "checkCitations = \<lparr>FName = ''check_citations'', Version = 1, Params = citation_params, Result = citation_result, Refine = None,
     Call = checked citation_params citation_body\<rparr>"

section \<open>What is removed from a text\<close>

definition token_removals :: "supports \<Rightarrow> listedCitations \<Rightarrow> token \<Rightarrow> removal list" where
  "token_removals sp l t = (case t of
     Link _ u \<Rightarrow> if supporters sp u \<noteq> [] then [] else [bad_link u]
   | Marker names \<Rightarrow> map (bad_marker l) (filter (\<lambda>n. \<not> is_valid l n) (marker_names names))
   | Bare tok \<Rightarrow> if supporters sp (trim_tail tok) \<noteq> [] then [] else [bad_link (trim_tail tok)])"

fun piece_removals :: "supports \<Rightarrow> listedCitations \<Rightarrow> piece \<times> string \<Rightarrow> removal list" where
  "piece_removals sp l (Token t raw, rest) = token_removals sp l t"
| "piece_removals sp l (Plain c, rest) = []"

definition tokens :: "string \<Rightarrow> token list" where
  "tokens s = List.map_filter (\<lambda>(p, rest). case p of Token t raw \<Rightarrow> Some t | Plain c \<Rightarrow> None) (scan s)"

lemma clean_piece_removals: "cl_removals (clean_piece sp l p st) = cl_removals st @ piece_removals sp l p"
  by (auto simp: clean_piece_def token_removals_def Let_def split: piece.splits token.splits prod.splits)

lemma clean_pieces_removals: "cl_removals (fold (clean_piece sp l) ps st) = cl_removals st @ concat (map (piece_removals sp l) ps)"
  by (induction ps arbitrary: st) (simp_all add: clean_piece_removals)

lemma clean_text_removals: "cl_removals (clean_text sp l s st) = cl_removals st @ concat (map (token_removals sp l) (tokens s))"
proof -
  have "concat (map (piece_removals sp l) ps) =
      concat (map (token_removals sp l) (List.map_filter (\<lambda>(p, rest). case p of Token t raw \<Rightarrow> Some t | Plain c \<Rightarrow> None) ps))" for ps
    by (induction ps) (auto simp: List.map_filter_simps split: piece.splits)
  then show ?thesis by (simp add: clean_text_def clean_pieces_removals tokens_def)
qed

text \<open>A token that stays: its source is allowed, or its markers are kept citations.\<close>

definition token_ok :: "supports \<Rightarrow> listedCitations \<Rightarrow> token \<Rightarrow> bool" where
  "token_ok sp l t \<longleftrightarrow> (case t of
     Link _ u \<Rightarrow> supporters sp u \<noteq> []
   | Marker names \<Rightarrow> (\<forall>n \<in> set (marker_names names). is_valid l n)
   | Bare tok \<Rightarrow> supporters sp (trim_tail tok) \<noteq> [])"

lemma token_removals_Nil: "token_removals sp l t = [] \<longleftrightarrow> token_ok sp l t"
  by (auto simp: token_removals_def token_ok_def filter_empty_conv split: token.splits)

text \<open>What cleaning writes when nothing is removed: combined markers are written apart.\<close>

definition keep_piece :: "piece \<times> string \<Rightarrow> string" where
  "keep_piece p = (case p of
     (Plain c, _) \<Rightarrow> [c]
   | (Token (Marker names) raw, _) \<Rightarrow> concat (map (\<lambda>n. ''['' @ n @ '']'') (marker_names names))
   | (Token _ raw, _) \<Rightarrow> raw)"

definition split_markers :: "string \<Rightarrow> string" where
  "split_markers s = concat (map keep_piece (scan s))"

lemma marker_names_nonempty: "marker_names s \<noteq> []"
  by (simp add: marker_names_def)

lemma clean_piece_kept:
  "piece_removals sp l p = [] \<Longrightarrow> cl_out (clean_piece sp l p st) = cl_out st @ keep_piece p"
proof -
  assume r: "piece_removals sp l p = []"
  obtain q rest where p: "p = (q, rest)" by fastforce
  show ?thesis
  proof (cases q)
    case (Token t raw)
    then have ok: "token_ok sp l t" using r by (simp add: p token_removals_Nil)
    show ?thesis
    proof (cases t)
      case (Marker names)
      then have "filter (is_valid l) (marker_names names) = marker_names names" using ok by (simp add: token_ok_def)
      then show ?thesis using Marker Token marker_names_nonempty [of names]
        by (simp add: p clean_piece_def keep_piece_def Let_def)
    qed (use ok Token in \<open>simp_all add: p clean_piece_def keep_piece_def token_ok_def Let_def\<close>)
  qed (simp add: p clean_piece_def keep_piece_def)
qed

lemma clean_text_kept:
  assumes "\<forall>t \<in> set (tokens s). token_ok sp l t"
  shows "cl_out (clean_text sp l s st) = split_markers s"
proof -
  have "piece_removals sp l p = []" if "p \<in> set (scan s)" for p
  proof (cases p)
    case (Pair q rest)
    show ?thesis
    proof (cases q)
      case (Token t raw)
      then have "t \<in> set (tokens s)" using that Pair by (force simp: tokens_def List.map_filter_def image_iff)
      then show ?thesis using assms Pair Token by (simp add: token_removals_Nil)
    qed (simp add: Pair)
  qed
  moreover have "\<forall>p \<in> set ps. piece_removals sp l p = [] \<Longrightarrow>
      cl_out (fold (clean_piece sp l) ps st) = cl_out st @ concat (map keep_piece ps)" for ps st
    by (induction ps arbitrary: st) (simp_all add: clean_piece_kept)
  ultimately show ?thesis by (simp add: clean_text_def split_markers_def)
qed

section \<open>Types\<close>

definition removal_kinds :: "string list" where "removal_kinds = [''citation'', ''marker'', ''link'']"

definition kinds_ok :: "removal list \<Rightarrow> bool" where
  "kinds_ok rs \<longleftrightarrow> (\<forall>r \<in> set rs. rm_kind r \<in> set removal_kinds)"

lemma kinds_ok_simps [simp]: "kinds_ok []" "kinds_ok (r # rs) \<longleftrightarrow> rm_kind r \<in> set removal_kinds \<and> kinds_ok rs"
  "kinds_ok (rs @ rs') \<longleftrightarrow> kinds_ok rs \<and> kinds_ok rs'"
  by (auto simp: kinds_ok_def)

lemma token_removals_kinds: "kinds_ok (token_removals sp l t)"
  by (auto simp: kinds_ok_def token_removals_def removal_kinds_def bad_link_def bad_marker_def split: token.splits)

lemma clean_text_kinds: "kinds_ok (cl_removals st) \<Longrightarrow> kinds_ok (cl_removals (clean_text sp l s st))"
  using token_removals_kinds unfolding clean_text_removals by (simp add: kinds_ok_def) blast

lemma remove_once_kinds: "kinds_ok rs \<Longrightarrow> rm_kind r \<in> set removal_kinds \<Longrightarrow> kinds_ok (remove_once r rs)"
  by (simp add: remove_once_def)

lemma keep_entry_kinds: "kinds_ok (kp_removed k) \<Longrightarrow> kinds_ok (kp_removed (keep_entry used e k))"
  by (simp add: keep_entry_def remove_once_kinds removal_kinds_def)

lemma fold_remove_kinds: "kinds_ok rs \<Longrightarrow> kinds_ok us \<Longrightarrow> kinds_ok (fold remove_once us rs)"
  by (induction us arbitrary: rs) (simp_all add: remove_once_kinds)

lemma check_report_kinds: "kinds_ok (cr_removed (check_report sp l title summary body))"
proof -
  have "kinds_ok (kp_removed k) \<Longrightarrow> kinds_ok (kp_removed (fold (keep_entry used) es k))" for used es k
    by (induction es arbitrary: k) (simp_all add: keep_entry_kinds)
  then show ?thesis by (simp add: check_report_def Let_def fold_remove_kinds clean_text_kinds)
qed

lemma removal_conforms: "rm_kind r \<in> set removal_kinds \<Longrightarrow> conforms (Some removalType) (removal_val r)"
  unfolding removalType_def removal_val_def
  by (rule conforms_fields) (simp_all add: conforms_plain conforms_enumType removal_kinds_def)

lemma citation_conforms: "conforms (Some citationType) (citation_val sp e)"
  unfolding citationType_def citation_val_def by (rule conforms_fields) (auto simp: conforms_plain)

lemma citationCheck_conforms: "conforms (Some citation_result) (citationCheck report claims)"
  unfolding citation_result_def citationCheck_def Let_def
  by (rule conforms_fields)
    (use check_report_kinds in \<open>auto simp: conforms_plain conforms_enumType citation_conforms kinds_ok_def intro!: removal_conforms\<close>)

interpretation check_citations: reviewed_function checkCitations
proof
  fix args r assume c: "Call checkCitations args = Returned r"
  then show "checkArgs (Params checkCitations) args = None" by (simp add: checkCitations_def checked_Returned)
  from c show "conforms (Some (Result checkCitations)) r"
    using citationCheck_conforms by (auto simp: checkCitations_def checked_Returned citation_body_def)
qed

section \<open>What a kept citation rests on\<close>

text \<open>A claim relies on the trimmed URLs of its sources.\<close>

fun names_url :: "string \<Rightarrow> val \<Rightarrow> bool" where
  "names_url u (VStr s) \<longleftrightarrow> trimSpace s = u"
| "names_url u _ \<longleftrightarrow> False"

definition relies_on :: "val \<Rightarrow> string \<Rightarrow> bool" where
  "relies_on c u \<longleftrightarrow> u \<noteq> [] \<and> list_ex (names_url u) (listField c [''sources''])"

lemma support_supporters: "i \<in> set (supporters (support j s m) u) \<longleftrightarrow>
    i \<in> set (supporters m u) \<or> i = j \<and> u \<noteq> [] \<and> names_url u s"
  by (cases s) (auto simp: support_def supporters_def put_lookup Let_def split: option.splits)

lemma supports_supporters: "i \<in> set (supporters (fold (support j) ss m) u) \<longleftrightarrow>
    i \<in> set (supporters m u) \<or> i = j \<and> u \<noteq> [] \<and> list_ex (names_url u) ss"
  by (induction ss arbitrary: m) (auto simp: support_supporters)

lemma supporters_iff: "i \<in> set (supporters (supports_of claims) u) \<longleftrightarrow>
    (\<exists>c \<in> set claims. stringField c [''id''] = i \<and> relies_on c u)"
proof -
  have "i \<in> set (supporters (fold (\<lambda>c. fold (support (stringField c [''id''])) (listField c [''sources''])) claims m) u) \<longleftrightarrow>
      i \<in> set (supporters m u) \<or> (\<exists>c \<in> set claims. stringField c [''id''] = i \<and> relies_on c u)" for m
    by (induction claims arbitrary: m) (auto simp: supports_supporters relies_on_def)
  from this [of "[]"] show ?thesis by (simp add: supports_of_def supporters_def)
qed

lemma supporters_some: "supporters (supports_of claims) u \<noteq> [] \<longleftrightarrow> (\<exists>c \<in> set claims. relies_on c u)"
proof -
  have "supporters (supports_of claims) u \<noteq> [] \<longleftrightarrow> (\<exists>i. i \<in> set (supporters (supports_of claims) u))"
    by (cases "supporters (supports_of claims) u") auto
  then show ?thesis by (simp add: supporters_iff) blast
qed

text \<open>The listed entries: a kept one has no problem, and the valid markers are those of the entries without one.\<close>

definition sound_entry :: "val list \<Rightarrow> citation \<Rightarrow> bool" where
  "sound_entry claims e \<longleftrightarrow> markerName (ci_marker e) \<and> list_ex (\<lambda>c. relies_on c (ci_url e)) claims"

definition entries_inv :: "val list \<Rightarrow> citation list \<Rightarrow> string gomap \<Rightarrow> bool" where
  "entries_inv claims es vs \<longleftrightarrow> (\<forall>e \<in> set es. ci_problem e = [] \<longrightarrow> sound_entry claims e \<and> map_of vs (ci_marker e) = Some (ci_url e))"

definition valid_inv :: "citation list \<Rightarrow> string gomap \<Rightarrow> string set \<Rightarrow> bool" where
  "valid_inv es vs known \<longleftrightarrow> (\<forall>n u. map_of vs n = Some u \<longrightarrow> n \<in> known \<and> u \<noteq> [] \<and>
     (\<exists>e \<in> set es. ci_marker e = n \<and> ci_url e = u \<and> ci_problem e = []))"

definition listed_inv :: "val list \<Rightarrow> listedCitations \<Rightarrow> bool" where
  "listed_inv claims l \<longleftrightarrow> entries_inv claims (li_entries l) (li_valid l) \<and> valid_inv (li_entries l) (li_valid l) (li_known l)"

lemma citation_problem_Nil: "citation_problem (supports_of claims) known marker u = [] \<longleftrightarrow>
    markerName marker \<and> marker \<notin> known \<and> list_ex (\<lambda>c. relies_on c u) claims"
  using supporters_some [of claims u] by (auto simp: citation_problem_def malformed_marker_def list_ex_iff)

lemma relies_on_url: "list_ex (\<lambda>c. relies_on c u) claims \<Longrightarrow> u \<noteq> []"
  by (auto simp: list_ex_iff relies_on_def)

lemma entries_inv_problem: "entries_inv claims es vs \<Longrightarrow> ci_problem e \<noteq> [] \<Longrightarrow> entries_inv claims (es @ [e]) vs"
  by (auto simp: entries_inv_def)

lemma valid_inv_problem: "valid_inv es vs known \<Longrightarrow> known \<subseteq> known' \<Longrightarrow> valid_inv (es @ [e]) vs known'"
  unfolding valid_inv_def set_append by blast

lemma entries_inv_valid:
  assumes "entries_inv claims es vs" and "\<And>e. e \<in> set es \<Longrightarrow> ci_problem e = [] \<Longrightarrow> ci_marker e \<noteq> n"
    and "sound_entry claims \<lparr>ci_marker = n, ci_url = u, ci_problem = []\<rparr>"
  shows "entries_inv claims (es @ [\<lparr>ci_marker = n, ci_url = u, ci_problem = []\<rparr>]) (put n u vs)"
  using assms by (simp add: entries_inv_def put_lookup)

lemma valid_inv_valid:
  assumes "valid_inv es vs known" and "u \<noteq> []"
  shows "valid_inv (es @ [\<lparr>ci_marker = n, ci_url = u, ci_problem = []\<rparr>]) (put n u vs) (insert n known)"
  unfolding valid_inv_def
proof (intro allI impI)
  fix k w assume k: "map_of (put n u vs) k = Some w"
  let ?e = "\<lparr>ci_marker = n, ci_url = u, ci_problem = []\<rparr>"
  show "k \<in> insert n known \<and> w \<noteq> [] \<and> (\<exists>e \<in> set (es @ [?e]). ci_marker e = k \<and> ci_url e = w \<and> ci_problem e = [])"
  proof (cases "k = n")
    case True
    then show ?thesis using k assms(2) by (simp add: put_lookup)
  next
    case False
    then have "map_of vs k = Some w" using k by (simp add: put_lookup)
    then show ?thesis using assms(1) unfolding valid_inv_def set_append by blast
  qed
qed

lemma list_citation_inv:
  assumes "listed_inv claims l"
  shows "listed_inv claims (list_citation (supports_of claims) c l)"
proof -
  define n u where nu: "n = trimSpace (stringField c [''marker''])" "u = trimSpace (stringField c [''url''])"
  define p where p: "p = citation_problem (supports_of claims) (li_known l) n u"
  have l: "list_citation (supports_of claims) c l =
     \<lparr>li_entries = li_entries l @ [\<lparr>ci_marker = n, ci_url = u, ci_problem = p\<rparr>],
      li_valid = (if p = [] then put n u (li_valid l) else li_valid l),
      li_known = (if markerName n then insert n (li_known l) else li_known l)\<rparr>"
    by (simp add: list_citation_def nu p Let_def)
  have e: "entries_inv claims (li_entries l) (li_valid l)" and v: "valid_inv (li_entries l) (li_valid l) (li_known l)"
    using assms by (simp_all add: listed_inv_def)
  show ?thesis
  proof (cases "p = []")
    case True
    then have ok: "markerName n" "n \<notin> li_known l" "list_ex (\<lambda>c. relies_on c u) claims"
      by (simp_all add: p citation_problem_Nil)
    have fresh: "ci_marker e' \<noteq> n" if "e' \<in> set (li_entries l)" "ci_problem e' = []" for e'
      using e v ok(2) that unfolding entries_inv_def valid_inv_def by blast
    have s: "sound_entry claims \<lparr>ci_marker = n, ci_url = u, ci_problem = []\<rparr>"
      using ok by (simp add: sound_entry_def)
    show ?thesis using entries_inv_valid [OF e fresh s] valid_inv_valid [OF v relies_on_url [OF ok(3)]] ok(1)
      by (simp add: listed_inv_def l True)
  next
    case False
    let ?e = "\<lparr>ci_marker = n, ci_url = u, ci_problem = p\<rparr>"
    have "entries_inv claims (li_entries l @ [?e]) (li_valid l)" by (rule entries_inv_problem [OF e]) (simp add: False)
    moreover have "valid_inv (li_entries l @ [?e]) (li_valid l) known'" if "li_known l \<subseteq> known'" for known'
      by (rule valid_inv_problem [OF v that])
    ultimately show ?thesis using False by (simp add: listed_inv_def l subset_insertI)
  qed
qed

lemma list_citations_inv: "listed_inv claims (list_citations (supports_of claims) cs)"
proof -
  have "listed_inv claims l \<Longrightarrow> listed_inv claims (fold (list_citation (supports_of claims)) cs l)" for l
    by (induction cs arbitrary: l) (simp_all add: list_citation_inv)
  moreover have "listed_inv claims \<lparr>li_entries = [], li_valid = [], li_known = {}\<rparr>"
    by (simp add: listed_inv_def entries_inv_def valid_inv_def)
  ultimately show ?thesis unfolding list_citations_def by blast
qed

text \<open>The markers in use are those of the text's marker tokens that are valid.\<close>

definition token_uses :: "listedCitations \<Rightarrow> token \<Rightarrow> string set" where
  "token_uses l t = (case t of Marker names \<Rightarrow> {n \<in> set (marker_names names). is_valid l n} | _ \<Rightarrow> {})"

fun piece_uses :: "listedCitations \<Rightarrow> piece \<times> string \<Rightarrow> string set" where
  "piece_uses l (Token t raw, rest) = token_uses l t"
| "piece_uses l (Plain c, rest) = {}"

lemma clean_piece_uses: "cl_used (clean_piece sp l p st) = cl_used st \<union> piece_uses l p"
  by (auto simp: clean_piece_def token_uses_def Let_def split: piece.splits token.splits prod.splits)

lemma clean_pieces_uses: "cl_used (fold (clean_piece sp l) ps st) = cl_used st \<union> (\<Union>p \<in> set ps. piece_uses l p)"
  by (induction ps arbitrary: st) (simp_all add: clean_piece_uses Un_assoc)

lemma clean_text_uses: "cl_used (clean_text sp l s st) = cl_used st \<union> (\<Union>t \<in> set (tokens s). token_uses l t)"
proof -
  have "(\<Union>p \<in> set ps. piece_uses l p) =
      (\<Union>t \<in> set (List.map_filter (\<lambda>(p, rest). case p of Token t raw \<Rightarrow> Some t | Plain c \<Rightarrow> None) ps). token_uses l t)" for ps
    by (induction ps) (auto simp: List.map_filter_simps split: piece.splits)
  then show ?thesis by (simp add: clean_text_def clean_pieces_uses tokens_def)
qed

text \<open>The entries kept are sound, cited in the text and of distinct markers.\<close>

definition kept_ok :: "string set \<Rightarrow> citation list \<Rightarrow> citation list \<Rightarrow> bool" where
  "kept_ok used es cs \<longleftrightarrow> distinct (map ci_marker cs) \<and> (\<forall>e \<in> set cs. e \<in> set es \<and> ci_problem e = [] \<and> ci_marker e \<in> used)"

lemma keep_entry_ok: "kept_ok used es (kp_citations k) \<Longrightarrow> e \<in> set es \<Longrightarrow> kept_ok used es (kp_citations (keep_entry used e k))"
  by (auto simp: keep_entry_def kept_ok_def)

lemma keep_entries_ok: "kept_ok used es (kp_citations k) \<Longrightarrow> set us \<subseteq> set es \<Longrightarrow> kept_ok used es (kp_citations (fold (keep_entry used) us k))"
  by (induction us arbitrary: k) (simp_all add: keep_entry_ok)

lemma kept_citations_sound:
  assumes "sp = supports_of claims" and "l = list_citations sp cs"
  shows "distinct (map ci_marker (cr_citations (check_report sp l title summary body))) \<and>
    list_all (sound_entry claims) (cr_citations (check_report sp l title summary body))"
proof -
  define used where "used = cl_used (clean_text sp l body (clean_text sp l summary (clean_text sp l title \<lparr>cl_out = [], cl_used = {}, cl_removals = []\<rparr>)))"
  have "kept_ok used (li_entries l) (cr_citations (check_report sp l title summary body))"
    unfolding check_report_def Let_def used_def [symmetric] checkedReport.simps
    by (rule keep_entries_ok) (simp_all add: kept_ok_def)
  then show ?thesis using list_citations_inv [of claims cs] assms
    by (auto simp: kept_ok_def listed_inv_def entries_inv_def list_all_iff)
qed

lemma keep_entry_covers: "ci_problem e = [] \<Longrightarrow> ci_marker e \<in> used \<Longrightarrow> ci_marker e \<in> ci_marker ` set (kp_citations (keep_entry used e k))"
  by (auto simp: keep_entry_def)

lemma keep_entry_grows: "set (kp_citations k) \<subseteq> set (kp_citations (keep_entry used e k))"
  by (auto simp: keep_entry_def)

lemma keep_entries_grow: "set (kp_citations k) \<subseteq> set (kp_citations (fold (keep_entry used) es k))"
proof (induction es arbitrary: k)
  case (Cons e es)
  show ?case using Cons.IH [of "keep_entry used e k"] keep_entry_grows [of k used e] by simp
qed simp

lemma keep_entries_cover: "e \<in> set es \<Longrightarrow> ci_problem e = [] \<Longrightarrow> ci_marker e \<in> used \<Longrightarrow>
    ci_marker e \<in> ci_marker ` set (kp_citations (fold (keep_entry used) es k))"
proof (induction es arbitrary: k)
  case (Cons x es)
  show ?case
  proof (cases "e = x")
    case True
    then show ?thesis using keep_entry_covers [OF Cons.prems(2,3), of k] keep_entries_grow [of "keep_entry used e k" used es] by auto
  qed (use Cons in simp)
qed simp

lemma fold_remove_once_Nil: "fold remove_once rs us = [] \<longleftrightarrow> rs = [] \<and> us = []"
proof (induction rs arbitrary: us)
  case (Cons r rs)
  have "remove_once r us \<noteq> []" by (cases us) (simp_all add: remove_once_def)
  then show ?case by (simp add: Cons.IH)
qed simp

text \<open>A marker token of a text names a citation.\<close>

definition cites :: "string \<Rightarrow> string \<Rightarrow> bool" where
  "cites s n \<longleftrightarrow> list_ex (\<lambda>t. case t of Marker names \<Rightarrow> n \<in> set (marker_names names) | _ \<Rightarrow> False) (tokens s)"

lemma token_uses_cites: "n \<in> token_uses l t \<Longrightarrow> t \<in> set (tokens s) \<Longrightarrow> cites s n"
  by (cases t) (force simp: token_uses_def cites_def list_ex_iff)+

definition used_markers :: "listedCitations \<Rightarrow> string list \<Rightarrow> string set" where
  "used_markers l ss = (\<Union>s \<in> set ss. \<Union>t \<in> set (tokens s). token_uses l t)"

lemma check_report_parts:
  "cr_citations (check_report sp l title summary body) =
     kp_citations (fold (keep_entry (used_markers l [title, summary, body])) (li_entries l) \<lparr>kp_citations = [], kp_removed = []\<rparr>)"
  "cr_removed (check_report sp l title summary body) =
     fold remove_once (concat (map (token_removals sp l) (tokens title @ tokens summary @ tokens body)))
       (kp_removed (fold (keep_entry (used_markers l [title, summary, body])) (li_entries l) \<lparr>kp_citations = [], kp_removed = []\<rparr>))"
  by (simp_all add: check_report_def Let_def clean_text_uses clean_text_removals used_markers_def Un_assoc)

lemma used_cited: "n \<in> used_markers l ss \<Longrightarrow> list_ex (\<lambda>s. cites s n) ss"
  by (auto simp: used_markers_def list_ex_iff intro: token_uses_cites)

lemma kept_citations_cited:
  "list_all (\<lambda>e. list_ex (\<lambda>s. cites s (ci_marker e)) [title, summary, body]) (cr_citations (check_report sp l title summary body))"
proof -
  have "kept_ok (used_markers l [title, summary, body]) (li_entries l) (cr_citations (check_report sp l title summary body))"
    unfolding check_report_parts by (rule keep_entries_ok) (simp_all add: kept_ok_def)
  then show ?thesis using used_cited unfolding kept_ok_def list_all_iff by blast
qed

definition checked_report :: "val \<Rightarrow> val list \<Rightarrow> checkedReport" where
  "checked_report report claims = (let sp = supports_of claims in
     check_report sp (list_citations sp (listField report [''citations''])) (stringField report [''title''])
       (stringField report [''summary'']) (stringField report [''body_markdown'']))"

definition report_texts :: "val \<Rightarrow> string list" where
  "report_texts report = [stringField report [''title''], stringField report [''summary''], stringField report [''body_markdown'']]"

lemma citation_call:
  assumes "Call checkCitations args = Returned r"
  obtains report claims where "map_of args ''report'' = Some report" "map_of args ''claims'' = Some (VList claims)"
    "r = citationCheck report claims"
proof -
  from assms have c: "checkArgs citation_params args = None" and b: "citation_body args = Returned r"
    by (simp_all add: checkCitations_def checked_Returned)
  from c obtain report where r: "map_of args ''report'' = Some report"
    by (fastforce simp: checkArgs_None citation_params_def)
  from c obtain claims where cl: "map_of args ''claims'' = Some (VList claims)"
    by (fastforce simp: checkArgs_None citation_params_def arg_ok_def conforms_ArrayType)
  have "r = citationCheck report claims" using b by (simp add: citation_body_def arg_val_def r cl)
  with r cl that show ?thesis by blast
qed

lemma citationCheck_fields:
  "field_value (citationCheck report claims) ''title'' = VStr (cr_title (checked_report report claims))"
  "field_value (citationCheck report claims) ''summary'' = VStr (cr_summary (checked_report report claims))"
  "field_value (citationCheck report claims) ''body_markdown'' = VStr (cr_body (checked_report report claims))"
  "field_value (citationCheck report claims) ''citations'' =
     VList (map (citation_val (supports_of claims)) (cr_citations (checked_report report claims)))"
  "field_value (citationCheck report claims) ''status'' =
     VStr (if cr_removed (checked_report report claims) = [] then ''verified'' else ''corrected'')"
  by (simp_all add: citationCheck_def checked_report_def Let_def)

lemma citations_sourced:
  assumes "Call checkCitations args = Returned r"
  shows "\<exists>report claims cs. map_of args ''report'' = Some report \<and> map_of args ''claims'' = Some (VList claims) \<and>
    field_value r ''citations'' = VList (map (citation_val (supports_of claims)) cs) \<and> distinct (map ci_marker cs) \<and>
    list_all (\<lambda>e. sound_entry claims e \<and> list_ex (\<lambda>s. cites s (ci_marker e)) (report_texts report)) cs"
proof -
  obtain report claims where rc: "map_of args ''report'' = Some report" "map_of args ''claims'' = Some (VList claims)"
      "r = citationCheck report claims"
    using citation_call [OF assms] by blast
  let ?cs = "cr_citations (checked_report report claims)"
  have "distinct (map ci_marker ?cs)" "list_all (sound_entry claims) ?cs"
    using kept_citations_sound [OF refl refl] by (simp_all add: checked_report_def Let_def)
  moreover have "list_all (\<lambda>e. list_ex (\<lambda>s. cites s (ci_marker e)) (report_texts report)) ?cs"
    using kept_citations_cited unfolding checked_report_def Let_def report_texts_def by blast
  ultimately show ?thesis
    by (intro exI [of _ report] exI [of _ claims] exI [of _ ?cs]) (simp add: rc citationCheck_fields list_all_iff)
qed

text \<open>A text all of whose tokens are allowed: links and URLs an accepted claim relies on, markers of the given citations.\<close>

definition sourced_token :: "val list \<Rightarrow> string list \<Rightarrow> token \<Rightarrow> bool" where
  "sourced_token claims markers t = (case t of
     Link _ u \<Rightarrow> list_ex (\<lambda>c. relies_on c u) claims
   | Marker names \<Rightarrow> list_all (\<lambda>n. n \<in> set markers) (marker_names names)
   | Bare tok \<Rightarrow> list_ex (\<lambda>c. relies_on c (trim_tail tok)) claims)"

definition sourced_text :: "val list \<Rightarrow> string list \<Rightarrow> string \<Rightarrow> bool" where
  "sourced_text claims markers s = list_all (sourced_token claims markers) (tokens s)"

lemma valid_kept:
  assumes "is_valid (list_citations (supports_of claims) cs) n" and "n \<in> used_markers (list_citations (supports_of claims) cs) ss"
  shows "n \<in> ci_marker ` set (kp_citations (fold (keep_entry (used_markers (list_citations (supports_of claims) cs) ss))
    (li_entries (list_citations (supports_of claims) cs)) k))"
proof -
  let ?l = "list_citations (supports_of claims) cs"
  obtain u where "map_of (li_valid ?l) n = Some u" using assms(1) by (auto simp: is_valid_def split: option.splits)
  then obtain e where "e \<in> set (li_entries ?l)" "ci_marker e = n" "ci_problem e = []"
    using list_citations_inv [of claims cs] unfolding listed_inv_def valid_inv_def by blast
  then show ?thesis using keep_entries_cover [of e _ _ k] assms(2) by blast
qed

lemma verified_sourced:
  assumes "cr_removed (checked_report report claims) = []" and "s \<in> set (report_texts report)"
  shows "sourced_text claims (map ci_marker (cr_citations (checked_report report claims))) s"
  unfolding sourced_text_def list_all_iff
proof
  fix t assume t: "t \<in> set (tokens s)"
  let ?l = "list_citations (supports_of claims) (listField report [''citations''])"
  have ok: "token_ok (supports_of claims) ?l t"
    using assms t unfolding checked_report_def Let_def check_report_parts fold_remove_once_Nil
    by (auto simp: report_texts_def token_removals_Nil)
  show "sourced_token claims (map ci_marker (cr_citations (checked_report report claims))) t"
  proof (cases t)
    case (Marker names)
    have "n \<in> set (map ci_marker (cr_citations (checked_report report claims)))" if n: "n \<in> set (marker_names names)" for n
    proof -
      have v: "is_valid ?l n" using ok n Marker by (simp add: token_ok_def)
      then have "n \<in> used_markers ?l (report_texts report)"
        using assms(2) t Marker n unfolding used_markers_def by (force simp: token_uses_def)
      from valid_kept [OF v this] show ?thesis
        by (simp add: checked_report_def Let_def check_report_parts report_texts_def)
    qed
    then show ?thesis using Marker by (simp add: sourced_token_def list_all_iff)
  qed (use ok in \<open>simp_all add: token_ok_def sourced_token_def supporters_some list_ex_iff\<close>)
qed

lemma verified_clean:
  assumes "Call checkCitations args = Returned r" and "field_value r ''status'' = VStr ''verified''"
  shows "\<exists>report claims cs. map_of args ''report'' = Some report \<and> map_of args ''claims'' = Some (VList claims) \<and>
    field_value r ''citations'' = VList (map (citation_val (supports_of claims)) cs) \<and>
    list_all (sourced_text claims (map ci_marker cs)) (report_texts report) \<and>
    map (field_value r) [''title'', ''summary'', ''body_markdown''] = map (VStr \<circ> split_markers) (report_texts report)"
proof -
  obtain report claims where rc: "map_of args ''report'' = Some report" "map_of args ''claims'' = Some (VList claims)"
      "r = citationCheck report claims"
    using citation_call [OF assms(1)] by blast
  let ?sp = "supports_of claims" and ?l = "list_citations (supports_of claims) (listField report [''citations''])"
  have none: "cr_removed (checked_report report claims) = []"
    using assms(2) by (simp add: rc citationCheck_fields split: if_splits)
  have ok: "\<forall>t \<in> set (tokens s). token_ok ?sp ?l t" if "s \<in> set (report_texts report)" for s
    using none that unfolding checked_report_def Let_def check_report_parts fold_remove_once_Nil
    by (auto simp: report_texts_def token_removals_Nil)
  have "map (field_value r) [''title'', ''summary'', ''body_markdown''] = map (VStr \<circ> split_markers) (report_texts report)"
    using ok [of "stringField report [''title'']"] ok [of "stringField report [''summary'']"] ok [of "stringField report [''body_markdown'']"]
    by (simp add: rc citationCheck_fields checked_report_def Let_def check_report_def report_texts_def clean_text_kept)
  moreover have "list_all (sourced_text claims (map ci_marker (cr_citations (checked_report report claims)))) (report_texts report)"
    using verified_sourced [OF none] by (simp add: list_all_iff)
  ultimately show ?thesis
    by (intro exI [of _ report] exI [of _ claims] exI [of _ "cr_citations (checked_report report claims)"])
      (simp add: rc citationCheck_fields)
qed

end
