(* ===== verification/Compile.thy ===== *)
theory Compile
  imports Definition Functions
begin

text \<open>
  The checks a definition passes before its graph is known (validate.go, from \<^verbatim>\<open>checkHeader\<close>
  to \<^verbatim>\<open>compileBranch\<close>), with the Capability Contracts and the Workspace Access of catalog.go.
  Every check returns the problems it would append, in order; reading files also threads the
  files, schemas and policies already used. A definition is valid when no check adds a problem.
\<close>

section \<open>Problems\<close>

type_synonym problem = "string \<times> errmsg"

definition prob :: "string \<Rightarrow> string \<Rightarrow> farg list \<Rightarrow> problem list" where
  "prob path format args = [(path, Errf format args)]"

definition err_prob :: "string \<Rightarrow> errmsg \<Rightarrow> problem list" where
  "err_prob path e = [(path, e)]"

definition on :: "bool \<Rightarrow> problem list \<Rightarrow> problem list" where
  "on c ps = (if c then ps else [])"

lemma prob_neq [simp]: "prob p f a \<noteq> []" "err_prob p e \<noteq> []"
  by (simp_all add: prob_def err_prob_def)

lemma on_Nil [simp]: "on c ps = [] \<longleftrightarrow> c \<longrightarrow> ps = []"
  by (simp add: on_def)

lemma if_Nil: "(if c then a else b) = [] \<longleftrightarrow> (c \<longrightarrow> a = []) \<and> (\<not> c \<longrightarrow> b = [])"
  by simp

section \<open>Capability Contracts and Workspace Access\<close>

record capabilityContract =
  CID :: string
  CContract :: string
  Effect :: bool
  Idempotent :: bool
  Reconciles :: bool
  ConflictKeys :: string
  CInput :: "ty option"
  COutput :: "ty option"
  Connections :: "string list"
  Resources :: "string list"
  ResourcePrefix :: string

record connectionAccess =
  AID :: string
  AResources :: "string list"

type_synonym workspaceAccess = "connectionAccess list"

definition access_connection :: "workspaceAccess \<Rightarrow> string \<Rightarrow> connectionAccess option" where
  "access_connection a i = find (\<lambda>c. AID c = i) a"

definition allows :: "connectionAccess \<Rightarrow> string \<Rightarrow> bool" where
  "allows c r = list_ex (\<lambda>x. x = r) (AResources c)"

definition Allows :: "workspaceAccess \<Rightarrow> string \<Rightarrow> string \<Rightarrow> bool" where
  "Allows a connection resource = (case access_connection a connection of
     Some c \<Rightarrow> allows c resource | None \<Rightarrow> False)"

definition orEmptyObject :: "ty option \<Rightarrow> ty" where
  "orEmptyObject t = (case t of Some u \<Rightarrow> u | None \<Rightarrow> ObjectType [])"

definition CheckOutput :: "capabilityContract \<Rightarrow> val \<Rightarrow> errmsg option" where
  "CheckOutput c v = checkValue (Some (orEmptyObject (COutput c))) v"

definition EffectSummary :: "bool \<Rightarrow> bool \<Rightarrow> bool \<Rightarrow> string \<Rightarrow> string" where
  "EffectSummary eff idempotent reconciles conflictKeys = (if \<not> eff then ''read'' else
     ''effect'' @ (if idempotent then '', idempotent'' else []) @
     (if reconciles then '', reconciled by the provider'' else '', reconciled by the owner'') @
     '', conflict keys per '' @ (if conflictKeys = [] then ''resource'' else conflictKeys))"

section \<open>The environment and the validator\<close>

text \<open>
  A Source answers a read with the file, with \<^verbatim>\<open>fs.ErrNotExist\<close>, or with another error's text.
\<close>

datatype read = ReadOk string | ReadNotExist | ReadErr string

record environment =
  Capabilities :: "string \<Rightarrow> capabilityContract option"
  Access :: workspaceAccess
  WDeadline :: int
  WTokens :: int
  AccessUnchecked :: bool

record runLimits =
  duration :: int
  maxAttempts :: int
  parallel :: int
  tokenLimit :: int

text \<open>
  The part of the validator every check reads: the source, the decoder of its JSON files, the
  environment, the definition, the registry, and the limits once checked.
\<close>

record validator =
  src :: "string \<Rightarrow> read"
  decode :: decoder
  env :: environment
  defn :: definition_
  registry :: "func gomap"
  vlimits :: runLimits
  limitsOK :: bool

section \<open>Header, limits, inputs, policies\<close>

definition checkHeader :: "definition_ \<Rightarrow> problem list" where
  "checkHeader d =
     on (SchemaVersion d = 0) (prob ''schema_version'' ''required; this Evie reads schema_version %d'' [I currentSchemaVersion]) @
     on (SchemaVersion d \<noteq> 0 \<and> SchemaVersion d \<noteq> currentSchemaVersion)
       (prob ''schema_version'' ''unsupported schema_version %d; this Evie reads %d'' [I (SchemaVersion d), I currentSchemaVersion]) @
     on (\<not> namePattern (DName d))
       (prob ''name'' ''%q must be 1 to 64 lowercase letters, digits and hyphens, starting with a letter'' [S (DName d)]) @
     (case Retention d of
        None \<Rightarrow> prob ''retention'' ''required: classification ordinary or sensitive'' []
      | Some c \<Rightarrow> on (c \<noteq> ''ordinary'' \<and> c \<noteq> ''sensitive'')
          (prob ''retention.classification'' ''unknown classification %s; use ordinary or sensitive'' [S c]))"

definition limit_check :: "string \<Rightarrow> int \<Rightarrow> int \<Rightarrow> problem list" where
  "limit_check fname value limit =
     (if value = 0 then prob (''limits.'' @ fname) ''required'' []
      else if value < 0 then prob (''limits.'' @ fname) ''must be positive'' []
      else if limit < value then prob (''limits.'' @ fname) ''%s is above %s'' [I value, I limit]
      else [])"

definition duration_check :: "string \<Rightarrow> problem list \<times> int" where
  "duration_check s = (if s = [] then (prob ''limits.max_duration'' ''required'' [], 0)
     else (case parsePositiveDuration s of
       Inl e \<Rightarrow> (err_prob ''limits.max_duration'' e, 0)
     | Inr d \<Rightarrow> if maxRunDuration < d then (prob ''limits.max_duration'' ''%s is above %s'' [I d, I maxRunDuration], 0)
         else ([], d)))"

text \<open>\<^verbatim>\<open>checkLimits\<close>: its problems, the limits it stores, and whether they are usable.\<close>

definition checkLimits :: "limits option \<Rightarrow> problem list \<times> runLimits \<times> bool" where
  "checkLimits lo = (case lo of
     None \<Rightarrow> (prob ''limits'' ''required: max_duration, max_attempts, max_parallel and max_tokens'' [],
       \<lparr>duration = 0, maxAttempts = 0, parallel = 0, tokenLimit = 0\<rparr>, False)
   | Some l \<Rightarrow> let
       (ps, d) = duration_check (l_MaxDuration l);
       qs = limit_check ''max_attempts'' (l_MaxAttempts l) maxRunAttempts @
            limit_check ''max_parallel'' (l_MaxParallel l) maxRunParallel @
            limit_check ''max_tokens'' (l_MaxTokens l) maxRunTokens
     in (ps @ qs, \<lparr>duration = d, maxAttempts = l_MaxAttempts l, parallel = l_MaxParallel l, tokenLimit = l_MaxTokens l\<rparr>,
         ps @ qs = []))"

record inputInfo =
  iname :: string
  spec :: inputSpec
  itype :: ty
  idefault :: val
  hasDefault :: bool

definition input_kind :: "string \<Rightarrow> kind option" where
  "input_kind t = map_of [(''string'', KString), (''integer'', KInteger), (''number'', KNumber), (''boolean'', KBoolean)] t"

text \<open>The enumeration of an input: a value that does not fit is a problem and is left out.\<close>

definition enum_item :: "kind \<Rightarrow> ynode \<Rightarrow> errmsg + val" where
  "enum_item k node = (case nodeValue node of Inl e \<Rightarrow> Inl e
     | Inr v \<Rightarrow> (case checkValue (Some (plain k)) v of Some e \<Rightarrow> Inl e | None \<Rightarrow> Inr v))"

fun enum_items :: "string \<Rightarrow> kind \<Rightarrow> nat \<Rightarrow> ynode list \<Rightarrow> problem list \<times> val list" where
  "enum_items p k i [] = ([], [])"
| "enum_items p k i (x # xs) = (let (ps, vs) = enum_items p k (Suc i) xs in
     case enum_item k x of
       Inl e \<Rightarrow> (err_prob (p @ ''.enum['' @ itoa (int i) @ '']'') e @ ps, vs)
     | Inr v \<Rightarrow> (ps, v # vs))"

definition compileInput :: "string \<Rightarrow> inputSpec \<Rightarrow> problem list \<times> inputInfo option" where
  "compileInput name s = (let p = ''inputs.'' @ name in
     if \<not> identifierPattern name then
       (prob p ''%q is not a valid input name; use lowercase letters, digits and _'' [S name], None)
     else (case input_kind (i_Type s) of
       None \<Rightarrow> (if i_Type s = [] then prob (p @ ''.type'') ''required: string, integer, number or boolean'' []
           else prob (p @ ''.type'') ''unknown type %s; use string, integer, number or boolean'' [S (i_Type s)], None)
     | Some k \<Rightarrow> let
         (es, vs) = enum_items p k 0 (i_Enum s);
         numeric = (k = KInteger \<or> k = KNumber);
         t = Type k [] [] False None vs (i_Minimum s) (i_Maximum s) None (i_MaxLength s) None None [];
         (ds, d) = (if written (i_Default s) then
             (case nodeValue (i_Default s) of Inl e \<Rightarrow> (err_prob (p @ ''.default'') e, VNil)
              | Inr v \<Rightarrow> (case checkValue (Some t) v of Some e \<Rightarrow> (err_prob (p @ ''.default'') e, v) | None \<Rightarrow> ([], v)))
           else ([], VNil))
       in (on (i_Required s \<and> written (i_Default s)) (prob p ''an input is either required or has a default, not both'' []) @
           (case i_MaxLength s of None \<Rightarrow> [] | Some n \<Rightarrow>
              if k \<noteq> KString then prob (p @ ''.max_length'') ''applies only to string inputs'' []
              else on (n < 1) (prob (p @ ''.max_length'') ''must be positive'' [])) @
           on (i_Minimum s \<noteq> None \<and> \<not> numeric) (prob (p @ ''.minimum'') ''applies only to integer and number inputs'' []) @
           on (i_Maximum s \<noteq> None \<and> \<not> numeric) (prob (p @ ''.maximum'') ''applies only to integer and number inputs'' []) @
           (case (i_Minimum s, i_Maximum s) of (Some lo, Some hi) \<Rightarrow> on (float_less hi lo) (prob p ''minimum is above maximum'' []) | _ \<Rightarrow> []) @
           es @ ds,
           Some \<lparr>iname = name, spec = s, itype = t, idefault = d, hasDefault = written (i_Default s)\<rparr>)))"

definition checkInputs :: "(string \<times> inputSpec) list \<Rightarrow> problem list \<times> inputInfo gomap" where
  "checkInputs m = (let rs = map (\<lambda>name. (name, compileInput name (the (map_of m name)))) (sortedKeys m) in
     (concat (map (fst \<circ> snd) rs), List.map_filter (\<lambda>(name, _, i). map_option (Pair name) i) rs))"

definition policy_model :: "string \<Rightarrow> string \<Rightarrow> problem list" where
  "policy_model p m = (
     if m = [] then prob (p @ ''.model'') ''required'' []
     else if \<not> modelPattern m then prob (p @ ''.model'') ''%q is not an exact model id such as vendor/model-1.2'' [S m]
     else if hasSuffix (toLower m) ''latest'' then prob (p @ ''.model'') ''%s is a floating alias; pin an exact model version'' [S m]
     else if hasPrefix (toLower m) ''openrouter/'' then
       prob (p @ ''.model'') ''%s routes each request to a model of its choosing; name an exact model'' [S m]
     else on (hasSuffix (toLower m) '':batch'') (prob (p @ ''.model'')
       ''%s needs OpenRouter's asynchronous Batch API, which AI steps do not use; name an exact model without :batch'' [S m]))"

definition checkPolicy :: "runLimits \<Rightarrow> bool \<Rightarrow> string \<Rightarrow> modelPolicy \<Rightarrow> problem list" where
  "checkPolicy rl ok name m = (let p = ''model_policies.'' @ name in
     on (\<not> identifierPattern name) (prob p ''%q is not a valid policy name; use lowercase letters, digits and _'' [S name]) @
     on (m_Version m < 1) (prob (p @ ''.version'') ''required: 1 or more, raised whenever the policy changes'' []) @
     (if m_Provider m = [] then prob (p @ ''.provider'') ''required'' []
      else on (m_Provider m \<noteq> ''openrouter'')
        (prob (p @ ''.provider'') ''unknown provider %s; this Evie supports openrouter'' [S (m_Provider m)])) @
     policy_model p (m_Model m) @
     (case m_Temperature m of None \<Rightarrow> [] | Some x \<Rightarrow> on (float_less x (Fin 0) \<or> float_less (Fin 2) x)
        (prob (p @ ''.temperature'') ''%s is outside 0 to 2'' [F x])) @
     (if m_MaxOutputTokens m = 0 then prob (p @ ''.max_output_tokens'') ''required'' []
      else if m_MaxOutputTokens m < 0 \<or> maxOutputTokens < m_MaxOutputTokens m then
        prob (p @ ''.max_output_tokens'') ''must be 1 to %s'' [I maxOutputTokens]
      else on (ok \<and> tokenLimit rl < m_MaxOutputTokens m)
        (prob (p @ ''.max_output_tokens'') ''%s is above limits.max_tokens %s'' [I (m_MaxOutputTokens m), I (tokenLimit rl)])))"

definition checkPolicies :: "runLimits \<Rightarrow> bool \<Rightarrow> (string \<times> modelPolicy) list \<Rightarrow> problem list" where
  "checkPolicies rl ok m = concat (map (\<lambda>name. checkPolicy rl ok name (the (map_of m name))) (sortedKeys m))"

section \<open>Compiled steps\<close>

record arg =
  ARef :: "ref option"
  ALit :: val
  AConst :: bool
  AType :: "ty option"

record compiledCase =
  cref :: "ref option"
  cop :: string
  cvalue :: val
  hasValue :: bool
  cnext :: string

text \<open>
  A compiled step, or a map step's item; the item of a map is kept in the extension, so an
  item has none, as in the source where an item cannot be a map.
\<close>

record node0 =
  nstep :: step0
  nid :: string
  npath :: string
  nkind :: string
  isItem :: bool
  attempts :: int
  backoff :: int
  args :: "arg gomap"
  noutput :: "ty option"
  fn :: "func option"
  cap :: "capabilityContract option"
  nschema :: "ty option"
  nbudget :: int
  ntokens :: int
  over :: "ref option"
  elem :: "ty option"
  cases :: "compiledCase list"
  known :: bool

record node = node0 +
  item :: "node0 option"

definition fieldsByKind :: "string \<Rightarrow> string list option" where
  "fieldsByKind k = map_of
    [(KindDeterministic, [''next'', ''retry'', ''input'', ''function'']),
     (KindCapability, [''next'', ''retry'', ''input'', ''capability'', ''contract'', ''connection'', ''resource'']),
     (KindAI, [''next'', ''retry'', ''input'', ''model_policy'', ''prompt'', ''output_schema'']),
     (KindAgent, [''next'', ''retry'', ''input'', ''worker'', ''model_policy'', ''objective'', ''output_schema'', ''budget'']),
     (KindMap, [''next'', ''over'', ''max_items'', ''max_parallel'', ''on_item_failure'', ''min_succeeded'', ''item'']),
     (KindBranch, [''cases'', ''default'']),
     (KindInterrupt, [''next'', ''input'', ''message'', ''response_schema''])] k"

definition itemKinds :: "string list" where
  "itemKinds = [KindDeterministic, KindAI, KindAgent]"

definition conditionOps :: "string list" where
  "conditionOps = [''eq'', ''ne'', ''gt'', ''gte'', ''lt'', ''lte'', ''empty'', ''not_empty'']"

section \<open>Retry policies\<close>

definition retry_attempts :: "retry \<Rightarrow> string \<Rightarrow> problem list \<times> int" where
  "retry_attempts r p = (let n = r_MaxAttempts r in
     if n = 0 then (prob (p @ ''.retry.max_attempts'') ''required'' [], 1)
     else if n < 1 \<or> maxStepAttempts < n then
       (prob (p @ ''.retry.max_attempts'') ''%d is outside 1 to %d'' [I n, I maxStepAttempts], 1)
     else ([], n))"

definition retry_backoff :: "retry \<Rightarrow> int \<Rightarrow> string \<Rightarrow> problem list \<times> int" where
  "retry_backoff r n p = (if r_Backoff r = [] then ([], 0)
     else (case parsePositiveDuration (r_Backoff r) of
       Inl e \<Rightarrow> (err_prob (p @ ''.retry.backoff'') e, 0)
     | Inr d \<Rightarrow>
         if maxBackoff < d then (prob (p @ ''.retry.backoff'') ''%s is above %s'' [I d, I maxBackoff], 0)
         else if n = 1 then (prob (p @ ''.retry.backoff'') ''a backoff needs max_attempts above 1'' [], 0)
         else ([], d)))"

text \<open>\<^verbatim>\<open>retryPolicy\<close>: problems, attempts and backoff.\<close>

definition retryPolicy :: "retry option \<Rightarrow> string \<Rightarrow> problem list \<times> int \<times> int" where
  "retryPolicy ro p = (case ro of None \<Rightarrow> ([], 1, 0)
   | Some r \<Rightarrow> let (ps, n) = retry_attempts r p; (qs, b) = retry_backoff r n p in (ps @ qs, n, b))"

lemma retryPolicy_bounds:
  assumes "retryPolicy r p = (ps, n, b)"
  shows "1 \<le> n" "n \<le> maxStepAttempts" "0 \<le> b" "b \<le> maxBackoff"
  using assms
  by (auto simp: retryPolicy_def retry_attempts_def retry_backoff_def bound_defs Let_def
      dest!: parsePositiveDuration_pos split: option.splits if_splits sum.splits prod.splits)

section \<open>Files, prompts, schemas\<close>

record loader =
  lfiles :: "string gomap"
  lschemas :: "ty gomap"
  schemaErrs :: "errmsg gomap"
  usedPolicies :: "string list"

text \<open>
  \<^verbatim>\<open>path.Clean(file) == file\<close> for a relative path without \<^verbatim>\<open>..\<close> segments: no empty and no
  \<^verbatim>\<open>.\<close> segment, or the path \<^verbatim>\<open>.\<close> itself.
\<close>

definition cleanPath :: "string \<Rightarrow> bool" where
  "cleanPath file \<longleftrightarrow> file = ''.'' \<or> list_all (\<lambda>s. s \<noteq> [] \<and> s \<noteq> ''.'') (split_at (CHR ''/'') file)"

definition containsText :: "string \<Rightarrow> string \<Rightarrow> bool" where
  "containsText s t = list_ex (\<lambda>u. prefix t u) (suffixes s)"

definition file_shape :: "string \<Rightarrow> string \<Rightarrow> string \<Rightarrow> string \<Rightarrow> problem list" where
  "file_shape file p ext role = (
     if containsByte file (CHR 0x5C) then prob p ''%s: separate folders with /'' [S file]
     else if hasPrefix file ''/'' \<or> (1 < length file \<and> file ! 1 = CHR '':'') then
       prob p ''%s must be relative to the definition'' [S file]
     else if \<not> cleanPath file \<or> ''..'' \<in> set (split_at (CHR ''/'') file) then
       prob p ''%s must be a clean path inside the definition'' [S file]
     else if \<not> hasSuffix file ext then prob p ''%s: %s must be %s files'' [S file, S role, S ext]
     else on (file = ''README.md'' \<or> file = ''workflow.yaml'') (prob p ''%s is not a %s file'' [S file, S role]))"

definition loadFile :: "(string \<Rightarrow> read) \<Rightarrow> string \<Rightarrow> string \<Rightarrow> string \<Rightarrow> string \<Rightarrow> int \<Rightarrow> loader
    \<Rightarrow> string option \<times> problem list \<times> loader" where
  "loadFile rd file p ext role limit ld = (case file_shape file p ext role of
     e # es \<Rightarrow> (None, e # es, ld)
   | [] \<Rightarrow> (case map_of (lfiles ld) file of
       Some data \<Rightarrow> (Some data, [], ld)
     | None \<Rightarrow> (case rd file of
         ReadNotExist \<Rightarrow> (None, prob p ''%s not found'' [S file], ld)
       | ReadErr msg \<Rightarrow>
           if containsText msg ''escapes'' then (None, prob p ''%s must be a clean path inside the definition'' [S file], ld)
           else (None, prob p ''%s: %v'' [S file, S msg], ld)
       | ReadOk data \<Rightarrow>
           if limit < int (length data) then (None, prob p ''%s is larger than %d KiB'' [S file, I (limit div 1024)], ld)
           else (Some data, [], ld\<lparr>lfiles := put file data (lfiles ld)\<rparr>))))"

definition loadPrompt :: "(string \<Rightarrow> read) \<Rightarrow> string \<Rightarrow> string \<Rightarrow> loader \<Rightarrow> problem list \<times> loader" where
  "loadPrompt rd file p ld = (if file = [] then (prob p ''required: a Markdown prompt file'' [], ld)
     else snd (loadFile rd file p ''.md'' ''prompts'' maxPromptBytes ld))"

definition schema_of :: "decoder \<Rightarrow> string \<Rightarrow> errmsg + ty" where
  "schema_of dc data = (case parseSchema dc data of Inl e \<Rightarrow> Inl e
     | Inr (t, _) \<Rightarrow> if Kind t \<noteq> KObject then Inl (Errf ''the root must be an object'' []) else Inr t)"

definition loadSchema :: "(string \<Rightarrow> read) \<Rightarrow> decoder \<Rightarrow> string \<Rightarrow> string \<Rightarrow> loader
    \<Rightarrow> ty option \<times> problem list \<times> loader" where
  "loadSchema rd dc file p ld = (case map_of (schemaErrs ld) file of
     Some msg \<Rightarrow> (None, err_prob p msg, ld)
   | None \<Rightarrow> (case map_of (lschemas ld) file of
       Some t \<Rightarrow> (Some t, [], ld)
     | None \<Rightarrow> (case loadFile rd file p ''.json'' ''schemas'' maxSchemaBytes ld of
         (None, ps, ld') \<Rightarrow> (None, ps, ld')
       | (Some data, ps, ld') \<Rightarrow> (case schema_of dc data of
           Inl e \<Rightarrow> let msg = Errf ''%s: %v'' [S file, E e] in
             (None, ps @ err_prob p msg, ld'\<lparr>schemaErrs := put file msg (schemaErrs ld'), lfiles := AList.delete file (lfiles ld')\<rparr>)
         | Inr t \<Rightarrow> (Some t, ps, ld'\<lparr>lschemas := put file t (lschemas ld')\<rparr>)))))"

definition usePolicy :: "definition_ \<Rightarrow> string \<Rightarrow> string \<Rightarrow> loader \<Rightarrow> problem list \<times> loader" where
  "usePolicy d name p ld = (
     if name = [] then (prob p ''required: a named Model Policy'' [], ld)
     else if \<not> hasKey (ModelPolicies d) name then (prob p ''unknown model policy %s'' [S name], ld)
     else ([], ld\<lparr>usedPolicies := name # usedPolicies ld\<rparr>))"

text \<open>Every schema in the cache is an accepted one: strict, well-formed, an object.\<close>

definition loader_ok :: "loader \<Rightarrow> bool" where
  "loader_ok ld \<longleftrightarrow> (\<forall>f t. map_of (lschemas ld) f = Some t \<longrightarrow> strict t \<and> wf_ty t \<and> Kind t = KObject)"

lemma schema_of_ok: "schema_of dc data = Inr t \<Longrightarrow> strict t \<and> wf_ty t \<and> Kind t = KObject"
  by (auto simp: schema_of_def parseSchema_def dest!: schemaType_strict_wf split: sum.splits if_splits prod.splits)

lemma loadFile_schemas [simp]: "loadFile rd file p ext role limit ld = (r, ps, ld') \<Longrightarrow> lschemas ld' = lschemas ld"
  by (auto simp: loadFile_def split: list.splits option.splits read.splits if_splits)

lemma loadFile_None: "loadFile rd file p ext role limit ld = (None, ps, ld') \<Longrightarrow> ps \<noteq> []"
  by (auto simp: loadFile_def split: list.splits option.splits read.splits if_splits)

text \<open>The four ways \<^verbatim>\<open>loadSchema\<close> ends.\<close>

lemma loadSchema_cases:
  assumes "loadSchema rd dc file p ld = (r, ps, ld')"
  obtains (failed) "r = None" "ps \<noteq> []" "lschemas ld' = lschemas ld"
  | (cached) t where "r = Some t" "map_of (lschemas ld) file = Some t" "ld' = ld" "ps = []"
  | (loaded) t where "r = Some t" "strict t \<and> wf_ty t \<and> Kind t = KObject" "lschemas ld' = put file t (lschemas ld)"
proof (cases "map_of (schemaErrs ld) file")
  case (Some msg)
  then show ?thesis using assms by (intro failed) (auto simp: loadSchema_def)
next
  case none: None
  show ?thesis
  proof (cases "map_of (lschemas ld) file")
    case (Some t)
    then show ?thesis using none assms by (intro cached [of t]) (auto simp: loadSchema_def)
  next
    case None
    obtain d qs l where l: "loadFile rd file p ''.json'' ''schemas'' maxSchemaBytes ld = (d, qs, l)"
      using prod_cases3 by blast
    note load = assms [unfolded loadSchema_def none None l, simplified]
    show ?thesis
    proof (cases d)
      case None
      then show ?thesis using load loadFile_None [OF l [unfolded None]] loadFile_schemas [OF l] by (intro failed) auto
    next
      case data: (Some data)
      show ?thesis
      proof (cases "schema_of dc data")
        case (Inl e)
        then show ?thesis using load data loadFile_schemas [OF l] by (intro failed) (auto simp: Let_def)
      next
        case (Inr t)
        then show ?thesis
          using load data loadFile_schemas [OF l] schema_of_ok [OF Inr] by (intro loaded [of t]) auto
      qed
    qed
  qed
qed

lemma loadSchema_ok:
  assumes "loader_ok ld" and "loadSchema rd dc file p ld = (r, ps, ld')"
  shows "loader_ok ld'" and "r = Some t \<Longrightarrow> strict t \<and> wf_ty t \<and> Kind t = KObject" and "ps = [] \<Longrightarrow> r \<noteq> None"
  using assms(1)
  by (cases rule: loadSchema_cases [OF assms(2)]; auto simp: loader_ok_def put_lookup)+

section \<open>Deterministic and capability steps\<close>

definition compileFunction :: "func gomap \<Rightarrow> string \<Rightarrow> string \<Rightarrow> problem list \<times> func option" where
  "compileFunction reg i p = (
     if i = [] then (prob p ''required: a reviewed function as name@version'' [], None)
     else if \<not> containsByte i (CHR ''@'') then (prob p ''name a function with its version, such as %s@1'' [S i], None)
     else (case map_of reg i of
         None \<Rightarrow> (prob p ''%s is not in the reviewed registry (%s)'' [S i, S (join '', '' (sortedKeys reg))], None)
       | Some f \<Rightarrow> ([], Some f)))"

definition authorityCovers :: "definition_ \<Rightarrow> string \<Rightarrow> string \<Rightarrow> string \<Rightarrow> bool" where
  "authorityCovers d capability connection resource = (case Authority d of
     None \<Rightarrow> False
   | Some ops \<Rightarrow> list_ex (\<lambda>op. o_Capability op = capability \<and> o_Connection op = connection \<and>
        resource \<in> set (o_Resources op)) ops)"

definition capability_fields :: "'a step0_scheme \<Rightarrow> string \<Rightarrow> problem list" where
  "capability_fields s p = concat (map (\<lambda>(f, v). on (v = []) (prob (p @ ''.'' @ f) ''required'' []))
     [(''capability'', Capability s), (''contract'', Contract s), (''connection'', Connection s), (''resource'', Resource s)])"

text \<open>The checks of a capability step against the contract it names.\<close>

definition contract_checks :: "environment \<Rightarrow> definition_ \<Rightarrow> 'a step0_scheme \<Rightarrow> string \<Rightarrow> int \<Rightarrow> capabilityContract \<Rightarrow> problem list" where
  "contract_checks ev d s p tries c =
     on (Contract s \<noteq> [] \<and> Contract s \<noteq> CContract c)
       (prob (p @ ''.contract'') ''%s offers contract %s, not %s'' [S (Capability s), S (CContract c), S (Contract s)]) @
     on (Connections c \<noteq> [] \<and> Connection s \<noteq> [] \<and> Connection s \<notin> set (Connections c))
       (prob (p @ ''.connection'') ''%s is served on connection %s, not %s'' [S (Capability s), S (join '', '' (Connections c)), S (Connection s)]) @
     on (Resources c \<noteq> [] \<and> Resource s \<noteq> [] \<and> Resource s \<notin> set (Resources c))
       (prob (p @ ''.resource'') ''%s serves resource %s, not %s'' [S (Capability s), S (join '', '' (Resources c)), S (Resource s)]) @
     on (ResourcePrefix c \<noteq> [] \<and> Resource s \<noteq> [] \<and>
         (\<not> hasPrefix (Resource s) (ResourcePrefix c) \<or> Resource s = ResourcePrefix c))
       (prob (p @ ''.resource'') ''%s serves resources %s<name>, not %s'' [S (Capability s), S (ResourcePrefix c), S (Resource s)]) @
     on (Connection s \<noteq> [] \<and> \<not> AccessUnchecked ev) (case access_connection (Access ev) (Connection s) of
         None \<Rightarrow> prob (p @ ''.connection'') ''connection %s is outside Workspace Access'' [S (Connection s)]
       | Some conn \<Rightarrow> on (Resource s \<noteq> [] \<and> \<not> allows conn (Resource s))
           (prob (p @ ''.resource'') ''resource %s on %s is outside Workspace Access'' [S (Resource s), S (Connection s)])) @
     on (Connection s \<noteq> [] \<and> Resource s \<noteq> [] \<and> \<not> authorityCovers d (Capability s) (Connection s) (Resource s))
       (prob p ''%s on %s %s is not covered by the requested Standing Authority'' [S (Capability s), S (Connection s), S (Resource s)]) @
     on (Effect c \<and> 1 < tries \<and> \<not> Idempotent c)
       (prob (p @ ''.retry'') ''%s is an effect that is not proven idempotent; it cannot retry'' [S (Capability s)])"

definition compileCapability :: "environment \<Rightarrow> definition_ \<Rightarrow> 'a step0_scheme \<Rightarrow> string \<Rightarrow> int
    \<Rightarrow> problem list \<times> capabilityContract option" where
  "compileCapability ev d s p tries = (
     if Capability s = [] then (capability_fields s p, None)
     else if hasPrefix (Capability s) ''subagents.'' then
       (capability_fields s p @ prob (p @ ''.capability'') ''workflows cannot call %s: agent work uses agent steps, and a workflow cannot merge a build branch in v1'' [S (Capability s)], None)
     else if \<not> capabilityPattern (Capability s) then
       (capability_fields s p @ prob (p @ ''.capability'') ''%q is not a canonical Capability ID such as plugin.operation'' [S (Capability s)], None)
     else (case Capabilities ev (Capability s) of
         None \<Rightarrow> (capability_fields s p @ prob (p @ ''.capability'') ''%s is not in the capability catalog'' [S (Capability s)], None)
       | Some c \<Rightarrow> (capability_fields s p @ contract_checks ev d s p tries c, Some c)))"

text \<open>An accepted capability step is bound, covered, within access, and retried only if idempotent.\<close>

definition capability_authorized :: "environment \<Rightarrow> definition_ \<Rightarrow> 'a step0_scheme \<Rightarrow> int \<Rightarrow> capabilityContract \<Rightarrow> bool" where
  "capability_authorized ev d s tries c \<longleftrightarrow>
     Capabilities ev (Capability s) = Some c \<and> Contract s = CContract c \<and>
     \<not> hasPrefix (Capability s) ''subagents.'' \<and>
     authorityCovers d (Capability s) (Connection s) (Resource s) \<and>
     (AccessUnchecked ev \<or> Allows (Access ev) (Connection s) (Resource s)) \<and>
     (Connections c = [] \<or> Connection s \<in> set (Connections c)) \<and>
     (Resources c = [] \<or> Resource s \<in> set (Resources c)) \<and>
     (ResourcePrefix c = [] \<or> strict_prefix (ResourcePrefix c) (Resource s)) \<and>
     (Effect c \<longrightarrow> tries \<le> 1 \<or> Idempotent c)"

lemma compileCapability_authorized:
  assumes "compileCapability ev d s p tries = ([], c)"
  shows "\<exists>k. c = Some k \<and> capability_authorized ev d s tries k"
proof -
  have ne: "Capability s \<noteq> []" "Contract s \<noteq> []" "Connection s \<noteq> []" "Resource s \<noteq> []"
    using assms by (auto simp: compileCapability_def capability_fields_def split: if_splits option.splits)
  from assms obtain k where k: "Capabilities ev (Capability s) = Some k" "c = Some k"
      "\<not> hasPrefix (Capability s) ''subagents.''" and checks: "contract_checks ev d s p tries k = []"
    using ne by (auto simp: compileCapability_def split: if_splits option.splits)
  show ?thesis
    using k checks ne
    by (auto simp: contract_checks_def capability_authorized_def Allows_def hasPrefix_def strict_prefix_def split: option.splits)
qed

section \<open>Agent steps\<close>

definition reportWithheld :: string where
  "reportWithheld = ''an agent step's output keeps the worker's summary, sources, limitations and typed result; '' @
     ''its full report stays in the worker's report store under execution_id (evie workflows inspect shows each worker's execution)''"

definition agentResultType :: "ty option \<Rightarrow> ty" where
  "agentResultType result = ObjectType (
     [fld ''status'' (Type KString [] [] False None [VStr ''succeeded'', VStr ''partial''] None None None None None None []),
      fld ''summary'' StringType, optfld ''execution_id'' StringType, optfld ''report_bytes'' IntegerType,
      optfld ''report'' (set_Withheld StringType reportWithheld),
      fld ''sources'' (ArrayType (Some (ObjectType [fld ''url'' StringType, fld ''cited'' BooleanType]))),
      fld ''limitations'' (ArrayType (Some StringType)), fld ''tokens'' IntegerType] @
     (case result of None \<Rightarrow> [] | Some t \<Rightarrow> [fld ''result'' t]))"

definition budget_time :: "environment \<Rightarrow> runLimits \<Rightarrow> bool \<Rightarrow> string \<Rightarrow> string \<Rightarrow> problem list \<times> int" where
  "budget_time ev rl ok t p = (if t = [] then (prob (p @ ''.budget.time'') ''required'' [], 0)
     else (case parsePositiveDuration t of
       Inl e \<Rightarrow> (err_prob (p @ ''.budget.time'') e, 0)
     | Inr d \<Rightarrow>
         (if WDeadline ev < d then prob (p @ ''.budget.time'') ''%s is above the operator's worker deadline %s'' [I d, I (WDeadline ev)]
          else on (ok \<and> duration rl < d) (prob (p @ ''.budget.time'') ''%s is above limits.max_duration %s'' [I d, I (duration rl)]), d)))"

definition budget_tokens :: "environment \<Rightarrow> runLimits \<Rightarrow> bool \<Rightarrow> int \<Rightarrow> string \<Rightarrow> problem list" where
  "budget_tokens ev rl ok n p = (if n = 0 then prob (p @ ''.budget.tokens'') ''required'' []
     else if n < 0 then prob (p @ ''.budget.tokens'') ''must be positive'' []
     else if WTokens ev < n then prob (p @ ''.budget.tokens'') ''%s is above the operator's worker token budget %s'' [I n, I (WTokens ev)]
     else on (ok \<and> tokenLimit rl < n) (prob (p @ ''.budget.tokens'') ''%s is above limits.max_tokens %s'' [I n, I (tokenLimit rl)]))"

text \<open>\<^verbatim>\<open>compileAgent\<close>: problems, result schema, budget, tokens, and the loader.\<close>

definition compileAgent :: "validator \<Rightarrow> 'a step0_scheme \<Rightarrow> string \<Rightarrow> loader
    \<Rightarrow> problem list \<times> ty option \<times> int \<times> int \<times> loader" where
  "compileAgent v s p ld = (let
     ps1 = (if Worker s = [] then prob (p @ ''.worker'') ''required: research, explore or build'' []
       else on (Worker s \<notin> set workers) (prob (p @ ''.worker'') ''unknown worker preset %s; use %s'' [S (Worker s), S (join '', '' workers)]));
     (ps2, ld2) = usePolicy (defn v) (ModelPolicy s) (p @ ''.model_policy'') ld;
     (ps3, ld3) = (if Objective s = [] then (prob (p @ ''.objective'') ''required: a Markdown prompt file with the worker's objective'' [], ld2)
       else loadPrompt (src v) (Objective s) (p @ ''.objective'') ld2);
     (sch, ps4, ld4) = (if OutputSchema s = [] then (None, [], ld3)
       else loadSchema (src v) (decode v) (OutputSchema s) (p @ ''.output_schema'') ld3);
     ps5 = on (Worker s = ''build'' \<and> \<not> hasKey (Input s) ''task_id'')
       (prob (p @ ''.input'') ''a build worker needs a task_id input naming the Task it works on'' []);
     (ps6, b, tks) = (case Budget s of
         None \<Rightarrow> (prob (p @ ''.budget'') ''required: time and tokens for each attempt'' [], 0, 0)
       | Some bd \<Rightarrow> let (qs, d) = budget_time (env v) (vlimits v) (limitsOK v) (b_Time bd) p in
           (qs @ budget_tokens (env v) (vlimits v) (limitsOK v) (b_Tokens bd) p, d, b_Tokens bd))
   in (ps1 @ ps2 @ ps3 @ ps4 @ ps5 @ ps6, sch, b, tks, ld4))"

section \<open>Map and branch steps\<close>

definition map_over :: "'a step0_scheme \<Rightarrow> string \<Rightarrow> problem list \<times> ref option" where
  "map_over s p = (if Over s = [] then (prob (p @ ''.over'') ''required: a list in a prior step's output'' [], None)
     else (case parseRef (Over s) of
       Inl e \<Rightarrow> (err_prob (p @ ''.over'') e, None)
     | Inr r \<Rightarrow> if Root r \<noteq> refSteps
         then (prob (p @ ''.over'') ''must reference a list in a prior step's output, not %s'' [S (Over s)], None)
         else ([], Some r)))"

definition map_items :: "'a step0_scheme \<Rightarrow> string \<Rightarrow> problem list" where
  "map_items s p = (if ''max_items'' \<notin> set (keys s) then prob (p @ ''.max_items'') ''required'' []
     else on (SMaxItems s < 1 \<or> maxMapItems < SMaxItems s)
       (prob (p @ ''.max_items'') ''%d is outside 1 to %d'' [I (SMaxItems s), I maxMapItems]))"

definition map_parallel :: "runLimits \<Rightarrow> bool \<Rightarrow> 'a step0_scheme \<Rightarrow> string \<Rightarrow> problem list" where
  "map_parallel rl ok s p = (if ''max_parallel'' \<notin> set (keys s) then prob (p @ ''.max_parallel'') ''required'' []
     else if MaxParallel s < 1 then prob (p @ ''.max_parallel'') ''must be positive'' []
     else on (ok \<and> parallel rl < MaxParallel s)
       (prob (p @ ''.max_parallel'') ''%d exceeds limits.max_parallel %d'' [I (MaxParallel s), I (parallel rl)]))"

definition map_failure :: "'a step0_scheme \<Rightarrow> string \<Rightarrow> problem list" where
  "map_failure s p = (
     if OnItemFailure s = [] then prob (p @ ''.on_item_failure'') ''required: fail or partial'' []
     else if OnItemFailure s = ''fail'' then on (''min_succeeded'' \<in> set (keys s))
       (prob (p @ ''.min_succeeded'') ''applies only with on_item_failure: partial'' [])
     else if OnItemFailure s = ''partial'' then
       (if ''min_succeeded'' \<notin> set (keys s) then prob (p @ ''.min_succeeded'') ''required with on_item_failure: partial'' []
        else if MinSucceeded s < 0 then prob (p @ ''.min_succeeded'') ''must be 0 or more'' []
        else on (map_items s p = [] \<and> SMaxItems s < MinSucceeded s)
          (prob (p @ ''.min_succeeded'') ''%d is above max_items %d'' [I (MinSucceeded s), I (SMaxItems s)]))
     else prob (p @ ''.on_item_failure'') ''unknown policy %s; use fail or partial'' [S (OnItemFailure s)])"

text \<open>What an accepted map step declares.\<close>

definition map_bounded :: "'a step0_scheme \<Rightarrow> bool" where
  "map_bounded s \<longleftrightarrow> 1 \<le> SMaxItems s \<and> SMaxItems s \<le> maxMapItems \<and> 1 \<le> MaxParallel s \<and>
     (OnItemFailure s = ''fail'' \<or>
      OnItemFailure s = ''partial'' \<and> 0 \<le> MinSucceeded s \<and> MinSucceeded s \<le> SMaxItems s)"

lemma map_checks_bounded:
  "map_items s p = [] \<Longrightarrow> map_parallel rl ok s p = [] \<Longrightarrow> map_failure s p = [] \<Longrightarrow> map_bounded s"
  by (auto simp: map_items_def map_parallel_def map_failure_def map_bounded_def split: if_splits)

definition case_ref :: "string \<Rightarrow> string \<Rightarrow> problem list \<times> ref option" where
  "case_ref cp s = (if s = [] then (prob (cp @ ''.when.ref'') ''required'' [], None)
     else (case parseRef s of Inl e \<Rightarrow> (err_prob (cp @ ''.when.ref'') e, None) | Inr r \<Rightarrow> ([], Some r)))"

definition unaryOp :: "string \<Rightarrow> bool" where
  "unaryOp op \<longleftrightarrow> op = ''empty'' \<or> op = ''not_empty''"

definition case_op :: "string \<Rightarrow> string \<Rightarrow> bool \<Rightarrow> problem list" where
  "case_op cp op given = (
     if op = [] then prob (cp @ ''.when.op'') ''required: %s'' [S (join '', '' conditionOps)]
     else if op \<notin> set conditionOps then
       prob (cp @ ''.when.op'') ''unknown operator %s; use %s'' [S op, S (join '', '' conditionOps)]
     else if unaryOp op \<and> given then prob (cp @ ''.when.value'') ''%s takes no value'' [S op]
     else on (\<not> unaryOp op \<and> \<not> given) (prob (cp @ ''.when.value'') ''required with %s'' [S op]))"

definition case_value :: "string \<Rightarrow> ynode \<Rightarrow> problem list \<times> val" where
  "case_value cp node = (if written node then
       (case nodeValue node of Inl e \<Rightarrow> (err_prob (cp @ ''.when.value'') e, VNil) | Inr v \<Rightarrow> ([], v))
     else ([], VNil))"

definition compileCase :: "string \<Rightarrow> branchCase \<Rightarrow> problem list \<times> compiledCase option" where
  "compileCase cp c = (let ps1 = on (CNext c = []) (prob (cp @ ''.next'') ''required'' []) in
     case When c of
       None \<Rightarrow> (ps1 @ prob (cp @ ''.when'') ''required'' [], None)
     | Some w \<Rightarrow> let
         (ps2, r) = case_ref cp (w_Ref w);
         ps3 = case_op cp (w_Op w) (written (w_Value w));
         (ps4, x) = case_value cp (w_Value w)
       in (ps1 @ ps2 @ ps3 @ ps4,
           Some \<lparr>cref = r, cop = w_Op w, cvalue = x, hasValue = written (w_Value w), cnext = CNext c\<rparr>))"

definition case_path :: "string \<Rightarrow> nat \<Rightarrow> string" where
  "case_path p i = p @ ''.cases['' @ itoa (int i) @ '']''"

definition compileBranch :: "'a step0_scheme \<Rightarrow> string \<Rightarrow> problem list \<times> compiledCase list" where
  "compileBranch s p = (let rs = map (\<lambda>(i, c). compileCase (case_path p i) c) (List.enumerate 0 (Cases s)) in
     (on (Cases s = []) (prob (p @ ''.cases'') ''a branch needs at least one case'' []) @
      on (Default s = []) (prob (p @ ''.default'') ''required: the step to take when no case matches'' []) @
      concat (map fst rs), List.map_filter snd rs))"

section \<open>Compiling a step\<close>

definition new_node :: "'a step0_scheme \<Rightarrow> string \<Rightarrow> bool \<Rightarrow> node0" where
  "new_node s p is_item = \<lparr>nstep = step0.truncate s, nid = ID s, npath = p, nkind = SKind s, isItem = is_item,
     attempts = 1, backoff = 0, args = [], noutput = None, fn = None, cap = None, nschema = None,
     nbudget = 0, ntokens = 0, over = None, elem = None, cases = [], known = False\<rparr>"

definition accepted_fields :: "string list \<Rightarrow> bool \<Rightarrow> string list" where
  "accepted_fields allowed is_item = (let all = [''kind'', ''description''] @ allowed in
     if is_item then filter (\<lambda>f. f \<noteq> ''next'') all else all @ [''id''])"

definition unexpected_fields :: "'a step0_scheme \<Rightarrow> string \<Rightarrow> bool \<Rightarrow> string list \<Rightarrow> problem list" where
  "unexpected_fields s p is_item allowed = concat (map (\<lambda>key. on (key \<notin> set (accepted_fields allowed is_item))
     (prob p ''field %s does not apply to %s'' [S key, S (if is_item then ''map items'' else SKind s @ '' steps'')]))
     (sort (remdups (keys s))))"

definition compileAI :: "validator \<Rightarrow> 'a step0_scheme \<Rightarrow> string \<Rightarrow> loader \<Rightarrow> problem list \<times> ty option \<times> loader" where
  "compileAI v s p ld = (let
     (ps1, ld1) = usePolicy (defn v) (ModelPolicy s) (p @ ''.model_policy'') ld;
     (ps2, ld2) = loadPrompt (src v) (Prompt s) (p @ ''.prompt'') ld1;
     (sch, ps3, ld3) = (if OutputSchema s = []
       then (None, prob (p @ ''.output_schema'') ''required: AI steps return typed proposals'' [], ld2)
       else loadSchema (src v) (decode v) (OutputSchema s) (p @ ''.output_schema'') ld2)
   in (ps1 @ ps2 @ ps3, sch, ld3))"

definition compileInterrupt :: "validator \<Rightarrow> 'a step0_scheme \<Rightarrow> string \<Rightarrow> loader \<Rightarrow> problem list \<times> ty option \<times> loader" where
  "compileInterrupt v s p ld = (let
     ps1 = (if Message s = [] then prob (p @ ''.message'') ''required: what the owner is asked'' []
       else on (maxMessageBytes < int (length (Message s))) (prob (p @ ''.message'') ''is longer than %d bytes'' [I maxMessageBytes]));
     (sch, ps2, ld2) = (if ResponseSchema s = []
       then (None, prob (p @ ''.response_schema'') ''required: the typed answer the owner gives'' [], ld)
       else loadSchema (src v) (decode v) (ResponseSchema s) (p @ ''.response_schema'') ld)
   in (ps1 @ ps2, sch, ld2))"

text \<open>The switch of \<^verbatim>\<open>compile\<close> over the step kind, for a node that is known. A map is completed below.\<close>

definition compile_kind :: "validator \<Rightarrow> 'a step0_scheme \<Rightarrow> string \<Rightarrow> node0 \<Rightarrow> loader \<Rightarrow> node0 \<times> problem list \<times> loader" where
  "compile_kind v s p n ld = (
     if SKind s = KindDeterministic then
       (let (ps, f) = compileFunction (registry v) (Function s) (p @ ''.function'') in
        (n\<lparr>fn := f, noutput := map_option Result f\<rparr>, ps, ld))
     else if SKind s = KindCapability then
       (let (ps, c) = compileCapability (env v) (defn v) s p (attempts n) in
        (n\<lparr>cap := c, noutput := map_option (\<lambda>k. orEmptyObject (COutput k)) c\<rparr>, ps, ld))
     else if SKind s = KindAI then
       (let (ps, sch, ld') = compileAI v s p ld in (n\<lparr>nschema := sch, noutput := sch\<rparr>, ps, ld'))
     else if SKind s = KindAgent then
       (let (ps, sch, b, tks, ld') = compileAgent v s p ld in
        (n\<lparr>nschema := sch, noutput := Some (agentResultType sch), nbudget := b, ntokens := tks\<rparr>, ps, ld'))
     else if SKind s = KindBranch then
       (let (ps, cs) = compileBranch s p in (n\<lparr>cases := cs\<rparr>, ps, ld))
     else if SKind s = KindInterrupt then
       (let (ps, sch, ld') = compileInterrupt v s p ld in (n\<lparr>nschema := sch, noutput := sch\<rparr>, ps, ld'))
     else (n, [], ld))"

definition compile0 :: "validator \<Rightarrow> 'a step0_scheme \<Rightarrow> string \<Rightarrow> bool \<Rightarrow> loader \<Rightarrow> node0 \<times> problem list \<times> loader" where
  "compile0 v s p is_item ld = (let n = new_node s p is_item in
     if SKind s = [] then (n, prob (p @ ''.kind'') ''required'' [], ld)
     else (case fieldsByKind (SKind s) of
       None \<Rightarrow> (n, prob (p @ ''.kind'') ''unknown step kind %s; use deterministic, capability, ai, agent, map, branch or interrupt'' [S (SKind s)], ld)
     | Some allowed \<Rightarrow>
         if is_item \<and> SKind s \<notin> set itemKinds then
           (n, prob (p @ ''.kind'') ''an item cannot be a %s; use deterministic, ai or agent'' [S (SKind s)], ld)
         else let
           ps1 = unexpected_fields s p is_item allowed;
           (ps2, tries, wait) = retryPolicy (Retry s) p;
           (n', ps3, ld') = compile_kind v s p (n\<lparr>known := True, attempts := tries, backoff := wait\<rparr>) ld
         in (n', ps1 @ ps2 @ ps3, ld')))"

text \<open>\<^verbatim>\<open>compile\<close> of a step: a map goes on to its own fields and its item (\<^verbatim>\<open>compileMap\<close>).\<close>

definition compileMap :: "validator \<Rightarrow> step \<Rightarrow> string \<Rightarrow> node0 \<Rightarrow> loader \<Rightarrow> node \<times> problem list \<times> loader" where
  "compileMap v s p n ld = (let
     (ps1, r) = map_over s p;
     ps2 = map_items s p @ map_parallel (vlimits v) (limitsOK v) s p @ map_failure s p;
     n1 = n\<lparr>over := r\<rparr>
   in case Item s of
       None \<Rightarrow> (node0.extend n1 \<lparr>item = None\<rparr>, ps1 @ ps2 @ prob (p @ ''.item'') ''required: the step each element runs'' [], ld)
     | Some it \<Rightarrow> let (m, ps3, ld') = compile0 v it (p @ ''.item'') True ld in
         (node0.extend n1 \<lparr>item = Some (m\<lparr>nid := nid n\<rparr>)\<rparr>, ps1 @ ps2 @ ps3, ld'))"

definition compile :: "validator \<Rightarrow> step \<Rightarrow> string \<Rightarrow> loader \<Rightarrow> node \<times> problem list \<times> loader" where
  "compile v s p ld = (let (n, ps, ld1) = compile0 v s p False ld in
     if known n \<and> SKind s = KindMap then
       (let (m, qs, ld2) = compileMap v s p n ld1 in (m, ps @ qs, ld2))
     else (node0.extend n \<lparr>item = None\<rparr>, ps, ld1))"

section \<open>Collecting the steps\<close>

text \<open>
  The steps are compiled in declaration order; \<^verbatim>\<open>v.list\<close> is the result and \<^verbatim>\<open>v.steps\<close> is its
  lookup by id, which \<open>node_of\<close> computes.
\<close>

fun collect_from :: "validator \<Rightarrow> nat \<Rightarrow> node list \<Rightarrow> loader \<Rightarrow> step list \<Rightarrow> node list \<times> problem list \<times> loader" where
  "collect_from v i acc ld [] = (acc, [], ld)"
| "collect_from v i acc ld (s # ss) = (let at_i = ''steps['' @ itoa (int i) @ ''].id'' in
     if ID s = [] then
       (let (ns, ps, ld') = collect_from v (Suc i) acc ld ss in (ns, prob at_i ''required'' [] @ ps, ld'))
     else if \<not> identifierPattern (ID s) then
       (let (ns, ps, ld') = collect_from v (Suc i) acc ld ss in
         (ns, prob at_i ''%s is not a valid step id; use lowercase letters, digits and _'' [S (ID s)] @ ps, ld'))
     else if ID s \<in> set (map nid acc) then
       (let (ns, ps, ld') = collect_from v (Suc i) acc ld ss in
         (ns, prob (''steps.'' @ ID s) ''duplicate step id %s'' [S (ID s)] @ ps, ld'))
     else
       (let (n, ps, ld1) = compile v s (''steps.'' @ ID s) ld;
            (ns, qs, ld') = collect_from v (Suc i) (acc @ [n]) ld1 ss
        in (ns, ps @ qs, ld')))"

definition empty_loader :: loader where
  "empty_loader = \<lparr>lfiles = [], lschemas = [], schemaErrs = [], usedPolicies = []\<rparr>"

definition collectSteps :: "validator \<Rightarrow> node list \<times> problem list \<times> loader" where
  "collectSteps v = (let (ns, ps, ld) = collect_from v 0 [] empty_loader (Steps (defn v)) in
     (ns, on (Steps (defn v) = []) (prob ''steps'' ''a workflow needs at least one step'' []) @ ps, ld))"

definition node_of :: "'a node0_scheme list \<Rightarrow> string \<Rightarrow> 'a node0_scheme option" where
  "node_of ns i = find (\<lambda>n. nid n = i) ns"

text \<open>\<^verbatim>\<open>edges\<close>: the successors a step names, with the field that names each.\<close>

definition edges :: "'a node0_scheme \<Rightarrow> (string \<times> string) list" where
  "edges n = (let s = nstep n in
     if nkind n = KindBranch then
       List.map_filter (\<lambda>(i, c). if CNext c = [] then None else Some (case_path (npath n) i @ ''.next'', CNext c))
         (List.enumerate 0 (Cases s)) @
       (if Default s = [] then [] else [(npath n @ ''.default'', Default s)])
     else if Next s = [] then [] else [(npath n @ ''.next'', Next s)])"

end
