(* ===== verification/Yaml.thy ===== *)
theory Yaml
  imports Compile "HOL-Library.Word"
begin

text \<open>
  Loading workflow.yaml (yaml.go): the accepted YAML subset (\<^verbatim>\<open>checkNodes\<close>), the check of the tree
  against the Go types it decodes into (\<^verbatim>\<open>typeCheck\<close>), the keys each step wrote
  (\<^verbatim>\<open>recordStepKeys\<close>), and \<^verbatim>\<open>parseDefinition\<close> around them. The YAML library's decoder is the
  parameter of \<open>parseDefinition\<close>; what the package reads of the nodes it returns is \<open>rawNode\<close>.
\<close>

section \<open>Nodes\<close>

datatype nodeKind = ZeroNode | DocumentNode | SequenceNode | MappingNode | ScalarNode | AliasNode

text \<open>
  The fields of a \<^verbatim>\<open>yaml.Node\<close> the package reads. The library's \<^verbatim>\<open>ShortTag\<close> method, whose result
  depends on the node alone, is the field \<open>yn_ShortTag\<close>. The style is a set of flags.
\<close>

datatype rawNode = RawNode (yn_Kind: nodeKind) (yn_Style: "32 word") (yn_Tag: string) (yn_ShortTag: string)
  (yn_Value: string) (yn_Anchor: string) (yn_Line: int) (yn_Content: "rawNode list")

unbundle bit_operations_syntax

definition TaggedStyle :: "32 word" where "TaggedStyle = 1"
definition LiteralStyle :: "32 word" where "LiteralStyle = 8"
definition FoldedStyle :: "32 word" where "FoldedStyle = 16"

definition tagged :: "rawNode \<Rightarrow> bool" where
  "tagged n \<longleftrightarrow> yn_Style n AND TaggedStyle \<noteq> 0"

text \<open>\<^verbatim>\<open>for i := 0; i+1 < len(n.Content); i += 2\<close>: the entries of a mapping.\<close>

fun entries_of :: "'a list \<Rightarrow> ('a \<times> 'a) list" where
  "entries_of (k # v # rest) = (k, v) # entries_of rest"
| "entries_of xs = []"

lemma entries_of_mem: "(k, v) \<in> set (entries_of xs) \<Longrightarrow> k \<in> set xs \<and> v \<in> set xs"
  by (induction xs rule: entries_of.induct) auto

lemma content_size: "c \<in> set (yn_Content n) \<Longrightarrow> size c < size n"
  by (cases n) (auto dest: size_list_estimation' [where f = size and y = "size c"])

lemma entry_size:
  assumes "(k, v) \<in> set (entries_of (yn_Content n))"
  shows "size k < size n" and "size v < size n"
  using entries_of_mem [OF assms] content_size by auto

text \<open>What \<^verbatim>\<open>nodeValue\<close> reads of a node that was decoded into a \<^verbatim>\<open>yaml.Node\<close> field.\<close>

function ynode_of :: "rawNode \<Rightarrow> ynode" where
  "ynode_of n = (case yn_Kind n of
     ZeroNode \<Rightarrow> YAbsent
   | ScalarNode \<Rightarrow> YScalar (yn_ShortTag n) (yn_Value n) (yn_Line n)
   | SequenceNode \<Rightarrow> YSeq (map ynode_of (yn_Content n))
   | MappingNode \<Rightarrow> YMap (map (\<lambda>(k, v). (yn_Value k, ynode_of v)) (entries_of (yn_Content n)))
   | _ \<Rightarrow> YOther (yn_Line n))"
  by pat_completeness auto
termination
  by (relation "measure size") (auto simp: content_size entry_size)

declare ynode_of.simps [simp del]

section \<open>The accepted subset\<close>

definition line_prob :: "string \<Rightarrow> int \<Rightarrow> string \<Rightarrow> farg list \<Rightarrow> problem list" where
  "line_prob path line format xs = prob path (''line %d: '' @ format) (I line # xs)"

definition workflow_file :: string where "workflow_file = ''workflow.yaml''"

definition plainInteger :: "string \<Rightarrow> bool" where
  "plainInteger s \<longleftrightarrow> integerText s"

text \<open>
  \<^verbatim>\<open>ambiguousWords[strings.ToLower(s)]\<close>. No character outside ASCII has a lower case among the
  letters of these words, so lowering the ASCII letters decides it.
\<close>

definition ambiguousWords :: "string list" where
  "ambiguousWords = [''y'', ''n'', ''yes'', ''no'', ''on'', ''off'']"

definition check_scalar :: "rawNode \<Rightarrow> problem list" where
  "check_scalar n = (let add = line_prob workflow_file (yn_Line n); s = yn_Value n; tag = yn_ShortTag n in
     if yn_Style n \<noteq> 0 then []
     else if tag = ''!!null'' then add ''null values are not accepted; leave the field out'' []
     else if tag = ''!!bool'' then on (s \<noteq> ''true'' \<and> s \<noteq> ''false'') (add ''%s: write booleans as true or false'' [S s])
     else if tag = ''!!int'' then
       (if \<not> plainInteger s then add ''%s: write integers in plain decimal'' [S s]
        else on (atoi s = None) (add ''%s is out of range'' [S s]))
     else if tag = ''!!float'' then
       on (\<not> plainDecimal s) (add ''%s: write decimals as digits with one point, such as 0.5'' [S s])
     else if tag = ''!!timestamp'' then add ''%s reads as a date; quote it'' [S s]
     else if tag = ''!!str'' then
       on (toLower s \<in> set ambiguousWords)
         (add ''%s is read differently by YAML 1.1 and 1.2; quote it, or write true or false'' [S s])
     else add ''%s is not an accepted value'' [S s])"

definition merge_key :: "rawNode \<Rightarrow> bool" where
  "merge_key k \<longleftrightarrow> yn_Kind k = ScalarNode \<and> (yn_Tag k = ''!!merge'' \<or> (yn_Value k = ''<<'' \<and> yn_Style k = 0))"

definition text_key :: "rawNode \<Rightarrow> bool" where
  "text_key k \<longleftrightarrow> yn_Kind k = ScalarNode \<and> yn_ShortTag k = ''!!str''"

text \<open>The switch over one key: its problems, and the keys seen after it.\<close>

definition check_key :: "int gomap \<Rightarrow> rawNode \<Rightarrow> problem list \<times> int gomap" where
  "check_key seen k = (
     if \<not> text_key k then (line_prob workflow_file (yn_Line k) ''mapping keys must be text'' [], seen)
     else (case map_of seen (yn_Value k) of
       Some first \<Rightarrow> (line_prob workflow_file (yn_Line k) ''duplicate key %s (first at line %d)'' [S (yn_Value k), I first], seen)
     | None \<Rightarrow> ([], put (yn_Value k) (yn_Line k) seen)))"

text \<open>\<^verbatim>\<open>checkNodes\<close>, with its loop over the entries of a mapping. The problems are appended in order.\<close>

function checkNodes :: "rawNode \<Rightarrow> problem list" and check_entries :: "int gomap \<Rightarrow> rawNode list \<Rightarrow> problem list" where
  "checkNodes n = (let add = line_prob workflow_file (yn_Line n);
     anchor = on (yn_Anchor n \<noteq> []) (add ''anchors (&%s) are not accepted; write the value out'' [S (yn_Anchor n)])
   in if yn_Kind n \<noteq> DocumentNode \<and> yn_Kind n \<noteq> AliasNode \<and> tagged n then
        anchor @ add ''explicit tag %s is not accepted'' [S (yn_Tag n)]
      else anchor @ (case yn_Kind n of
        DocumentNode \<Rightarrow> concat (map checkNodes (yn_Content n))
      | SequenceNode \<Rightarrow> concat (map checkNodes (yn_Content n))
      | AliasNode \<Rightarrow> add ''aliases (*%s) are not accepted; write the value out'' [S (yn_Value n)]
      | MappingNode \<Rightarrow> check_entries [] (yn_Content n)
      | ScalarNode \<Rightarrow> check_scalar n
      | ZeroNode \<Rightarrow> []))"
| "check_entries seen (k # v # rest) = (
     if merge_key k then line_prob workflow_file (yn_Line k) ''merge keys (<<) are not accepted'' [] @ check_entries seen rest
     else (let (ps, seen') = check_key seen k in ps @ checkNodes k @ checkNodes v @ check_entries seen' rest))"
| "check_entries seen [k] = []"
| "check_entries seen [] = []"
  by pat_completeness auto
termination
proof (relation "measure (case_sum size (size_list size \<circ> snd))", goal_cases)
  case (4 n)
  then show ?case by (cases n) simp
qed (auto simp: content_size)

declare checkNodes.simps [simp del]

section \<open>The types of the definition\<close>

text \<open>The Go types reachable from \<^verbatim>\<open>Definition\<close>: a struct by name, since \<^verbatim>\<open>Step\<close> refers to itself.\<close>

datatype structName = TDefinition | TInputSpec | TRunKeyRule | TModelPolicy | TLimits | TAuthority | TOperation |
  TSchedule | TCatchUp | TRetention | TStep | TRetry | TBudget | TCase | TCondition

datatype goType = TStruct structName | TMap goType | TSlice goType | TPointer goType | TString | TBool | TInt | TFloat | TNode

fun struct_fields :: "structName \<Rightarrow> (string \<times> goType) list" where
  "struct_fields TDefinition = [(''schema_version'', TInt), (''name'', TString), (''description'', TString),
     (''inputs'', TMap (TStruct TInputSpec)), (''run_key'', TPointer (TStruct TRunKeyRule)),
     (''model_policies'', TMap (TStruct TModelPolicy)), (''limits'', TPointer (TStruct TLimits)),
     (''authority'', TPointer (TStruct TAuthority)), (''schedule'', TPointer (TStruct TSchedule)),
     (''retention'', TPointer (TStruct TRetention)), (''start'', TString), (''steps'', TSlice (TStruct TStep)),
     (''outputs'', TMap TString)]"
| "struct_fields TInputSpec = [(''type'', TString), (''description'', TString), (''required'', TBool), (''default'', TNode),
     (''enum'', TSlice TNode), (''minimum'', TPointer TFloat), (''maximum'', TPointer TFloat), (''max_length'', TPointer TInt),
     (''sensitive'', TBool)]"
| "struct_fields TRunKeyRule = [(''inputs'', TSlice TString)]"
| "struct_fields TModelPolicy = [(''version'', TInt), (''provider'', TString), (''model'', TString),
     (''temperature'', TPointer TFloat), (''max_output_tokens'', TInt)]"
| "struct_fields TLimits = [(''max_duration'', TString), (''max_attempts'', TInt), (''max_parallel'', TInt), (''max_tokens'', TInt)]"
| "struct_fields TAuthority = [(''operations'', TSlice (TStruct TOperation))]"
| "struct_fields TOperation = [(''capability'', TString), (''connection'', TString), (''resources'', TSlice TString),
     (''max_calls_per_run'', TInt)]"
| "struct_fields TSchedule = [(''cron'', TString), (''timezone'', TString), (''catch_up'', TPointer (TStruct TCatchUp)),
     (''inputs'', TMap TNode)]"
| "struct_fields TCatchUp = [(''policy'', TString), (''max_runs'', TInt)]"
| "struct_fields TRetention = [(''classification'', TString)]"
| "struct_fields TStep = [(''id'', TString), (''kind'', TString), (''description'', TString), (''next'', TString),
     (''retry'', TPointer (TStruct TRetry)), (''input'', TMap TNode), (''function'', TString),
     (''capability'', TString), (''contract'', TString), (''connection'', TString), (''resource'', TString),
     (''model_policy'', TString), (''prompt'', TString), (''output_schema'', TString),
     (''worker'', TString), (''objective'', TString), (''budget'', TPointer (TStruct TBudget)),
     (''cases'', TSlice (TStruct TCase)), (''default'', TString), (''message'', TString), (''response_schema'', TString),
     (''over'', TString), (''max_items'', TInt), (''max_parallel'', TInt), (''on_item_failure'', TString),
     (''min_succeeded'', TInt), (''item'', TPointer (TStruct TStep))]"
| "struct_fields TRetry = [(''max_attempts'', TInt), (''backoff'', TString)]"
| "struct_fields TBudget = [(''time'', TString), (''tokens'', TInt)]"
| "struct_fields TCase = [(''when'', TPointer (TStruct TCondition)), (''next'', TString)]"
| "struct_fields TCondition = [(''ref'', TString), (''op'', TString), (''value'', TNode)]"

text \<open>\<^verbatim>\<open>for t.Kind() == reflect.Pointer\<close>\<close>

primrec strip_pointers :: "goType \<Rightarrow> goType" where
  "strip_pointers (TPointer t) = strip_pointers t"
| "strip_pointers (TStruct s) = TStruct s"
| "strip_pointers (TMap t) = TMap t"
| "strip_pointers (TSlice t) = TSlice t"
| "strip_pointers TString = TString"
| "strip_pointers TBool = TBool"
| "strip_pointers TInt = TInt"
| "strip_pointers TFloat = TFloat"
| "strip_pointers TNode = TNode"

section \<open>Reading mappings\<close>

definition mappingValue :: "rawNode \<Rightarrow> string \<Rightarrow> string" where
  "mappingValue n key = (if yn_Kind n \<noteq> MappingNode then []
     else case find (\<lambda>(k, v). yn_Value k = key \<and> yn_Kind v = ScalarNode) (entries_of (yn_Content n)) of
       Some (k, v) \<Rightarrow> yn_Value v | None \<Rightarrow> [])"

definition mappingChild :: "rawNode option \<Rightarrow> string \<Rightarrow> rawNode option" where
  "mappingChild x key = (case x of None \<Rightarrow> None | Some n \<Rightarrow>
     if yn_Kind n \<noteq> MappingNode then None
     else map_option snd (find (\<lambda>(k, v). yn_Value k = key) (entries_of (yn_Content n))))"

definition mappingKeys :: "rawNode option \<Rightarrow> string list" where
  "mappingKeys x = (case x of None \<Rightarrow> [] | Some n \<Rightarrow>
     if yn_Kind n = MappingNode then remdups (map (yn_Value \<circ> fst) (entries_of (yn_Content n))) else [])"

section \<open>Checking the tree against the types\<close>

definition elem_path :: "string \<Rightarrow> goType \<Rightarrow> nat \<Rightarrow> rawNode \<Rightarrow> string" where
  "elem_path path t i c = (
     if t = TStruct TStep \<and> mappingValue c ''id'' \<noteq> [] then joinPath path (mappingValue c ''id'')
     else path @ ''['' @ itoa (int i) @ '']'')"

definition scalar_of :: "string list \<Rightarrow> rawNode \<Rightarrow> bool" where
  "scalar_of tags n \<longleftrightarrow> yn_Kind n = ScalarNode \<and> yn_ShortTag n \<in> set tags"

function typeCheck :: "rawNode \<Rightarrow> goType \<Rightarrow> string \<Rightarrow> problem list" where
  "typeCheck n t path = (let place = (if path = [] then workflow_file else path);
     add = line_prob place (yn_Line n)
   in case strip_pointers t of
     TNode \<Rightarrow> []
   | TStruct s \<Rightarrow> if yn_Kind n \<noteq> MappingNode then add ''expected a mapping'' []
       else concat (map (\<lambda>(k, v). case map_of (struct_fields s) (yn_Value k) of
           None \<Rightarrow> line_prob place (yn_Line k) ''field %s not found; the schema is closed'' [S (yn_Value k)]
         | Some ft \<Rightarrow> typeCheck v ft (joinPath path (yn_Value k))) (entries_of (yn_Content n)))
   | TMap e \<Rightarrow> if yn_Kind n \<noteq> MappingNode then add ''expected a mapping'' []
       else concat (map (\<lambda>(k, v). typeCheck v e (joinPath path (yn_Value k))) (entries_of (yn_Content n)))
   | TSlice e \<Rightarrow> if yn_Kind n \<noteq> SequenceNode then add ''expected a list'' []
       else concat (map (\<lambda>(i, c). typeCheck c e (elem_path path e i c)) (List.enumerate 0 (yn_Content n)))
   | TString \<Rightarrow> on (\<not> scalar_of [''!!str''] n) (add ''expected text; quote %q to write it as text'' [S (yn_Value n)])
   | TBool \<Rightarrow> on (\<not> scalar_of [''!!bool''] n) (add ''expected true or false'' [])
   | TInt \<Rightarrow> on (\<not> scalar_of [''!!int''] n) (add ''expected an integer in plain decimal'' [])
   | TFloat \<Rightarrow> on (\<not> scalar_of [''!!int'', ''!!float''] n) (add ''expected a number'' []))"
  by pat_completeness auto
termination
  by (relation "measure (\<lambda>(n, t, path). size n)")
    (auto simp: content_size entry_size dest!: in_set_enumerate_eq [THEN iffD1] nth_mem)

declare typeCheck.simps [simp del]

section \<open>The keys of the steps\<close>

definition step_keys :: "rawNode \<Rightarrow> step \<Rightarrow> step" where
  "step_keys n s = (let s' = s\<lparr>keys := mappingKeys (Some n)\<rparr> in
     case (mappingChild (Some n) ''item'', Item s') of
       (Some it, Some i) \<Rightarrow> s'\<lparr>Item := Some (i\<lparr>keys := mappingKeys (Some it)\<rparr>)\<rparr>
     | _ \<Rightarrow> s')"

fun record_keys :: "rawNode list \<Rightarrow> step list \<Rightarrow> step list" where
  "record_keys (n # ns) (s # ss) = step_keys n s # record_keys ns ss"
| "record_keys ns ss = ss"

definition recordStepKeys :: "rawNode \<Rightarrow> definition_ \<Rightarrow> definition_" where
  "recordStepKeys tree d = (case mappingChild (Some tree) ''steps'' of
     Some steps \<Rightarrow> if yn_Kind steps = SequenceNode then d\<lparr>Steps := record_keys (yn_Content steps) (Steps d)\<rparr> else d
   | None \<Rightarrow> d)"

section \<open>Parsing a definition\<close>

definition maxDefinitionBytes :: int where "maxDefinitionBytes = 262144"

text \<open>
  The library's decoder over the file: the first document, whether a second \<^verbatim>\<open>Decode\<close> reports the
  end, and the strict decoding of the first document into the struct.
\<close>

datatype firstDocument = EndOfFile | DecodeError string | Decoded rawNode

record yamlDecoder =
  yd_first :: "string \<Rightarrow> firstDocument"
  yd_ends :: "string \<Rightarrow> bool"
  yd_strict :: "string \<Rightarrow> string + definition_"

definition root_of :: "rawNode \<Rightarrow> rawNode" where
  "root_of doc = (if yn_Kind doc = DocumentNode \<and> length (yn_Content doc) = 1 then hd (yn_Content doc) else doc)"

definition parseDefinition :: "yamlDecoder \<Rightarrow> string \<Rightarrow> problem list + definition_" where
  "parseDefinition dec data = (
     if maxDefinitionBytes < int (length data) then
       Inl (prob workflow_file ''is %d KiB; at most %d KiB'' [I ((int (length data) + 1023) div 1024), I (maxDefinitionBytes div 1024)])
     else case yd_first dec data of
       EndOfFile \<Rightarrow> Inl (prob workflow_file ''is empty'' [])
     | DecodeError msg \<Rightarrow> Inl (prob workflow_file ''%s'' [S msg])
     | Decoded doc \<Rightarrow>
         if \<not> yd_ends dec data then Inl (prob workflow_file ''must contain exactly one YAML document'' [])
         else if checkNodes doc \<noteq> [] then Inl (checkNodes doc)
         else let tree = root_of doc; ps = typeCheck tree (TStruct TDefinition) [] in
           if ps \<noteq> [] then Inl ps
           else (case yd_strict dec data of
               Inl msg \<Rightarrow> Inl (prob workflow_file ''%s'' [S msg])
             | Inr d \<Rightarrow> Inr (recordStepKeys tree d)))"

end
