(* ===== verification/Compiled.thy ===== *)
theory Compiled
  imports Compile
begin

text \<open>
  What compiling a step without a problem establishes: the facts about a node that resolving
  references, running the step and simulating it rely on.
\<close>

section \<open>What a compiled step is\<close>

definition step_kinds :: "string list" where
  "step_kinds = [KindDeterministic, KindCapability, KindAI, KindAgent, KindMap, KindBranch, KindInterrupt]"

definition case_ok :: "compiledCase \<Rightarrow> bool" where
  "case_ok c \<longleftrightarrow> (\<exists>r s. cref c = Some r \<and> parseRef s = Inr r) \<and> cop c \<in> set conditionOps \<and> cnext c \<noteq> [] \<and>
     (hasValue c \<longleftrightarrow> \<not> unaryOp (cop c))"

text \<open>The facts a later stage relies on, for a step or item whose compilation added no problem.\<close>

definition compiled_ok :: "validator \<Rightarrow> 'a node0_scheme \<Rightarrow> bool" where
  "compiled_ok v n \<longleftrightarrow> known n \<and> nkind n \<in> set step_kinds \<and> 1 \<le> attempts n \<and> attempts n \<le> maxStepAttempts \<and>
     0 \<le> backoff n \<and> backoff n \<le> maxBackoff \<and> nkind n = SKind (nstep n) \<and>
     (nkind n = KindDeterministic \<longrightarrow> (\<exists>f. fn n = Some f \<and> map_of (registry v) (Function (nstep n)) = Some f \<and> noutput n = Some (Result f))) \<and>
     (nkind n = KindCapability \<longrightarrow> (\<exists>c. cap n = Some c \<and> capability_authorized (env v) (defn v) (nstep n) (attempts n) c \<and>
        noutput n = Some (orEmptyObject (COutput c)))) \<and>
     (nkind n = KindAI \<or> nkind n = KindInterrupt \<longrightarrow> (\<exists>t. nschema n = Some t \<and> noutput n = Some t \<and> strict t \<and> wf_ty t \<and> Kind t = KObject)) \<and>
     (nkind n = KindAgent \<longrightarrow> noutput n = Some (agentResultType (nschema n)) \<and> Worker (nstep n) \<in> set workers \<and>
        0 < nbudget n \<and> nbudget n \<le> WDeadline (env v) \<and> 0 < ntokens n \<and> ntokens n \<le> WTokens (env v)) \<and>
     (nkind n = KindBranch \<longrightarrow> Cases (nstep n) \<noteq> [] \<and> Default (nstep n) \<noteq> [] \<and> (\<forall>c \<in> set (cases n). case_ok c) \<and>
        map cnext (cases n) = map CNext (Cases (nstep n)))"

lemma truncate_sel [simp]:
  "SKind (step0.truncate s) = SKind s" "Function (step0.truncate s) = Function s" "Worker (step0.truncate s) = Worker s"
  "Cases (step0.truncate s) = Cases s" "Default (step0.truncate s) = Default s" "ID (step0.truncate s) = ID s"
  "Capability (step0.truncate s) = Capability s" "Contract (step0.truncate s) = Contract s"
  "Connection (step0.truncate s) = Connection s" "Resource (step0.truncate s) = Resource s"
  "Next (step0.truncate s) = Next s" "Input (step0.truncate s) = Input s" "SMaxItems (step0.truncate s) = SMaxItems s"
  "MaxParallel (step0.truncate s) = MaxParallel s" "OnItemFailure (step0.truncate s) = OnItemFailure s"
  "MinSucceeded (step0.truncate s) = MinSucceeded s" "Over (step0.truncate s) = Over s"
  by (simp_all add: step0.truncate_def)

lemma kinds_distinct [simp]:
  "KindDeterministic \<noteq> KindCapability" "KindDeterministic \<noteq> KindAI" "KindDeterministic \<noteq> KindAgent"
  "KindDeterministic \<noteq> KindMap" "KindDeterministic \<noteq> KindBranch" "KindDeterministic \<noteq> KindInterrupt"
  "KindCapability \<noteq> KindAI" "KindCapability \<noteq> KindAgent" "KindCapability \<noteq> KindMap" "KindCapability \<noteq> KindBranch"
  "KindCapability \<noteq> KindInterrupt" "KindAI \<noteq> KindAgent" "KindAI \<noteq> KindMap" "KindAI \<noteq> KindBranch"
  "KindAI \<noteq> KindInterrupt" "KindAgent \<noteq> KindMap" "KindAgent \<noteq> KindBranch" "KindAgent \<noteq> KindInterrupt"
  "KindMap \<noteq> KindBranch" "KindMap \<noteq> KindInterrupt" "KindBranch \<noteq> KindInterrupt"
  by (simp_all add: kind_defs)

lemmas kinds_distinct' [simp] = kinds_distinct [symmetric]

lemma fieldsByKind_Some: "fieldsByKind k = Some fs \<Longrightarrow> k \<in> set step_kinds"
  by (auto simp: fieldsByKind_def step_kinds_def split: if_splits)

lemma capability_authorized_truncate [simp]:
  "capability_authorized ev d (step0.truncate s) t c \<longleftrightarrow> capability_authorized ev d s t c"
  by (simp add: capability_authorized_def)

section \<open>Each kind of step\<close>

lemma compileFunction_ok:
  "compileFunction reg i p = ([], r) \<Longrightarrow> \<exists>f. r = Some f \<and> map_of reg i = Some f"
  by (cases "map_of reg i") (auto simp: compileFunction_def split: if_splits)

lemma budget_time_ok: "budget_time ev rl ok t p = ([], d) \<Longrightarrow> 0 < d \<and> d \<le> WDeadline ev \<and> (ok \<longrightarrow> d \<le> duration rl)"
  by (auto simp: budget_time_def dest!: parsePositiveDuration_pos split: if_splits sum.splits)

lemma budget_tokens_ok: "budget_tokens ev rl ok n p = [] \<Longrightarrow> 0 < n \<and> n \<le> WTokens ev \<and> (ok \<longrightarrow> n \<le> tokenLimit rl)"
  by (auto simp: budget_tokens_def split: if_splits)

lemma compileAgent_ok:
  "compileAgent v s p ld = ([], sch, b, tks, ld') \<Longrightarrow>
     Worker s \<in> set workers \<and> 0 < b \<and> b \<le> WDeadline (env v) \<and> 0 < tks \<and> tks \<le> WTokens (env v)"
  by (auto simp: compileAgent_def Let_def dest!: budget_time_ok budget_tokens_ok split: prod.splits if_splits option.splits)

text \<open>Every loading step keeps the schema cache sound, whatever problems it adds.\<close>

lemma usePolicy_loader: "loader_ok ld \<Longrightarrow> usePolicy d name p ld = (ps, ld') \<Longrightarrow> loader_ok ld'"
  by (auto simp: usePolicy_def loader_ok_def split: if_splits)

lemma loadPrompt_loader:
  assumes "loader_ok ld" and "loadPrompt rd file p ld = (ps, ld')"
  shows "loader_ok ld'"
proof -
  obtain r qs l where f: "loadFile rd file p ''.md'' ''prompts'' maxPromptBytes ld = (r, qs, l)"
    using prod_cases3 by blast
  then have "lschemas l = lschemas ld" by (rule loadFile_schemas)
  with assms show ?thesis by (auto simp: loadPrompt_def f loader_ok_def split: if_splits)
qed

lemma optional_schema_loader:
  assumes "loader_ok ld" and "(if c then (None, ps0, ld) else loadSchema rd dc file p ld) = (r, ps, ld')"
  shows "loader_ok ld'"
  using assms loadSchema_ok(1) [OF assms(1)] by (auto split: if_splits)

lemma compileAI_loader:
  assumes "loader_ok ld" and "compileAI v s p ld = (ps, sch, ld')"
  shows "loader_ok ld'"
proof -
  obtain ps1 ld1 where 1: "usePolicy (defn v) (ModelPolicy s) (p @ ''.model_policy'') ld = (ps1, ld1)" by fastforce
  obtain ps2 ld2 where 2: "loadPrompt (src v) (Prompt s) (p @ ''.prompt'') ld1 = (ps2, ld2)" by fastforce
  have ok: "loader_ok ld2" by (rule loadPrompt_loader [OF usePolicy_loader [OF assms(1) 1] 2])
  show ?thesis
    using assms(2) ok by (auto simp: compileAI_def 1 2 split: prod.splits if_splits dest: loadSchema_ok(1))
qed

lemma compileInterrupt_loader:
  "loader_ok ld \<Longrightarrow> compileInterrupt v s p ld = (ps, sch, ld') \<Longrightarrow> loader_ok ld'"
  by (auto simp: compileInterrupt_def Let_def split: prod.splits if_splits dest: loadSchema_ok(1))

lemma compileAgent_loader:
  assumes "loader_ok ld" and "compileAgent v s p ld = (ps, sch, b, tks, ld')"
  shows "loader_ok ld'"
proof -
  obtain ps2 ld2 where 2: "usePolicy (defn v) (ModelPolicy s) (p @ ''.model_policy'') ld = (ps2, ld2)" by fastforce
  obtain ps3 ld3 where 3: "loadPrompt (src v) (Objective s) (p @ ''.objective'') ld2 = (ps3, ld3)" by fastforce
  have "loader_ok ld2" by (rule usePolicy_loader [OF assms(1) 2])
  moreover have "loader_ok ld3" by (rule loadPrompt_loader [OF calculation 3])
  ultimately show ?thesis
    using assms(2)
    by (auto simp: compileAgent_def Let_def 2 3 split: prod.splits if_splits dest: loadSchema_ok(1))
qed

lemma compileAI_ok:
  assumes "compileAI v s p ld = ([], sch, ld')" and "loader_ok ld"
  shows "\<exists>t. sch = Some t \<and> strict t \<and> wf_ty t \<and> Kind t = KObject"
proof -
  obtain ps1 ld1 where u: "usePolicy (defn v) (ModelPolicy s) (p @ ''.model_policy'') ld = (ps1, ld1)" by fastforce
  obtain ps2 ld2 where l: "loadPrompt (src v) (Prompt s) (p @ ''.prompt'') ld1 = (ps2, ld2)" by fastforce
  have "lschemas ld1 = lschemas ld"
    using u by (auto simp: usePolicy_def split: if_splits)
  moreover have "lschemas ld2 = lschemas ld1"
  proof (cases "Prompt s = []")
    case False
    obtain r qs l' where f: "loadFile (src v) (Prompt s) (p @ ''.prompt'') ''.md'' ''prompts'' maxPromptBytes ld1 = (r, qs, l')"
      using prod_cases3 by blast
    show ?thesis using l False loadFile_schemas [OF f] by (simp add: loadPrompt_def f)
  qed (use l in \<open>simp add: loadPrompt_def\<close>)
  ultimately have ok: "loader_ok ld2" using assms(2) by (simp add: loader_ok_def)
  obtain sc qs l3 where s: "loadSchema (src v) (decode v) (OutputSchema s) (p @ ''.output_schema'') ld2 = (sc, qs, l3)"
    using prod_cases3 by blast
  show ?thesis
    using assms(1) loadSchema_ok(2,3) [OF ok s]
    by (auto simp: compileAI_def u l s split: if_splits)
qed

lemma compileInterrupt_ok:
  assumes "compileInterrupt v s p ld = ([], sch, ld')" and "loader_ok ld"
  shows "\<exists>t. sch = Some t \<and> strict t \<and> wf_ty t \<and> Kind t = KObject"
proof -
  obtain sc qs l3 where s: "loadSchema (src v) (decode v) (ResponseSchema s) (p @ ''.response_schema'') ld = (sc, qs, l3)"
    using prod_cases3 by blast
  show ?thesis
    using assms(1) loadSchema_ok(2,3) [OF assms(2) s]
    by (auto simp: compileInterrupt_def s split: if_splits)
qed

lemma compileCase_ok:
  assumes "fst (compileCase cp c) = []"
  shows "\<exists>k. snd (compileCase cp c) = Some k \<and> case_ok k \<and> cnext k = CNext c"
proof (cases "When c")
  case None
  with assms show ?thesis by (simp add: compileCase_def)
next
  case (Some w)
  obtain ps2 r where r: "case_ref cp (w_Ref w) = (ps2, r)" by fastforce
  obtain ps4 x where x: "case_value cp (w_Value w) = (ps4, x)" by fastforce
  have nil: "CNext c \<noteq> []" "ps2 = []" "case_op cp (w_Op w) (written (w_Value w)) = []"
    using assms by (simp_all add: compileCase_def Some r x)
  have "\<exists>k s. r = Some k \<and> parseRef s = Inr k"
    using r nil(2) by (auto simp: case_ref_def split: if_splits sum.splits)
  moreover have "w_Op w \<in> set conditionOps \<and> (written (w_Value w) \<longleftrightarrow> \<not> unaryOp (w_Op w))"
    using nil(3) by (auto simp: case_op_def split: if_splits)
  ultimately show ?thesis
    using nil(1) by (simp add: compileCase_def Some r x case_ok_def)
qed

lemma compileBranch_ok:
  assumes "compileBranch s p = ([], cs)"
  shows "Cases s \<noteq> []" "Default s \<noteq> []" "\<forall>c \<in> set cs. case_ok c" "map cnext cs = map CNext (Cases s)"
proof -
  define rs where "rs = map (\<lambda>(i, c). compileCase (case_path p i) c) (List.enumerate 0 (Cases s))"
  from assms show "Cases s \<noteq> []" "Default s \<noteq> []" by (auto simp: compileBranch_def Let_def)
  have nil: "\<forall>r \<in> set rs. fst r = []" and cs: "cs = List.map_filter snd rs"
    using assms by (auto simp: compileBranch_def Let_def rs_def [symmetric])
  have gen: "(\<forall>c \<in> set (List.map_filter snd (map (\<lambda>(i, c). compileCase (case_path p i) c) (List.enumerate n xs))). case_ok c) \<and>
      map cnext (List.map_filter snd (map (\<lambda>(i, c). compileCase (case_path p i) c) (List.enumerate n xs))) = map CNext xs"
    if "\<forall>r \<in> set (map (\<lambda>(i, c). compileCase (case_path p i) c) (List.enumerate n xs)). fst r = []" for n xs
    using that
  proof (induction xs arbitrary: n)
    case (Cons x xs)
    then obtain k where "snd (compileCase (case_path p n) x) = Some k" "case_ok k" "cnext k = CNext x"
      using compileCase_ok [of "case_path p n" x] by auto
    with Cons.IH [of "Suc n"] Cons.prems show ?case by (simp add: List.map_filter_simps)
  qed (simp add: List.map_filter_simps)
  show "\<forall>c \<in> set cs. case_ok c" "map cnext cs = map CNext (Cases s)"
    using gen [of 0 "Cases s"] nil by (auto simp: cs rs_def)
qed

section \<open>Steps and items\<close>

lemma compile_kind_fixed:
  "compile_kind v s p n ld = (n', ps, ld') \<Longrightarrow> nstep n' = nstep n \<and> nid n' = nid n \<and> npath n' = npath n \<and>
     nkind n' = nkind n \<and> isItem n' = isItem n \<and> attempts n' = attempts n \<and> backoff n' = backoff n \<and> known n' = known n \<and>
     args n' = args n"
  by (auto simp: compile_kind_def split: if_splits prod.splits)

lemma compile_kind_loader: "loader_ok ld \<Longrightarrow> compile_kind v s p n ld = (n', ps, ld') \<Longrightarrow> loader_ok ld'"
  by (auto simp: compile_kind_def dest: compileAI_loader compileAgent_loader compileInterrupt_loader
      split: if_splits prod.splits)

lemma compile_kind_ok:
  assumes c: "compile_kind v s p n ld = (n', [], ld')" and ld: "loader_ok ld"
    and n: "known n" "nkind n = SKind s" "nstep n = step0.truncate s" "SKind s \<in> set step_kinds"
      "1 \<le> attempts n" "attempts n \<le> maxStepAttempts" "0 \<le> backoff n" "backoff n \<le> maxBackoff"
  shows "compiled_ok v n'"
proof -
  consider "SKind s = KindDeterministic" | "SKind s = KindCapability" | "SKind s = KindAI" | "SKind s = KindAgent"
    | "SKind s = KindMap" | "SKind s = KindBranch" | "SKind s = KindInterrupt"
    using n(4) by (auto simp: step_kinds_def)
  then show ?thesis
  proof cases
    case 1
    obtain ps f where k: "compileFunction (registry v) (Function s) (p @ ''.function'') = (ps, f)" by fastforce
    have n': "n' = n\<lparr>fn := f, noutput := map_option Result f\<rparr>" "ps = []"
      using c 1 by (simp_all add: compile_kind_def k)
    from compileFunction_ok [OF k [unfolded n'(2)]] obtain g
      where "f = Some g" "map_of (registry v) (Function s) = Some g" by blast
    then show ?thesis using 1 n by (simp add: n' compiled_ok_def)
  next
    case 2
    obtain ps k where k: "compileCapability (env v) (defn v) s p (attempts n) = (ps, k)" by fastforce
    have n': "n' = n\<lparr>cap := k, noutput := map_option (\<lambda>k. orEmptyObject (COutput k)) k\<rparr>" "ps = []"
      using c 2 by (simp_all add: compile_kind_def k)
    from compileCapability_authorized [OF k [unfolded n'(2)]] obtain c
      where "k = Some c" "capability_authorized (env v) (defn v) s (attempts n) c" by blast
    then show ?thesis using 2 n by (simp add: n' compiled_ok_def)
  next
    case 3
    obtain ps sch l where k: "compileAI v s p ld = (ps, sch, l)" using prod_cases3 by blast
    have n': "n' = n\<lparr>nschema := sch, noutput := sch\<rparr>" "ps = []"
      using c 3 by (simp_all add: compile_kind_def k)
    from compileAI_ok [OF k [unfolded n'(2)] ld] obtain t where "sch = Some t" "strict t \<and> wf_ty t \<and> Kind t = KObject" by blast
    then show ?thesis using 3 n by (simp add: n' compiled_ok_def)
  next
    case 4
    obtain ps sch b tks l where k: "compileAgent v s p ld = (ps, sch, b, tks, l)" using prod_cases5 by blast
    have n': "n' = n\<lparr>nschema := sch, noutput := Some (agentResultType sch), nbudget := b, ntokens := tks\<rparr>" "ps = []"
      using c 4 by (simp_all add: compile_kind_def k)
    from compileAgent_ok [OF k [unfolded n'(2)]] show ?thesis using 4 n by (simp add: n' compiled_ok_def)
  next
    case 5
    then have "n' = n" using c by (simp add: compile_kind_def)
    then show ?thesis using 5 n by (simp add: compiled_ok_def)
  next
    case 6
    obtain ps cs where k: "compileBranch s p = (ps, cs)" by fastforce
    have n': "n' = n\<lparr>cases := cs\<rparr>" "ps = []"
      using c 6 by (simp_all add: compile_kind_def k)
    show ?thesis
      using 6 n compileBranch_ok [OF k [unfolded n'(2)]] by (simp add: n' compiled_ok_def)
  next
    case 7
    obtain ps sch l where k: "compileInterrupt v s p ld = (ps, sch, l)" using prod_cases3 by blast
    have n': "n' = n\<lparr>nschema := sch, noutput := sch\<rparr>" "ps = []"
      using c 7 by (simp_all add: compile_kind_def k)
    from compileInterrupt_ok [OF k [unfolded n'(2)] ld] obtain t where "sch = Some t" "strict t \<and> wf_ty t \<and> Kind t = KObject" by blast
    then show ?thesis using 7 n by (simp add: n' compiled_ok_def)
  qed
qed

lemma compile0_loader:
  assumes "loader_ok ld" and "compile0 v s p i ld = (n, ps, ld')"
  shows "loader_ok ld'"
  using assms
  by (auto simp: compile0_def Let_def dest: compile_kind_loader split: if_splits option.splits prod.splits)

lemma compile0_fixed:
  "compile0 v s p i ld = (n, ps, ld') \<Longrightarrow> nstep n = step0.truncate s \<and> nid n = ID s \<and> npath n = p \<and>
     nkind n = SKind s \<and> isItem n = i \<and> args n = []"
  by (auto simp: compile0_def new_node_def Let_def dest: compile_kind_fixed split: if_splits option.splits prod.splits)

lemma compile0_ok:
  assumes c: "compile0 v s p i ld = (n, [], ld')" and ld: "loader_ok ld"
  shows "compiled_ok v n" and "i \<Longrightarrow> nkind n \<in> set itemKinds"
proof -
  from c obtain fs ps2 t w ps3 where f: "fieldsByKind (SKind s) = Some fs" "i \<longrightarrow> SKind s \<in> set itemKinds"
      and r: "retryPolicy (Retry s) p = ([], t, w)"
      and k: "compile_kind v s p (new_node s p i\<lparr>known := True, attempts := t, backoff := w\<rparr>) ld = (n, [], ld')"
    by (auto simp: compile0_def Let_def split: if_splits option.splits prod.splits)
  show "compiled_ok v n"
    by (rule compile_kind_ok [OF k ld])
      (use f fieldsByKind_Some [OF f(1)] retryPolicy_bounds [OF r] in \<open>simp_all add: new_node_def\<close>)
  show "i \<Longrightarrow> nkind n \<in> set itemKinds"
    using f compile_kind_fixed [OF k] by (simp add: new_node_def)
qed

lemma extend_sel [simp]:
  "known (node0.extend n x) = known n" "nkind (node0.extend n x) = nkind n" "attempts (node0.extend n x) = attempts n"
  "backoff (node0.extend n x) = backoff n" "nstep (node0.extend n x) = nstep n" "fn (node0.extend n x) = fn n"
  "noutput (node0.extend n x) = noutput n" "cap (node0.extend n x) = cap n" "nschema (node0.extend n x) = nschema n"
  "nbudget (node0.extend n x) = nbudget n" "ntokens (node0.extend n x) = ntokens n" "cases (node0.extend n x) = cases n"
  "nid (node0.extend n x) = nid n" "npath (node0.extend n x) = npath n" "over (node0.extend n x) = over n"
  "args (node0.extend n x) = args n" "isItem (node0.extend n x) = isItem n"
  by (simp_all add: node0.extend_def)

lemma extend_item [simp]: "item (node0.extend n \<lparr>item = x\<rparr>) = x"
  by (simp add: node0.extend_def)

lemma compiled_ok_extend [simp]: "compiled_ok v (node0.extend n x) = compiled_ok v n"
  by (simp add: compiled_ok_def)

lemma compiled_ok_over [simp]: "compiled_ok v (n\<lparr>over := r\<rparr>) = compiled_ok v n"
  by (simp add: compiled_ok_def)

lemma compiled_ok_nid [simp]: "compiled_ok v (n\<lparr>nid := i\<rparr>) = compiled_ok v n"
  by (simp add: compiled_ok_def)

text \<open>A step whose compilation added no problem, with its map's list reference and item.\<close>

definition item_ok :: "validator \<Rightarrow> node \<Rightarrow> bool" where
  "item_ok v n \<longleftrightarrow> (nkind n = KindMap \<longrightarrow> map_bounded (nstep n) \<and>
     (\<exists>r s. over n = Some r \<and> parseRef s = Inr r \<and> Root r = refSteps) \<and>
     (\<exists>m. item n = Some m \<and> compiled_ok v m \<and> nkind m \<in> set itemKinds \<and> nid m = nid n \<and> args m = [])) \<and>
   (nkind n \<noteq> KindMap \<longrightarrow> item n = None)"

definition node_ok :: "validator \<Rightarrow> node \<Rightarrow> bool" where
  "node_ok v n \<longleftrightarrow> compiled_ok v n \<and> item_ok v n \<and> args n = []"

lemma map_bounded_truncate [simp]: "map_bounded (step0.truncate s) = map_bounded s"
  by (simp add: map_bounded_def)

lemma compileMap_loader:
  "loader_ok ld \<Longrightarrow> compileMap v s p n ld = (m, ps, ld') \<Longrightarrow> loader_ok ld'"
  by (auto simp: compileMap_def Let_def dest: compile0_loader split: option.splits prod.splits)

lemma compileMap_ok:
  assumes c: "compileMap v s p n ld = (m, [], ld')" and ld: "loader_ok ld"
    and n: "compiled_ok v n" "nkind n = KindMap" "nstep n = step0.truncate s" "args n = []"
  shows "node_ok v m \<and> nid m = nid n"
proof -
  obtain ps1 r where o: "map_over s p = (ps1, r)" by fastforce
  obtain it where it: "Item s = Some it"
    using c by (auto simp: compileMap_def o Let_def split: option.splits)
  obtain k ps3 l where k: "compile0 v it (p @ ''.item'') True ld = (k, ps3, l)" using prod_cases3 by blast
  have nil: "ps1 = []" "map_items s p = []" "map_parallel (vlimits v) (limitsOK v) s p = []" "map_failure s p = []" "ps3 = []"
    and m: "m = node0.extend (n\<lparr>over := r\<rparr>) \<lparr>item = Some (k\<lparr>nid := nid n\<rparr>)\<rparr>"
    using c by (auto simp: compileMap_def o it k)
  have "\<exists>q t. r = Some q \<and> parseRef t = Inr q \<and> Root q = refSteps"
    using o nil(1) by (auto simp: map_over_def split: if_splits sum.splits)
  moreover have "compiled_ok v k" "nkind k \<in> set itemKinds" "args k = []"
    using compile0_ok [OF k [unfolded nil] ld] compile0_fixed [OF k] by auto
  ultimately show ?thesis
    using n map_checks_bounded [OF nil(2-4)] by (auto simp: node_ok_def item_ok_def m)
qed

lemma compile_loader: "loader_ok ld \<Longrightarrow> compile v s p ld = (n, ps, ld') \<Longrightarrow> loader_ok ld'"
  by (auto simp: compile_def dest: compile0_loader compileMap_loader split: prod.splits if_splits)

lemma compile_ok:
  assumes c: "compile v s p ld = (n, [], ld')" and ld: "loader_ok ld"
  shows "node_ok v n \<and> nid n = ID s"
proof -
  obtain k ps l where k: "compile0 v s p False ld = (k, ps, l)" using prod_cases3 by blast
  have nil: "ps = []" using c by (auto simp: compile_def k split: if_splits prod.splits)
  note ok = compile0_ok(1) [OF k [unfolded nil] ld] and fixed = compile0_fixed [OF k]
  show ?thesis
  proof (cases "SKind s = KindMap")
    case True
    have kn: "known k" using ok by (simp add: compiled_ok_def)
    obtain m qs l2 where m: "compileMap v s p k l = (m, qs, l2)" using prod_cases3 by blast
    have "n = m" "qs = []" using c kn True by (simp_all add: compile_def k m)
    with compileMap_ok [OF m [unfolded \<open>qs = []\<close>] compile0_loader [OF ld k] ok] fixed True show ?thesis by simp
  next
    case False
    then have "n = node0.extend k \<lparr>item = None\<rparr>" using c by (simp add: compile_def k)
    with ok fixed False show ?thesis by (simp add: node_ok_def item_ok_def)
  qed
qed

lemma collect_from_ok:
  assumes "collect_from v i acc ld ss = (ns, [], ld')" and "loader_ok ld"
    and "\<forall>n \<in> set acc. node_ok v n" and "distinct (map nid acc)" and "\<forall>n \<in> set acc. identifierPattern (nid n)"
  shows "(\<forall>n \<in> set ns. node_ok v n \<and> identifierPattern (nid n)) \<and> distinct (map nid ns)
    \<and> map nid ns = map nid acc @ map ID ss"
  using assms
proof (induction v i acc ld ss rule: collect_from.induct)
  case (2 v i acc ld s ss)
  obtain n ps ld1 where c: "compile v s (''steps.'' @ ID s) ld = (n, ps, ld1)" using prod_cases3 by blast
  obtain ms qs ld2 where r: "collect_from v (Suc i) (acc @ [n]) ld1 ss = (ms, qs, ld2)" using prod_cases3 by blast
  have s: "ID s \<noteq> []" "identifierPattern (ID s)" "ID s \<notin> set (map nid acc)" "ps = []" "qs = []" "ns = ms" "ld2 = ld'"
    using "2.prems"(1) unfolding collect_from.simps Let_def c prod.case r by (auto split: if_splits prod.splits)
  have n: "node_ok v n" "nid n = ID s" using compile_ok [OF c [unfolded s] "2.prems"(2)] by auto
  show ?case
    using "2.IH"(4) [OF _ _ _ _ c [symmetric] refl, of "''steps['' @ itoa (int i) @ ''].id''"] s n r "2.prems"(2-)
      compile_loader [OF "2.prems"(2) c] by auto fastforce
qed auto

lemma collectSteps_ok:
  assumes "collectSteps v = (ns, [], ld)"
  shows "\<forall>n \<in> set ns. node_ok v n \<and> identifierPattern (nid n)" and "distinct (map nid ns)" and "ns \<noteq> []"
    and "map nid ns = map ID (Steps (defn v))"
proof -
  obtain ms ps l where c: "collect_from v 0 [] empty_loader (Steps (defn v)) = (ms, ps, l)" using prod_cases3 by blast
  have ps: "ps = []" "Steps (defn v) \<noteq> []" "ns = ms" using assms by (auto simp: collectSteps_def c)
  have "loader_ok empty_loader" by (simp add: loader_ok_def empty_loader_def)
  from collect_from_ok [OF c [unfolded ps(1)] this] ps show
    "\<forall>n \<in> set ns. node_ok v n \<and> identifierPattern (nid n)" "distinct (map nid ns)" "ns \<noteq> []"
    "map nid ns = map ID (Steps (defn v))"
    by auto
qed

end
