(* ===== verification/Graph.thy ===== *)
theory Graph
  imports Prelude
begin

text \<open>
  The graph algorithms of \<^verbatim>\<open>checkGraph\<close> (validate.go): cycle detection by depth-first search,
  reachability by breadth-first search, the declaration-order topological sort, and
  dominators. A graph is the list of step ids with their successors, in declaration order.
  The search functions are defined for every graph; their properties are proved once in the
  locale \<open>flow_graph\<close>, for graphs whose ids are distinct and whose successors are steps.
\<close>

section \<open>Graphs\<close>

type_synonym graph = "(string \<times> string list) list"

definition nexts :: "graph \<Rightarrow> string \<Rightarrow> string list" where
  "nexts g a = (case map_of g a of Some ns \<Rightarrow> ns | None \<Rightarrow> [])"

definition ids :: "graph \<Rightarrow> string set" where
  "ids g = fst ` set g"

definition edge :: "graph \<Rightarrow> string \<Rightarrow> string \<Rightarrow> bool" where
  "edge g a b \<longleftrightarrow> b \<in> set (nexts g a)"

definition edge_rel :: "graph \<Rightarrow> (string \<times> string) set" where
  "edge_rel g = {(a, b). edge g a b}"

lemma nexts_unknown: "a \<notin> ids g \<Longrightarrow> nexts g a = []"
  by (simp add: nexts_def ids_def map_of_eq_None_iff [symmetric])

text \<open>\<^verbatim>\<open>v.preds\<close>: the steps that name a step, in declaration order.\<close>

definition preds :: "graph \<Rightarrow> string \<Rightarrow> string list" where
  "preds g b = map fst (filter (\<lambda>(a, ns). b \<in> set ns) g)"

section \<open>Depth-first search\<close>

datatype colour = White | Gray | Black

record dfs =
  colour :: "string \<Rightarrow> colour"
  stack :: "string list"
  cycles :: "string list list"
  acyclicFlag :: bool

definition enter :: "string \<Rightarrow> dfs \<Rightarrow> dfs" where
  "enter a st = st\<lparr>colour := (colour st)(a := Gray), stack := stack st @ [a]\<rparr>"

definition leave :: "string \<Rightarrow> dfs \<Rightarrow> dfs" where
  "leave a st = st\<lparr>stack := butlast (stack st), colour := (colour st)(a := Black)\<rparr>"

text \<open>A gray successor closes a cycle: the stack from its position, and the step again.\<close>

definition report_cycle :: "string \<Rightarrow> dfs \<Rightarrow> dfs" where
  "report_cycle a st = (case index_of a (stack st) of
     Some i \<Rightarrow> st\<lparr>cycles := cycles st @ [drop i (stack st) @ [a]], acyclicFlag := False\<rparr>
   | None \<Rightarrow> st\<lparr>acyclicFlag := False\<rparr>)"

definition whites :: "graph \<Rightarrow> dfs \<Rightarrow> string set" where
  "whites g st = {a \<in> ids g. colour st a = White}"

text \<open>The loop over the successors of the step being visited; \<open>visit\<close> is its white case.\<close>

function visit_all :: "graph \<Rightarrow> string list \<Rightarrow> dfs \<Rightarrow> dfs" where
  "visit_all g [] st = st"
| "visit_all g (a # as) st = (case colour st a of
     White \<Rightarrow> visit_all g as (leave a (visit_all g (nexts g a) (enter a st)))
   | Gray \<Rightarrow> visit_all g as (report_cycle a st)
   | Black \<Rightarrow> visit_all g as st)"
  by pat_completeness auto

lemma finite_whites [simp]: "finite (whites g st)"
  by (simp add: whites_def ids_def)

lemma whites_enter: "whites g (enter a st) = whites g st - {a}"
  by (auto simp: whites_def enter_def)

lemma whites_leave: "whites g (leave a st) \<subseteq> whites g st"
  by (auto simp: whites_def leave_def)

lemma whites_report [simp]: "whites g (report_cycle a st) = whites g st"
  by (simp add: whites_def report_cycle_def split: option.splits)

lemma report_cycle_sel [simp]:
  "colour (report_cycle a st) = colour st" "stack (report_cycle a st) = stack st" "\<not> acyclicFlag (report_cycle a st)"
  by (simp_all add: report_cycle_def split: option.splits)

lemma visit_all_whites:
  "visit_all_dom (g, as, st) \<Longrightarrow> whites g (visit_all g as st) \<subseteq> whites g st"
proof (induction rule: visit_all.pinduct)
  case (1 g st)
  then show ?case by (simp add: visit_all.psimps(1))
next
  case (2 g a as st)
  note step = visit_all.psimps(2) [OF 2(1)]
  show ?case
  proof (cases "colour st a")
    case White
    have "whites g (visit_all g (nexts g a) (enter a st)) \<subseteq> whites g st"
      using "2.IH"(1) [OF White] by (auto simp: whites_enter)
    then have "whites g (leave a (visit_all g (nexts g a) (enter a st))) \<subseteq> whites g st"
      using whites_leave by blast
    then show ?thesis using "2.IH"(2) [OF White] by (simp add: step White)
  next
    case Gray
    then show ?thesis using "2.IH"(3) [OF Gray] by (simp add: step)
  next
    case Black
    then show ?thesis using "2.IH"(4) [OF Black] by (simp add: step)
  qed
qed

termination visit_all
proof (relation "(\<lambda>(g, as, st). card (whites g st)) <*mlex*> measure (\<lambda>(g, as, st). length as)", goal_cases)
  case 1
  then show ?case by (intro wf_mlex) simp
next
  case (2 g a as st)
  show ?case
  proof (cases "a \<in> ids g")
    case True
    with 2 have "a \<in> whites g st" by (simp add: whites_def)
    then have "card (whites g (enter a st)) < card (whites g st)"
      unfolding whites_enter by (intro card_Diff1_less) simp_all
    then show ?thesis by (simp add: mlex_less)
  next
    case False
    then have "nexts g a = []" by (rule nexts_unknown)
    moreover have "card (whites g (enter a st)) \<le> card (whites g st)"
      by (intro card_mono) (auto simp: whites_enter)
    ultimately show ?thesis by (simp add: mlex_leq)
  qed
next
  case (3 g a as st)
  have "whites g (leave a (visit_all g (nexts g a) (enter a st))) \<subseteq> whites g st"
    using visit_all_whites [OF 3(2)] whites_leave [of g a] whites_enter [of g a st] by blast
  then have "card (whites g (leave a (visit_all g (nexts g a) (enter a st)))) \<le> card (whites g st)"
    by (intro card_mono) auto
  then show ?case by (simp add: mlex_leq)
next
  case (4 g a as st)
  then show ?case by (simp add: mlex_leq)
next
  case (5 g a as st)
  then show ?case by (simp add: mlex_leq)
qed

definition visit :: "graph \<Rightarrow> string \<Rightarrow> dfs \<Rightarrow> dfs" where
  "visit g a st = leave a (visit_all g (nexts g a) (enter a st))"

definition dfs_start :: dfs where
  "dfs_start = \<lparr>colour = (\<lambda>_. White), stack = [], cycles = [], acyclicFlag = True\<rparr>"

definition dfs :: "graph \<Rightarrow> dfs" where
  "dfs g = fold (\<lambda>a st. if colour st a = White then visit g a st else st) (map fst g) dfs_start"

section \<open>What the search finds\<close>

text \<open>Visiting restores the stack and the gray steps, and never repaints a finished step.\<close>

lemma visit_all_frame:
  "stack (visit_all g as st) = stack st"
  "colour st x \<noteq> White \<Longrightarrow> colour (visit_all g as st) x = colour st x"
  "colour (visit_all g as st) x = Gray \<longleftrightarrow> colour st x = Gray"
proof -
  have "stack (visit_all g as st) = stack st \<and>
      (\<forall>x. colour st x \<noteq> White \<longrightarrow> colour (visit_all g as st) x = colour st x) \<and>
      (\<forall>x. colour (visit_all g as st) x = Gray \<longrightarrow> colour st x = Gray)"
  proof (induction g as st rule: visit_all.induct)
    case (2 g a as st)
    show ?case
    proof (cases "colour st a")
      case White
      define st1 where "st1 = visit_all g (nexts g a) (enter a st)"
      note i1 = "2.IH"(1) [OF White, folded st1_def] and i2 = "2.IH"(2) [OF White, folded st1_def]
      have s: "stack (leave a st1) = stack st" using i1 by (simp add: leave_def enter_def)
      have c: "colour (leave a st1) x = colour st x" if "colour st x \<noteq> White" for x
      proof -
        have "x \<noteq> a" using that White by auto
        then show ?thesis using i1 that by (simp add: leave_def enter_def)
      qed
      have gr: "colour st x = Gray" if "colour (leave a st1) x = Gray" for x
      proof -
        have "x \<noteq> a" "colour st1 x = Gray" using that by (auto simp: leave_def split: if_splits)
        then show ?thesis using i1 by (auto simp: enter_def split: if_splits)
      qed
      have "visit_all g (a # as) st = visit_all g as (leave a st1)" by (simp add: White st1_def)
      then show ?thesis using i2 s c gr by metis
    next
      case Gray
      then have "visit_all g (a # as) st = visit_all g as (report_cycle a st)" by simp
      then show ?thesis using "2.IH"(3) [OF Gray] by (metis report_cycle_sel(1,2))
    next
      case Black
      then have "visit_all g (a # as) st = visit_all g as st" by simp
      then show ?thesis using "2.IH"(4) [OF Black] by metis
    qed
  qed simp
  note frame = this
  show "stack (visit_all g as st) = stack st" using frame by blast
  show same: "colour (visit_all g as st) x = colour st x" if "colour st x \<noteq> White" using frame that by blast
  show "colour (visit_all g as st) x = Gray \<longleftrightarrow> colour st x = Gray"
    using frame same by (metis colour.distinct(1))
qed

lemma leave_visit_frame:
  fixes g
  assumes "colour st a = White"
  defines "st2 \<equiv> leave a (visit_all g (nexts g a) (enter a st))"
  shows "stack st2 = stack st" "colour st2 a = Black" "colour st x \<noteq> White \<Longrightarrow> colour st2 x = colour st x"
    "colour st2 x = Gray \<longleftrightarrow> colour st x = Gray"
  using assms(1) visit_all_frame [where g = g and as = "nexts g a" and st = "enter a st"]
  by (auto simp: st2_def leave_def enter_def)

lemma visit_all_flag: "acyclicFlag (visit_all g as st) \<Longrightarrow> acyclicFlag st"
proof (induction g as st rule: visit_all.induct)
  case (2 g a as st)
  then show ?case
    by (cases "colour st a") (auto simp: leave_def enter_def report_cycle_def split: option.splits)
qed simp

lemma visit_all_black:
  "acyclicFlag (visit_all g as st) \<Longrightarrow> b \<in> set as \<Longrightarrow> colour (visit_all g as st) b = Black"
proof (induction g as st rule: visit_all.induct)
  case (2 g a as st)
  show ?case
  proof (cases "colour st a")
    case White
    note f = leave_visit_frame [OF White, where g = g]
    have "colour (visit_all g as (leave a (visit_all g (nexts g a) (enter a st)))) a = Black"
      by (simp add: visit_all_frame(2) f)
    then show ?thesis using 2 White by auto
  next
    case Gray
    then show ?thesis
      using 2 visit_all_flag [of g as "report_cycle a st"] by (auto simp: report_cycle_def split: option.splits)
  next
    case Black
    then show ?thesis using 2 by (auto simp: visit_all_frame(2))
  qed
qed simp

text \<open>While no cycle is found, finished steps lead to finished steps, without a cycle.\<close>

definition black_ok :: "graph \<Rightarrow> dfs \<Rightarrow> bool" where
  "black_ok g st \<longleftrightarrow> (acyclicFlag st \<longrightarrow>
     (\<forall>a b. colour st a = Black \<longrightarrow> edge g a b \<longrightarrow> colour st b = Black) \<and>
     acyclic {(a, b). edge g a b \<and> colour st a = Black})"

lemma acyclic_add_source:
  assumes "acyclic R" and "a \<notin> Range R" and "a \<notin> C"
  shows "acyclic (R \<union> {a} \<times> C)"
proof -
  have "y \<noteq> a \<and> (x \<noteq> a \<longrightarrow> (x, y) \<in> R\<^sup>+)" if "(x, y) \<in> (R \<union> {a} \<times> C)\<^sup>+" for x y
    using that
  proof induction
    case (step y z)
    then show ?case using assms(2,3) by (auto intro: trancl_into_trancl)
  qed (use assms in auto)
  then show ?thesis using assms(1) by (auto simp: acyclic_def)
qed

lemma black_ok_leave:
  assumes inv: "black_ok g st1" and gray: "colour st1 a = Gray"
    and nx: "acyclicFlag st1 \<Longrightarrow> \<forall>b \<in> set (nexts g a). colour st1 b = Black"
  shows "black_ok g (leave a st1)"
  unfolding black_ok_def
proof (intro impI conjI)
  assume "acyclicFlag (leave a st1)"
  then have f: "acyclicFlag st1" by (simp add: leave_def)
  note inv = inv [unfolded black_ok_def, rule_format, OF f]
  show "\<forall>x b. colour (leave a st1) x = Black \<longrightarrow> edge g x b \<longrightarrow> colour (leave a st1) b = Black"
    using inv nx [OF f] by (auto simp: leave_def edge_def)
  let ?R = "{(x, b). edge g x b \<and> colour st1 x = Black}"
  have "acyclic (?R \<union> {a} \<times> set (nexts g a))"
    using inv nx [OF f] gray by (intro acyclic_add_source) (auto simp: edge_def)
  moreover have "{(x, b). edge g x b \<and> colour (leave a st1) x = Black} \<subseteq> ?R \<union> {a} \<times> set (nexts g a)"
    by (auto simp: leave_def edge_def split: if_splits)
  ultimately show "acyclic {(x, b). edge g x b \<and> colour (leave a st1) x = Black}"
    by (rule acyclic_subset)
qed

lemma visit_all_black_ok: "black_ok g st \<Longrightarrow> black_ok g (visit_all g as st)"
proof (induction g as st rule: visit_all.induct)
  case (2 g a as st)
  show ?case
  proof (cases "colour st a")
    case White
    have "black_ok g (enter a st)"
      using "2.prems" White by (auto simp: black_ok_def enter_def elim!: acyclic_subset split: if_splits)
    then have "black_ok g (visit_all g (nexts g a) (enter a st))" by (rule "2.IH"(1) [OF White])
    moreover have "colour (visit_all g (nexts g a) (enter a st)) a = Gray"
      by (simp add: visit_all_frame(2) enter_def)
    ultimately have "black_ok g (leave a (visit_all g (nexts g a) (enter a st)))"
      by (rule black_ok_leave) (simp add: visit_all_black)
    then show ?thesis using "2.IH"(2) [OF White] White by simp
  next
    case Gray
    have "black_ok g (report_cycle a st)" by (simp add: black_ok_def report_cycle_def split: option.splits)
    then show ?thesis using "2.IH"(3) [OF Gray] Gray by simp
  next
    case Black
    then show ?thesis using "2.IH"(4) [OF Black] "2.prems" by simp
  qed
qed simp

text \<open>Every cycle reported is one: the stack is a path that ends at the step being visited.\<close>

definition is_cycle :: "graph \<Rightarrow> string list \<Rightarrow> bool" where
  "is_cycle g c \<longleftrightarrow> 2 \<le> length c \<and> hd c = last c \<and> successively (edge g) c"

definition stack_ok :: "graph \<Rightarrow> dfs \<Rightarrow> bool" where
  "stack_ok g st \<longleftrightarrow> successively (edge g) (stack st) \<and> (\<forall>x. colour st x = Gray \<longleftrightarrow> x \<in> set (stack st))"

definition cycles_ok :: "graph \<Rightarrow> dfs \<Rightarrow> bool" where
  "cycles_ok g st \<longleftrightarrow> (\<forall>c \<in> set (cycles st). is_cycle g c) \<and> (acyclicFlag st \<longleftrightarrow> cycles st = [])"

lemma report_cycle_ok:
  assumes "stack_ok g st" and "cycles_ok g st" and gray: "colour st a = Gray" and top: "edge g (last (stack st)) a"
  shows "cycles_ok g (report_cycle a st)"
proof -
  have a: "a \<in> set (stack st)" and path: "successively (edge g) (stack st)"
    using assms(1) gray by (auto simp: stack_ok_def)
  then obtain i where i: "index_of a (stack st) = Some i" by (cases "index_of a (stack st)") auto
  note lt = index_of_lt [OF i] and nth = index_of_nth [OF i]
  have "successively (edge g) (take i (stack st) @ drop i (stack st))" using path by simp
  then have "successively (edge g) (drop i (stack st))" using successively_append_iff by blast
  then have "is_cycle g (drop i (stack st) @ [a])"
    using lt nth top by (auto simp: is_cycle_def successively_append_iff hd_append hd_drop_conv_nth)
  then show ?thesis using assms(2) i by (auto simp: report_cycle_def cycles_ok_def)
qed

lemma visit_all_cycles:
  "stack_ok g st \<Longrightarrow> cycles_ok g st \<Longrightarrow> (\<And>a. a \<in> set as \<Longrightarrow> stack st \<noteq> [] \<and> edge g (last (stack st)) a) \<Longrightarrow>
     cycles_ok g (visit_all g as st)"
proof (induction g as st rule: visit_all.induct)
  case (2 g a as st)
  have top: "stack st \<noteq> [] \<and> edge g (last (stack st)) b" if "b \<in> set as" for b
    using "2.prems"(3) [of b] that by simp
  show ?case
  proof (cases "colour st a")
    case White
    note f = leave_visit_frame [OF White, where g = g]
    have "stack_ok g (enter a st)"
      using "2.prems"(1) "2.prems"(3) [of a] White
      by (auto simp: stack_ok_def enter_def successively_append_iff)
    moreover have "cycles_ok g (enter a st)" using "2.prems"(2) by (simp add: cycles_ok_def enter_def)
    ultimately have "cycles_ok g (visit_all g (nexts g a) (enter a st))"
      by (rule "2.IH"(1) [OF White]) (simp add: enter_def edge_def)
    then have "cycles_ok g (leave a (visit_all g (nexts g a) (enter a st)))"
      by (simp add: cycles_ok_def leave_def)
    moreover have "stack_ok g (leave a (visit_all g (nexts g a) (enter a st)))"
      using "2.prems"(1) by (simp add: stack_ok_def f)
    ultimately have "cycles_ok g (visit_all g as (leave a (visit_all g (nexts g a) (enter a st))))"
      by (intro "2.IH"(2) [OF White]) (simp_all add: f top)
    then show ?thesis using White by simp
  next
    case Gray
    have "cycles_ok g (report_cycle a st)"
      using report_cycle_ok [OF "2.prems"(1,2) Gray] "2.prems"(3) by simp
    moreover have "stack (report_cycle a st) = stack st" "stack_ok g (report_cycle a st)"
      using "2.prems"(1) by (simp_all add: report_cycle_def stack_ok_def split: option.splits)
    ultimately have "cycles_ok g (visit_all g as (report_cycle a st))"
      by (intro "2.IH"(3) [OF Gray]) (simp_all add: top)
    then show ?thesis using Gray by simp
  next
    case Black
    then show ?thesis using "2.IH"(4) [OF Black "2.prems"(1,2)] top by simp
  qed
qed simp

section \<open>Reachability\<close>

text \<open>One pop of the queue: each successor not seen yet is marked and queued.\<close>

definition fresh :: "graph \<Rightarrow> string \<Rightarrow> string list \<Rightarrow> string list" where
  "fresh g a seen = filter (\<lambda>b. b \<notin> set seen) (nexts g a)"

definition universe :: "graph \<Rightarrow> string set" where
  "universe g = ids g \<union> (\<Union>(a, ns) \<in> set g. set ns)"

lemma finite_universe [simp]: "finite (universe g)"
  by (auto simp: universe_def ids_def)

lemma nexts_universe: "set (nexts g a) \<subseteq> universe g"
proof (cases "map_of g a")
  case (Some ns)
  from map_of_SomeD [OF this] show ?thesis by (fastforce simp: universe_def nexts_def Some)
qed (simp add: nexts_def)

function bfs :: "graph \<Rightarrow> string list \<Rightarrow> string list \<Rightarrow> string list" where
  "bfs g [] seen = seen"
| "bfs g (a # queue) seen = bfs g (queue @ fresh g a seen) (seen @ fresh g a seen)"
  by pat_completeness auto
termination
proof (relation "(\<lambda>(g, queue, seen). card (universe g - set seen)) <*mlex*> measure (\<lambda>(g, queue, seen). length queue)", goal_cases)
  case 1
  then show ?case by (intro wf_mlex) simp
next
  case (2 g a queue seen)
  show ?case
  proof (cases "fresh g a seen = []")
    case True
    then show ?thesis by (simp add: mlex_leq)
  next
    case False
    then have "universe g - set (seen @ fresh g a seen) \<subset> universe g - set seen"
      using nexts_universe [of g a] by (auto simp: fresh_def filter_empty_conv)
    then have "card (universe g - set (seen @ fresh g a seen)) < card (universe g - set seen)"
      by (intro psubset_card_mono) simp_all
    then show ?thesis by (simp add: mlex_less)
  qed
qed

definition reachable :: "graph \<Rightarrow> string \<Rightarrow> string list" where
  "reachable g start = (if start \<in> ids g then bfs g [start] [start] else [])"

text \<open>Every step of the queue has been seen, and everything seen and no longer queued is closed.\<close>

lemma bfs_sound:
  "set queue \<subseteq> set seen \<Longrightarrow> (\<And>x. x \<in> set seen \<Longrightarrow> (s, x) \<in> (edge_rel g)\<^sup>*) \<Longrightarrow>
     x \<in> set (bfs g queue seen) \<Longrightarrow> (s, x) \<in> (edge_rel g)\<^sup>*"
proof (induction g queue seen rule: bfs.induct)
  case (2 g a queue seen)
  have "(s, b) \<in> (edge_rel g)\<^sup>*" if "b \<in> set (fresh g a seen)" for b
  proof -
    have "(s, a) \<in> (edge_rel g)\<^sup>*" using 2 by auto
    moreover have "(a, b) \<in> edge_rel g" using that by (simp add: fresh_def edge_rel_def edge_def)
    ultimately show ?thesis by (rule rtrancl_into_rtrancl)
  qed
  with 2 show ?case by auto
qed auto

lemma bfs_mono: "set seen \<subseteq> set (bfs g queue seen)"
  by (induction g queue seen rule: bfs.induct) auto

lemma bfs_closed:
  "(\<And>x y. x \<in> set seen \<Longrightarrow> x \<notin> set queue \<Longrightarrow> edge g x y \<Longrightarrow> y \<in> set seen) \<Longrightarrow>
     x \<in> set (bfs g queue seen) \<Longrightarrow> edge g x y \<Longrightarrow> y \<in> set (bfs g queue seen)"
proof (induction g queue seen rule: bfs.induct)
  case (2 g a queue seen)
  show ?case
    unfolding bfs.simps
  proof (rule "2.IH")
    show "x \<in> set (bfs g (queue @ fresh g a seen) (seen @ fresh g a seen))" using "2.prems"(2) by simp
    fix u w
    assume "u \<in> set (seen @ fresh g a seen)" "u \<notin> set (queue @ fresh g a seen)" "edge g u w"
    then show "w \<in> set (seen @ fresh g a seen)"
      using "2.prems"(1) by (cases "u = a") (auto simp: fresh_def edge_def)
  qed (rule "2.prems"(3))
qed simp

lemma distinct_bfs: "distinct seen \<Longrightarrow> (\<And>a. distinct (nexts g a)) \<Longrightarrow> distinct (bfs g queue seen)"
  by (induction g queue seen rule: bfs.induct) (auto simp: fresh_def)

lemma reachable_iff: "start \<in> ids g \<Longrightarrow> x \<in> set (reachable g start) \<longleftrightarrow> (start, x) \<in> (edge_rel g)\<^sup>*"
proof
  assume s: "start \<in> ids g" and "x \<in> set (reachable g start)"
  then show "(start, x) \<in> (edge_rel g)\<^sup>*" using bfs_sound [of "[start]" "[start]" start g x] by (simp add: reachable_def)
next
  assume s: "start \<in> ids g" and "(start, x) \<in> (edge_rel g)\<^sup>*"
  from this(2) show "x \<in> set (reachable g start)"
  proof induction
    case base
    show ?case using s bfs_mono [of "[start]" g "[start]"] by (simp add: reachable_def)
  next
    case (step y z)
    then show ?case
      using s bfs_closed [of "[start]" "[start]" g y z] by (simp add: reachable_def edge_rel_def)
  qed
qed

section \<open>Topological order\<close>

definition indegrees :: "graph \<Rightarrow> string \<Rightarrow> int" where
  "indegrees g x = int (length (filter (\<lambda>b. b = x) (concat (map snd g))))"

definition lower_all :: "string list \<Rightarrow> (string \<Rightarrow> int) \<Rightarrow> string \<Rightarrow> int" where
  "lower_all ns deg = fold (\<lambda>b d. d(b := d b - 1)) ns deg"

text \<open>
  The source's loop, which takes the first step in declaration order that is not done and has
  no pending predecessor, and starts over. It spins forever when there is none.
\<close>

partial_function (option) topo :: "graph \<Rightarrow> (string \<Rightarrow> int) \<Rightarrow> string list \<Rightarrow> string list option" where
  "topo g deg order = (if length order < length g then
       (case find (\<lambda>(a, ns). a \<notin> set order \<and> deg a = 0) g of
          Some (a, ns) \<Rightarrow> topo g (lower_all ns deg) (order @ [a])
        | None \<Rightarrow> topo g deg order)
     else Some order)"

definition topological_order :: "graph \<Rightarrow> string list option" where
  "topological_order g = topo g (indegrees g) []"

text \<open>Every successor comes later.\<close>

definition topological :: "graph \<Rightarrow> string list \<Rightarrow> bool" where
  "topological g order \<longleftrightarrow> (\<forall>i j. i < length order \<longrightarrow> j < length order \<longrightarrow> edge g (order ! i) (order ! j) \<longrightarrow> i < j)"

section \<open>Dominators\<close>

definition inter :: "string list \<Rightarrow> string list \<Rightarrow> string list" where
  "inter xs ys = filter (\<lambda>x. x \<in> set ys) xs"

definition dom_of :: "string list gomap \<Rightarrow> string \<Rightarrow> string list" where
  "dom_of dm a = (case map_of dm a of Some xs \<Rightarrow> xs | None \<Rightarrow> [])"

text \<open>The dominators of one step: those common to its reachable predecessors, and itself.\<close>

fun common :: "string list gomap \<Rightarrow> string list \<Rightarrow> string list" where
  "common dm [] = []"
| "common dm (p # ps) = foldl (\<lambda>acc q. inter acc (dom_of dm q)) (dom_of dm p) ps"

definition dom_step :: "graph \<Rightarrow> string \<Rightarrow> string list \<Rightarrow> string \<Rightarrow> string list gomap \<Rightarrow> string list gomap" where
  "dom_step g start reach a dm = (if a \<notin> set reach then dm
     else let acc = (if a = start then [] else common dm (filter (\<lambda>p. p \<in> set reach) (preds g a)))
          in put a (acc @ [a]) dm)"

definition dominators :: "graph \<Rightarrow> string \<Rightarrow> string list \<Rightarrow> string list \<Rightarrow> string list gomap" where
  "dominators g start reach order = fold (dom_step g start reach) order []"

section \<open>Correctness on a flow graph\<close>

lemma map_of_in_ids: "a \<in> ids g \<longleftrightarrow> (\<exists>ns. map_of g a = Some ns)"
  unfolding ids_def using map_of_eq_None_iff [of g a] by (cases "map_of g a") auto

lemma path_rtrancl: "xs \<noteq> [] \<Longrightarrow> successively (edge g) xs \<Longrightarrow> (hd xs, last xs) \<in> (edge_rel g)\<^sup>*"
  by (induction xs rule: induct_list012)
    (auto simp: edge_rel_def intro: converse_rtrancl_into_rtrancl)

text \<open>
  The graph checks rely on this: step ids are distinct, and each step's successors are steps,
  each named once.
\<close>

locale flow_graph =
  fixes g :: graph
  assumes distinct_ids: "distinct (map fst g)"
    and known_next: "(a, ns) \<in> set g \<Longrightarrow> set ns \<subseteq> fst ` set g"
    and distinct_next: "(a, ns) \<in> set g \<Longrightarrow> distinct ns"
begin

lemma nexts_mem: "(a, ns) \<in> set g \<longleftrightarrow> a \<in> ids g \<and> nexts g a = ns"
  using map_of_eq_Some_iff [OF distinct_ids, of a ns]
  by (cases "map_of g a") (auto simp: nexts_def map_of_in_ids)

lemma edge_known: "edge g a b \<Longrightarrow> a \<in> ids g \<and> b \<in> ids g"
proof -
  assume e: "edge g a b"
  then have a: "a \<in> ids g" using nexts_unknown by (fastforce simp: edge_def)
  then have "(a, nexts g a) \<in> set g" by (simp add: nexts_mem)
  from known_next [OF this] show ?thesis using e a by (auto simp: edge_def ids_def)
qed

lemma nexts_distinct: "distinct (nexts g a)"
  using distinct_next nexts_mem nexts_unknown by (metis distinct.simps(1))

lemma preds_edge: "a \<in> set (preds g b) \<longleftrightarrow> edge g a b"
proof
  assume "a \<in> set (preds g b)"
  then obtain ns where "(a, ns) \<in> set g" "b \<in> set ns" by (auto simp: preds_def)
  then show "edge g a b" using nexts_mem by (auto simp: edge_def)
next
  assume e: "edge g a b"
  then have "(a, nexts g a) \<in> set g" using edge_known by (simp add: nexts_mem)
  then show "a \<in> set (preds g b)" using e by (force simp: preds_def edge_def)
qed

lemma finite_edges: "finite (edge_rel g)"
proof (rule finite_subset)
  show "edge_rel g \<subseteq> ids g \<times> ids g" using edge_known by (auto simp: edge_rel_def)
qed (simp add: ids_def)

lemma dfs_loop:
  assumes "set as \<subseteq> ids g" and "black_ok g st" and "stack_ok g st" and "cycles_ok g st" and "stack st = []"
  defines "st' \<equiv> fold (\<lambda>a st. if colour st a = White then visit g a st else st) as st"
  shows "black_ok g st' \<and> cycles_ok g st' \<and> (\<forall>x. colour st' x \<noteq> Gray) \<and>
    (\<forall>x. colour st x = Black \<longrightarrow> colour st' x = Black) \<and> (\<forall>x \<in> set as. colour st' x \<noteq> White)"
  using assms(1-5) unfolding st'_def
proof (induction as arbitrary: st)
  case (Cons a as)
  have nogray: "colour st x \<noteq> Gray" for x using Cons.prems(3,5) by (simp add: stack_ok_def)
  show ?case
  proof (cases "colour st a = White")
    case True
    define w where "w = visit g a st"
    have v: "w = visit_all g [a] st" using True by (simp add: w_def visit_def)
    have "stack_ok g (enter a st)" using Cons.prems(3,5) True by (auto simp: stack_ok_def enter_def)
    moreover have "cycles_ok g (enter a st)" using Cons.prems(4) by (simp add: cycles_ok_def enter_def)
    ultimately have "cycles_ok g (visit_all g (nexts g a) (enter a st))"
      by (rule visit_all_cycles) (simp add: enter_def edge_def)
    then have cyc: "cycles_ok g w" by (simp add: w_def visit_def cycles_ok_def leave_def)
    have blk: "black_ok g w" unfolding v by (rule visit_all_black_ok [OF Cons.prems(2)])
    note f = leave_visit_frame [OF True, where g = g, folded visit_def, folded w_def]
    have st: "stack w = []" "stack_ok g w" using Cons.prems(3,5) by (simp_all add: stack_ok_def f(1,4))
    have bl: "colour w x = Black" if "x = a \<or> colour st x = Black" for x
      using that f(2) f(3) [of x] by auto
    from Cons.IH [OF _ blk st(2) cyc st(1)] Cons.prems(1) bl show ?thesis
      by (simp add: True w_def [symmetric])
  next
    case False
    then have "colour st a = Black" using nogray [of a] by (cases "colour st a") auto
    with Cons.IH [OF _ Cons.prems(2-5)] Cons.prems(1) show ?thesis by simp
  qed
qed (auto simp: stack_ok_def)

lemma dfs_end:
  "black_ok g (dfs g)" "cycles_ok g (dfs g)" "x \<in> ids g \<Longrightarrow> colour (dfs g) x = Black"
proof -
  have "black_ok g (dfs g) \<and> cycles_ok g (dfs g) \<and> (\<forall>x. colour (dfs g) x \<noteq> Gray) \<and>
    (\<forall>x. colour dfs_start x = Black \<longrightarrow> colour (dfs g) x = Black) \<and> (\<forall>x \<in> set (map fst g). colour (dfs g) x \<noteq> White)"
    unfolding dfs_def
    by (rule dfs_loop) (auto simp: ids_def black_ok_def stack_ok_def cycles_ok_def dfs_start_def acyclic_def)
  then show "black_ok g (dfs g)" "cycles_ok g (dfs g)" "x \<in> ids g \<Longrightarrow> colour (dfs g) x = Black"
    by (auto simp: ids_def) (metis colour.exhaust fst_conv image_eqI)
qed

text \<open>The flag says exactly whether the graph is acyclic, and each reported cycle is one.\<close>

lemma dfs_flag_acyclic: "acyclicFlag (dfs g) \<Longrightarrow> acyclic (edge_rel g)"
proof -
  assume "acyclicFlag (dfs g)"
  then have "acyclic {(a, b). edge g a b \<and> colour (dfs g) a = Black}"
    using dfs_end(1) by (simp add: black_ok_def)
  moreover have "edge_rel g \<subseteq> {(a, b). edge g a b \<and> colour (dfs g) a = Black}"
    using dfs_end(3) edge_known by (auto simp: edge_rel_def)
  ultimately show ?thesis by (rule acyclic_subset)
qed

lemma is_cycle_cyclic: "is_cycle g c \<Longrightarrow> \<not> acyclic (edge_rel g)"
proof -
  assume c: "is_cycle g c"
  then obtain a b xs where c_eq: "c = a # b # xs"
    by (cases c; cases "tl c") (auto simp: is_cycle_def)
  have "(a, b) \<in> edge_rel g" "(b, last (b # xs)) \<in> (edge_rel g)\<^sup>*" "last (b # xs) = a"
    using c path_rtrancl [of "b # xs"] by (auto simp: is_cycle_def c_eq edge_rel_def)
  then have "(a, a) \<in> (edge_rel g)\<^sup>+" by (metis rtrancl_into_trancl2)
  then show ?thesis by (auto simp: acyclic_def)
qed

lemma dfs_acyclic_iff: "acyclicFlag (dfs g) \<longleftrightarrow> acyclic (edge_rel g)"
proof
  assume a: "acyclic (edge_rel g)"
  show "acyclicFlag (dfs g)"
  proof (rule ccontr)
    assume "\<not> acyclicFlag (dfs g)"
    then obtain c where "c \<in> set (cycles (dfs g))" "is_cycle g c"
      using dfs_end(2) by (cases "cycles (dfs g)") (auto simp: cycles_ok_def)
    with a is_cycle_cyclic show False by blast
  qed
qed (rule dfs_flag_acyclic)

lemma dfs_cycles: "c \<in> set (cycles (dfs g)) \<Longrightarrow> is_cycle g c"
  using dfs_end(2) by (simp add: cycles_ok_def)

lemma dfs_cycles_iff: "cycles (dfs g) = [] \<longleftrightarrow> acyclic (edge_rel g)"
  using dfs_end(2) dfs_acyclic_iff by (simp add: cycles_ok_def)


section \<open>The order exists and is topological\<close>

definition pending :: "string list \<Rightarrow> string \<Rightarrow> string set" where
  "pending order x = {a. a \<notin> set order \<and> edge g a x}"

text \<open>The loop's invariant: counts of pending predecessors, and no edge back into the order.\<close>

definition topo_inv :: "(string \<Rightarrow> int) \<Rightarrow> string list \<Rightarrow> bool" where
  "topo_inv deg order \<longleftrightarrow> distinct order \<and> set order \<subseteq> ids g \<and> (\<forall>x. deg x = int (card (pending order x))) \<and>
     (\<forall>x \<in> set order. pending order x = {}) \<and> topological g order"

lemma finite_pending: "finite (pending order x)"
proof (rule finite_subset)
  show "pending order x \<subseteq> ids g" using edge_known by (auto simp: pending_def)
qed (simp add: ids_def)

lemma lower_all: "distinct ns \<Longrightarrow> lower_all ns deg x = (if x \<in> set ns then deg x - 1 else deg x)"
  unfolding lower_all_def by (induction ns arbitrary: deg) auto

lemma indegrees_pending: "indegrees g x = int (card (pending [] x))"
proof -
  have occ: "length (filter (\<lambda>b. b = x) ns) = (if x \<in> set ns then 1 else 0)" if "distinct ns" for ns
    using that by (induction ns) auto
  have "length (filter (\<lambda>b. b = x) (concat (map snd h))) = length (filter (\<lambda>p. x \<in> set (snd p)) h)"
    if "set h \<subseteq> set g" for h
    using that
  proof (induction h)
    case (Cons p h)
    then have "distinct (snd p)" using distinct_next [of "fst p" "snd p"] by simp
    with Cons occ [of "snd p"] show ?case by simp
  qed simp
  from this [of g] have "indegrees g x = int (length (filter (\<lambda>p. x \<in> set (snd p)) g))"
    by (simp add: indegrees_def)
  also have "length (filter (\<lambda>p. x \<in> set (snd p)) g) = card (fst ` {p \<in> set g. x \<in> set (snd p)})"
  proof -
    have "distinct (map fst (filter (\<lambda>p. x \<in> set (snd p)) g))" using distinct_ids by (rule distinct_map_filter)
    from distinct_card [OF this] show ?thesis by simp
  qed
  also have "fst ` {p \<in> set g. x \<in> set (snd p)} = set (preds g x)"
    by (simp add: preds_def split_beta)
  also have "set (preds g x) = pending [] x"
    using preds_edge by (auto simp: pending_def)
  finally show ?thesis .
qed

lemma topo_candidate:
  assumes ac: "acyclic (edge_rel g)" and inv: "topo_inv deg order" and short: "length order < length g"
  obtains a ns where "find (\<lambda>(a, ns). a \<notin> set order \<and> deg a = 0) g = Some (a, ns)"
    "a \<in> ids g" "a \<notin> set order" "pending order a = {}" "ns = nexts g a"
proof -
  have "card (set order) < card (ids g)"
    using short inv distinct_card [of order] distinct_card [OF distinct_ids] by (simp add: topo_inv_def ids_def)
  then have "ids g - set order \<noteq> {}"
    by (metis Diff_eq_empty_iff List.finite_set card_mono not_less)
  moreover have "wf (edge_rel g)" by (rule finite_acyclic_wf [OF finite_edges ac])
  ultimately obtain z where z: "z \<in> ids g - set order" "\<And>y. (y, z) \<in> edge_rel g \<Longrightarrow> y \<notin> ids g - set order"
    by (metis ex_in_conv wf_eq_minimal)
  have "pending order z = {}" using z(2) edge_known by (auto simp: pending_def edge_rel_def)
  then have "deg z = 0" using inv by (simp add: topo_inv_def)
  then have "find (\<lambda>(a, ns). a \<notin> set order \<and> deg a = 0) g \<noteq> None"
    using z(1) by (auto simp: find_None_iff ids_def)
  then obtain a ns where f: "find (\<lambda>(a, ns). a \<notin> set order \<and> deg a = 0) g = Some (a, ns)" by auto
  from find_SomeD [OF f] have m: "(a, ns) \<in> set g" "a \<notin> set order" "deg a = 0" by auto
  have "pending order a = {}" using m(3) inv finite_pending by (simp add: topo_inv_def)
  with f m show thesis using that nexts_mem by auto
qed

lemma topo_step_inv:
  assumes inv: "topo_inv deg order" and a: "a \<in> ids g" "a \<notin> set order" "pending order a = {}"
  shows "topo_inv (lower_all (nexts g a) deg) (order @ [a])"
proof -
  have no_back: "\<not> edge g x y" if "x \<notin> set order" "y \<in> set (order @ [a])" for x y
    using that inv a(3) by (auto simp: topo_inv_def pending_def)
  have pend: "pending (order @ [a]) x = pending order x - {a}" for x by (auto simp: pending_def)
  have "lower_all (nexts g a) deg x = int (card (pending (order @ [a]) x))" for x
  proof (cases "edge g a x")
    case True
    then have "a \<in> pending order x" using a(2) by (simp add: pending_def)
    then have "card (pending order x - {a}) = card (pending order x) - 1" "0 < card (pending order x)"
      using finite_pending by (auto simp: card_gt_0_iff)
    then show ?thesis using True inv by (simp add: lower_all nexts_distinct pend edge_def topo_inv_def)
  next
    case False
    then have "a \<notin> pending order x" by (simp add: pending_def)
    then show ?thesis using False inv by (simp add: lower_all nexts_distinct pend edge_def topo_inv_def)
  qed
  moreover have "pending (order @ [a]) x = {}" if "x \<in> set (order @ [a])" for x
    using no_back that by (auto simp: pending_def)
  moreover have "topological g (order @ [a])"
    using inv no_back a(2)
    by (auto simp: topological_def topo_inv_def nth_append less_Suc_eq split: if_splits)
  ultimately show ?thesis using inv a by (auto simp: topo_inv_def)
qed

lemma topo_total:
  assumes ac: "acyclic (edge_rel g)" and "topo_inv deg order"
  shows "\<exists>result. topo g deg order = Some result \<and> distinct result \<and> set result = ids g \<and> topological g result"
  using assms(2)
proof (induction "length g - length order" arbitrary: deg order rule: less_induct)
  case less
  show ?case
  proof (cases "length order < length g")
    case True
    obtain a ns where c: "find (\<lambda>(a, ns). a \<notin> set order \<and> deg a = 0) g = Some (a, ns)"
      "a \<in> ids g" "a \<notin> set order" "pending order a = {}" "ns = nexts g a"
      using topo_candidate [OF ac less.prems True] .
    have "topo g deg order = topo g (lower_all ns deg) (order @ [a])"
      using True c(1) by (subst topo.simps) simp
    moreover have "topo_inv (lower_all ns deg) (order @ [a])"
      unfolding c(5) by (rule topo_step_inv [OF less.prems c(2-4)])
    ultimately show ?thesis using less.hyps [of "order @ [a]" "lower_all ns deg"] True by simp
  next
    case False
    have "distinct order" "set order \<subseteq> ids g" "topological g order" using less.prems by (simp_all add: topo_inv_def)
    moreover have "card (ids g) \<le> length order"
      using False distinct_card [OF distinct_ids] by (simp add: ids_def)
    ultimately have "set order = ids g"
      by (metis card_seteq distinct_card finite_imageI ids_def List.finite_set)
    then show ?thesis using False less.prems by (subst topo.simps) (simp add: topo_inv_def)
  qed
qed

lemma topological_order_total:
  "acyclic (edge_rel g) \<Longrightarrow>
     \<exists>order. topological_order g = Some order \<and> distinct order \<and> set order = ids g \<and> topological g order"
  unfolding topological_order_def
  by (rule topo_total) (simp_all add: topo_inv_def indegrees_pending topological_def)

end

section \<open>Dominators are the steps on every path\<close>

text \<open>What \<^verbatim>\<open>dominates\<close> means: every path from the start to \<open>b\<close> goes through \<open>a\<close>.\<close>

definition on_every_path :: "graph \<Rightarrow> string \<Rightarrow> string \<Rightarrow> string \<Rightarrow> bool" where
  "on_every_path g start a b \<longleftrightarrow>
     (\<forall>xs. xs \<noteq> [] \<longrightarrow> hd xs = start \<longrightarrow> last xs = b \<longrightarrow> successively (edge g) xs \<longrightarrow> a \<in> set xs)"

lemma set_common: "ps \<noteq> [] \<Longrightarrow> set (common dm ps) = (\<Inter>p \<in> set ps. set (dom_of dm p))"
proof -
  have "set (foldl (\<lambda>acc q. inter acc (dom_of dm q)) xs qs) = set xs \<inter> (\<Inter>p \<in> set qs. set (dom_of dm p))" for xs qs
    by (induction qs arbitrary: xs) (auto simp: inter_def)
  then show "ps \<noteq> [] \<Longrightarrow> ?thesis" by (cases ps) auto
qed

lemma on_every_path_start: "on_every_path g start a start \<longleftrightarrow> a = start"
proof
  assume "on_every_path g start a start"
  from this [unfolded on_every_path_def, rule_format, of "[start]"] show "a = start" by simp
qed (auto simp: on_every_path_def)

context flow_graph
begin

lemma on_every_path_step:
  assumes "b \<noteq> start" and reach: "\<And>p. p \<in> set ps \<longleftrightarrow> edge g p b \<and> (start, p) \<in> (edge_rel g)\<^sup>*"
  shows "on_every_path g start a b \<longleftrightarrow> a = b \<or> (\<forall>p \<in> set ps. on_every_path g start a p)"
proof
  assume every: "on_every_path g start a b"
  have "on_every_path g start a p" if "a \<noteq> b" "p \<in> set ps" for p
    unfolding on_every_path_def
  proof (intro allI impI)
    fix xs assume xs: "xs \<noteq> []" "hd xs = start" "last xs = p" "successively (edge g) xs"
    then have "successively (edge g) (xs @ [b])" using that reach by (simp add: successively_append_iff)
    then have "a \<in> set (xs @ [b])" using every xs unfolding on_every_path_def by (metis append_is_Nil_conv hd_append2 last_snoc)
    with that show "a \<in> set xs" by simp
  qed
  then show "a = b \<or> (\<forall>p \<in> set ps. on_every_path g start a p)" by blast
next
  assume r: "a = b \<or> (\<forall>p \<in> set ps. on_every_path g start a p)"
  show "on_every_path g start a b"
    unfolding on_every_path_def
  proof (intro allI impI)
    fix xs assume xs: "xs \<noteq> []" "hd xs = start" "last xs = b" "successively (edge g) xs"
    then obtain ys where ys: "xs = ys @ [b]" by (metis append_butlast_last_id)
    have ne: "ys \<noteq> []" using xs assms(1) ys by auto
    have y: "successively (edge g) ys" "edge g (last ys) b" "hd ys = start"
      using xs ys ne by (auto simp: successively_append_iff)
    have "last ys \<in> set ps" using y path_rtrancl [OF ne y(1)] reach by simp
    then show "a \<in> set xs"
      using r y ne ys unfolding on_every_path_def by auto
  qed
qed

lemma dominators_prefix:
  assumes order: "distinct order" "set order = ids g" "topological g order" and start: "start \<in> ids g"
    and pre: "order = pre @ post"
  shows "\<forall>b \<in> set pre \<inter> set (reachable g start). \<forall>a.
     a \<in> set (dom_of (fold (dom_step g start (reachable g start)) pre []) b) \<longleftrightarrow> on_every_path g start a b"
  using pre
proof (induction pre arbitrary: post rule: rev_induct)
  case (snoc x pre)
  define reach where "reach = reachable g start"
  define dm where "dm = fold (dom_step g start reach) pre []"
  have IH: "a \<in> set (dom_of dm b) \<longleftrightarrow> on_every_path g start a b" if "b \<in> set pre" "b \<in> set reach" for a b
    using snoc.IH [of "x # post"] snoc.prems that by (simp add: dm_def reach_def)
  have x: "x \<notin> set pre" using snoc.prems order(1) by simp
  have step: "fold (dom_step g start reach) (pre @ [x]) [] = dom_step g start reach x dm"
    by (simp add: dm_def)
  have "a \<in> set (dom_of (dom_step g start reach x dm) b) \<longleftrightarrow> on_every_path g start a b"
    if b: "b \<in> set (pre @ [x])" "b \<in> set reach" for a b
  proof (cases "b = x")
    case False
    then have "dom_of (dom_step g start reach x dm) b = dom_of dm b"
      by (simp add: dom_step_def dom_of_def put_lookup Let_def)
    then show ?thesis using IH b False by simp
  next
    case bx: True
    show ?thesis
    proof (cases "b = start")
      case True
      then show ?thesis using bx b by (simp add: dom_step_def dom_of_def put_lookup on_every_path_start)
    next
      case False
      define ps where "ps = filter (\<lambda>p. p \<in> set reach) (preds g b)"
      have ps: "p \<in> set ps \<longleftrightarrow> edge g p b \<and> (start, p) \<in> (edge_rel g)\<^sup>*" for p
        by (simp add: ps_def preds_edge reach_def reachable_iff [OF start] conj_commute)
      have "(start, b) \<in> (edge_rel g)\<^sup>*" using b(2) by (simp add: reach_def reachable_iff [OF start])
      then have ne: "ps \<noteq> []" using False ps
        by (cases rule: rtranclE) (auto simp: edge_rel_def)
      have in_pre: "p \<in> set pre" if "p \<in> set ps" for p
      proof -
        have e: "edge g p b" using that ps by simp
        then have "p \<in> set order" using edge_known order(2) by simp
        then obtain i where i: "i < length order" "order ! i = p" by (auto simp: in_set_conv_nth)
        have "order ! length pre = b" "length pre < length order" using snoc.prems bx by (simp_all add: nth_append)
        then have "i < length pre" using order(3) i e by (auto simp: topological_def)
        then show ?thesis using i snoc.prems by (auto simp: nth_append)
      qed
      have "a \<in> set (dom_of (dom_step g start reach x dm) b) \<longleftrightarrow> a = b \<or> (\<forall>p \<in> set ps. a \<in> set (dom_of dm p))"
        using b(2) False bx ne by (auto simp: dom_step_def dom_of_def [of "put _ _ _"] put_lookup Let_def set_common ps_def)
      also have "\<dots> \<longleftrightarrow> a = b \<or> (\<forall>p \<in> set ps. on_every_path g start a p)"
        using IH in_pre by (auto simp: ps_def)
      also have "\<dots> \<longleftrightarrow> on_every_path g start a b"
        using on_every_path_step [OF False ps] by simp
      finally show ?thesis .
    qed
  qed
  then show ?case unfolding reach_def [symmetric] step by simp
qed simp

lemma dominators_iff:
  assumes "topological_order g = Some order" and "acyclic (edge_rel g)" and "start \<in> ids g" and "b \<in> set (reachable g start)"
  shows "a \<in> set (dom_of (dominators g start (reachable g start) order) b) \<longleftrightarrow> on_every_path g start a b"
proof -
  have o: "distinct order" "set order = ids g" "topological g order"
    using topological_order_total [OF assms(2)] assms(1) by auto
  have "b \<in> ids g"
  proof -
    have "(start, b) \<in> (edge_rel g)\<^sup>*" using assms(3,4) by (simp add: reachable_iff)
    then show ?thesis by (cases rule: rtranclE) (use assms(3) edge_known in \<open>auto simp: edge_rel_def\<close>)
  qed
  then show ?thesis
    using dominators_prefix [OF o assms(3), of order "[]"] assms(4) o(2) by (simp add: dominators_def)
qed

end

end
