(* ===== verification/Flow.thy ===== *)
theory Flow
  imports Compiled Graph
begin

text \<open>
  \<^verbatim>\<open>checkGraph\<close> of validate.go on the compiled steps: linking the steps by id, the problems of
  the graph, and the flow facts (reachable steps, topological order, dominators) the later
  checks read. The graph of collected steps is a \<open>flow_graph\<close>.
\<close>

section \<open>Linking\<close>

text \<open>The successors of a step that exist, each once, in the order the step names them.\<close>

definition link :: "string list \<Rightarrow> (string \<times> string) list \<Rightarrow> string list" where
  "link known_ids es = foldl (\<lambda>next (_, t). if t \<in> set known_ids \<and> t \<notin> set next then next @ [t] else next) [] es"

definition graph_of :: "'a node0_scheme list \<Rightarrow> graph" where
  "graph_of ns = map (\<lambda>n. (nid n, link (map nid ns) (edges n))) ns"

definition unknown_edges :: "'a node0_scheme list \<Rightarrow> problem list" where
  "unknown_edges ns = concat (map (\<lambda>n. concat (map (\<lambda>(f, t).
     on (t \<notin> set (map nid ns)) (prob f ''unknown step %s'' [S t])) (edges n))) ns)"

definition start_problems :: "string \<Rightarrow> 'a node0_scheme list \<Rightarrow> problem list" where
  "start_problems start ns = (if start = [] then prob ''start'' ''required: the first step'' []
     else on (start \<notin> set (map nid ns)) (prob ''start'' ''unknown step %s'' [S start]))"

definition cycle_problem :: "string list \<Rightarrow> problem" where
  "cycle_problem c = (''steps.'' @ last c,
     Errf ''cycle %s; v1 graphs allow no cycles (retries are per step)'' [S (join '' -> '' c)])"

definition unreachable_steps :: "string \<Rightarrow> 'a node0_scheme list \<Rightarrow> string list \<Rightarrow> problem list" where
  "unreachable_steps start ns reach = (if start \<notin> set (map nid ns) then []
     else concat (map (\<lambda>n. on (nid n \<notin> set reach) (prob (npath n) ''unreachable from start %s'' [S start])) ns))"

record flow =
  fstart :: string
  fgraph :: graph
  freach :: "string list"
  facyclic :: bool
  forder :: "string list"
  fdom :: "string list gomap"

text \<open>\<^verbatim>\<open>checkGraph\<close>; \<open>None\<close> is a topological sort that never ends.\<close>

definition checkGraph :: "string \<Rightarrow> 'a node0_scheme list \<Rightarrow> (problem list \<times> flow) option" where
  "checkGraph start ns = (let g = graph_of ns; d = dfs g; reach = reachable g start;
      ps = start_problems start ns @ unknown_edges ns @ map cycle_problem (cycles d) @ unreachable_steps start ns reach
    in if \<not> acyclicFlag d
       then Some (ps, \<lparr>fstart = start, fgraph = g, freach = reach, facyclic = False, forder = [], fdom = []\<rparr>)
       else (case topological_order g of None \<Rightarrow> None
         | Some order \<Rightarrow> Some (ps, \<lparr>fstart = start, fgraph = g, freach = reach, facyclic = True, forder = order,
             fdom = dominators g start reach order\<rparr>)))"

text \<open>\<^verbatim>\<open>dominates\<close>: step \<open>a\<close> runs before step \<open>b\<close> on every path.\<close>

definition dominates :: "flow \<Rightarrow> string \<Rightarrow> string \<Rightarrow> bool" where
  "dominates fl a b \<longleftrightarrow> a \<noteq> b \<and> a \<in> set (dom_of (fdom fl) b)"

definition terminals :: "flow \<Rightarrow> string list" where
  "terminals fl = filter (\<lambda>i. i \<in> set (freach fl) \<and> nexts (fgraph fl) i = []) (forder fl)"

section \<open>The graph of collected steps\<close>

lemma link_props: "set (link ks es) = {t. t \<in> snd ` set es \<and> t \<in> set ks}" "distinct (link ks es)"
proof -
  have "set (foldl (\<lambda>next (_, t). if t \<in> set ks \<and> t \<notin> set next then next @ [t] else next) acc es) =
      set acc \<union> {t. t \<in> snd ` set es \<and> t \<in> set ks} \<and>
    (distinct acc \<longrightarrow> distinct (foldl (\<lambda>next (_, t). if t \<in> set ks \<and> t \<notin> set next then next @ [t] else next) acc es))" for acc
    by (induction es arbitrary: acc) (auto split: prod.splits)
  from this [of "[]"] show "set (link ks es) = {t. t \<in> snd ` set es \<and> t \<in> set ks}" "distinct (link ks es)"
    by (simp_all add: link_def)
qed

lemma ids_graph_of [simp]: "ids (graph_of ns) = nid ` set ns" "map fst (graph_of ns) = map nid ns"
  by (auto simp: ids_def graph_of_def image_image comp_def)

lemma flow_graph_of: "distinct (map nid ns) \<Longrightarrow> flow_graph (graph_of ns)"
  by unfold_locales (auto simp: graph_of_def link_props comp_def image_image)

lemma compile_nid: "compile v s p ld = (n, ps, ld') \<Longrightarrow> nid n = ID s"
  by (auto simp: compile_def compileMap_def Let_def dest!: compile0_fixed split: prod.splits if_splits option.splits)

lemma collect_from_distinct:
  "distinct (map nid acc) \<Longrightarrow> distinct (map nid (fst (collect_from v i acc ld ss)))"
proof (induction v i acc ld ss rule: collect_from.induct)
  case (2 v i acc ld s ss)
  show ?case
  proof (cases "ID s = [] \<or> \<not> identifierPattern (ID s) \<or> ID s \<in> set (map nid acc)")
    case True
    then show ?thesis using "2.IH"(1-3) "2.prems"
      unfolding collect_from.simps Let_def by (auto simp: split_beta)
  next
    case False
    obtain n ps ld1 where c: "compile v s (''steps.'' @ ID s) ld = (n, ps, ld1)" using prod_cases3 by blast
    have "distinct (map nid (acc @ [n]))" using "2.prems" False compile_nid [OF c] by auto
    then have "distinct (map nid (fst (collect_from v (Suc i) (acc @ [n]) ld1 ss)))"
      using "2.IH"(4) [OF _ _ _ _ c [symmetric] refl, of "''steps['' @ itoa (int i) @ ''].id''"] False by blast
    moreover have "fst (collect_from v i acc ld (s # ss)) = fst (collect_from v (Suc i) (acc @ [n]) ld1 ss)"
      using False unfolding collect_from.simps Let_def c prod.case by (auto split: prod.splits)
    ultimately show ?thesis by simp
  qed
qed simp

lemma collected_distinct: "distinct (map nid (fst (collectSteps v)))"
  using collect_from_distinct [of "[]" v 0 empty_loader "Steps (defn v)"]
  by (simp add: collectSteps_def split_beta)

interpretation steps: flow_graph "graph_of (fst (collectSteps v))" for v
  by (rule flow_graph_of [OF collected_distinct])

text \<open>The graph check ends, whatever the definition, and its flow facts are the graph's.\<close>

lemma checkGraph_total:
  assumes "distinct (map nid ns)"
  shows "\<exists>ps fl. checkGraph start ns = Some (ps, fl)"
proof (cases "acyclicFlag (dfs (graph_of ns))")
  case True
  note fg = flow_graph_of [OF assms]
  from True have "acyclic (edge_rel (graph_of ns))" using flow_graph.dfs_acyclic_iff [OF fg] by blast
  then obtain order where "topological_order (graph_of ns) = Some order"
    using flow_graph.topological_order_total [OF fg] by blast
  with True show ?thesis by (simp add: checkGraph_def Let_def)
qed (simp add: checkGraph_def Let_def)

text \<open>What an accepted graph is.\<close>

definition flow_ok :: "flow \<Rightarrow> string list \<Rightarrow> bool" where
  "flow_ok fl is \<longleftrightarrow> fstart fl \<in> set is \<and> ids (fgraph fl) = set is \<and> set (freach fl) = set is \<and>
     set (forder fl) = set is \<and> distinct (forder fl) \<and> topological (fgraph fl) (forder fl) \<and> facyclic fl \<and>
     acyclic (edge_rel (fgraph fl)) \<and>
     (\<forall>a b. edge (fgraph fl) a b \<longrightarrow> a \<in> set is \<and> b \<in> set is) \<and>
     (\<forall>b \<in> set is. (fstart fl, b) \<in> (edge_rel (fgraph fl))\<^sup>*) \<and>
     (\<forall>a. \<forall>b \<in> set is. dominates fl a b \<longleftrightarrow> a \<noteq> b \<and> on_every_path (fgraph fl) (fstart fl) a b)"

lemma checkGraph_flag:
  assumes "distinct (map nid ns)" and "checkGraph start ns = Some (ps, fl)"
  shows "facyclic fl \<longleftrightarrow> acyclic (edge_rel (graph_of ns))" and "fgraph fl = graph_of ns" and "fstart fl = start"
  using assms(2) flow_graph.dfs_acyclic_iff [OF flow_graph_of [OF assms(1)]]
  by (auto simp: checkGraph_def Let_def split: if_splits option.splits)

lemma checkGraph_ok:
  assumes d: "distinct (map nid ns)" and c: "checkGraph start ns = Some ([], fl)"
  shows "flow_ok fl (map nid ns)" and "fgraph fl = graph_of ns" and "fstart fl = start" and "unknown_edges ns = []"
proof -
  define g where "g = graph_of ns"
  note fg = flow_graph_of [OF d, folded g_def]
  have nil: "start_problems start ns = []" "unknown_edges ns = []" "cycles (dfs g) = []"
      "unreachable_steps start ns (reachable g start) = []"
    using c by (auto simp: checkGraph_def Let_def g_def split: if_splits option.splits)
  have start: "start \<in> set (map nid ns)" using nil(1) by (auto simp: start_problems_def split: if_splits)
  have ac: "acyclic (edge_rel g)" using nil(3) flow_graph.dfs_cycles_iff [OF fg] by blast
  then have flag: "acyclicFlag (dfs g)" using flow_graph.dfs_acyclic_iff [OF fg] by blast
  obtain order where o: "topological_order g = Some order" "distinct order" "set order = ids g" "topological g order"
    using flow_graph.topological_order_total [OF fg ac] by blast
  have fl: "fl = \<lparr>fstart = start, fgraph = g, freach = reachable g start, facyclic = True, forder = order,
      fdom = dominators g start (reachable g start) order\<rparr>"
    using c flag o(1) by (simp add: checkGraph_def Let_def g_def [symmetric])
  have gids: "ids g = set (map nid ns)" by (simp add: g_def)
  have reach: "set (reachable g start) = set (map nid ns)"
  proof
    show "set (map nid ns) \<subseteq> set (reachable g start)"
      using nil(4) start by (auto simp: unreachable_steps_def)
    have "x \<in> ids g" if "(start, x) \<in> (edge_rel g)\<^sup>*" for x
      using that start gids flow_graph.edge_known [OF fg] by (cases rule: rtranclE) (auto simp: edge_rel_def)
    then show "set (reachable g start) \<subseteq> set (map nid ns)"
      using start gids reachable_iff [of start g] by auto
  qed
  have "dominates fl a b \<longleftrightarrow> a \<noteq> b \<and> on_every_path g start a b" if "b \<in> set (map nid ns)" for a b
    using flow_graph.dominators_iff [OF fg o(1) ac, of start b a] start gids reach that
    by (simp add: dominates_def fl)
  then show "flow_ok fl (map nid ns)"
    using start gids reach o ac flow_graph.edge_known [OF fg] reachable_iff [of start g]
    by (auto simp: flow_ok_def fl)
  show "fgraph fl = graph_of ns" "fstart fl = start" by (simp_all add: fl g_def)
  show "unknown_edges ns = []" by (rule nil)
qed

text \<open>Without unknown steps, a step's successors are exactly those it names.\<close>

lemma node_edges:
  assumes "distinct (map nid ns)" and "unknown_edges ns = []" and "n \<in> set ns"
  shows "edge (graph_of ns) (nid n) t \<longleftrightarrow> t \<in> snd ` set (edges n)"
proof -
  note fg = flow_graph_of [OF assms(1)]
  have "(nid n, link (map nid ns) (edges n)) \<in> set (graph_of ns)" using assms(3) by (auto simp: graph_of_def)
  then have nx: "nexts (graph_of ns) (nid n) = link (map nid ns) (edges n)"
    using flow_graph.nexts_mem [OF fg] by blast
  have "t \<in> set (map nid ns)" if "t \<in> snd ` set (edges n)"
    using assms(2,3) that by (fastforce simp: unknown_edges_def)
  then show ?thesis by (auto simp: edge_def nx link_props)
qed

end
