(* ===== verification/Cron.thy ===== *)
theory Cron
  imports Definition
begin

text \<open>
  The five-field cron of a Workflow Schedule: \<^verbatim>\<open>validateCron\<close> (validate.go) accepts its text,
  \<^verbatim>\<open>parseCron\<close> (schedule.go) turns it into sets of minutes, hours, days, months and weekdays,
  and \<^verbatim>\<open>dayMatches\<close> decides a date. Go's \<^verbatim>\<open>int\<close> is 64 bits wide and wraps.
\<close>

section \<open>Validation\<close>

record cronField =
  cfName :: string
  cfMin :: int
  cfMax :: int

definition cronFields :: "cronField list" where
  "cronFields = [\<lparr>cfName = ''minute'', cfMin = 0, cfMax = 59\<rparr>, \<lparr>cfName = ''hour'', cfMin = 0, cfMax = 23\<rparr>,
     \<lparr>cfName = ''day of month'', cfMin = 1, cfMax = 31\<rparr>, \<lparr>cfName = ''month'', cfMin = 1, cfMax = 12\<rparr>,
     \<lparr>cfName = ''day of week'', cfMin = 0, cfMax = 6\<rparr>]"

text \<open>A number written in its only plain form: \<^verbatim>\<open>strconv.Atoi\<close> reads it and \<^verbatim>\<open>strconv.Itoa\<close> writes it back.\<close>

definition plain_int :: "string \<Rightarrow> int option" where
  "plain_int s = (case atoi s of Some n \<Rightarrow> if s = itoa n then Some n else None | None \<Rightarrow> None)"

definition check_step :: "cronField \<Rightarrow> string \<Rightarrow> string \<Rightarrow> errmsg option" where
  "check_step f fld_text step = err_if (\<not> (case plain_int step of Some n \<Rightarrow> 1 \<le> n | None \<Rightarrow> False))
     (Errf ''%s field %q: step %s must be a positive number'' [S (cfName f), S fld_text, S step])"

definition check_range :: "cronField \<Rightarrow> string \<Rightarrow> string \<Rightarrow> errmsg option" where
  "check_range f fld_text base = (let (lo, rest, ranged) = cut base (CHR ''-''); hi = (if ranged then rest else lo) in
     case (plain_int lo, plain_int hi) of
       (Some a, Some b) \<Rightarrow> err_if (a < cfMin f \<or> cfMax f < b \<or> b < a)
          (Errf ''%s field %q: %s is outside %d-%d'' [S (cfName f), S fld_text, S base, I (cfMin f), I (cfMax f)])
     | _ \<Rightarrow> Some (Errf ''%s field %q: %s is not a number or range'' [S (cfName f), S fld_text, S base]))"

definition check_part :: "cronField \<Rightarrow> string \<Rightarrow> string \<Rightarrow> errmsg option" where
  "check_part f fld_text part = (let (base, step, stepped) = cut part (CHR ''/'') in
     or_err (if stepped then check_step f fld_text step else None)
       (if base = ''*'' then None else check_range f fld_text base))"

definition validateCron :: "string \<Rightarrow> errmsg option" where
  "validateCron expr = (let fs = splitFields expr in
     if length fs \<noteq> length cronFields
     then Some (Errf ''%q needs five fields: minute hour day-of-month month day-of-week'' [S expr])
     else first_err (\<lambda>(f, fld_text). first_err (check_part f fld_text) (split_at (CHR '','') fld_text)) (zip cronFields fs))"

section \<open>Parsing\<close>

text \<open>
  The loop \<^verbatim>\<open>for v := lo; v <= hi; v += step { sets[i][v] = true }\<close>: the addition wraps, and an
  index outside the array panics. \<open>None\<close> is a loop that does not end.
\<close>

datatype 'a run = Done 'a | Panic

partial_function (option) mark :: "int \<Rightarrow> int \<Rightarrow> int \<Rightarrow> bool list \<Rightarrow> bool list run option" where
  "mark v hi step xs = (if v \<le> hi then
       (if v < 0 \<or> int (length xs) \<le> v then Some Panic
        else mark (wrap64 (v + step)) hi step (xs[nat v := True]))
     else Some (Done xs))"

text \<open>\<^verbatim>\<open>n, _ := strconv.Atoi(s)\<close>: zero for text validation would have refused.\<close>

definition atoi0 :: "string \<Rightarrow> int" where
  "atoi0 s = (case atoi s of Some n \<Rightarrow> n | None \<Rightarrow> 0)"

text \<open>The first value, the last and the step of one part of a field.\<close>

definition part_range :: "cronField \<Rightarrow> string \<Rightarrow> int \<times> int \<times> int" where
  "part_range f part = (let (base, stepText, stepped) = cut part (CHR ''/'');
       step = (if stepped then atoi0 stepText else 1) in
     if base = ''*'' then (cfMin f, cfMax f, step)
     else let (a, b, ranged) = cut base (CHR ''-''); lo = atoi0 a in
       (lo, if ranged then atoi0 b else if stepped then cfMax f else lo, step))"

fun mark_parts :: "cronField \<Rightarrow> string list \<Rightarrow> bool list \<Rightarrow> bool list run option" where
  "mark_parts f [] xs = Some (Done xs)"
| "mark_parts f (p # ps) xs = (case part_range f p of (lo, hi, step) \<Rightarrow>
     (case mark lo hi step xs of None \<Rightarrow> None | Some Panic \<Rightarrow> Some Panic | Some (Done ys) \<Rightarrow> mark_parts f ps ys))"

record cronSpec =
  minutes :: "bool list"
  hours :: "bool list"
  days :: "bool list"
  months :: "bool list"
  weekdays :: "bool list"
  dayStar :: bool
  weekdayStar :: bool

definition cronSizes :: "nat list" where
  "cronSizes = [60, 24, 32, 13, 7]"

fun mark_fields :: "(cronField \<times> nat \<times> string) list \<Rightarrow> bool list list run option" where
  "mark_fields [] = Some (Done [])"
| "mark_fields ((f, width, fld_text) # rest) =
     (case mark_parts f (split_at (CHR '','') fld_text) (replicate width False) of
        None \<Rightarrow> None | Some Panic \<Rightarrow> Some Panic
      | Some (Done xs) \<Rightarrow> (case mark_fields rest of
          None \<Rightarrow> None | Some Panic \<Rightarrow> Some Panic | Some (Done xss) \<Rightarrow> Some (Done (xs # xss))))"

definition parseCron :: "string \<Rightarrow> (errmsg + cronSpec) run option" where
  "parseCron expr = (case validateCron expr of Some e \<Rightarrow> Some (Done (Inl e))
   | None \<Rightarrow> let fs = splitFields expr in
       (case mark_fields (zip cronFields (zip cronSizes fs)) of
          None \<Rightarrow> None | Some Panic \<Rightarrow> Some Panic
        | Some (Done xss) \<Rightarrow> Some (Done (Inr
            \<lparr>minutes = xss ! 0, hours = xss ! 1, days = xss ! 2, months = xss ! 3, weekdays = xss ! 4,
             dayStar = hasPrefix (fs ! 2) ''*'', weekdayStar = hasPrefix (fs ! 4) ''*''\<rparr>))))"

definition dayMatches :: "cronSpec \<Rightarrow> nat \<Rightarrow> nat \<Rightarrow> nat \<Rightarrow> bool" where
  "dayMatches c month day weekday = (if \<not> months c ! month then False
     else let dom = days c ! day; dow = weekdays c ! weekday in
       if dayStar c \<or> weekdayStar c then dom \<and> dow else dom \<or> dow)"

section \<open>What parsing gives\<close>

text \<open>The values of an arithmetic progression, and when adding the step to one overflows.\<close>

definition in_steps :: "int \<Rightarrow> int \<Rightarrow> int \<Rightarrow> int \<Rightarrow> bool" where
  "in_steps lo hi step k \<longleftrightarrow> lo \<le> k \<and> k \<le> hi \<and> step dvd (k - lo)"

definition steps_overflow :: "int \<Rightarrow> int \<Rightarrow> int \<Rightarrow> bool" where
  "steps_overflow lo hi step \<longleftrightarrow> (\<exists>k. in_steps lo hi step k \<and> max_int64 < k + step)"

lemma in_steps_unfold:
  assumes "1 \<le> step" and "lo \<le> hi"
  shows "in_steps lo hi step k \<longleftrightarrow> k = lo \<or> in_steps (lo + step) hi step k"
proof
  assume k: "in_steps lo hi step k"
  then obtain m where m: "k - lo = step * m" by (auto simp: in_steps_def)
  have "0 \<le> m"
  proof (rule ccontr)
    assume "\<not> 0 \<le> m"
    then have "step * m < 0" using assms(1) by (simp add: mult_pos_neg)
    then have "k - lo < 0" by (simp only: m)
    with k show False by (simp add: in_steps_def)
  qed
  show "k = lo \<or> in_steps (lo + step) hi step k"
  proof (cases "m = 0")
    case False
    with \<open>0 \<le> m\<close> have "step * 1 \<le> step * m" using assms(1) by (intro mult_left_mono) auto
    then have "step \<le> k - lo" by (simp only: m mult_1_right)
    moreover have "k - (lo + step) = step * (m - 1)"
      unfolding diff_diff_eq [symmetric] m by (simp add: right_diff_distrib)
    then have "step dvd k - (lo + step)" by simp
    ultimately show ?thesis using k unfolding in_steps_def by linarith
  qed (use m in simp)
next
  assume "k = lo \<or> in_steps (lo + step) hi step k"
  then show "in_steps lo hi step k"
  proof
    assume "in_steps (lo + step) hi step k"
    then have k: "lo + step \<le> k" "k \<le> hi" "step dvd (k - (lo + step))" by (auto simp: in_steps_def)
    from k(3) have "step dvd (k - (lo + step) + step)" by (intro dvd_add) auto
    then show ?thesis using k assms by (simp add: in_steps_def algebra_simps)
  qed (use assms in \<open>simp add: in_steps_def\<close>)
qed

lemma in_steps_empty: "hi < lo \<Longrightarrow> \<not> in_steps lo hi step k"
  by (simp add: in_steps_def)

lemma mark_spec:
  assumes "1 \<le> step" and "step \<le> max_int64" and "0 \<le> lo" and "hi < int (length xs)" and "hi < max_int64"
  shows "if steps_overflow lo hi step then mark lo hi step xs = Some Panic
    else \<exists>ys. mark lo hi step xs = Some (Done ys) \<and> length ys = length xs \<and>
      (\<forall>k < length xs. ys ! k \<longleftrightarrow> xs ! k \<or> in_steps lo hi step (int k))"
  using assms(3,4)
proof (induction "nat (hi + 1 - lo)" arbitrary: lo xs rule: less_induct)
  case less
  show ?case
  proof (cases "lo \<le> hi")
    case False
    then show ?thesis
      by (subst (1 2) mark.simps) (simp add: steps_overflow_def in_steps_empty)
  next
    case le: True
    define ys where "ys = xs[nat lo := True]"
    have step: "mark lo hi step xs = mark (wrap64 (lo + step)) hi step ys"
      using le less.prems by (subst mark.simps) (simp add: ys_def)
    show ?thesis
    proof (cases "max_int64 < lo + step")
      case True
      have "in_steps lo hi step lo" using le by (simp add: in_steps_def)
      then have over: "steps_overflow lo hi step" using True by (auto simp: steps_overflow_def)
      have "wrap64 (lo + step) < 0"
        using True le assms by (subst wrap64_over) (simp_all add: max_int64_def)
      then have "mark (wrap64 (lo + step)) hi step ys = Some Panic"
        using le less.prems by (subst mark.simps) auto
      with over show ?thesis by (simp add: step)
    next
      case False
      have w: "wrap64 (lo + step) = lo + step"
        using False assms(1) less.prems by (intro wrap64_id) (simp add: in_int64_def min_int64_def max_int64_def)
      have ov: "steps_overflow lo hi step \<longleftrightarrow> steps_overflow (lo + step) hi step"
        using False by (auto simp: steps_overflow_def in_steps_unfold [OF assms(1) le])
      have IH: "if steps_overflow (lo + step) hi step then mark (lo + step) hi step ys = Some Panic
        else \<exists>zs. mark (lo + step) hi step ys = Some (Done zs) \<and> length zs = length ys \<and>
          (\<forall>k < length ys. zs ! k \<longleftrightarrow> ys ! k \<or> in_steps (lo + step) hi step (int k))"
        using less.prems le assms(1) by (intro less.hyps) (auto simp: ys_def)
      have y: "ys ! k \<longleftrightarrow> xs ! k \<or> int k = lo" if "k < length xs" for k
        using that less.prems by (cases "k = nat lo") (auto simp: ys_def)
      have len: "length ys = length xs" by (simp add: ys_def)
      show ?thesis
        using IH y len by (auto simp: step w ov in_steps_unfold [OF assms(1) le] split: if_splits)
    qed
  qed
qed

text \<open>A part that validation accepts is a range of the field with a positive step.\<close>

definition part_matches :: "cronField \<Rightarrow> string \<Rightarrow> int \<Rightarrow> bool" where
  "part_matches f part k \<longleftrightarrow> (case part_range f part of (lo, hi, step) \<Rightarrow> in_steps lo hi step k)"

definition part_overflows :: "cronField \<Rightarrow> string \<Rightarrow> bool" where
  "part_overflows f part \<longleftrightarrow> (case part_range f part of (lo, hi, step) \<Rightarrow> steps_overflow lo hi step)"

definition field_matches :: "cronField \<Rightarrow> string \<Rightarrow> int \<Rightarrow> bool" where
  "field_matches f fld_text k \<longleftrightarrow> (\<exists>p \<in> set (split_at (CHR '','') fld_text). part_matches f p k)"

definition field_overflows :: "cronField \<Rightarrow> string \<Rightarrow> bool" where
  "field_overflows f fld_text \<longleftrightarrow> (\<exists>p \<in> set (split_at (CHR '','') fld_text). part_overflows f p)"

lemma plain_int_atoi0: "plain_int s = Some n \<Longrightarrow> atoi0 s = n \<and> in_int64 n"
  by (auto simp: plain_int_def atoi0_def dest: atoi_in_int64 split: option.splits if_splits)

lemma check_part_range:
  assumes "check_part f t part = None" and "cfMin f \<le> cfMax f" and "part_range f part = (lo, hi, step)"
  shows "cfMin f \<le> lo" "hi \<le> cfMax f" "1 \<le> step" "step \<le> max_int64"
proof -
  obtain base stepText stepped where c: "cut part (CHR ''/'') = (base, stepText, stepped)" using prod_cases3 by blast
  have st: "stepped \<Longrightarrow> check_step f t stepText = None" and rg: "base \<noteq> ''*'' \<Longrightarrow> check_range f t base = None"
    using assms(1) by (auto simp: check_part_def c split: if_splits)
  have "1 \<le> atoi0 stepText \<and> atoi0 stepText \<le> max_int64" if stepped
    using st [OF that] plain_int_atoi0 [of stepText]
    by (auto simp: check_step_def in_int64_def split: option.splits)
  then show "1 \<le> step" "step \<le> max_int64"
    using assms(3) by (auto simp: part_range_def c Let_def max_int64_def split: if_splits prod.splits)
  obtain a b ranged where d: "cut base (CHR ''-'') = (a, b, ranged)" using prod_cases3 by blast
  have "cfMin f \<le> atoi0 a \<and> atoi0 a \<le> cfMax f \<and> (ranged \<longrightarrow> atoi0 b \<le> cfMax f)" if "base \<noteq> ''*''"
    using rg [OF that] plain_int_atoi0 [of a] plain_int_atoi0 [of b]
    by (auto simp: check_range_def d Let_def split: option.splits if_splits)
  then show "cfMin f \<le> lo" "hi \<le> cfMax f"
    using assms(2,3) by (auto simp: part_range_def c d Let_def split: if_splits)
qed

definition field_fits :: "cronField \<Rightarrow> nat \<Rightarrow> bool" where
  "field_fits f width \<longleftrightarrow> 0 \<le> cfMin f \<and> cfMin f \<le> cfMax f \<and> cfMax f < int width \<and> width \<le> 60"

lemma mark_parts_spec:
  assumes "first_err (check_part f t) ps = None" and "field_fits f (length xs)"
  shows "if \<exists>p \<in> set ps. part_overflows f p then mark_parts f ps xs = Some Panic
    else \<exists>ys. mark_parts f ps xs = Some (Done ys) \<and> length ys = length xs \<and>
      (\<forall>k < length xs. ys ! k \<longleftrightarrow> xs ! k \<or> (\<exists>p \<in> set ps. part_matches f p (int k)))"
  using assms
proof (induction ps arbitrary: xs)
  case (Cons p ps)
  obtain lo hi step where r: "part_range f p = (lo, hi, step)" using prod_cases3 by blast
  have ok: "check_part f t p = None" "first_err (check_part f t) ps = None"
    using Cons.prems(1) by (auto split: option.splits)
  note b = check_part_range [OF ok(1) _ r]
  have m: "if steps_overflow lo hi step then mark lo hi step xs = Some Panic
    else \<exists>ys. mark lo hi step xs = Some (Done ys) \<and> length ys = length xs \<and>
      (\<forall>k < length xs. ys ! k \<longleftrightarrow> xs ! k \<or> in_steps lo hi step (int k))"
    using b Cons.prems(2) by (intro mark_spec) (auto simp: field_fits_def max_int64_def)
  show ?case
  proof (cases "steps_overflow lo hi step")
    case True
    then show ?thesis using m by (simp add: r part_overflows_def)
  next
    case False
    then obtain ys where ys: "mark lo hi step xs = Some (Done ys)" "length ys = length xs"
      "\<And>k. k < length xs \<Longrightarrow> ys ! k \<longleftrightarrow> xs ! k \<or> in_steps lo hi step (int k)" using m by auto
    have "part_overflows f p = False" "\<And>k. part_matches f p k \<longleftrightarrow> in_steps lo hi step k"
      using False by (simp_all add: part_overflows_def part_matches_def r)
    then show ?thesis using Cons.IH [OF ok(2), of ys] Cons.prems(2) ys by (auto simp: r split: if_splits)
  qed
qed simp

lemma mark_fields_spec:
  assumes "\<forall>(f, width, t) \<in> set fs. field_fits f width \<and> first_err (check_part f t) (split_at (CHR '','') t) = None"
  shows "if \<exists>(f, width, t) \<in> set fs. field_overflows f t then mark_fields fs = Some Panic
    else \<exists>xss. mark_fields fs = Some (Done xss) \<and> length xss = length fs \<and>
      (\<forall>i < length fs. case fs ! i of (f, width, t) \<Rightarrow> length (xss ! i) = width \<and>
         (\<forall>k < width. xss ! i ! k \<longleftrightarrow> field_matches f t (int k)))"
  using assms
proof (induction fs)
  case (Cons a fs)
  obtain f width t where a: "a = (f, width, t)" using prod_cases3 by blast
  have ok: "field_fits f (length (replicate width False))" "first_err (check_part f t) (split_at (CHR '','') t) = None"
    using Cons.prems by (auto simp: a)
  note m = mark_parts_spec [OF ok(2,1)]
  show ?case
  proof (cases "field_overflows f t")
    case True
    then show ?thesis using m by (simp add: a field_overflows_def)
  next
    case False
    then obtain ys where ys: "mark_parts f (split_at (CHR '','') t) (replicate width False) = Some (Done ys)"
      "length ys = width" "\<And>k. k < width \<Longrightarrow> ys ! k \<longleftrightarrow> field_matches f t (int k)"
      using m by (auto simp: field_overflows_def field_matches_def)
    have IH: "if \<exists>(f, width, t) \<in> set fs. field_overflows f t then mark_fields fs = Some Panic
      else \<exists>xss. mark_fields fs = Some (Done xss) \<and> length xss = length fs \<and>
        (\<forall>i < length fs. case fs ! i of (f, width, t) \<Rightarrow> length (xss ! i) = width \<and>
           (\<forall>k < width. xss ! i ! k \<longleftrightarrow> field_matches f t (int k)))"
      using Cons by simp
    show ?thesis
    proof (cases "\<exists>(f, width, t) \<in> set fs. field_overflows f t")
      case True
      then show ?thesis using IH ys by (auto simp: a)
    next
      case no: False
      then obtain xss where x: "mark_fields fs = Some (Done xss)" "length xss = length fs"
        "\<And>i. i < length fs \<Longrightarrow> case fs ! i of (f, width, t) \<Rightarrow> length (xss ! i) = width \<and>
           (\<forall>k < width. xss ! i ! k \<longleftrightarrow> field_matches f t (int k))" using IH by auto
      have "case (a # fs) ! i of (f, width, t) \<Rightarrow> length ((ys # xss) ! i) = width \<and>
           (\<forall>k < width. (ys # xss) ! i ! k \<longleftrightarrow> field_matches f t (int k))" if "i < length (a # fs)" for i
        using that x(3) [of "i - 1"] ys by (cases i) (auto simp: a)
      then show ?thesis using no False x ys by (auto simp: a)
    qed
  qed
qed simp

definition matches_field :: "nat \<Rightarrow> string \<Rightarrow> nat \<Rightarrow> bool" where
  "matches_field i expr k = field_matches (cronFields ! i) (splitFields expr ! i) (int k)"

definition cron_overflows :: "string \<Rightarrow> bool" where
  "cron_overflows expr = (\<exists>i < 5. field_overflows (cronFields ! i) (splitFields expr ! i))"

text \<open>Parsing an accepted cron either panics, exactly when a step overflows, or gives the exact sets.\<close>

lemma five: "(\<forall>i < (5::nat). P i) \<longleftrightarrow> P 0 \<and> P 1 \<and> P 2 \<and> P 3 \<and> P 4"
  by (auto simp: numeral_eq_Suc less_Suc_eq)

lemma five_ex: "(\<exists>i < (5::nat). P i) \<longleftrightarrow> P 0 \<or> P 1 \<or> P 2 \<or> P 3 \<or> P 4"
  by (auto simp: numeral_eq_Suc less_Suc_eq)

lemma parseCron_spec:
  assumes valid: "validateCron expr = None"
  shows "if cron_overflows expr then parseCron expr = Some Panic
    else \<exists>c. parseCron expr = Some (Done (Inr c)) \<and>
      (\<forall>k < 60. minutes c ! k \<longleftrightarrow> matches_field 0 expr k) \<and> (\<forall>k < 24. hours c ! k \<longleftrightarrow> matches_field 1 expr k) \<and>
      (\<forall>k < 32. days c ! k \<longleftrightarrow> matches_field 2 expr k) \<and> (\<forall>k < 13. months c ! k \<longleftrightarrow> matches_field 3 expr k) \<and>
      (\<forall>k < 7. weekdays c ! k \<longleftrightarrow> matches_field 4 expr k) \<and>
      dayStar c = hasPrefix (splitFields expr ! 2) ''*'' \<and> weekdayStar c = hasPrefix (splitFields expr ! 4) ''*''"
proof -
  define fs where "fs = splitFields expr"
  have "length fs = 5"
    using valid by (auto simp: validateCron_def Let_def fs_def cronFields_def split: if_splits)
  then obtain a b c d e where fs: "fs = [a, b, c, d, e]"
    by (auto simp: numeral_eq_Suc length_Suc_conv)
  have checks: "first_err (\<lambda>(f, t). first_err (check_part f t) (split_at (CHR '','') t)) (zip cronFields fs) = None"
    using valid by (simp add: validateCron_def Let_def fs_def split: if_splits)
  define zs where "zs = zip cronFields (zip cronSizes fs)"
  have ok: "\<forall>(f, width, t) \<in> set zs. field_fits f width \<and> first_err (check_part f t) (split_at (CHR '','') t) = None"
    using checks unfolding first_err_None by (simp add: zs_def fs cronFields_def cronSizes_def field_fits_def first_err_None)
  have over: "(\<exists>(f, width, t) \<in> set zs. field_overflows f t) \<longleftrightarrow> cron_overflows expr"
    by (simp add: cron_overflows_def five_ex zs_def fs_def [symmetric] fs cronFields_def cronSizes_def)
  have m: "if cron_overflows expr then mark_fields zs = Some Panic
    else \<exists>xss. mark_fields zs = Some (Done xss) \<and> length xss = length zs \<and>
      (\<forall>i < length zs. case zs ! i of (f, width, t) \<Rightarrow> length (xss ! i) = width \<and>
         (\<forall>k < width. xss ! i ! k \<longleftrightarrow> field_matches f t (int k)))"
    using mark_fields_spec [OF ok] by (simp only: over)
  have parse: "parseCron expr = (case mark_fields zs of None \<Rightarrow> None | Some Panic \<Rightarrow> Some Panic
      | Some (Done xss) \<Rightarrow> Some (Done (Inr
            \<lparr>minutes = xss ! 0, hours = xss ! 1, days = xss ! 2, months = xss ! 3, weekdays = xss ! 4,
             dayStar = hasPrefix (fs ! 2) ''*'', weekdayStar = hasPrefix (fs ! 4) ''*''\<rparr>)))"
    unfolding parseCron_def zs_def fs_def Let_def by (simp add: valid)
  show ?thesis
  proof (cases "cron_overflows expr")
    case True
    then show ?thesis using m by (simp add: parse)
  next
    case False
    then obtain xss where x: "mark_fields zs = Some (Done xss)"
      "\<forall>i < length zs. case zs ! i of (f, width, t) \<Rightarrow> length (xss ! i) = width \<and>
         (\<forall>k < width. xss ! i ! k \<longleftrightarrow> field_matches f t (int k))" using m by auto
    have "length zs = 5" by (simp add: zs_def fs cronFields_def cronSizes_def)
    with x(2) have "\<forall>i < 5. case zs ! i of (f, width, t) \<Rightarrow> \<forall>k < width. xss ! i ! k \<longleftrightarrow> field_matches f t (int k)"
      by (auto split: prod.splits)
    then have "(\<forall>k < 60. xss ! 0 ! k \<longleftrightarrow> matches_field 0 expr k) \<and> (\<forall>k < 24. xss ! 1 ! k \<longleftrightarrow> matches_field 1 expr k) \<and>
      (\<forall>k < 32. xss ! 2 ! k \<longleftrightarrow> matches_field 2 expr k) \<and> (\<forall>k < 13. xss ! 3 ! k \<longleftrightarrow> matches_field 3 expr k) \<and>
      (\<forall>k < 7. xss ! 4 ! k \<longleftrightarrow> matches_field 4 expr k)"
      unfolding five by (simp add: zs_def fs cronFields_def cronSizes_def matches_field_def fs_def [symmetric])
    then show ?thesis using False x(1) by (simp add: parse fs_def)
  qed
qed

text \<open>A small enough step never overflows.\<close>

lemma steps_fit: "hi + step \<le> max_int64 \<Longrightarrow> \<not> steps_overflow lo hi step"
  by (auto simp: steps_overflow_def in_steps_def)

end
