(* ===== verification/Resolve.thy ===== *)
theory Resolve
  imports Flow Cron
begin

text \<open>
  The checks that need the graph (validate.go, from \<^verbatim>\<open>refType\<close> to \<^verbatim>\<open>checkSchedule\<close>): every
  reference is typed at the step that reads it, in graph order, so that a step's refined output
  type is known before its readers; then outputs, Standing Authority, run key and schedule.
  \<open>Validate\<close> composes the whole validator.
\<close>

section \<open>Typing references\<close>

definition wrap_ref :: "ref \<Rightarrow> errmsg + 'a \<Rightarrow> errmsg + 'a" where
  "wrap_ref r t = (case t of Inl e \<Rightarrow> Inl (Errf ''%s: %v'' [S (Raw r), E e]) | Inr u \<Rightarrow> Inr u)"

text \<open>
  \<^verbatim>\<open>refType\<close>: the anchor is the step that reads, or the map that owns the item that reads;
  \<open>None\<close> stands for the source's nil anchor and nil item.
\<close>

definition refType :: "inputInfo gomap \<Rightarrow> flow \<Rightarrow> 'a node0_scheme list \<Rightarrow> ref \<Rightarrow> string option \<Rightarrow> ty option
    \<Rightarrow> errmsg + ty option" where
  "refType ins fl ns r anchor itm = (
     if Root r = refInputs then
       (case map_of ins (RName r) of
          None \<Rightarrow> Inl (Errf ''%s: unknown input %s'' [S (Raw r), S (RName r)])
        | Some i \<Rightarrow> wrap_ref r (walkType (Some (itype i)) (Path r)))
     else if Root r = refSteps then
       (case node_of ns (RName r) of
          None \<Rightarrow> Inl (Errf ''%s: unknown step %s'' [S (Raw r), S (RName r)])
        | Some n \<Rightarrow>
            if anchor = Some (nid n) then Inl (Errf ''%s: a step cannot read its own output'' [S (Raw r)])
            else if (case anchor of None \<Rightarrow> False | Some a \<Rightarrow> \<not> dominates fl (nid n) a) then
              Inl (Errf ''%s: %s does not run before %s on every path'' [S (Raw r), S (RName r), S (the anchor)])
            else if nkind n = KindBranch then Inl (Errf ''%s: branch steps have no output'' [S (Raw r)])
            else (case noutput n of None \<Rightarrow> Inr (Some AnyType) | Some t \<Rightarrow> wrap_ref r (walkType (Some t) (Path r))))
     else if Root r = refItem then
       (case itm of None \<Rightarrow> Inl (Errf ''%s: $item is only available inside a map item'' [S (Raw r)])
        | Some t \<Rightarrow> wrap_ref r (walkType (Some t) (Path r)))
     else Inl (Errf ''%s: $schedule values are only available in schedule.inputs'' [S (Raw r)]))"

text \<open>\<^verbatim>\<open>compileArg\<close>\<close>

definition compileArg :: "inputInfo gomap \<Rightarrow> flow \<Rightarrow> 'a node0_scheme list \<Rightarrow> ynode \<Rightarrow> string option \<Rightarrow> ty option
    \<Rightarrow> errmsg + arg" where
  "compileArg ins fl ns value anchor itm = (case nodeValue value of
     Inl e \<Rightarrow> Inl e
   | Inr x \<Rightarrow> (case x of
       VStr s \<Rightarrow> if isRefText s then
           (case parseRef s of Inl e \<Rightarrow> Inl e
            | Inr r \<Rightarrow> (case refType ins fl ns r anchor itm of Inl e \<Rightarrow> Inl e
               | Inr t \<Rightarrow> Inr \<lparr>ARef = Some r, ALit = VNil, AConst = False, AType = t\<rparr>))
         else Inr \<lparr>ARef = None, ALit = x, AConst = True, AType = Some (typeOfValue x)\<rparr>
     | _ \<Rightarrow> Inr \<lparr>ARef = None, ALit = x, AConst = True, AType = Some (typeOfValue x)\<rparr>))"

section \<open>Resolving a step\<close>

text \<open>The arguments of a step: those that compile, the problems of the rest.\<close>

definition input_path :: "'a node0_scheme \<Rightarrow> string \<Rightarrow> string" where
  "input_path n name = npath n @ ''.input.'' @ name"

definition compiled_args :: "inputInfo gomap \<Rightarrow> flow \<Rightarrow> 'b node0_scheme list \<Rightarrow> 'a node0_scheme \<Rightarrow> string option
    \<Rightarrow> ty option \<Rightarrow> (string \<times> (errmsg + arg)) list" where
  "compiled_args ins fl ns n anchor itm = map (\<lambda>name. (name,
     compileArg ins fl ns (case map_of (Input (nstep n)) name of Some y \<Rightarrow> y | None \<Rightarrow> YAbsent) anchor itm))
     (sortedKeys (Input (nstep n)))"

definition arg_problems :: "'a node0_scheme \<Rightarrow> (string \<times> (errmsg + arg)) list \<Rightarrow> problem list" where
  "arg_problems n cs = concat (map (\<lambda>(name, c). case c of Inl e \<Rightarrow> err_prob (input_path n name) e | Inr _ \<Rightarrow> []) cs)"

definition good_args :: "(string \<times> (errmsg + arg)) list \<Rightarrow> arg gomap" where
  "good_args cs = List.map_filter (\<lambda>(name, c). case c of Inl _ \<Rightarrow> None | Inr a \<Rightarrow> Some (name, a)) cs"

text \<open>One parameter of a function: its problems, and the static argument when it is accepted.\<close>

definition check_param :: "func \<Rightarrow> 'a node0_scheme \<Rightarrow> param \<Rightarrow> problem list \<times> (string \<times> staticArg) option" where
  "check_param f n p = (let q = input_path n (PName p) in
     if \<not> hasKey (Input (nstep n)) (PName p) then
       (prob (npath n @ ''.input'') ''missing argument %s for %s'' [S (PName p), S (fID f)], None)
     else (case map_of (args n) (PName p) of
       None \<Rightarrow> ([], None)
     | Some a \<Rightarrow>
         (case (if AConst a then or_err (checkValue (Some (PType p)) (ALit a)) (param_bounds p (ALit a))
                else map_option (\<lambda>e. Errf ''%s cannot take %s: %v'' [S (fID f), S (Raw (the (ARef a))), E e])
                  (assignable (AType a) (Some (PType p)))) of
            Some e \<Rightarrow> (err_prob q e, None)
          | None \<Rightarrow> ([], Some (PName p, \<lparr>SType = AType a, Literal = ALit a, IsConst = AConst a\<rparr>)))))"

definition checkFunctionArgs :: "func \<Rightarrow> 'a node0_scheme \<Rightarrow> problem list \<times> staticArg gomap" where
  "checkFunctionArgs f n = (let rs = map (check_param f n) (Params f) in
     (concat (map (\<lambda>name. on (name \<notin> set (map PName (Params f)))
         (prob (input_path n name) ''%s takes no argument %s'' [S (fID f), S name])) (sortedKeys (Input (nstep n)))) @
      concat (map fst rs),
      fold (\<lambda>r m. case snd r of None \<Rightarrow> m | Some (k, a) \<Rightarrow> put k a m) rs []))"

definition checkCapabilityInput :: "capabilityContract \<Rightarrow> 'a node0_scheme \<Rightarrow> problem list" where
  "checkCapabilityInput c n = (let inp = orEmptyObject (CInput c) in
     concat (map (\<lambda>name. on (\<not> hasKey (Input (nstep n)) name)
       (prob (npath n @ ''.input'') ''missing %s for %s'' [S name, S (CID c)])) (Required inp)) @
     concat (map (\<lambda>name. case map_of (Properties inp) name of
         None \<Rightarrow> prob (input_path n name) ''%s has no input %s'' [S (CID c), S name]
       | Some want \<Rightarrow> (case map_of (args n) name of
           None \<Rightarrow> []
         | Some a \<Rightarrow> (case (if AConst a then checkValue (Some want) (ALit a) else assignable (AType a) (Some want)) of
             None \<Rightarrow> [] | Some e \<Rightarrow> err_prob (input_path n name) e))) (sortedKeys (Input (nstep n)))))"

text \<open>\<^verbatim>\<open>resolve\<close> for the arguments, deterministic and capability parts, which steps and items share.\<close>

definition resolve0 :: "inputInfo gomap \<Rightarrow> flow \<Rightarrow> 'b node0_scheme list \<Rightarrow> 'a node0_scheme \<Rightarrow> string option \<Rightarrow> ty option
    \<Rightarrow> 'a node0_scheme \<times> problem list" where
  "resolve0 ins fl ns n anchor itm = (let
      cs = compiled_args ins fl ns n anchor itm;
      n1 = n\<lparr>args := good_args cs\<rparr>;
      ps = arg_problems n cs
    in if nkind n = KindDeterministic then
         (case fn n of None \<Rightarrow> (n1, ps)
          | Some f \<Rightarrow> let (qs, static) = checkFunctionArgs f n1 in
              (case Refine f of
                 Some g \<Rightarrow> if ps = [] then (n1\<lparr>noutput := Some (g static)\<rparr>, ps @ qs) else (n1, ps @ qs)
               | None \<Rightarrow> (n1, ps @ qs)))
       else if nkind n = KindCapability then
         (case cap n of None \<Rightarrow> (n1, ps) | Some c \<Rightarrow> (n1, ps @ checkCapabilityInput c n1))
       else (n1, ps))"

text \<open>\<^verbatim>\<open>mapOutputType\<close>; a nil element type accepts any value, as \<open>AnyType\<close> does.\<close>

definition mapOutputType :: "ty option \<Rightarrow> ty \<Rightarrow> int \<Rightarrow> ty" where
  "mapOutputType elt out maxItems = (let it = (case elt of Some t \<Rightarrow> t | None \<Rightarrow> AnyType);
      results = ObjectType [fld ''index'' IntegerType, fld ''item'' it, fld ''output'' out];
      failures = ObjectType [fld ''index'' IntegerType, fld ''item'' it, fld ''error'' StringType]
    in ObjectType [fld ''results'' (set_MaxItems (ArrayType (Some results)) (Some maxItems)),
         fld ''failures'' (set_MaxItems (ArrayType (Some failures)) (Some maxItems)),
         fld ''succeeded'' IntegerType, fld ''failed'' IntegerType])"

definition resolveMap :: "inputInfo gomap \<Rightarrow> flow \<Rightarrow> node list \<Rightarrow> node \<Rightarrow> node \<times> problem list" where
  "resolveMap ins fl ns n = (case over n of
     None \<Rightarrow> (n, [])
   | Some r \<Rightarrow> (case refType ins fl ns r (Some (nid n)) None of
       Inl e \<Rightarrow> (n, err_prob (npath n @ ''.over'') e)
     | Inr t \<Rightarrow>
         if \<not> isAny t \<and> Kind (the t) \<noteq> KArray then
           (n, prob (npath n @ ''.over'') ''%s is not a list (it is %s)'' [S (Raw r), S (describe t)])
         else let
           elt = (if isAny t then Some AnyType else Items (the t));
           n1 = n\<lparr>elem := elt\<rparr>;
           m = SMaxItems (nstep n);
           ps = (case Option.bind t MaxItems of None \<Rightarrow> []
             | Some k \<Rightarrow> on (1 \<le> m \<and> m \<le> maxMapItems \<and> m < k)
                 (prob (npath n @ ''.over'') ''the list can hold %d items; max_items %d'' [I k, I m]))
         in (case item n of
             None \<Rightarrow> (n1, ps)
           | Some it \<Rightarrow> if \<not> known it then (n1, ps)
               else let (it', qs) = resolve0 ins fl ns it (Some (nid n)) elt in
                 (case noutput it' of
                    None \<Rightarrow> (n1\<lparr>item := Some it'\<rparr>, ps @ qs)
                  | Some out \<Rightarrow> (n1\<lparr>item := Some it', noutput := Some (mapOutputType elt out m)\<rparr>, ps @ qs)))))"

text \<open>One case of a branch: the operator must apply to the type of what it reads.\<close>

definition resolve_case :: "inputInfo gomap \<Rightarrow> flow \<Rightarrow> 'a node0_scheme list \<Rightarrow> string \<Rightarrow> string \<Rightarrow> compiledCase \<Rightarrow> problem list" where
  "resolve_case ins fl ns anchor cp c = (case cref c of
     None \<Rightarrow> []
   | Some r \<Rightarrow> if cop c \<notin> set conditionOps then [] else
       (case refType ins fl ns r (Some anchor) None of
          Inl e \<Rightarrow> err_prob (cp @ ''.ref'') e
        | Inr None \<Rightarrow> []
        | Inr (Some t) \<Rightarrow>
            if Kind t = KAny then []
            else if unaryOp (cop c) then
              on (Kind t \<noteq> KArray \<and> Kind t \<noteq> KString)
                (prob cp ''%s applies to lists and text; %s is %s'' [S (cop c), S (Raw r), S (describe (Some t))])
            else if cop c \<in> {''gt'', ''gte'', ''lt'', ''lte''} then
              (if Kind t \<noteq> KInteger \<and> Kind t \<noteq> KNumber then
                 prob cp ''%s compares numbers; %s is %s'' [S (cop c), S (Raw r), S (describe (Some t))]
               else on (hasValue c \<and> number (cvalue c) = None) (prob (cp @ ''.value'') ''%s needs a number'' [S (cop c)]))
            else if Kind t = KArray \<or> Kind t = KObject then
              prob cp ''%s compares single values; %s is %s'' [S (cop c), S (Raw r), S (describe (Some t))]
            else if hasValue c then
              (case checkValue (Some (Type (Kind t) [] [] False None (Enum t) None None None None None None [])) (cvalue c) of
                 None \<Rightarrow> [] | Some e \<Rightarrow> err_prob (cp @ ''.value'') e)
            else []))"

definition resolveBranch :: "inputInfo gomap \<Rightarrow> flow \<Rightarrow> 'b node0_scheme list \<Rightarrow> 'a node0_scheme \<Rightarrow> problem list" where
  "resolveBranch ins fl ns n = concat (map (\<lambda>(i, c). resolve_case ins fl ns (nid n) (case_path (npath n) i @ ''.when'') c)
     (List.enumerate 0 (cases n)))"

definition resolve :: "inputInfo gomap \<Rightarrow> flow \<Rightarrow> node list \<Rightarrow> node \<Rightarrow> node \<times> problem list" where
  "resolve ins fl ns n = (let (n1, ps) = resolve0 ins fl ns n (Some (nid n)) None in
     if nkind n = KindMap then (let (n2, qs) = resolveMap ins fl ns n1 in (n2, ps @ qs))
     else if nkind n = KindBranch then (n1, ps @ resolveBranch ins fl ns n1)
     else (n1, ps))"

text \<open>Every reachable known step, in topological order; a resolved step replaces the compiled one.\<close>

definition replace_node :: "node list \<Rightarrow> node \<Rightarrow> node list" where
  "replace_node ns n = map (\<lambda>m. if nid m = nid n then n else m) ns"

fun resolve_steps :: "inputInfo gomap \<Rightarrow> flow \<Rightarrow> string list \<Rightarrow> node list \<Rightarrow> node list \<times> problem list" where
  "resolve_steps ins fl [] ns = (ns, [])"
| "resolve_steps ins fl (i # is) ns = (case node_of ns i of
     Some n \<Rightarrow> if i \<in> set (freach fl) \<and> known n then
         (let (n', ps) = resolve ins fl ns n; (ns', qs) = resolve_steps ins fl is (replace_node ns n') in (ns', ps @ qs))
       else resolve_steps ins fl is ns
   | None \<Rightarrow> resolve_steps ins fl is ns)"

end
