(* ===== verification/Validate.thy ===== *)
theory Validate
  imports Resolve
begin

text \<open>
  The last checks of validate.go (outputs, requested Standing Authority, run key, schedule,
  worst-case use) and the validator itself, \<^verbatim>\<open>run\<close>. The timezone database is a parameter.
\<close>

section \<open>Outputs\<close>

record outputInfo =
  oname :: string
  oref :: ref
  always :: bool

definition checkOutput :: "inputInfo gomap \<Rightarrow> flow \<Rightarrow> node list \<Rightarrow> string \<Rightarrow> string \<Rightarrow> problem list \<times> outputInfo option" where
  "checkOutput ins fl ns name out_text = (let p = ''outputs.'' @ name in
     if \<not> identifierPattern name then
       (prob p ''%q is not a valid output name; use lowercase letters, digits and _'' [S name], None)
     else (case parseRef out_text of
       Inl e \<Rightarrow> (err_prob p e, None)
     | Inr r \<Rightarrow>
         if Root r = refInputs then
           (case refType ins fl ns r None None of Inl e \<Rightarrow> err_prob p e | Inr _ \<Rightarrow> [],
            Some \<lparr>oname = name, oref = r, always = True\<rparr>)
         else if Root r = refSteps then
           (case node_of ns (RName r) of
              None \<Rightarrow> (prob p ''%s: unknown step %s'' [S (Raw r), S (RName r)], None)
            | Some target \<Rightarrow>
                if \<not> facyclic fl then ([], None)
                else (case refType ins fl ns r None None of
                    Inl e \<Rightarrow> (err_prob p e, None)
                  | Inr _ \<Rightarrow> ([], Some \<lparr>oname = name, oref = r,
                      always = list_all (\<lambda>t. t = nid target \<or> dominates fl (nid target) t) (terminals fl)\<rparr>)))
         else (prob p ''outputs read $inputs or $steps, not %s'' [S (Raw r)], None)))"

definition checkOutputs :: "inputInfo gomap \<Rightarrow> flow \<Rightarrow> node list \<Rightarrow> (string \<times> string) list \<Rightarrow> problem list \<times> outputInfo list" where
  "checkOutputs ins fl ns outs = (let rs = map (\<lambda>name. checkOutput ins fl ns name (the (map_of outs name))) (sortedKeys outs) in
     (concat (map fst rs), List.map_filter snd rs))"

section \<open>Requested Standing Authority\<close>

definition authority_capability :: "environment \<Rightarrow> string \<Rightarrow> operation \<Rightarrow> problem list" where
  "authority_capability ev p op = (
     if o_Capability op = [] then prob (p @ ''.capability'') ''required'' []
     else if hasPrefix (o_Capability op) ''subagents.'' then
       prob (p @ ''.capability'') ''workflows cannot request %s'' [S (o_Capability op)]
     else on (Capabilities ev (o_Capability op) = None)
       (prob (p @ ''.capability'') ''%s is not in the capability catalog'' [S (o_Capability op)]))"

definition authority_connection :: "environment \<Rightarrow> string \<Rightarrow> operation \<Rightarrow> problem list" where
  "authority_connection ev p op = (
     if o_Connection op = [] then prob (p @ ''.connection'') ''required'' []
     else if \<not> opaquePattern (o_Connection op) then prob (p @ ''.connection'') ''%q is not a Connection ID'' [S (o_Connection op)]
     else on (\<not> AccessUnchecked ev \<and> access_connection (Access ev) (o_Connection op) = None)
       (prob (p @ ''.connection'') ''connection %s is outside Workspace Access'' [S (o_Connection op)]))"

text \<open>
  \<^verbatim>\<open>connOK\<close>: the connection is in Workspace Access, and access is checked. As in the source,
  an empty or malformed connection leaves the lookup's answer.
\<close>

definition connOK :: "environment \<Rightarrow> operation \<Rightarrow> connectionAccess option" where
  "connOK ev op = (if o_Connection op \<noteq> [] \<and> opaquePattern (o_Connection op) \<and> AccessUnchecked ev then None
     else access_connection (Access ev) (o_Connection op))"

definition authority_resources :: "environment \<Rightarrow> string \<Rightarrow> operation \<Rightarrow> problem list" where
  "authority_resources ev p op =
     on (o_Resources op = []) (prob (p @ ''.resources'') ''list the exact resources'' []) @
     concat (map (\<lambda>(j, r).
        if \<not> opaquePattern r then prob (p @ ''.resources'') ''%q is not a resource selector'' [S r]
        else if index_of r (o_Resources op) \<noteq> Some j then prob (p @ ''.resources'') ''lists %s twice'' [S r]
        else (case connOK ev op of
            Some conn \<Rightarrow> on (\<not> allows conn r) (prob (p @ ''.resources'') ''resource %s on %s is outside Workspace Access'' [S r, S (o_Connection op)])
          | None \<Rightarrow> []))
       (List.enumerate 0 (o_Resources op)))"

definition calls_of :: "node list \<Rightarrow> operation \<Rightarrow> node list" where
  "calls_of ns op = filter (\<lambda>n. nkind n = KindCapability \<and> Capability (nstep n) = o_Capability op \<and>
     Connection (nstep n) = o_Connection op) ns"

text \<open>\<^verbatim>\<open>seen\<close> holds the capability and connection of the operations before this one.\<close>

definition check_operation :: "environment \<Rightarrow> node list \<Rightarrow> operation list \<Rightarrow> nat \<Rightarrow> operation \<Rightarrow> problem list" where
  "check_operation ev ns before i op = (let p = ''authority.operations['' @ itoa (int i) @ '']'';
      calls = calls_of ns op; n = int (length calls) in
     authority_capability ev p op @ authority_connection ev p op @ authority_resources ev p op @
     (if o_MaxCallsPerRun op = 0 then prob (p @ ''.max_calls_per_run'') ''required'' []
      else on (o_MaxCallsPerRun op < 0 \<or> maxCallsPerRun < o_MaxCallsPerRun op)
        (prob (p @ ''.max_calls_per_run'') ''must be 1 to %d'' [I maxCallsPerRun])) @
     on (\<exists>q \<in> set before. o_Capability q @ [CHR 0x00] @ o_Connection q = o_Capability op @ [CHR 0x00] @ o_Connection op)
       (prob p ''repeats %s on %s; list its resources in one operation'' [S (o_Capability op), S (o_Connection op)]) @
     (if calls = [] then prob p ''no step uses %s on %s; request only what the workflow needs'' [S (o_Capability op), S (o_Connection op)]
      else concat (map (\<lambda>r. on (r \<notin> set (map (\<lambda>c. Resource (nstep c)) calls)) (prob p ''resource %s: no step uses it'' [S r])) (o_Resources op)) @
        on (0 < o_MaxCallsPerRun op \<and> o_MaxCallsPerRun op < n)
          (prob p ''%d steps call %s on %s; max_calls_per_run is %d'' [I n, S (o_Capability op), S (o_Connection op), I (o_MaxCallsPerRun op)])))"

fun check_operations :: "environment \<Rightarrow> node list \<Rightarrow> operation list \<Rightarrow> operation list \<Rightarrow> problem list" where
  "check_operations ev ns before [] = []"
| "check_operations ev ns before (op # ops) =
     check_operation ev ns before (length before) op @ check_operations ev ns (before @ [op]) ops"

definition checkAuthority :: "environment \<Rightarrow> node list \<Rightarrow> operation list option \<Rightarrow> problem list" where
  "checkAuthority ev ns a = (case a of None \<Rightarrow> [] | Some ops \<Rightarrow> check_operations ev ns [] ops)"

text \<open>
  The Effect Intents an operation's steps may send, retries included; the source warns when
  they exceed the bound, and the runtime refuses those past it.
\<close>

definition intents_of :: "node list \<Rightarrow> operation \<Rightarrow> int" where
  "intents_of ns op = (\<Sum>n \<leftarrow> calls_of ns op. case cap n of Some c \<Rightarrow> if Effect c then attempts n else 0 | None \<Rightarrow> 0)"

section \<open>Run key and schedule\<close>

definition checkRunKey :: "inputInfo gomap \<Rightarrow> string list option \<Rightarrow> problem list" where
  "checkRunKey ins rk = (case rk of
     None \<Rightarrow> prob ''run_key'' ''required: the inputs that identify one logical execution'' []
   | Some names \<Rightarrow>
       on (names = []) (prob ''run_key.inputs'' ''name at least one input'' []) @
       on (maxRunKeyInputs < int (length names))
         (prob ''run_key.inputs'' ''names %d inputs; at most %d'' [I (int (length names)), I maxRunKeyInputs]) @
       concat (map (\<lambda>(i, name).
          if index_of name names \<noteq> Some i then prob ''run_key.inputs'' ''%s appears more than once'' [S name]
          else (case map_of ins name of
              None \<Rightarrow> prob ''run_key.inputs'' ''unknown input %s'' [S name]
            | Some inp \<Rightarrow>
                if \<not> i_Required (spec inp) \<and> \<not> hasDefault inp then
                  prob ''run_key.inputs'' ''%s is optional without a default; a run key input must always have a value'' [S name]
                else on (Kind (itype inp) = KNumber)
                  (prob ''run_key.inputs'' ''%s is a number; run keys use string, integer or boolean inputs'' [S name])))
         (List.enumerate 0 names)))"

definition catch_up_problems :: "catchUp option \<Rightarrow> problem list" where
  "catch_up_problems c = (case c of
     None \<Rightarrow> prob ''schedule.catch_up'' ''required: policy skip, or each_missed with max_runs'' []
   | Some cu \<Rightarrow>
       if c_Policy cu = ''skip'' then on (c_MaxRuns cu \<noteq> 0) (prob ''schedule.catch_up.max_runs'' ''applies only with each_missed'' [])
       else if c_Policy cu = ''each_missed'' then
         (if c_MaxRuns cu = 0 then prob ''schedule.catch_up.max_runs'' ''required with each_missed (1 to %d)'' [I maxCatchUpRuns]
          else on (c_MaxRuns cu < 0 \<or> maxCatchUpRuns < c_MaxRuns cu)
            (prob ''schedule.catch_up.max_runs'' ''%d is outside 1 to %d'' [I (c_MaxRuns cu), I maxCatchUpRuns]))
       else prob ''schedule.catch_up.policy'' ''unknown policy %q; use skip or each_missed'' [S (c_Policy cu)])"

text \<open>One schedule input: its problems, and whether it is fed from the slot.\<close>

definition schedule_input :: "inputInfo gomap \<Rightarrow> string \<Rightarrow> ynode \<Rightarrow> problem list \<times> bool" where
  "schedule_input ins name node = (let p = ''schedule.inputs.'' @ name in
     case map_of ins name of
       None \<Rightarrow> (prob p ''unknown input %s'' [S name], False)
     | Some inp \<Rightarrow> (case nodeValue node of
         Inl e \<Rightarrow> (err_prob p e, False)
       | Inr v \<Rightarrow> (case (case v of VStr s \<Rightarrow> if isRefText s then Some s else None | _ \<Rightarrow> None) of
           Some s \<Rightarrow> (case parseRef s of
               Inl e \<Rightarrow> (err_prob p e, False)
             | Inr r \<Rightarrow>
                 if Root r \<noteq> refSchedule then
                   (prob p ''schedule inputs take literals, $schedule.date or $schedule.time, not %s'' [S s], False)
                 else if Kind (itype inp) \<noteq> KString then
                   (prob p ''%s is text; %s is %s'' [S s, S name, S (kind_text (Kind (itype inp)))], False)
                 else ([], True))
         | None \<Rightarrow> (case checkValue (Some (itype inp)) v of Some e \<Rightarrow> (err_prob p e, False) | None \<Rightarrow> ([], False)))))"

definition checkSchedule :: "(string \<Rightarrow> bool) \<Rightarrow> inputInfo gomap \<Rightarrow> string list option \<Rightarrow> schedule option \<Rightarrow> problem list" where
  "checkSchedule location ins rk so = (case so of None \<Rightarrow> [] | Some s \<Rightarrow> let
      rs = map (\<lambda>name. (name, schedule_input ins name (the (map_of (s_Inputs s) name)))) (sortedKeys (s_Inputs s));
      fed = map fst (filter (snd \<circ> snd) rs)
    in (if s_Cron s = [] then prob ''schedule.cron'' ''required'' []
        else (case validateCron (s_Cron s) of Some e \<Rightarrow> err_prob ''schedule.cron'' e | None \<Rightarrow> [])) @
       (if s_Timezone s = [] \<or> s_Timezone s = ''Local'' then
          prob ''schedule.timezone'' ''name an IANA timezone such as America/New_York'' []
        else on (\<not> location (s_Timezone s)) (prob ''schedule.timezone'' ''unknown timezone %s'' [S (s_Timezone s)])) @
       catch_up_problems (s_CatchUp s) @
       concat (map (fst \<circ> snd) rs) @
       concat (map (\<lambda>name. case map_of ins name of
           Some inp \<Rightarrow> on (i_Required (spec inp) \<and> \<not> hasKey (s_Inputs s) name)
             (prob ''schedule.inputs'' ''missing required input %s'' [S name])
         | None \<Rightarrow> []) (sortedKeys ins)) @
       (case rk of None \<Rightarrow> [] | Some names \<Rightarrow> on (\<not> list_ex (\<lambda>n. n \<in> set fed) names)
          (prob ''run_key'' ''a scheduled workflow's run key must include an input set from $schedule, or every scheduled run shares one key'' [])))"

section \<open>Worst-case use\<close>

text \<open>
  \<^verbatim>\<open>worstTries\<close> and \<^verbatim>\<open>worstTokens\<close> of \<^verbatim>\<open>checkUsage\<close>, over the steps in graph order. Both are
  64-bit sums; no product of a validated step's own bounds passes 64 bits before the token budget.
\<close>

definition worst_tries :: "node \<Rightarrow> int" where
  "worst_tries n = (if nkind n = KindBranch then 0
     else if nkind n = KindMap then (case item n of Some m \<Rightarrow> SMaxItems (nstep n) * attempts m | None \<Rightarrow> 0)
     else attempts n)"

definition worst_tokens :: "node \<Rightarrow> int" where
  "worst_tokens n = (if nkind n = KindMap then
       (case item n of Some m \<Rightarrow> if nkind m = KindAgent then wrap64 (SMaxItems (nstep n) * attempts m * ntokens m) else 0 | None \<Rightarrow> 0)
     else if nkind n = KindAgent then wrap64 (attempts n * ntokens n) else 0)"

definition worstTries :: "node list \<Rightarrow> string list \<Rightarrow> int" where
  "worstTries ns order = sum_list (map worst_tries (List.map_filter (node_of ns) order))"

definition worstTokens :: "node list \<Rightarrow> string list \<Rightarrow> int" where
  "worstTokens ns order = fold (\<lambda>n t. wrap64 (t + worst_tokens n)) (List.map_filter (node_of ns) order) 0"

section \<open>The validator\<close>

record validated =
  vdefinition :: definition_
  vfiles :: "string gomap"
  vsteps :: "node list"
  vorder :: "string list"
  vinputs :: "inputInfo gomap"
  vrunlimits :: runLimits
  voutputs :: "outputInfo list"

text \<open>What the validator is given beside the definition.\<close>

record host =
  h_source :: "string \<Rightarrow> read"
  h_decode :: decoder
  h_env :: environment
  h_registry :: "func gomap"
  h_location :: "string \<Rightarrow> bool"

definition readme_problems :: "(string \<Rightarrow> read) \<Rightarrow> problem list" where
  "readme_problems rd = (case rd ''README.md'' of ReadOk _ \<Rightarrow> []
   | _ \<Rightarrow> prob ''README.md'' ''required beside workflow.yaml to explain the workflow to its reviewer'' [])"

definition validator_of :: "host \<Rightarrow> definition_ \<Rightarrow> validator" where
  "validator_of h d = (let (_, rl, ok) = checkLimits (Limits d) in
     \<lparr>src = h_source h, decode = h_decode h, env = h_env h, defn = d, registry = h_registry h, vlimits = rl, limitsOK = ok\<rparr>)"

text \<open>\<^verbatim>\<open>run\<close>: every check in order; \<open>None\<close> is a validator that does not return.\<close>

definition run :: "host \<Rightarrow> definition_ \<Rightarrow> (problem list \<times> validated) option" where
  "run h d = (let
      (lps, rl, ok) = checkLimits (Limits d);
      v = validator_of h d;
      (ips, ins) = checkInputs (Inputs d);
      (ns, sps, ld) = collectSteps v
    in case checkGraph (Start d) ns of
         None \<Rightarrow> None
       | Some (gps, fl) \<Rightarrow> let
           (ns', rps) = (if facyclic fl then resolve_steps ins fl (forder fl) ns else (ns, []));
           (ops, outs) = checkOutputs ins fl ns' (Outputs d)
         in Some (readme_problems (h_source h) @ checkHeader d @ lps @ ips @ checkPolicies rl ok (ModelPolicies d) @
              sps @ gps @ rps @ ops @ checkAuthority (h_env h) ns' (Authority d) @ checkRunKey ins (RunKey d) @
              checkSchedule (h_location h) ins (RunKey d) (Schedule d),
              \<lparr>vdefinition = d, vfiles = lfiles ld, vsteps = ns', vorder = forder fl, vinputs = ins,
               vrunlimits = rl, voutputs = outs\<rparr>))"

end
