(* ===== verification/Execute.thy ===== *)
theory Execute
  imports Validate
begin

text \<open>
  Executing a validated definition (execute.go and fanout.go): run inputs and their Run Key,
  the input each step reads, branch decisions, deterministic calls, capability inputs, a map's
  list, items and output, and the run's outputs. All of it is pure; the state is the map of
  the outputs of the steps that have run.
\<close>

section \<open>Plans\<close>

definition step_of :: "validated \<Rightarrow> string \<Rightarrow> node option" where
  "step_of v i = node_of (vsteps v) i"

record stepPlan =
  p_ID :: string
  p_Kind :: string
  p_Next :: string
  p_Attempts :: int
  p_Backoff :: int
  p_Function :: string
  p_Capability :: string
  p_Contract :: string
  p_Connection :: string
  p_Resource :: string
  p_Effect :: bool

definition is_effect :: "'a node0_scheme \<Rightarrow> bool" where
  "is_effect n = (case cap n of Some c \<Rightarrow> Effect c | None \<Rightarrow> False)"

definition Step :: "validated \<Rightarrow> string \<Rightarrow> stepPlan option" where
  "Step v i = map_option (\<lambda>n. let s = nstep n; c = (nkind n = KindCapability) in
     \<lparr>p_ID = i, p_Kind = nkind n, p_Next = (if nkind n = KindBranch then [] else Next s), p_Attempts = attempts n,
      p_Backoff = backoff n, p_Function = Function s,
      p_Capability = (if c then Capability s else []), p_Contract = (if c then Contract s else []),
      p_Connection = (if c then Connection s else []), p_Resource = (if c then Resource s else []),
      p_Effect = (c \<and> is_effect n)\<rparr>) (step_of v i)"

record capabilityStep =
  cs_Step :: string
  cs_Capability :: string
  cs_Contract :: string
  cs_Connection :: string
  cs_Resource :: string
  cs_Effect :: bool

definition CapabilitySteps :: "validated \<Rightarrow> capabilityStep list" where
  "CapabilitySteps v = List.map_filter (\<lambda>i. case step_of v i of
      Some n \<Rightarrow> if nkind n \<noteq> KindCapability then None
        else Some \<lparr>cs_Step = i, cs_Capability = Capability (nstep n), cs_Contract = Contract (nstep n),
          cs_Connection = Connection (nstep n), cs_Resource = Resource (nstep n), cs_Effect = is_effect n\<rparr>
    | None \<Rightarrow> None) (sort (remdups (map nid (vsteps v))))"

definition StepKinds :: "validated \<Rightarrow> string list" where
  "StepKinds v = sort (remdups (concat (map (\<lambda>n. nkind n # (case item n of Some m \<Rightarrow> [nkind m] | None \<Rightarrow> [])) (vsteps v))))"

definition Functions :: "validated \<Rightarrow> string list" where
  "Functions v = sort (remdups (concat (map (\<lambda>n.
     (case fn n of Some f \<Rightarrow> [fID f] | None \<Rightarrow> []) @
     (case item n of Some m \<Rightarrow> (case fn m of Some f \<Rightarrow> [fID f] | None \<Rightarrow> []) | None \<Rightarrow> [])) (vsteps v))))"

section \<open>Run inputs\<close>

text \<open>\<^verbatim>\<open>textValue\<close>: a command-line value, converted to the input's declared type.\<close>

definition textValue :: "decoder \<Rightarrow> inputInfo \<Rightarrow> string \<Rightarrow> errmsg + val" where
  "textValue dc inp s = (let k = Kind (itype inp) in
     if k = KString then Inr (VStr s)
     else if k = KInteger \<and> \<not> integerText s then Inl (Errf ''%q is not a plain decimal integer'' [S s])
     else if k = KNumber \<and> \<not> decimalText s then Inl (Errf ''%q is not a plain decimal number'' [S s])
     else if k = KBoolean \<and> s \<noteq> ''true'' \<and> s \<noteq> ''false'' then Inl (Errf ''%q is not true or false'' [S s])
     else parseCanonicalJSON dc s)"

definition input_err :: "string \<Rightarrow> errmsg \<Rightarrow> errmsg" where
  "input_err name e = Errf ''inputs.%s: %v'' [S name, E e]"

definition given_value :: "decoder \<Rightarrow> inputInfo gomap \<Rightarrow> string gomap \<Rightarrow> string \<Rightarrow> errmsg + string \<times> val" where
  "given_value dc ins values name = (if \<not> hasKey ins name then Inl (Errf ''inputs.%s: the workflow declares no such input'' [S name])
     else (case parseCanonicalJSON dc (the (map_of values name)) of Inl e \<Rightarrow> Inl (input_err name e) | Inr x \<Rightarrow> Inr (name, x)))"

definition given_text :: "decoder \<Rightarrow> inputInfo gomap \<Rightarrow> string gomap \<Rightarrow> string gomap \<Rightarrow> string \<Rightarrow> errmsg + string \<times> val" where
  "given_text dc ins values text_vals name = (case map_of ins name of
     None \<Rightarrow> Inl (Errf ''inputs.%s: the workflow declares no such input'' [S name])
   | Some inp \<Rightarrow> if hasKey values name then Inl (Errf ''inputs.%s: given twice'' [S name])
       else (case textValue dc inp (the (map_of text_vals name)) of Inl e \<Rightarrow> Inl (input_err name e) | Inr x \<Rightarrow> Inr (name, x)))"

definition default_input :: "inputInfo gomap \<Rightarrow> val gomap \<Rightarrow> string \<Rightarrow> errmsg + (string \<times> val) option" where
  "default_input ins given name = (if hasKey given name then Inr None
     else (case map_of ins name of
         None \<Rightarrow> Inr None
       | Some inp \<Rightarrow> if hasDefault inp then Inr (Some (name, idefault inp))
           else if i_Required (spec inp) then Inl (Errf ''inputs.%s: required'' [S name]) else Inr None))"

text \<open>\<^verbatim>\<open>AcceptInputs\<close>: JSON values, then text values, then the type checks, then the defaults.\<close>

definition AcceptInputs :: "decoder \<Rightarrow> inputInfo gomap \<Rightarrow> string gomap \<Rightarrow> string gomap \<Rightarrow> errmsg + val gomap" where
  "AcceptInputs dc ins values text_vals =
    (case map_err (given_value dc ins values) (sortedKeys values) of Inl e \<Rightarrow> Inl e | Inr g1 \<Rightarrow>
    (case map_err (given_text dc ins values text_vals) (sortedKeys text_vals) of Inl e \<Rightarrow> Inl e | Inr g2 \<Rightarrow>
      let given = g1 @ g2 in
    (case first_err (\<lambda>name. map_option (input_err name)
        (checkValue (Some (itype (the (map_of ins name)))) (the (map_of given name)))) (sortedKeys given) of Some e \<Rightarrow> Inl e | None \<Rightarrow>
    (case map_err (default_input ins given) (sortedKeys ins) of Inl e \<Rightarrow> Inl e
     | Inr ds \<Rightarrow> Inr (given @ List.map_filter id ds)))))"

text \<open>\<^verbatim>\<open>RunKey\<close>: the digest function (SHA-256 in hexadecimal) is a parameter.\<close>

definition key_inputs :: "string list \<Rightarrow> val gomap \<Rightarrow> val gomap" where
  "key_inputs names inputs = fold (\<lambda>name m. put name (case map_of inputs name of Some x \<Rightarrow> x | None \<Rightarrow> VNil) m) names []"

definition runKey :: "(string \<Rightarrow> string) \<Rightarrow> definition_ \<Rightarrow> val gomap \<Rightarrow> string" where
  "runKey digest d inputs = DName d @ '':sha256:'' @
     digest (canonicalBytes (VObj (key_inputs (case RunKey d of Some names \<Rightarrow> names | None \<Rightarrow> []) inputs)))"

section \<open>Reading references\<close>

definition lookup_val :: "val gomap \<Rightarrow> string \<Rightarrow> val" where
  "lookup_val m k = (case map_of m k of Some x \<Rightarrow> x | None \<Rightarrow> VNil)"

definition resolveRef :: "ref \<Rightarrow> val gomap \<Rightarrow> val gomap \<Rightarrow> val \<Rightarrow> val" where
  "resolveRef r inputs steps itm = (
     if Root r = refInputs then walkValue (lookup_val inputs (RName r)) (Path r)
     else if Root r = refSteps then walkValue (lookup_val steps (RName r)) (Path r)
     else if Root r = refItem then walkValue itm (Path r)
     else VNil)"

definition arg_value :: "arg \<Rightarrow> val gomap \<Rightarrow> val gomap \<Rightarrow> val \<Rightarrow> val" where
  "arg_value a inputs steps itm = (if AConst a then ALit a
     else (case ARef a of Some r \<Rightarrow> resolveRef r inputs steps itm | None \<Rightarrow> VNil))"

definition inputOf :: "'a node0_scheme \<Rightarrow> val gomap \<Rightarrow> val gomap \<Rightarrow> val \<Rightarrow> val gomap" where
  "inputOf n inputs steps itm = map (\<lambda>(name, a). (name, arg_value a inputs steps itm)) (args n)"

text \<open>\<^verbatim>\<open>requireRan\<close>: a reference to a step that has not run is refused.\<close>

definition requireRan :: "'a node0_scheme \<Rightarrow> ref \<Rightarrow> val gomap \<Rightarrow> errmsg option" where
  "requireRan n r steps = (if Root r \<noteq> refSteps then None
     else err_if (\<not> hasKey steps (RName r)) (Errf ''%s: %s: step %s has not run'' [S (npath n), S (Raw r), S (RName r)]))"

definition args_ran :: "'a node0_scheme \<Rightarrow> val gomap \<Rightarrow> errmsg option" where
  "args_ran n steps = first_err (\<lambda>name. case map_of (args n) name of
      Some a \<Rightarrow> if AConst a then None else (case ARef a of Some r \<Rightarrow> requireRan n r steps | None \<Rightarrow> None)
    | None \<Rightarrow> None) (sortedKeys (args n))"

definition StepInput :: "validated \<Rightarrow> string \<Rightarrow> val gomap \<Rightarrow> val gomap \<Rightarrow> errmsg + val gomap" where
  "StepInput v i inputs steps = (case step_of v i of
     None \<Rightarrow> Inl (Errf ''unknown step %s'' [S i])
   | Some n \<Rightarrow> (case args_ran n steps of Some e \<Rightarrow> Inl e | None \<Rightarrow> Inr (inputOf n inputs steps VNil)))"

definition capabilityNode :: "validated \<Rightarrow> string \<Rightarrow> errmsg + node \<times> capabilityContract" where
  "capabilityNode v i = (case step_of v i of
     Some n \<Rightarrow> (case cap n of Some c \<Rightarrow> if nkind n = KindCapability then Inr (n, c) else Inl (Errf ''%s is not a capability step'' [S i])
       | None \<Rightarrow> Inl (Errf ''%s is not a capability step'' [S i]))
   | None \<Rightarrow> Inl (Errf ''%s is not a capability step'' [S i]))"

text \<open>\<^verbatim>\<open>CapabilityInput\<close>: absent values are left out, and the rest must fit the contract.\<close>

definition CapabilityInput :: "validated \<Rightarrow> string \<Rightarrow> val gomap \<Rightarrow> val gomap \<Rightarrow> errmsg + val gomap" where
  "CapabilityInput v i inputs steps = (case capabilityNode v i of Inl e \<Rightarrow> Inl e | Inr (n, c) \<Rightarrow>
     (case StepInput v i inputs steps of Inl e \<Rightarrow> Inl e | Inr resolved \<Rightarrow>
       let out = filter (\<lambda>(name, x). x \<noteq> VNil) resolved in
       (case checkValue (Some (orEmptyObject (CInput c))) (VObj out) of
          Some e \<Rightarrow> Inl (Errf ''%s: input outside %s %s: %v'' [S (npath n), S (CID c), S (CContract c), E e])
        | None \<Rightarrow> Inr out)))"

definition CheckCapabilityOutput :: "validated \<Rightarrow> string \<Rightarrow> val \<Rightarrow> errmsg option" where
  "CheckCapabilityOutput v i x = (case capabilityNode v i of Inl e \<Rightarrow> Some e | Inr (n, c) \<Rightarrow> checkValue (noutput n) x)"

definition CallFunction :: "validated \<Rightarrow> string \<Rightarrow> val gomap \<Rightarrow> errmsg + val" where
  "CallFunction v i input = (case step_of v i of
     Some n \<Rightarrow> (case fn n of
         Some f \<Rightarrow> if nkind n \<noteq> KindDeterministic then Inl (Errf ''%s is not a deterministic step'' [S i])
           else (case call f (npath n) input of CallOk x \<Rightarrow> Inr x | CallFailure e \<Rightarrow> Inl e | CallBroken e \<Rightarrow> Inl e)
       | None \<Rightarrow> Inl (Errf ''%s is not a deterministic step'' [S i]))
   | None \<Rightarrow> Inl (Errf ''%s is not a deterministic step'' [S i]))"

section \<open>Branches\<close>

text \<open>\<^verbatim>\<open>evaluate\<close> (simulate.go): an absent value is empty, and a comparison needs two numbers.\<close>

definition evaluate :: "compiledCase \<Rightarrow> val \<Rightarrow> bool" where
  "evaluate c x = (
     if unaryOp (cop c) then
       (case x of VNil \<Rightarrow> True | VList xs \<Rightarrow> xs = [] | VStr s \<Rightarrow> s = [] | _ \<Rightarrow> False) = (cop c = ''empty'')
     else if cop c = ''eq'' then equalValues x (cvalue c)
     else if cop c = ''ne'' then \<not> equalValues x (cvalue c)
     else (case (number x, number (cvalue c)) of
         (Some a, Some b) \<Rightarrow>
           if cop c = ''gt'' then float_less b a
           else if cop c = ''gte'' then float_le b a
           else if cop c = ''lt'' then float_less a b
           else if cop c = ''lte'' then float_le a b
           else False
       | _ \<Rightarrow> False))"

record branchDecision =
  d_Next :: string
  d_Case :: nat
  d_Note :: string
  d_Read :: "val gomap"

definition case_ref_of :: "compiledCase \<Rightarrow> ref" where
  "case_ref_of c = (case cref c of Some r \<Rightarrow> r | None \<Rightarrow> \<lparr>Raw = [], Root = [], RName = [], Path = []\<rparr>)"

fun first_case :: "nat \<Rightarrow> val gomap \<Rightarrow> compiledCase list \<Rightarrow> (nat \<times> compiledCase) option" where
  "first_case i reads [] = None"
| "first_case i reads (c # cs) = (if evaluate c (lookup_val reads (Raw (case_ref_of c))) then Some (i, c)
     else first_case (Suc i) reads cs)"

text \<open>\<^verbatim>\<open>decide\<close>: every reference is read first, then the first case that holds wins; 0 is the default.\<close>

definition decide :: "'a node0_scheme \<Rightarrow> (ref \<Rightarrow> val) \<Rightarrow> branchDecision" where
  "decide n rd = (let reads = fold (\<lambda>c m. put (Raw (case_ref_of c)) (rd (case_ref_of c)) m) (cases n) [] in
     case first_case 1 reads (cases n) of
       Some (i, c) \<Rightarrow> \<lparr>d_Next = cnext c, d_Case = i,
         d_Note = ''case '' @ itoa (int i) @ '' matched: '' @ Raw (case_ref_of c) @ '' '' @ cop c, d_Read = reads\<rparr>
     | None \<Rightarrow> \<lparr>d_Next = Default (nstep n), d_Case = 0, d_Note = ''no case matched; default'', d_Read = reads\<rparr>)"

definition Branch :: "validated \<Rightarrow> string \<Rightarrow> val gomap \<Rightarrow> val gomap \<Rightarrow> errmsg + branchDecision" where
  "Branch v i inputs steps = (case step_of v i of
     None \<Rightarrow> Inl (Errf ''%s is not a branch step'' [S i])
   | Some n \<Rightarrow> if nkind n \<noteq> KindBranch then Inl (Errf ''%s is not a branch step'' [S i])
       else (case first_err (\<lambda>c. requireRan n (case_ref_of c) steps) (cases n) of Some e \<Rightarrow> Inl e
         | None \<Rightarrow> Inr (decide n (\<lambda>r. resolveRef r inputs steps VNil))))"

section \<open>Outputs\<close>

definition output_value :: "val gomap \<Rightarrow> val gomap \<Rightarrow> string \<Rightarrow> val option" where
  "output_value inputs steps out_text = (case parseRef out_text of
     Inl _ \<Rightarrow> None
   | Inr r \<Rightarrow> if Root r = refInputs then Some (walkValue (lookup_val inputs (RName r)) (Path r))
       else map_option (\<lambda>x. walkValue x (Path r)) (map_of steps (RName r)))"

definition RunOutputs :: "definition_ \<Rightarrow> val gomap \<Rightarrow> val gomap \<Rightarrow> val gomap" where
  "RunOutputs d inputs steps = List.map_filter (\<lambda>name. case map_of (Outputs d) name of
      Some s \<Rightarrow> map_option (Pair name) (output_value inputs steps s) | None \<Rightarrow> None) (sortedKeys (Outputs d))"

end
