(* ===== verification/Fanout.thy ===== *)
theory Fanout
  imports Execute AgentResult "HOL-Library.Multiset"
begin

text \<open>
  Map steps and agent steps at run time (fanout.go): a map's plan, its list, each item's input
  and call, the map's output from its items' outcomes, and the output an agent step builds
  from its worker's result. The output of a map never depends on the order its items finished.
\<close>

section \<open>Map steps\<close>

record itemPlan =
  ip_Kind :: string
  ip_Attempts :: int
  ip_Backoff :: int
  ip_Function :: string

record mapPlan =
  mp_ID :: string
  mp_MaxItems :: int
  mp_Parallel :: int
  mp_OnItemFailure :: string
  mp_MinSucceeded :: int
  mp_Item :: itemPlan

definition MapStep :: "validated \<Rightarrow> string \<Rightarrow> mapPlan option" where
  "MapStep v i = (case step_of v i of None \<Rightarrow> None
   | Some n \<Rightarrow> (case item n of None \<Rightarrow> None
     | Some m \<Rightarrow> if nkind n \<noteq> KindMap then None
         else Some \<lparr>mp_ID = i, mp_MaxItems = SMaxItems (nstep n),
           mp_Parallel = min (MaxParallel (nstep n)) (parallel (vrunlimits v)),
           mp_OnItemFailure = OnItemFailure (nstep n), mp_MinSucceeded = MinSucceeded (nstep n),
           mp_Item = \<lparr>ip_Kind = nkind m, ip_Attempts = attempts m, ip_Backoff = backoff m, ip_Function = Function (nstep m)\<rparr>\<rparr>))"

definition mapNode :: "validated \<Rightarrow> string \<Rightarrow> errmsg + node \<times> node0 \<times> ref" where
  "mapNode v i = (case step_of v i of
     Some n \<Rightarrow> (case (item n, over n) of
         (Some m, Some r) \<Rightarrow> if nkind n = KindMap then Inr (n, m, r) else Inl (Errf ''%s is not a map step'' [S i])
       | _ \<Rightarrow> Inl (Errf ''%s is not a map step'' [S i]))
   | None \<Rightarrow> Inl (Errf ''%s is not a map step'' [S i]))"

definition MapList :: "validated \<Rightarrow> string \<Rightarrow> val gomap \<Rightarrow> val gomap \<Rightarrow> errmsg + val list" where
  "MapList v i inputs steps = (case mapNode v i of Inl e \<Rightarrow> Inl e | Inr (n, m, r) \<Rightarrow>
     (case requireRan n r steps of Some e \<Rightarrow> Inl e | None \<Rightarrow>
       (case resolveRef r inputs steps VNil of VList xs \<Rightarrow> Inr xs
        | _ \<Rightarrow> Inl (Errf ''%s: %s is not a list'' [S (npath n), S (Raw r)]))))"

definition ItemInput :: "validated \<Rightarrow> string \<Rightarrow> val gomap \<Rightarrow> val gomap \<Rightarrow> val \<Rightarrow> errmsg + val gomap" where
  "ItemInput v i inputs steps element = (case mapNode v i of Inl e \<Rightarrow> Inl e | Inr (n, m, r) \<Rightarrow>
     (case args_ran m steps of Some e \<Rightarrow> Inl e | None \<Rightarrow> Inr (inputOf m inputs steps element)))"

definition CallItemFunction :: "validated \<Rightarrow> string \<Rightarrow> val gomap \<Rightarrow> errmsg + val" where
  "CallItemFunction v i input = (case mapNode v i of Inl e \<Rightarrow> Inl e | Inr (n, m, r) \<Rightarrow>
     (case fn m of
        Some f \<Rightarrow> if nkind m \<noteq> KindDeterministic then Inl (Errf ''%s does not run a deterministic item'' [S i])
          else (case call f (npath m) input of CallOk x \<Rightarrow> Inr x | CallFailure e \<Rightarrow> Inl e | CallBroken e \<Rightarrow> Inl e)
      | None \<Rightarrow> Inl (Errf ''%s does not run a deterministic item'' [S i])))"

definition CheckItemOutput :: "validated \<Rightarrow> string \<Rightarrow> val \<Rightarrow> errmsg option" where
  "CheckItemOutput v i x = (case mapNode v i of Inl e \<Rightarrow> Some e | Inr (n, m, r) \<Rightarrow>
     (case nschema m of
        Some t \<Rightarrow> if nkind m \<noteq> KindAI then Some (Errf ''%s does not run an AI item'' [S i]) else checkValue (Some t) x
      | None \<Rightarrow> Some (Errf ''%s does not run an AI item'' [S i])))"

section \<open>A map's output\<close>

record itemOutcome =
  Index :: int
  Succeeded :: bool
  Output :: val
  Error :: string

definition result_val :: "val list \<Rightarrow> itemOutcome \<Rightarrow> val" where
  "result_val xs o1 = VObj [(''index'', VInt (Index o1)), (''item'', xs ! nat (Index o1)), (''output'', Output o1)]"

definition failure_val :: "val list \<Rightarrow> itemOutcome \<Rightarrow> val" where
  "failure_val xs o1 = VObj [(''index'', VInt (Index o1)), (''item'', xs ! nat (Index o1)), (''error'', VStr (Error o1))]"

text \<open>The loop over the sorted outcomes; \<open>prev\<close> is the index of the one before.\<close>

fun map_loop :: "val list \<Rightarrow> int option \<Rightarrow> itemOutcome list \<Rightarrow> errmsg + val list \<times> val list" where
  "map_loop xs prev [] = Inr ([], [])"
| "map_loop xs prev (o1 # os) = (
     if Index o1 < 0 \<or> int (length xs) \<le> Index o1 \<or> prev = Some (Index o1)
     then Inl (Errf ''item %d is not one outcome of a %d-item list'' [I (Index o1), I (int (length xs))])
     else (case map_loop xs (Some (Index o1)) os of Inl e \<Rightarrow> Inl e
       | Inr (rs, fs) \<Rightarrow> if Succeeded o1 then Inr (result_val xs o1 # rs, fs) else Inr (rs, failure_val xs o1 # fs)))"

definition mapOutput :: "val list \<Rightarrow> itemOutcome list \<Rightarrow> errmsg + val" where
  "mapOutput xs outcomes = (case map_loop xs None (sort_key Index outcomes) of Inl e \<Rightarrow> Inl e
   | Inr (rs, fs) \<Rightarrow> Inr (VObj [(''results'', VList rs), (''failures'', VList fs),
       (''succeeded'', VInt (int (length rs))), (''failed'', VInt (int (length fs)))]))"

definition MapOutput :: "validated \<Rightarrow> string \<Rightarrow> val list \<Rightarrow> itemOutcome list \<Rightarrow> errmsg + val" where
  "MapOutput v i xs outcomes = (case mapNode v i of Inl e \<Rightarrow> Inl e | Inr (n, m, r) \<Rightarrow>
     (case mapOutput xs outcomes of Inl e \<Rightarrow> Inl e | Inr out \<Rightarrow>
       (case noutput n of None \<Rightarrow> Inr out
        | Some t \<Rightarrow> (case checkValue (Some t) out of Some e \<Rightarrow> Inl (Errf ''%s: output: %v'' [S (npath n), E e]) | None \<Rightarrow> Inr out))))"

section \<open>Agent steps\<close>

record workerResult =
  wr_Status :: string
  wr_Summary :: string
  wr_Report :: string
  wr_ExecutionID :: string
  wr_FullReport :: bool
  wr_Sources :: "(string \<times> bool) list"
  wr_Limitations :: "string list"
  wr_Tokens :: int

text \<open>
  An agent attempt ends with an output and a note, fails, or is broken: a result outside the
  contract.
\<close>

datatype agentEnd = AgentOk val string | AgentFailure errmsg string | AgentBroken errmsg string

definition agent_fields :: "workerResult \<Rightarrow> (string \<times> val) list" where
  "agent_fields r =
     [(''status'', VStr (wr_Status r)), (''summary'', VStr (wr_Summary r)),
      (''sources'', VList (map (\<lambda>(u, c). VObj [(''url'', VStr u), (''cited'', VBool c)]) (wr_Sources r))),
      (''limitations'', VList (map VStr (wr_Limitations r))), (''tokens'', VInt (wr_Tokens r))] @
     (if wr_FullReport r then [(''report'', VStr (wr_Report r))]
      else (''report_bytes'', VInt (int (length (wr_Report r)))) #
        (if wr_ExecutionID r \<noteq> [] then [(''execution_id'', VStr (wr_ExecutionID r))] else []))"

definition agentOutput :: "decoder \<Rightarrow> 'a node0_scheme \<Rightarrow> workerResult \<Rightarrow> agentEnd" where
  "agentOutput dc n r = (
     if wr_Status r \<in> {''failed'', ''cancelled'', ''interrupted''} then
       AgentFailure (Errf ''worker ended %s'' [S (wr_Status r)]) []
     else if wr_Status r \<notin> {''succeeded'', ''partial''} then
       AgentBroken (Errf ''unknown worker status %q'' [S (wr_Status r)]) []
     else let
       note = (if wr_Status r = ''partial'' then ''the worker wrapped up at its budget (partial)'' else []);
       finish = (\<lambda>fs. case checkValue (noutput n) (VObj fs) of Some e \<Rightarrow> AgentBroken e note | None \<Rightarrow> AgentOk (VObj fs) note)
     in (case nschema n of
         None \<Rightarrow> finish (agent_fields r)
       | Some t \<Rightarrow> (case (case extractAgentResult dc (wr_Report r) of Inl e \<Rightarrow> Inl e
             | Inr x \<Rightarrow> (case checkValue (Some t) x of Some e \<Rightarrow> Inl e | None \<Rightarrow> Inr x)) of
           Inl e \<Rightarrow> AgentFailure (Errf ''typed result: %v'' [E e]) note
         | Inr x \<Rightarrow> finish (agent_fields r @ [(''result'', x)]))))"

definition agentNode :: "validated \<Rightarrow> string \<Rightarrow> node0 option" where
  "agentNode v i = (case step_of v i of None \<Rightarrow> None
   | Some n \<Rightarrow> if nkind n = KindAgent then Some (node0.truncate n)
       else if nkind n = KindMap then
         (case item n of Some m \<Rightarrow> if nkind m = KindAgent then Some m else None | None \<Rightarrow> None)
       else None)"

section \<open>What a map's output is\<close>

text \<open>The outcomes of a map step: one per item that ran, by index.\<close>

definition outcomes_ok :: "val list \<Rightarrow> itemOutcome list \<Rightarrow> bool" where
  "outcomes_ok xs os \<longleftrightarrow> distinct (map Index os) \<and> (\<forall>o1 \<in> set os. 0 \<le> Index o1 \<and> Index o1 < int (length xs))"

lemma map_loop_spec:
  "sorted (map Index os) \<Longrightarrow> (\<forall>p. prev = Some p \<longrightarrow> (\<forall>o1 \<in> set os. p \<le> Index o1)) \<Longrightarrow>
   (case map_loop xs prev os of
      Inl e \<Rightarrow> \<not> (outcomes_ok xs os \<and> (\<forall>p. prev = Some p \<longrightarrow> p \<notin> set (map Index os)))
    | Inr (rs, fs) \<Rightarrow> outcomes_ok xs os \<and> (\<forall>p. prev = Some p \<longrightarrow> p \<notin> set (map Index os)) \<and>
        rs = map (result_val xs) (filter Succeeded os) \<and> fs = map (failure_val xs) (filter (\<lambda>o1. \<not> Succeeded o1) os))"
proof (induction xs prev os rule: map_loop.induct)
  case (2 xs prev o1 os)
  show ?case
  proof (cases "Index o1 < 0 \<or> int (length xs) \<le> Index o1 \<or> prev = Some (Index o1)")
    case True
    then show ?thesis by (auto simp: outcomes_ok_def)
  next
    case False
    have prevs: "\<forall>p. prev = Some p \<longrightarrow> p \<notin> set (map Index os)"
    proof (intro allI impI)
      fix p assume p: "prev = Some p"
      then have "p < Index o1" using False "2.prems"(2) by force
      moreover have "Index o1 \<le> Index q" if "q \<in> set os" for q using "2.prems"(1) that by simp
      ultimately show "p \<notin> set (map Index os)" by force
    qed
    have IH: "case map_loop xs (Some (Index o1)) os of
      Inl e \<Rightarrow> \<not> (outcomes_ok xs os \<and> (\<forall>p. Some (Index o1) = Some p \<longrightarrow> p \<notin> set (map Index os)))
    | Inr (rs, fs) \<Rightarrow> outcomes_ok xs os \<and> (\<forall>p. Some (Index o1) = Some p \<longrightarrow> p \<notin> set (map Index os)) \<and>
        rs = map (result_val xs) (filter Succeeded os) \<and> fs = map (failure_val xs) (filter (\<lambda>o1. \<not> Succeeded o1) os)"
      using "2.IH" [OF False] "2.prems"(1) by simp
    show ?thesis
      using IH False prevs by (cases "map_loop xs (Some (Index o1)) os") (auto simp: outcomes_ok_def)
  qed
qed (simp add: outcomes_ok_def)

lemma mapOutput_iff:
  "mapOutput xs os = Inr out \<longleftrightarrow> outcomes_ok xs os \<and> (let sorted_os = sort_key Index os;
       rs = map (result_val xs) (filter Succeeded sorted_os); fs = map (failure_val xs) (filter (\<lambda>o1. \<not> Succeeded o1) sorted_os) in
     out = VObj [(''results'', VList rs), (''failures'', VList fs), (''succeeded'', VInt (int (length rs))),
       (''failed'', VInt (int (length fs)))])"
proof -
  have "distinct (map Index (sort_key Index os)) \<longleftrightarrow> distinct (map Index os)"
    by (metis distinct_card distinct_map distinct_sort set_sort inj_on_cong)
  then have ok: "outcomes_ok xs (sort_key Index os) \<longleftrightarrow> outcomes_ok xs os" by (simp add: outcomes_ok_def)
  show ?thesis
    using map_loop_spec [of "sort_key Index os" None xs]
    by (auto simp: mapOutput_def ok Let_def split: sum.splits)
qed

end
