(* ===== verification/Resolved.thy ===== *)
theory Resolved
  imports Fanout
begin

text \<open>
  What resolving without a problem establishes: every reference a step reads names an input
  that is declared or a step that runs before it on every path, and nothing but arguments and
  output types changes.
\<close>

section \<open>A type reference is to something that exists\<close>

text \<open>
  Whether a reference may be read at an anchor: an input that is declared, or a step other than
  a branch that dominates the anchor. An item may also read \<^verbatim>\<open>$item\<close>.
\<close>

definition readable :: "inputInfo gomap \<Rightarrow> flow \<Rightarrow> (string \<times> string) list \<Rightarrow> string \<Rightarrow> bool \<Rightarrow> ref \<Rightarrow> bool" where
  "readable ins fl kinds anchor in_item r \<longleftrightarrow>
     (Root r = refInputs \<and> hasKey ins (RName r)) \<or>
     (Root r = refSteps \<and> dominates fl (RName r) anchor \<and> (\<exists>k. map_of kinds (RName r) = Some k \<and> k \<noteq> KindBranch)) \<or>
     (Root r = refItem \<and> in_item)"

definition kinds_of :: "'a node0_scheme list \<Rightarrow> (string \<times> string) list" where
  "kinds_of ns = map (\<lambda>n. (nid n, nkind n)) ns"

lemma node_of_Some: "node_of ns i = Some n \<Longrightarrow> n \<in> set ns \<and> nid n = i"
  unfolding node_of_def by (drule find_SomeD) simp

lemma node_of_None: "node_of ns i = None \<longleftrightarrow> i \<notin> set (map nid ns)"
  by (auto simp: node_of_def find_None_iff)

lemma node_of_distinct: "distinct (map nid ns) \<Longrightarrow> n \<in> set ns \<Longrightarrow> node_of ns (nid n) = Some n"
  unfolding node_of_def by (rule find_unique) (auto simp: distinct_map inj_on_def)

lemma kinds_of_node: "map_of (kinds_of ns) i = map_option nkind (node_of ns i)"
  by (induction ns) (auto simp: kinds_of_def node_of_def)

lemma wrap_ref_Inr: "wrap_ref r t = Inr u \<longleftrightarrow> t = Inr u"
  by (auto simp: wrap_ref_def split: sum.splits)

lemma refType_readable:
  assumes "refType ins fl ns r (Some a) itm = Inr t"
  shows "readable ins fl (kinds_of ns) a (itm \<noteq> None) r"
proof -
  consider "Root r = refInputs" | "Root r = refSteps" "Root r \<noteq> refInputs"
    | "Root r = refItem" "Root r \<noteq> refInputs" "Root r \<noteq> refSteps"
    using assms by (auto simp: refType_def split: if_splits)
  then show ?thesis
  proof cases
    case 1
    then show ?thesis using assms
      by (auto simp: refType_def readable_def hasKey_def split: option.splits)
  next
    case 2
    then obtain n where n: "node_of ns (RName r) = Some n" "dominates fl (nid n) a" "nkind n \<noteq> KindBranch"
      using assms by (auto simp: refType_def split: option.splits if_splits)
    with 2 node_of_Some [OF n(1)] show ?thesis by (simp add: readable_def kinds_of_node)
  next
    case 3
    then show ?thesis using assms by (auto simp: refType_def readable_def split: option.splits if_splits)
  qed
qed

text \<open>Following a path never ends at the nil type, except where it started.\<close>

lemma walkFrom_Some: "walkFrom (Some t) past p = Inr u \<Longrightarrow> \<exists>w. u = Some w"
proof (induction p arbitrary: t past)
  case (Cons n p)
  then show ?case by (auto split: option.splits if_splits)
qed auto

lemma refType_Some: "refType ins fl ns r a itm = Inr t \<Longrightarrow> t \<noteq> None"
  by (auto simp: refType_def wrap_ref_Inr walkType_def dest: walkFrom_Some split: if_splits option.splits)

section \<open>Arguments\<close>

definition args_readable :: "inputInfo gomap \<Rightarrow> flow \<Rightarrow> (string \<times> string) list \<Rightarrow> string \<Rightarrow> bool \<Rightarrow> arg gomap \<Rightarrow> bool" where
  "args_readable ins fl kinds anchor in_item as \<longleftrightarrow> (\<forall>(name, a) \<in> set as. \<not> AConst a \<longrightarrow>
     (\<exists>r. ARef a = Some r \<and> readable ins fl kinds anchor in_item r))"

lemma compileArg_readable:
  "compileArg ins fl ns y (Some a) itm = Inr x \<Longrightarrow> \<not> AConst x \<Longrightarrow>
     \<exists>r. ARef x = Some r \<and> readable ins fl (kinds_of ns) a (itm \<noteq> None) r"
  by (auto simp: compileArg_def dest: refType_readable split: sum.splits val.splits if_splits)

lemma good_args_readable:
  "args_readable ins fl (kinds_of ns) a (itm \<noteq> None) (good_args (compiled_args ins fl ns n (Some a) itm))"
  by (auto simp: args_readable_def good_args_def compiled_args_def List.map_filter_def split: sum.splits
      dest!: compileArg_readable [OF sym])

lemma good_args_keys:
  "arg_problems n cs = [] \<Longrightarrow> map fst (good_args cs) = map fst cs"
  by (induction cs) (auto simp: arg_problems_def good_args_def List.map_filter_simps split: sum.splits)

text \<open>What resolving leaves unchanged.\<close>

definition same0 :: "'a node0_scheme \<Rightarrow> 'b node0_scheme \<Rightarrow> bool" where
  "same0 m n \<longleftrightarrow> nstep m = nstep n \<and> nid m = nid n \<and> npath m = npath n \<and> nkind m = nkind n \<and> isItem m = isItem n \<and>
     attempts m = attempts n \<and> backoff m = backoff n \<and> fn m = fn n \<and> cap m = cap n \<and> nschema m = nschema n \<and>
     nbudget m = nbudget n \<and> ntokens m = ntokens n \<and> over m = over n \<and> cases m = cases n \<and> known m = known n"

definition same_node :: "node \<Rightarrow> node \<Rightarrow> bool" where
  "same_node m n \<longleftrightarrow> same0 m n \<and> rel_option same0 (item m) (item n)"

lemma same0_refl [simp]: "same0 n n"
  by (simp add: same0_def)

lemma same_node_refl [simp]: "same_node n n"
  by (simp add: same_node_def option.rel_refl)

lemma same0_trans: "same0 a b \<Longrightarrow> same0 b c \<Longrightarrow> same0 a c"
  by (simp add: same0_def)

lemma same0_kind: "same0 m n \<Longrightarrow> nkind m = nkind n \<and> nid m = nid n \<and> known m = known n \<and> nstep m = nstep n"
  by (simp add: same0_def)

lemma resolve0_same: "resolve0 ins fl ns n a itm = (m, ps) \<Longrightarrow> same0 m n"
  by (auto simp: resolve0_def same0_def Let_def split: if_splits option.splits prod.splits)

lemma resolve0_args:
  "resolve0 ins fl ns n a itm = (m, ps) \<Longrightarrow> args m = good_args (compiled_args ins fl ns n a itm)"
  by (auto simp: resolve0_def Let_def split: if_splits option.splits prod.splits)

lemma resolve0_problems:
  "resolve0 ins fl ns n a itm = (m, []) \<Longrightarrow> arg_problems n (compiled_args ins fl ns n a itm) = []"
  by (auto simp: resolve0_def Let_def split: if_splits option.splits prod.splits)

section \<open>Resolved steps\<close>

definition reads_ok :: "inputInfo gomap \<Rightarrow> flow \<Rightarrow> (string \<times> string) list \<Rightarrow> node \<Rightarrow> bool" where
  "reads_ok ins fl kinds n \<longleftrightarrow>
     args_readable ins fl kinds (nid n) False (args n) \<and> map fst (args n) = sortedKeys (Input (nstep n)) \<and>
     (nkind n = KindMap \<longrightarrow> (\<forall>r. over n = Some r \<longrightarrow> readable ins fl kinds (nid n) False r) \<and>
        (\<forall>m. item n = Some m \<longrightarrow> known m \<longrightarrow> args_readable ins fl kinds (nid n) True (args m) \<and>
           map fst (args m) = sortedKeys (Input (nstep m)))) \<and>
     (nkind n = KindBranch \<longrightarrow> (\<forall>c \<in> set (cases n). \<forall>r. cref c = Some r \<longrightarrow> cop c \<in> set conditionOps \<longrightarrow>
        readable ins fl kinds (nid n) False r))"

lemma args_readable_item: "args_readable ins fl kinds a b as \<Longrightarrow> args_readable ins fl kinds a True as"
  by (fastforce simp: args_readable_def readable_def)

lemma compiled_args_keys [simp]: "map fst (compiled_args ins fl ns n a itm) = sortedKeys (Input (nstep n))"
  by (simp add: compiled_args_def comp_def)

lemma resolve0_ok:
  assumes "resolve0 ins fl ns n (Some a) itm = (m, [])"
  shows "same0 m n" "args_readable ins fl (kinds_of ns) a (itm \<noteq> None) (args m)"
    "map fst (args m) = sortedKeys (Input (nstep m))"
proof -
  show s: "same0 m n" by (rule resolve0_same [OF assms])
  show "args_readable ins fl (kinds_of ns) a (itm \<noteq> None) (args m)"
    unfolding resolve0_args [OF assms] by (rule good_args_readable)
  show "map fst (args m) = sortedKeys (Input (nstep m))"
    using good_args_keys [OF resolve0_problems [OF assms]] same0_kind [OF s] by (simp add: resolve0_args [OF assms])
qed

lemma resolve0_item: "resolve0 ins fl ns n a itm = (m, ps) \<Longrightarrow> item m = item (n :: node)"
  by (auto simp: resolve0_def Let_def split: if_splits option.splits prod.splits)

lemma resolveMap_ok:
  assumes r: "resolveMap ins fl ns n = (m, [])" and ov: "over n \<noteq> None"
  shows "same_node m n \<and> args m = args n \<and>
    (\<forall>q. over n = Some q \<longrightarrow> readable ins fl (kinds_of ns) (nid n) False q) \<and>
    (\<forall>k. item m = Some k \<longrightarrow> known k \<longrightarrow> args_readable ins fl (kinds_of ns) (nid n) True (args k) \<and>
       map fst (args k) = sortedKeys (Input (nstep k)))"
proof -
  obtain q where q: "over n = Some q" using ov by auto
  from r obtain t where t: "refType ins fl ns q (Some (nid n)) None = Inr t"
    by (auto simp: resolveMap_def q split: sum.splits)
  note rd = refType_readable [OF t, simplified]
  have list: "isAny t \<or> Kind (the t) = KArray" using r by (auto simp: resolveMap_def q t split: if_splits)
  define elt where "elt = (if isAny t then Some AnyType else Items (the t))"
  show ?thesis
  proof (cases "item n")
    case None
    then have "m = n\<lparr>elem := elt\<rparr>" using r list by (auto simp: resolveMap_def q t elt_def Let_def split: if_splits)
    then show ?thesis using rd q None by (simp add: same_node_def same0_def)
  next
    case (Some it)
    show ?thesis
    proof (cases "known it")
      case False
      then have "m = n\<lparr>elem := elt\<rparr>" using r list Some by (auto simp: resolveMap_def q t elt_def Let_def split: if_splits)
      then show ?thesis using rd q Some False by (simp add: same_node_def same0_def)
    next
      case True
      obtain it' qs where z: "resolve0 ins fl ns it (Some (nid n)) elt = (it', qs)" by fastforce
      have m: "qs = [] \<and> (m = n\<lparr>elem := elt, item := Some it'\<rparr> \<or>
          (\<exists>out. m = n\<lparr>elem := elt, item := Some it', noutput := Some out\<rparr>))"
        using r list Some True z
        by (auto simp: resolveMap_def q t elt_def [symmetric] Let_def split: if_splits option.splits)
      note ok = resolve0_ok [OF z [unfolded m [THEN conjunct1]]]
      have "same_node m n" "args m = args n" "item m = Some it'"
        using m ok(1) Some by (auto simp: same_node_def same0_def)
      then show ?thesis using ok(3) args_readable_item [OF ok(2)] rd q by auto
    qed
  qed
qed

lemma resolveBranch_ok:
  assumes "resolveBranch ins fl ns n = []" and "c \<in> set (cases n)" and "cref c = Some r" and "cop c \<in> set conditionOps"
  shows "readable ins fl (kinds_of ns) (nid n) False r"
proof -
  from assms(2) obtain i where "i < length (cases n)" "cases n ! i = c" by (auto simp: in_set_conv_nth)
  then have "(i, c) \<in> set (List.enumerate 0 (cases n))" by (simp add: in_set_enumerate_eq)
  then have "resolve_case ins fl ns (nid n) (case_path (npath n) i @ ''.when'') c = []"
    using assms(1) by (force simp: resolveBranch_def)
  then obtain t where "refType ins fl ns r (Some (nid n)) None = Inr t"
    using assms(3,4) by (auto simp: resolve_case_def split: sum.splits)
  from refType_readable [OF this] show ?thesis by simp
qed

lemma resolve_ok:
  assumes r: "resolve ins fl ns n = (m, [])" and ov: "nkind n = KindMap \<Longrightarrow> over n \<noteq> None"
  shows "same_node m n \<and> reads_ok ins fl (kinds_of ns) m"
proof -
  obtain n1 ps where z: "resolve0 ins fl ns n (Some (nid n)) None = (n1, ps)" by fastforce
  have ps: "ps = []" using r by (auto simp: resolve_def z split: if_splits prod.splits)
  note ok = resolve0_ok [OF z [unfolded ps]] and it = resolve0_item [OF z]
  note k = same0_kind [OF ok(1)]
  have s: "same_node n1 n" using ok(1) it by (simp add: same_node_def option.rel_refl)
  show ?thesis
  proof (cases "nkind n = KindMap")
    case True
    then obtain qs where m: "resolveMap ins fl ns n1 = (m, qs)" and qs: "qs = []"
      using r by (auto simp: resolve_def z split: prod.splits)
    have "over n1 \<noteq> None" using ov [OF True] ok(1) by (simp add: same0_def)
    note mo = resolveMap_ok [OF m [unfolded qs] this]
    have mk: "nid m = nid n1" "nkind m = nkind n1" "nstep m = nstep n1" "over m = over n1"
      using mo by (simp_all add: same_node_def same0_def)
    have "same_node m n"
      using mo s by (auto simp: same_node_def intro: same0_trans elim!: option.rel_cases)
    then show ?thesis using mo ok(2,3) mk k True by (auto simp: reads_ok_def)
  next
    case notmap: False
    show ?thesis
    proof (cases "nkind n = KindBranch")
      case True
      then have m: "m = n1" "resolveBranch ins fl ns n1 = []" using r by (auto simp: resolve_def z ps)
      then show ?thesis
        using s ok(2,3) k True resolveBranch_ok [OF m(2)] by (auto simp: reads_ok_def)
    next
      case False
      then have "m = n1" using r notmap by (simp add: resolve_def z)
      then show ?thesis using s ok(2,3) k False notmap by (auto simp: reads_ok_def)
    qed
  qed
qed

lemma same_node_kinds: "list_all2 same_node ms ns \<Longrightarrow> kinds_of ms = kinds_of ns \<and> map nid ms = map nid ns"
  by (induction rule: list_all2_induct) (auto simp: kinds_of_def same_node_def same0_def)

lemma list_all2_mem: "list_all2 P xs ys \<Longrightarrow> x \<in> set xs \<Longrightarrow> \<exists>y \<in> set ys. P x y"
  by (induction rule: list_all2_induct) auto

lemma same_node_sel: "same_node m n \<Longrightarrow> nid m = nid n \<and> nkind m = nkind n \<and> known m = known n \<and> over m = over n \<and>
    nstep m = nstep n \<and> cases m = cases n \<and> npath m = npath n"
  by (simp add: same_node_def same0_def)

lemma replace_same: "distinct (map nid ns) \<Longrightarrow> n \<in> set ns \<Longrightarrow> same_node m n \<Longrightarrow> list_all2 same_node (replace_node ns m) ns"
  by (auto simp: replace_node_def list_all2_conv_all_nth in_set_conv_nth distinct_conv_nth same_node_def same0_def
      option.rel_refl)

lemma same_node_trans: "same_node a b \<Longrightarrow> same_node b c \<Longrightarrow> same_node a c"
  by (auto simp: same_node_def intro: same0_trans elim!: option.rel_cases)

lemma resolve_steps_ok:
  assumes "resolve_steps ins fl is ns = (ns', [])" and "distinct is" and "distinct (map nid ns)"
    and "set is \<subseteq> set (freach fl)" and "\<forall>n \<in> set ns. known n \<and> (nkind n = KindMap \<longrightarrow> over n \<noteq> None)"
  shows "list_all2 same_node ns' ns \<and>
    (\<forall>m \<in> set ns'. nid m \<in> set is \<longrightarrow> reads_ok ins fl (kinds_of ns) m) \<and>
    (\<forall>m \<in> set ns'. nid m \<notin> set is \<longrightarrow> m \<in> set ns)"
  using assms
proof (induction "is" arbitrary: ns)
  case Nil
  then show ?case by (simp add: list.rel_refl)
next
  case (Cons i "is")
  show ?case
  proof (cases "node_of ns i")
    case None
    then have ni: "i \<notin> set (map nid ns)" by (simp add: node_of_None)
    have IH: "list_all2 same_node ns' ns \<and>
      (\<forall>m \<in> set ns'. nid m \<in> set is \<longrightarrow> reads_ok ins fl (kinds_of ns) m) \<and>
      (\<forall>m \<in> set ns'. nid m \<notin> set is \<longrightarrow> m \<in> set ns)"
      using Cons.IH [of ns] Cons.prems None by simp
    then have "map nid ns' = map nid ns" using same_node_kinds by blast
    then have "nid m \<noteq> i" if "m \<in> set ns'" for m using ni that by (metis image_eqI list.set_map)
    then show ?thesis using IH by auto
  next
    case (Some n)
    note n = node_of_Some [OF Some]
    obtain n' ps where r: "resolve ins fl ns n = (n', ps)" by fastforce
    obtain ms qs where s: "resolve_steps ins fl is (replace_node ns n') = (ms, qs)" by fastforce
    have nil: "ps = []" "qs = []" "ms = ns'"
      using Cons.prems(1,4,5) n by (auto simp: Some r s)
    have ok: "same_node n' n" "reads_ok ins fl (kinds_of ns) n'"
      using resolve_ok [OF r [unfolded nil]] Cons.prems(5) n by auto
    have rep: "list_all2 same_node (replace_node ns n') ns" by (rule replace_same [OF Cons.prems(3) n [THEN conjunct1] ok(1)])
    note k = same_node_kinds [OF rep]
    have frame: "\<forall>m \<in> set (replace_node ns n'). known m \<and> (nkind m = KindMap \<longrightarrow> over m \<noteq> None)"
      using list_all2_mem [OF rep] same_node_sel Cons.prems(5) by metis
    have IH: "list_all2 same_node ns' (replace_node ns n') \<and>
      (\<forall>m \<in> set ns'. nid m \<in> set is \<longrightarrow> reads_ok ins fl (kinds_of ns) m) \<and>
      (\<forall>m \<in> set ns'. nid m \<notin> set is \<longrightarrow> m \<in> set (replace_node ns n'))"
      using Cons.IH [of "replace_node ns n'"] Cons.prems(2-4) s nil k frame by simp
    have "list_all2 same_node ns' ns"
      by (rule list_all2_trans [OF _ IH [THEN conjunct1] rep]) (rule same_node_trans)
    moreover have "reads_ok ins fl (kinds_of ns) m" if "m \<in> set ns'" "nid m = i" for m
    proof -
      have "m \<in> set (replace_node ns n')" using IH that Cons.prems(2) by auto
      then have "m = n'" using that n ok(1) by (auto simp: replace_node_def same_node_def same0_def)
      then show ?thesis using ok by simp
    qed
    moreover have "m \<in> set ns" if "m \<in> set ns'" "nid m \<noteq> i" "nid m \<notin> set is" for m
      using IH that n ok(1) by (auto simp: replace_node_def same_node_def same0_def split: if_splits)
    ultimately show ?thesis using IH by auto
  qed
qed

end
