(* ===== verification/Inputs.thy ===== *)
theory Inputs
  imports Fanout
begin

text \<open>
  What the run-time checks establish: an accepted set of run inputs fits the declared inputs, a
  capability call's input fits its contract, and a branch takes the first case that holds.
\<close>

section \<open>Declared inputs\<close>

text \<open>A declared input whose default, if it has one, fits its type.\<close>

definition input_ok :: "string \<times> inputInfo \<Rightarrow> bool" where
  "input_ok = (\<lambda>(name, i). identifierPattern name \<and> iname i = name \<and> Kind (itype i) \<noteq> KAny \<and>
     (hasDefault i \<longrightarrow> conforms (Some (itype i)) (idefault i)))"

lemma input_kind_not_any: "input_kind t = Some k \<Longrightarrow> k \<noteq> KAny"
  by (auto simp: input_kind_def split: if_splits)

lemma compileInput_ok:
  assumes "compileInput name s = ([], i)"
  shows "\<exists>j. i = Some j \<and> input_ok (name, j)"
proof -
  have n: "identifierPattern name"
    using assms by (cases "identifierPattern name") (simp_all add: compileInput_def Let_def)
  then obtain k where k: "input_kind (i_Type s) = Some k"
    using assms by (cases "input_kind (i_Type s)") (auto simp: compileInput_def Let_def split: if_splits)
  obtain es vs where e: "enum_items (''inputs.'' @ name) k 0 (i_Enum s) = (es, vs)" by fastforce
  define t where "t = Type k [] [] False None vs (i_Minimum s) (i_Maximum s) None (i_MaxLength s) None None []"
  define dd where "dd = (if written (i_Default s) then
             (case nodeValue (i_Default s) of Inl e \<Rightarrow> (err_prob ((''inputs.'' @ name) @ ''.default'') e, VNil)
              | Inr v \<Rightarrow> (case checkValue (Some t) v of Some e \<Rightarrow> (err_prob ((''inputs.'' @ name) @ ''.default'') e, v) | None \<Rightarrow> ([], v)))
           else ([], VNil))"
  obtain ds d where d: "dd = (ds, d)" by fastforce
  have i: "ds = []" "i = Some \<lparr>iname = name, spec = s, itype = t, idefault = d, hasDefault = written (i_Default s)\<rparr>"
    using assms unfolding compileInput_def Let_def n [THEN eqTrueI] not_True_eq_False if_False k e prod.case option.case
      t_def [symmetric] dd_def [symmetric] d prod.inject append_is_Nil_conv
    by - (elim conjE, assumption, elim conjE, erule sym)
  have "conforms (Some t) d" if "written (i_Default s)"
    using d i(1) that
    by (auto simp: dd_def err_prob_def checkValue_def checkAt_conforms split: sum.splits option.splits)
  then show ?thesis using n input_kind_not_any [OF k] by (simp add: input_ok_def i t_def)
qed

lemma set_map_filter: "x \<in> set (List.map_filter f xs) \<longleftrightarrow> (\<exists>y \<in> set xs. f y = Some x)"
  by (induction xs) (auto simp: List.map_filter_simps split: option.splits)

lemma checkInputs_ok:
  assumes "checkInputs m = ([], ins)"
  shows "\<forall>p \<in> set ins. input_ok p" and "\<forall>(name, i) \<in> set ins. map_of ins name = Some i"
proof -
  define rs where "rs = map (\<lambda>name. (name, compileInput name (the (map_of m name)))) (sortedKeys m)"
  have rs: "concat (map (fst \<circ> snd) rs) = []" "ins = List.map_filter (\<lambda>(name, _, i). map_option (Pair name) i) rs"
    using assms by (simp_all add: checkInputs_def rs_def [symmetric] Let_def)
  have each: "\<exists>s. compileInput name s = ([], Some i)" if mem: "(name, i) \<in> set ins" for name i
  proof -
    obtain q where q: "q \<in> set rs" "(\<lambda>(name, _, i). map_option (Pair name) i) q = Some (name, i)"
      using mem unfolding rs(2) set_map_filter by blast
    then obtain ps s where "q = (name, ps, Some i)" "(ps, Some i) = compileInput name s"
      by (auto simp: rs_def split: prod.splits)
    moreover have "fst (snd q) = []" using q(1) rs(1) by auto
    ultimately show ?thesis by (metis fst_conv snd_conv)
  qed
  show "\<forall>p \<in> set ins. input_ok p"
    using each compileInput_ok by fastforce
  have fst_ins: "map fst (List.map_filter (\<lambda>(name, _, i). map_option (Pair name) i) xs) =
      map fst (filter (\<lambda>(name, _, i). i \<noteq> None) xs)" for xs :: "(string \<times> problem list \<times> inputInfo option) list"
    by (induction xs) (auto simp: List.map_filter_simps split: option.splits)
  have "distinct (map fst rs)" by (simp add: rs_def comp_def)
  then have "distinct (map fst ins)" unfolding rs(2) fst_ins by (rule distinct_map_filter)
  then show "\<forall>(name, i) \<in> set ins. map_of ins name = Some i" by simp
qed

section \<open>Accepted run inputs\<close>

lemma map_err_keys:
  assumes "map_err f xs = Inr ys" and "\<And>x p. f x = Inr p \<Longrightarrow> fst p = x"
  shows "map fst ys = xs"
  using assms by (induction xs arbitrary: ys) (auto split: sum.splits)

lemma given_value_key: "given_value dc ins values n = Inr p \<Longrightarrow> fst p = n \<and> hasKey ins n"
  by (auto simp: given_value_def split: if_splits sum.splits)

lemma given_text_key: "given_text dc ins values texts n = Inr p \<Longrightarrow> fst p = n \<and> hasKey ins n \<and> \<not> hasKey values n"
  by (auto simp: given_text_def hasKey_def split: if_splits sum.splits option.splits)

lemma default_input_Some: "default_input ins given n = Inr (Some p) \<Longrightarrow>
    \<exists>i. p = (n, idefault i) \<and> map_of ins n = Some i \<and> hasDefault i \<and> \<not> hasKey given n"
  by (auto simp: default_input_def split: if_splits option.splits)

lemma default_input_None: "default_input ins given n = Inr None \<Longrightarrow> map_of ins n = Some i \<Longrightarrow>
    i_Required (spec i) \<or> hasDefault i \<Longrightarrow> hasKey given n"
  by (auto simp: default_input_def split: if_splits)

lemma map_err_list: "map_err f xs = Inr ys \<Longrightarrow> x \<in> set xs \<Longrightarrow> \<exists>y \<in> set ys. f x = Inr y"
  by (induction xs arbitrary: ys) (auto split: sum.splits)

lemma map_filter_id [simp]:
  "List.map_filter id [] = []" "List.map_filter id (None # xs) = List.map_filter id xs"
  "List.map_filter id (Some x # xs) = x # List.map_filter id xs"
  by (simp_all add: List.map_filter_simps)

lemma default_keys:
  assumes "map_err (default_input ins given) ns = Inr ds" and "distinct ns"
  shows "distinct (map fst (List.map_filter id ds))"
    "name \<in> fst ` set (List.map_filter id ds) \<Longrightarrow> name \<in> set ns \<and> \<not> hasKey given name"
proof -
  have "distinct (map fst (List.map_filter id ds)) \<and> fst ` set (List.map_filter id ds) \<subseteq> {n \<in> set ns. \<not> hasKey given n}"
    using assms
  proof (induction ns arbitrary: ds)
    case Nil
    then show ?case by simp
  next
    case (Cons n ns)
    then obtain d ds' where d: "default_input ins given n = Inr d" "map_err (default_input ins given) ns = Inr ds'" "ds = d # ds'"
      by (auto split: sum.splits)
    define r where "r = List.map_filter id ds'"
    have "distinct ns" using Cons.prems(2) by simp
    then have IH: "distinct (map fst r)" "fst ` set r \<subseteq> {n \<in> set ns. \<not> hasKey given n}"
      using Cons.IH [OF d(2)] unfolding r_def by blast+
    show ?case
    proof (cases d)
      case None
      then have e: "List.map_filter id ds = r" by (simp only: d(3) r_def map_filter_id)
      show ?thesis unfolding e using IH by auto
    next
      case (Some p)
      then have n: "fst p = n" "\<not> hasKey given n" using default_input_Some [of ins given n p] d(1) by auto
      have e: "List.map_filter id ds = p # r" using Some by (simp only: d(3) r_def map_filter_id)
      show ?thesis unfolding e using IH n Cons.prems(2) by auto
    qed
  qed
  then show "distinct (map fst (List.map_filter id ds))"
    "name \<in> fst ` set (List.map_filter id ds) \<Longrightarrow> name \<in> set ns \<and> \<not> hasKey given name" by auto
qed

text \<open>Accepted inputs are declared, fit their types, and include every required input.\<close>

lemma AcceptInputs_ok:
  assumes a: "AcceptInputs dc ins values texts = Inr m"
    and ins: "\<forall>p \<in> set ins. input_ok p" "\<forall>(name, i) \<in> set ins. map_of ins name = Some i"
  shows "\<forall>(name, x) \<in> set m. \<exists>i. map_of ins name = Some i \<and> conforms (Some (itype i)) x"
    and "map_of ins name = Some i \<Longrightarrow> i_Required (spec i) \<or> hasDefault i \<Longrightarrow> hasKey m name"
    and "distinct (map fst m)"
proof -
  obtain g1 where g1: "map_err (given_value dc ins values) (sortedKeys values) = Inr g1"
    using a by (cases "map_err (given_value dc ins values) (sortedKeys values)") (simp_all add: AcceptInputs_def)
  obtain g2 where g2: "map_err (given_text dc ins values texts) (sortedKeys texts) = Inr g2"
    using a g1 by (cases "map_err (given_text dc ins values texts) (sortedKeys texts)") (simp_all add: AcceptInputs_def)
  define given where "given = g1 @ g2"
  define chk where "chk = first_err (\<lambda>name. map_option (input_err name)
        (checkValue (Some (itype (the (map_of ins name)))) (the (map_of given name)))) (sortedKeys given)"
  have acc: "(case chk of Some e \<Rightarrow> Inl e | None \<Rightarrow> (case map_err (default_input ins given) (sortedKeys ins) of Inl e \<Rightarrow> Inl e
     | Inr ds \<Rightarrow> Inr (given @ List.map_filter id ds))) = Inr m"
    using a unfolding AcceptInputs_def g1 g2 sum.case Let_def given_def [symmetric] chk_def [symmetric] .
  obtain ds where ds: "map_err (default_input ins given) (sortedKeys ins) = Inr ds"
    and check: "first_err (\<lambda>name. map_option (input_err name)
        (checkValue (Some (itype (the (map_of ins name)))) (the (map_of given name)))) (sortedKeys given) = None"
    and m: "m = given @ List.map_filter id ds"
    using that acc unfolding chk_def [symmetric] by (simp split: option.splits sum.splits)
  have k1: "map fst g1 = sortedKeys values"
    by (rule map_err_keys [OF g1]) (simp add: given_value_key)
  have k2: "map fst g2 = sortedKeys texts"
    by (rule map_err_keys [OF g2]) (simp add: given_text_key)
  have new: "\<not> hasKey values n \<and> hasKey ins n" if "n \<in> fst ` set g2" for n
  proof -
    from that obtain p where p: "p \<in> set g2" "n = fst p" by blast
    from map_err_mem [OF g2 p(1)] show ?thesis unfolding p(2) by (auto dest: given_text_key)
  qed
  have old: "hasKey ins n" if "n \<in> fst ` set g1" for n
  proof -
    from that obtain p where p: "p \<in> set g1" "n = fst p" by blast
    from map_err_mem [OF g1 p(1)] show ?thesis unfolding p(2) by (auto dest: given_value_key)
  qed
  have disj: "fst ` set g1 \<inter> fst ` set g2 = {}"
    using new k1 by (auto simp: hasKey_iff set_sortedKeys simp flip: set_map)
  have dist: "distinct (map fst given)"
    using k1 k2 disj unfolding given_def map_append distinct_append by (simp flip: set_map)
  have fits: "\<exists>i. map_of ins n = Some i \<and> conforms (Some (itype i)) x" if x: "(n, x) \<in> set given" for n x
  proof -
    have g: "map_of given n = Some x" using x dist by simp
    have "hasKey ins n" using x new old by (force simp: given_def)
    then obtain i where i: "map_of ins n = Some i" by (auto simp: hasKey_def)
    have "n \<in> set (sortedKeys given)" using x by (force simp: set_sortedKeys)
    then have "conforms (Some (itype (the (map_of ins n)))) (the (map_of given n))"
      using check by (simp add: first_err_None checkValue_def checkAt_conforms)
    then show ?thesis using i g by simp
  qed
  have dflt: "\<exists>i. map_of ins n = Some i \<and> conforms (Some (itype i)) x" if x: "(n, x) \<in> set (List.map_filter id ds)" for n x
  proof -
    have "Some (n, x) \<in> set ds" using x by (simp add: set_map_filter)
    from map_err_mem [OF ds this] obtain i where "x = idefault i" "map_of ins n = Some i" "hasDefault i"
      using default_input_Some by blast
    moreover from this have "input_ok (n, i)" using ins(1) map_of_SomeD by fastforce
    ultimately show ?thesis by (simp add: input_ok_def)
  qed
  show "\<forall>(name, x) \<in> set m. \<exists>i. map_of ins name = Some i \<and> conforms (Some (itype i)) x"
    using fits dflt m by auto
  show "distinct (map fst m)"
    using dist default_keys [OF ds distinct_sortedKeys] m by (auto simp: hasKey_iff)
  show "hasKey m name" if i: "map_of ins name = Some i" "i_Required (spec i) \<or> hasDefault i"
  proof -
    have "name \<in> set (sortedKeys ins)" using map_of_SomeD [OF i(1)] by (force simp: set_sortedKeys)
    from map_err_list [OF ds this] obtain d where d: "d \<in> set ds" "default_input ins given name = Inr d" by blast
    show ?thesis
    proof (cases d)
      case None
      then show ?thesis using default_input_None [OF _ i] d m by (auto simp: hasKey_iff)
    next
      case (Some p)
      then have "p \<in> set (List.map_filter id ds)" "fst p = name"
        using d default_input_Some [of ins given name p] by (auto simp: set_map_filter)
      then show ?thesis using m by (force simp: hasKey_iff)
    qed
  qed
qed

section \<open>Branch decisions\<close>

text \<open>
  Two cases that name the same reference read the same value, so a decision is the first case
  that holds of what its reference reads, and the default when none does.
\<close>

lemma case_ok_ref: "case_ok c \<Longrightarrow> parseRef (Raw (case_ref_of c)) = Inr (case_ref_of c)"
proof -
  assume "case_ok c"
  then obtain r s where r: "cref c = Some r" "parseRef s = Inr r" unfolding case_ok_def by blast
  show ?thesis using parseRef_sound [OF r(2)] r by (simp add: case_ref_of_def)
qed

lemma fold_reads:
  "\<forall>c \<in> set cs. case_ok c \<Longrightarrow> case_ok c0 \<Longrightarrow>
   map_of (fold (\<lambda>c m. put (Raw (case_ref_of c)) (rd (case_ref_of c)) m) cs m) (Raw (case_ref_of c0)) =
     (if case_ref_of c0 \<in> case_ref_of ` set cs then Some (rd (case_ref_of c0)) else map_of m (Raw (case_ref_of c0)))"
proof (induction cs arbitrary: m)
  case (Cons c cs)
  have "Raw (case_ref_of c0) = Raw (case_ref_of c) \<longleftrightarrow> case_ref_of c0 = case_ref_of c"
    using Cons.prems case_ok_ref [of c] case_ok_ref [of c0] by force
  then show ?case using Cons by (auto simp: put_lookup)
qed simp

lemma first_case_find:
  "(\<And>c. c \<in> set cs \<Longrightarrow> lookup_val reads (Raw (case_ref_of c)) = rd (case_ref_of c)) \<Longrightarrow>
   first_case k reads cs = find (\<lambda>(_, c). evaluate c (rd (case_ref_of c))) (List.enumerate k cs)"
  by (induction k reads cs rule: first_case.induct) auto

lemma decide_spec:
  assumes "\<forall>c \<in> set (cases n). case_ok c"
  shows "case find (\<lambda>(_, c). evaluate c (rd (case_ref_of c))) (List.enumerate 1 (cases n)) of
      Some (k, c) \<Rightarrow> d_Case (decide n rd) = k \<and> d_Next (decide n rd) = cnext c
    | None \<Rightarrow> d_Case (decide n rd) = 0 \<and> d_Next (decide n rd) = Default (nstep n)"
proof -
  define reads where "reads = fold (\<lambda>c m. put (Raw (case_ref_of c)) (rd (case_ref_of c)) m) (cases n) []"
  have "lookup_val reads (Raw (case_ref_of c)) = rd (case_ref_of c)" if "c \<in> set (cases n)" for c
    using fold_reads [OF assms, of c rd "[]"] that assms by (simp add: lookup_val_def reads_def)
  from first_case_find [of "cases n" reads rd 1, OF this] show ?thesis
    by (simp add: decide_def reads_def [symmetric] Let_def split: option.splits prod.splits)
qed

section \<open>Capability calls\<close>

text \<open>An input the run-time check lets through fits the contract and leaves nothing absent.\<close>

lemma CapabilityInput_ok:
  assumes "CapabilityInput v i inputs steps = Inr out"
  shows "\<exists>n c. step_of v i = Some n \<and> cap n = Some c \<and> nkind n = KindCapability \<and>
    conforms (Some (orEmptyObject (CInput c))) (VObj out) \<and> (\<forall>(name, x) \<in> set out. x \<noteq> VNil)"
proof -
  obtain n c where n: "capabilityNode v i = Inr (n, c)" using assms by (auto simp: CapabilityInput_def split: sum.splits)
  obtain res where r: "StepInput v i inputs steps = Inr res"
    using assms n by (auto simp: CapabilityInput_def split: sum.splits)
  have o: "out = filter (\<lambda>(name, x). x \<noteq> VNil) res" "checkValue (Some (orEmptyObject (CInput c))) (VObj out) = None"
    using assms n r by (auto simp: CapabilityInput_def Let_def split: option.splits)
  have "step_of v i = Some n \<and> cap n = Some c \<and> nkind n = KindCapability"
    using n by (auto simp: capabilityNode_def split: option.splits if_splits)
  then show ?thesis using o by (auto simp: checkValue_def checkAt_conforms)
qed

section \<open>A map's output does not depend on the order of its outcomes\<close>

lemma mapOutput_perm:
  assumes "mset os = mset os'"
  shows "(\<exists>e. mapOutput xs os = Inl e) \<and> (\<exists>e. mapOutput xs os' = Inl e) \<or> mapOutput xs os = mapOutput xs os'"
proof -
  have i: "mset (map Index os) = mset (map Index os')" using assms by simp
  have d: "distinct (map Index os) \<longleftrightarrow> distinct (map Index os')"
    using mset_eq_imp_distinct_iff [OF i] .
  have s: "set os = set os'" using assms by (rule mset_eq_setD)
  have ok: "outcomes_ok xs os \<longleftrightarrow> outcomes_ok xs os'" by (simp only: outcomes_ok_def d s set_map)
  show ?thesis
  proof (cases "outcomes_ok xs os")
    case True
    then have "sort_key Index os = sort_key Index os'"
      using assms by (intro sort_key_inj_key_eq) (auto simp: outcomes_ok_def distinct_map)
    then show ?thesis by (simp add: mapOutput_def)
  next
    case False
    have "mapOutput xs os \<noteq> Inr x" "mapOutput xs os' \<noteq> Inr x" for x
      using False ok mapOutput_iff by blast+
    then show ?thesis by (meson sumE)
  qed
qed

end
