(* ===== verification/Running.thy ===== *)
theory Running
  imports Resolved
begin

text \<open>
  Running a validated definition: from the start, each step but a branch records an output and
  goes to its next step, and a branch goes where it decides. The step relation stands for the
  Workflow Runtime and the simulator alike, which choose what a step outputs; the graph facts
  of a validated definition bound every such run and make every reference it reads available.
\<close>

section \<open>The plan of a validated definition\<close>

text \<open>
  What validation establishes of the plan: an accepted graph over its steps, and for each step
  the compile-time facts and readable references.
\<close>

definition plan_ok :: "host \<Rightarrow> definition_ \<Rightarrow> validated \<Rightarrow> flow \<Rightarrow> bool" where
  "plan_ok h d v fl \<longleftrightarrow> vdefinition v = d \<and> vorder v = forder fl \<and> fstart fl = Start d \<and>
     distinct (map nid (vsteps v)) \<and> (\<forall>n \<in> set (vsteps v). identifierPattern (nid n)) \<and>
     flow_ok fl (map nid (vsteps v)) \<and>
     (\<forall>n \<in> set (vsteps v). \<forall>t \<in> snd ` set (edges n). edge (fgraph fl) (nid n) t) \<and>
     (\<forall>n \<in> set (vsteps v). (\<exists>n0. node_ok (validator_of h d) n0 \<and> same_node n n0) \<and>
        reads_ok (vinputs v) fl (kinds_of (vsteps v)) n) \<and>
     snd (checkInputs (Inputs d)) = vinputs v \<and> fst (checkInputs (Inputs d)) = [] \<and>
     checkLimits (Limits d) = ([], vrunlimits v, True)"

lemma checkLimits_flag: "checkLimits l = (ps, rl, ok) \<Longrightarrow> ok \<longleftrightarrow> ps = []"
  by (auto simp: checkLimits_def Let_def prob_def split: option.splits prod.splits)

lemma edges_same: "same_node m n \<Longrightarrow> edges m = edges n"
proof -
  assume s: "same_node m n"
  have e: "nkind m = nkind n" "npath m = npath n" "nstep m = nstep n" using same_node_sel [OF s] by simp_all
  show ?thesis unfolding edges_def Let_def e ..
qed

lemma item_ok_over: "item_ok v n \<Longrightarrow> nkind n = KindMap \<Longrightarrow> over n \<noteq> None"
  unfolding item_ok_def by (drule conjunct1, drule (1) mp) (elim conjE exE, simp)

lemma node_ok_known: "node_ok v n \<Longrightarrow> known n"
  unfolding node_ok_def compiled_ok_def by (elim conjE)

lemma node_ok_frame: "node_ok v n \<Longrightarrow> known n \<and> (nkind n = KindMap \<longrightarrow> over n \<noteq> None)"
  using node_ok_known item_ok_over unfolding node_ok_def by blast

text \<open>The parts of a run of the validator that found no problem.\<close>

lemma run_parts:
  assumes "run h d = Some ([], v)"
  obtains ns ld fl outs where "checkLimits (Limits d) = ([], vrunlimits v, True)" "checkInputs (Inputs d) = ([], vinputs v)"
    "collectSteps (validator_of h d) = (ns, [], ld)" "checkGraph (Start d) ns = Some ([], fl)"
    "(if facyclic fl then resolve_steps (vinputs v) fl (forder fl) ns else (ns, [])) = (vsteps v, [])"
    "vdefinition v = d" "vorder v = forder fl" "checkOutputs (vinputs v) fl (vsteps v) (Outputs d) = ([], outs)"
proof -
  obtain lps rl ok where l: "checkLimits (Limits d) = (lps, rl, ok)" using prod_cases3 by blast
  obtain ips ins where i: "checkInputs (Inputs d) = (ips, ins)" by fastforce
  obtain ns sps ld where c: "collectSteps (validator_of h d) = (ns, sps, ld)" using prod_cases3 by blast
  have "checkGraph (Start d) ns \<noteq> None"
  proof
    assume none: "checkGraph (Start d) ns = None"
    show False using assms unfolding run_def l i c prod.case Let_def none option.case by simp
  qed
  then obtain gps fl where g: "checkGraph (Start d) ns = Some (gps, fl)" by fastforce
  obtain ns' rps where r: "(if facyclic fl then resolve_steps ins fl (forder fl) ns else (ns, [])) = (ns', rps)" by fastforce
  obtain ops outs where o: "checkOutputs ins fl ns' (Outputs d) = (ops, outs)" by fastforce
  note run = assms [unfolded run_def l i c prod.case Let_def g option.case r o]
  note run = run [unfolded option.inject prod.inject append_is_Nil_conv]
  have nil: "lps = []" "ips = []" "sps = []" "gps = []" "rps = []" "ops = []" using run by - (elim conjE, assumption)+
  have v: "v = \<lparr>vdefinition = d, vfiles = lfiles ld, vsteps = ns', vorder = forder fl, vinputs = ins, vrunlimits = rl, voutputs = outs\<rparr>"
    using run by - (elim conjE, erule sym)
  have "ok" using checkLimits_flag [OF l] nil by simp
  then show thesis using l i c g r o unfolding nil by (intro that [of ns ld fl outs]) (simp_all add: v cong del: if_weak_cong split del: if_split)
qed

lemma run_ok:
  assumes "run h d = Some ([], v)"
  shows "\<exists>fl. plan_ok h d v fl"
proof -
  obtain ns ld fl outs where lim: "checkLimits (Limits d) = ([], vrunlimits v, True)" and i: "checkInputs (Inputs d) = ([], vinputs v)"
    and c: "collectSteps (validator_of h d) = (ns, [], ld)" and g: "checkGraph (Start d) ns = Some ([], fl)"
    and r: "(if facyclic fl then resolve_steps (vinputs v) fl (forder fl) ns else (ns, [])) = (vsteps v, [])"
    and v: "vdefinition v = d" "vorder v = forder fl"
    using run_parts [OF assms] .
  note steps = collectSteps_ok [OF c]
  note graph = checkGraph_ok [OF steps(2) g]
  have fl: "facyclic fl" "set (forder fl) = set (map nid ns)" "set (freach fl) = set (map nid ns)" "distinct (forder fl)"
    using graph(1) by (simp_all add: flow_ok_def)
  have frame: "\<forall>n \<in> set ns. known n \<and> (nkind n = KindMap \<longrightarrow> over n \<noteq> None)"
    using steps(1) node_ok_frame by blast
  have res: "resolve_steps (vinputs v) fl (forder fl) ns = (vsteps v, [])" using r fl(1) by simp
  have same: "list_all2 same_node (vsteps v) ns" and reads: "\<forall>m \<in> set (vsteps v). nid m \<in> set (forder fl) \<longrightarrow> reads_ok (vinputs v) fl (kinds_of ns) m"
    using resolve_steps_ok [OF res fl(4) steps(2) _ frame] fl(2,3) by auto
  note k = same_node_kinds [OF same]
  have ids: "nid m \<in> set (forder fl)" if "m \<in> set (vsteps v)" for m
    using that k fl(2) by (metis image_eqI list.set_map)
  have ed: "edge (fgraph fl) (nid m) t" if m: "m \<in> set (vsteps v)" and t: "t \<in> snd ` set (edges m)" for m t
  proof -
    obtain n where n: "n \<in> set ns" "same_node m n" using list_all2_mem [OF same m] by blast
    then show ?thesis
      using node_edges [OF steps(2) graph(4) n(1), of t] t same_node_sel [OF n(2)] by (simp add: graph(2) edges_same)
  qed
  have each: "(\<exists>n0. node_ok (validator_of h d) n0 \<and> same_node m n0) \<and> reads_ok (vinputs v) fl (kinds_of (vsteps v)) m \<and> identifierPattern (nid m)"
    if m: "m \<in> set (vsteps v)" for m
  proof -
    obtain n where n: "n \<in> set ns" "same_node m n" using list_all2_mem [OF same m] by blast
    then show ?thesis using steps(1) reads ids [OF m] m k same_node_sel [OF n(2)] by metis
  qed
  have "plan_ok h d v fl"
    unfolding plan_ok_def v using steps(2) graph(1,3) k ed each by (simp add: i lim)
  then show ?thesis by blast
qed

section \<open>Runs\<close>

text \<open>
  \<open>reaches v inputs trace i st\<close>: a run has executed the steps of \<open>trace\<close>, in this order, has
  recorded the outputs \<open>st\<close>, and is about to execute step \<open>i\<close>, or has ended when \<open>i\<close> is empty.
\<close>

inductive reaches :: "validated \<Rightarrow> val gomap \<Rightarrow> string list \<Rightarrow> string \<Rightarrow> val gomap \<Rightarrow> bool" for v inputs where
  start: "reaches v inputs [] (Start (vdefinition v)) []"
| step: "reaches v inputs trace i st \<Longrightarrow> i \<noteq> [] \<Longrightarrow> step_of v i = Some n \<Longrightarrow> nkind n \<noteq> KindBranch \<Longrightarrow>
    reaches v inputs (trace @ [i]) (Next (nstep n)) (put i x st)"
| branch: "reaches v inputs trace i st \<Longrightarrow> i \<noteq> [] \<Longrightarrow> Branch v i inputs st = Inr b \<Longrightarrow>
    reaches v inputs (trace @ [i]) (d_Next b) st"

inductive_cases reaches_end: "reaches v inputs trace i st"

text \<open>The trace is a path of the graph, and every executed step but a branch has its output recorded.\<close>

lemma first_case_mem: "first_case i reads cs = Some (k, c) \<Longrightarrow> c \<in> set cs"
  by (induction i reads cs rule: first_case.induct) (auto split: if_splits)

lemma decide_next: "d_Next (decide n rd) \<in> insert (Default (nstep n)) (cnext ` set (cases n))"
  by (auto simp: decide_def Let_def dest: first_case_mem split: option.splits)

lemma branch_edges:
  assumes "nkind n = KindBranch" and "map cnext (cases n) = map CNext (Cases (nstep n))"
    and "t \<in> insert (Default (nstep n)) (cnext ` set (cases n))" and "t \<noteq> []"
  shows "t \<in> snd ` set (edges n)"
proof (cases "t = Default (nstep n)")
  case True
  with assms(1,4) show ?thesis by (simp add: edges_def Let_def)
next
  case False
  then have "t \<in> set (map CNext (Cases (nstep n)))" using assms(2,3) by (metis image_eqI insertE list.set_map)
  then obtain i where i: "i < length (Cases (nstep n))" "CNext (Cases (nstep n) ! i) = t" by (auto simp: in_set_conv_nth)
  then have "(i, Cases (nstep n) ! i) \<in> set (List.enumerate 0 (Cases (nstep n)))" by (simp add: in_set_enumerate_eq)
  then show ?thesis
    using assms(1,4) i(2) by (force simp: edges_def Let_def List.map_filter_def image_iff)
qed

lemma plan_node:
  assumes "plan_ok h d v fl" and "step_of v i = Some n"
  shows "n \<in> set (vsteps v)" "nid n = i" "reads_ok (vinputs v) fl (kinds_of (vsteps v)) n"
    "\<exists>n0. node_ok (validator_of h d) n0 \<and> same_node n n0"
  using assms node_of_Some [of "vsteps v" i n] by (auto simp: plan_ok_def step_of_def)

lemma plan_branch:
  assumes "plan_ok h d v fl" and "step_of v i = Some n" and "nkind n = KindBranch"
  shows "map cnext (cases n) = map CNext (Cases (nstep n))" "\<forall>c \<in> set (cases n). case_ok c"
proof -
  obtain n0 where k: "node_ok (validator_of h d) n0" "same_node n n0" using plan_node(4) [OF assms(1,2)] by blast
  note s = same_node_sel [OF k(2)]
  have "compiled_ok (validator_of h d) n0" "nkind n0 = KindBranch" using k(1) s assms(3) by (simp_all add: node_ok_def)
  then show "map cnext (cases n) = map CNext (Cases (nstep n))" "\<forall>c \<in> set (cases n). case_ok c"
    using s by (simp_all add: compiled_ok_def)
qed

definition run_inv :: "validated \<Rightarrow> flow \<Rightarrow> string list \<Rightarrow> string \<Rightarrow> val gomap \<Rightarrow> bool" where
  "run_inv v fl trace i st \<longleftrightarrow> (i \<noteq> [] \<longrightarrow> i \<in> set (map nid (vsteps v)) \<and> successively (edge (fgraph fl)) (trace @ [i]) \<and>
       hd (trace @ [i]) = fstart fl) \<and>
     (trace \<noteq> [] \<longrightarrow> hd trace = fstart fl) \<and> successively (edge (fgraph fl)) trace \<and> set trace \<subseteq> set (map nid (vsteps v)) \<and>
     (\<forall>a \<in> set trace. \<forall>k. map_of (kinds_of (vsteps v)) a = Some k \<longrightarrow> k \<noteq> KindBranch \<longrightarrow> hasKey st a)"

lemma hasKey_put: "hasKey (put k x m) j \<longleftrightarrow> j = k \<or> hasKey m j"
  by (simp add: hasKey_def put_lookup)

lemma run_inv_next:
  assumes p: "plan_ok h d v fl" and inv: "run_inv v fl trace i st" and "i \<noteq> []" and n: "step_of v i = Some n"
    and t: "t \<noteq> [] \<Longrightarrow> t \<in> snd ` set (edges n)"
    and st: "\<And>a. hasKey st a \<Longrightarrow> hasKey st' a" "nkind n \<noteq> KindBranch \<Longrightarrow> hasKey st' i"
  shows "run_inv v fl (trace @ [i]) t st'"
proof -
  note nn = plan_node [OF p n]
  have e: "edge (fgraph fl) i t" if "t \<noteq> []" using p t [OF that] nn by (auto simp: plan_ok_def)
  then have "t \<in> set (map nid (vsteps v))" if "t \<noteq> []" using p that unfolding plan_ok_def flow_ok_def by blast
  moreover have "map_of (kinds_of (vsteps v)) i = Some (nkind n)" using n by (simp add: kinds_of_node step_of_def)
  ultimately show ?thesis
    using inv assms(3) e st by (auto simp: run_inv_def successively_append_iff hd_append)
qed

lemma reaches_inv:
  assumes p: "plan_ok h d v fl" and r: "reaches v inputs trace i st"
  shows "run_inv v fl trace i st"
  using r
proof induction
  case start
  have d: "vdefinition v = d" and s: "fstart fl = Start d" using p by (simp_all add: plan_ok_def)
  have "fstart fl \<in> set (map nid (vsteps v))" using p unfolding plan_ok_def flow_ok_def by iprover
  then show ?case unfolding d by (simp add: run_inv_def s)
next
  case (step trace i st n x)
  show ?case
  proof (rule run_inv_next [OF p step.IH step.hyps(2,3)])
    assume "Next (nstep n) \<noteq> []"
    then show "Next (nstep n) \<in> snd ` set (edges n)" using step.hyps(4) by (simp add: edges_def Let_def)
  qed (auto simp: hasKey_put)
next
  case (branch trace i st b)
  obtain n where n: "step_of v i = Some n" "nkind n = KindBranch" "b = decide n (\<lambda>r. resolveRef r inputs st VNil)"
    using branch.hyps(3) by (auto simp: Branch_def split: option.splits if_splits)
  show ?case
  proof (rule run_inv_next [OF p branch.IH branch.hyps(2) n(1)])
    assume "d_Next b \<noteq> []"
    with branch_edges [OF n(2) plan_branch(1) [OF p n(1,2)]] decide_next show "d_Next b \<in> snd ` set (edges n)"
      unfolding n(3) by blast
  qed (use n in auto)
qed

section \<open>What every run of a validated definition has\<close>

lemma successively_trancl: "successively R (xs @ a # ys @ [b]) \<Longrightarrow> R\<^sup>+\<^sup>+ a b"
proof (induction ys arbitrary: xs a)
  case Nil
  then show ?case by (auto simp: successively_append_iff)
next
  case (Cons y ys)
  have "R a y" "R\<^sup>+\<^sup>+ y b" using Cons.prems Cons.IH [of "xs @ [a]" y] by (simp_all add: successively_append_iff)
  then show ?case by (rule tranclp_into_tranclp2)
qed

lemma successively_distinct: "successively R xs \<Longrightarrow> acyclicP R \<Longrightarrow> distinct xs"
proof (induction xs rule: rev_induct)
  case (snoc b xs)
  have "b \<notin> set xs"
  proof
    assume "b \<in> set xs"
    then obtain us vs where "xs = us @ b # vs" by (auto dest: split_list)
    then have "R\<^sup>+\<^sup>+ b b" using successively_trancl [of R us b vs b] snoc.prems by simp
    then have "(b, b) \<in> {(x, y). R x y}\<^sup>+" by (simp add: tranclp_unfold)
    then show False using snoc.prems(2) unfolding acyclic_def by blast
  qed
  with snoc show ?case by (simp add: successively_append_iff)
qed simp

lemma plan_acyclic: "plan_ok h d v fl \<Longrightarrow> acyclicP (edge (fgraph fl))"
  unfolding plan_ok_def flow_ok_def edge_rel_def by (elim conjE) simp

text \<open>No step runs twice, so a run executes at most as many steps as the definition has.\<close>

lemma reaches_distinct:
  assumes "plan_ok h d v fl" and "reaches v inputs trace i st"
  shows "distinct trace" "i \<noteq> [] \<Longrightarrow> distinct (trace @ [i])" "length trace \<le> length (vsteps v)"
    "i \<noteq> [] \<Longrightarrow> length trace < length (vsteps v)"
proof -
  note inv = reaches_inv [OF assms, unfolded run_inv_def]
  note ac = plan_acyclic [OF assms(1)]
  show d: "distinct trace" using successively_distinct [OF _ ac] inv by blast
  show e: "distinct (trace @ [i])" if "i \<noteq> []" using successively_distinct [OF _ ac] inv that by blast
  have le: "length xs \<le> length (vsteps v)" if "distinct xs" "set xs \<subseteq> set (map nid (vsteps v))" for xs
    using card_mono [OF _ that(2)] card_length [of "map nid (vsteps v)"] distinct_card [OF that(1)] by simp
  show "length trace \<le> length (vsteps v)" using le [OF d] inv by blast
  show "length trace < length (vsteps v)" if "i \<noteq> []"
    using le [OF e [OF that]] inv that by fastforce
qed

text \<open>A step that may be read has its output recorded when it is read.\<close>

lemma readable_ran:
  assumes p: "plan_ok h d v fl" and r: "reaches v inputs trace i st" and i: "i \<noteq> []"
    and q: "readable (vinputs v) fl (kinds_of (vsteps v)) i b q"
  shows "requireRan n q st = None"
proof (cases "Root q = refSteps")
  case True
  note inv = reaches_inv [OF p r, unfolded run_inv_def]
  from True q obtain k where d: "dominates fl (RName q) i" "map_of (kinds_of (vsteps v)) (RName q) = Some k" "k \<noteq> KindBranch"
    by (auto simp: readable_def refInputs_def refSteps_def refItem_def)
  have s: "i \<in> set (map nid (vsteps v))" "successively (edge (fgraph fl)) (trace @ [i])" "hd (trace @ [i]) = fstart fl"
    using inv i by blast+
  have "RName q \<noteq> i \<and> on_every_path (fgraph fl) (fstart fl) (RName q) i"
    using p d(1) s(1) unfolding plan_ok_def flow_ok_def by blast
  then have "RName q \<in> set trace"
    using s(2,3) unfolding on_every_path_def by (metis Un_iff empty_iff insert_iff last_snoc list.set set_append snoc_eq_iff_butlast)
  then have "hasKey st (RName q)" using inv d(2,3) by blast
  then show ?thesis by (simp add: requireRan_def err_if_def)
qed (simp add: requireRan_def)

lemma args_readable_ran:
  assumes p: "plan_ok h d v fl" and r: "reaches v inputs trace i st" and i: "i \<noteq> []"
    and a: "args_readable (vinputs v) fl (kinds_of (vsteps v)) i b (args n)"
  shows "args_ran n st = None"
proof -
  have "(case map_of (args n) name of
      Some a \<Rightarrow> if AConst a then None else (case ARef a of Some q \<Rightarrow> requireRan n q st | None \<Rightarrow> None) | None \<Rightarrow> None) = None" for name
  proof (cases "map_of (args n) name")
    case (Some x)
    then have "(name, x) \<in> set (args n)" by (rule map_of_SomeD)
    then show ?thesis using a readable_ran [OF p r i] Some
      by (fastforce simp: args_readable_def split: option.splits)
  qed simp
  then show ?thesis unfolding args_ran_def by (simp add: first_err_None)
qed

text \<open>A live step exists, and its input, a branch's decision and a map's list never find a step that has not run.\<close>

lemma live_step:
  assumes "plan_ok h d v fl" and "reaches v inputs trace i st" and "i \<noteq> []"
  shows "\<exists>n. step_of v i = Some n"
proof -
  have "i \<in> set (map nid (vsteps v))" using reaches_inv [OF assms(1,2), unfolded run_inv_def] assms(3) by blast
  then show ?thesis by (cases "step_of v i") (simp_all add: step_of_def node_of_None)
qed

lemma reads_ok_args: "reads_ok ins fl ks n \<Longrightarrow> args_readable ins fl ks (nid n) False (args n)"
  unfolding reads_ok_def by (elim conjE)

lemma reads_ok_branch: "reads_ok ins fl ks n \<Longrightarrow> nkind n = KindBranch \<Longrightarrow> c \<in> set (cases n) \<Longrightarrow> cref c = Some q \<Longrightarrow>
    cop c \<in> set conditionOps \<Longrightarrow> readable ins fl ks (nid n) False q"
  unfolding reads_ok_def by (elim conjE) blast

lemma reads_ok_over: "reads_ok ins fl ks n \<Longrightarrow> nkind n = KindMap \<Longrightarrow> over n = Some q \<Longrightarrow> readable ins fl ks (nid n) False q"
  unfolding reads_ok_def by (elim conjE) blast

lemma live_input:
  assumes p: "plan_ok h d v fl" and r: "reaches v inputs trace i st" and i: "i \<noteq> []"
  shows "\<exists>input. StepInput v i inputs st = Inr input"
proof -
  obtain n where n: "step_of v i = Some n" using live_step [OF assms] by blast
  note pn = plan_node [OF p n]
  show ?thesis
    using args_readable_ran [OF p r i reads_ok_args [OF pn(3), unfolded pn(2)]] by (simp add: StepInput_def n)
qed

lemma live_branch:
  assumes p: "plan_ok h d v fl" and r: "reaches v inputs trace i st" and i: "i \<noteq> []"
    and n: "step_of v i = Some n" "nkind n = KindBranch"
  shows "\<exists>b. Branch v i inputs st = Inr b"
proof -
  note pn = plan_node [OF p n(1)]
  have "requireRan n (case_ref_of c) st = None" if c: "c \<in> set (cases n)" for c
  proof -
    obtain q where q: "cref c = Some q" "cop c \<in> set conditionOps"
      using plan_branch(2) [OF p n] c by (auto simp: case_ok_def)
    show ?thesis
      using readable_ran [OF p r i reads_ok_branch [OF pn(3) n(2) c q, unfolded pn(2)]] by (simp add: case_ref_of_def q)
  qed
  then have "first_err (\<lambda>c. requireRan n (case_ref_of c) st) (cases n) = None" by (simp add: first_err_None)
  then show ?thesis by (simp add: Branch_def n)
qed

lemma live_map:
  assumes p: "plan_ok h d v fl" and r: "reaches v inputs trace i st" and i: "i \<noteq> []"
    and n: "step_of v i = Some n" "nkind n = KindMap" "over n = Some q"
  shows "requireRan n q st = None"
  using readable_ran [OF p r i reads_ok_over [OF plan_node(3) [OF p n(1)] n(2,3), unfolded plan_node(2) [OF p n(1)]]] .

text \<open>A run that is not over has a next step to take.\<close>

lemma live_progress:
  assumes p: "plan_ok h d v fl" and r: "reaches v inputs trace i st" and i: "i \<noteq> []"
  shows "\<exists>j st'. reaches v inputs (trace @ [i]) j st'"
proof -
  obtain n where n: "step_of v i = Some n" using live_step [OF assms] by blast
  show ?thesis
  proof (cases "nkind n = KindBranch")
    case True
    obtain b where "Branch v i inputs st = Inr b" using live_branch [OF p r i n True] by blast
    then show ?thesis using reaches.branch [OF r i] by blast
  next
    case False
    then show ?thesis using reaches.step [OF r i n] by blast
  qed
qed

text \<open>Every capability step of an accepted definition was authorised when it was compiled.\<close>

lemma same0_cap: "same0 m n \<Longrightarrow> cap m = cap n \<and> attempts m = attempts n \<and> nstep m = nstep n \<and> nkind m = nkind n"
  by (simp add: same0_def)

lemma compiled_capability: "compiled_ok v n \<Longrightarrow> nkind n = KindCapability \<Longrightarrow>
    \<exists>c. cap n = Some c \<and> capability_authorized (env v) (defn v) (nstep n) (attempts n) c"
  unfolding compiled_ok_def by (elim conjE) blast

lemma compiled_agent: "compiled_ok v n \<Longrightarrow> nkind n = KindAgent \<Longrightarrow>
    0 < nbudget n \<and> nbudget n \<le> WDeadline (env v) \<and> 0 < ntokens n \<and> ntokens n \<le> WTokens (env v)"
  unfolding compiled_ok_def by (elim conjE) blast

lemma validated_node:
  assumes "run h d = Some ([], v)" and "n \<in> set (vsteps v)"
  obtains n0 where "node_ok (validator_of h d) n0" "same_node n n0"
proof -
  obtain fl where "plan_ok h d v fl" using run_ok [OF assms(1)] by blast
  then show thesis using assms(2) that unfolding plan_ok_def by blast
qed

lemma validator_of_sel [simp]: "env (validator_of h d) = h_env h" "defn (validator_of h d) = d"
  by (simp_all add: validator_of_def split: prod.splits)

lemma validated_capability:
  assumes "run h d = Some ([], v)" and "n \<in> set (vsteps v)" and "nkind n = KindCapability"
  shows "\<exists>c. cap n = Some c \<and> capability_authorized (h_env h) d (nstep n) (attempts n) c"
proof -
  obtain n0 where n0: "node_ok (validator_of h d) n0" "same_node n n0" using validated_node [OF assms(1,2)] .
  have s: "same0 n n0" using n0(2) by (simp add: same_node_def)
  have "compiled_ok (validator_of h d) n0" using n0(1) by (simp add: node_ok_def)
  from compiled_capability [OF this] show ?thesis using same0_cap [OF s] assms(3) by simp
qed

end
