(* ===== verification/Resume.thy ===== *)
theory Resume
  imports Execute Messages
begin

text \<open>
  Resuming a run under a newer approved version (resume.go, \<^verbatim>\<open>PlanResume\<close>): the accepted inputs and
  the recorded step outputs of a run that stopped are checked against everything the steps from
  the resume point on read, and what the successor carries is computed. Errors keep the
  constructor and arguments of their message; the text of one checked read's error goes through
  \<open>errText\<close>, because the source trims it.
\<close>

section \<open>The plan\<close>

record resumeDrop =
  rd_Name :: string
  rd_Reason :: errmsg

record resumePlan =
  rp_Resume :: string
  rp_RunKey :: string
  rp_Inputs :: "val gomap"
  rp_State :: "val gomap"
  rp_Carried :: "string list"
  rp_Dropped :: "resumeDrop list"

text \<open>The steps the successor runs: \<^verbatim>\<open>PlanResume\<close>'s queue over the steps' successors.\<close>

definition steps_after :: "validated \<Rightarrow> string \<Rightarrow> string list" where
  "steps_after v i = reachable (graph_of (vsteps v)) i"

section \<open>What the remaining steps read\<close>

record stepRead =
  reader :: string
  sref :: ref
  optionalRead :: bool

definition required_read :: "string \<Rightarrow> ref \<Rightarrow> stepRead list" where
  "required_read who r = (if Root r = refSteps then [\<lparr>reader = who, sref = r, optionalRead = False\<rparr>] else [])"

definition arg_reads :: "'a node0_scheme \<Rightarrow> string \<Rightarrow> stepRead list" where
  "arg_reads n p = concat (map (\<lambda>name. case map_of (args n) name of
      None \<Rightarrow> []
    | Some a \<Rightarrow> if AConst a then [] else (case ARef a of None \<Rightarrow> [] | Some r \<Rightarrow> required_read (p @ ''.input.'' @ name) r))
    (sortedKeys (args n)))"

definition step_reads :: "node \<Rightarrow> stepRead list" where
  "step_reads n = arg_reads n (npath n) @
     (case over n of None \<Rightarrow> [] | Some r \<Rightarrow> required_read (npath n @ ''.over'') r) @
     (case item n of None \<Rightarrow> [] | Some m \<Rightarrow> arg_reads m (npath n @ ''.item'')) @
     concat (map (\<lambda>(i, c). required_read (case_path (npath n) i) (case_ref_of c)) (List.enumerate 0 (cases n)))"

definition output_reads :: "validated \<Rightarrow> stepRead list" where
  "output_reads v = List.map_filter (\<lambda>name. case map_of (Outputs (vdefinition v)) name of
      None \<Rightarrow> None
    | Some s \<Rightarrow> (case parseRef s of Inl _ \<Rightarrow> None
        | Inr r \<Rightarrow> if Root r = refSteps then Some \<lparr>reader = ''outputs.'' @ name, sref = r, optionalRead = True\<rparr> else None))
    (sortedKeys (Outputs (vdefinition v)))"

definition readsAfter :: "validated \<Rightarrow> string list \<Rightarrow> stepRead list" where
  "readsAfter v after = concat (map (\<lambda>i. case step_of v i of
      None \<Rightarrow> []
    | Some n \<Rightarrow> if i \<in> set after then step_reads n else []) (vorder v)) @ output_reads v"

section \<open>Checking a read\<close>

definition trimPrefix :: "string \<Rightarrow> string \<Rightarrow> string" where
  "trimPrefix s p = (if hasPrefix s p then drop (length p) s else s)"

text \<open>\<^verbatim>\<open>checkRead\<close>; \<open>past\<close> is the part of the path already followed.\<close>

fun checkReadFrom :: "quoter \<Rightarrow> ty option \<Rightarrow> val \<Rightarrow> string list \<Rightarrow> string list \<Rightarrow> errmsg option" where
  "checkReadFrom quote t x past [] = (case checkValue t x of
     None \<Rightarrow> None
   | Some e \<Rightarrow> (let where = join ''.'' past in
       if where = [] then Some e else Some (Errf ''%s: %v'' [S where, S (trimPrefix (errText quote e) ''value: '')])))"
| "checkReadFrom quote t x past (name # path) = (let where = join ''.'' (past @ [name]) in
     if isAny t then None
     else (case field t name of
       None \<Rightarrow> Some (Errf ''this version's output has no field %s'' [S where])
     | Some u \<Rightarrow> (case x of
         VObj m \<Rightarrow> (case map_of m name of
             None \<Rightarrow> if requires (the t) name then Some (Errf ''missing field %s'' [S where]) else None
           | Some y \<Rightarrow> checkReadFrom quote (Some u) y (past @ [name]) path)
       | _ \<Rightarrow> Some (Errf ''%s: expected an object holding it, got %s'' [S where, S (valueKind x)]))))"

definition checkRead :: "quoter \<Rightarrow> ty option \<Rightarrow> val \<Rightarrow> string list \<Rightarrow> errmsg option" where
  "checkRead quote t x path = checkReadFrom quote t x [] path"

section \<open>PlanResume\<close>

definition declared_inputs :: "validated \<Rightarrow> val gomap \<Rightarrow> string gomap" where
  "declared_inputs v inputs = map (\<lambda>name. (name, canonicalBytes (the (map_of inputs name))))
     (filter (hasKey (vinputs v)) (sortedKeys inputs))"

definition dropped_inputs :: "validated \<Rightarrow> val gomap \<Rightarrow> resumeDrop list" where
  "dropped_inputs v inputs = map (\<lambda>name. \<lparr>rd_Name = ''inputs.'' @ name, rd_Reason = Errf ''this version does not declare it'' []\<rparr>)
     (filter (\<lambda>name. \<not> hasKey (vinputs v) name) (sortedKeys inputs))"

text \<open>The inputs, their Run Key and the problems with either.\<close>

definition accepted_inputs :: "decoder \<Rightarrow> (string \<Rightarrow> string) \<Rightarrow> validated \<Rightarrow> val gomap \<Rightarrow> string
    \<Rightarrow> problem list \<times> val gomap \<times> string" where
  "accepted_inputs dc digest v inputs logicalKey = (case AcceptInputs dc (vinputs v) (declared_inputs v inputs) [] of
     Inl e \<Rightarrow> (prob ''inputs'' ''%v'' [E e], [], [])
   | Inr accepted \<Rightarrow> let key = runKey digest (vdefinition v) accepted in
       (on (key \<noteq> logicalKey) (prob ''run_key''
          ''this version derives Run Key %s from the run's input, not %s; a successor continues the same logical execution''
          [S key, S logicalKey]), accepted, key))"

definition dropped_steps :: "validated \<Rightarrow> val gomap \<Rightarrow> resumeDrop list" where
  "dropped_steps v state = map (\<lambda>i. \<lparr>rd_Name = ''steps.'' @ i, rd_Reason = Errf ''this version has no step %s'' [S i]\<rparr>)
     (filter (\<lambda>i. step_of v i = None) (sortedKeys state))"

definition repeated_steps :: "validated \<Rightarrow> string \<Rightarrow> string list \<Rightarrow> val gomap \<Rightarrow> problem list" where
  "repeated_steps v resume after state = concat (map (\<lambda>i. on (step_of v i \<noteq> None \<and> i \<in> set after)
     (prob (''steps.'' @ i) ''the run already ran it, but this version runs it again after the resume point %s; a successor would repeat it''
        [S resume])) (sortedKeys state))"

definition candidates :: "validated \<Rightarrow> string list \<Rightarrow> val gomap \<Rightarrow> string list" where
  "candidates v after state = filter (\<lambda>i. step_of v i \<noteq> None \<and> i \<notin> set after) (sortedKeys state)"

definition step_type :: "validated \<Rightarrow> string \<Rightarrow> ty option" where
  "step_type v i = (case step_of v i of Some n \<Rightarrow> noutput n | None \<Rightarrow> None)"

definition read_problem :: "quoter \<Rightarrow> validated \<Rightarrow> string \<Rightarrow> string list \<Rightarrow> val gomap \<Rightarrow> stepRead \<Rightarrow> problem list" where
  "read_problem quote v resume after state r = (let name = RName (sref r) in
     if name \<in> set after then []
     else (case map_of state name of
       None \<Rightarrow> on (\<not> optionalRead r) (prob (reader r)
         ''reads %s, but the run has no recorded output of steps.%s: this version runs it before the resume point %s''
         [S (Raw (sref r)), S name, S resume])
     | Some x \<Rightarrow> if name \<notin> set (candidates v after state) then []
         else (case checkRead quote (step_type v name) x (Path (sref r)) of
           None \<Rightarrow> []
         | Some e \<Rightarrow> prob (reader r) ''reads %s, which the run's recorded output of steps.%s does not satisfy: %v''
             [S (Raw (sref r)), S name, E e])))"

text \<open>A candidate no remaining step reads is carried only while it matches this version's output.\<close>

definition stale_output :: "validated \<Rightarrow> string list \<Rightarrow> val gomap \<Rightarrow> string \<Rightarrow> errmsg option" where
  "stale_output v reads state i = (if i \<in> set reads then None
     else checkValue (step_type v i) (the (map_of state i)))"

definition PlanResume :: "decoder \<Rightarrow> quoter \<Rightarrow> (string \<Rightarrow> string) \<Rightarrow> validated \<Rightarrow> string \<Rightarrow> val gomap \<Rightarrow> val gomap \<Rightarrow> string
    \<Rightarrow> resumePlan \<times> problem list" where
  "PlanResume dc quote digest v resume inputs state logicalKey = (
     if step_of v resume = None then
       (\<lparr>rp_Resume = resume, rp_RunKey = [], rp_Inputs = [], rp_State = [], rp_Carried = [], rp_Dropped = []\<rparr>,
        prob ''resume'' ''this version has no step %s, where the run would continue'' [S resume])
     else let
       after = steps_after v resume;
       (input_problems, accepted, key) = accepted_inputs dc digest v inputs logicalKey;
       reads = readsAfter v after;
       cs = candidates v after state;
       used = map (\<lambda>r. RName (sref r)) (filter (\<lambda>r. RName (sref r) \<notin> set after) reads);
       carried = filter (\<lambda>i. stale_output v used state i = None) cs
     in (\<lparr>rp_Resume = resume, rp_RunKey = key, rp_Inputs = accepted,
          rp_State = map (\<lambda>i. (i, the (map_of state i))) carried, rp_Carried = carried,
          rp_Dropped = dropped_inputs v inputs @ dropped_steps v state @
            List.map_filter (\<lambda>i. map_option (\<lambda>e. \<lparr>rd_Name = ''steps.'' @ i, rd_Reason =
              Errf ''no step after the resume point reads it, and it does not match this version's output: %v'' [E e]\<rparr>)
              (stale_output v used state i)) cs\<rparr>,
         input_problems @ repeated_steps v resume after state @ concat (map (read_problem quote v resume after state) reads)))"

end
