(* ===== verification/Resumed.thy ===== *)
theory Resumed
  imports Resume Running
begin

text \<open>
  What a plan without a problem establishes. A successor that continues at the resume point with
  the carried outputs takes the steps of \<open>continues\<close>; none of them was recorded before, each finds
  every output it reads, and what it reads of the carried outputs has this version's types.
\<close>

section \<open>Runs that continue\<close>

inductive continues :: "validated \<Rightarrow> val gomap \<Rightarrow> string \<Rightarrow> val gomap \<Rightarrow> string list \<Rightarrow> string \<Rightarrow> val gomap \<Rightarrow> bool"
  for v inputs i0 st0 where
  start: "continues v inputs i0 st0 [] i0 st0"
| step: "continues v inputs i0 st0 trace i st \<Longrightarrow> i \<noteq> [] \<Longrightarrow> step_of v i = Some n \<Longrightarrow> nkind n \<noteq> KindBranch \<Longrightarrow>
    continues v inputs i0 st0 (trace @ [i]) (Next (nstep n)) (put i x st)"
| branch: "continues v inputs i0 st0 trace i st \<Longrightarrow> i \<noteq> [] \<Longrightarrow> Branch v i inputs st = Inr b \<Longrightarrow>
    continues v inputs i0 st0 (trace @ [i]) (d_Next b) st"

text \<open>A run is what continues from the start with nothing recorded.\<close>

lemma reaches_continues: "reaches v inputs trace i st \<Longrightarrow> continues v inputs (Start (vdefinition v)) [] trace i st"
  by (induction rule: reaches.induct) (auto intro: continues.intros)

section \<open>The graph of the compiled steps\<close>

lemma graph_of_edge:
  assumes "distinct (map nid ns)" and "n \<in> set ns"
  shows "edge (graph_of ns) (nid n) t \<longleftrightarrow> t \<in> snd ` set (edges n) \<and> t \<in> set (map nid ns)"
proof -
  have "(nid n, link (map nid ns) (edges n)) \<in> set (graph_of ns)" using assms(2) by (auto simp: graph_of_def)
  then have "nexts (graph_of ns) (nid n) = link (map nid ns) (edges n)"
    using flow_graph.nexts_mem [OF flow_graph_of [OF assms(1)]] by blast
  then show ?thesis by (auto simp: edge_def link_props)
qed

lemma plan_facts:
  assumes "plan_ok h d v fl"
  shows "distinct (map nid (vsteps v))" "flow_ok fl (map nid (vsteps v))" "set (vorder v) = set (map nid (vsteps v))"
proof -
  have o: "vorder v = forder fl" using assms unfolding plan_ok_def by (elim conjE)
  show "distinct (map nid (vsteps v))" using assms unfolding plan_ok_def by (elim conjE)
  show f: "flow_ok fl (map nid (vsteps v))" using assms unfolding plan_ok_def by (elim conjE)
  show "set (vorder v) = set (map nid (vsteps v))" using f unfolding o flow_ok_def by (elim conjE)
qed

lemma rtrancl_path:
  "(a, b) \<in> (edge_rel g)\<^sup>* \<Longrightarrow> \<exists>ps. successively (edge g) (ps @ [b]) \<and> hd (ps @ [b]) = a"
proof (induction rule: rtrancl_induct)
  case base
  show ?case by (intro exI [of _ "[]"]) simp
next
  case (step b c)
  then obtain ps where "successively (edge g) (ps @ [b])" "hd (ps @ [b]) = a" by blast
  then show ?case using step.hyps(2)
    by (intro exI [of _ "ps @ [b]"]) (auto simp: successively_append_iff edge_rel_def hd_append split: if_splits)
qed

lemma plan_edge:
  assumes p: "plan_ok h d v fl" and n: "step_of v i = Some n" and t: "t \<in> snd ` set (edges n)"
  shows "edge (graph_of (vsteps v)) i t" "edge (fgraph fl) i t"
proof -
  note nn = plan_node [OF p n]
  show e: "edge (fgraph fl) i t" using p t nn by (auto simp: plan_ok_def)
  then have "t \<in> set (map nid (vsteps v))" using p unfolding plan_ok_def flow_ok_def by blast
  then show "edge (graph_of (vsteps v)) i t"
    using graph_of_edge [OF plan_facts(1) [OF p] nn(1)] t nn(2) by simp
qed

lemma steps_after_iff: "i \<in> set (map nid (vsteps v)) \<Longrightarrow> j \<in> set (steps_after v i) \<longleftrightarrow> (i, j) \<in> (edge_rel (graph_of (vsteps v)))\<^sup>*"
  by (simp add: steps_after_def reachable_iff)

lemma after_flow:
  assumes p: "plan_ok h d v fl"
  shows "edge_rel (graph_of (vsteps v)) \<subseteq> edge_rel (fgraph fl)"
proof
  fix e assume "e \<in> edge_rel (graph_of (vsteps v))"
  then obtain a b where e: "e = (a, b)" "edge (graph_of (vsteps v)) a b" by (auto simp: edge_rel_def)
  note fg = flow_graph_of [OF plan_facts(1) [OF p]]
  have "a \<in> set (map nid (vsteps v))" using flow_graph.edge_known [OF fg e(2)] by simp
  then obtain n where n: "n \<in> set (vsteps v)" "nid n = a" by auto
  have "b \<in> snd ` set (edges n)" using graph_of_edge [OF plan_facts(1) [OF p] n(1)] e(2) n(2) by simp
  then show "e \<in> edge_rel (fgraph fl)" using p n e(1) by (auto simp: plan_ok_def edge_rel_def)
qed

section \<open>Every continuation is a path from the resume point\<close>

definition cont_inv :: "validated \<Rightarrow> flow \<Rightarrow> string \<Rightarrow> val gomap \<Rightarrow> string list \<Rightarrow> string \<Rightarrow> val gomap \<Rightarrow> bool" where
  "cont_inv v fl i0 st0 trace i st \<longleftrightarrow>
     (i \<noteq> [] \<longrightarrow> i \<in> set (steps_after v i0) \<and> i \<in> set (map nid (vsteps v)) \<and>
        successively (edge (fgraph fl)) (trace @ [i]) \<and> hd (trace @ [i]) = i0) \<and>
     successively (edge (fgraph fl)) trace \<and> (trace \<noteq> [] \<longrightarrow> hd trace = i0) \<and>
     (\<forall>a. hasKey st0 a \<longrightarrow> hasKey st a) \<and>
     (\<forall>a \<in> set trace. \<forall>k. map_of (kinds_of (vsteps v)) a = Some k \<longrightarrow> k \<noteq> KindBranch \<longrightarrow> hasKey st a)"

lemma cont_inv_next:
  assumes p: "plan_ok h d v fl" and i0: "i0 \<in> set (map nid (vsteps v))" and inv: "cont_inv v fl i0 st0 trace i st"
    and "i \<noteq> []" and n: "step_of v i = Some n" and t: "t \<noteq> [] \<Longrightarrow> t \<in> snd ` set (edges n)"
    and st: "\<And>a. hasKey st a \<Longrightarrow> hasKey st' a" "nkind n \<noteq> KindBranch \<Longrightarrow> hasKey st' i"
  shows "cont_inv v fl i0 st0 (trace @ [i]) t st'"
proof -
  note nn = plan_node [OF p n]
  have k: "map_of (kinds_of (vsteps v)) i = Some (nkind n)" using n by (simp add: kinds_of_node step_of_def)
  have e: "edge (fgraph fl) i t" "t \<in> set (steps_after v i0)" "t \<in> set (map nid (vsteps v))" if "t \<noteq> []"
  proof -
    note pe = plan_edge [OF p n t [OF that]]
    show "edge (fgraph fl) i t" by (rule pe)
    have "(i0, i) \<in> (edge_rel (graph_of (vsteps v)))\<^sup>*" using inv assms(4) i0 by (simp add: cont_inv_def steps_after_iff)
    then have "(i0, t) \<in> (edge_rel (graph_of (vsteps v)))\<^sup>*" using pe(1) by (auto simp: edge_rel_def intro: rtrancl_into_rtrancl)
    then show "t \<in> set (steps_after v i0)" using i0 by (simp add: steps_after_iff)
    show "t \<in> set (map nid (vsteps v))" using pe(2) p unfolding plan_ok_def flow_ok_def by blast
  qed
  show ?thesis
    using inv assms(4) e st k by (auto simp: cont_inv_def successively_append_iff hd_append)
qed

lemma continues_inv:
  assumes p: "plan_ok h d v fl" and i0: "i0 \<in> set (map nid (vsteps v))" and r: "continues v inputs i0 st0 trace i st"
  shows "cont_inv v fl i0 st0 trace i st"
  using r
proof induction
  case start
  then show ?case using i0 by (simp add: cont_inv_def steps_after_iff)
next
  case (step trace i st n x)
  show ?case
  proof (rule cont_inv_next [OF p i0 step.IH step.hyps(2,3)])
    assume "Next (nstep n) \<noteq> []"
    then show "Next (nstep n) \<in> snd ` set (edges n)" using step.hyps(4) by (simp add: edges_def Let_def)
  qed (auto simp: hasKey_put)
next
  case (branch trace i st b)
  obtain n where n: "step_of v i = Some n" "nkind n = KindBranch" "b = decide n (\<lambda>r. resolveRef r inputs st VNil)"
    using branch.hyps(3) by (auto simp: Branch_def split: option.splits if_splits)
  show ?case
  proof (rule cont_inv_next [OF p i0 branch.IH branch.hyps(2) n(1)])
    assume "d_Next b \<noteq> []"
    with branch_edges [OF n(2) plan_branch(1) [OF p n(1,2)]] decide_next show "d_Next b \<in> snd ` set (edges n)"
      unfolding n(3) by blast
  qed (use n in auto)
qed

text \<open>
  A step that runs before a remaining step on every path either runs again after the resume point,
  and then it is in the trace, or its output must be carried.
\<close>

lemma continued_reads:
  assumes p: "plan_ok h d v fl" and i0: "i0 \<in> set (map nid (vsteps v))" and r: "continues v inputs i0 st0 trace i st"
    and i: "i \<noteq> []" and dom: "dominates fl a i" and a: "a \<in> set (steps_after v i0)"
  shows "a \<in> set trace"
proof -
  note inv = continues_inv [OF p i0 r, unfolded cont_inv_def]
  have s: "i \<in> set (map nid (vsteps v))" "successively (edge (fgraph fl)) (trace @ [i])" "hd (trace @ [i]) = i0"
    using inv i by blast+
  have every: "a \<noteq> i" "on_every_path (fgraph fl) (fstart fl) a i"
    using plan_facts(2) [OF p] dom s(1) unfolding flow_ok_def by blast+
  have again: "(i0, a) \<in> (edge_rel (fgraph fl))\<^sup>*"
    using a i0 after_flow [OF p] by (simp add: steps_after_iff) (metis (no_types) rtrancl_mono subsetD)
  have "(fstart fl, i0) \<in> (edge_rel (fgraph fl))\<^sup>*" using plan_facts(2) [OF p] i0 unfolding flow_ok_def by blast
  then obtain ps where ps: "successively (edge (fgraph fl)) (ps @ [i0])" "hd (ps @ [i0]) = fstart fl"
    using rtrancl_path by blast
  have full: "successively (edge (fgraph fl)) (ps @ trace @ [i])" "hd (ps @ trace @ [i]) = fstart fl"
    using ps s(2,3) by (auto simp: successively_append_iff hd_append split: if_splits)
  have "a \<in> set (ps @ trace @ [i])"
    using every(2) [unfolded on_every_path_def, rule_format, of "ps @ trace @ [i]"] full by simp
  moreover have "a \<notin> set ps"
  proof
    assume "a \<in> set ps"
    then obtain us vs where "ps = us @ a # vs" by (auto dest: split_list)
    then have "(edge (fgraph fl))\<^sup>+\<^sup>+ a i0" using successively_trancl [of _ us a vs i0] ps(1) by simp
    then have "(a, i0) \<in> (edge_rel (fgraph fl))\<^sup>+" by (simp add: tranclp_unfold edge_rel_def)
    then have "(a, a) \<in> (edge_rel (fgraph fl))\<^sup>+" using again by (rule trancl_rtrancl_trancl)
    then show False using plan_facts(2) [OF p] unfolding flow_ok_def acyclic_def by blast
  qed
  ultimately show "a \<in> set trace" using every(1) by auto
qed

section \<open>A plan without a problem\<close>

lemma map_of_carried: "map_of (map (\<lambda>i. (i, f i)) cs) i = (if i \<in> set cs then Some (f i) else None)"
  by (induction cs) auto

lemma PlanResume_ok:
  assumes "PlanResume dc quote digest v resume inputs state key = (plan, [])"
  defines "after \<equiv> steps_after v resume"
  shows "step_of v resume \<noteq> None" "rp_Resume plan = resume"
    "AcceptInputs dc (vinputs v) (declared_inputs v inputs) [] = Inr (rp_Inputs plan)"
    "rp_RunKey plan = key" "runKey digest (vdefinition v) (rp_Inputs plan) = key"
    "\<And>i. i \<in> set after \<Longrightarrow> step_of v i \<noteq> None \<Longrightarrow> map_of state i = None"
    "\<And>i x. map_of (rp_State plan) i = Some x \<Longrightarrow> map_of state i = Some x \<and> i \<notin> set after \<and> step_of v i \<noteq> None"
    "\<And>r. r \<in> set (readsAfter v after) \<Longrightarrow> RName (sref r) \<notin> set after \<Longrightarrow> step_of v (RName (sref r)) \<noteq> None \<Longrightarrow>
       optionalRead r \<or> hasKey (rp_State plan) (RName (sref r))"
    "\<And>r x. r \<in> set (readsAfter v after) \<Longrightarrow> map_of (rp_State plan) (RName (sref r)) = Some x \<Longrightarrow>
       checkRead quote (step_type v (RName (sref r))) x (Path (sref r)) = None"
proof -
  show st: "step_of v resume \<noteq> None"
    using assms(1) by (auto simp: PlanResume_def split: if_splits)
  obtain ps accepted k where ai: "accepted_inputs dc digest v inputs key = (ps, accepted, k)" using prod_cases3 by blast
  define cs where "cs = candidates v after state"
  define used where "used = map (\<lambda>r. RName (sref r)) (filter (\<lambda>r. RName (sref r) \<notin> set after) (readsAfter v after))"
  define carried where "carried = filter (\<lambda>i. stale_output v used state i = None) cs"
  have nil: "ps = []" "repeated_steps v resume after state = []"
      "concat (map (read_problem quote v resume after state) (readsAfter v after)) = []"
    and plan: "rp_Resume plan = resume" "rp_RunKey plan = k" "rp_Inputs plan = accepted"
      "rp_State plan = map (\<lambda>i. (i, the (map_of state i))) carried"
    using assms(1) st by (auto simp: PlanResume_def Let_def ai after_def cs_def used_def carried_def)
  show "rp_Resume plan = resume" by (rule plan)
  have "AcceptInputs dc (vinputs v) (declared_inputs v inputs) [] = Inr accepted \<and> k = key \<and> runKey digest (vdefinition v) accepted = key"
    using ai nil(1) by (auto simp: accepted_inputs_def Let_def split: sum.splits if_splits)
  then show "AcceptInputs dc (vinputs v) (declared_inputs v inputs) [] = Inr (rp_Inputs plan)"
    "rp_RunKey plan = key" "runKey digest (vdefinition v) (rp_Inputs plan) = key" by (simp_all add: plan)
  show "map_of state i = None" if "i \<in> set after" "step_of v i \<noteq> None" for i
  proof (rule ccontr)
    assume "map_of state i \<noteq> None"
    then have "i \<in> set (sortedKeys state)" by (auto dest: map_of_in_sortedKeys)
    then show False using nil(2) that by (auto simp: repeated_steps_def)
  qed
  have cand: "i \<in> set cs \<longleftrightarrow> step_of v i \<noteq> None \<and> i \<notin> set after \<and> map_of state i \<noteq> None" for i
    by (auto simp: cs_def candidates_def set_sortedKeys_dom)
  show "map_of state i = Some x \<and> i \<notin> set after \<and> step_of v i \<noteq> None" if "map_of (rp_State plan) i = Some x" for i x
    using that cand [of i] by (auto simp: plan map_of_carried carried_def split: if_splits)
  have rd: "read_problem quote v resume after state r = []" if "r \<in> set (readsAfter v after)" for r
    using nil(3) that by simp
  show "optionalRead r \<or> hasKey (rp_State plan) (RName (sref r))"
    if r: "r \<in> set (readsAfter v after)" "RName (sref r) \<notin> set after" "step_of v (RName (sref r)) \<noteq> None" for r
  proof (cases "map_of state (RName (sref r))")
    case None
    then show ?thesis using rd [OF r(1)] r(2) by (auto simp: read_problem_def Let_def)
  next
    case (Some x)
    then have "RName (sref r) \<in> set cs" using cand r by simp
    moreover have "RName (sref r) \<in> set used" using r by (auto simp: used_def)
    ultimately have "RName (sref r) \<in> set carried" by (simp add: carried_def stale_output_def)
    then show ?thesis by (simp add: hasKey_def plan map_of_carried)
  qed
  show "checkRead quote (step_type v (RName (sref r))) x (Path (sref r)) = None"
    if r: "r \<in> set (readsAfter v after)" "map_of (rp_State plan) (RName (sref r)) = Some x" for r x
  proof -
    have c: "RName (sref r) \<in> set cs" "x = the (map_of state (RName (sref r)))"
      using r(2) by (auto simp: plan map_of_carried carried_def split: if_splits)
    then obtain y where y: "map_of state (RName (sref r)) = Some y" using cand by blast
    then show ?thesis
      using rd [OF r(1)] c cand [of "RName (sref r)"] by (auto simp: read_problem_def Let_def cs_def split: option.splits)
  qed
qed

text \<open>Every reference of a remaining step is among the reads that were checked.\<close>

lemma in_readsAfter:
  assumes "plan_ok h d v fl" and "step_of v i = Some n" and "i \<in> set after" and "r \<in> set (step_reads n)"
  shows "r \<in> set (readsAfter v after)"
proof -
  have "i \<in> set (vorder v)" using plan_facts(3) [OF assms(1)] plan_node [OF assms(1,2)] by auto
  then show ?thesis using assms(2-4) by (auto simp: readsAfter_def intro!: bexI [of _ i])
qed

lemma arg_reads_mem:
  assumes "map_of (args n) name = Some a" and "\<not> AConst a" and "ARef a = Some r" and "Root r = refSteps"
  shows "\<lparr>reader = p @ ''.input.'' @ name, sref = r, optionalRead = False\<rparr> \<in> set (arg_reads n p)"
  using map_of_in_sortedKeys [OF assms(1)] assms
  by (auto simp: arg_reads_def required_read_def intro!: bexI [of _ name])

definition is_read :: "node \<Rightarrow> ref \<Rightarrow> bool" where
  "is_read n r \<longleftrightarrow> (\<exists>rd \<in> set (step_reads n). sref rd = r \<and> \<not> optionalRead rd)"

lemma is_read_arg: "map_of (args n) name = Some a \<Longrightarrow> \<not> AConst a \<Longrightarrow> ARef a = Some r \<Longrightarrow> Root r = refSteps \<Longrightarrow> is_read n r"
  using arg_reads_mem [of n name a r "npath n"] by (force simp: is_read_def step_reads_def)

lemma is_read_over: "over n = Some r \<Longrightarrow> Root r = refSteps \<Longrightarrow> is_read n r"
  by (auto simp: is_read_def step_reads_def required_read_def)

lemma is_read_case: "c \<in> set (cases n) \<Longrightarrow> Root (case_ref_of c) = refSteps \<Longrightarrow> is_read n (case_ref_of c)"
proof -
  assume c: "c \<in> set (cases n)" "Root (case_ref_of c) = refSteps"
  then obtain i where "i < length (cases n)" "cases n ! i = c" by (auto simp: in_set_conv_nth)
  then have "(i, c) \<in> set (List.enumerate 0 (cases n))" by (simp add: in_set_enumerate_eq)
  then show ?thesis using c(2) by (force simp: is_read_def step_reads_def required_read_def)
qed

section \<open>Continuing under the plan\<close>

lemma resume_known:
  assumes "plan_ok h d v fl" and "PlanResume dc quote digest v resume inputs state key = (plan, [])"
  shows "resume \<in> set (map nid (vsteps v))" "rp_Resume plan = resume"
proof -
  obtain n where "step_of v resume = Some n" using PlanResume_ok(1) [OF assms(2)] by blast
  from plan_node(1,2) [OF assms(1) this] show "resume \<in> set (map nid (vsteps v))" by auto
  show "rp_Resume plan = resume" by (rule PlanResume_ok(2) [OF assms(2)])
qed

lemma continued_ran:
  assumes p: "plan_ok h d v fl" and pl: "PlanResume dc quote digest v resume inputs state key = (plan, [])"
    and r: "continues v ins (rp_Resume plan) (rp_State plan) trace i st" and i: "i \<noteq> []"
    and n: "step_of v i = Some n" and q: "is_read n q" "readable (vinputs v) fl (kinds_of (vsteps v)) i b q"
  shows "requireRan m q st = None"
proof (cases "Root q = refSteps")
  case True
  note k = resume_known [OF p pl]
  note r' = r [unfolded k(2)]
  note inv = continues_inv [OF p k(1) r', unfolded cont_inv_def]
  have after: "i \<in> set (steps_after v resume)" using inv i by blast
  from True q(2) obtain kd where dm: "dominates fl (RName q) i" "map_of (kinds_of (vsteps v)) (RName q) = Some kd" "kd \<noteq> KindBranch"
    by (auto simp: readable_def refInputs_def refSteps_def refItem_def)
  have known: "step_of v (RName q) \<noteq> None"
    using dm(2) by (auto simp: step_of_def node_of_None kinds_of_def dest!: map_of_SomeD)
  have "hasKey st (RName q)"
  proof (cases "RName q \<in> set (steps_after v resume)")
    case True
    then show ?thesis using continued_reads [OF p k(1) r' i dm(1)] inv dm(2,3) by blast
  next
    case False
    obtain rd where "rd \<in> set (step_reads n)" "sref rd = q" "\<not> optionalRead rd" using q(1) by (auto simp: is_read_def)
    then have "hasKey (rp_State plan) (RName q)"
      using PlanResume_ok(8) [OF pl in_readsAfter [OF p n after]] False known by blast
    then show ?thesis using inv by blast
  qed
  then show ?thesis by (simp add: requireRan_def)
qed (simp add: requireRan_def)

lemma continued_step:
  assumes p: "plan_ok h d v fl" and pl: "PlanResume dc quote digest v resume inputs state key = (plan, [])"
    and r: "continues v ins (rp_Resume plan) (rp_State plan) trace i st" and i: "i \<noteq> []"
  shows "\<exists>n. step_of v i = Some n \<and> (\<exists>input. StepInput v i ins st = Inr input) \<and>
    (nkind n = KindBranch \<longrightarrow> (\<exists>b. Branch v i ins st = Inr b)) \<and>
    (nkind n = KindMap \<longrightarrow> (\<forall>q. over n = Some q \<longrightarrow> requireRan n q st = None)) \<and>
    map_of state i = None \<and> i \<notin> set trace"
proof -
  note k = resume_known [OF p pl]
  note inv = continues_inv [OF p k(1) r [unfolded k(2)], unfolded cont_inv_def]
  have "i \<in> set (map nid (vsteps v))" using inv i by blast
  then obtain n where n: "step_of v i = Some n" by (cases "step_of v i") (simp_all add: step_of_def node_of_None)
  note pn = plan_node [OF p n]
  note ran = continued_ran [OF p pl r i n]
  have arg: "(case map_of (args n) name of
      Some a \<Rightarrow> if AConst a then None else (case ARef a of Some q \<Rightarrow> requireRan n q st | None \<Rightarrow> None) | None \<Rightarrow> None) = None" for name
  proof (cases "map_of (args n) name")
    case (Some a)
    show ?thesis
    proof (cases "AConst a")
      case False
      have "(name, a) \<in> set (args n)" by (rule map_of_SomeD [OF Some])
      then obtain q where q: "ARef a = Some q" "readable (vinputs v) fl (kinds_of (vsteps v)) i False q"
        using reads_ok_args [OF pn(3)] False pn(2) by (fastforce simp: args_readable_def)
      have "requireRan n q st = None"
      proof (cases "Root q = refSteps")
        case True
        then show ?thesis using ran [OF is_read_arg [OF Some False q(1)] q(2)] by blast
      qed (simp add: requireRan_def)
      then show ?thesis using Some False q(1) by simp
    qed (simp add: Some)
  qed simp
  then have "args_ran n st = None" unfolding args_ran_def by (simp add: first_err_None)
  then have input: "StepInput v i ins st = Inr (inputOf n ins st VNil)" by (simp add: StepInput_def n)
  have branch: "\<exists>b. Branch v i ins st = Inr b" if b: "nkind n = KindBranch"
  proof -
    have "requireRan n (case_ref_of c) st = None" if c: "c \<in> set (cases n)" for c
    proof (cases "Root (case_ref_of c) = refSteps")
      case True
      obtain q where q: "cref c = Some q" "cop c \<in> set conditionOps"
        using plan_branch(2) [OF p n b] c by (auto simp: case_ok_def)
      then show ?thesis
        using ran [OF is_read_case [OF c True]] reads_ok_branch [OF pn(3) b c q, unfolded pn(2)] by (simp add: case_ref_of_def)
    qed (simp add: requireRan_def)
    then have "first_err (\<lambda>c. requireRan n (case_ref_of c) st) (cases n) = None" by (simp add: first_err_None)
    then show ?thesis by (simp add: Branch_def n b)
  qed
  have map: "requireRan n q st = None" if m: "nkind n = KindMap" "over n = Some q" for q
  proof (cases "Root q = refSteps")
    case True
    show ?thesis by (rule ran [OF is_read_over [OF m(2) True] reads_ok_over [OF pn(3) m, unfolded pn(2)]])
  qed (simp add: requireRan_def)
  have "i \<in> set (steps_after v resume)" "successively (edge (fgraph fl)) (trace @ [i])" using inv i by blast+
  moreover have "distinct (trace @ [i])" using successively_distinct [OF calculation(2) plan_acyclic [OF p]] .
  ultimately have "map_of state i = None" "i \<notin> set trace" using PlanResume_ok(6) [OF pl] n by auto
  then show ?thesis using n input branch map by blast
qed

section \<open>What is read has its type\<close>

lemma checkReadFrom_sound:
  assumes "checkReadFrom quote t x past path = None" and "walkFrom t past path = Inr u"
  shows "conforms u (walkValue x path) \<or> walkValue x path = VNil"
  using assms
proof (induction quote t x past path rule: checkReadFrom.induct)
  case (1 quote t x past)
  then show ?case by (auto simp: checkValue_def checkAt_conforms Let_def split: option.splits if_splits)
next
  case (2 quote t x past name path)
  show ?case
  proof (cases "isAny t")
    case True
    then have "conforms t x" by (rule conforms.any)
    then show ?thesis using tr.path_read [of t x "name # path" u] tr_tpath_walk [OF "2.prems"(2)]
      by (simp add: tr_vpath_walk)
  next
    case False
    obtain w where w: "field t name = Some w" "walkFrom (Some w) (past @ [name]) path = Inr u"
      using "2.prems"(2) by (auto split: option.splits if_splits)
    obtain m where m: "x = VObj m" using "2.prems"(1) False w(1) by (auto simp: Let_def split: val.splits)
    show ?thesis
    proof (cases "map_of m name")
      case None
      then have "field_value x name = VNil" by (simp add: m)
      then show ?thesis using tr.vpath_absent [of path] unfolding walkValue_Cons tr_vpath_walk by simp
    next
      case (Some y)
      then have "checkReadFrom quote (Some w) y (past @ [name]) path = None"
        using "2.prems"(1) False w(1) by (simp add: m Let_def)
      from "2.IH" [OF refl False w(1) m Some this w(2)] show ?thesis
        unfolding walkValue_Cons using Some by (simp add: m)
    qed
  qed
qed

lemma carried_read:
  assumes "PlanResume dc quote digest v resume inputs state key = (plan, [])"
    and "r \<in> set (readsAfter v (steps_after v resume))" and "map_of (rp_State plan) (RName (sref r)) = Some x"
    and "walkType (step_type v (RName (sref r))) (Path (sref r)) = Inr u"
  shows "conforms u (walkValue x (Path (sref r))) \<or> walkValue x (Path (sref r)) = VNil"
  using PlanResume_ok(9) [OF assms(1-3)] assms(4) checkReadFrom_sound unfolding checkRead_def walkType_def by blast

end
