(* ===== verification/Sensitive.thy ===== *)
theory Sensitive
  imports Running Inputs
begin

text \<open>
  What a version classifies as sensitive in its runs' records (resume.go, \<^verbatim>\<open>sensitivityOf\<close>), and why
  it is enough: what is not listed does not depend on a sensitive input.
\<close>

section \<open>The classification\<close>

record sensitivity =
  se_Classification :: string
  se_Inputs :: "string list"
  se_StepArgs :: "string list gomap"
  se_ItemArgs :: "string list gomap"
  se_BranchReads :: "string list gomap"
  se_Outputs :: "string list"

definition ClassificationOrdinary :: string where "ClassificationOrdinary = ''ordinary''"
definition ClassificationSensitive :: string where "ClassificationSensitive = ''sensitive''"

definition sensitive_inputs :: "definition_ \<Rightarrow> string list" where
  "sensitive_inputs d = filter (\<lambda>name. case map_of (Inputs d) name of Some s \<Rightarrow> i_Sensitive s | None \<Rightarrow> False)
     (sortedKeys (Inputs d))"

definition sensitive_ref :: "string list \<Rightarrow> string \<Rightarrow> bool" where
  "sensitive_ref names s = (case parseRef s of Inl _ \<Rightarrow> False
     | Inr r \<Rightarrow> Root r = refInputs \<and> RName r \<in> set names)"

definition sensitive_args :: "string list \<Rightarrow> 'a step0_scheme \<Rightarrow> string list" where
  "sensitive_args names s = filter (\<lambda>name. case map_of (Input s) name of
      Some (YScalar tag t line) \<Rightarrow> sensitive_ref names t | _ \<Rightarrow> False) (sortedKeys (Input s))"

definition add_read :: "string list \<Rightarrow> branchCase \<Rightarrow> string list \<Rightarrow> string list" where
  "add_read names c seen = (case When c of None \<Rightarrow> seen
     | Some w \<Rightarrow> if sensitive_ref names (w_Ref w) \<and> w_Ref w \<notin> set seen then seen @ [w_Ref w] else seen)"

definition add_names :: "string \<Rightarrow> string list \<Rightarrow> string list gomap \<Rightarrow> string list gomap" where
  "add_names i names m = (if names = [] then m else put i names m)"

definition item_names :: "string list \<Rightarrow> step \<Rightarrow> string list" where
  "item_names names s = (case Item s of None \<Rightarrow> [] | Some m \<Rightarrow> sensitive_args names m)"

definition sensitivityOf :: "definition_ \<Rightarrow> sensitivity" where
  "sensitivityOf d = (let
     class = (case Retention d of Some c \<Rightarrow> if c = [] then ClassificationOrdinary else c | None \<Rightarrow> ClassificationOrdinary);
     names = sensitive_inputs d
   in if names = [] then
        \<lparr>se_Classification = class, se_Inputs = [], se_StepArgs = [], se_ItemArgs = [], se_BranchReads = [], se_Outputs = []\<rparr>
      else \<lparr>se_Classification = class, se_Inputs = names,
        se_StepArgs = fold (\<lambda>s. add_names (ID s) (sensitive_args names s)) (Steps d) [],
        se_ItemArgs = fold (\<lambda>s. add_names (ID s) (item_names names s)) (Steps d) [],
        se_BranchReads = fold (\<lambda>s. add_names (ID s) (fold (add_read names) (Cases s) [])) (Steps d) [],
        se_Outputs = filter (\<lambda>name. case map_of (Outputs d) name of Some s \<Rightarrow> sensitive_ref names s | None \<Rightarrow> False)
          (sortedKeys (Outputs d))\<rparr>)"

definition Sensitivity :: "validated \<Rightarrow> sensitivity" where
  "Sensitivity v = sensitivityOf (vdefinition v)"

definition listed :: "string list gomap \<Rightarrow> string \<Rightarrow> string list" where
  "listed m i = (case map_of m i of Some names \<Rightarrow> names | None \<Rightarrow> [])"

section \<open>Where compiled references were written\<close>

text \<open>
  Every reference of a compiled step is the text of an argument or a case of its step, and every argument
  of it has a value in its step.
\<close>

definition args_written :: "(string \<times> ynode) list \<Rightarrow> arg gomap \<Rightarrow> bool" where
  "args_written inp as \<longleftrightarrow> (\<forall>(name, a) \<in> set as. (\<exists>y x. map_of inp name = Some y \<and> nodeValue y = Inr x) \<and> (\<forall>r. \<not> AConst a \<longrightarrow> ARef a = Some r \<longrightarrow>
     parseRef (Raw r) = Inr r \<and> (\<exists>line. map_of inp name = Some (YScalar ''!!str'' (Raw r) line))))"

definition cases_written :: "branchCase list \<Rightarrow> compiledCase list \<Rightarrow> bool" where
  "cases_written cs ks \<longleftrightarrow> (\<forall>c \<in> set ks. \<forall>r. cref c = Some r \<longrightarrow> (\<exists>k \<in> set cs. \<exists>w. When k = Some w \<and> w_Ref w = Raw r))"

definition written_as :: "step \<Rightarrow> node \<Rightarrow> bool" where
  "written_as s n \<longleftrightarrow> nid n = ID s \<and> nstep n = step0.truncate s \<and> args_written (Input s) (args n) \<and>
     cases_written (Cases s) (cases n) \<and>
     (\<forall>m. item n = Some m \<longrightarrow> (\<exists>t. Item s = Some t \<and> nstep m = step0.truncate t \<and> args_written (Input t) (args m)))"

lemma nodeValue_VStr: "nodeValue y = Inr (VStr s) \<Longrightarrow> \<exists>line. y = YScalar ''!!str'' s line"
  by (cases y) (auto simp: scalarValue_def split: if_splits option.splits sum.splits)

lemma compileArg_written:
  "compileArg ins fl ns y a itm = Inr x \<Longrightarrow> \<not> AConst x \<Longrightarrow> ARef x = Some r \<Longrightarrow>
     parseRef (Raw r) = Inr r \<and> (\<exists>line. y = YScalar ''!!str'' (Raw r) line)"
  by (auto simp: compileArg_def dest: nodeValue_VStr parseRef_sound split: sum.splits val.splits if_splits)
    (metis nodeValue_VStr parseRef_sound)+

lemma good_args_mem: "(name, x) \<in> set (good_args cs) \<longleftrightarrow> (name, Inr x) \<in> set cs"
  by (induction cs) (auto simp: good_args_def List.map_filter_simps split: sum.splits)

lemma good_args_written: "args_written (Input (nstep n)) (good_args (compiled_args ins fl ns n a itm))"
proof -
  have "parseRef (Raw r) = Inr r \<and> (\<exists>line. map_of (Input (nstep n)) name = Some (YScalar ''!!str'' (Raw r) line))"
    if x: "(name, x) \<in> set (good_args (compiled_args ins fl ns n a itm))" "\<not> AConst x" "ARef x = Some r" for name x r
  proof -
    have "compileArg ins fl ns (case map_of (Input (nstep n)) name of Some y \<Rightarrow> y | None \<Rightarrow> YAbsent) a itm = Inr x"
      using x(1) unfolding good_args_mem by (auto simp: compiled_args_def)
    from compileArg_written [OF this x(2,3)] show ?thesis by (auto split: option.splits)
  qed
  moreover have "\<exists>y z. map_of (Input (nstep n)) name = Some y \<and> nodeValue y = Inr z"
    if x: "(name, x) \<in> set (good_args (compiled_args ins fl ns n a itm))" for name x
  proof -
    have "compileArg ins fl ns (case map_of (Input (nstep n)) name of Some y \<Rightarrow> y | None \<Rightarrow> YAbsent) a itm = Inr x"
      using x unfolding good_args_mem by (auto simp: compiled_args_def)
    then show ?thesis by (auto simp: compileArg_def split: option.splits sum.splits)
  qed
  ultimately show ?thesis unfolding args_written_def by blast
qed

lemma args_written_Nil [simp]: "args_written inp []"
  by (simp add: args_written_def)

lemma cases_written_Nil [simp]: "cases_written cs []"
  by (simp add: cases_written_def)

lemma compileCase_written:
  "snd (compileCase cp c) = Some k \<Longrightarrow> cref k = Some r \<Longrightarrow> \<exists>w. When c = Some w \<and> w_Ref w = Raw r"
  by (auto simp: compileCase_def case_ref_def Let_def dest: parseRef_sound split: option.splits prod.splits sum.splits if_splits)

lemma compileBranch_written: "compileBranch s p = (ps, cs) \<Longrightarrow> cases_written (Cases s) cs"
  by (fastforce simp: compileBranch_def cases_written_def Let_def List.map_filter_def in_set_enumerate_eq
      dest: compileCase_written intro: nth_mem)

lemma compile_kind_written:
  "compile_kind v s p n ld = (n', ps, ld') \<Longrightarrow> cases n = [] \<Longrightarrow> cases_written (Cases s) (cases n')"
  by (auto simp: compile_kind_def dest: compileBranch_written split: if_splits prod.splits)

lemma compile0_written: "compile0 v s p i ld = (n, ps, ld') \<Longrightarrow> cases_written (Cases s) (cases n)"
  by (auto simp: compile0_def new_node_def Let_def dest!: compile_kind_written split: if_splits option.splits prod.splits)

lemma compile_written: "compile v s p ld = (n, ps, ld') \<Longrightarrow> written_as s n"
proof -
  assume c: "compile v s p ld = (n, ps, ld')"
  obtain k qs l where k: "compile0 v s p False ld = (k, qs, l)" using prod_cases3 by blast
  note f = compile0_fixed [OF k] compile0_written [OF k]
  show ?thesis
  proof (cases "known k \<and> SKind s = KindMap")
    case True
    then obtain qs' l' where m: "compileMap v s p k l = (n, qs', l')" using c by (auto simp: compile_def k split: prod.splits)
    show ?thesis
    proof (cases "Item s")
      case None
      then show ?thesis using m f by (auto simp: compileMap_def written_as_def Let_def split: prod.splits)
    next
      case (Some it)
      obtain j rs l2 where j: "compile0 v it (p @ ''.item'') True l = (j, rs, l2)" using prod_cases3 by blast
      show ?thesis using m f compile0_fixed [OF j] Some
        by (auto simp: compileMap_def written_as_def j Let_def split: prod.splits)
    qed
  next
    case False
    then show ?thesis using c f by (auto simp: compile_def k written_as_def split: if_splits)
  qed
qed

lemma collect_from_written:
  assumes "collect_from v i acc ld ss = (ns, ps, ld')" and "\<forall>n \<in> set acc. \<exists>s \<in> Ss. written_as s n" and "set ss \<subseteq> Ss"
  shows "\<forall>n \<in> set ns. \<exists>s \<in> Ss. written_as s n"
  using assms
proof (induction v i acc ld ss arbitrary: ns ps ld' rule: collect_from.induct)
  case (2 v i acc ld s ss)
  show ?case
  proof (cases "ID s = [] \<or> \<not> identifierPattern (ID s) \<or> ID s \<in> set (map nid acc)")
    case True
    obtain ms qs l where r: "collect_from v (Suc i) acc ld ss = (ms, qs, l)" using prod_cases3 by blast
    have "ns = ms" using "2.prems"(1) True unfolding collect_from.simps Let_def r prod.case by (auto split: if_splits)
    then show ?thesis using "2.IH"(1-3) r True "2.prems"(2,3) by (metis insert_subset list.simps(15))
  next
    case False
    obtain n qs ld1 where c: "compile v s (''steps.'' @ ID s) ld = (n, qs, ld1)" using prod_cases3 by blast
    obtain ms rs ld2 where r: "collect_from v (Suc i) (acc @ [n]) ld1 ss = (ms, rs, ld2)" using prod_cases3 by blast
    have "ns = ms" using "2.prems"(1) False unfolding collect_from.simps Let_def c prod.case r by (auto split: if_splits)
    moreover have "\<forall>m \<in> set (acc @ [n]). \<exists>s \<in> Ss. written_as s m"
      using "2.prems"(2,3) compile_written [OF c] by auto
    ultimately show ?thesis
      using "2.IH"(4) [OF _ _ _ _ c [symmetric] refl, of "''steps['' @ itoa (int i) @ ''].id''"] False r "2.prems"(3) by auto
  qed
qed auto

lemma resolve0_written:
  assumes "resolve0 ins fl ns n a itm = (m, ps)"
  shows "args_written (Input (nstep n)) (args m) \<and> nid m = nid n \<and> nstep m = nstep n \<and> cases m = cases n"
  using good_args_written [of n ins fl ns a itm] resolve0_args [OF assms] resolve0_same [OF assms] by (simp add: same0_def)

lemma resolveMap_written:
  assumes "resolveMap ins fl ns n = (m, ps)" and "written_as s n"
  shows "written_as s m"
proof -
  have item: "args_written (Input t) (args it')" "nstep it' = step0.truncate t"
    if "resolve0 ins fl ns it a elt = (it', qs)" "nstep it = step0.truncate t" for it it' t a elt qs
    using resolve0_written [OF that(1)] that(2) by simp_all
  show ?thesis
    using assms by (auto simp: resolveMap_def written_as_def Let_def dest: item split: option.splits sum.splits if_splits prod.splits)
qed

lemma resolve_written:
  assumes r: "resolve ins fl ns n = (m, ps)" and w: "written_as s n"
  shows "written_as s m"
proof -
  obtain n1 qs where z: "resolve0 ins fl ns n (Some (nid n)) None = (n1, qs)" by fastforce
  have n1: "written_as s n1"
    using resolve0_written [OF z] resolve0_item [OF z] w by (simp add: written_as_def)
  then show ?thesis using r resolveMap_written [of ins fl ns n1]
    by (auto simp: resolve_def z split: if_splits prod.splits)
qed

lemma resolve_steps_written:
  assumes "resolve_steps ins fl is ns = (ms, ps)" and "\<forall>n \<in> set ns. \<exists>s \<in> Ss. written_as s n"
  shows "\<forall>m \<in> set ms. \<exists>s \<in> Ss. written_as s m"
  using assms
proof (induction "is" arbitrary: ns ms ps)
  case (Cons i "is")
  show ?case
  proof (cases "\<exists>n. node_of ns i = Some n \<and> i \<in> set (freach fl) \<and> known n")
    case True
    then obtain n where n: "node_of ns i = Some n" "i \<in> set (freach fl)" "known n" by blast
    obtain n' qs where r: "resolve ins fl ns n = (n', qs)" by fastforce
    obtain ms' rs where s: "resolve_steps ins fl is (replace_node ns n') = (ms', rs)" by fastforce
    have "ms' = ms" using Cons.prems(1) n by (simp add: r s)
    moreover obtain st where "st \<in> Ss" "written_as st n" using node_of_Some [OF n(1)] Cons.prems(2) by blast
    then have "\<forall>m \<in> set (replace_node ns n'). \<exists>s \<in> Ss. written_as s m"
      using resolve_written [OF r] Cons.prems(2) by (auto simp: replace_node_def)
    ultimately show ?thesis using Cons.IH [OF s] by simp
  next
    case False
    then show ?thesis using Cons.prems Cons.IH [of ns ms] by (auto split: option.splits if_splits)
  qed
qed simp

lemma run_written:
  assumes "run h d = Some ([], v)"
  shows "\<forall>n \<in> set (vsteps v). \<exists>s \<in> set (Steps d). written_as s n" "distinct (map ID (Steps d))"
proof -
  obtain ns ld fl outs where c: "collectSteps (validator_of h d) = (ns, [], ld)"
    and r: "(if facyclic fl then resolve_steps (vinputs v) fl (forder fl) ns else (ns, [])) = (vsteps v, [])"
    using run_parts [OF assms] by metis
  show "distinct (map ID (Steps d))" using collectSteps_ok(2,4) [OF c] by simp
  obtain ms ps l where k: "collect_from (validator_of h d) 0 [] empty_loader (Steps d) = (ms, ps, l)" using prod_cases3 by blast
  have "ns = ms" using c by (simp add: collectSteps_def k)
  then have "\<forall>n \<in> set ns. \<exists>s \<in> set (Steps d). written_as s n" using collect_from_written [OF k, of "set (Steps d)"] by simp
  then show "\<forall>n \<in> set (vsteps v). \<exists>s \<in> set (Steps d). written_as s n"
    using r resolve_steps_written [of "vinputs v" fl "forder fl" ns "vsteps v" "[]" "set (Steps d)"] by (auto split: if_splits)
qed

section \<open>What is not listed does not depend on a sensitive input\<close>

definition agree :: "string list \<Rightarrow> val gomap \<Rightarrow> val gomap \<Rightarrow> bool" where
  "agree names a b \<longleftrightarrow> (\<forall>name. name \<notin> set names \<longrightarrow> map_of a name = map_of b name)"

lemma insensitive_ref:
  "agree names a b \<Longrightarrow> parseRef (Raw r) = Inr r \<Longrightarrow> \<not> sensitive_ref names (Raw r) \<Longrightarrow> resolveRef r a st itm = resolveRef r b st itm"
  by (auto simp: agree_def sensitive_ref_def resolveRef_def lookup_val_def)

lemma no_sensitive_ref [simp]: "\<not> sensitive_ref [] s"
  by (simp add: sensitive_ref_def split: sum.splits)

lemma sensitive_args_Nil [simp]: "sensitive_args [] s = []"
  by (auto simp: sensitive_args_def filter_empty_conv split: option.splits ynode.splits)

lemma listed_add: "listed (add_names i names m) j = (if j = i \<and> names \<noteq> [] then names else listed m j)"
  by (simp add: listed_def add_names_def put_lookup)

lemma listed_Nil [simp]: "listed [] i = []"
  by (simp add: listed_def)

lemma listed_fold:
  "distinct (map ID ss) \<Longrightarrow> listed (fold (\<lambda>s. add_names (ID s) (f s)) ss m) i =
     (case find (\<lambda>s. ID s = i \<and> f s \<noteq> []) ss of Some s \<Rightarrow> f s | None \<Rightarrow> listed m i)"
proof (induction ss arbitrary: m)
  case (Cons s ss)
  have "find (\<lambda>t. ID t = i \<and> f t \<noteq> []) ss = None" if "i = ID s"
    using Cons.prems that by (auto simp: find_None_iff image_iff)
  then show ?case using Cons by (auto simp: listed_add split: option.splits)
qed simp

lemma listed_step:
  assumes "distinct (map ID ss)" and "s \<in> set ss"
  shows "listed (fold (\<lambda>s. add_names (ID s) (f s)) ss []) (ID s) = f s"
proof (cases "f s = []")
  case True
  have "find (\<lambda>t. ID t = ID s \<and> f t \<noteq> []) ss = None"
    using assms True by (auto simp: find_None_iff dest!: inj_onD [of ID "set ss", rotated] simp: distinct_map)
  then show ?thesis using True by (simp add: listed_fold [OF assms(1)])
next
  case False
  have "find (\<lambda>t. ID t = ID s \<and> f t \<noteq> []) ss = Some s"
    by (rule find_unique) (use assms False in \<open>auto simp: distinct_map dest: inj_onD\<close>)
  then show ?thesis by (simp add: listed_fold [OF assms(1)])
qed

lemma fold_add_read: "set (fold (add_read names) cs acc) = set acc \<union> {s. sensitive_ref names s \<and> (\<exists>c \<in> set cs. \<exists>w. When c = Some w \<and> w_Ref w = s)}"
  by (induction cs arbitrary: acc) (auto simp: add_read_def split: option.splits if_splits)

lemma sensitivity_listed:
  assumes "distinct (map ID (Steps d))" and "s \<in> set (Steps d)"
  defines "names \<equiv> sensitive_inputs d"
  shows "se_Inputs (sensitivityOf d) = names"
    "listed (se_StepArgs (sensitivityOf d)) (ID s) = sensitive_args names s"
    "listed (se_ItemArgs (sensitivityOf d)) (ID s) = item_names names s"
    "set (listed (se_BranchReads (sensitivityOf d)) (ID s)) = {t. sensitive_ref names t \<and> (\<exists>c \<in> set (Cases s). \<exists>w. When c = Some w \<and> w_Ref w = t)}"
proof -
  show "se_Inputs (sensitivityOf d) = names" by (simp add: sensitivityOf_def names_def Let_def)
  show "listed (se_StepArgs (sensitivityOf d)) (ID s) = sensitive_args names s"
    by (simp add: sensitivityOf_def names_def [symmetric] Let_def listed_step [OF assms(1,2)])
  show "listed (se_ItemArgs (sensitivityOf d)) (ID s) = item_names names s"
    by (simp add: sensitivityOf_def names_def [symmetric] Let_def listed_step [OF assms(1,2)] item_names_def split: option.splits)
  show "set (listed (se_BranchReads (sensitivityOf d)) (ID s)) = {t. sensitive_ref names t \<and> (\<exists>c \<in> set (Cases s). \<exists>w. When c = Some w \<and> w_Ref w = t)}"
    by (simp add: sensitivityOf_def names_def [symmetric] Let_def listed_step [OF assms(1,2)] fold_add_read)
qed

lemma inputOf_lookup: "map_of (inputOf n a st itm) name = map_option (\<lambda>x. arg_value x a st itm) (map_of (args n) name)"
  by (simp add: inputOf_def map_of_map)

lemma unlisted_args:
  assumes ag: "agree names a b" and w: "args_written (Input s) (args n)" and name: "name \<notin> set (sensitive_args names s)"
  shows "map_of (inputOf n a st itm) name = map_of (inputOf n b st itm) name"
proof (cases "map_of (args n) name")
  case (Some x)
  have "arg_value x a st itm = arg_value x b st itm"
  proof (cases "AConst x \<or> ARef x = None")
    case False
    then obtain r where r: "\<not> AConst x" "ARef x = Some r" by auto
    have "(name, x) \<in> set (args n)" by (rule map_of_SomeD [OF Some])
    then obtain line where l: "parseRef (Raw r) = Inr r" "map_of (Input s) name = Some (YScalar ''!!str'' (Raw r) line)"
      using w r unfolding args_written_def by fastforce
    then have "\<not> sensitive_ref names (Raw r)"
      using name map_of_in_sortedKeys [OF l(2)] by (auto simp: sensitive_args_def)
    then show ?thesis using insensitive_ref [OF ag l(1)] r by (simp add: arg_value_def)
  qed (auto simp: arg_value_def)
  then show ?thesis by (simp add: inputOf_lookup Some)
qed (simp add: inputOf_lookup)

lemma fold_put_cong:
  assumes "\<And>c. c \<in> set cs \<Longrightarrow> k c = t \<Longrightarrow> f c = g c" and "map_of m t = map_of m' t"
  shows "map_of (fold (\<lambda>c m. put (k c) (f c) m) cs m) t = map_of (fold (\<lambda>c m. put (k c) (g c) m) cs m') t"
  using assms
proof (induction cs arbitrary: m m')
  case (Cons c cs)
  have "map_of (put (k c) (f c) m) t = map_of (put (k c) (g c) m') t" using Cons.prems by (auto simp: put_lookup)
  then show ?case using Cons.IH Cons.prems(1) by simp
qed simp

lemma decide_read: "d_Read (decide n rd) = fold (\<lambda>c m. put (Raw (case_ref_of c)) (rd (case_ref_of c)) m) (cases n) []"
  by (simp add: decide_def Let_def split: option.splits prod.splits)

lemma map_of_map_filter:
  "map_of (List.map_filter (\<lambda>k. map_option (Pair k) (f k)) ks) k = (if k \<in> set ks then f k else None)"
  by (induction ks) (auto simp: List.map_filter_simps split: option.splits)

lemma output_lookup: "map_of (RunOutputs d a st) name = Option.bind (map_of (Outputs d) name) (output_value a st)"
proof -
  define f where "f name = Option.bind (map_of (Outputs d) name) (output_value a st)" for name
  have "RunOutputs d a st = List.map_filter (\<lambda>name. map_option (Pair name) (f name)) (sortedKeys (Outputs d))"
    unfolding RunOutputs_def f_def by (rule arg_cong [where f = "\<lambda>g. List.map_filter g _"]) (auto split: option.splits)
  then show ?thesis by (cases "map_of (Outputs d) name") (auto simp: map_of_map_filter f_def set_sortedKeys_dom)
qed

lemma unlisted_outputs:
  assumes "agree (sensitive_inputs d) a b" and "name \<notin> set (se_Outputs (sensitivityOf d))"
  shows "map_of (RunOutputs d a st) name = map_of (RunOutputs d b st) name"
proof (cases "map_of (Outputs d) name")
  case (Some s)
  have "\<not> sensitive_ref (sensitive_inputs d) s"
  proof (cases "sensitive_inputs d = []")
    case False
    then show ?thesis using assms(2) Some map_of_in_sortedKeys [OF Some] by (auto simp: sensitivityOf_def Let_def)
  qed simp
  then have "output_value a st s = output_value b st s"
    using assms(1) by (auto simp: output_value_def sensitive_ref_def agree_def lookup_val_def split: sum.splits)
  then show ?thesis by (simp add: output_lookup Some)
qed (simp add: output_lookup)

lemma unlisted_step:
  assumes r: "run h d = Some ([], v)" and ag: "agree (se_Inputs (sensitivityOf d)) a b" and n: "step_of v i = Some n"
  shows "name \<notin> set (listed (se_StepArgs (sensitivityOf d)) i) \<Longrightarrow> map_of (inputOf n a st itm) name = map_of (inputOf n b st itm) name"
    and "item n = Some m \<Longrightarrow> name \<notin> set (listed (se_ItemArgs (sensitivityOf d)) i) \<Longrightarrow>
      map_of (inputOf m a st itm) name = map_of (inputOf m b st itm) name"
    and "nkind n = KindBranch \<Longrightarrow> name \<notin> set (listed (se_BranchReads (sensitivityOf d)) i) \<Longrightarrow>
      lookup_val (d_Read (decide n (\<lambda>r. resolveRef r a st itm))) name = lookup_val (d_Read (decide n (\<lambda>r. resolveRef r b st itm))) name"
    and "nkind n = KindMap \<Longrightarrow> over n = Some q \<Longrightarrow> resolveRef q a st itm = resolveRef q b st itm"
proof -
  obtain fl where p: "plan_ok h d v fl" using run_ok [OF r] by blast
  note pn = plan_node [OF p n]
  obtain s where s: "s \<in> set (Steps d)" "written_as s n" using run_written(1) [OF r] pn(1) by blast
  have i: "ID s = i" using s(2) pn(2) by (simp add: written_as_def)
  note l = sensitivity_listed [OF run_written(2) [OF r] s(1), unfolded i]
  note ag' = ag [unfolded l(1)]
  show "map_of (inputOf n a st itm) name = map_of (inputOf n b st itm) name"
    if "name \<notin> set (listed (se_StepArgs (sensitivityOf d)) i)"
    using unlisted_args [OF ag'] s(2) that unfolding l(2) written_as_def by blast
  show "map_of (inputOf m a st itm) name = map_of (inputOf m b st itm) name"
    if m: "item n = Some m" and "name \<notin> set (listed (se_ItemArgs (sensitivityOf d)) i)"
  proof -
    obtain t where t: "Item s = Some t" "args_written (Input t) (args m)" using s(2) m by (auto simp: written_as_def)
    then show ?thesis using unlisted_args [OF ag' t(2)] that(2) unfolding l(3) item_names_def by simp
  qed
  show "lookup_val (d_Read (decide n (\<lambda>r. resolveRef r a st itm))) name = lookup_val (d_Read (decide n (\<lambda>r. resolveRef r b st itm))) name"
    if b: "nkind n = KindBranch" and name: "name \<notin> set (listed (se_BranchReads (sensitivityOf d)) i)"
  proof -
    have "resolveRef (case_ref_of c) a st itm = resolveRef (case_ref_of c) b st itm"
      if c: "c \<in> set (cases n)" "Raw (case_ref_of c) = name" for c
    proof -
      have ok: "case_ok c" using plan_branch(2) [OF p n b] c(1) by blast
      then obtain k where k: "cref c = Some k" by (auto simp: case_ok_def)
      then obtain u w where "u \<in> set (Cases s)" "When u = Some w" "w_Ref w = name"
        using s(2) c by (fastforce simp: written_as_def cases_written_def case_ref_of_def)
      then have "\<not> sensitive_ref (sensitive_inputs d) (Raw (case_ref_of c))" using name c(2) unfolding l(4) by auto
      then show ?thesis by (rule insensitive_ref [OF ag' case_ok_ref [OF ok]])
    qed
    then show ?thesis unfolding lookup_val_def decide_read by (subst fold_put_cong [where m' = "[]"]) auto
  qed
  show "resolveRef q a st itm = resolveRef q b st itm" if m: "nkind n = KindMap" "over n = Some q"
  proof -
    obtain n0 where n0: "node_ok (validator_of h d) n0" "same_node n n0" using pn(4) by blast
    then have "Root q = refSteps" using m by (auto simp: node_ok_def item_ok_def same_node_def same0_def)
    then show ?thesis by (simp add: resolveRef_def)
  qed
qed

end
