(* ===== verification/Calendar.thy ===== *)
theory Calendar
  imports GoNum
begin

text \<open>
  The civil calendar of Go's \<^verbatim>\<open>time\<close> package, as far as schedules use it: dates as days since
  1 January of year 1, their year, month, day and weekday, and the text of a date and a time. The
  package's calendar is the proleptic Gregorian one.
\<close>

section \<open>Years and months\<close>

definition leap :: "int \<Rightarrow> bool" where
  "leap y \<longleftrightarrow> y mod 4 = 0 \<and> (y mod 100 \<noteq> 0 \<or> y mod 400 = 0)"

text \<open>The day number of 1 January.\<close>

definition year_start :: "int \<Rightarrow> int" where
  "year_start y = 365 * (y - 1) + (y - 1) div 4 - (y - 1) div 100 + (y - 1) div 400"

definition month_lengths :: "int \<Rightarrow> nat list" where
  "month_lengths y = [31, if leap y then 29 else 28, 31, 30, 31, 30, 31, 31, 30, 31, 30, 31]"

text \<open>The month and day of a day of the year, walking the months.\<close>

fun month_day :: "nat list \<Rightarrow> nat \<Rightarrow> nat \<Rightarrow> nat \<times> nat" where
  "month_day [] m d = (m, d + 1)"
| "month_day (l # ls) m d = (if d < l then (m, d + 1) else month_day ls (Suc m) (d - l))"

definition year_of :: "int \<Rightarrow> int" where
  "year_of n = (let y = 400 * n div 146097 + 1 in
     if n < year_start y then y - 1 else if year_start (y + 1) \<le> n then y + 1 else y)"

record civil =
  cyear :: int
  cmonth :: nat
  cday :: nat

definition civil_of :: "int \<Rightarrow> civil" where
  "civil_of n = (let y = year_of n; (m, d) = month_day (month_lengths y) 1 (nat (n - year_start y)) in
     \<lparr>cyear = y, cmonth = m, cday = d\<rparr>)"

text \<open>Day 0 is a Monday; Sunday is weekday 0.\<close>

definition weekday_of :: "int \<Rightarrow> nat" where
  "weekday_of n = nat ((n + 1) mod 7)"

definition day_of :: "civil \<Rightarrow> int" where
  "day_of c = year_start (cyear c) + int (sum_list (take (cmonth c - 1) (month_lengths (cyear c)))) + int (cday c) - 1"

section \<open>Text\<close>

definition pad :: "nat \<Rightarrow> int \<Rightarrow> string" where
  "pad w n = (let t = nat_text (nat \<bar>n\<bar>) in (if n < 0 then ''-'' else []) @ replicate (w - length t) (CHR ''0'') @ t)"

definition date_text :: "int \<Rightarrow> string" where
  "date_text n = (let c = civil_of n in pad 4 (cyear c) @ ''-'' @ pad 2 (int (cmonth c)) @ ''-'' @ pad 2 (int (cday c)))"

definition time_text :: "nat \<Rightarrow> nat \<Rightarrow> string" where
  "time_text h m = pad 2 (int h) @ '':'' @ pad 2 (int m)"

section \<open>Every day has one date\<close>

lemma div_pred:
  fixes y k :: int
  assumes "0 < k"
  shows "(y - 1) div k = (if y mod k = 0 then y div k - 1 else y div k)"
proof (cases "y mod k = 0")
  case True
  have "y - 1 = k * (y div k - 1) + (k - 1)" using mult_div_mod_eq [of k y] True by (simp add: algebra_simps)
  then have "(y - 1) div k = y div k - 1" by (rule int_div_pos_eq) (use assms in simp_all)
  with True show ?thesis by simp
next
  case False
  have "y - 1 = k * (y div k) + (y mod k - 1)" using mult_div_mod_eq [of k y] by simp
  moreover have "0 \<le> y mod k" "y mod k < k" using assms by simp_all
  ultimately have "(y - 1) div k = y div k" using False by (intro int_div_pos_eq [where r = "y mod k - 1"]) simp_all
  with False show ?thesis by simp
qed

lemma mod_400: "(y :: int) mod 400 = 0 \<Longrightarrow> y mod 100 = 0 \<and> y mod 4 = 0"
  using mod_mod_cancel [of 100 400 y] mod_mod_cancel [of 4 400 y] by simp

lemma mod_100: "(y :: int) mod 100 = 0 \<Longrightarrow> y mod 4 = 0"
  using mod_mod_cancel [of 4 100 y] by simp

lemma year_length: "year_start (y + 1) = year_start y + (if leap y then 366 else 365)"
  using mod_400 [of y] mod_100 [of y] by (auto simp: year_start_def leap_def div_pred)

text \<open>The estimate of the year is off by at most one.\<close>

lemma div_bounds:
  fixes y k :: int
  assumes "0 < k"
  shows "k * (y div k) \<le> y" "y < k * (y div k) + k"
  using mult_div_mod_eq [of k y] pos_mod_bound [OF assms, of y] pos_mod_sign [OF assms, of y] by linarith+

lemma year_start_low: "400 * year_start y + 145701 \<le> 146097 * y"
proof -
  define a b c where "a = (y - 1) div 4" and "b = (y - 1) div 100" and "c = (y - 1) div 400"
  have "4 * a \<le> y - 1" "y - 1 < 100 * b + 100" "400 * c \<le> y - 1"
    unfolding a_def b_def c_def by (rule div_bounds; simp)+
  then show ?thesis unfolding year_start_def a_def [symmetric] b_def [symmetric] c_def [symmetric] by simp
qed

lemma year_start_high: "146097 * y \<le> 400 * year_start y + 146796"
proof -
  define a b c where "a = (y - 1) div 4" and "b = (y - 1) div 100" and "c = (y - 1) div 400"
  have "y - 1 < 4 * a + 4" "100 * b \<le> y - 1" "y - 1 < 400 * c + 400"
    unfolding a_def b_def c_def by (rule div_bounds; simp)+
  then show ?thesis unfolding year_start_def a_def [symmetric] b_def [symmetric] c_def [symmetric] by simp
qed

lemma year_of_bounds: "year_start (year_of n) \<le> n \<and> n < year_start (year_of n + 1)"
proof -
  define q where "q = 400 * n div 146097"
  have q: "146097 * q \<le> 400 * n" "400 * n < 146097 * q + 146097"
    using div_bounds [of 146097 "400 * n"] unfolding q_def by simp_all
  have low: "year_start q \<le> n" using q year_start_low [of q] by linarith
  have high: "n < year_start (q + 3)" using q year_start_high [of "q + 3"] by simp
  have "year_of n = (if n < year_start (q + 1) then q else if year_start (q + 2) \<le> n then q + 2 else q + 1)"
    unfolding year_of_def Let_def q_def [symmetric] by (simp add: add.assoc)
  then show ?thesis using low high by (auto simp: add.assoc split: if_splits)
qed

lemma month_day_spec:
  "d < sum_list ls \<Longrightarrow> month_day ls m d = (m', d') \<Longrightarrow>
     m \<le> m' \<and> m' - m < length ls \<and> 1 \<le> d' \<and> d' \<le> ls ! (m' - m) \<and> sum_list (take (m' - m) ls) + d' = d + 1"
proof (induction ls m d rule: month_day.induct)
  case (2 l ls m d)
  show ?case
  proof (cases "d < l")
    case False
    then have "Suc m \<le> m' \<and> m' - Suc m < length ls \<and> 1 \<le> d' \<and> d' \<le> ls ! (m' - Suc m) \<and>
        sum_list (take (m' - Suc m) ls) + d' = d - l + 1"
      using "2.IH" "2.prems" by simp
    moreover from this have "m' - m = Suc (m' - Suc m)" by linarith
    ultimately show ?thesis using False by (auto simp: algebra_simps)
  qed (use "2.prems" in auto)
qed simp

lemma month_lengths_sum: "sum_list (month_lengths y) = (if leap y then 366 else 365)" "length (month_lengths y) = 12"
  by (simp_all add: month_lengths_def)

text \<open>A date is a month of 1 to 12 and a day of that month, and it is the date of its day only.\<close>

definition valid_date :: "civil \<Rightarrow> bool" where
  "valid_date c \<longleftrightarrow> 1 \<le> cmonth c \<and> cmonth c \<le> 12 \<and> 1 \<le> cday c \<and> cday c \<le> month_lengths (cyear c) ! (cmonth c - 1)"

lemma civil_of_day: "day_of (civil_of n) = n \<and> valid_date (civil_of n)"
proof -
  define y where "y = year_of n"
  define d where "d = nat (n - year_start y)"
  obtain m k where md: "month_day (month_lengths y) 1 d = (m, k)" by fastforce
  have b: "year_start y \<le> n" "n < year_start (y + 1)" using year_of_bounds [of n] by (simp_all add: y_def)
  then have "d < sum_list (month_lengths y)"
    using year_length [of y] by (auto simp: month_lengths_sum d_def)
  note s = month_day_spec [OF this md]
  have c: "civil_of n = \<lparr>cyear = y, cmonth = m, cday = k\<rparr>" by (simp add: civil_of_def y_def [symmetric] d_def [symmetric] md [simplified] Let_def)
  have "int (sum_list (take (m - 1) (month_lengths y))) + int k = n - year_start y + 1"
    using s b by (simp add: d_def flip: of_nat_add)
  moreover have "m - 1 < 12" using s by (simp add: month_lengths_sum)
  moreover from this have "m \<le> 12" by linarith
  ultimately show ?thesis using s by (simp add: c day_of_def valid_date_def month_lengths_sum)
qed

lemma civil_of_inj: "civil_of m = civil_of n \<longleftrightarrow> m = n"
  using civil_of_day by metis

lemma weekday_of_bound: "weekday_of n < 7"
  by (simp add: weekday_of_def nat_less_iff)

end
