(* ===== verification/Timetable.thy ===== *)
theory Timetable
  imports Calendar Validate Execute
begin

text \<open>
  Workflow Schedules (schedule.go): the slots of a validated cron in a timezone, the first slot
  after a cursor, the slots due in a window, and a scheduled run's inputs. An instant is in
  seconds since 1970 (a cursor's in nanoseconds); a nominal time is the same number read on the
  wall clock. The timezone database is a parameter: the offset in effect at an instant, and when
  the zone in effect at it began.
\<close>

section \<open>Timezones\<close>

record zone =
  offset_at :: "int \<Rightarrow> int"
  zone_start :: "int \<Rightarrow> int option"

definition nano :: int where "nano = 1000000000"

text \<open>The day number of 1 January 1970.\<close>

definition epoch_day :: int where "epoch_day = 719162"

text \<open>The zero \<^verbatim>\<open>time.Time\<close>: 1 January of year 1.\<close>

definition zero_time :: int where "zero_time = - 62135596800"

definition local_time :: "zone \<Rightarrow> int \<Rightarrow> int" where
  "local_time z t = t + offset_at z t"

definition day_number :: "int \<Rightarrow> int" where
  "day_number w = epoch_day + w div 86400"

definition hour_of :: "int \<Rightarrow> int" where "hour_of w = w mod 86400 div 3600"
definition minute_of :: "int \<Rightarrow> int" where "minute_of w = w mod 3600 div 60"

definition sameWall :: "int \<Rightarrow> int \<Rightarrow> bool" where
  "sameWall l nominal \<longleftrightarrow> civil_of (day_number l) = civil_of (day_number nominal) \<and> hour_of l = hour_of nominal \<and>
     minute_of l = minute_of nominal"

text \<open>\<^verbatim>\<open>civilDate\<close>: the local date of an instant, as a day number.\<close>

definition civilDate :: "zone \<Rightarrow> int \<Rightarrow> int" where
  "civilDate z t = day_of (civil_of (day_number (local_time z t)))"

section \<open>The instant of a nominal time\<close>

definition probes :: "int list" where
  "probes = [- 36 * 3600, - 12 * 3600, 0, 12 * 3600, 36 * 3600]"

record search =
  best :: int
  latest :: int
  found :: bool

definition probe_step :: "zone \<Rightarrow> int \<Rightarrow> int \<Rightarrow> search \<Rightarrow> search" where
  "probe_step z nominal probe s = (let c = nominal - offset_at z (nominal + probe);
      s1 = (if latest s = zero_time \<or> latest s < c then s\<lparr>latest := c\<rparr> else s) in
    if sameWall (local_time z c) nominal \<and> (\<not> found s \<or> c < best s) then s1\<lparr>best := c, found := True\<rparr> else s1)"

definition instant :: "zone \<Rightarrow> int \<Rightarrow> int \<times> bool" where
  "instant z nominal = (let s = fold (probe_step z nominal) probes \<lparr>best = zero_time, latest = zero_time, found = False\<rparr> in
     if found s then (best s, False)
     else (case zone_start z (latest s) of
         None \<Rightarrow> (latest s, True)
       | Some t \<Rightarrow> if t = zero_time \<or> latest s < t then (latest s, True) else (t, True)))"

section \<open>Timetables and slots\<close>

record timetable =
  tt_Cron :: string
  tt_Timezone :: string
  tt_spec :: cronSpec
  tt_zone :: zone

record slot =
  Key :: string
  Date :: string
  Time :: string
  due_at :: int
  Shifted :: bool

record slotCursor =
  At :: int
  AtKey :: string

definition Follows :: "slotCursor \<Rightarrow> slot \<Rightarrow> bool" where
  "Follows c s \<longleftrightarrow> At c < nano * due_at s \<or> AtKey c \<noteq> [] \<and> nano * due_at s = At c \<and> AtKey c < Key s"

definition nominal_at :: "int \<Rightarrow> nat \<Rightarrow> nat \<Rightarrow> int" where
  "nominal_at day h m = (day - epoch_day) * 86400 + int h * 3600 + int m * 60"

definition slot_at :: "timetable \<Rightarrow> int \<Rightarrow> nat \<Rightarrow> nat \<Rightarrow> slot" where
  "slot_at t day h m = (let (due, shifted) = instant (tt_zone t) (nominal_at day h m) in
     \<lparr>Key = date_text day @ ''T'' @ time_text h m, Date = date_text day, Time = time_text h m, due_at = due, Shifted = shifted\<rparr>)"

definition day_matches :: "cronSpec \<Rightarrow> int \<Rightarrow> bool" where
  "day_matches c day = dayMatches c (cmonth (civil_of day)) (cday (civil_of day)) (weekday_of day)"

definition slotsOn :: "timetable \<Rightarrow> int \<Rightarrow> slot list" where
  "slotsOn t day = (if \<not> day_matches (tt_spec t) day then []
     else concat (map (\<lambda>h. map (slot_at t day h) (filter (\<lambda>m. minutes (tt_spec t) ! m) [0..<60]))
       (filter (\<lambda>h. hours (tt_spec t) ! h) [0..<24])))"

definition maxScheduleScanDays :: int where "maxScheduleScanDays = 400"
definition maxScheduleHorizonDays :: nat where "maxScheduleHorizonDays = 8 * 366"

text \<open>A cursor's instant in whole seconds, which decides the offset in effect at it.\<close>

definition seconds :: "int \<Rightarrow> int" where "seconds t = t div nano"

fun next_from :: "timetable \<Rightarrow> slotCursor \<Rightarrow> nat \<Rightarrow> int \<Rightarrow> slot option" where
  "next_from t c 0 day = None"
| "next_from t c (Suc n) day = (case find (Follows c) (slotsOn t day) of
     Some s \<Rightarrow> Some s | None \<Rightarrow> next_from t c n (day + 1))"

definition NextSlot :: "timetable \<Rightarrow> slotCursor \<Rightarrow> slot option" where
  "NextSlot t c = next_from t c maxScheduleHorizonDays (civilDate (tt_zone t) (seconds (At c)) - 1)"

record slotWindow =
  First :: "slot option"
  Latest :: "slot list"
  Total :: int
  Truncated :: bool

definition add_slot :: "slotCursor \<Rightarrow> int \<Rightarrow> int \<Rightarrow> slot \<Rightarrow> slotWindow \<Rightarrow> slotWindow" where
  "add_slot c until keep s w = (if \<not> Follows c s \<or> until < nano * due_at s then w
     else w\<lparr>First := (case First w of None \<Rightarrow> Some s | Some f \<Rightarrow> Some f), Total := Total w + 1,
       Latest := (if 0 < keep then (if int (length (Latest w)) = keep then tl (Latest w) else Latest w) @ [s] else Latest w)\<rparr>)"

text \<open>The days \<^verbatim>\<open>Due\<close> scans, and whether the bound cut them.\<close>

definition due_range :: "timetable \<Rightarrow> slotCursor \<Rightarrow> int \<Rightarrow> int \<times> int \<times> bool" where
  "due_range t c until = (let start = civilDate (tt_zone t) (seconds (At c)) - 1;
      end_day = civilDate (tt_zone t) (seconds until) + 1; bound = end_day - maxScheduleScanDays in
    if start < bound then (bound, end_day, True) else (start, end_day, False))"

definition DueSlots :: "timetable \<Rightarrow> slotCursor \<Rightarrow> int \<Rightarrow> int \<Rightarrow> slotWindow" where
  "DueSlots t c until keep = (let (start, end_day, cut_off) = due_range t c until in
     fold (add_slot c until keep) (concat (map (slotsOn t) [start..end_day]))
       \<lparr>First = None, Latest = [], Total = 0, Truncated = cut_off\<rparr>)"

section \<open>A definition's schedule\<close>

definition NewTimetable :: "(string \<Rightarrow> zone option) \<Rightarrow> string \<Rightarrow> string \<Rightarrow> (errmsg + timetable) run option" where
  "NewTimetable location cron timezone = (case parseCron cron of
     None \<Rightarrow> None
   | Some Panic \<Rightarrow> Some Panic
   | Some (Done (Inl e)) \<Rightarrow> Some (Done (Inl e))
   | Some (Done (Inr cs)) \<Rightarrow> Some (Done (
       if timezone = [] \<or> timezone = ''Local'' then
         Inl (Errf ''name an IANA timezone such as America/New_York, not %q'' [S timezone])
       else (case location timezone of
           None \<Rightarrow> Inl (Errf ''unknown timezone %s'' [S timezone])
         | Some z \<Rightarrow> Inr \<lparr>tt_Cron = join '' '' (splitFields cron), tt_Timezone = timezone, tt_spec = cs, tt_zone = z\<rparr>))))"

record scheduleSpec =
  sc_Timetable :: timetable
  sc_CatchUp :: string
  sc_MaxRuns :: int

definition ScheduleOf :: "(string \<Rightarrow> zone option) \<Rightarrow> validated \<Rightarrow> scheduleSpec option run option" where
  "ScheduleOf location v = (case Schedule (vdefinition v) of
     None \<Rightarrow> Some (Done None)
   | Some s \<Rightarrow> (case s_CatchUp s of
       None \<Rightarrow> Some (Done None)
     | Some cu \<Rightarrow> (case NewTimetable location (s_Cron s) (s_Timezone s) of
         None \<Rightarrow> None
       | Some Panic \<Rightarrow> Some Panic
       | Some (Done (Inl e)) \<Rightarrow> Some (Done None)
       | Some (Done (Inr t)) \<Rightarrow> Some (Done (Some \<lparr>sc_Timetable = t, sc_CatchUp = c_Policy cu, sc_MaxRuns = c_MaxRuns cu\<rparr>)))))"

definition schedule_value :: "slot \<Rightarrow> string \<Rightarrow> ynode \<Rightarrow> errmsg + string \<times> string" where
  "schedule_value s name node = (case nodeValue node of
     Inl e \<Rightarrow> Inl (Errf ''schedule.inputs.%s: %v'' [S name, E e])
   | Inr x \<Rightarrow> (case (case x of VStr t \<Rightarrow> if isRefText t then Some t else None | _ \<Rightarrow> None) of
       None \<Rightarrow> Inr (name, canonicalBytes x)
     | Some t \<Rightarrow> (case parseRef t of
         Inl e \<Rightarrow> Inl (Errf ''schedule.inputs.%s: %s is not a schedule value'' [S name, S t])
       | Inr r \<Rightarrow> if Root r \<noteq> refSchedule then Inl (Errf ''schedule.inputs.%s: %s is not a schedule value'' [S name, S t])
           else Inr (name, canonicalBytes (VStr (if RName r = ''time'' then Time s else Date s))))))"

definition ScheduleInputs :: "validated \<Rightarrow> slot \<Rightarrow> errmsg + string gomap" where
  "ScheduleInputs v s = (case Schedule (vdefinition v) of
     None \<Rightarrow> Inl (Errf ''workflow %s has no schedule'' [S (DName (vdefinition v))])
   | Some sch \<Rightarrow> map_err (\<lambda>name. schedule_value s name (the (map_of (s_Inputs sch) name))) (sortedKeys (s_Inputs sch)))"

end
