(* ===== verification/Scheduled.thy ===== *)
theory Scheduled
  imports Timetable
begin

text \<open>
  What the slots of a timetable are. The due instant of a nominal time is the first at which the
  timezone's wall clock has reached it; the slots of a window are those of the nominal times the
  cron matches, each once and in due order.
\<close>

section \<open>Reading a nominal time\<close>

lemma div_60: "(l :: int) div 60 = 1440 * (l div 86400) + 60 * hour_of l + minute_of l"
proof -
  define q where "q = l div 60"
  have d: "l div 3600 = q div 60" "l div 86400 = q div 60 div 24"
    using zdiv_zmult2_eq [of 60 l 60] zdiv_zmult2_eq [of 24 "l" 3600] by (simp_all add: q_def)
  have "hour_of l = q div 60 mod 24"
    using zmod_zmult2_eq [of 24 l 3600] by (simp add: hour_of_def d)
  moreover have "minute_of l = q mod 60"
    using zmod_zmult2_eq [of 60 l 60] by (simp add: minute_of_def q_def)
  ultimately show ?thesis
    using mult_div_mod_eq [of 60 q] mult_div_mod_eq [of 24 "q div 60"] unfolding d q_def [symmetric] by linarith
qed

lemma hour_minute_bounds: "0 \<le> hour_of l" "hour_of l < 24" "0 \<le> minute_of l" "minute_of l < 60"
proof -
  have "l mod 86400 < 86400" "l mod 3600 < 3600" by simp_all
  then have "l mod 86400 div 3600 < 24" "l mod 3600 div 60 < 60" by linarith+
  then show "0 \<le> hour_of l" "hour_of l < 24" "0 \<le> minute_of l" "minute_of l < 60"
    by (simp_all add: hour_of_def minute_of_def pos_imp_zdiv_nonneg_iff)
qed

lemma radix_eq:
  fixes a b c a' b' c' :: int
  assumes "1440 * a + 60 * b + c = 1440 * a' + 60 * b' + c'"
    and "0 \<le> b" "b < 24" "0 \<le> b'" "b' < 24" "0 \<le> c" "c < 60" "0 \<le> c'" "c' < 60"
  shows "a = a' \<and> b = b' \<and> c = c'"
proof -
  have "a \<le> a'" "a' \<le> a" using assms by linarith+
  then have "a = a'" by simp
  moreover from this have "b \<le> b'" "b' \<le> b" using assms by linarith+
  ultimately show ?thesis using assms(1) by simp
qed

lemma sameWall_iff: "sameWall l w \<longleftrightarrow> l div 60 = w div 60"
proof
  assume "sameWall l w"
  then show "l div 60 = w div 60" using div_60 [of l] div_60 [of w]
    by (simp add: sameWall_def civil_of_inj day_number_def)
next
  assume e: "l div 60 = w div 60"
  have "1440 * (l div 86400) + 60 * hour_of l + minute_of l = 1440 * (w div 86400) + 60 * hour_of w + minute_of w"
    using e div_60 [of l] div_60 [of w] by simp
  then have "l div 86400 = w div 86400 \<and> hour_of l = hour_of w \<and> minute_of l = minute_of w"
    by (rule radix_eq) (rule hour_minute_bounds)+
  then show "sameWall l w" by (simp add: sameWall_def day_number_def)
qed

lemma nominal_fields:
  assumes "h < 24" and "m < 60"
  shows "day_number (nominal_at day h m) = day" "hour_of (nominal_at day h m) = int h" "minute_of (nominal_at day h m) = int m"
    "60 dvd nominal_at day h m"
proof -
  define r where "r = int h * 3600 + int m * 60"
  have r: "0 \<le> r" "r < 86400" using assms by (simp_all add: r_def)
  have w: "nominal_at day h m = r + 86400 * (day - epoch_day)" by (simp add: nominal_at_def r_def)
  show "day_number (nominal_at day h m) = day" unfolding day_number_def w using r by (simp add: div_pos_pos_trivial)
  have "nominal_at day h m mod 86400 = r" unfolding w mod_mult_self2 using r by (rule mod_pos_pos_trivial)
  moreover have "r div 3600 = int h" using assms by (simp add: r_def)
  ultimately show "hour_of (nominal_at day h m) = int h" by (simp add: hour_of_def)
  have "nominal_at day h m = int m * 60 + 3600 * (int h + 24 * (day - epoch_day))" by (simp add: nominal_at_def)
  then have "nominal_at day h m mod 3600 = int m * 60" using assms by (simp only: mod_mult_self2) simp
  then show "minute_of (nominal_at day h m) = int m" by (simp add: minute_of_def)
  show "60 dvd nominal_at day h m" unfolding nominal_at_def by (intro dvd_add) auto
qed

lemma nominal_of: "60 dvd w \<Longrightarrow> nominal_at (day_number w) (nat (hour_of w)) (nat (minute_of w)) = w"
  using div_60 [of w] hour_minute_bounds [of w] by (auto simp: nominal_at_def day_number_def elim!: dvdE)

section \<open>The instant of a nominal time\<close>

text \<open>
  The timezones the properties are about, on a range of nominal times: offsets of at most a day,
  and around every nominal time of the range (36 hours before and after, which is what \<^verbatim>\<open>instant\<close>
  probes) at most one change of offset, by a minute or more and at most a day, whose zone begins
  there. Offsets need not be whole minutes, as the local mean times of the nineteenth century are
  not. The range begins four days after the zero time, which is a marker in the code.
\<close>

definition window :: int where "window = 129600"
definition first_time :: int where "first_time = zero_time + 345600"

definition spaced :: "zone \<Rightarrow> int \<Rightarrow> bool" where
  "spaced z w \<longleftrightarrow> (\<exists>T a b. (\<forall>t. w - window \<le> t \<longrightarrow> t \<le> w + window \<longrightarrow> offset_at z t = (if t < T then a else b)) \<and>
     \<bar>a - b\<bar> \<le> 86400 \<and> (a \<noteq> b \<longrightarrow> 60 \<le> \<bar>a - b\<bar> \<and> (\<forall>t. T \<le> t \<longrightarrow> t \<le> w + window \<longrightarrow> zone_start z t = Some T)))"

definition zone_ok :: "zone \<Rightarrow> int \<Rightarrow> int \<Rightarrow> bool" where
  "zone_ok z lo hi \<longleftrightarrow> first_time \<le> lo \<and> (\<forall>t. \<bar>offset_at z t\<bar> \<le> 86400) \<and> (\<forall>w. lo \<le> w \<longrightarrow> w \<le> hi \<longrightarrow> spaced z w)"

lemma zone_spaced: "zone_ok z lo hi \<Longrightarrow> lo \<le> w \<Longrightarrow> w \<le> hi \<Longrightarrow> spaced z w"
  by (simp add: zone_ok_def)

lemma zone_from: "zone_ok z lo hi \<Longrightarrow> lo \<le> w \<Longrightarrow> first_time \<le> w"
  by (simp add: zone_ok_def)

text \<open>The change can be placed so that it separates the first probe from the last.\<close>

definition split_at_change :: "zone \<Rightarrow> int \<Rightarrow> int \<Rightarrow> int \<Rightarrow> int \<Rightarrow> bool" where
  "split_at_change z w T a b \<longleftrightarrow> (\<forall>t. w - window \<le> t \<longrightarrow> t \<le> w + window \<longrightarrow> offset_at z t = (if t < T then a else b)) \<and>
     \<bar>a - b\<bar> \<le> 86400 \<and> (a \<noteq> b \<longrightarrow> 60 \<le> \<bar>a - b\<bar> \<and> (\<forall>t. T \<le> t \<longrightarrow> t \<le> w + window \<longrightarrow> zone_start z t = Some T))"

lemma spaced_normal:
  assumes "spaced z w"
  shows "\<exists>T. split_at_change z w T (offset_at z (w - window)) (offset_at z (w + window))"
proof -
  obtain T a b where s: "split_at_change z w T a b" using assms by (auto simp: spaced_def split_at_change_def)
  consider "T \<le> w - window" | "w + window < T" | "w - window < T" "T \<le> w + window" by linarith
  then show ?thesis
  proof cases
    case 1
    then have "split_at_change z w w b b" "offset_at z (w - window) = b" "offset_at z (w + window) = b"
      using s by (auto simp: split_at_change_def window_def)
    then show ?thesis by auto
  next
    case 2
    then have "split_at_change z w w a a" "offset_at z (w - window) = a" "offset_at z (w + window) = a"
      using s by (auto simp: split_at_change_def window_def)
    then show ?thesis by auto
  next
    case 3
    then have "offset_at z (w - window) = a" "offset_at z (w + window) = b"
      using s by (auto simp: split_at_change_def window_def)
    then show ?thesis using s by auto
  qed
qed

definition candidate :: "zone \<Rightarrow> int \<Rightarrow> int \<Rightarrow> int" where
  "candidate z w p = w - offset_at z (w + p)"

definition valid_at :: "zone \<Rightarrow> int \<Rightarrow> int \<Rightarrow> bool" where
  "valid_at z w p \<longleftrightarrow> sameWall (local_time z (candidate z w p)) w"

definition search_inv :: "zone \<Rightarrow> int \<Rightarrow> int set \<Rightarrow> search \<Rightarrow> bool" where
  "search_inv z w P s \<longleftrightarrow> (found s \<longleftrightarrow> (\<exists>p \<in> P. valid_at z w p)) \<and>
     (found s \<longrightarrow> (\<exists>p \<in> P. valid_at z w p \<and> best s = candidate z w p) \<and> (\<forall>p \<in> P. valid_at z w p \<longrightarrow> best s \<le> candidate z w p)) \<and>
     (if P = {} then latest s = zero_time else (\<exists>p \<in> P. latest s = candidate z w p) \<and> (\<forall>p \<in> P. candidate z w p \<le> latest s))"

lemma probe_step_inv:
  assumes "search_inv z w P s" and "\<forall>p \<in> P. zero_time < candidate z w p"
  shows "search_inv z w (insert p P) (probe_step z w p s)"
proof -
  have "P \<noteq> {} \<Longrightarrow> latest s \<noteq> zero_time" using assms by (auto simp: search_inv_def)
  then show ?thesis
    using assms(1) unfolding search_inv_def probe_step_def Let_def candidate_def [symmetric] valid_at_def [symmetric]
    by (auto split: if_splits)
qed

lemma search_result:
  assumes "\<forall>p \<in> P \<union> set ps. zero_time < candidate z w p" and "search_inv z w P s"
  shows "search_inv z w (P \<union> set ps) (fold (probe_step z w) ps s)"
  using assms
proof (induction ps arbitrary: P s)
  case (Cons p ps)
  from Cons.IH [of "insert p P" "probe_step z w p s"] show ?case
    using Cons.prems probe_step_inv [of z w P s p] by (simp add: insert_def [symmetric] Un_insert_left)
qed simp

definition is_due :: "zone \<Rightarrow> int \<Rightarrow> int \<Rightarrow> bool" where
  "is_due z w t \<longleftrightarrow> w \<le> local_time z t \<and> (\<forall>u < t. local_time z u < w)"

lemma offset_bounds: "zone_ok z lo hi \<Longrightarrow> - 86400 \<le> offset_at z t \<and> offset_at z t \<le> 86400"
proof -
  assume "zone_ok z lo hi"
  then have "\<bar>offset_at z t\<bar> \<le> 86400" by (simp add: zone_ok_def)
  then show ?thesis by linarith
qed

lemma minute_gap:
  assumes "60 dvd w" and "l \<noteq> w" and "60 \<le> \<bar>l - w\<bar>"
  shows "\<not> sameWall l w"
proof -
  obtain k where "w = 60 * k" using assms(1) by (auto elim: dvdE)
  moreover have "l div 60 \<noteq> k" if "60 \<le> \<bar>l - 60 * k\<bar>" using that by linarith
  ultimately show ?thesis using assms by (simp add: sameWall_iff)
qed

lemma instant_search:
  assumes "zone_ok z lo hi" and "first_time \<le> w"
  shows "search_inv z w (set probes) (fold (probe_step z w) probes \<lparr>best = zero_time, latest = zero_time, found = False\<rparr>)"
proof -
  have "zero_time < candidate z w p" for p
    using offset_bounds [OF assms(1), of "w + p"] assms(2) by (simp add: candidate_def first_time_def)
  moreover have "search_inv z w {} \<lparr>best = zero_time, latest = zero_time, found = False\<rparr>" by (simp add: search_inv_def)
  ultimately show ?thesis using search_result [of "{}" probes z w] by simp
qed

lemma instant_spec:
  assumes z: "zone_ok z lo hi" and w: "lo \<le> w" "w \<le> hi" "60 dvd w"
  shows "is_due z w (fst (instant z w))" "snd (instant z w) \<longleftrightarrow> local_time z (fst (instant z w)) \<noteq> w"
    "local_time z (fst (instant z w)) \<le> w + 86400"
proof -
  define a b where "a = offset_at z (w - window)" and "b = offset_at z (w + window)"
  obtain T where split: "split_at_change z w T a b"
    using spaced_normal [OF zone_spaced [OF z w(1,2)]] by (auto simp: a_def b_def)
  have first: "first_time \<le> w" by (rule zone_from [OF z w(1)])
  have off: "offset_at z t = (if t < T then a else b)" if "w - window \<le> t" "t \<le> w + window" for t
    using split that by (simp add: split_at_change_def)
  have start: "zone_start z t = Some T" if "a \<noteq> b" "T \<le> t" "t \<le> w + window" for t
    using split that by (simp add: split_at_change_def)
  have ab: "- 86400 \<le> a" "a \<le> 86400" "- 86400 \<le> b" "b \<le> 86400"
    using offset_bounds [OF z] by (simp_all add: a_def b_def)
  have size: "a \<noteq> b \<Longrightarrow> 60 \<le> \<bar>a - b\<bar>" using split by (simp add: split_at_change_def)
  define s where "s = fold (probe_step z w) probes \<lparr>best = zero_time, latest = zero_time, found = False\<rparr>"
  note inv = instant_search [OF z first, folded s_def, unfolded search_inv_def]
  have ends: "- window \<in> set probes" "window \<in> set probes" by (simp_all add: probes_def window_def)
  have cands: "candidate z w p = w - a \<or> candidate z w p = w - b" if "p \<in> set probes" for p
    using that off [of "w + p"] by (auto simp: candidate_def probes_def window_def)
  have ca: "candidate z w (- window) = w - a" and cb: "candidate z w window = w - b"
    by (simp_all add: candidate_def a_def b_def)
  have valid: "valid_at z w p \<longleftrightarrow> local_time z (candidate z w p) = w" if "p \<in> set probes" for p
  proof (cases "local_time z (candidate z w p) = w")
    case True
    then show ?thesis by (simp add: valid_at_def sameWall_iff)
  next
    case False
    have "local_time z (candidate z w p) - w \<in> {0, a - b, b - a}"
      using cands [OF that] off [of "candidate z w p"] ab by (auto simp: local_time_def window_def)
    then have "60 \<le> \<bar>local_time z (candidate z w p) - w\<bar>" using False size by auto
    then show ?thesis using False minute_gap [OF w(3)] by (simp add: valid_at_def)
  qed
  have la: "local_time z (w - a) = w \<longleftrightarrow> w - a < T \<or> a = b" and lb: "local_time z (w - b) = w \<longleftrightarrow> T \<le> w - b \<or> a = b"
    using off [of "w - a"] off [of "w - b"] ab by (auto simp: local_time_def window_def)
  have before: "local_time z u < w" if "u < w - a" "u < T" for u
  proof (cases "w - window \<le> u")
    case True
    then show ?thesis using off [of u] that ab by (simp add: local_time_def window_def)
  next
    case False
    then show ?thesis using offset_bounds [OF z, of u] by (simp add: local_time_def window_def)
  qed
  have after: "local_time z u < w" if "u < w - b" "T \<le> u" for u
  proof (cases "w - window \<le> u")
    case True
    then show ?thesis using off [of u] that ab by (simp add: local_time_def window_def)
  next
    case False
    then show ?thesis using offset_bounds [OF z, of u] by (simp add: local_time_def window_def)
  qed
  consider (a) "w - a < T \<or> a = b" | (b) "T \<le> w - a" "T \<le> w - b" "a \<noteq> b" | (gap) "T \<le> w - a" "w - b < T" by linarith
  then have "is_due z w (fst (instant z w)) \<and> (snd (instant z w) \<longleftrightarrow> local_time z (fst (instant z w)) \<noteq> w) \<and>
      local_time z (fst (instant z w)) \<le> w + 86400"
  proof cases
    case a
    have "valid_at z w (- window)" using a la by (simp add: valid ca ends)
    then have f: "found s" "best s \<le> w - a" using inv ends ca by auto
    then obtain p where "p \<in> set probes" "valid_at z w p" "best s = candidate z w p" using inv by blast
    then have "best s = w - a" using cands [of p] a f(2) lb by (auto simp: valid)
    then have i: "instant z w = (w - a, False)" using f(1) by (simp add: instant_def s_def [symmetric])
    have "local_time z u < w" if "u < w - a" for u
      using before [of u] after [of u] a that by (cases "u < T") auto
    then show ?thesis using a la by (simp add: i is_due_def)
  next
    case b
    have "valid_at z w window" using b lb by (simp add: valid cb ends)
    then have f: "found s" using inv ends by auto
    then obtain p where "p \<in> set probes" "valid_at z w p" "best s = candidate z w p" using inv by blast
    then have "best s = w - b" using cands [of p] b la by (auto simp: valid)
    then have i: "instant z w = (w - b, False)" using f by (simp add: instant_def s_def [symmetric])
    have "local_time z u < w" if "u < w - b" for u
      using before [of u] after [of u] b that by (cases "u < T") auto
    then show ?thesis using b lb by (simp add: i is_due_def)
  next
    case gap
    have ne: "a \<noteq> b" using gap by auto
    have "\<not> valid_at z w p" if "p \<in> set probes" for p using cands [OF that] la lb gap ne by (auto simp: valid [OF that])
    then have f: "\<not> found s" using inv by blast
    have "set probes \<noteq> {}" by (simp add: probes_def)
    then obtain p where "p \<in> set probes" "latest s = candidate z w p" "candidate z w (- window) \<le> latest s"
      using inv ends by auto
    then have l: "latest s = w - a" using cands [of p] ca gap by auto
    have "zone_start z (w - a) = Some T" using start [OF ne, of "w - a"] gap ab by (simp add: window_def)
    moreover have "T \<noteq> zero_time" using gap(2) ab first by (simp add: first_time_def)
    ultimately have i: "instant z w = (T, True)" using f gap(1) by (simp add: instant_def s_def [symmetric] l)
    have "local_time z T = T + b" using off [of T] gap ab by (simp add: local_time_def window_def)
    moreover have "local_time z u < w" if "u < T" for u using before [of u] gap(1) that by simp
    moreover have "b - a \<le> 86400" using split by (simp add: split_at_change_def abs_le_iff)
    ultimately show ?thesis using gap by (simp add: i is_due_def)
  qed
  then show "is_due z w (fst (instant z w))" "snd (instant z w) \<longleftrightarrow> local_time z (fst (instant z w)) \<noteq> w"
    "local_time z (fst (instant z w)) \<le> w + 86400" by simp_all
qed

text \<open>A later nominal time is not due earlier, and the wall clock never falls back by more than a day.\<close>

lemma is_due_mono: "is_due z w t \<Longrightarrow> is_due z w' t' \<Longrightarrow> w \<le> w' \<Longrightarrow> t \<le> t'"
  unfolding is_due_def by (meson leD leI order_trans)

lemma is_due_near:
  assumes "zone_ok z lo hi" and "is_due z w t"
  shows "w - 86400 \<le> t" "t \<le> w + 86400"
proof -
  show "w - 86400 \<le> t" using assms offset_bounds [OF assms(1), of t] by (simp add: is_due_def local_time_def)
  have "w \<le> local_time z (w + 86400)" using offset_bounds [OF assms(1), of "w + 86400"] by (simp add: local_time_def)
  then show "t \<le> w + 86400" using assms(2) unfolding is_due_def by (meson leD leI)
qed

lemma local_drop:
  assumes z: "zone_ok z lo hi" and t: "lo \<le> t" "t \<le> hi" "t \<le> u"
  shows "local_time z t - 86400 \<le> local_time z u"
proof (cases "u \<le> t + window")
  case True
  obtain T a b where "\<forall>x. t - window \<le> x \<longrightarrow> x \<le> t + window \<longrightarrow> offset_at z x = (if x < T then a else b)" "\<bar>a - b\<bar> \<le> 86400"
    using zone_spaced [OF z t(1,2)] unfolding spaced_def by blast
  then have "offset_at z t \<in> {a, b}" "offset_at z u \<in> {a, b}" using t True by (auto simp: window_def)
  then show ?thesis using t(3) \<open>\<bar>a - b\<bar> \<le> 86400\<close> by (auto simp: local_time_def)
next
  case False
  then show ?thesis using offset_bounds [OF z, of t] offset_bounds [OF z, of u] by (simp add: local_time_def window_def)
qed

lemma civilDate_day: "civilDate z t = day_number (local_time z t)"
  by (simp add: civilDate_def civil_of_day)

section \<open>The slots as nominal times\<close>

definition scheduled :: "cronSpec \<Rightarrow> int \<Rightarrow> bool" where
  "scheduled c w \<longleftrightarrow> 60 dvd w \<and> day_matches c (day_number w) \<and> hours c ! nat (hour_of w) \<and> minutes c ! nat (minute_of w)"

definition slot_of :: "timetable \<Rightarrow> int \<Rightarrow> slot" where
  "slot_of t w = slot_at t (day_number w) (nat (hour_of w)) (nat (minute_of w))"

definition times_on :: "cronSpec \<Rightarrow> int \<Rightarrow> int list" where
  "times_on c day = (if \<not> day_matches c day then []
     else concat (map (\<lambda>h. map (nominal_at day h) (filter (\<lambda>m. minutes c ! m) [0..<60])) (filter (\<lambda>h. hours c ! h) [0..<24])))"

lemma slotsOn_times: "slotsOn t day = map (slot_of t) (times_on (tt_spec t) day)"
proof -
  have "slot_at t day h m = slot_of t (nominal_at day h m)" if "h < 24" "m < 60" for h m
    using nominal_fields [OF that, of day] by (simp add: slot_of_def)
  then show ?thesis
    by (auto simp: slotsOn_def times_on_def map_concat comp_def intro!: arg_cong [where f = concat] map_cong)
qed

lemma times_on_iff: "w \<in> set (times_on c day) \<longleftrightarrow> scheduled c w \<and> day_number w = day"
proof
  assume "w \<in> set (times_on c day)"
  then obtain h m where "w = nominal_at day h m" "h < 24" "m < 60" "hours c ! h" "minutes c ! m" "day_matches c day"
    by (auto simp: times_on_def split: if_splits)
  then show "scheduled c w \<and> day_number w = day" using nominal_fields [of h m day] by (simp add: scheduled_def)
next
  assume w: "scheduled c w \<and> day_number w = day"
  have "nat (hour_of w) < 24" "nat (minute_of w) < 60" using hour_minute_bounds [of w] by auto
  moreover have "w = nominal_at day (nat (hour_of w)) (nat (minute_of w))" using nominal_of [of w] w by (simp add: scheduled_def)
  ultimately show "w \<in> set (times_on c day)" using w by (auto simp: times_on_def scheduled_def intro!: bexI)
qed

lemma sorted_concat:
  "\<forall>x \<in> set xs. sorted_wrt (<) (f x) \<Longrightarrow> sorted_wrt (\<lambda>x y. \<forall>a \<in> set (f x). \<forall>b \<in> set (f y). a < b) xs \<Longrightarrow>
     sorted_wrt (<) (concat (map f xs))" for f :: "'a \<Rightarrow> int list"
  by (induction xs) (auto simp: sorted_wrt_append)

lemma nominal_mono: "h < h' \<Longrightarrow> m < 60 \<Longrightarrow> nominal_at day h m < nominal_at day h' m'"
  by (simp add: nominal_at_def)

lemma times_on_sorted: "sorted_wrt (<) (times_on c day)"
proof -
  have m: "sorted_wrt (<) (map (nominal_at day h) (filter p [0..<60]))" for h p
    by (auto simp: sorted_wrt_map nominal_at_def intro!: sorted_wrt_filter sorted_wrt_mono_rel [OF _ sorted_wrt_upt])
  have h: "sorted_wrt (<) (filter p [0..<24])" for p :: "nat \<Rightarrow> bool"
    by (intro sorted_wrt_filter sorted_wrt_upt)
  show ?thesis unfolding times_on_def
    by (auto intro!: sorted_concat sorted_wrt_mono_rel [OF _ h] m simp: nominal_mono)
qed

definition times_between :: "cronSpec \<Rightarrow> int \<Rightarrow> int \<Rightarrow> int list" where
  "times_between c a b = concat (map (times_on c) [a..b])"

lemma times_between_iff: "w \<in> set (times_between c a b) \<longleftrightarrow> scheduled c w \<and> a \<le> day_number w \<and> day_number w \<le> b"
  by (auto simp: times_between_def times_on_iff)

lemma day_number_mono: "v \<le> w \<Longrightarrow> day_number v \<le> day_number w"
  by (simp add: day_number_def zdiv_mono1)

lemma sorted_upto_less: "sorted_wrt (<) [a..b]"
  by (simp add: strict_sorted_iff)

lemma times_between_sorted: "sorted_wrt (<) (times_between c a b)"
  unfolding times_between_def
proof (rule sorted_concat)
  show "\<forall>day \<in> set [a..b]. sorted_wrt (<) (times_on c day)" by (simp add: times_on_sorted)
  have "v < w" if "day_number v < day_number w" for v w
    using that day_number_mono [of w v] by (meson leD leI)
  then show "sorted_wrt (\<lambda>x y. \<forall>v \<in> set (times_on c x). \<forall>w \<in> set (times_on c y). v < w) [a..b]"
    by (intro sorted_wrt_mono_rel [OF _ sorted_upto_less]) (auto simp: times_on_iff)
qed

section \<open>The slots of a window\<close>

lemma slot_due:
  assumes "60 dvd w"
  shows "due_at (slot_of t w) = fst (instant (tt_zone t) w)" "Shifted (slot_of t w) = snd (instant (tt_zone t) w)"
  by (simp_all add: slot_of_def slot_at_def nominal_of [OF assms] split_beta)

definition window_of :: "int \<Rightarrow> bool \<Rightarrow> slot list \<Rightarrow> slotWindow" where
  "window_of keep cut_off ss = \<lparr>First = (case ss of [] \<Rightarrow> None | s # _ \<Rightarrow> Some s),
     Latest = (if 0 < keep then drop (length ss - nat keep) ss else []), Total = int (length ss), Truncated = cut_off\<rparr>"

definition due_by :: "slotCursor \<Rightarrow> int \<Rightarrow> slot \<Rightarrow> bool" where
  "due_by c until s \<longleftrightarrow> Follows c s \<and> nano * due_at s \<le> until"

lemma add_slot_window:
  "add_slot c until keep s (window_of keep b ss) = window_of keep b (if due_by c until s then ss @ [s] else ss)"
proof (cases "due_by c until s")
  case True
  have l: "(if int (length (drop (length ss - nat keep) ss)) = keep then tl (drop (length ss - nat keep) ss)
      else drop (length ss - nat keep) ss) @ [s] = drop (Suc (length ss) - nat keep) (ss @ [s])" if "0 < keep"
    using that by (auto simp: drop_Suc [symmetric] tl_drop Suc_diff_le)
  show ?thesis using True l by (auto simp: add_slot_def due_by_def window_of_def split: list.splits)
qed (auto simp: add_slot_def due_by_def)

lemma fold_add_slot:
  "fold (add_slot c until keep) ss (window_of keep b acc) = window_of keep b (acc @ filter (due_by c until) ss)"
  by (induction ss arbitrary: acc) (auto simp: add_slot_window)

lemma DueSlots_window:
  assumes "due_range t c until = (start, stop, b)"
  shows "DueSlots t c until keep =
    window_of keep b (map (slot_of t) (filter (\<lambda>w. due_by c until (slot_of t w)) (times_between (tt_spec t) start stop)))"
proof -
  have "concat (map (slotsOn t) [start..stop]) = map (slot_of t) (times_between (tt_spec t) start stop)"
    by (simp add: times_between_def slotsOn_times [abs_def] map_concat comp_def)
  moreover have "\<lparr>First = None, Latest = [], Total = 0, Truncated = b\<rparr> = window_of keep b []" by (simp add: window_of_def)
  ultimately show ?thesis by (simp add: DueSlots_def assms fold_add_slot filter_map comp_def)
qed

lemma follows_seconds: "Follows c s \<Longrightarrow> seconds (At c) \<le> due_at s"
proof -
  assume "Follows c s"
  then have "At c \<le> nano * due_at s" by (auto simp: Follows_def)
  then have "At c div nano \<le> nano * due_at s div nano" by (rule zdiv_mono1) (simp add: nano_def)
  then show ?thesis by (simp add: seconds_def nano_def)
qed

lemma due_seconds: "nano * d \<le> until \<Longrightarrow> d \<le> seconds until"
proof -
  assume "nano * d \<le> until"
  then have "nano * d div nano \<le> until div nano" by (rule zdiv_mono1) (simp add: nano_def)
  then show ?thesis by (simp add: seconds_def nano_def)
qed

text \<open>A slot after the cursor is on a scanned day, and so is one that is due by the end.\<close>

lemma follows_day:
  assumes z: "zone_ok (tt_zone t) lo hi" and w: "lo \<le> w" "w \<le> hi" "60 dvd w" and f: "Follows c (slot_of t w)"
  shows "civilDate (tt_zone t) (seconds (At c)) - 1 \<le> day_number w"
proof -
  define d where "d = fst (instant (tt_zone t) w)"
  note i = instant_spec [OF z w, folded d_def]
  have "seconds (At c) \<le> d" using follows_seconds [OF f] by (simp add: slot_due [OF w(3)] d_def)
  then have "local_time (tt_zone t) (seconds (At c)) \<le> w + 86400"
  proof (cases "seconds (At c) = d")
    case False
    with \<open>seconds (At c) \<le> d\<close> i(1) have "local_time (tt_zone t) (seconds (At c)) < w" by (simp add: is_due_def)
    then show ?thesis by simp
  qed (use i(3) in simp)
  from day_number_mono [OF this] show ?thesis by (simp add: civilDate_day day_number_def)
qed

lemma due_day:
  assumes z: "zone_ok (tt_zone t) lo hi" and w: "lo + 86400 \<le> w" "w \<le> hi - 86400" "60 dvd w"
    and u: "nano * due_at (slot_of t w) \<le> until"
  shows "day_number w \<le> civilDate (tt_zone t) (seconds until) + 1"
proof -
  define d where "d = fst (instant (tt_zone t) w)"
  have r: "lo \<le> w" "w \<le> hi" using w(1,2) by simp_all
  note i = instant_spec [OF z r w(3), folded d_def]
  have "d \<le> seconds until" using due_seconds [OF u] by (simp add: slot_due [OF w(3)] d_def)
  moreover have "lo \<le> d" "d \<le> hi" using is_due_near [OF z i(1)] w(1,2) by simp_all
  ultimately have "local_time (tt_zone t) d - 86400 \<le> local_time (tt_zone t) (seconds until)" by (intro local_drop [OF z])
  then have "w \<le> local_time (tt_zone t) (seconds until) + 86400" using i(1) by (simp add: is_due_def)
  from day_number_mono [OF this] show ?thesis by (simp add: civilDate_day day_number_def)
qed

lemma DueSlots_complete:
  assumes z: "zone_ok (tt_zone t) lo hi" and n: "\<not> Truncated (DueSlots t c until keep)"
  shows "\<exists>ws. sorted_wrt (<) ws \<and> DueSlots t c until keep = window_of keep False (map (slot_of t) ws) \<and>
    (\<forall>w \<in> set ws. scheduled (tt_spec t) w \<and> due_by c until (slot_of t w)) \<and>
    (\<forall>w \<in> {lo + 86400..hi - 86400}. scheduled (tt_spec t) w \<and> due_by c until (slot_of t w) \<longrightarrow> w \<in> set ws)"
proof -
  obtain start stop b where r: "due_range t c until = (start, stop, b)" using prod_cases3 by blast
  note d = DueSlots_window [OF r, of keep]
  have b: "b = False" using n by (simp add: d window_of_def)
  then have se: "start = civilDate (tt_zone t) (seconds (At c)) - 1" "stop = civilDate (tt_zone t) (seconds until) + 1"
    using r by (auto simp: due_range_def Let_def split: if_splits)
  define ws where "ws = filter (\<lambda>w. due_by c until (slot_of t w)) (times_between (tt_spec t) start stop)"
  have "\<forall>w \<in> set ws. scheduled (tt_spec t) w \<and> due_by c until (slot_of t w)" by (auto simp: ws_def times_between_iff)
  moreover have "w \<in> set ws"
    if w: "w \<in> {lo + 86400..hi - 86400}" and s: "scheduled (tt_spec t) w \<and> due_by c until (slot_of t w)" for w
  proof -
    have "start \<le> day_number w \<and> day_number w \<le> stop" if "scheduled (tt_spec t) w" "due_by c until (slot_of t w)"
      using follows_day [OF z, of w c] due_day [OF z, of w until] w that by (auto simp: se scheduled_def due_by_def)
    then show ?thesis using s by (auto simp: ws_def times_between_iff)
  qed
  moreover have "sorted_wrt (<) ws" unfolding ws_def by (intro sorted_wrt_filter times_between_sorted)
  ultimately show ?thesis using d [unfolded b, folded ws_def] by blast
qed

section \<open>The next slot\<close>

lemma times_between_Suc: "times_between c a (a + int (Suc n) - 1) = times_on c a @ times_between c (a + 1) (a + 1 + int n - 1)"
  by (simp add: times_between_def upto.simps [of a "a + int n"])

lemma next_from_find:
  "next_from t c n day = map_option (slot_of t) (find (\<lambda>w. Follows c (slot_of t w)) (times_between (tt_spec t) day (day + int n - 1)))"
proof (induction n arbitrary: day)
  case 0
  show ?case by (simp add: times_between_def)
next
  case (Suc n)
  have f: "find (Follows c) (map g ws) = map_option g (find (\<lambda>w. Follows c (g w)) ws)" for g :: "int \<Rightarrow> slot" and ws
    by (induction ws) auto
  show ?case unfolding times_between_Suc find_append by (simp add: slotsOn_times f Suc.IH split: option.splits)
qed

lemma find_sorted:
  "sorted_wrt (<) ws \<Longrightarrow> find P ws = Some w \<Longrightarrow> v \<in> set ws \<Longrightarrow> P v \<Longrightarrow> w \<le> (v :: int)"
  by (induction ws) (auto split: if_splits)

lemma NextSlot_first:
  assumes z: "zone_ok (tt_zone t) lo hi" and c: "lo + 345600 \<le> seconds (At c)"
  shows "case NextSlot t c of
      Some s \<Rightarrow> \<exists>w. s = slot_of t w \<and> scheduled (tt_spec t) w \<and> Follows c s \<and>
        (\<forall>v \<in> {lo..hi}. scheduled (tt_spec t) v \<longrightarrow> Follows c (slot_of t v) \<longrightarrow> w \<le> v \<and> due_at s \<le> due_at (slot_of t v))
    | None \<Rightarrow> \<forall>v \<in> {lo..hi}. scheduled (tt_spec t) v \<longrightarrow>
        day_number v < civilDate (tt_zone t) (seconds (At c)) + 2927 \<longrightarrow> \<not> Follows c (slot_of t v)"
proof -
  define a where "a = civilDate (tt_zone t) (seconds (At c))"
  define ws where "ws = times_between (tt_spec t) (a - 1) (a + 2926)"
  have nx: "NextSlot t c = map_option (slot_of t) (find (\<lambda>w. Follows c (slot_of t w)) ws)"
    by (simp add: NextSlot_def a_def [symmetric] next_from_find maxScheduleHorizonDays_def ws_def add.commute)
  have mem: "v \<in> set ws" if "lo \<le> v" "v \<le> hi" "scheduled (tt_spec t) v" "Follows c (slot_of t v)" "day_number v < a + 2927" for v
    using follows_day [OF z, of v c] that by (auto simp: ws_def times_between_iff scheduled_def a_def)
  show ?thesis
  proof (cases "find (\<lambda>w. Follows c (slot_of t w)) ws")
    case None
    note n = None [unfolded find_None_iff]
    have "\<not> Follows c (slot_of t v)"
      if "lo \<le> v" "v \<le> hi" "scheduled (tt_spec t) v" "day_number v < a + 2927" for v
      using mem [of v] n that by blast
    then show ?thesis by (simp add: nx None a_def)
  next
    case (Some w)
    note f = find_SomeD [OF Some]
    have w: "scheduled (tt_spec t) w" "a - 1 \<le> day_number w" "day_number w \<le> a + 2926"
      using f by (auto simp: ws_def times_between_iff)
    have "lo \<le> w"
    proof (rule ccontr)
      assume "\<not> lo \<le> w"
      then have "day_number w \<le> day_number lo" by (intro day_number_mono) simp
      moreover have "lo + 259200 \<le> local_time (tt_zone t) (seconds (At c))"
        using c offset_bounds [OF z, of "seconds (At c)"] by (simp add: local_time_def)
      from day_number_mono [OF this] have "day_number lo + 3 \<le> a" by (simp add: a_def civilDate_day day_number_def)
      ultimately show False using w(2) by simp
    qed
    have "w \<le> v \<and> due_at (slot_of t w) \<le> due_at (slot_of t v)"
      if v: "lo \<le> v" "v \<le> hi" "scheduled (tt_spec t) v" "Follows c (slot_of t v)" for v
    proof -
      have "w \<le> v"
      proof (cases "day_number v < a + 2927")
        case True
        then show ?thesis using find_sorted [OF _ Some mem [OF v True] v(4)] times_between_sorted by (simp add: ws_def)
      next
        case False
        then have "\<not> v \<le> w" using w(3) day_number_mono [of v w] by auto
        then show ?thesis by simp
      qed
      moreover from this have "w \<le> hi" using v(2) by simp
      moreover have "60 dvd w" "60 dvd v" using w(1) v(3) by (simp_all add: scheduled_def)
      ultimately show ?thesis
        using is_due_mono [OF instant_spec(1) [OF z \<open>lo \<le> w\<close>] instant_spec(1) [OF z v(1,2)]] by (simp add: slot_due)
    qed
    then show ?thesis using Some f w(1) by (auto simp: nx)
  qed
qed

end
