(* ===== verification/ScheduledRuns.thy ===== *)
theory ScheduledRuns
  imports Scheduled
begin

text \<open>
  What an accepted definition's schedule gives: a timetable of its cron in its timezone, a Catch-up
  Policy within bounds, and, for every slot, inputs the definition declares.
\<close>

lemma run_schedule: "run h d = Some ([], v) \<Longrightarrow> vdefinition v = d \<and> checkSchedule (h_location h) (vinputs v) (RunKey d) (Schedule d) = []"
  by (auto simp: run_def Let_def split: prod.splits option.splits)

definition policy_ok :: "catchUp \<Rightarrow> bool" where
  "policy_ok cu \<longleftrightarrow> c_Policy cu = ''skip'' \<and> c_MaxRuns cu = 0 \<or>
     c_Policy cu = ''each_missed'' \<and> 1 \<le> c_MaxRuns cu \<and> c_MaxRuns cu \<le> maxCatchUpRuns"

lemma catch_up_ok: "catch_up_problems c = [] \<longleftrightarrow> (\<exists>cu. c = Some cu \<and> policy_ok cu)"
  by (cases c) (auto simp: catch_up_problems_def policy_ok_def on_def prob_def)

lemma schedule_checked:
  assumes "checkSchedule loc ins rk (Some s) = []"
  shows "validateCron (s_Cron s) = None" "s_Timezone s \<noteq> []" "s_Timezone s \<noteq> ''Local''" "loc (s_Timezone s)"
    "\<exists>cu. s_CatchUp s = Some cu \<and> policy_ok cu"
    "name \<in> set (sortedKeys (s_Inputs s)) \<Longrightarrow> fst (schedule_input ins name (the (map_of (s_Inputs s) name))) = []"
    "map_of ins name = Some inp \<Longrightarrow> i_Required (spec inp) \<Longrightarrow> hasKey (s_Inputs s) name"
proof -
  note c = assms [unfolded checkSchedule_def Let_def option.case append_is_Nil_conv]
  show "validateCron (s_Cron s) = None" using c by (auto simp: prob_def err_prob_def split: if_splits option.splits)
  show "s_Timezone s \<noteq> []" "s_Timezone s \<noteq> ''Local''" "loc (s_Timezone s)"
    using c by (auto simp: prob_def on_def split: if_splits)
  show "\<exists>cu. s_CatchUp s = Some cu \<and> policy_ok cu" using c catch_up_ok by blast
  show "fst (schedule_input ins name (the (map_of (s_Inputs s) name))) = []" if "name \<in> set (sortedKeys (s_Inputs s))"
    using c that by auto
  show "hasKey (s_Inputs s) name" if "map_of ins name = Some inp" "i_Required (spec inp)"
  proof -
    have "name \<in> set (sortedKeys ins)" using that(1) by (auto simp: set_sortedKeys_dom)
    then show ?thesis using c that by (auto simp: on_def prob_def split: if_splits)
  qed
qed

section \<open>The timetable\<close>

lemma ScheduleOf_accepted:
  assumes "run h d = Some ([], v)" and "Schedule d = Some s" and "location (s_Timezone s) = Some z"
  shows "\<exists>cu. s_CatchUp s = Some cu \<and> policy_ok cu \<and>
    (if cron_overflows (s_Cron s) then ScheduleOf location v = Some Panic
     else \<exists>cs. parseCron (s_Cron s) = Some (Done (Inr cs)) \<and> ScheduleOf location v = Some (Done (Some
       \<lparr>sc_Timetable = \<lparr>tt_Cron = join '' '' (splitFields (s_Cron s)), tt_Timezone = s_Timezone s, tt_spec = cs, tt_zone = z\<rparr>,
        sc_CatchUp = c_Policy cu, sc_MaxRuns = c_MaxRuns cu\<rparr>)))"
proof -
  note r = run_schedule [OF assms(1)]
  note c = schedule_checked [OF r [THEN conjunct2, unfolded assms(2)]]
  obtain cu where cu: "s_CatchUp s = Some cu" "policy_ok cu" using c(5) by blast
  note p = parseCron_spec [OF c(1)]
  show ?thesis
  proof (cases "cron_overflows (s_Cron s)")
    case True
    then show ?thesis using r cu p assms by (simp add: ScheduleOf_def NewTimetable_def)
  next
    case False
    then obtain cs where "parseCron (s_Cron s) = Some (Done (Inr cs))" using p by auto
    then show ?thesis using False r cu c(2,3) assms by (simp add: ScheduleOf_def NewTimetable_def)
  qed
qed

section \<open>The inputs of a scheduled run\<close>

text \<open>A value a schedule gives an input: a literal of its type, or the slot's date or time for text.\<close>

definition scheduled_value :: "slot \<Rightarrow> inputInfo \<Rightarrow> val \<Rightarrow> bool" where
  "scheduled_value s inp x \<longleftrightarrow> checkValue (Some (itype inp)) x = None \<or>
     Kind (itype inp) = KString \<and> (x = VStr (Date s) \<or> x = VStr (Time s))"

lemma schedule_value_ok:
  assumes "fst (schedule_input ins name node) = []"
  shows "\<exists>inp x. map_of ins name = Some inp \<and> schedule_value s name node = Inr (name, canonicalBytes x) \<and> scheduled_value s inp x"
proof -
  obtain inp where inp: "map_of ins name = Some inp"
    using assms by (auto simp: schedule_input_def prob_def Let_def split: option.splits)
  obtain u where u: "nodeValue node = Inr u"
    using assms inp by (auto simp: schedule_input_def err_prob_def Let_def split: sum.splits)
  define rt where "rt = (case u of VStr t \<Rightarrow> if isRefText t then Some t else None | _ \<Rightarrow> None)"
  note d = schedule_input_def schedule_value_def inp u rt_def [symmetric] Let_def
  show ?thesis
  proof (cases rt)
    case None
    then have "checkValue (Some (itype inp)) u = None" using assms by (simp add: d err_prob_def split: option.splits)
    with None show ?thesis using inp by (auto simp: d scheduled_value_def)
  next
    case (Some t)
    then obtain r where "parseRef t = Inr r" "Root r = refSchedule" "Kind (itype inp) = KString"
      using assms by (auto simp: d err_prob_def prob_def split: sum.splits if_splits)
    with Some show ?thesis
      using inp by (auto simp: d scheduled_value_def simp del: canonicalBytes.simps
        intro: exI [of _ "VStr (if RName r = ''time'' then Time s else Date s)"])
  qed
qed

lemma ScheduleInputs_accepted:
  assumes "run h d = Some ([], v)" and "Schedule d = Some s"
  shows "\<exists>m. ScheduleInputs v slot = Inr m \<and> map fst m = sortedKeys (s_Inputs s) \<and>
    (\<forall>(name, text) \<in> set m. \<exists>inp x. map_of (vinputs v) name = Some inp \<and> text = canonicalBytes x \<and> scheduled_value slot inp x)"
proof -
  note r = run_schedule [OF assms(1)]
  note c = schedule_checked [OF r [THEN conjunct2, unfolded assms(2)]]
  define g where "g name = schedule_value slot name (the (map_of (s_Inputs s) name))" for name
  have g: "\<exists>inp x. map_of (vinputs v) name = Some inp \<and> g name = Inr (name, canonicalBytes x) \<and> scheduled_value slot inp x"
    if "name \<in> set (sortedKeys (s_Inputs s))" for name
    unfolding g_def by (rule schedule_value_ok [OF c(6) [OF that]])
  have "\<exists>m. map_err g names = Inr m \<and> map fst m = names \<and>
      (\<forall>(name, text) \<in> set m. \<exists>inp x. map_of (vinputs v) name = Some inp \<and> text = canonicalBytes x \<and> scheduled_value slot inp x)"
    if "set names \<subseteq> set (sortedKeys (s_Inputs s))" for names
    using that
  proof (induction names)
    case (Cons n names)
    obtain inp x where "map_of (vinputs v) n = Some inp" "g n = Inr (n, canonicalBytes x)" "scheduled_value slot inp x"
      using g [of n] Cons.prems by auto
    moreover obtain m where "map_err g names = Inr m" "map fst m = names"
      "\<forall>(name, text) \<in> set m. \<exists>inp x. map_of (vinputs v) name = Some inp \<and> text = canonicalBytes x \<and> scheduled_value slot inp x"
      using Cons by auto
    ultimately show ?case by auto
  qed simp
  from this [of "sortedKeys (s_Inputs s)"] show ?thesis
    using r assms(2) by (simp add: ScheduleInputs_def g_def [abs_def])
qed

lemma required_scheduled:
  assumes "run h d = Some ([], v)" and "Schedule d = Some s" and "map_of (vinputs v) name = Some inp" and "i_Required (spec inp)"
  shows "name \<in> set (sortedKeys (s_Inputs s))"
  using schedule_checked(7) [OF run_schedule [OF assms(1), THEN conjunct2, unfolded assms(2)] assms(3,4)]
  by (auto simp: set_sortedKeys_dom hasKey_def)

end
