(* ===== verification/Agents.thy ===== *)
theory Agents
  imports Fanout
begin

text \<open>
  What the runtime needs to run AI and agent steps and interruptions (ai.go, and the agent plans
  of fanout.go): the reviewed prompt or objective with its digest, the pinned Model Policy, the
  canonical schema with its digest, and the check of what came back. \<open>digest\<close> is the hexadecimal
  SHA-256 of hash.go.
\<close>

record policyReport =
  pr_Name :: string
  pr_Version :: int
  pr_Provider :: string
  pr_Model :: string
  pr_Temperature :: "float64 option"
  pr_MaxOutputTokens :: int

definition policy_report :: "definition_ \<Rightarrow> string \<Rightarrow> policyReport option" where
  "policy_report d name = map_option (\<lambda>m. \<lparr>pr_Name = name, pr_Version = m_Version m, pr_Provider = m_Provider m,
     pr_Model = m_Model m, pr_Temperature = m_Temperature m, pr_MaxOutputTokens = m_MaxOutputTokens m\<rparr>)
     (map_of (ModelPolicies d) name)"

record aiStep =
  as_ID :: string
  as_Policy :: policyReport
  as_Prompt :: string
  as_PromptSHA256 :: string
  as_Schema :: string
  as_SchemaSHA256 :: string

record interruptStep =
  is_ID :: string
  is_Message :: string
  is_Schema :: string
  is_SchemaSHA256 :: string

definition canonicalSchema :: "decoder \<Rightarrow> (string \<Rightarrow> string) \<Rightarrow> validated \<Rightarrow> string \<Rightarrow> (string \<times> string) option" where
  "canonicalSchema dc digest v file = (case map_of (vfiles v) file of None \<Rightarrow> None
   | Some data \<Rightarrow> (case parseSchema dc data of Inl e \<Rightarrow> None
     | Inr (t, canonical) \<Rightarrow> Some (canonical, ''sha256:'' @ digest canonical)))"

definition aiStepOf :: "decoder \<Rightarrow> (string \<Rightarrow> string) \<Rightarrow> validated \<Rightarrow> string \<Rightarrow> 'a node0_scheme \<Rightarrow> aiStep option" where
  "aiStepOf dc digest v i n = (case policy_report (vdefinition v) (ModelPolicy (nstep n)) of None \<Rightarrow> None
   | Some p \<Rightarrow> (case map_of (vfiles v) (Prompt (nstep n)) of None \<Rightarrow> None
     | Some prompt \<Rightarrow> (case canonicalSchema dc digest v (OutputSchema (nstep n)) of None \<Rightarrow> None
       | Some (s, sd) \<Rightarrow> Some \<lparr>as_ID = i, as_Policy = p, as_Prompt = prompt, as_PromptSHA256 = ''sha256:'' @ digest prompt,
           as_Schema = s, as_SchemaSHA256 = sd\<rparr>)))"

definition AIStep :: "decoder \<Rightarrow> (string \<Rightarrow> string) \<Rightarrow> validated \<Rightarrow> string \<Rightarrow> aiStep option" where
  "AIStep dc digest v i = (case step_of v i of None \<Rightarrow> None
   | Some n \<Rightarrow> if nkind n \<noteq> KindAI then None else aiStepOf dc digest v i n)"

definition ItemAIStep :: "decoder \<Rightarrow> (string \<Rightarrow> string) \<Rightarrow> validated \<Rightarrow> string \<Rightarrow> aiStep option" where
  "ItemAIStep dc digest v i = (case mapNode v i of Inl e \<Rightarrow> None
   | Inr (n, m, r) \<Rightarrow> if nkind m \<noteq> KindAI then None else aiStepOf dc digest v i m)"

definition InterruptStep :: "decoder \<Rightarrow> (string \<Rightarrow> string) \<Rightarrow> validated \<Rightarrow> string \<Rightarrow> interruptStep option" where
  "InterruptStep dc digest v i = (case step_of v i of None \<Rightarrow> None
   | Some n \<Rightarrow> if nkind n \<noteq> KindInterrupt then None
       else (case canonicalSchema dc digest v (ResponseSchema (nstep n)) of None \<Rightarrow> None
         | Some (s, sd) \<Rightarrow> Some \<lparr>is_ID = i, is_Message = Message (nstep n), is_Schema = s, is_SchemaSHA256 = sd\<rparr>))"

definition CheckStepOutput :: "validated \<Rightarrow> string \<Rightarrow> val \<Rightarrow> errmsg option" where
  "CheckStepOutput v i x = (case step_of v i of
     None \<Rightarrow> Some (Errf ''%s is not an AI or interruption step'' [S i])
   | Some n \<Rightarrow> (case nschema n of
       Some t \<Rightarrow> if nkind n \<noteq> KindAI \<and> nkind n \<noteq> KindInterrupt then Some (Errf ''%s is not an AI or interruption step'' [S i])
         else checkValue (Some t) x
     | None \<Rightarrow> Some (Errf ''%s is not an AI or interruption step'' [S i])))"

definition used_policy :: "'a node0_scheme \<Rightarrow> string list" where
  "used_policy n = (if (nkind n = KindAI \<or> nkind n = KindAgent) \<and> ModelPolicy (nstep n) \<noteq> [] then [ModelPolicy (nstep n)] else [])"

text \<open>A policy the definition does not declare reads as Go's zero value.\<close>

definition zero_policy :: "string \<Rightarrow> policyReport" where
  "zero_policy name = \<lparr>pr_Name = name, pr_Version = 0, pr_Provider = [], pr_Model = [], pr_Temperature = None, pr_MaxOutputTokens = 0\<rparr>"

definition UsedPolicies :: "validated \<Rightarrow> policyReport list" where
  "UsedPolicies v = map (\<lambda>name. case policy_report (vdefinition v) name of Some p \<Rightarrow> p | None \<Rightarrow> zero_policy name)
     (sort (remdups (concat (map (\<lambda>n. used_policy n @ (case item n of Some m \<Rightarrow> used_policy m | None \<Rightarrow> [])) (vsteps v)))))"

section \<open>Agent plans and outputs\<close>

record agentPlan =
  ap_ID :: string
  ap_Item :: bool
  ap_Worker :: string
  ap_Policy :: policyReport
  ap_Objective :: string
  ap_ObjectiveSHA256 :: string
  ap_Schema :: string
  ap_SchemaSHA256 :: string
  ap_Budget :: int
  ap_Tokens :: int
  ap_Attempts :: int
  ap_Backoff :: int

definition AgentStep :: "decoder \<Rightarrow> (string \<Rightarrow> string) \<Rightarrow> validated \<Rightarrow> string \<Rightarrow> agentPlan option" where
  "AgentStep dc digest v i = (case agentNode v i of None \<Rightarrow> None
   | Some n \<Rightarrow> (case policy_report (vdefinition v) (ModelPolicy (nstep n)) of None \<Rightarrow> None
     | Some p \<Rightarrow> (case map_of (vfiles v) (Objective (nstep n)) of None \<Rightarrow> None
       | Some objective \<Rightarrow>
           let plan = \<lparr>ap_ID = i, ap_Item = isItem n, ap_Worker = Worker (nstep n), ap_Policy = p, ap_Objective = objective,
             ap_ObjectiveSHA256 = ''sha256:'' @ digest objective, ap_Schema = [], ap_SchemaSHA256 = [],
             ap_Budget = nbudget n, ap_Tokens = ntokens n, ap_Attempts = attempts n, ap_Backoff = backoff n\<rparr>
           in if OutputSchema (nstep n) = [] then Some plan
             else (case canonicalSchema dc digest v (OutputSchema (nstep n)) of None \<Rightarrow> None
               | Some (s, sd) \<Rightarrow> Some (plan\<lparr>ap_Schema := s, ap_SchemaSHA256 := sd\<rparr>)))))"

text \<open>\<^verbatim>\<open>AgentOutput\<close>: an output and a note, or the note and the error of the attempt.\<close>

definition AgentOutput :: "decoder \<Rightarrow> validated \<Rightarrow> string \<Rightarrow> workerResult \<Rightarrow> (string \<times> errmsg) + val \<times> string" where
  "AgentOutput dc v i r = (case agentNode v i of
     None \<Rightarrow> Inl ([], Errf ''%s is not an agent step'' [S i])
   | Some n \<Rightarrow> (case agentOutput dc n r of
       AgentOk x note \<Rightarrow> Inr (x, note)
     | AgentFailure e note \<Rightarrow> Inl (note, e)
     | AgentBroken e note \<Rightarrow> Inl (note, Errf ''the worker result is outside the result contract: %v'' [E e])))"

text \<open>An output the runtime records is of the step's output type, and its typed result of the schema.\<close>

lemma agentOutput_ok:
  assumes "agentOutput dc n r = AgentOk x note"
  shows "conforms (noutput n) x \<and> wr_Status r \<in> {''succeeded'', ''partial''} \<and>
    (case nschema n of None \<Rightarrow> x = VObj (agent_fields r)
     | Some t \<Rightarrow> \<exists>y. extractAgentResult dc (wr_Report r) = Inr y \<and> conforms (Some t) y \<and>
         x = VObj (agent_fields r @ [(''result'', y)]))"
proof -
  have st: "wr_Status r \<in> {''succeeded'', ''partial''}" using assms unfolding agentOutput_def by (simp split: if_splits)
  have "\<not> wr_Status r \<in> {''failed'', ''cancelled'', ''interrupted''}" using st by auto
  then show ?thesis
    using assms st unfolding agentOutput_def Let_def
    by (auto simp: checkValue_def checkAt_conforms split: option.splits sum.splits)
qed

end
