(* ===== verification/Canonical.thy ===== *)
theory Canonical
  imports Values "HOL-Library.Multiset"
begin

text \<open>
  What the hashes of the package digest: Go structs written by \<^verbatim>\<open>encoding/json\<close>, and collections put in
  a canonical order by sorting on a key that no two members share.
\<close>

section \<open>Canonical documents\<close>

text \<open>
  What the two hashes digest is a Go struct written by \<^verbatim>\<open>encoding/json\<close>: its fields in declaration
  order, fields with \<^verbatim>\<open>omitempty\<close> left out when empty. A map is a \<open>Leaf\<close> object, with sorted keys.
\<close>

datatype document = Leaf val | Struct "(string \<times> document) list" | Array "document list"

fun encode :: "document \<Rightarrow> string" where
  "encode (Leaf x) = canonicalBytes x"
| "encode (Struct fs) = ''{'' @ join '','' (map (\<lambda>(k, x). json_string k @ '':'' @ encode x) fs) @ ''}''"
| "encode (Array xs) = ''['' @ join '','' (map encode xs) @ '']''"

definition texts_doc :: "string list \<Rightarrow> document" where
  "texts_doc ss = Leaf (VList (map VStr ss))"

section \<open>Sorting on a key\<close>

lemma sorted_keyed_unique:
  assumes "set xs = set ys" and "distinct (map f xs)" and "distinct (map f ys)" and "sorted (map f xs)" and "sorted (map f ys)"
  shows "xs = ys"
proof -
  have "mset xs = mset ys" using assms set_eq_iff_mset_eq_distinct distinct_map by blast
  then have "sort_key f xs = sort_key f ys" using assms by (intro sort_key_eq_sort_key) (auto simp: distinct_map)
  then show ?thesis using assms by (simp add: sort_key_id_if_sorted)
qed

lemma keyed_lookup:
  "distinct (map f xs) \<Longrightarrow> map_of (fold (\<lambda>x m. put (f x) x m) xs []) k = find (\<lambda>x. f x = k) xs"
proof (induction xs rule: rev_induct)
  case (snoc x xs)
  have "find (\<lambda>y. f y = k) (xs @ [x]) = (case find (\<lambda>y. f y = k) xs of Some y \<Rightarrow> Some y | None \<Rightarrow> if f x = k then Some x else None)" for xs
    by (induction xs) auto
  then show ?case using snoc by (auto simp: put_lookup find_None_iff split: option.splits dest!: find_SomeD)
qed simp

lemma find_distinct: "distinct (map f xs) \<Longrightarrow> find (\<lambda>x. f x = k) xs = Some x \<longleftrightarrow> x \<in> set xs \<and> f x = k"
  by (induction xs) auto

text \<open>
  A canonical form: every member is put in a form that keeps its key, and the members are sorted by
  key. With distinct keys the form does not depend on the order of the members.
\<close>

locale sorted_form =
  fixes key :: "'a \<Rightarrow> string" and form :: "'a \<Rightarrow> 'a"
  assumes key_form: "key (form x) = key x"
begin

lemma members: "set (sort_key key (map form xs)) = form ` set xs"
  by simp

lemma multiset: "mset (sort_key key (map form xs)) = mset (map form xs)"
  by simp

lemma keys: "mset (map key (sort_key key (map form xs))) = mset (map key xs)"
proof -
  have "mset (map key (sort_key key (map form xs))) = mset (map key (map form xs))"
    by (simp add: multiset.map_comp)
  also have "map key (map form xs) = map key xs" by (simp add: key_form)
  finally show ?thesis by simp
qed

lemma keys_distinct: "distinct (map key (sort_key key (map form xs))) \<longleftrightarrow> distinct (map key xs)"
  using keys by (rule mset_eq_imp_distinct_iff)

lemma keys_sorted: "sorted (map key (sort_key key (map form xs)))"
  by simp

lemma same_iff:
  assumes "distinct (map key xs)"
  shows "sort_key key (map form xs) = sort_key key (map form ys) \<longleftrightarrow> mset (map form xs) = mset (map form ys)"
proof
  show "mset (map form xs) = mset (map form ys)" if "sort_key key (map form xs) = sort_key key (map form ys)"
    using that by (metis mset_sort)
  have "inj_on key (set (map form xs))"
    using assms by (auto simp: distinct_map inj_on_def key_form)
  then show "sort_key key (map form xs) = sort_key key (map form ys)" if "mset (map form xs) = mset (map form ys)"
    using that by (intro sort_key_eq_sort_key)
qed

text \<open>Two collections with the same keys whose members have equal forms have one canonical form.\<close>

lemma same_members:
  assumes "distinct (map key xs)" and "distinct (map key ys)" and "form ` set xs = form ` set ys"
  shows "sort_key key (map form xs) = sort_key key (map form ys)"
proof -
  have "distinct (map key (map form xs))" "distinct (map key (map form ys))" using assms by (simp_all add: key_form comp_def)
  then have "distinct (map form xs)" "distinct (map form ys)" unfolding distinct_map by simp_all
  then have "mset (map form xs) = mset (map form ys)"
    using assms(3) by (subst set_eq_iff_mset_eq_distinct [symmetric]) simp_all
  then show ?thesis using same_iff [OF assms(1)] by simp
qed

end

end
