(* ===== verification/Reports.thy ===== *)
theory Reports
  imports Agents
begin

text \<open>
  The review report of an accepted definition (report.go): what the owner reads before approving it.
  The graph, contracts, resources and policies are collected over the steps in graph order;
  \<open>Text\<close> renders the report for the terminal. SHA-256 and \<^verbatim>\<open>strconv.Quote\<close> are the parameters \<open>digest\<close> and
  \<open>quote\<close>; the warnings the validator collected are given.
\<close>

section \<open>Durations\<close>

definition microsecond :: nat where "microsecond = 1000"
definition millisecond :: nat where "millisecond = 1000000"

text \<open>\<^verbatim>\<open>fmtFrac\<close> of the time package: the fraction of \<open>v / 10 ^ p\<close> without trailing zeros.\<close>

definition frac_text :: "nat \<Rightarrow> nat \<Rightarrow> string" where
  "frac_text v p = (let f = v mod 10 ^ p; t = nat_text f; digits = replicate (p - length t) CHR ''0'' @ t;
     kept = rev (dropWhile (\<lambda>c. c = CHR ''0'') (rev digits)) in
     if f = 0 then [] else CHR ''.'' # kept)"

text \<open>\<^verbatim>\<open>Duration.String\<close> below a millisecond, which is all \<^verbatim>\<open>formatDuration\<close> asks of it.\<close>

definition small_duration :: "nat \<Rightarrow> string" where
  "small_duration u = (if u = 0 then ''0s''
     else if u < microsecond then nat_text u @ ''ns''
     else nat_text (u div microsecond) @ frac_text u 3 @ [CHR 0xC2, CHR 0xB5, CHR ''s''])"

definition duration_units :: "(nat \<times> string) list" where
  "duration_units = [(3600 * 1000 * millisecond, ''h''), (60 * 1000 * millisecond, ''m''), (1000 * millisecond, ''s''), (millisecond, ''ms'')]"

fun duration_parts :: "(nat \<times> string) list \<Rightarrow> nat \<Rightarrow> string" where
  "duration_parts [] d = []"
| "duration_parts ((u, name) # us) d = (if 0 < d div u then nat_text (d div u) @ name else []) @ duration_parts us (d mod u)"

text \<open>The durations of an accepted definition are not negative.\<close>

definition formatDuration :: "int \<Rightarrow> string" where
  "formatDuration d = (let s = duration_parts duration_units (nat d) in
     if d = 0 then ''0s'' else if s = [] then small_duration (nat d) else s)"

definition optionalDuration :: "int \<Rightarrow> string" where
  "optionalDuration d = (if d = 0 then [] else formatDuration d)"

section \<open>The report\<close>

record graphNode =
  gn_ID :: string
  gn_Kind :: string
  gn_Summary :: string
  gn_Item :: string
  gn_Input :: "string list"
  gn_Next :: "string list"
  gn_Line :: string

record inputReport =
  ir_Name :: string
  ir_Description :: string
  ir_Summary :: string
  ir_Sensitive :: bool

record outputReport =
  or_Name :: string
  or_From :: string
  or_Always :: bool
  or_Step :: string

record capabilityReport =
  cb_ID :: string
  cb_Contract :: string
  cb_Effect :: bool
  cb_Idempotent :: bool
  cb_Reconcile :: string
  cb_ConflictKeys :: string

record workerReport =
  wr_Step :: string
  wr_Worker :: string
  wr_MaxItems :: int
  wr_Attempts :: int
  wr_BudgetTime :: string
  wr_BudgetTokens :: int

record functionReport =
  fr_ID :: string
  fr_Summary :: string
  fr_Steps :: "string list"

record resourceReport =
  rr_Connection :: string
  rr_Resource :: string
  rr_Access :: string
  rr_Steps :: "string list"

record retryReport =
  rt_Step :: string
  rt_Attempts :: int
  rt_Backoff :: string

record authorityReport =
  au_Capability :: string
  au_Connection :: string
  au_Resources :: "string list"
  au_MaxCallsPerRun :: int

record scheduleReport =
  sp_Cron :: string
  sp_Timezone :: string
  sp_CatchUp :: string
  sp_MaxRuns :: int
  sp_Inputs :: "string list"

record retentionReport =
  rn_Classification :: string
  rn_SensitiveInputs :: "string list"

record limitsReport =
  lr_MaxDuration :: string
  lr_MaxAttempts :: int
  lr_MaxParallel :: int
  lr_MaxTokens :: int

record fileReport =
  fl_Path :: string
  fl_Role :: string
  fl_Digest :: string
  fl_Hashed :: bool

record report =
  rep_Workflow :: string
  rep_SchemaVersion :: int
  rep_Description :: string
  rep_ExecutableHash :: string
  rep_Start :: string
  rep_Graph :: "graphNode list"
  rep_Inputs :: "inputReport list"
  rep_Outputs :: "outputReport list"
  rep_RunKey :: "string list"
  rep_Capabilities :: "capabilityReport list"
  rep_Workers :: "workerReport list"
  rep_Functions :: "functionReport list"
  rep_Resources :: "resourceReport list"
  rep_Retries :: "retryReport list"
  rep_ModelPolicies :: "policyReport list"
  rep_Authority :: "authorityReport list"
  rep_Schedule :: "scheduleReport option"
  rep_Retention :: retentionReport
  rep_Limits :: limitsReport
  rep_AgentTokens :: int
  rep_Attempts :: int
  rep_Files :: "fileReport list"
  rep_Warnings :: "string list"

definition capability_report :: "capabilityContract \<Rightarrow> capabilityReport" where
  "capability_report c = \<lparr>cb_ID = CID c, cb_Contract = CContract c, cb_Effect = Effect c, cb_Idempotent = Idempotent c,
     cb_Reconcile = (if \<not> Effect c then [] else if Reconciles c then ''provider'' else ''owner''),
     cb_ConflictKeys = (if \<not> Effect c then [] else if ConflictKeys c = [] then ''resource'' else ConflictKeys c)\<rparr>"

definition capability_summary :: "capabilityReport \<Rightarrow> string" where
  "capability_summary c = EffectSummary (cb_Effect c) (cb_Idempotent c) (cb_Reconcile c = ''provider'') (cb_ConflictKeys c)"

text \<open>The summaries of the reviewed functions.\<close>

definition function_summary :: "string \<Rightarrow> string" where
  "function_summary i = (case map_of [
     (''collect_claims@1'', ''merge claims from research results in order, keep only sources the worker fetched, cap the count''),
     (''expand_ballots@1'', ''one ballot for each claim and voter, in claim order''),
     (''majority_filter@1'', ''accept a claim with at least quorum supported votes; a missing vote counts against''),
     (''split_evenly@1'', ''split a whole-number total into parts that differ by at most one and add up to it exactly''),
     (''tally_verdicts@1'', ''accept a claim with at least quorum supported votes; a vote counts only with evidence its verifier fetched, a missing vote counts against, and an accepted claim cites only that evidence''),
     (''check_citations@1'', ''keep only report citations of sources a verifier fetched for an accepted claim; remove other citations, markers and links, and report each''),
     (''dedup_sources@1'', ''order every search result by relevance, angle and position; drop invalid URLs and duplicates by normalized URL; keep the first max_sources''),
     (''rank_claims@1'', ''keep claims of sources their extractor fetched; order by importance, then source quality; keep the first max_claims''),
     (''expand_ballots@2'', ''one ballot for each claim and voter, in claim order, carrying the claim, its quote and its source''),
     (''tally_adversarial@1'', ''count only votes resting on evidence the verifier fetched; refute a claim with refutations_required refutations, confirm it with min_valid_votes valid votes and fewer, otherwise leave it unverified; rate confirmed claims and cite only fetched evidence''),
     (''require_zero@1'', ''fail the step unless a count is zero, naming what was counted''),
     (''gate_proposals@1'', ''keep only proposed classifications that name a candidate, use a known category exactly, reach the confidence threshold and ask for a rule only with a merchant name'')] i of
     Some s \<Rightarrow> s | None \<Rightarrow> [])"

section \<open>Lines\<close>

text \<open>\<^verbatim>\<open>value, _ := nodeValue(&node)\<close>, written as a reference or as a value.\<close>

definition node_text :: "quoter \<Rightarrow> ynode \<Rightarrow> string" where
  "node_text quote x = (case nodeValue x of Inl e \<Rightarrow> formatValue quote VNil
     | Inr v \<Rightarrow> (case v of VStr s \<Rightarrow> if isRefText s then s else formatValue quote v | _ \<Rightarrow> formatValue quote v))"

definition input_texts :: "quoter \<Rightarrow> (string \<times> ynode) list \<Rightarrow> string list" where
  "input_texts quote m = map (\<lambda>name. name @ ''='' @ node_text quote (the (map_of m name))) (sortedKeys m)"

definition inputLines :: "quoter \<Rightarrow> 'a node0_scheme \<Rightarrow> string list" where
  "inputLines quote n = input_texts quote (Input (nstep n))"

definition inputSummary :: "quoter \<Rightarrow> inputInfo \<Rightarrow> string" where
  "inputSummary quote i = join '', '' (
     [kind_text (Kind (itype i))] @
     (if i_Required (spec i) then [''required''] else []) @
     (if hasDefault i then [''default '' @ formatValue quote (idefault i)] else []) @
     (if Enum (itype i) \<noteq> [] then [''one of '' @ formatEnum quote (Enum (itype i))] else []) @
     (case Minimum (itype i) of Some x \<Rightarrow> [''minimum '' @ formatNumber x] | None \<Rightarrow> []) @
     (case Maximum (itype i) of Some x \<Rightarrow> [''maximum '' @ formatNumber x] | None \<Rightarrow> []) @
     (case MaxLength (itype i) of Some n \<Rightarrow> [''max length '' @ itoa n] | None \<Rightarrow> []) @
     (if i_Sensitive (spec i) then [''sensitive''] else []))"

definition case_text :: "quoter \<Rightarrow> branchCase \<Rightarrow> string" where
  "case_text quote c = (case When c of
     Some w \<Rightarrow> w_Ref w @ '' '' @ w_Op w @
       (if w_Value w \<noteq> YAbsent then '' '' @ (case nodeValue (w_Value w) of Inl e \<Rightarrow> formatValue quote VNil | Inr v \<Rightarrow> formatValue quote v) else [])
   | None \<Rightarrow> []) @ '' -> '' @ CNext c"

definition capability_kind :: "capabilityContract option \<Rightarrow> string" where
  "capability_kind c = (case c of Some c \<Rightarrow> if Effect c then (if Idempotent c then ''effect, idempotent'' else ''effect'') else ''read''
     | None \<Rightarrow> ''read'')"

definition failure_policy :: "'a step0_scheme \<Rightarrow> string" where
  "failure_policy s = (if OnItemFailure s = ''partial'' then
       (if MinSucceeded s = 0 then ''partial (items may all fail)'' else ''partial (at least '' @ itoa (MinSucceeded s) @ '' must succeed)'')
     else ''stop at the first failed item'')"

definition stepSummary :: "quoter \<Rightarrow> 'a node0_scheme \<Rightarrow> string" where
  "stepSummary quote n = (let s = nstep n in
     if nkind n = KindDeterministic then Function s
     else if nkind n = KindCapability then Capability s @ '' '' @ Contract s @ '' ('' @ capability_kind (cap n) @ '') on '' @ Connection s @ '' '' @ Resource s
     else if nkind n = KindAI then ''model '' @ ModelPolicy s @ '', prompt '' @ Prompt s @ '', output '' @ OutputSchema s
     else if nkind n = KindAgent then ''worker '' @ Worker s @ '', model '' @ ModelPolicy s @ '', objective '' @ Objective s @ '', budget '' @
       formatDuration (nbudget n) @ '' / '' @ grouped (ntokens n) @ '' tokens'' @ (if OutputSchema s \<noteq> [] then '', output '' @ OutputSchema s else [])
     else if nkind n = KindMap then ''over '' @ Over s @ '': at most '' @ itoa (SMaxItems s) @ '' items, '' @ itoa (MaxParallel s) @ '' at once, '' @ failure_policy s
     else if nkind n = KindBranch then join ''; '' (map (case_text quote) (Cases s)) @ ''; otherwise -> '' @ Default s
     else if nkind n = KindInterrupt then ''response '' @ ResponseSchema s
     else [])"

definition graph_node :: "quoter \<Rightarrow> string list \<Rightarrow> node \<Rightarrow> graphNode" where
  "graph_node quote known_ids n = (let summary = stepSummary quote n; nexts = link known_ids (edges n) in
     \<lparr>gn_ID = nid n, gn_Kind = nkind n, gn_Summary = summary,
      gn_Item = (case item n of Some m \<Rightarrow> ''item ['' @ nkind m @ ''] '' @ stepSummary quote m | None \<Rightarrow> []),
      gn_Input = (case item n of Some m \<Rightarrow> inputLines quote m | None \<Rightarrow> inputLines quote n),
      gn_Next = nexts,
      gn_Line = nid n @ '' ['' @ nkind n @ ''] '' @ summary @
        (if nkind n \<noteq> KindBranch then '' -> '' @ (case nexts of [] \<Rightarrow> ''end'' | t # _ \<Rightarrow> t) else [])\<rparr>)"

section \<open>What the steps contribute\<close>

text \<open>A step and its item: the label of a retry names the item.\<close>

definition retry_report :: "'a node0_scheme \<Rightarrow> retryReport list" where
  "retry_report x = (if 1 < attempts x then
     [\<lparr>rt_Step = (if isItem x then nid x @ '' (each item)'' else nid x), rt_Attempts = attempts x, rt_Backoff = optionalDuration (backoff x)\<rparr>] else [])"

definition worker_report :: "int \<Rightarrow> 'a node0_scheme \<Rightarrow> workerReport list" where
  "worker_report maxItems x = (if nkind x = KindAgent then
     [\<lparr>wr_Step = nid x, wr_Worker = Worker (nstep x), wr_MaxItems = (if isItem x then maxItems else 0), wr_Attempts = attempts x,
       wr_BudgetTime = formatDuration (nbudget x), wr_BudgetTokens = ntokens x\<rparr>] else [])"

definition add_function :: "'a node0_scheme \<Rightarrow> string list gomap \<Rightarrow> string list gomap" where
  "add_function x m = (case fn x of None \<Rightarrow> m
     | Some f \<Rightarrow> put (fID f) ((case map_of m (fID f) of Some known_ids \<Rightarrow> known_ids | None \<Rightarrow> []) @ [nid x]) m)"

definition resource_key :: "node \<Rightarrow> string" where
  "resource_key n = Connection (nstep n) @ [CHR 0x00] @ Resource (nstep n)"

definition add_resource :: "node \<Rightarrow> resourceReport gomap \<Rightarrow> resourceReport gomap" where
  "add_resource n m = (case cap n of None \<Rightarrow> m | Some c \<Rightarrow> let
      r = (case map_of m (resource_key n) of Some r \<Rightarrow> r
        | None \<Rightarrow> \<lparr>rr_Connection = Connection (nstep n), rr_Resource = Resource (nstep n), rr_Access = ''read'', rr_Steps = []\<rparr>)
    in put (resource_key n) (r\<lparr>rr_Access := (if Effect c then ''write'' else rr_Access r), rr_Steps := rr_Steps r @ [nid n]\<rparr>) m)"

definition add_capability :: "node \<Rightarrow> capabilityReport gomap \<Rightarrow> capabilityReport gomap" where
  "add_capability n m = (case cap n of None \<Rightarrow> m | Some c \<Rightarrow> put (CID c) (capability_report c) m)"

definition ordered :: "validated \<Rightarrow> node list" where
  "ordered v = List.map_filter (node_of (vsteps v)) (vorder v)"

definition map_values :: "'a gomap \<Rightarrow> 'a list" where
  "map_values m = map (\<lambda>k. the (map_of m k)) (sortedKeys m)"

definition authority_of :: "operation \<Rightarrow> authorityReport" where
  "authority_of op = \<lparr>au_Capability = o_Capability op, au_Connection = o_Connection op, au_Resources = o_Resources op,
     au_MaxCallsPerRun = o_MaxCallsPerRun op\<rparr>"

definition schedule_report :: "quoter \<Rightarrow> schedule \<Rightarrow> scheduleReport" where
  "schedule_report quote s = \<lparr>sp_Cron = join '' '' (splitFields (s_Cron s)), sp_Timezone = s_Timezone s,
     sp_CatchUp = (case s_CatchUp s of Some c \<Rightarrow> c_Policy c | None \<Rightarrow> []), sp_MaxRuns = (case s_CatchUp s of Some c \<Rightarrow> c_MaxRuns c | None \<Rightarrow> 0),
     sp_Inputs = input_texts quote (s_Inputs s)\<rparr>"

definition stepOf :: "ref \<Rightarrow> string" where
  "stepOf r = (if Root r = refSteps then RName r else [])"

definition readme_digest :: "(string \<Rightarrow> string) \<Rightarrow> string option \<Rightarrow> string" where
  "readme_digest digest readme = (case readme of Some s \<Rightarrow> ''sha256:'' @ digest s | None \<Rightarrow> [])"

definition file_reports :: "(string \<Rightarrow> string) \<Rightarrow> string option \<Rightarrow> string gomap \<Rightarrow> fileReport list" where
  "file_reports digest readme files =
     \<lparr>fl_Path = ''README.md'', fl_Role = ''documentation'', fl_Digest = readme_digest digest readme, fl_Hashed = False\<rparr> #
     map (\<lambda>p. \<lparr>fl_Path = p, fl_Role = (if hasSuffix p ''.json'' then ''schema'' else ''prompt''),
       fl_Digest = ''sha256:'' @ digest (the (map_of files p)), fl_Hashed = True\<rparr>) (sortedKeys files)"

definition buildReport :: "quoter \<Rightarrow> (string \<Rightarrow> string) \<Rightarrow> string option \<Rightarrow> string list \<Rightarrow> validated \<Rightarrow> string \<Rightarrow> report" where
  "buildReport quote digest readme warnings v hash = (let d = vdefinition v; ns = ordered v;
      fns = fold (\<lambda>n m. (case item n of Some i \<Rightarrow> add_function i | None \<Rightarrow> (\<lambda>m. m)) (add_function n m)) ns [] in
    \<lparr>rep_Workflow = DName d, rep_SchemaVersion = SchemaVersion d, rep_Description = trimSpace (DDescription d), rep_ExecutableHash = hash,
     rep_Start = Start d, rep_Graph = map (graph_node quote (map nid (vsteps v))) ns,
     rep_Inputs = map (\<lambda>name. let i = the (map_of (vinputs v) name) in \<lparr>ir_Name = name, ir_Description = i_Description (spec i),
       ir_Summary = inputSummary quote i, ir_Sensitive = i_Sensitive (spec i)\<rparr>) (sortedKeys (vinputs v)),
     rep_Outputs = map (\<lambda>x. \<lparr>or_Name = oname x, or_From = Raw (oref x), or_Always = always x, or_Step = stepOf (oref x)\<rparr>) (voutputs v),
     rep_RunKey = (case RunKey d of Some names \<Rightarrow> names | None \<Rightarrow> []),
     rep_Capabilities = map_values (fold add_capability ns []),
     rep_Workers = concat (map (\<lambda>n. worker_report 0 n @ (case item n of Some i \<Rightarrow> worker_report (SMaxItems (nstep n)) i | None \<Rightarrow> [])) ns),
     rep_Functions = map (\<lambda>i. \<lparr>fr_ID = i, fr_Summary = function_summary i, fr_Steps = the (map_of fns i)\<rparr>) (sortedKeys fns),
     rep_Resources = map_values (fold add_resource ns []),
     rep_Retries = concat (map (\<lambda>n. retry_report n @ (case item n of Some i \<Rightarrow> retry_report i | None \<Rightarrow> [])) ns),
     rep_ModelPolicies = map (\<lambda>name. the (policy_report d name)) (sortedKeys (ModelPolicies d)),
     rep_Authority = (case Authority d of Some ops \<Rightarrow> map authority_of ops | None \<Rightarrow> []),
     rep_Schedule = map_option (schedule_report quote) (Schedule d),
     rep_Retention = \<lparr>rn_Classification = (case Retention d of Some c \<Rightarrow> c | None \<Rightarrow> []),
       rn_SensitiveInputs = filter (\<lambda>name. i_Sensitive (spec (the (map_of (vinputs v) name)))) (sortedKeys (vinputs v))\<rparr>,
     rep_Limits = \<lparr>lr_MaxDuration = formatDuration (duration (vrunlimits v)), lr_MaxAttempts = maxAttempts (vrunlimits v),
       lr_MaxParallel = parallel (vrunlimits v), lr_MaxTokens = tokenLimit (vrunlimits v)\<rparr>,
     rep_AgentTokens = worstTokens (vsteps v) (vorder v), rep_Attempts = worstTries (vsteps v) (vorder v),
     rep_Files = file_reports digest readme (vfiles v), rep_Warnings = warnings\<rparr>)"

section \<open>The report as text\<close>

text \<open>One line each for the parts of the report; the review compares the same lines.\<close>

definition output_when :: "outputReport \<Rightarrow> string" where
  "output_when o' = (if or_Always o' then ''always'' else ''only when '' @ or_Step o' @ '' runs'')"

definition output_line :: "outputReport \<Rightarrow> string" where
  "output_line o' = or_Name o' @ '': '' @ or_From o' @ '' ('' @ output_when o' @ '')''"

definition contract_line :: "capabilityReport \<Rightarrow> string" where
  "contract_line c = cb_ID c @ '' '' @ cb_Contract c @ '': '' @ capability_summary c"

definition resource_line :: "resourceReport \<Rightarrow> string" where
  "resource_line r = rr_Connection r @ '' '' @ rr_Resource r @ '': '' @ rr_Access r @ '' (steps: '' @ join '', '' (rr_Steps r) @ '')''"

definition retry_line :: "retryReport \<Rightarrow> string" where
  "retry_line r = rt_Step r @ '': '' @ plural (rt_Attempts r) ''attempt'' @ (if rt_Backoff r \<noteq> [] then '', backoff '' @ rt_Backoff r else [])"

definition policy_line :: "policyReport \<Rightarrow> string" where
  "policy_line m = pr_Name m @ '' v'' @ itoa (pr_Version m) @ '': '' @ pr_Provider m @ '' '' @ pr_Model m @
     (case pr_Temperature m of Some t \<Rightarrow> '', temperature '' @ formatNumber t | None \<Rightarrow> []) @ '', max output '' @
     grouped (pr_MaxOutputTokens m) @ '' tokens''"

definition authority_line :: "authorityReport \<Rightarrow> string" where
  "authority_line a = au_Capability a @ '' on '' @ au_Connection a @ '': '' @ join '', '' (au_Resources a) @ '', at most '' @
     plural (au_MaxCallsPerRun a) ''call'' @ '' per run''"

definition schedule_line :: "scheduleReport option \<Rightarrow> string" where
  "schedule_line s = (case s of None \<Rightarrow> ''none (manual starts only)''
     | Some s \<Rightarrow> sp_Cron s @ '' '' @ sp_Timezone s @ '', '' @
         (if sp_CatchUp s = ''each_missed'' then ''catch up each missed run (at most '' @ itoa (sp_MaxRuns s) @ '')'' else ''skip missed runs'') @
         '', inputs '' @ join '', '' (sp_Inputs s))"

definition retention_line :: "retentionReport \<Rightarrow> string" where
  "retention_line r = rn_Classification r @ (if rn_SensitiveInputs r \<noteq> [] then ''; sensitive inputs: '' @ join '', '' (rn_SensitiveInputs r) else [])"

definition limits_line :: "limitsReport \<Rightarrow> string" where
  "limits_line l = ''max duration '' @ lr_MaxDuration l @ '', '' @ itoa (lr_MaxAttempts l) @ '' attempts, '' @ itoa (lr_MaxParallel l) @
     '' at once, '' @ grouped (lr_MaxTokens l) @ '' tokens''"

definition worker_line :: "workerReport \<Rightarrow> string" where
  "worker_line w = wr_Step w @ '': '' @ wr_Worker w @ '' worker, '' @
     (if 0 < wr_MaxItems w then ''up to '' @ itoa (wr_MaxItems w) @ '' items x '' else []) @ plural (wr_Attempts w) ''attempt'' @ '', '' @
     wr_BudgetTime w @ '' / '' @ grouped (wr_BudgetTokens w) @ '' tokens each''"

definition function_line :: "functionReport \<Rightarrow> string" where
  "function_line f = fr_ID f @ '': '' @ fr_Summary f @ '' ('' @ join '', '' (fr_Steps f) @ '')''"

definition file_line :: "fileReport \<Rightarrow> string" where
  "file_line f = fl_Path f @ (if fl_Hashed f then [] else '' ('' @ fl_Role f @ '', not hashed)'') @ '' '' @ fl_Digest f"

definition text_section :: "string \<Rightarrow> bool \<Rightarrow> string list \<Rightarrow> string list" where
  "text_section title none items = (if none then [title @ '': none''] else title # map (\<lambda>i. ''  '' @ i) items)"

definition graph_lines :: "nat \<times> graphNode \<Rightarrow> string list" where
  "graph_lines p = (case p of (i, g) \<Rightarrow> [''  '' @ itoa (int i + 1) @ ''. '' @ gn_Line g] @
     (if gn_Item g \<noteq> [] then [''     '' @ gn_Item g] else []) @
     (if gn_Input g \<noteq> [] then [''     '' @ (if gn_Item g \<noteq> [] then ''item input'' else ''input'') @ '': '' @ join '', '' (gn_Input g)] else []))"

definition report_lines :: "report \<Rightarrow> string list" where
  "report_lines r =
     [''Workflow '' @ rep_Workflow r @ '' (schema '' @ itoa (rep_SchemaVersion r) @ '')''] @
     (if rep_Description r \<noteq> [] then [rep_Description r] else []) @
     [''Executable hash: '' @ rep_ExecutableHash r, [], ''Graph (start: '' @ rep_Start r @ '')''] @
     concat (map graph_lines (List.enumerate 0 (rep_Graph r))) @ [[]] @
     text_section ''Inputs'' (rep_Inputs r = []) (map (\<lambda>i. ir_Name i @ '': '' @ ir_Summary i) (rep_Inputs r)) @
     text_section ''Outputs'' (rep_Outputs r = []) (map output_line (rep_Outputs r)) @
     [''Run key: '' @ rep_Workflow r @ '' + '' @ join '', '' (rep_RunKey r)] @
     text_section ''Capability contracts'' (rep_Capabilities r = []) (map contract_line (rep_Capabilities r)) @
     text_section ''Workers'' (rep_Workers r = []) (map worker_line (rep_Workers r)) @
     text_section ''Deterministic functions'' (rep_Functions r = []) (map function_line (rep_Functions r)) @
     text_section ''Resources'' (rep_Resources r = []) (map resource_line (rep_Resources r)) @
     text_section ''Retry policies'' False (map retry_line (rep_Retries r) @ [''every other step: 1 attempt'']) @
     text_section ''Model policies'' (rep_ModelPolicies r = []) (map policy_line (rep_ModelPolicies r)) @
     text_section ''Requested Standing Authority'' (rep_Authority r = []) (map authority_line (rep_Authority r)) @
     [''Schedule: '' @ schedule_line (rep_Schedule r), ''Retention: '' @ retention_line (rep_Retention r),
      ''Limits: '' @ limits_line (rep_Limits r),
      ''Worst case: '' @ grouped (rep_AgentTokens r) @ '' agent tokens, '' @ itoa (rep_Attempts r) @ '' attempts''] @
     text_section ''Files'' False (map file_line (rep_Files r)) @
     (if rep_Warnings r \<noteq> [] then text_section ''Warnings'' False (rep_Warnings r) else [])"

definition report_text :: "report \<Rightarrow> string" where
  "report_text r = concat (map (\<lambda>l. l @ [CHR 0x0A]) (report_lines r))"

section \<open>What the report says of resources\<close>

text \<open>The capability steps on a resource.\<close>

definition uses_resource :: "string \<Rightarrow> string \<Rightarrow> node \<Rightarrow> bool" where
  "uses_resource connection resource n \<longleftrightarrow> cap n \<noteq> None \<and> Connection (nstep n) = connection \<and> Resource (nstep n) = resource"

definition has_effect :: "node \<Rightarrow> bool" where
  "has_effect n \<longleftrightarrow> (\<exists>c. cap n = Some c \<and> Effect c)"

definition resource_inv :: "node list \<Rightarrow> resourceReport gomap \<Rightarrow> bool" where
  "resource_inv ns m \<longleftrightarrow>
     (\<forall>k r. map_of m k = Some r \<longrightarrow> k = rr_Connection r @ [CHR 0x00] @ rr_Resource r \<and>
        (\<exists>n \<in> set ns. uses_resource (rr_Connection r) (rr_Resource r) n) \<and>
        rr_Steps r = map nid (filter (\<lambda>n. cap n \<noteq> None \<and> resource_key n = k) ns) \<and>
        rr_Access r = (if \<exists>n \<in> set ns. resource_key n = k \<and> has_effect n then ''write'' else ''read'')) \<and>
     (\<forall>n \<in> set ns. cap n \<noteq> None \<longrightarrow> map_of m (resource_key n) \<noteq> None)"

lemma add_resource_inv:
  assumes inv: "resource_inv ns m"
  shows "resource_inv (ns @ [n]) (add_resource n m)"
proof (cases "cap n")
  case None
  then show ?thesis using inv by (auto simp: resource_inv_def add_resource_def has_effect_def)
next
  case (Some c)
  define r where "r = (case map_of m (resource_key n) of Some r \<Rightarrow> r
        | None \<Rightarrow> \<lparr>rr_Connection = Connection (nstep n), rr_Resource = Resource (nstep n), rr_Access = ''read'', rr_Steps = []\<rparr>)"
  have a: "add_resource n m = put (resource_key n) (r\<lparr>rr_Access := (if Effect c then ''write'' else rr_Access r), rr_Steps := rr_Steps r @ [nid n]\<rparr>) m"
    by (simp add: add_resource_def Some r_def Let_def)
  have e: "has_effect n \<longleftrightarrow> Effect c" by (simp add: has_effect_def Some)
  have r: "resource_key n = rr_Connection r @ [CHR 0x00] @ rr_Resource r"
      "rr_Steps r = map nid (filter (\<lambda>x. cap x \<noteq> None \<and> resource_key x = resource_key n) ns)"
      "rr_Access r = (if \<exists>x \<in> set ns. resource_key x = resource_key n \<and> has_effect x then ''write'' else ''read'')"
      "\<exists>x \<in> set (ns @ [n]). uses_resource (rr_Connection r) (rr_Resource r) x"
  proof -
    show "\<exists>x \<in> set (ns @ [n]). uses_resource (rr_Connection r) (rr_Resource r) x"
      using inv Some by (cases "map_of m (resource_key n)") (auto simp: r_def resource_inv_def uses_resource_def)
    show "resource_key n = rr_Connection r @ [CHR 0x00] @ rr_Resource r"
      using inv by (cases "map_of m (resource_key n)") (auto simp: r_def resource_inv_def resource_key_def)
    have none: "\<forall>x \<in> set ns. cap x \<noteq> None \<longrightarrow> resource_key x \<noteq> resource_key n" if "map_of m (resource_key n) = None"
      using inv that unfolding resource_inv_def by metis
    show "rr_Steps r = map nid (filter (\<lambda>x. cap x \<noteq> None \<and> resource_key x = resource_key n) ns)"
      using inv none by (cases "map_of m (resource_key n)") (auto simp: r_def resource_inv_def filter_empty_conv)
    show "rr_Access r = (if \<exists>x \<in> set ns. resource_key x = resource_key n \<and> has_effect x then ''write'' else ''read'')"
    proof (cases "map_of m (resource_key n)")
      case None
      then show ?thesis using none by (auto simp: r_def has_effect_def)
    next
      case (Some r')
      then show ?thesis using inv by (auto simp: r_def resource_inv_def)
    qed
  qed
  show ?thesis unfolding resource_inv_def a
  proof (intro conjI allI impI ballI)
    fix k x assume x: "map_of (put (resource_key n) (r\<lparr>rr_Access := (if Effect c then ''write'' else rr_Access r), rr_Steps := rr_Steps r @ [nid n]\<rparr>) m) k = Some x"
    have "k = rr_Connection x @ [CHR 0x00] @ rr_Resource x \<and> (\<exists>y \<in> set (ns @ [n]). uses_resource (rr_Connection x) (rr_Resource x) y) \<and>
      rr_Steps x = map nid (filter (\<lambda>y. cap y \<noteq> None \<and> resource_key y = k) (ns @ [n])) \<and>
      rr_Access x = (if \<exists>y \<in> set (ns @ [n]). resource_key y = k \<and> has_effect y then ''write'' else ''read'')"
    proof (cases "k = resource_key n")
      case True
      then have "x = r\<lparr>rr_Access := (if Effect c then ''write'' else rr_Access r), rr_Steps := rr_Steps r @ [nid n]\<rparr>" using x by (simp add: put_lookup)
      then show ?thesis using True r e Some by simp
    next
      case False
      then have m: "map_of m k = Some x" using x by (simp add: put_lookup)
      have "\<exists>y \<in> set ns. uses_resource (rr_Connection x) (rr_Resource x) y" using inv m unfolding resource_inv_def by blast
      moreover have "k = rr_Connection x @ [CHR 0x00] @ rr_Resource x" "rr_Steps x = map nid (filter (\<lambda>y. cap y \<noteq> None \<and> resource_key y = k) ns)"
        "rr_Access x = (if \<exists>y \<in> set ns. resource_key y = k \<and> has_effect y then ''write'' else ''read'')"
        using inv m unfolding resource_inv_def by blast+
      ultimately show ?thesis using False by simp
    qed
    then show "k = rr_Connection x @ [CHR 0x00] @ rr_Resource x" "\<exists>y \<in> set (ns @ [n]). uses_resource (rr_Connection x) (rr_Resource x) y"
      "rr_Steps x = map nid (filter (\<lambda>y. cap y \<noteq> None \<and> resource_key y = k) (ns @ [n]))"
      "rr_Access x = (if \<exists>y \<in> set (ns @ [n]). resource_key y = k \<and> has_effect y then ''write'' else ''read'')"
      by blast+
  next
    fix y assume "y \<in> set (ns @ [n])" "cap y \<noteq> None"
    then show "map_of (put (resource_key n) (r\<lparr>rr_Access := (if Effect c then ''write'' else rr_Access r), rr_Steps := rr_Steps r @ [nid n]\<rparr>) m) (resource_key y) \<noteq> None"
      using inv by (auto simp: put_lookup resource_inv_def)
  qed
qed

lemma resources_inv: "resource_inv ns (fold add_resource ns [])"
proof (induction ns rule: rev_induct)
  case (snoc n ns)
  then show ?case using add_resource_inv by simp
qed (simp add: resource_inv_def)

end
