(* ===== verification/Review.thy ===== *)
theory Review
  imports Reports Canonical
begin

text \<open>
  What activation needs of an accepted definition (review.go): the requested Standing Authority in
  canonical order with its hash, the check against Workspace Access, Workspace Access in canonical
  form, and the review diff of two versions. \<open>digest\<close> is the hexadecimal SHA-256 of hash.go.
\<close>

section \<open>The reviewed files\<close>

definition reviewedFiles :: "string \<Rightarrow> string \<Rightarrow> string gomap \<Rightarrow> string gomap" where
  "reviewedFiles source readme files = fold (\<lambda>(name, data) m. put name data m) files [(''workflow.yaml'', source), (''README.md'', readme)]"

section \<open>Requested Standing Authority\<close>

definition auth_key :: "authorityReport \<Rightarrow> string" where
  "auth_key op = au_Capability op @ [CHR 0x00] @ au_Connection op"

definition sort_resources :: "authorityReport \<Rightarrow> authorityReport" where
  "sort_resources op = op\<lparr>au_Resources := sortedStrings (au_Resources op)\<rparr>"

text \<open>\<^verbatim>\<open>sort.Slice\<close> promises no order of operations with one key; a stable sort is one it may give.\<close>

definition canonicalAuthority :: "authorityReport list \<Rightarrow> authorityReport list" where
  "canonicalAuthority ops = sort_key auth_key (map sort_resources ops)"

definition authorityFormat :: string where "authorityFormat = ''evie.workflow.authority/1''"

definition operation_doc :: "authorityReport \<Rightarrow> document" where
  "operation_doc op = Struct [(''capability'', Leaf (VStr (au_Capability op))), (''connection'', Leaf (VStr (au_Connection op))),
     (''resources'', texts_doc (au_Resources op)), (''max_calls_per_run'', Leaf (VInt (au_MaxCallsPerRun op)))]"

definition authority_doc :: "authorityReport list \<Rightarrow> document" where
  "authority_doc ops = Struct [(''format'', Leaf (VStr authorityFormat)), (''operations'', Array (map operation_doc (canonicalAuthority ops)))]"

definition AuthorityHash :: "(string \<Rightarrow> string) \<Rightarrow> authorityReport list \<Rightarrow> string" where
  "AuthorityHash digest ops = ''sha256:'' @ digest (encode (authority_doc ops))"

record requirements =
  rq_Authority :: "authorityReport list"
  rq_AuthorityHash :: string
  rq_Workers :: "string list"
  rq_Schedule :: "scheduleReport option"

definition add_worker :: "workerReport \<Rightarrow> string list \<Rightarrow> string list" where
  "add_worker w ws = (if wr_Worker w \<in> set ws then ws else ws @ [wr_Worker w])"

definition RequirementsOf :: "(string \<Rightarrow> string) \<Rightarrow> report \<Rightarrow> requirements" where
  "RequirementsOf digest r = (let ops = canonicalAuthority (rep_Authority r) in
     \<lparr>rq_Authority = ops, rq_AuthorityHash = AuthorityHash digest ops, rq_Workers = sort (fold add_worker (rep_Workers r) []),
      rq_Schedule = rep_Schedule r\<rparr>)"

section \<open>Workspace Access\<close>

definition outside_problem :: "workspaceAccess \<Rightarrow> authorityReport \<Rightarrow> string option" where
  "outside_problem access op = (let subject = au_Capability op @ '' on '' @ au_Connection op in
     case access_connection access (au_Connection op) of
       None \<Rightarrow> Some (subject @ '': connection '' @ au_Connection op @ '' is outside Workspace Access'')
     | Some conn \<Rightarrow> let missing = filter (\<lambda>r. \<not> allows conn r) (au_Resources op) in
         if missing \<noteq> [] then Some (subject @ '': resource '' @ join '', '' missing @ '' is outside Workspace Access'') else None)"

definition AuthorityOutside :: "authorityReport list \<Rightarrow> workspaceAccess \<Rightarrow> string list" where
  "AuthorityOutside ops access = List.map_filter (outside_problem access) (canonicalAuthority ops)"

fun resource_problem :: "string \<Rightarrow> string option \<Rightarrow> string list \<Rightarrow> errmsg option" where
  "resource_problem conn prev [] = None"
| "resource_problem conn prev (r # rs) = (
     if \<not> opaquePattern r then Some (Errf ''%q on %s is not a resource selector'' [S r, S conn])
     else if prev = Some r then Some (Errf ''resource %s on %s is listed twice'' [S r, S conn])
     else resource_problem conn (Some r) rs)"

fun normal_connections :: "string list \<Rightarrow> workspaceAccess \<Rightarrow> errmsg + workspaceAccess" where
  "normal_connections seen [] = Inr []"
| "normal_connections seen (c # cs) = (
     if \<not> opaquePattern (AID c) then Inl (Errf ''%q is not a Connection ID'' [S (AID c)])
     else if AID c \<in> set seen then Inl (Errf ''connection %s is listed twice'' [S (AID c)])
     else if AResources c = [] then Inl (Errf ''connection %s lists no resources'' [S (AID c)])
     else let resources = sortedStrings (AResources c) in
       (case resource_problem (AID c) None resources of Some e \<Rightarrow> Inl e
        | None \<Rightarrow> (case normal_connections (AID c # seen) cs of Inl e \<Rightarrow> Inl e
          | Inr out \<Rightarrow> Inr (\<lparr>AID = AID c, AResources = resources\<rparr> # out))))"

definition NormalizeAccess :: "workspaceAccess \<Rightarrow> errmsg + workspaceAccess" where
  "NormalizeAccess a = (case normal_connections [] a of Inl e \<Rightarrow> Inl e | Inr out \<Rightarrow> Inr (sort_key AID out))"

section \<open>The review diff\<close>

record sectionDiff =
  sd_Section :: string
  sd_Removed :: "string list"
  sd_Added :: "string list"

record reviewDiff =
  rd_FromHash :: string
  rd_ToHash :: string
  rd_ExecutableChanged :: bool
  rd_Executable :: "sectionDiff list"
  rd_Authority :: "string list"
  rd_DocumentationChanged :: bool

definition readmeDigest :: "report \<Rightarrow> string" where
  "readmeDigest r = (case find (\<lambda>f. \<not> fl_Hashed f \<and> fl_Path f = ''README.md'') (rep_Files r) of Some f \<Rightarrow> fl_Digest f | None \<Rightarrow> [])"

definition graph_review :: "graphNode \<Rightarrow> string" where
  "graph_review g = gn_Line g @ (if gn_Item g \<noteq> [] then ''; '' @ gn_Item g else []) @
     (if gn_Input g \<noteq> [] then ''; input '' @ join '', '' (gn_Input g) else [])"

definition worker_review :: "workerReport \<Rightarrow> string" where
  "worker_review w = wr_Step w @ '': '' @ wr_Worker w @ '' worker, '' @ plural (wr_Attempts w) ''attempt'' @ '', '' @ wr_BudgetTime w @ '' / '' @
     grouped (wr_BudgetTokens w) @ '' tokens each'' @ (if 0 < wr_MaxItems w then '', up to '' @ itoa (wr_MaxItems w) @ '' items'' else [])"

definition function_review :: "functionReport \<Rightarrow> string" where
  "function_review f = fr_ID f @ '' ('' @ join '', '' (fr_Steps f) @ '')''"

type_synonym review_section = "string \<times> string list"

definition reviewSections :: "report \<Rightarrow> review_section list" where
  "reviewSections r = [
     (''Workflow'', [rep_Workflow r @ '' (schema '' @ itoa (rep_SchemaVersion r) @ '')'']),
     (''Graph'', (if rep_Start r \<noteq> [] then [''start: '' @ rep_Start r] else []) @ map graph_review (rep_Graph r)),
     (''Inputs'', map (\<lambda>i. ir_Name i @ '': '' @ ir_Summary i) (rep_Inputs r)),
     (''Outputs'', map output_line (rep_Outputs r)),
     (''Run key'', [join '', '' (rep_RunKey r)]),
     (''Capability contracts'', map contract_line (rep_Capabilities r)),
     (''Workers'', map worker_review (rep_Workers r)),
     (''Deterministic functions'', map function_review (rep_Functions r)),
     (''Resources'', map resource_line (rep_Resources r)),
     (''Retry policies'', map retry_line (rep_Retries r)),
     (''Model policies'', map policy_line (rep_ModelPolicies r)),
     (''Schedule'', [schedule_line (rep_Schedule r)]),
     (''Retention'', [''classification '' @ retention_line (rep_Retention r)]),
     (''Limits'', [limits_line (rep_Limits r)]),
     (''Prompts and schemas'', map (\<lambda>f. fl_Path f @ '' '' @ fl_Digest f) (filter fl_Hashed (rep_Files r)))]"

definition lineDiff :: "string list \<Rightarrow> string list \<Rightarrow> string list \<times> string list" where
  "lineDiff before after = (filter (\<lambda>l. l \<notin> set after) before, filter (\<lambda>l. l \<notin> set before) after)"

definition authorityLine :: "authorityReport \<Rightarrow> string" where
  "authorityLine op = au_Capability op @ '' on '' @ au_Connection op @ '': '' @ join '', '' (au_Resources op) @ '', at most '' @
     plural (au_MaxCallsPerRun op) ''call'' @ '' per run''"

definition operation_changes :: "authorityReport \<Rightarrow> authorityReport \<Rightarrow> string list" where
  "operation_changes prev op = (case lineDiff (au_Resources prev) (au_Resources op) of (removed, added) \<Rightarrow>
     map (\<lambda>r. CHR ''+'' # r) added @ map (\<lambda>r. CHR ''-'' # r) removed @
     (if au_MaxCallsPerRun prev \<noteq> au_MaxCallsPerRun op then
        [''max calls per run '' @ itoa (au_MaxCallsPerRun prev) @ '' -> '' @ itoa (au_MaxCallsPerRun op)] else []))"

definition operation_diff :: "authorityReport gomap \<Rightarrow> authorityReport \<Rightarrow> string list" where
  "operation_diff old op = (case map_of old (auth_key op) of None \<Rightarrow> [''+ '' @ authorityLine op]
     | Some prev \<Rightarrow> let changes = operation_changes prev op in
         if changes \<noteq> [] then [''~ '' @ au_Capability op @ '' on '' @ au_Connection op @ '': '' @ join ''; '' changes] else [])"

definition authorityDiff :: "authorityReport list \<Rightarrow> authorityReport list \<Rightarrow> string list" where
  "authorityDiff before after = (let
      old = fold (\<lambda>op m. put (auth_key op) op m) (canonicalAuthority before) [];
      seen = map auth_key (canonicalAuthority after)
    in concat (map (operation_diff old) (canonicalAuthority after)) @
       map (\<lambda>op. ''- '' @ authorityLine op) (filter (\<lambda>op. auth_key op \<notin> set seen) (canonicalAuthority before)))"

text \<open>A section's old lines are those of the same position before; there are none for a new definition.\<close>

definition section_diff :: "review_section list \<Rightarrow> nat \<times> review_section \<Rightarrow> sectionDiff list" where
  "section_diff before p = (case p of (i, title, lines) \<Rightarrow>
     (case lineDiff (if before = [] then [] else snd (before ! i)) lines of (removed, added) \<Rightarrow>
       if removed \<noteq> [] \<or> added \<noteq> [] then [\<lparr>sd_Section = title, sd_Removed = removed, sd_Added = added\<rparr>] else []))"

definition DiffReports :: "report option \<Rightarrow> report \<Rightarrow> reviewDiff" where
  "DiffReports from to = (let before = (case from of Some r \<Rightarrow> reviewSections r | None \<Rightarrow> []) in
     \<lparr>rd_FromHash = (case from of Some r \<Rightarrow> rep_ExecutableHash r | None \<Rightarrow> []),
      rd_ToHash = rep_ExecutableHash to,
      rd_ExecutableChanged = (case from of Some r \<Rightarrow> rep_ExecutableHash r \<noteq> rep_ExecutableHash to | None \<Rightarrow> True),
      rd_Executable = concat (map (section_diff before) (List.enumerate 0 (reviewSections to))),
      rd_Authority = authorityDiff (case from of Some r \<Rightarrow> rep_Authority r | None \<Rightarrow> []) (rep_Authority to),
      rd_DocumentationChanged = (case from of Some r \<Rightarrow> readmeDigest r \<noteq> readmeDigest to \<or> rep_Description r \<noteq> rep_Description to
        | None \<Rightarrow> False)\<rparr>)"

definition diff_lines :: "reviewDiff \<Rightarrow> string list" where
  "diff_lines d =
     [if rd_FromHash d = [] then ''New definition '' @ rd_ToHash d
      else if \<not> rd_ExecutableChanged d then ''No executable change: '' @ rd_ToHash d @ '' is the known version'' @ [CHR 0x27] @ ''s hash''
      else ''Executable hash '' @ rd_FromHash d @ '' -> '' @ rd_ToHash d] @
     (if rd_DocumentationChanged d then [''Documentation changed (README or descriptions; not part of the hash)''] else []) @
     (if rd_Executable d \<noteq> [] then ''Executable changes'' # concat (map (\<lambda>s. [''  '' @ sd_Section s] @
        map (\<lambda>l. ''    - '' @ l) (sd_Removed s) @ map (\<lambda>l. ''    + '' @ l) (sd_Added s)) (rd_Executable d)) else []) @
     (if rd_Authority d \<noteq> [] then ''Authority changes'' # map (\<lambda>l. ''  '' @ l) (rd_Authority d)
      else if rd_ExecutableChanged d then [''Authority changes: none''] else [])"

definition diff_text :: "reviewDiff \<Rightarrow> string" where
  "diff_text d = concat (map (\<lambda>l. l @ [CHR 0x0A]) (diff_lines d))"


section \<open>What the hash of the authority covers\<close>

lemma sort_resources_key [simp]: "auth_key (sort_resources op) = auth_key op"
  by (simp add: auth_key_def sort_resources_def)

lemma sort_resources_sel [simp]: "au_Capability (sort_resources op) = au_Capability op" "au_Connection (sort_resources op) = au_Connection op"
  "au_Resources (sort_resources op) = sort (au_Resources op)" "au_MaxCallsPerRun (sort_resources op) = au_MaxCallsPerRun op"
  by (simp_all add: sort_resources_def sortedStrings_def)

interpretation af: sorted_form auth_key sort_resources
  by unfold_locales simp

lemmas canonical_set = af.members [folded canonicalAuthority_def]
  and canonical_mset = af.multiset [folded canonicalAuthority_def]
  and canonical_distinct = af.keys_distinct [folded canonicalAuthority_def]
  and canonical_sorted = af.keys_sorted [folded canonicalAuthority_def]
  and canonical_eq_iff = af.same_iff [folded canonicalAuthority_def]

lemma operation_doc_inj [simp]: "operation_doc a = operation_doc b \<longleftrightarrow> a = b"
  by (cases a; cases b) (auto simp: operation_doc_def texts_doc_def dest: map_injective [OF _ injI])

lemma map_operation_doc [simp]: "map operation_doc xs = map operation_doc ys \<longleftrightarrow> xs = ys"
  by (rule inj_map_eq_map) (simp add: inj_def)

lemma authority_doc_iff: "authority_doc ops = authority_doc ops' \<longleftrightarrow> canonicalAuthority ops = canonicalAuthority ops'"
  by (simp add: authority_doc_def)

lemma canonical_idem: "canonicalAuthority (canonicalAuthority ops) = canonicalAuthority ops"
proof -
  have "map sort_resources (canonicalAuthority ops) = canonicalAuthority ops"
    by (rule map_idI) (auto simp: canonical_set sort_resources_def sortedStrings_def sorted_sort_id)
  then show ?thesis
    using canonical_sorted [of ops] unfolding canonicalAuthority_def [of "canonicalAuthority ops"]
    by (simp add: sorted_sort_id sort_key_id_if_sorted)
qed

section \<open>Authority against access\<close>

lemma outside_iff: "outside_problem access op = None \<longleftrightarrow>
    (\<exists>conn. access_connection access (au_Connection op) = Some conn \<and> (\<forall>r \<in> set (au_Resources op). allows conn r))"
  by (auto simp: outside_problem_def Let_def filter_empty_conv split: option.splits)

lemma outside_none: "AuthorityOutside ops access = [] \<longleftrightarrow> (\<forall>op \<in> set ops.
    \<exists>conn. access_connection access (au_Connection op) = Some conn \<and> (\<forall>r \<in> set (au_Resources op). allows conn r))"
proof -
  have "AuthorityOutside ops access = [] \<longleftrightarrow> (\<forall>op \<in> set (canonicalAuthority ops). outside_problem access op = None)"
    by (auto simp: AuthorityOutside_def map_filter_def filter_empty_conv)
  then show ?thesis by (simp add: canonical_set outside_iff)
qed

section \<open>The authority diff\<close>

text \<open>Operations an accepted definition may request: distinct by capability and connection, no resource twice.\<close>

definition wf_operation :: "authorityReport \<Rightarrow> bool" where
  "wf_operation op \<longleftrightarrow> CHR 0x00 \<notin> set (au_Connection op) \<and> au_Resources op \<noteq> [] \<and> distinct (au_Resources op)"

definition wf_authority :: "authorityReport list \<Rightarrow> bool" where
  "wf_authority ops \<longleftrightarrow> distinct (map auth_key ops) \<and> (\<forall>op \<in> set ops. wf_operation op)"

lemma last_separator: "c \<notin> set v \<Longrightarrow> rev (takeWhile (\<lambda>x. x \<noteq> c) (rev (u @ [c] @ v))) = v"
  by (subst rev_append, subst rev_append, subst append_assoc) (auto simp: takeWhile_append takeWhile_eq_all_conv [THEN iffD2])

lemma auth_key_inj:
  assumes "auth_key a = auth_key b" and "CHR 0x00 \<notin> set (au_Connection a)" and "CHR 0x00 \<notin> set (au_Connection b)"
  shows "au_Capability a = au_Capability b \<and> au_Connection a = au_Connection b"
proof -
  have "au_Connection a = au_Connection b"
    using assms(1) last_separator [OF assms(2), of "au_Capability a"] last_separator [OF assms(3), of "au_Capability b"]
    by (simp add: auth_key_def)
  then show ?thesis using assms(1) by (simp add: auth_key_def)
qed

lemma operation_changes_iff:
  assumes "wf_operation a" and "wf_operation b" and "sorted (au_Resources a)" and "sorted (au_Resources b)" and "auth_key a = auth_key b"
  shows "operation_changes a b = [] \<longleftrightarrow> a = b"
proof -
  have "operation_changes a b = [] \<longleftrightarrow> set (au_Resources a) = set (au_Resources b) \<and> au_MaxCallsPerRun a = au_MaxCallsPerRun b"
    by (auto simp: operation_changes_def lineDiff_def filter_empty_conv)
  also have "\<dots> \<longleftrightarrow> au_Resources a = au_Resources b \<and> au_MaxCallsPerRun a = au_MaxCallsPerRun b"
    using assms sorted_distinct_set_unique by (fastforce simp: wf_operation_def)
  also have "\<dots> \<longleftrightarrow> a = b"
    using auth_key_inj [OF assms(5)] assms by (cases a; cases b) (auto simp: wf_operation_def)
  finally show ?thesis .
qed

lemma sort_Nil [simp]: "sort xs = [] \<longleftrightarrow> xs = []"
  by (metis set_empty set_sort)

lemma wf_canonical: "wf_authority ops \<Longrightarrow> op \<in> set (canonicalAuthority ops) \<Longrightarrow> wf_operation op \<and> sorted (au_Resources op)"
  by (auto simp: wf_authority_def canonical_set wf_operation_def)

lemma authority_diff_iff:
  assumes b: "wf_authority before" and a: "wf_authority after"
  shows "authorityDiff before after = [] \<longleftrightarrow> canonicalAuthority before = canonicalAuthority after"
proof -
  let ?B = "canonicalAuthority before" and ?A = "canonicalAuthority after"
  let ?old = "fold (\<lambda>op m. put (auth_key op) op m) ?B []"
  have db: "distinct (map auth_key ?B)" and da: "distinct (map auth_key ?A)"
    using a b by (simp_all add: canonical_distinct wf_authority_def)
  have old: "map_of ?old k = Some x \<longleftrightarrow> x \<in> set ?B \<and> auth_key x = k" for k x
    by (simp add: keyed_lookup [OF db] find_distinct [OF db])
  have same: "operation_diff ?old op = [] \<longleftrightarrow> op \<in> set ?B" if op: "op \<in> set ?A" for op
  proof (cases "map_of ?old (auth_key op)")
    case None
    then show ?thesis using old [of "auth_key op" op] by (auto simp: operation_diff_def)
  next
    case (Some prev)
    then have prev: "prev \<in> set ?B" "auth_key prev = auth_key op" using old by blast+
    have "operation_diff ?old op = [] \<longleftrightarrow> operation_changes prev op = []" by (simp add: operation_diff_def Some Let_def)
    also have "\<dots> \<longleftrightarrow> prev = op"
      using operation_changes_iff [of prev op] wf_canonical [OF b prev(1)] wf_canonical [OF a op] prev(2) by blast
    also have "\<dots> \<longleftrightarrow> op \<in> set ?B" using prev db by (auto simp: distinct_map inj_on_def)
    finally show ?thesis .
  qed
  have same_keys: "x \<in> set ?A" if "set ?A \<subseteq> set ?B" "auth_key ` set ?B \<subseteq> auth_key ` set ?A" "x \<in> set ?B" for x
  proof -
    have "auth_key x \<in> auth_key ` set ?A" using that by blast
    then obtain y where y: "y \<in> set ?A" "auth_key x = auth_key y" by (rule imageE)
    then have "y = x" using that db by (auto simp: distinct_map inj_on_def)
    with y show ?thesis by simp
  qed
  have "authorityDiff before after = [] \<longleftrightarrow> (\<forall>op \<in> set ?A. operation_diff ?old op = []) \<and> auth_key ` set ?B \<subseteq> auth_key ` set ?A"
    by (auto simp: authorityDiff_def Let_def filter_empty_conv)
  also have "\<dots> \<longleftrightarrow> set ?A \<subseteq> set ?B \<and> auth_key ` set ?B \<subseteq> auth_key ` set ?A"
    using same by blast
  also have "\<dots> \<longleftrightarrow> set ?B = set ?A"
    using same_keys by blast
  also have "\<dots> \<longleftrightarrow> ?B = ?A"
    by (rule iffI, rule sorted_keyed_unique [OF _ db da canonical_sorted canonical_sorted]) simp_all
  finally show ?thesis .
qed


section \<open>Workspace Access in canonical form\<close>

definition wf_connection :: "connectionAccess \<Rightarrow> bool" where
  "wf_connection c \<longleftrightarrow> opaquePattern (AID c) \<and> AResources c \<noteq> [] \<and> distinct (AResources c) \<and> (\<forall>r \<in> set (AResources c). opaquePattern r)"

definition wf_access :: "workspaceAccess \<Rightarrow> bool" where
  "wf_access a \<longleftrightarrow> distinct (map AID a) \<and> (\<forall>c \<in> set a. wf_connection c)"

definition normal_connection :: "connectionAccess \<Rightarrow> connectionAccess" where
  "normal_connection c = \<lparr>AID = AID c, AResources = sort (AResources c)\<rparr>"

lemma resource_problem_None:
  "sorted rs \<Longrightarrow> (\<And>p r. prev = Some p \<Longrightarrow> r \<in> set rs \<Longrightarrow> p \<le> r) \<Longrightarrow>
    resource_problem conn prev rs = None \<longleftrightarrow> (\<forall>r \<in> set rs. opaquePattern r) \<and> distinct rs \<and> (\<forall>p. prev = Some p \<longrightarrow> p \<notin> set rs)"
proof (induction rs arbitrary: prev)
  case (Cons r rs)
  have "resource_problem conn (Some r) rs = None \<longleftrightarrow> (\<forall>r \<in> set rs. opaquePattern r) \<and> distinct rs \<and> r \<notin> set rs"
    by (subst Cons.IH) (use Cons.prems(1) in auto)
  moreover have "p \<notin> set rs" if "prev = Some p" "p \<noteq> r" for p
    using Cons.prems that by fastforce
  ultimately show ?case by auto
qed simp

lemma normal_connections_iff:
  "normal_connections seen a = Inr out \<longleftrightarrow>
    out = map normal_connection a \<and> distinct (map AID a) \<and> (\<forall>c \<in> set a. wf_connection c \<and> AID c \<notin> set seen)"
proof (induction a arbitrary: seen out)
  case (Cons c a)
  have rp: "resource_problem (AID c) None (sort (AResources c)) = None \<longleftrightarrow> (\<forall>r \<in> set (AResources c). opaquePattern r) \<and> distinct (AResources c)"
    by (subst resource_problem_None) simp_all
  have "normal_connections seen (c # a) = Inr out \<longleftrightarrow> wf_connection c \<and> AID c \<notin> set seen \<and>
      (\<exists>rest. normal_connections (AID c # seen) a = Inr rest \<and> out = normal_connection c # rest)"
    using rp by (auto simp: wf_connection_def normal_connection_def sortedStrings_def Let_def split: option.splits sum.splits)
  then show ?case unfolding Cons.IH by (auto simp del: normal_connections.simps simp: image_iff)
qed auto

lemma NormalizeAccess_iff: "NormalizeAccess a = Inr b \<longleftrightarrow> wf_access a \<and> b = sort_key AID (map normal_connection a)"
proof (cases "normal_connections [] a")
  case (Inl e)
  then show ?thesis
    using normal_connections_iff [of "[]" a "map normal_connection a"] by (auto simp: NormalizeAccess_def wf_access_def)
next
  case (Inr x)
  then have "x = map normal_connection a \<and> wf_access a"
    using normal_connections_iff [of "[]" a x] by (simp add: wf_access_def)
  with Inr show ?thesis by (auto simp: NormalizeAccess_def)
qed

lemma normal_connection_sel [simp]: "AID (normal_connection c) = AID c" "set (AResources (normal_connection c)) = set (AResources c)"
  by (simp_all add: normal_connection_def)

text \<open>With distinct IDs, what is allowed does not depend on the order of the connections.\<close>

lemma Allows_iff:
  "distinct (map AID a) \<Longrightarrow> Allows a conn r \<longleftrightarrow> (\<exists>c \<in> set a. AID c = conn \<and> r \<in> set (AResources c))"
proof (cases "find (\<lambda>c. AID c = conn) a")
  case None
  then show ?thesis by (simp add: Allows_def access_connection_def) (auto simp: find_None_iff)
next
  case (Some c)
  assume d: "distinct (map AID a)"
  have "c' = c" if "c' \<in> set a" "AID c' = conn" for c'
    using that Some find_distinct [OF d] by (metis option.inject)
  then show ?thesis using Some find_distinct [OF d, of conn c] by (auto simp: Allows_def access_connection_def allows_def list_ex_iff)
qed

interpretation nf: sorted_form AID normal_connection
  by unfold_locales simp

lemma normalized_access:
  assumes "NormalizeAccess a = Inr b"
  shows "wf_access b" and "sorted (map AID b)" and "c \<in> set b \<Longrightarrow> sorted (AResources c)" and "Allows b conn r = Allows a conn r"
proof -
  have b: "b = sort_key AID (map normal_connection a)" and a: "wf_access a" using assms NormalizeAccess_iff by auto
  have d: "distinct (map AID b)" "distinct (map AID a)"
    using nf.keys_distinct a by (auto simp: b wf_access_def)
  show "wf_access b" using d a by (auto simp: wf_access_def b wf_connection_def normal_connection_def)
  show "sorted (map AID b)" by (simp add: b)
  show "sorted (AResources c)" if "c \<in> set b" using that by (auto simp: b normal_connection_def)
  show "Allows b conn r = Allows a conn r" unfolding Allows_iff [OF d(1)] Allows_iff [OF d(2)] by (auto simp: b)
qed

lemma normal_access_unique:
  assumes b: "NormalizeAccess a = Inr b" and b': "NormalizeAccess a' = Inr b'" and same: "\<And>conn r. Allows a conn r = Allows a' conn r"
  shows "b = b'"
proof -
  note nb = normalized_access [OF b] and nb' = normalized_access [OF b']
  have d: "distinct (map AID b)" "distinct (map AID b')" using nb(1) nb'(1) by (simp_all add: wf_access_def)
  have half: "x \<in> set v" if u: "wf_access u" "\<And>c. c \<in> set u \<Longrightarrow> sorted (AResources c)" and v: "wf_access v" "\<And>c. c \<in> set v \<Longrightarrow> sorted (AResources c)"
      and eq: "\<And>conn r. Allows u conn r = Allows v conn r" and x: "x \<in> set u" for u v :: workspaceAccess and x
  proof -
    have dv: "distinct (map AID v)" and du: "distinct (map AID u)" using u v by (simp_all add: wf_access_def)
    have "AResources x \<noteq> []" using u x by (auto simp: wf_access_def wf_connection_def)
    then obtain r where r: "r \<in> set (AResources x)" by (cases "AResources x") auto
    have "Allows v (AID x) r" using r x eq Allows_iff [OF du] by blast
    then obtain y where y: "y \<in> set v" "AID y = AID x" using Allows_iff [OF dv] by blast
    have "r \<in> set (AResources x) \<longleftrightarrow> r \<in> set (AResources y)" for r
    proof -
      have "r \<in> set (AResources x) \<longleftrightarrow> Allows u (AID x) r"
        unfolding Allows_iff [OF du] using x du by (auto simp: distinct_map inj_on_def)
      moreover have "r \<in> set (AResources y) \<longleftrightarrow> Allows v (AID x) r"
        unfolding Allows_iff [OF dv] using y dv by (auto simp: distinct_map inj_on_def)
      ultimately show ?thesis using eq by simp
    qed
    then have "AResources x = AResources y"
      using u v x y by (intro sorted_distinct_set_unique) (auto simp: wf_access_def wf_connection_def)
    with y have "y = x" by simp
    with y show ?thesis by simp
  qed
  have eq: "Allows b conn r = Allows b' conn r" for conn r using nb(4) nb'(4) same by simp
  have "set b = set b'" using half [OF nb(1,3) nb'(1,3) eq] half [OF nb'(1,3) nb(1,3) eq [symmetric]] by blast
  then show ?thesis using sorted_keyed_unique d nb(2) nb'(2) by blast
qed

section \<open>What an accepted definition requests\<close>

lemma run_authority: "run h d = Some ([], v) \<Longrightarrow> vdefinition v = d \<and> checkAuthority (h_env h) (vsteps v) (Authority d) = []"
  unfolding run_def Let_def by (auto split: prod.splits option.splits)

lemma operations_checked:
  "check_operations ev ns before ops = [] \<Longrightarrow> i < length ops \<Longrightarrow> check_operation ev ns (before @ take i ops) (length before + i) (ops ! i) = []"
proof (induction ops arbitrary: before i)
  case (Cons op ops)
  then show ?case using Cons.IH [of "before @ [op]" "i - 1"] by (cases i) auto
qed simp

lemma operation_resources:
  assumes "authority_resources ev p op = []" and "connOK ev op = c"
  shows "o_Resources op \<noteq> [] \<and> distinct (o_Resources op) \<and> (\<forall>r \<in> set (o_Resources op). opaquePattern r \<and> (\<forall>conn. c = Some conn \<longrightarrow> allows conn r))"
proof -
  let ?rs = "o_Resources op"
  have at: "opaquePattern (?rs ! j) \<and> index_of (?rs ! j) ?rs = Some j \<and> (\<forall>conn. c = Some conn \<longrightarrow> allows conn (?rs ! j))" if "j < length ?rs" for j
  proof -
    have "(j, ?rs ! j) \<in> set (List.enumerate 0 ?rs)" using that by (auto simp: in_set_enumerate_eq)
    then show ?thesis using assms by (fastforce simp: authority_resources_def split: if_splits option.splits)
  qed
  have "distinct ?rs" unfolding distinct_conv_nth by (metis at option.inject)
  moreover have "?rs \<noteq> []" using assms by (simp add: authority_resources_def)
  ultimately show ?thesis using at by (auto simp: in_set_conv_nth)
qed

lemma opaque_no_nul: "opaquePattern s \<Longrightarrow> CHR 0x00 \<notin> set s"
  by (auto simp: opaquePattern_def list_all_iff ccode_def)

lemma accepted_authority:
  assumes "run h d = Some ([], v)" and "Authority d = Some ops"
  shows "wf_authority (map authority_of ops) \<and> (\<not> AccessUnchecked (h_env h) \<longrightarrow> AuthorityOutside (map authority_of ops) (Access (h_env h)) = [])"
proof -
  let ?ev = "h_env h"
  have c: "check_operations ?ev (vsteps v) [] ops = []" using run_authority [OF assms(1)] assms(2) by (simp add: checkAuthority_def)
  have at: "opaquePattern (o_Connection op) \<and> (\<forall>q \<in> set (take i ops). auth_key (authority_of q) \<noteq> auth_key (authority_of op)) \<and>
      o_Resources op \<noteq> [] \<and> distinct (o_Resources op) \<and> (\<not> AccessUnchecked ?ev \<longrightarrow>
        (\<exists>conn. access_connection (Access ?ev) (o_Connection op) = Some conn \<and> (\<forall>r \<in> set (o_Resources op). allows conn r)))"
    if i: "i < length ops" and op: "op = ops ! i" for i op
  proof -
    let ?p = "''authority.operations['' @ itoa (int i) @ '']''"
    have ck: "check_operation ?ev (vsteps v) (take i ops) i op = []" using operations_checked [OF c i] op by simp
    then have conn: "authority_connection ?ev ?p op = []" and res: "authority_resources ?ev ?p op = []"
      and seen: "\<not> (\<exists>q \<in> set (take i ops). o_Capability q @ [CHR 0x00] @ o_Connection q = o_Capability op @ [CHR 0x00] @ o_Connection op)"
      by (auto simp: check_operation_def Let_def)
    have o: "o_Connection op \<noteq> []" "opaquePattern (o_Connection op)" "AccessUnchecked ?ev \<or> access_connection (Access ?ev) (o_Connection op) \<noteq> None"
      using conn by (auto simp: authority_connection_def split: if_splits)
    note rs = operation_resources [OF res refl]
    show ?thesis using o rs seen by (auto simp: connOK_def auth_key_def authority_of_def)
  qed
  have "distinct (map auth_key (map authority_of ops))"
    unfolding distinct_conv_nth
  proof (intro allI impI)
    fix i j assume i: "i < length (map auth_key (map authority_of ops))" "j < length (map auth_key (map authority_of ops))" "i \<noteq> j"
    have "auth_key (authority_of (ops ! a)) \<noteq> auth_key (authority_of (ops ! b))" if "a < b" "b < length ops" for a b
    proof -
      have "ops ! a \<in> set (take b ops)" using that by (auto simp: in_set_conv_nth intro!: exI [of _ a])
      then show ?thesis using at [OF that(2) refl] by blast
    qed
    then show "map auth_key (map authority_of ops) ! i \<noteq> map auth_key (map authority_of ops) ! j"
      using i by (cases i j rule: linorder_cases) fastforce+
  qed
  then show ?thesis
    using at opaque_no_nul by (auto simp: wf_authority_def wf_operation_def outside_none in_set_conv_nth authority_of_def)
qed

end
