(* ===== verification/Normal.thy ===== *)
theory Normal
  imports Review
begin

text \<open>
  The executable hash of a definition (hash.go): the normalized definition, everything that affects
  behaviour with descriptions left out, defaults applied, durations in milliseconds and collections
  sorted; the digests of its prompts, schemas and functions; and the document they form.
\<close>

section \<open>The normalized definition\<close>

record normInput =
  ni_Name :: string
  ni_Type :: string
  ni_Required :: bool
  ni_Default :: "val option"
  ni_Enum :: "val list"
  ni_Minimum :: "float64 option"
  ni_Maximum :: "float64 option"
  ni_MaxLength :: "int option"
  ni_Sensitive :: bool

record normLimits =
  nl_MaxDurationMS :: int
  nl_MaxAttempts :: int
  nl_MaxParallel :: int
  nl_MaxTokens :: int

type_synonym normPair = "string \<times> val"

record normSchedule =
  nsc_Cron :: string
  nsc_Timezone :: string
  nsc_CatchUpPolicy :: string
  nsc_CatchUpMaxRuns :: int
  nsc_Inputs :: "normPair list"

record normCase =
  nc_Ref :: string
  nc_Op :: string
  nc_Value :: "val option"
  nc_Next :: string

record normStep0 =
  ns_ID :: string
  ns_Kind :: string
  ns_Next :: string
  ns_Attempts :: int
  ns_BackoffMS :: int
  ns_Input :: "normPair list"
  ns_Function :: string
  ns_Capability :: string
  ns_Contract :: string
  ns_Connection :: string
  ns_Resource :: string
  ns_ModelPolicy :: string
  ns_Prompt :: string
  ns_OutputSchema :: string
  ns_Worker :: string
  ns_Objective :: string
  ns_BudgetMS :: int
  ns_BudgetTokens :: int
  ns_Cases :: "normCase list"
  ns_Default :: string
  ns_Message :: string
  ns_ResponseSchema :: string
  ns_Over :: string
  ns_MaxItems :: int
  ns_MaxParallel :: int
  ns_OnItemFailure :: string
  ns_MinSucceeded :: int

record normStep = normStep0 +
  ns_Item :: "normStep0 option"

record normDefinition =
  nd_SchemaVersion :: int
  nd_Name :: string
  nd_Inputs :: "normInput list"
  nd_RunKey :: "string list"
  nd_ModelPolicies :: "policyReport list"
  nd_Limits :: normLimits
  nd_Authority :: "authorityReport list"
  nd_Schedule :: "normSchedule option"
  nd_Retention :: string
  nd_Start :: string
  nd_Steps :: "normStep list"
  nd_Outputs :: "normPair list"

text \<open>\<^verbatim>\<open>ms\<close>: the whole milliseconds of a duration, toward zero; 0 for text that is not one.\<close>

definition ms :: "string \<Rightarrow> int" where
  "ms s = (case parseDuration s of None \<Rightarrow> 0 | Some d \<Rightarrow> if d < 0 then - ((- d) div 1000000) else d div 1000000)"

definition normValues :: "ynode gomap \<Rightarrow> errmsg + normPair list" where
  "normValues m = map_err (\<lambda>name. case nodeValue (the (map_of m name)) of Inl e \<Rightarrow> Inl e | Inr v \<Rightarrow> Inr (name, v)) (sortedKeys m)"

definition norm_optional :: "ynode \<Rightarrow> errmsg + val option" where
  "norm_optional n = (if n = YAbsent then Inr None else case nodeValue n of Inl e \<Rightarrow> Inl e | Inr v \<Rightarrow> Inr (Some v))"

definition norm_input :: "string \<Rightarrow> inputSpec \<Rightarrow> errmsg + normInput" where
  "norm_input name s = (case norm_optional (i_Default s) of Inl e \<Rightarrow> Inl e
   | Inr d \<Rightarrow> (case map_err nodeValue (i_Enum s) of Inl e \<Rightarrow> Inl e
     | Inr vs \<Rightarrow> Inr \<lparr>ni_Name = name, ni_Type = i_Type s, ni_Required = i_Required s, ni_Default = d, ni_Enum = vs,
         ni_Minimum = i_Minimum s, ni_Maximum = i_Maximum s, ni_MaxLength = i_MaxLength s, ni_Sensitive = i_Sensitive s\<rparr>))"

definition norm_schedule :: "schedule \<Rightarrow> errmsg + normSchedule" where
  "norm_schedule s = (case normValues (s_Inputs s) of Inl e \<Rightarrow> Inl e
   | Inr pairs \<Rightarrow> Inr \<lparr>nsc_Cron = join '' '' (splitFields (s_Cron s)), nsc_Timezone = s_Timezone s,
       nsc_CatchUpPolicy = (case s_CatchUp s of Some c \<Rightarrow> c_Policy c | None \<Rightarrow> []),
       nsc_CatchUpMaxRuns = (case s_CatchUp s of Some c \<Rightarrow> c_MaxRuns c | None \<Rightarrow> 0), nsc_Inputs = pairs\<rparr>)"

definition norm_case :: "branchCase \<Rightarrow> errmsg + normCase" where
  "norm_case c = (case When c of None \<Rightarrow> Inr \<lparr>nc_Ref = [], nc_Op = [], nc_Value = None, nc_Next = CNext c\<rparr>
   | Some w \<Rightarrow> (case norm_optional (w_Value w) of Inl e \<Rightarrow> Inl e
     | Inr v \<Rightarrow> Inr \<lparr>nc_Ref = w_Ref w, nc_Op = w_Op w, nc_Value = v, nc_Next = CNext c\<rparr>))"

definition norm_attempts :: "'a step0_scheme \<Rightarrow> int" where
  "norm_attempts s = (if SKind s \<in> {KindBranch, KindMap, KindInterrupt} then 0 else case Retry s of Some r \<Rightarrow> r_MaxAttempts r | None \<Rightarrow> 1)"

definition norm_backoff :: "'a step0_scheme \<Rightarrow> int" where
  "norm_backoff s = (if SKind s \<in> {KindBranch, KindMap, KindInterrupt} then 0 else case Retry s of Some r \<Rightarrow> ms (r_Backoff r) | None \<Rightarrow> 0)"

definition norm_step0 :: "'a step0_scheme \<Rightarrow> bool \<Rightarrow> errmsg + normStep0" where
  "norm_step0 s is_item = (case normValues (Input s) of Inl e \<Rightarrow> Inl e
   | Inr pairs \<Rightarrow> (case map_err norm_case (Cases s) of Inl e \<Rightarrow> Inl e
     | Inr cs \<Rightarrow> Inr \<lparr>ns_ID = (if is_item then [] else ID s), ns_Kind = SKind s, ns_Next = Next s, ns_Attempts = norm_attempts s,
         ns_BackoffMS = norm_backoff s, ns_Input = pairs, ns_Function = Function s, ns_Capability = Capability s,
         ns_Contract = Contract s, ns_Connection = Connection s, ns_Resource = Resource s, ns_ModelPolicy = ModelPolicy s,
         ns_Prompt = Prompt s, ns_OutputSchema = OutputSchema s, ns_Worker = Worker s, ns_Objective = Objective s,
         ns_BudgetMS = (case Budget s of Some b \<Rightarrow> ms (b_Time b) | None \<Rightarrow> 0),
         ns_BudgetTokens = (case Budget s of Some b \<Rightarrow> b_Tokens b | None \<Rightarrow> 0),
         ns_Cases = cs, ns_Default = Default s, ns_Message = Message s, ns_ResponseSchema = ResponseSchema s, ns_Over = Over s,
         ns_MaxItems = SMaxItems s, ns_MaxParallel = MaxParallel s, ns_OnItemFailure = OnItemFailure s, ns_MinSucceeded = MinSucceeded s\<rparr>))"

definition norm_step :: "step \<Rightarrow> errmsg + normStep" where
  "norm_step s = (case norm_step0 s False of Inl e \<Rightarrow> Inl e
   | Inr n \<Rightarrow> (case Item s of None \<Rightarrow> Inr (normStep0.extend n \<lparr>ns_Item = None\<rparr>)
     | Some i \<Rightarrow> (case norm_step0 i True of Inl e \<Rightarrow> Inl e | Inr m \<Rightarrow> Inr (normStep0.extend n \<lparr>ns_Item = Some m\<rparr>))))"

text \<open>The files and functions the steps and their items name.\<close>

definition step_parts :: "step \<Rightarrow> step0 list" where
  "step_parts s = step0.truncate s # (case Item s of Some i \<Rightarrow> [i] | None \<Rightarrow> [])"

definition named_by :: "(step0 \<Rightarrow> string list) \<Rightarrow> definition_ \<Rightarrow> string list" where
  "named_by f d = sort (remdups (filter (\<lambda>p. p \<noteq> []) (concat (map f (concat (map step_parts (Steps d)))))))"

definition prompts_of :: "definition_ \<Rightarrow> string list" where
  "prompts_of = named_by (\<lambda>s. [Prompt s, Objective s])"

definition schemas_of :: "definition_ \<Rightarrow> string list" where
  "schemas_of = named_by (\<lambda>s. [OutputSchema s, ResponseSchema s])"

definition functions_of :: "definition_ \<Rightarrow> string list" where
  "functions_of = named_by (\<lambda>s. [Function s])"

definition norm_authority :: "operation list \<Rightarrow> authorityReport list" where
  "norm_authority ops = canonicalAuthority (map authority_of ops)"

definition norm_policies :: "definition_ \<Rightarrow> policyReport list" where
  "norm_policies d = map (\<lambda>name. the (policy_report d name)) (sortedKeys (ModelPolicies d))"

definition norm_limits :: "limits option \<Rightarrow> normLimits" where
  "norm_limits l = (case l of
     Some l \<Rightarrow> \<lparr>nl_MaxDurationMS = ms (l_MaxDuration l), nl_MaxAttempts = l_MaxAttempts l, nl_MaxParallel = l_MaxParallel l, nl_MaxTokens = l_MaxTokens l\<rparr>
   | None \<Rightarrow> \<lparr>nl_MaxDurationMS = 0, nl_MaxAttempts = 0, nl_MaxParallel = 0, nl_MaxTokens = 0\<rparr>)"

definition norm_schedules :: "schedule option \<Rightarrow> errmsg + normSchedule option" where
  "norm_schedules s = (case s of None \<Rightarrow> Inr None | Some s \<Rightarrow> (case norm_schedule s of Inl e \<Rightarrow> Inl e | Inr n \<Rightarrow> Inr (Some n)))"

definition normalizeDefinition :: "definition_ \<Rightarrow> errmsg + normDefinition" where
  "normalizeDefinition d = (case map_err (\<lambda>name. norm_input name (the (map_of (Inputs d) name))) (sortedKeys (Inputs d)) of Inl e \<Rightarrow> Inl e
   | Inr ins \<Rightarrow> (case norm_schedules (Schedule d) of Inl e \<Rightarrow> Inl e
     | Inr sch \<Rightarrow> (case map_err norm_step (Steps d) of Inl e \<Rightarrow> Inl e
       | Inr ss \<Rightarrow> Inr \<lparr>nd_SchemaVersion = SchemaVersion d, nd_Name = DName d, nd_Inputs = ins,
           nd_RunKey = (case RunKey d of Some names \<Rightarrow> sortedStrings names | None \<Rightarrow> []),
           nd_ModelPolicies = norm_policies d, nd_Limits = norm_limits (Limits d),
           nd_Authority = (case Authority d of Some ops \<Rightarrow> norm_authority ops | None \<Rightarrow> []), nd_Schedule = sch,
           nd_Retention = (case Retention d of Some c \<Rightarrow> c | None \<Rightarrow> []), nd_Start = Start d,
           nd_Steps = sort_key ns_ID ss,
           nd_Outputs = map (\<lambda>name. (name, VStr (the (map_of (Outputs d) name)))) (sortedKeys (Outputs d))\<rparr>)))"

section \<open>Its document\<close>

text \<open>
  Fields with \<^verbatim>\<open>omitempty\<close> are left out when empty; a slice that was never appended to is \<^verbatim>\<open>null\<close>. (A
  definition whose run key or resources are an empty list is not accepted.)
\<close>

definition optional :: "string \<Rightarrow> bool \<Rightarrow> document \<Rightarrow> (string \<times> document) list" where
  "optional k present x = (if present then [(k, x)] else [])"

definition text_field :: "string \<Rightarrow> string \<Rightarrow> (string \<times> document) list" where
  "text_field k s = optional k (s \<noteq> []) (Leaf (VStr s))"

definition int_field :: "string \<Rightarrow> int \<Rightarrow> (string \<times> document) list" where
  "int_field k n = optional k (n \<noteq> 0) (Leaf (VInt n))"

definition bool_field :: "string \<Rightarrow> bool \<Rightarrow> (string \<times> document) list" where
  "bool_field k b = optional k b (Leaf (VBool b))"

definition float_field :: "string \<Rightarrow> float64 option \<Rightarrow> (string \<times> document) list" where
  "float_field k x = (case x of Some r \<Rightarrow> [(k, Leaf (VFloat r))] | None \<Rightarrow> [])"

definition value_field :: "string \<Rightarrow> val option \<Rightarrow> (string \<times> document) list" where
  "value_field k x = (case x of Some v \<Rightarrow> [(k, Leaf v)] | None \<Rightarrow> [])"

definition slice :: "document list \<Rightarrow> document" where
  "slice xs = (if xs = [] then Leaf VNil else Array xs)"

definition pair_doc :: "normPair \<Rightarrow> document" where
  "pair_doc p = Struct [(''name'', Leaf (VStr (fst p))), (''value'', Leaf (snd p))]"

definition input_doc :: "normInput \<Rightarrow> document" where
  "input_doc i = Struct ([(''name'', Leaf (VStr (ni_Name i))), (''type'', Leaf (VStr (ni_Type i)))] @ bool_field ''required'' (ni_Required i) @
     value_field ''default'' (ni_Default i) @ optional ''enum'' (ni_Enum i \<noteq> []) (Array (map Leaf (ni_Enum i))) @
     float_field ''minimum'' (ni_Minimum i) @ float_field ''maximum'' (ni_Maximum i) @
     value_field ''max_length'' (map_option VInt (ni_MaxLength i)) @ bool_field ''sensitive'' (ni_Sensitive i))"

definition policy_doc :: "policyReport \<Rightarrow> document" where
  "policy_doc p = Struct ([(''name'', Leaf (VStr (pr_Name p))), (''version'', Leaf (VInt (pr_Version p))),
     (''provider'', Leaf (VStr (pr_Provider p))), (''model'', Leaf (VStr (pr_Model p)))] @ float_field ''temperature'' (pr_Temperature p) @
     [(''max_output_tokens'', Leaf (VInt (pr_MaxOutputTokens p)))])"

definition limits_doc :: "normLimits \<Rightarrow> document" where
  "limits_doc l = Struct [(''max_duration_ms'', Leaf (VInt (nl_MaxDurationMS l))), (''max_attempts'', Leaf (VInt (nl_MaxAttempts l))),
     (''max_parallel'', Leaf (VInt (nl_MaxParallel l))), (''max_tokens'', Leaf (VInt (nl_MaxTokens l)))]"

definition schedule_doc :: "normSchedule \<Rightarrow> document" where
  "schedule_doc s = Struct ([(''cron'', Leaf (VStr (nsc_Cron s))), (''timezone'', Leaf (VStr (nsc_Timezone s))),
     (''catch_up_policy'', Leaf (VStr (nsc_CatchUpPolicy s)))] @ int_field ''catch_up_max_runs'' (nsc_CatchUpMaxRuns s) @
     [(''inputs'', slice (map pair_doc (nsc_Inputs s)))])"

definition case_doc :: "normCase \<Rightarrow> document" where
  "case_doc c = Struct ([(''ref'', Leaf (VStr (nc_Ref c))), (''op'', Leaf (VStr (nc_Op c)))] @ value_field ''value'' (nc_Value c) @
     [(''next'', Leaf (VStr (nc_Next c)))])"

definition step_fields :: "'a normStep0_scheme \<Rightarrow> (string \<times> document) list" where
  "step_fields s = text_field ''id'' (ns_ID s) @ [(''kind'', Leaf (VStr (ns_Kind s)))] @ text_field ''next'' (ns_Next s) @
     int_field ''attempts'' (ns_Attempts s) @ int_field ''backoff_ms'' (ns_BackoffMS s) @
     optional ''input'' (ns_Input s \<noteq> []) (Array (map pair_doc (ns_Input s))) @
     text_field ''function'' (ns_Function s) @ text_field ''capability'' (ns_Capability s) @ text_field ''contract'' (ns_Contract s) @
     text_field ''connection'' (ns_Connection s) @ text_field ''resource'' (ns_Resource s) @ text_field ''model_policy'' (ns_ModelPolicy s) @
     text_field ''prompt'' (ns_Prompt s) @ text_field ''output_schema'' (ns_OutputSchema s) @ text_field ''worker'' (ns_Worker s) @
     text_field ''objective'' (ns_Objective s) @ int_field ''budget_ms'' (ns_BudgetMS s) @ int_field ''budget_tokens'' (ns_BudgetTokens s) @
     optional ''cases'' (ns_Cases s \<noteq> []) (Array (map case_doc (ns_Cases s))) @ text_field ''default'' (ns_Default s) @
     text_field ''message'' (ns_Message s) @ text_field ''response_schema'' (ns_ResponseSchema s) @ text_field ''over'' (ns_Over s) @
     int_field ''max_items'' (ns_MaxItems s) @ int_field ''max_parallel'' (ns_MaxParallel s) @
     text_field ''on_item_failure'' (ns_OnItemFailure s) @ int_field ''min_succeeded'' (ns_MinSucceeded s)"

definition step_doc :: "normStep \<Rightarrow> document" where
  "step_doc s = Struct (step_fields s @ (case ns_Item s of Some i \<Rightarrow> [(''item'', Struct (step_fields i))] | None \<Rightarrow> []))"

definition definition_doc :: "normDefinition \<Rightarrow> document" where
  "definition_doc n = Struct ([(''schema_version'', Leaf (VInt (nd_SchemaVersion n))), (''name'', Leaf (VStr (nd_Name n))),
     (''inputs'', slice (map input_doc (nd_Inputs n))), (''run_key'', slice (map (\<lambda>s. Leaf (VStr s)) (nd_RunKey n))),
     (''model_policies'', slice (map policy_doc (nd_ModelPolicies n))), (''limits'', limits_doc (nd_Limits n)),
     (''authority'', slice (map operation_doc (nd_Authority n)))] @
     (case nd_Schedule n of Some s \<Rightarrow> [(''schedule'', schedule_doc s)] | None \<Rightarrow> []) @
     [(''retention'', Leaf (VStr (nd_Retention n))), (''start'', Leaf (VStr (nd_Start n))),
      (''steps'', slice (map step_doc (nd_Steps n))), (''outputs'', slice (map pair_doc (nd_Outputs n)))])"

section \<open>The executable hash\<close>

definition count_field :: "string \<Rightarrow> int option \<Rightarrow> (string \<times> document) list" where
  "count_field k x = value_field k (map_option VInt x)"

primrec type_doc :: "ty \<Rightarrow> document" where
  "type_doc (Type k ps rq op it en mn mx mnl mxl mni mxi wh) = (let props = map (map_prod id type_doc) ps in
     Struct ([(''kind'', Leaf (VStr (kind_text k)))] @
       optional ''properties'' (ps \<noteq> []) (Struct (map (\<lambda>name. (name, the (map_of props name))) (sortedKeys props))) @
       optional ''required'' (rq \<noteq> []) (texts_doc rq) @ bool_field ''open'' op @
       (case map_option type_doc it of Some x \<Rightarrow> [(''items'', x)] | None \<Rightarrow> []) @
       optional ''enum'' (en \<noteq> []) (Leaf (VList en)) @ float_field ''minimum'' mn @ float_field ''maximum'' mx @
       count_field ''min_length'' mnl @ count_field ''max_length'' mxl @ count_field ''min_items'' mni @ count_field ''max_items'' mxi @
       text_field ''withheld'' wh))"

definition param_doc :: "param \<Rightarrow> document" where
  "param_doc p = Struct [(''Name'', Leaf (VStr (PName p))), (''Type'', type_doc (PType p)), (''Min'', Leaf (VInt (Min p))), (''Max'', Leaf (VInt (Max p)))]"

definition signatureDigest :: "(string \<Rightarrow> string) \<Rightarrow> func \<Rightarrow> string" where
  "signatureDigest digest f = digest (encode (Struct [(''name'', Leaf (VStr (FName f))), (''version'', Leaf (VInt (Version f))),
     (''params'', slice (map param_doc (Params f))), (''result'', type_doc (Result f))]))"

definition hashFormat :: string where "hashFormat = ''evie.workflow.executable/1''"

definition hash_prompt :: "(string \<Rightarrow> string) \<Rightarrow> string gomap \<Rightarrow> string \<Rightarrow> errmsg + string \<times> val" where
  "hash_prompt digest files p = (case map_of files p of None \<Rightarrow> Inl (Errf ''prompt %s was not loaded'' [S p])
   | Some data \<Rightarrow> Inr (p, VStr (digest data)))"

definition hash_schema :: "decoder \<Rightarrow> (string \<Rightarrow> string) \<Rightarrow> string gomap \<Rightarrow> string \<Rightarrow> errmsg + string \<times> val" where
  "hash_schema dc digest files p = (case map_of files p of None \<Rightarrow> Inl (Errf ''schema %s was not loaded'' [S p])
   | Some data \<Rightarrow> (case parseSchema dc data of Inl e \<Rightarrow> Inl e | Inr (t, canonical) \<Rightarrow> Inr (p, VStr (digest canonical))))"

definition hash_function :: "(string \<Rightarrow> string) \<Rightarrow> func gomap \<Rightarrow> string \<Rightarrow> errmsg + string \<times> val" where
  "hash_function digest functions i = (case map_of functions i of None \<Rightarrow> Inl (Errf ''function %s is not registered'' [S i])
   | Some f \<Rightarrow> Inr (i, VStr (signatureDigest digest f)))"

definition hash_doc :: "decoder \<Rightarrow> (string \<Rightarrow> string) \<Rightarrow> definition_ \<Rightarrow> string gomap \<Rightarrow> func gomap \<Rightarrow> errmsg + document" where
  "hash_doc dc digest d files functions = (case normalizeDefinition d of Inl e \<Rightarrow> Inl e
   | Inr n \<Rightarrow> (case map_err (hash_prompt digest files) (prompts_of d) of Inl e \<Rightarrow> Inl e
     | Inr ps \<Rightarrow> (case map_err (hash_schema dc digest files) (schemas_of d) of Inl e \<Rightarrow> Inl e
       | Inr ss \<Rightarrow> (case map_err (hash_function digest functions) (functions_of d) of Inl e \<Rightarrow> Inl e
         | Inr fs \<Rightarrow> Inr (Struct [(''format'', Leaf (VStr hashFormat)), (''definition'', definition_doc n), (''prompts'', Leaf (VObj ps)),
             (''schemas'', Leaf (VObj ss)), (''functions'', Leaf (VObj fs))])))))"

definition executableHash :: "decoder \<Rightarrow> (string \<Rightarrow> string) \<Rightarrow> definition_ \<Rightarrow> string gomap \<Rightarrow> func gomap \<Rightarrow> errmsg + string" where
  "executableHash dc digest d files functions = (case hash_doc dc digest d files functions of Inl e \<Rightarrow> Inl e
   | Inr doc \<Rightarrow> Inr (''sha256:'' @ digest (encode doc)))"

end
