(* ===== verification/Reviewed.thy ===== *)
theory Reviewed
  imports Review Running
begin

text \<open>
  What the review report and the authority hash say of an accepted definition: the resources its
  steps use, under the access the report names, and that they are inside the requested authority.
\<close>

section \<open>The steps of the report\<close>

lemma ordered_steps:
  assumes "run h d = Some ([], v)"
  shows "set (ordered v) = set (vsteps v)" and "distinct (map nid (ordered v))"
proof -
  obtain fl where p: "plan_ok h d v fl" using run_ok [OF assms] by blast
  then have o: "set (vorder v) = nid ` set (vsteps v)" "distinct (vorder v)" and d: "distinct (map nid (vsteps v))"
    by (auto simp: plan_ok_def flow_ok_def)
  have known: "node_of (vsteps v) i \<noteq> None" if "i \<in> set (vorder v)" for i
    using that o node_of_None [of "vsteps v" i] by auto
  then have all: "ordered v = map (\<lambda>i. the (node_of (vsteps v) i)) (vorder v)"
    by (auto simp: ordered_def List.map_filter_def filter_id_conv)
  show "set (ordered v) = set (vsteps v)"
  proof (intro set_eqI iffI)
    fix n assume "n \<in> set (ordered v)"
    then obtain i where "i \<in> set (vorder v)" "n = the (node_of (vsteps v) i)" by (auto simp: all)
    then show "n \<in> set (vsteps v)" using known node_of_Some by fastforce
  next
    fix n assume n: "n \<in> set (vsteps v)"
    then have "n = the (node_of (vsteps v) (nid n))" using node_of_distinct [OF d n] by simp
    then show "n \<in> set (ordered v)" using n o by (auto simp: all)
  qed
  have "nid (the (node_of (vsteps v) i)) = i" if "i \<in> set (vorder v)" for i
    using known [OF that] node_of_Some by fastforce
  then have "map nid (ordered v) = vorder v" by (simp add: all map_idI)
  then show "distinct (map nid (ordered v))" using o by simp
qed

text \<open>A capability step is authorized, so its connection is one the definition requests authority on.\<close>

lemma capability_of_step:
  assumes r: "run h d = Some ([], v)" and n: "n \<in> set (vsteps v)" and k: "nkind n = KindCapability"
  shows "CHR 0x00 \<notin> set (Connection (nstep n))" and "authorityCovers d (Capability (nstep n)) (Connection (nstep n)) (Resource (nstep n))"
    and "AccessUnchecked (h_env h) \<or> Allows (Access (h_env h)) (Connection (nstep n)) (Resource (nstep n))" and "\<exists>c. cap n = Some c"
proof -
  obtain c where c: "cap n = Some c" "capability_authorized (h_env h) d (nstep n) (attempts n) c" using validated_capability [OF r n k] by blast
  show cov: "authorityCovers d (Capability (nstep n)) (Connection (nstep n)) (Resource (nstep n))"
    and "AccessUnchecked (h_env h) \<or> Allows (Access (h_env h)) (Connection (nstep n)) (Resource (nstep n))" and "\<exists>c. cap n = Some c"
    using c by (auto simp: capability_authorized_def)
  obtain ops op where op: "Authority d = Some ops" "op \<in> set ops" "o_Connection op = Connection (nstep n)"
    using cov by (auto simp: authorityCovers_def list_ex_iff split: option.splits)
  then have "wf_operation (authority_of op)" using accepted_authority [OF r op(1)] by (auto simp: wf_authority_def)
  then show "CHR 0x00 \<notin> set (Connection (nstep n))" using op by (simp add: wf_operation_def authority_of_def)
qed

section \<open>Only capability steps carry a contract\<close>

text \<open>A property of each compiled step that compiling later steps keeps holds of them all.\<close>

lemma collect_from_each:
  assumes "collect_from v i acc ld ss = (ns, [], ld')"
    and "\<And>s p l n l'. s \<in> set ss \<Longrightarrow> compile v s p l = (n, [], l') \<Longrightarrow> Q s n l'"
    and "\<And>s p l n ps l' s0 n0. Q s0 n0 l \<Longrightarrow> compile v s p l = (n, ps, l') \<Longrightarrow> Q s0 n0 l'"
  shows "\<exists>ms. ns = acc @ ms \<and> list_all2 (\<lambda>s n. Q s n ld') ss ms \<and> (\<forall>s0 n0. Q s0 n0 ld \<longrightarrow> Q s0 n0 ld')"
  using assms
proof (induction v i acc ld ss rule: collect_from.induct)
  case (2 v i acc ld s ss)
  obtain n ps ld1 where c: "compile v s (''steps.'' @ ID s) ld = (n, ps, ld1)" using prod_cases3 by blast
  obtain ms qs ld2 where r: "collect_from v (Suc i) (acc @ [n]) ld1 ss = (ms, qs, ld2)" using prod_cases3 by blast
  have s: "ID s \<noteq> []" "identifierPattern (ID s)" "ID s \<notin> set (map nid acc)" "ps = []" "qs = []" "ns = ms" "ld2 = ld'"
    using "2.prems"(1) unfolding collect_from.simps Let_def c prod.case r by (auto split: if_splits prod.splits)
  have n: "Q s n ld1" using "2.prems"(2) [of s] c s by simp
  have ih: "\<exists>ms'. ms = (acc @ [n]) @ ms' \<and> list_all2 (\<lambda>s n. Q s n ld') ss ms' \<and> (\<forall>s0 n0. Q s0 n0 ld1 \<longrightarrow> Q s0 n0 ld')"
    using "2.IH"(4) [OF _ _ _ _ c [symmetric] refl, of "''steps['' @ itoa (int i) @ ''].id''"] s r "2.prems"(2,3) by auto
  then show ?case using n s "2.prems"(3) [OF _ c] by fastforce
qed auto

definition cap_kind :: "'a node0_scheme \<Rightarrow> bool" where
  "cap_kind n \<longleftrightarrow> nkind n = KindCapability \<or> cap n = None"

lemma compile0_cap: "compile0 v s p i ld = (n, ps, ld') \<Longrightarrow> cap_kind n"
  by (auto simp: compile0_def compile_kind_def new_node_def cap_kind_def Let_def split: if_splits option.splits prod.splits)

lemma compile_cap: "compile v s p ld = (n, ps, ld') \<Longrightarrow> cap_kind n"
  by (auto simp: compile_def compileMap_def cap_kind_def Let_def dest!: compile0_cap split: if_splits option.splits prod.splits)

lemma step_cap_kind:
  assumes "run h d = Some ([], v)" and "n \<in> set (vsteps v)"
  shows "cap_kind n"
proof -
  obtain ns ld fl outs where c: "collectSteps (validator_of h d) = (ns, [], ld)" and g: "checkGraph (Start d) ns = Some ([], fl)"
    and r: "(if facyclic fl then resolve_steps (vinputs v) fl (forder fl) ns else (ns, [])) = (vsteps v, [])"
    using run_parts [OF assms(1)] .
  note steps = collectSteps_ok [OF c]
  note graph = checkGraph_ok [OF steps(2) g]
  obtain ms ps l where m: "collect_from (validator_of h d) 0 [] empty_loader (Steps d) = (ms, ps, l)" using prod_cases3 by blast
  have "ps = []" "ns = ms" using c by (auto simp: collectSteps_def m)
  then have ns: "\<forall>m \<in> set ns. cap_kind m"
    using collect_from_each [OF m [unfolded \<open>ps = []\<close>], of "\<lambda>s n l. cap_kind n"] compile_cap by (fastforce simp: list_all2_conv_all_nth in_set_conv_nth)
  have frame: "\<forall>n \<in> set ns. known n \<and> (nkind n = KindMap \<longrightarrow> over n \<noteq> None)"
    using steps(1) node_ok_frame by blast
  have fl: "facyclic fl" "set (forder fl) = set (map nid ns)" "distinct (forder fl)" "set (freach fl) = set (map nid ns)"
    using graph(1) by (simp_all add: flow_ok_def)
  have res: "resolve_steps (vinputs v) fl (forder fl) ns = (vsteps v, [])" using r fl(1) by simp
  have "list_all2 same_node (vsteps v) ns"
    using resolve_steps_ok [OF res fl(3) steps(2) _ frame] fl(2,4) by simp
  from list_all2_mem [OF this assms(2)] obtain m where "m \<in> set ns" "same_node n m" by blast
  then have "cap_kind m" "cap n = cap m" "nkind n = nkind m" using ns same0_cap [of n m] by (simp_all add: same_node_def)
  then show ?thesis by (simp add: cap_kind_def)
qed

section \<open>The resources of the report\<close>

lemma map_values_iff: "r \<in> set (map_values m) \<longleftrightarrow> (\<exists>k. map_of m k = Some r)"
proof
  show "\<exists>k. map_of m k = Some r" if "r \<in> set (map_values m)"
    using that in_sortedKeysD by (fastforce simp: map_values_def)
  show "r \<in> set (map_values m)" if "\<exists>k. map_of m k = Some r"
    using that map_of_in_sortedKeys by (force simp: map_values_def)
qed

lemma resource_key_iff:
  assumes "CHR 0x00 \<notin> set c" and "CHR 0x00 \<notin> set (Connection (nstep n))"
  shows "resource_key n = c @ [CHR 0x00] @ r \<longleftrightarrow> Connection (nstep n) = c \<and> Resource (nstep n) = r"
proof -
  have "takeWhile (\<lambda>x. x \<noteq> CHR 0x00) (u @ [CHR 0x00] @ w) = u" if "CHR 0x00 \<notin> set u" for u w :: string
    using that by (auto simp: takeWhile_append takeWhile_eq_all_conv [THEN iffD2])
  from this [OF assms(1), of r] this [OF assms(2), of "Resource (nstep n)"] show ?thesis
    by (auto simp: resource_key_def)
qed

definition resource_ok :: "validated \<Rightarrow> resourceReport \<Rightarrow> bool" where
  "resource_ok v r \<longleftrightarrow> rr_Steps r = map nid (filter (uses_resource (rr_Connection r) (rr_Resource r)) (ordered v)) \<and>
     rr_Access r = (if \<exists>n \<in> set (vsteps v). uses_resource (rr_Connection r) (rr_Resource r) n \<and> has_effect n then ''write'' else ''read'')"

lemma reported_resources:
  assumes run: "run h d = Some ([], v)"
  defines "rs \<equiv> map_values (fold add_resource (ordered v) [])"
  shows "r \<in> set rs \<Longrightarrow> resource_ok v r"
    and "n \<in> set (vsteps v) \<Longrightarrow> nkind n = KindCapability \<Longrightarrow> \<exists>r \<in> set rs. uses_resource (rr_Connection r) (rr_Resource r) n"
proof -
  let ?m = "fold add_resource (ordered v) []"
  note inv = resources_inv [of "ordered v", unfolded resource_inv_def]
  have nul: "CHR 0x00 \<notin> set (Connection (nstep n))" if "n \<in> set (ordered v)" "cap n \<noteq> None" for n
  proof (rule capability_of_step(1) [OF run])
    show n: "n \<in> set (vsteps v)" using that ordered_steps(1) [OF run] by simp
    show "nkind n = KindCapability" using step_cap_kind [OF run n] that(2) by (simp add: cap_kind_def)
  qed
  have keys: "resource_key n = rr_Connection r @ [CHR 0x00] @ rr_Resource r \<longleftrightarrow>
      Connection (nstep n) = rr_Connection r \<and> Resource (nstep n) = rr_Resource r"
    if r: "map_of ?m k = Some r" and n: "n \<in> set (ordered v)" "cap n \<noteq> None" for r k n
  proof -
    obtain x where x: "x \<in> set (ordered v)" "cap x \<noteq> None" "Connection (nstep x) = rr_Connection r"
      using inv r unfolding uses_resource_def by metis
    note nx = nul [OF x(1,2)] and nn = nul [OF n]
    have "CHR 0x00 \<notin> set (rr_Connection r)" using nx x(3) by simp
    then show ?thesis using resource_key_iff nn by blast
  qed
  show "resource_ok v r" if r: "r \<in> set rs"
  proof -
    obtain k where k: "map_of ?m k = Some r" using r by (auto simp: rs_def map_values_iff)
    have e: "cap n \<noteq> None \<and> resource_key n = k \<longleftrightarrow> uses_resource (rr_Connection r) (rr_Resource r) n"
        and f: "resource_key n = k \<and> has_effect n \<longleftrightarrow> uses_resource (rr_Connection r) (rr_Resource r) n \<and> has_effect n"
      if "n \<in> set (ordered v)" for n
      using keys [OF k that] inv k by (auto simp: uses_resource_def has_effect_def)
    have "rr_Steps r = map nid (filter (uses_resource (rr_Connection r) (rr_Resource r)) (ordered v))"
    proof -
      have "rr_Steps r = map nid (filter (\<lambda>n. cap n \<noteq> None \<and> resource_key n = k) (ordered v))" using inv k by blast
      also have "filter (\<lambda>n. cap n \<noteq> None \<and> resource_key n = k) (ordered v) = filter (uses_resource (rr_Connection r) (rr_Resource r)) (ordered v)"
        by (rule filter_cong [OF refl]) (rule e)
      finally show ?thesis .
    qed
    moreover have "rr_Access r = (if \<exists>n \<in> set (ordered v). uses_resource (rr_Connection r) (rr_Resource r) n \<and> has_effect n then ''write'' else ''read'')"
      using inv k f by simp
    ultimately show ?thesis using ordered_steps(1) [OF run] by (simp add: resource_ok_def)
  qed
  show "\<exists>r \<in> set rs. uses_resource (rr_Connection r) (rr_Resource r) n" if "n \<in> set (vsteps v)" "nkind n = KindCapability"
  proof -
    have n: "n \<in> set (ordered v)" "cap n \<noteq> None" using that ordered_steps(1) [OF run] capability_of_step(4) [OF run] by auto
    then obtain r where r: "map_of ?m (resource_key n) = Some r" using inv by blast
    moreover have "resource_key n = rr_Connection r @ [CHR 0x00] @ rr_Resource r" using inv r by blast
    ultimately have "uses_resource (rr_Connection r) (rr_Resource r) n" using keys [OF r n] n by (simp add: uses_resource_def)
    then show ?thesis using r by (intro bexI [of _ r]) (auto simp: rs_def map_values_iff)
  qed
qed

end
