(* ===== verification/Normalized.thy ===== *)
theory Normalized
  imports Normal Resolved
begin

text \<open>
  What the executable hash depends on: documentation and the order of collections never reach it, and
  everything else does.
\<close>

section \<open>The same behaviour\<close>

text \<open>
  Two steps that differ only in their description, the keys the document wrote, and the order of their
  inputs; two definitions that also differ only in the order of their collections.
\<close>

definition same_step0 :: "step0 \<Rightarrow> step0 \<Rightarrow> bool" where
  "same_step0 s s' \<longleftrightarrow> s\<lparr>Description := [], Input := [], keys := []\<rparr> = s'\<lparr>Description := [], Input := [], keys := []\<rparr> \<and>
     map_of (Input s) = map_of (Input s')"

definition same_step :: "step \<Rightarrow> step \<Rightarrow> bool" where
  "same_step s s' \<longleftrightarrow> same_step0 (step0.truncate s) (step0.truncate s') \<and> rel_option same_step0 (Item s) (Item s')"

definition same_input :: "inputSpec \<Rightarrow> inputSpec \<Rightarrow> bool" where
  "same_input i i' \<longleftrightarrow> i\<lparr>i_Description := []\<rparr> = i'\<lparr>i_Description := []\<rparr>"

definition same_schedule :: "schedule \<Rightarrow> schedule \<Rightarrow> bool" where
  "same_schedule s s' \<longleftrightarrow> s\<lparr>s_Inputs := []\<rparr> = s'\<lparr>s_Inputs := []\<rparr> \<and> map_of (s_Inputs s) = map_of (s_Inputs s')"

definition same_authority :: "operation list \<Rightarrow> operation list \<Rightarrow> bool" where
  "same_authority a b \<longleftrightarrow> distinct (map auth_key (map authority_of a)) \<and>
     mset (map sort_resources (map authority_of a)) = mset (map sort_resources (map authority_of b))"

definition same_behaviour :: "definition_ \<Rightarrow> definition_ \<Rightarrow> bool" where
  "same_behaviour d d' \<longleftrightarrow> SchemaVersion d = SchemaVersion d' \<and> DName d = DName d' \<and> Start d = Start d' \<and>
     Limits d = Limits d' \<and> Retention d = Retention d' \<and> map_option mset (RunKey d) = map_option mset (RunKey d') \<and>
     map_of (Outputs d) = map_of (Outputs d') \<and> map_of (ModelPolicies d) = map_of (ModelPolicies d') \<and>
     (\<forall>name. rel_option same_input (map_of (Inputs d) name) (map_of (Inputs d') name)) \<and>
     rel_option same_authority (Authority d) (Authority d') \<and> rel_option same_schedule (Schedule d) (Schedule d') \<and>
     distinct (map ID (Steps d)) \<and> distinct (map ID (Steps d')) \<and>
     (\<forall>s \<in> set (Steps d). \<exists>s' \<in> set (Steps d'). same_step s s') \<and> (\<forall>s' \<in> set (Steps d'). \<exists>s \<in> set (Steps d). same_step s s')"

lemma sortedKeys_map_of: "map_of m = map_of m' \<Longrightarrow> sortedKeys m = sortedKeys m'"
  by (rule sortedKeys_cong) (simp add: dom_map_of_conv_image_fst [symmetric])

lemma normValues_cong: "map_of m = map_of m' \<Longrightarrow> normValues m = normValues m'"
  using sortedKeys_map_of [of m m'] by (simp add: normValues_def)

lemma same_step0_sel:
  assumes "same_step0 s s'"
  shows "ID s = ID s'" "SKind s = SKind s'" "Next s = Next s'" "Retry s = Retry s'" "normValues (Input s) = normValues (Input s')"
    "Function s = Function s'" "Capability s = Capability s'" "Contract s = Contract s'" "Connection s = Connection s'"
    "Resource s = Resource s'" "ModelPolicy s = ModelPolicy s'" "Prompt s = Prompt s'" "OutputSchema s = OutputSchema s'"
    "Worker s = Worker s'" "Objective s = Objective s'" "Budget s = Budget s'" "Cases s = Cases s'" "Default s = Default s'"
    "Message s = Message s'" "ResponseSchema s = ResponseSchema s'" "Over s = Over s'" "SMaxItems s = SMaxItems s'"
    "MaxParallel s = MaxParallel s'" "OnItemFailure s = OnItemFailure s'" "MinSucceeded s = MinSucceeded s'"
proof -
  have eq: "s\<lparr>Description := [], Input := [], keys := []\<rparr> = s'\<lparr>Description := [], Input := [], keys := []\<rparr>"
    using assms by (simp add: same_step0_def)
  show "ID s = ID s'" using arg_cong [OF eq, of ID] by simp
  show "SKind s = SKind s'" using arg_cong [OF eq, of SKind] by simp
  show "Next s = Next s'" using arg_cong [OF eq, of Next] by simp
  show "Retry s = Retry s'" using arg_cong [OF eq, of Retry] by simp
  show "Function s = Function s'" using arg_cong [OF eq, of Function] by simp
  show "Capability s = Capability s'" using arg_cong [OF eq, of Capability] by simp
  show "Contract s = Contract s'" using arg_cong [OF eq, of Contract] by simp
  show "Connection s = Connection s'" using arg_cong [OF eq, of Connection] by simp
  show "Resource s = Resource s'" using arg_cong [OF eq, of Resource] by simp
  show "ModelPolicy s = ModelPolicy s'" using arg_cong [OF eq, of ModelPolicy] by simp
  show "Prompt s = Prompt s'" using arg_cong [OF eq, of Prompt] by simp
  show "OutputSchema s = OutputSchema s'" using arg_cong [OF eq, of OutputSchema] by simp
  show "Worker s = Worker s'" using arg_cong [OF eq, of Worker] by simp
  show "Objective s = Objective s'" using arg_cong [OF eq, of Objective] by simp
  show "Budget s = Budget s'" using arg_cong [OF eq, of Budget] by simp
  show "Cases s = Cases s'" using arg_cong [OF eq, of Cases] by simp
  show "Default s = Default s'" using arg_cong [OF eq, of Default] by simp
  show "Message s = Message s'" using arg_cong [OF eq, of Message] by simp
  show "ResponseSchema s = ResponseSchema s'" using arg_cong [OF eq, of ResponseSchema] by simp
  show "Over s = Over s'" using arg_cong [OF eq, of Over] by simp
  show "SMaxItems s = SMaxItems s'" using arg_cong [OF eq, of SMaxItems] by simp
  show "MaxParallel s = MaxParallel s'" using arg_cong [OF eq, of MaxParallel] by simp
  show "OnItemFailure s = OnItemFailure s'" using arg_cong [OF eq, of OnItemFailure] by simp
  show "MinSucceeded s = MinSucceeded s'" using arg_cong [OF eq, of MinSucceeded] by simp
  show "normValues (Input s) = normValues (Input s')" using assms by (intro normValues_cong) (simp add: same_step0_def)
qed

lemma same_norm_step0:
  assumes "same_step0 s s'"
  shows "norm_step0 s b = norm_step0 s' b"
  unfolding norm_step0_def norm_attempts_def norm_backoff_def by (simp only: same_step0_sel [OF assms])

lemma norm_step0_truncate: "norm_step0 (step0.truncate s) b = norm_step0 s b"
  by (simp add: norm_step0_def norm_attempts_def norm_backoff_def step0.truncate_def split: sum.split)

lemma same_norm_step:
  assumes "same_step s s'"
  shows "norm_step s = norm_step s'"
proof -
  have "norm_step0 s False = norm_step0 s' False"
    using same_norm_step0 [of "step0.truncate s" "step0.truncate s'" False] assms by (simp add: same_step_def norm_step0_truncate)
  then show ?thesis
    using assms same_norm_step0 by (cases "Item s"; cases "Item s'") (auto simp: norm_step_def same_step_def split: sum.split)
qed

lemma same_step_ID: "same_step s s' \<Longrightarrow> ID s = ID s'"
  using same_step0_sel(1) by (fastforce simp: same_step_def)

lemma same_step_parts:
  assumes "same_step s s'" and "\<And>p p'. same_step0 p p' \<Longrightarrow> f p = f p'"
  shows "map f (step_parts s) = map f (step_parts s')"
  using assms by (cases "Item s"; cases "Item s'") (auto simp: same_step_def step_parts_def)

section \<open>Documentation and order do not reach the hash\<close>

lemma norm_step_ID: "norm_step s = Inr n \<Longrightarrow> ns_ID n = ID s"
  by (auto simp: norm_step_def norm_step0_def normStep0.extend_def split: sum.splits option.splits)

interpretation sf: sorted_form ns_ID "\<lambda>s. s"
  by unfold_locales simp

lemma same_steps:
  assumes n: "map_err norm_step ss = Inr ns" and d: "distinct (map ID ss)" "distinct (map ID ss')"
    and l: "\<forall>s \<in> set ss. \<exists>s' \<in> set ss'. same_step s s'" and r: "\<forall>s' \<in> set ss'. \<exists>s \<in> set ss. same_step s s'"
  shows "\<exists>ns'. map_err norm_step ss' = Inr ns' \<and> sort_key ns_ID ns' = sort_key ns_ID ns"
proof -
  have n: "list_all2 (\<lambda>s m. norm_step s = Inr m) ss ns" using n by (simp add: map_err_Inr)
  have each: "\<exists>m. norm_step s = Inr m" if "s \<in> set ss" for s using n that by (meson list_all2_mem)
  let ?f = "\<lambda>s. case norm_step s of Inr m \<Rightarrow> m"
  have f: "norm_step s = Inr (?f s)" if "s \<in> set ss" for s using each [OF that] by auto
  have ns: "ns = map ?f ss" using n by (auto simp: list_all2_conv_all_nth intro!: nth_equalityI)
  have f': "norm_step s' = Inr (?f s')" "\<exists>s \<in> set ss. ?f s' = ?f s" if s': "s' \<in> set ss'" for s'
  proof -
    obtain s where "s \<in> set ss" "same_step s s'" using r s' by blast
    then have "norm_step s' = Inr (?f s)" using same_norm_step f by metis
    then show "norm_step s' = Inr (?f s')" and "\<exists>s \<in> set ss. ?f s' = ?f s" using \<open>s \<in> set ss\<close> by auto
  qed
  have ids: "map ns_ID (map ?f ss) = map ID ss" "map ns_ID (map ?f ss') = map ID ss'"
    using f f' norm_step_ID by simp_all
  have "?f ` set ss' = ?f ` set ss"
  proof
    show "?f ` set ss' \<subseteq> ?f ` set ss" using f'(2) by blast
    show "?f ` set ss \<subseteq> ?f ` set ss'"
    proof
      fix m assume "m \<in> ?f ` set ss"
      then obtain s where "s \<in> set ss" "m = ?f s" by blast
      moreover from this obtain s' where "s' \<in> set ss'" "same_step s s'" using l by blast
      moreover from this have "norm_step s = norm_step s'" by (rule_tac same_norm_step)
      ultimately show "m \<in> ?f ` set ss'" by (intro image_eqI [of _ _ s']) simp_all
    qed
  qed
  then have images: "(\<lambda>s. s) ` set (map ?f ss') = (\<lambda>s. s) ` set (map ?f ss)" by simp
  have "sort_key ns_ID (map (\<lambda>s. s) (map ?f ss')) = sort_key ns_ID (map (\<lambda>s. s) (map ?f ss))"
    by (rule sf.same_members [OF _ _ images]) (simp_all only: ids d)
  then have "sort_key ns_ID (map ?f ss') = sort_key ns_ID (map ?f ss)" by simp
  moreover have "map_err norm_step ss' = Inr (map ?f ss')"
    using f' by (simp add: map_err_Inr list_all2_conv_all_nth)
  ultimately show ?thesis using ns by blast
qed

lemma named_by_cong:
  assumes "\<forall>s \<in> set (Steps d). \<exists>s' \<in> set (Steps d'). same_step s s'" "\<forall>s' \<in> set (Steps d'). \<exists>s \<in> set (Steps d). same_step s s'"
    and f: "\<And>p p'. same_step0 p p' \<Longrightarrow> f p = f p'"
  shows "named_by f d = named_by f d'"
proof -
  let ?u = "\<lambda>d. \<Union>s \<in> set (Steps d). set (concat (map f (step_parts s)))"
  have "set (concat (map f (step_parts s))) = set (concat (map f (step_parts s')))" if "same_step s s'" for s s'
    by (simp only: same_step_parts [OF that f])
  then have "?u d = ?u d'" using assms(1,2) by fastforce
  then have "set (concat (map f (concat (map step_parts (Steps d))))) = set (concat (map f (concat (map step_parts (Steps d')))))"
    by auto
  then show ?thesis unfolding named_by_def by (intro sorted_distinct_set_unique) auto
qed

lemma same_norm_schedule: "same_schedule s s' \<Longrightarrow> norm_schedule s = norm_schedule s'"
proof -
  assume a: "same_schedule s s'"
  then have "normValues (s_Inputs s) = normValues (s_Inputs s')" by (intro normValues_cong) (simp add: same_schedule_def)
  with a show ?thesis by (cases s; cases s') (simp add: same_schedule_def norm_schedule_def split: sum.split)
qed

lemma same_norm_authority: "same_authority a b \<Longrightarrow> norm_authority a = norm_authority b"
  unfolding norm_authority_def same_authority_def by (elim conjE) (simp only: canonical_eq_iff)

lemma same_norm_input: "same_input i i' \<Longrightarrow> norm_input name i = norm_input name i'"
  by (cases i; cases i') (simp add: same_input_def norm_input_def split: sum.split)

lemma normalize_same:
  assumes s: "same_behaviour d d'" and n: "normalizeDefinition d = Inr n"
  shows "normalizeDefinition d' = Inr n"
proof -
  have ins: "map_of (Inputs d) k = None \<longleftrightarrow> map_of (Inputs d') k = None" for k
    using s by (metis same_behaviour_def option.rel_distinct option.rel_sel)
  then have keys: "sortedKeys (Inputs d) = sortedKeys (Inputs d')" by (intro gm.keys_determined) simp
  have inputs: "map_err (\<lambda>name. norm_input name (the (map_of (Inputs d) name))) (sortedKeys (Inputs d)) =
      map_err (\<lambda>name. norm_input name (the (map_of (Inputs d') name))) (sortedKeys (Inputs d'))"
    unfolding keys
  proof (rule map_err_cong [OF refl])
    fix name assume "name \<in> set (sortedKeys (Inputs d'))"
    then obtain i' where "map_of (Inputs d') name = Some i'" using in_sortedKeysD by blast
    then show "norm_input name (the (map_of (Inputs d) name)) = norm_input name (the (map_of (Inputs d') name))"
      using s same_norm_input by (auto simp: same_behaviour_def elim!: allE [of _ name] simp: option_rel_Some2)
  qed
  have sch: "norm_schedules (Schedule d) = norm_schedules (Schedule d')"
    using s same_norm_schedule by (cases "Schedule d"; cases "Schedule d'") (auto simp: same_behaviour_def norm_schedules_def)
  have run_key: "(case RunKey d of Some names \<Rightarrow> sortedStrings names | None \<Rightarrow> []) = (case RunKey d' of Some names \<Rightarrow> sortedStrings names | None \<Rightarrow> [])"
    using s sort_key_eq_sort_key [of _ _ "\<lambda>x. x"] by (cases "RunKey d"; cases "RunKey d'") (auto simp: same_behaviour_def sortedStrings_def)
  have pol: "norm_policies d = norm_policies d'"
    using s sortedKeys_map_of [of "ModelPolicies d" "ModelPolicies d'"] by (simp add: norm_policies_def same_behaviour_def policy_report_def)
  have auth: "(case Authority d of Some ops \<Rightarrow> norm_authority ops | None \<Rightarrow> []) = (case Authority d' of Some ops \<Rightarrow> norm_authority ops | None \<Rightarrow> [])"
    using s same_norm_authority by (cases "Authority d"; cases "Authority d'") (auto simp: same_behaviour_def)
  have outs: "map (\<lambda>name. (name, VStr (the (map_of (Outputs d) name)))) (sortedKeys (Outputs d)) =
      map (\<lambda>name. (name, VStr (the (map_of (Outputs d') name)))) (sortedKeys (Outputs d'))"
    using s sortedKeys_map_of [of "Outputs d" "Outputs d'"] by (simp add: same_behaviour_def)
  obtain nins nsch ss where parts: "map_err (\<lambda>name. norm_input name (the (map_of (Inputs d) name))) (sortedKeys (Inputs d)) = Inr nins"
      "norm_schedules (Schedule d) = Inr nsch" "map_err norm_step (Steps d) = Inr ss"
    using n by (auto simp: normalizeDefinition_def split: sum.splits)
  obtain ss' where ss': "map_err norm_step (Steps d') = Inr ss'" "sort_key ns_ID ss' = sort_key ns_ID ss"
    using same_steps [OF parts(3), of "Steps d'"] s unfolding same_behaviour_def by blast
  have flat: "SchemaVersion d = SchemaVersion d'" "DName d = DName d'" "Start d = Start d'" "Limits d = Limits d'" "Retention d = Retention d'"
    using s by (simp_all add: same_behaviour_def)
  show ?thesis
    using n unfolding normalizeDefinition_def parts parts [unfolded inputs sch] ss' sum.case flat run_key pol auth outs by simp
qed

lemma hash_same:
  assumes s: "same_behaviour d d'" and h: "hash_doc dc digest d files functions = Inr doc"
  shows "hash_doc dc digest d' files functions = Inr doc"
proof -
  obtain n where n: "normalizeDefinition d = Inr n" using h by (auto simp: hash_doc_def split: sum.splits)
  have l: "\<forall>s \<in> set (Steps d). \<exists>s' \<in> set (Steps d'). same_step s s'" and r: "\<forall>s' \<in> set (Steps d'). \<exists>s \<in> set (Steps d). same_step s s'"
    using s by (simp_all add: same_behaviour_def)
  have "prompts_of d = prompts_of d'" "schemas_of d = schemas_of d'" "functions_of d = functions_of d'"
    unfolding prompts_of_def schemas_of_def functions_of_def by (rule named_by_cong [OF l r]; simp add: same_step0_sel)+
  note files = this
  show ?thesis using h unfolding hash_doc_def n normalize_same [OF s n] sum.case files .
qed


section \<open>Everything else reaches the document\<close>

text \<open>A field that is left out reads as its empty value, so a document determines every field.\<close>

lemma lookup_append: "map_of (xs @ ys) k = (case map_of xs k of Some v \<Rightarrow> Some v | None \<Rightarrow> map_of ys k)"
  by (simp add: map_add_def)

lemma lookup_optional: "map_of (optional k b x) j = (if b \<and> j = k then Some x else None)"
  by (simp add: optional_def)

lemma lookup_text: "map_of (text_field k t) j = (if t \<noteq> [] \<and> j = k then Some (Leaf (VStr t)) else None)"
  by (simp add: text_field_def lookup_optional)

lemma lookup_int: "map_of (int_field k n) j = (if n \<noteq> 0 \<and> j = k then Some (Leaf (VInt n)) else None)"
  by (simp add: int_field_def lookup_optional)

lemma lookup_bool: "map_of (bool_field k b) j = (if b \<and> j = k then Some (Leaf (VBool b)) else None)"
  by (simp add: bool_field_def lookup_optional)

lemma lookup_float: "map_of (float_field k x) j = (if j = k then map_option (\<lambda>r. Leaf (VFloat r)) x else None)"
  by (cases x) (simp_all add: float_field_def)

lemma lookup_value: "map_of (value_field k x) j = (if j = k then map_option Leaf x else None)"
  by (cases x) (simp_all add: value_field_def)

lemma slice_eq: "slice xs = slice ys \<longleftrightarrow> xs = ys"
  by (simp add: slice_def)

lemma map_option_inj: "(\<And>a b. f a = f b \<longleftrightarrow> a = b) \<Longrightarrow> map_option f x = map_option f y \<longleftrightarrow> x = y"
  by (cases x; cases y) auto

lemma map_doc_inj: "(\<And>a b. f a = f b \<longleftrightarrow> a = b) \<Longrightarrow> map f xs = map f ys \<longleftrightarrow> xs = ys"
  by (rule inj_map_eq_map) (simp add: inj_def)

lemmas lookups = lookup_append lookup_optional lookup_text lookup_int lookup_bool lookup_float lookup_value slice_eq

lemma map_leaf: "map Leaf xs = map Leaf ys \<longleftrightarrow> xs = ys"
  by (rule map_doc_inj) simp

lemma pair_doc_eq: "pair_doc a = pair_doc b \<longleftrightarrow> a = b"
  by (auto simp: pair_doc_def prod_eq_iff)

lemma case_doc_eq: "case_doc a = case_doc b \<longleftrightarrow> a = b"
  by (cases a; cases b) (auto simp: case_doc_def value_field_def split: option.splits)

lemma policy_doc_eq: "policy_doc a = policy_doc b \<longleftrightarrow> a = b"
  by (cases a; cases b) (auto simp: policy_doc_def float_field_def split: option.splits)

lemma limits_doc_eq: "limits_doc a = limits_doc b \<longleftrightarrow> a = b"
  by (cases a; cases b) (auto simp: limits_doc_def)

lemmas map_pairs = map_doc_inj [of pair_doc, OF pair_doc_eq]
  and map_cases = map_doc_inj [of case_doc, OF case_doc_eq]
  and map_policies = map_doc_inj [of policy_doc, OF policy_doc_eq]

lemma schedule_doc_eq: "schedule_doc a = schedule_doc b \<longleftrightarrow> a = b"
  by (cases a; cases b) (auto simp: schedule_doc_def int_field_def optional_def slice_eq map_pairs split: if_splits)

lemma input_doc_eq:
  assumes "input_doc a = input_doc b"
  shows "a = b"
proof -
  have eq: "map_of (case input_doc a of Struct fs \<Rightarrow> fs) = map_of (case input_doc b of Struct fs \<Rightarrow> fs)" using assms by simp
  note eq = eq [unfolded input_doc_def document.case]
  have e0: "ni_Name a = ni_Name b"
    using fun_cong [OF eq, of "''name''"] by (auto simp del: map_of_append simp: lookups split: if_splits option.splits)
  have e1: "ni_Type a = ni_Type b"
    using fun_cong [OF eq, of "''type''"] by (auto simp del: map_of_append simp: lookups split: if_splits option.splits)
  have e2: "ni_Required a = ni_Required b"
    using fun_cong [OF eq, of "''required''"] by (auto simp del: map_of_append simp: lookups split: if_splits option.splits)
  have e3: "ni_Default a = ni_Default b"
    using fun_cong [OF eq, of "''default''"] by (cases "ni_Default a"; cases "ni_Default b") (auto simp del: map_of_append simp: lookups split: if_splits option.splits)
  have e4: "ni_Enum a = ni_Enum b"
    using fun_cong [OF eq, of "''enum''"] by (auto simp del: map_of_append simp: lookups map_leaf split: if_splits option.splits)
  have e5: "ni_Minimum a = ni_Minimum b"
    using fun_cong [OF eq, of "''minimum''"] by (cases "ni_Minimum a"; cases "ni_Minimum b") (auto simp del: map_of_append simp: lookups split: if_splits option.splits)
  have e6: "ni_Maximum a = ni_Maximum b"
    using fun_cong [OF eq, of "''maximum''"] by (cases "ni_Maximum a"; cases "ni_Maximum b") (auto simp del: map_of_append simp: lookups split: if_splits option.splits)
  have e7: "ni_MaxLength a = ni_MaxLength b"
    using fun_cong [OF eq, of "''max_length''"] by (cases "ni_MaxLength a"; cases "ni_MaxLength b") (auto simp del: map_of_append simp: lookups split: if_splits option.splits)
  have e8: "ni_Sensitive a = ni_Sensitive b"
    using fun_cong [OF eq, of "''sensitive''"] by (auto simp del: map_of_append simp: lookups split: if_splits option.splits)
  from e0 e1 e2 e3 e4 e5 e6 e7 e8 show ?thesis by (cases a; cases b) simp
qed

text \<open>The fields of a step, also when an item follows them.\<close>

lemma step_fields_lookup:
  assumes eq: "map_of (step_fields s @ r) = map_of (step_fields s' @ r')"
    and r: "\<forall>k. k \<noteq> ''item'' \<longrightarrow> map_of r k = None" and r': "\<forall>k. k \<noteq> ''item'' \<longrightarrow> map_of r' k = None"
  shows "ns_ID s = ns_ID s'" "ns_Kind s = ns_Kind s'" "ns_Next s = ns_Next s'" "ns_Attempts s = ns_Attempts s'" "ns_BackoffMS s = ns_BackoffMS s'" "ns_Input s = ns_Input s'" "ns_Function s = ns_Function s'" "ns_Capability s = ns_Capability s'" "ns_Contract s = ns_Contract s'" "ns_Connection s = ns_Connection s'" "ns_Resource s = ns_Resource s'" "ns_ModelPolicy s = ns_ModelPolicy s'" "ns_Prompt s = ns_Prompt s'" "ns_OutputSchema s = ns_OutputSchema s'" "ns_Worker s = ns_Worker s'" "ns_Objective s = ns_Objective s'" "ns_BudgetMS s = ns_BudgetMS s'" "ns_BudgetTokens s = ns_BudgetTokens s'" "ns_Cases s = ns_Cases s'" "ns_Default s = ns_Default s'" "ns_Message s = ns_Message s'" "ns_ResponseSchema s = ns_ResponseSchema s'" "ns_Over s = ns_Over s'" "ns_MaxItems s = ns_MaxItems s'" "ns_MaxParallel s = ns_MaxParallel s'" "ns_OnItemFailure s = ns_OnItemFailure s'" "ns_MinSucceeded s = ns_MinSucceeded s'"
proof -
  note eq = eq [unfolded step_fields_def]
  show "ns_ID s = ns_ID s'"
    using fun_cong [OF eq, of "''id''"] by (simp del: map_of_append add: lookups r r' split: if_splits)
  show "ns_Kind s = ns_Kind s'"
    using fun_cong [OF eq, of "''kind''"] by (simp del: map_of_append add: lookups r r' split: if_splits)
  show "ns_Next s = ns_Next s'"
    using fun_cong [OF eq, of "''next''"] by (simp del: map_of_append add: lookups r r' split: if_splits)
  show "ns_Attempts s = ns_Attempts s'"
    using fun_cong [OF eq, of "''attempts''"] by (simp del: map_of_append add: lookups r r' split: if_splits)
  show "ns_BackoffMS s = ns_BackoffMS s'"
    using fun_cong [OF eq, of "''backoff_ms''"] by (simp del: map_of_append add: lookups r r' split: if_splits)
  show "ns_Input s = ns_Input s'"
    using fun_cong [OF eq, of "''input''"] by (simp del: map_of_append add: lookups r r' map_pairs split: if_splits)
  show "ns_Function s = ns_Function s'"
    using fun_cong [OF eq, of "''function''"] by (simp del: map_of_append add: lookups r r' split: if_splits)
  show "ns_Capability s = ns_Capability s'"
    using fun_cong [OF eq, of "''capability''"] by (simp del: map_of_append add: lookups r r' split: if_splits)
  show "ns_Contract s = ns_Contract s'"
    using fun_cong [OF eq, of "''contract''"] by (simp del: map_of_append add: lookups r r' split: if_splits)
  show "ns_Connection s = ns_Connection s'"
    using fun_cong [OF eq, of "''connection''"] by (simp del: map_of_append add: lookups r r' split: if_splits)
  show "ns_Resource s = ns_Resource s'"
    using fun_cong [OF eq, of "''resource''"] by (simp del: map_of_append add: lookups r r' split: if_splits)
  show "ns_ModelPolicy s = ns_ModelPolicy s'"
    using fun_cong [OF eq, of "''model_policy''"] by (simp del: map_of_append add: lookups r r' split: if_splits)
  show "ns_Prompt s = ns_Prompt s'"
    using fun_cong [OF eq, of "''prompt''"] by (simp del: map_of_append add: lookups r r' split: if_splits)
  show "ns_OutputSchema s = ns_OutputSchema s'"
    using fun_cong [OF eq, of "''output_schema''"] by (simp del: map_of_append add: lookups r r' split: if_splits)
  show "ns_Worker s = ns_Worker s'"
    using fun_cong [OF eq, of "''worker''"] by (simp del: map_of_append add: lookups r r' split: if_splits)
  show "ns_Objective s = ns_Objective s'"
    using fun_cong [OF eq, of "''objective''"] by (simp del: map_of_append add: lookups r r' split: if_splits)
  show "ns_BudgetMS s = ns_BudgetMS s'"
    using fun_cong [OF eq, of "''budget_ms''"] by (simp del: map_of_append add: lookups r r' split: if_splits)
  show "ns_BudgetTokens s = ns_BudgetTokens s'"
    using fun_cong [OF eq, of "''budget_tokens''"] by (simp del: map_of_append add: lookups r r' split: if_splits)
  show "ns_Cases s = ns_Cases s'"
    using fun_cong [OF eq, of "''cases''"] by (simp del: map_of_append add: lookups r r' map_cases split: if_splits)
  show "ns_Default s = ns_Default s'"
    using fun_cong [OF eq, of "''default''"] by (simp del: map_of_append add: lookups r r' split: if_splits)
  show "ns_Message s = ns_Message s'"
    using fun_cong [OF eq, of "''message''"] by (simp del: map_of_append add: lookups r r' split: if_splits)
  show "ns_ResponseSchema s = ns_ResponseSchema s'"
    using fun_cong [OF eq, of "''response_schema''"] by (simp del: map_of_append add: lookups r r' split: if_splits)
  show "ns_Over s = ns_Over s'"
    using fun_cong [OF eq, of "''over''"] by (simp del: map_of_append add: lookups r r' split: if_splits)
  show "ns_MaxItems s = ns_MaxItems s'"
    using fun_cong [OF eq, of "''max_items''"] by (simp del: map_of_append add: lookups r r' split: if_splits)
  show "ns_MaxParallel s = ns_MaxParallel s'"
    using fun_cong [OF eq, of "''max_parallel''"] by (simp del: map_of_append add: lookups r r' split: if_splits)
  show "ns_OnItemFailure s = ns_OnItemFailure s'"
    using fun_cong [OF eq, of "''on_item_failure''"] by (simp del: map_of_append add: lookups r r' split: if_splits)
  show "ns_MinSucceeded s = ns_MinSucceeded s'"
    using fun_cong [OF eq, of "''min_succeeded''"] by (simp del: map_of_append add: lookups r r' split: if_splits)
qed

lemma step_doc_inj:
  assumes "step_doc a = step_doc b"
  shows "a = b"
proof -
  define r where "r = (\<lambda>x :: normStep. case ns_Item x of Some i \<Rightarrow> [(''item'', Struct (step_fields i))] | None \<Rightarrow> [])"
  have none: "\<forall>k. k \<noteq> ''item'' \<longrightarrow> map_of (r x) k = None" for x by (auto simp: r_def split: option.splits)
  have eq: "step_fields a @ r a = step_fields b @ r b" using assms by (simp add: step_doc_def r_def)
  have m: "map_of (step_fields a @ r a) = map_of (step_fields b @ r b)" by (simp only: eq)
  note fields = step_fields_lookup [OF m none none]
  have same: "step_fields a = step_fields b" unfolding step_fields_def by (simp only: fields)
  then have "r a = r b" using eq by simp
  moreover have "i = j" if "step_fields i = step_fields j" for i j :: normStep0
  proof -
    have "map_of (step_fields i @ []) = map_of (step_fields j @ [])" using that by simp
    from step_fields_lookup [OF this] show ?thesis by (cases i; cases j) simp
  qed
  ultimately have "ns_Item a = ns_Item b" by (auto simp: r_def split: option.splits)
  with fields show ?thesis by (cases a; cases b) simp
qed

lemmas map_steps = map_doc_inj [of step_doc, OF iffI [OF step_doc_inj arg_cong [of _ _ step_doc]]]
  and map_inputs = map_doc_inj [of input_doc, OF iffI [OF input_doc_eq arg_cong [of _ _ input_doc]]]

lemma map_texts: "map (\<lambda>s. Leaf (VStr s)) xs = map (\<lambda>s. Leaf (VStr s)) ys \<longleftrightarrow> xs = ys"
  by (rule map_doc_inj) simp

lemma definition_doc_inj:
  assumes "definition_doc a = definition_doc b"
  shows "a = b"
proof -
  have eq: "map_of (case definition_doc a of Struct fs \<Rightarrow> fs) = map_of (case definition_doc b of Struct fs \<Rightarrow> fs)" using assms by simp
  have sch: "map_of (case x of Some s \<Rightarrow> [(''schedule'', schedule_doc s)] | None \<Rightarrow> []) k = (if k = ''schedule'' then map_option schedule_doc x else None)" for x k
    by (cases x) auto
  note eq = eq [unfolded definition_doc_def document.case]
  have e0: "nd_SchemaVersion a = nd_SchemaVersion b"
    using fun_cong [OF eq, of "''schema_version''"] by (simp del: map_of_append add: lookup_append slice_eq sch)
  have e1: "nd_Name a = nd_Name b"
    using fun_cong [OF eq, of "''name''"] by (simp del: map_of_append add: lookup_append slice_eq sch)
  have e2: "nd_Inputs a = nd_Inputs b"
    using fun_cong [OF eq, of "''inputs''"] by (simp del: map_of_append add: lookup_append slice_eq sch map_inputs)
  have e3: "nd_RunKey a = nd_RunKey b"
    using fun_cong [OF eq, of "''run_key''"] by (simp del: map_of_append add: lookup_append slice_eq sch map_texts)
  have e4: "nd_ModelPolicies a = nd_ModelPolicies b"
    using fun_cong [OF eq, of "''model_policies''"] by (simp del: map_of_append add: lookup_append slice_eq sch map_policies)
  have e5: "nd_Limits a = nd_Limits b"
    using fun_cong [OF eq, of "''limits''"] by (simp del: map_of_append add: lookup_append slice_eq sch limits_doc_eq)
  have e6: "nd_Authority a = nd_Authority b"
    using fun_cong [OF eq, of "''authority''"] by (simp del: map_of_append add: lookup_append slice_eq sch)
  have e7: "nd_Retention a = nd_Retention b"
    using fun_cong [OF eq, of "''retention''"] by (simp del: map_of_append add: lookup_append slice_eq sch)
  have e8: "nd_Start a = nd_Start b"
    using fun_cong [OF eq, of "''start''"] by (simp del: map_of_append add: lookup_append slice_eq sch)
  have e9: "nd_Steps a = nd_Steps b"
    using fun_cong [OF eq, of "''steps''"] by (simp del: map_of_append add: lookup_append slice_eq sch map_steps)
  have e10: "nd_Outputs a = nd_Outputs b"
    using fun_cong [OF eq, of "''outputs''"] by (simp del: map_of_append add: lookup_append slice_eq sch map_pairs)
  have s: "nd_Schedule a = nd_Schedule b"
    using fun_cong [OF eq, of "''schedule''"] by (simp del: map_of_append add: lookup_append sch schedule_doc_eq split: option.splits)
  from s e0 e1 e2 e3 e4 e5 e6 e7 e8 e9 e10 show ?thesis by (cases a; cases b) simp
qed

section \<open>What one document fixes\<close>

text \<open>
  Two definitions with one document have one normalized form; their prompts and schemas have one digest
  each, and their functions one signature.
\<close>

lemma document_fixes:
  assumes "hash_doc dc digest d files functions = Inr x" and "hash_doc dc digest d' files' functions' = Inr x"
  shows "\<exists>n. normalizeDefinition d = Inr n \<and> normalizeDefinition d' = Inr n"
    and "map_err (hash_prompt digest files) (prompts_of d) = map_err (hash_prompt digest files') (prompts_of d')"
    and "map_err (hash_schema dc digest files) (schemas_of d) = map_err (hash_schema dc digest files') (schemas_of d')"
    and "map_err (hash_function digest functions) (functions_of d) = map_err (hash_function digest functions') (functions_of d')"
  using assms by (auto simp: hash_doc_def split: sum.splits dest!: definition_doc_inj)

lemma normal_step:
  assumes n: "normalizeDefinition d = Inr n" and s: "s \<in> set (Steps d)"
  shows "\<exists>m \<in> set (nd_Steps n). norm_step s = Inr m"
proof -
  obtain ss where ss: "map_err norm_step (Steps d) = Inr ss" "nd_Steps n = sort_key ns_ID ss"
    using n by (auto simp: normalizeDefinition_def split: sum.splits)
  then have "list_all2 (\<lambda>s m. norm_step s = Inr m) (Steps d) ss" by (simp add: map_err_Inr)
  then obtain m where "m \<in> set ss" "norm_step s = Inr m" using s by (meson list_all2_mem)
  with ss show ?thesis by auto
qed

lemma normal_step_of:
  assumes n: "normalizeDefinition d = Inr n" and m: "m \<in> set (nd_Steps n)"
  shows "\<exists>s \<in> set (Steps d). norm_step s = Inr m"
proof -
  obtain ss where ss: "map_err norm_step (Steps d) = Inr ss" "nd_Steps n = sort_key ns_ID ss"
    using n by (auto simp: normalizeDefinition_def split: sum.splits)
  then show ?thesis using m map_err_mem by fastforce
qed

end
