(* ===== verification/Alike.thy ===== *)
theory Alike
  imports Normalized
begin

text \<open>
  What one hash document fixes of a definition, written out field by field: two definitions with one
  document have the same settings, and the same steps but for documentation.
\<close>

section \<open>Alike but for documentation\<close>

text \<open>Written values count by what they mean, durations by their whole milliseconds.\<close>

definition values_alike :: "ynode gomap \<Rightarrow> ynode gomap \<Rightarrow> bool" where
  "values_alike m m' \<longleftrightarrow> (\<forall>k. map_option nodeValue (map_of m k) = map_option nodeValue (map_of m' k))"

definition optional_alike :: "ynode \<Rightarrow> ynode \<Rightarrow> bool" where
  "optional_alike n n' \<longleftrightarrow> written n = written n' \<and> (written n \<longrightarrow> nodeValue n = nodeValue n')"

text \<open>A case without a condition reads as one whose condition is empty.\<close>

definition condition_of :: "branchCase \<Rightarrow> condition" where
  "condition_of c = (case When c of Some w \<Rightarrow> w | None \<Rightarrow> \<lparr>w_Ref = [], w_Op = [], w_Value = YAbsent\<rparr>)"

definition case_alike :: "branchCase \<Rightarrow> branchCase \<Rightarrow> bool" where
  "case_alike c c' \<longleftrightarrow> CNext c = CNext c' \<and> w_Ref (condition_of c) = w_Ref (condition_of c') \<and>
     w_Op (condition_of c) = w_Op (condition_of c') \<and> optional_alike (w_Value (condition_of c)) (w_Value (condition_of c'))"

text \<open>The attempts of a step and its pause between them, which branches, maps and interrupts do not have; its budget.\<close>

definition tries_of :: "'a step0_scheme \<Rightarrow> int \<times> int" where
  "tries_of s = (if SKind s = KindBranch \<or> SKind s = KindMap \<or> SKind s = KindInterrupt then (0, 0)
     else case Retry s of None \<Rightarrow> (1, 0) | Some r \<Rightarrow> (r_MaxAttempts r, ms (r_Backoff r)))"

definition budget_of :: "'a step0_scheme \<Rightarrow> int \<times> int" where
  "budget_of s = (case Budget s of None \<Rightarrow> (0, 0) | Some b \<Rightarrow> (ms (b_Time b), b_Tokens b))"

text \<open>Every field of a step but its id, its description and the list of keys the file wrote.\<close>

definition fields_alike :: "'a step0_scheme \<Rightarrow> 'b step0_scheme \<Rightarrow> bool" where
  "fields_alike s s' \<longleftrightarrow>
     SKind s = SKind s' \<and> Next s = Next s' \<and> Function s = Function s' \<and>
     Capability s = Capability s' \<and> Contract s = Contract s' \<and> Connection s = Connection s' \<and>
     Resource s = Resource s' \<and> ModelPolicy s = ModelPolicy s' \<and> Prompt s = Prompt s' \<and>
     OutputSchema s = OutputSchema s' \<and> Worker s = Worker s' \<and> Objective s = Objective s' \<and>
     Default s = Default s' \<and> Message s = Message s' \<and> ResponseSchema s = ResponseSchema s' \<and>
     Over s = Over s' \<and> SMaxItems s = SMaxItems s' \<and> MaxParallel s = MaxParallel s' \<and>
     OnItemFailure s = OnItemFailure s' \<and> MinSucceeded s = MinSucceeded s' \<and>
     tries_of s = tries_of s' \<and> budget_of s = budget_of s' \<and>
     values_alike (Input s) (Input s') \<and> list_all2 case_alike (Cases s) (Cases s')"

definition bound_alike :: "step \<Rightarrow> step \<Rightarrow> bool" where
  "bound_alike s s' \<longleftrightarrow> ID s = ID s' \<and> fields_alike s s' \<and> rel_option fields_alike (Item s) (Item s')"

text \<open>The rest of a definition: everything but its description and those of its inputs.\<close>

definition input_alike :: "inputSpec \<Rightarrow> inputSpec \<Rightarrow> bool" where
  "input_alike i i' \<longleftrightarrow> i_Type i = i_Type i' \<and> i_Required i = i_Required i' \<and> optional_alike (i_Default i) (i_Default i') \<and>
     map nodeValue (i_Enum i) = map nodeValue (i_Enum i') \<and> i_Minimum i = i_Minimum i' \<and> i_Maximum i = i_Maximum i' \<and>
     i_MaxLength i = i_MaxLength i' \<and> i_Sensitive i = i_Sensitive i'"

definition catch_up_of :: "schedule \<Rightarrow> string \<times> int" where
  "catch_up_of s = (case s_CatchUp s of Some c \<Rightarrow> (c_Policy c, c_MaxRuns c) | None \<Rightarrow> ([], 0))"

definition schedule_alike :: "schedule \<Rightarrow> schedule \<Rightarrow> bool" where
  "schedule_alike s s' \<longleftrightarrow> join '' '' (splitFields (s_Cron s)) = join '' '' (splitFields (s_Cron s')) \<and>
     s_Timezone s = s_Timezone s' \<and> catch_up_of s = catch_up_of s' \<and> values_alike (s_Inputs s) (s_Inputs s')"

definition limits_of :: "definition_ \<Rightarrow> int list" where
  "limits_of d = (case Limits d of Some l \<Rightarrow> [ms (l_MaxDuration l), l_MaxAttempts l, l_MaxParallel l, l_MaxTokens l] | None \<Rightarrow> [0, 0, 0, 0])"

text \<open>The requested operations, in any order, each with its resources in any order.\<close>

definition operations_of :: "definition_ \<Rightarrow> authorityReport multiset" where
  "operations_of d = (case Authority d of Some ops \<Rightarrow> mset (map (sort_resources \<circ> authority_of) ops) | None \<Rightarrow> {#})"

definition settings_alike :: "definition_ \<Rightarrow> definition_ \<Rightarrow> bool" where
  "settings_alike d d' \<longleftrightarrow> SchemaVersion d = SchemaVersion d' \<and> DName d = DName d' \<and> Start d = Start d' \<and>
     (case Retention d of Some c \<Rightarrow> c | None \<Rightarrow> []) = (case Retention d' of Some c \<Rightarrow> c | None \<Rightarrow> []) \<and>
     (case RunKey d of Some ks \<Rightarrow> mset ks | None \<Rightarrow> {#}) = (case RunKey d' of Some ks \<Rightarrow> mset ks | None \<Rightarrow> {#}) \<and>
     limits_of d = limits_of d' \<and> operations_of d = operations_of d' \<and> map_of (Outputs d) = map_of (Outputs d') \<and>
     map_of (ModelPolicies d) = map_of (ModelPolicies d') \<and>
     (\<forall>name. rel_option input_alike (map_of (Inputs d) name) (map_of (Inputs d') name)) \<and>
     rel_option schedule_alike (Schedule d) (Schedule d')"

section \<open>Values and steps\<close>

lemma map_err_alike:
  assumes "map_err f xs = Inr zs" and "map_err g ys = Inr zs" and "\<And>x y z. f x = Inr z \<Longrightarrow> g y = Inr z \<Longrightarrow> R x y"
  shows "list_all2 R xs ys"
  using assms by (auto simp: map_err_Inr list_all2_conv_all_nth)

lemma normValues_at:
  assumes "normValues m = Inr p"
  shows "map_option nodeValue (map_of m k) = map_option Inr (map_of p k)" "map fst p = sortedKeys m"
proof -
  have l: "list_all2 (\<lambda>name y. fst y = name \<and> nodeValue (the (map_of m name)) = Inr (snd y)) (sortedKeys m) p"
    using assms unfolding normValues_def map_err_Inr by (rule list_all2_mono) (auto split: sum.splits)
  then show f: "map fst p = sortedKeys m" by (auto simp: list_all2_conv_all_nth intro!: nth_equalityI)
  show "map_option nodeValue (map_of m k) = map_option Inr (map_of p k)"
  proof (cases "map_of p k")
    case None
    then have "k \<notin> set (sortedKeys m)" by (simp add: f [symmetric] map_of_eq_None_iff)
    then show ?thesis using None map_of_in_sortedKeys [of m k] by (cases "map_of m k") auto
  next
    case (Some v)
    then have kv: "(k, v) \<in> set p" by (rule map_of_SomeD)
    then have "nodeValue (the (map_of m k)) = Inr v" using l by (auto simp: list_all2_conv_all_nth in_set_conv_nth)
    moreover have "k \<in> set (sortedKeys m)" using kv by (simp add: f [symmetric] image_iff) force
    ultimately show ?thesis using Some in_sortedKeysD [of k m] by auto
  qed
qed

lemma normValues_alike: "normValues m = Inr p \<Longrightarrow> normValues m' = Inr p \<Longrightarrow> values_alike m m'"
  by (simp add: values_alike_def normValues_at(1))

lemma norm_optional_alike: "norm_optional n = Inr v \<Longrightarrow> norm_optional n' = Inr v \<Longrightarrow> optional_alike n n'"
  by (auto simp: norm_optional_def optional_alike_def written_def split: if_splits sum.splits)

lemma norm_absent: "norm_optional YAbsent = Inr None"
  by (simp add: norm_optional_def)

lemma norm_case_alike:
  assumes "norm_case c = Inr x" and "norm_case c' = Inr x"
  shows "case_alike c c'"
proof -
  have "norm_optional (w_Value (condition_of c)) = Inr (nc_Value x) \<and> nc_Ref x = w_Ref (condition_of c) \<and>
      nc_Op x = w_Op (condition_of c) \<and> nc_Next x = CNext c" if "norm_case c = Inr x" for c
    using that by (auto simp: norm_case_def condition_of_def norm_absent split: option.splits sum.splits)
  from this [OF assms(1)] this [OF assms(2)] show ?thesis
    using norm_optional_alike by (auto simp: case_alike_def)
qed

text \<open>What the normalized form of a step says of the step.\<close>

lemma norm_step0_says:
  assumes "norm_step0 s b = Inr m"
  shows "ns_Kind m = SKind s" "ns_Next m = Next s" "ns_Function m = Function s" "ns_Capability m = Capability s"
    "ns_Contract m = Contract s" "ns_Connection m = Connection s" "ns_Resource m = Resource s" "ns_ModelPolicy m = ModelPolicy s"
    "ns_Prompt m = Prompt s" "ns_OutputSchema m = OutputSchema s" "ns_Worker m = Worker s" "ns_Objective m = Objective s"
    "ns_Default m = Default s" "ns_Message m = Message s" "ns_ResponseSchema m = ResponseSchema s" "ns_Over m = Over s"
    "ns_MaxItems m = SMaxItems s" "ns_MaxParallel m = MaxParallel s" "ns_OnItemFailure m = OnItemFailure s"
    "ns_MinSucceeded m = MinSucceeded s" "(ns_Attempts m, ns_BackoffMS m) = tries_of s" "(ns_BudgetMS m, ns_BudgetTokens m) = budget_of s"
    "normValues (Input s) = Inr (ns_Input m)" "map_err norm_case (Cases s) = Inr (ns_Cases m)" "\<not> b \<Longrightarrow> ns_ID m = ID s"
proof -
  obtain pairs where p: "normValues (Input s) = Inr pairs" using assms by (cases "normValues (Input s)") (simp_all add: norm_step0_def)
  obtain cs where c: "map_err norm_case (Cases s) = Inr cs" using assms p by (cases "map_err norm_case (Cases s)") (simp_all add: norm_step0_def)
  note m = assms [unfolded norm_step0_def p c sum.case, THEN sum.inject(2) [THEN iffD1], symmetric]
  show "(ns_Attempts m, ns_BackoffMS m) = tries_of s" "(ns_BudgetMS m, ns_BudgetTokens m) = budget_of s"
    by (auto simp: m tries_of_def budget_of_def norm_attempts_def norm_backoff_def split: option.split)
  show "ns_Kind m = SKind s" "ns_Next m = Next s" "ns_Function m = Function s" "ns_Capability m = Capability s"
    "ns_Contract m = Contract s" "ns_Connection m = Connection s" "ns_Resource m = Resource s" "ns_ModelPolicy m = ModelPolicy s"
    "ns_Prompt m = Prompt s" "ns_OutputSchema m = OutputSchema s" "ns_Worker m = Worker s" "ns_Objective m = Objective s"
    "ns_Default m = Default s" "ns_Message m = Message s" "ns_ResponseSchema m = ResponseSchema s" "ns_Over m = Over s"
    "ns_MaxItems m = SMaxItems s" "ns_MaxParallel m = MaxParallel s" "ns_OnItemFailure m = OnItemFailure s"
    "ns_MinSucceeded m = MinSucceeded s" "normValues (Input s) = Inr (ns_Input m)" "map_err norm_case (Cases s) = Inr (ns_Cases m)"
    "\<not> b \<Longrightarrow> ns_ID m = ID s"
    by (simp_all add: m p c)
qed

lemma norm_step0_alike:
  assumes "norm_step0 s b = Inr m" and "norm_step0 s' b' = Inr m"
  shows "fields_alike s s'"
proof -
  note a = norm_step0_says [OF assms(1)] and a' = norm_step0_says [OF assms(2)]
  have "values_alike (Input s) (Input s')" by (rule normValues_alike [OF a(23) a'(23)])
  moreover have "list_all2 case_alike (Cases s) (Cases s')" by (rule map_err_alike [OF a(24) a'(24) norm_case_alike])
  ultimately show ?thesis unfolding fields_alike_def by (simp add: a(1-22) [symmetric] a'(1-22) [symmetric])
qed

lemma norm_step_alike:
  assumes "norm_step s = Inr m" and "norm_step s' = Inr m"
  shows "bound_alike s s'"
proof -
  obtain n i where n: "norm_step0 s False = Inr n" "m = normStep0.extend n \<lparr>ns_Item = i\<rparr>"
      "rel_option (\<lambda>x y. norm_step0 x True = Inr y) (Item s) i"
    using assms(1) by (auto simp: norm_step_def split: sum.splits option.splits)
  obtain n' i' where n': "norm_step0 s' False = Inr n'" "m = normStep0.extend n' \<lparr>ns_Item = i'\<rparr>"
      "rel_option (\<lambda>x y. norm_step0 x True = Inr y) (Item s') i'"
    using assms(2) by (auto simp: norm_step_def split: sum.splits option.splits)
  have "n = n'" "i = i'" using n(2) n'(2) by (cases n; cases n'; simp add: normStep0.extend_def)+
  then have "ID s = ID s'" "fields_alike s s'"
    using norm_step0_says(25) [OF n(1)] norm_step0_says(25) [OF n'(1)] norm_step0_alike [OF n(1)] n'(1) by simp_all
  moreover have "rel_option fields_alike (Item s) (Item s')"
    using n(3) n'(3) \<open>i = i'\<close> norm_step0_alike by (cases i; cases "Item s"; cases "Item s'") auto
  ultimately show ?thesis by (simp add: bound_alike_def)
qed

section \<open>Settings and files\<close>

lemma norm_input_alike:
  assumes "norm_input name i = Inr x" and "norm_input name i' = Inr x"
  shows "input_alike i i'"
proof -
  have "norm_optional (i_Default i) = Inr (ni_Default x) \<and> map nodeValue (i_Enum i) = map Inr (ni_Enum x) \<and> ni_Type x = i_Type i \<and>
      ni_Required x = i_Required i \<and> ni_Minimum x = i_Minimum i \<and> ni_Maximum x = i_Maximum i \<and> ni_MaxLength x = i_MaxLength i \<and>
      ni_Sensitive x = i_Sensitive i" if "norm_input name i = Inr x" for i
    using that by (auto simp: norm_input_def map_err_Inr list_all2_conv_all_nth intro!: nth_equalityI split: sum.splits)
  from this [OF assms(1)] this [OF assms(2)] show ?thesis
    using norm_optional_alike by (auto simp: input_alike_def)
qed

lemma norm_schedule_alike:
  assumes "norm_schedule s = Inr x" and "norm_schedule s' = Inr x"
  shows "schedule_alike s s'"
proof -
  have "normValues (s_Inputs s) = Inr (nsc_Inputs x) \<and> nsc_Cron x = join '' '' (splitFields (s_Cron s)) \<and> nsc_Timezone x = s_Timezone s \<and>
      (nsc_CatchUpPolicy x, nsc_CatchUpMaxRuns x) = catch_up_of s" if "norm_schedule s = Inr x" for s
    using that by (auto simp: norm_schedule_def catch_up_of_def split: sum.splits option.split)
  from this [OF assms(1)] this [OF assms(2)] show ?thesis
    using normValues_alike by (auto simp: schedule_alike_def)
qed

lemma not_in_sortedKeys: "k \<notin> set (sortedKeys m) \<Longrightarrow> map_of m k = None"
  by (simp add: set_sortedKeys_dom domIff)

lemma norm_inputs_alike:
  assumes "map_err (\<lambda>name. norm_input name (the (map_of m name))) (sortedKeys m) = Inr xs"
    and "map_err (\<lambda>name. norm_input name (the (map_of m' name))) (sortedKeys m') = Inr xs"
  shows "rel_option input_alike (map_of m k) (map_of m' k)"
proof -
  have l: "list_all2 (\<lambda>name x. norm_input name (the (map_of m name)) = Inr x) (sortedKeys m) xs"
    "list_all2 (\<lambda>name x. norm_input name (the (map_of m' name)) = Inr x) (sortedKeys m') xs"
    using assms by (simp_all add: map_err_Inr)
  have name: "norm_input name i = Inr x \<Longrightarrow> ni_Name x = name" for name i x by (auto simp: norm_input_def split: sum.splits)
  have k: "sortedKeys m = map ni_Name xs" "sortedKeys m' = map ni_Name xs"
    using l name by (auto simp: list_all2_conv_all_nth intro!: nth_equalityI)
  show ?thesis
  proof (cases "k \<in> set (sortedKeys m)")
    case True
    then obtain j where j: "j < length xs" "sortedKeys m ! j = k" by (auto simp: k in_set_conv_nth)
    then have "input_alike (the (map_of m k)) (the (map_of m' k))"
      using l k by (intro norm_input_alike [of k _ "xs ! j"]) (auto simp: list_all2_conv_all_nth)
    moreover have "k \<in> set (sortedKeys m')" using True k by simp
    ultimately show ?thesis using True in_sortedKeysD [of k m] in_sortedKeysD [of k m'] by auto
  next
    case False
    moreover from this have "k \<notin> set (sortedKeys m')" using k by simp
    ultimately show ?thesis by (simp add: not_in_sortedKeys)
  qed
qed

lemma listed_lookup:
  assumes "map (\<lambda>k. (k, f (the (map_of m k)))) (sortedKeys m) = map (\<lambda>k. (k, f (the (map_of m' k)))) (sortedKeys m')" and "inj f"
  shows "map_of m = map_of m'"
proof
  fix k
  have "map fst (map (\<lambda>k. (k, f (the (map_of m k)))) (sortedKeys m)) = map fst (map (\<lambda>k. (k, f (the (map_of m' k)))) (sortedKeys m'))"
    by (simp only: assms(1))
  then have ks: "sortedKeys m = sortedKeys m'" by (simp add: comp_def)
  show "map_of m k = map_of m' k"
  proof (cases "k \<in> set (sortedKeys m)")
    case True
    then have "f (the (map_of m k)) = f (the (map_of m' k))" using assms(1) by (auto simp: ks)
    then show ?thesis using True ks in_sortedKeysD [of k m] in_sortedKeysD [of k m'] injD [OF assms(2)] by force
  next
    case False
    then show ?thesis using ks by (simp add: not_in_sortedKeys)
  qed
qed

definition policy_fields :: "policyReport \<Rightarrow> string \<times> modelPolicy" where
  "policy_fields p = (pr_Name p, \<lparr>m_Version = pr_Version p, m_Provider = pr_Provider p, m_Model = pr_Model p,
     m_Temperature = pr_Temperature p, m_MaxOutputTokens = pr_MaxOutputTokens p\<rparr>)"

lemma norm_policies_fields: "map policy_fields (norm_policies d) = map (\<lambda>k. (k, the (map_of (ModelPolicies d) k))) (sortedKeys (ModelPolicies d))"
  using in_sortedKeysD by (fastforce simp: norm_policies_def policy_report_def policy_fields_def)

lemma normal_authority: "(case Authority d of Some ops \<Rightarrow> norm_authority ops | None \<Rightarrow> []) = xs \<Longrightarrow> mset xs = operations_of d"
  by (auto simp: operations_of_def norm_authority_def canonicalAuthority_def comp_def split: option.splits)

lemma normal_settings:
  assumes n: "normalizeDefinition d = Inr n" and n': "normalizeDefinition d' = Inr n"
  shows "settings_alike d d'"
proof -
  have says: "nd_SchemaVersion n = SchemaVersion d \<and> nd_Name n = DName d \<and> nd_Start n = Start d \<and>
      map_err (\<lambda>name. norm_input name (the (map_of (Inputs d) name))) (sortedKeys (Inputs d)) = Inr (nd_Inputs n) \<and>
      norm_schedules (Schedule d) = Inr (nd_Schedule n) \<and>
      nd_RunKey n = (case RunKey d of Some names \<Rightarrow> sortedStrings names | None \<Rightarrow> []) \<and>
      nd_ModelPolicies n = norm_policies d \<and> nd_Limits n = norm_limits (Limits d) \<and>
      nd_Authority n = (case Authority d of Some ops \<Rightarrow> norm_authority ops | None \<Rightarrow> []) \<and>
      nd_Retention n = (case Retention d of Some c \<Rightarrow> c | None \<Rightarrow> []) \<and>
      nd_Outputs n = map (\<lambda>name. (name, VStr (the (map_of (Outputs d) name)))) (sortedKeys (Outputs d))"
    if "normalizeDefinition d = Inr n" for d
    using that unfolding normalizeDefinition_def by (auto split: sum.splits)
  note s = says [OF n] and s' = says [OF n']
  have run_key: "mset (case k of Some names \<Rightarrow> sortedStrings names | None \<Rightarrow> []) = (case k of Some ks \<Rightarrow> mset ks | None \<Rightarrow> {#})" for k
    by (simp add: sortedStrings_def split: option.split)
  have limits: "limits_of d = (let l = norm_limits (Limits d) in [nl_MaxDurationMS l, nl_MaxAttempts l, nl_MaxParallel l, nl_MaxTokens l])" for d
    by (simp add: limits_of_def norm_limits_def split: option.split)
  have sch: "norm_schedules x = Inr y \<Longrightarrow> rel_option (\<lambda>a b. norm_schedule a = Inr b) x y" for x y
    by (auto simp: norm_schedules_def split: option.splits sum.splits)
  have "rel_option schedule_alike (Schedule d) (Schedule d')"
    using sch [of "Schedule d" "nd_Schedule n"] sch [of "Schedule d'" "nd_Schedule n"] s s' norm_schedule_alike
    by (cases "nd_Schedule n"; cases "Schedule d"; cases "Schedule d'") auto
  moreover have "rel_option input_alike (map_of (Inputs d) k) (map_of (Inputs d') k)" for k
    using s s' norm_inputs_alike by blast
  moreover have "map_of (Outputs d) = map_of (Outputs d')"
    using s s' by (intro listed_lookup [of VStr]) (auto intro: injI)
  moreover have "map policy_fields (norm_policies d) = map policy_fields (norm_policies d')" using s s' by simp
  then have "map_of (ModelPolicies d) = map_of (ModelPolicies d')"
    by (intro listed_lookup [of "\<lambda>x. x"]) (simp_all add: norm_policies_fields)
  moreover have "operations_of d = operations_of d'" using s s' normal_authority by metis
  moreover have "(case RunKey d of Some ks \<Rightarrow> mset ks | None \<Rightarrow> {#}) = (case RunKey d' of Some ks \<Rightarrow> mset ks | None \<Rightarrow> {#})"
    using s s' by (simp only: run_key [symmetric])
  moreover have "limits_of d = limits_of d'" using s s' by (simp only: limits)
  ultimately show ?thesis using s s' by (simp add: settings_alike_def)
qed

lemma settings_fixed:
  assumes "hash_doc dc digest d files functions = Inr x" and "hash_doc dc digest d' files' functions' = Inr x"
  shows "settings_alike d d'"
  using document_fixes(1) [OF assms] normal_settings by blast

lemma steps_fixed:
  assumes x: "hash_doc dc digest d files functions = Inr x" "hash_doc dc digest d' files' functions' = Inr x" and s: "s \<in> set (Steps d)"
  shows "\<exists>s' \<in> set (Steps d'). bound_alike s s'"
proof -
  obtain n where n: "normalizeDefinition d = Inr n" "normalizeDefinition d' = Inr n" using document_fixes(1) [OF x] by blast
  obtain m where m: "m \<in> set (nd_Steps n)" "norm_step s = Inr m" using normal_step [OF n(1) s] by blast
  obtain s' where s': "s' \<in> set (Steps d')" "norm_step s' = Inr m" using normal_step_of [OF n(2) m(1)] by blast
  then show ?thesis using norm_step_alike [OF m(2)] by blast
qed

text \<open>The files and functions: two lists hashed to one have the same names, and one hash for each.\<close>

lemma hashed_alike:
  assumes "map_err g ps = Inr xs" and "map_err g' ps' = Inr xs" and "distinct ps" and p: "p \<in> set ps"
    and g: "\<And>p x. g p = Inr x \<Longrightarrow> fst x = p" and g': "\<And>p x. g' p = Inr x \<Longrightarrow> fst x = p"
  shows "\<exists>v. g p = Inr (p, v) \<and> g' p = Inr (p, v)"
proof -
  have l: "list_all2 (\<lambda>p x. g p = Inr x) ps xs" "list_all2 (\<lambda>p x. g' p = Inr x) ps' xs"
    using assms(1,2) by (simp_all add: map_err_Inr)
  have "list_all2 (\<lambda>p x. p = fst x) ps xs" using l(1) by (rule list_all2_mono) (simp add: g)
  then have "ps = map fst xs" by (simp add: list_all2_conv_all_nth nth_equalityI)
  moreover have "list_all2 (\<lambda>p x. p = fst x) ps' xs" using l(2) by (rule list_all2_mono) (simp add: g')
  then have "ps' = map fst xs" by (simp add: list_all2_conv_all_nth nth_equalityI)
  ultimately have e: "ps = ps'" by simp
  obtain j where "j < length ps" "ps ! j = p" using p by (auto simp: in_set_conv_nth)
  then have "g p = Inr (xs ! j)" "g' p = Inr (xs ! j)" using l e by (auto simp: list_all2_conv_all_nth)
  then show ?thesis using g by (metis prod.collapse)
qed

lemma named_distinct: "distinct (named_by f d)"
  by (simp add: named_by_def)

lemma files_fixed:
  assumes x: "hash_doc dc digest d files functions = Inr x" "hash_doc dc digest d' files' functions' = Inr x"
  shows "p \<in> set (prompts_of d) \<Longrightarrow> \<exists>a b. map_of files p = Some a \<and> map_of files' p = Some b \<and> digest a = digest b"
    "p \<in> set (schemas_of d) \<Longrightarrow> \<exists>a t c b u e. map_of files p = Some a \<and> parseSchema dc a = Inr (t, c) \<and>
      map_of files' p = Some b \<and> parseSchema dc b = Inr (u, e) \<and> digest c = digest e"
    "i \<in> set (functions_of d) \<Longrightarrow> \<exists>f g. map_of functions i = Some f \<and> map_of functions' i = Some g \<and>
      signatureDigest digest f = signatureDigest digest g"
proof -
  note f = document_fixes(2-4) [OF x]
  obtain a b c where abc: "map_err (hash_prompt digest files) (prompts_of d) = Inr a"
      "map_err (hash_schema dc digest files) (schemas_of d) = Inr b" "map_err (hash_function digest functions) (functions_of d) = Inr c"
    using x(1) by (auto simp: hash_doc_def split: sum.splits)
  note abc' = abc [unfolded f]
  have names: "hash_prompt digest fs p = Inr y \<Longrightarrow> fst y = p" "hash_schema dc digest fs p = Inr y \<Longrightarrow> fst y = p"
    "hash_function digest gs p = Inr y \<Longrightarrow> fst y = p" for fs gs p y
    by (auto simp: hash_prompt_def hash_schema_def hash_function_def split: option.splits sum.splits)
  show "\<exists>a b. map_of files p = Some a \<and> map_of files' p = Some b \<and> digest a = digest b" if p: "p \<in> set (prompts_of d)"
  proof -
    have "\<exists>v. hash_prompt digest files p = Inr (p, v) \<and> hash_prompt digest files' p = Inr (p, v)"
      using hashed_alike [OF abc(1) abc'(1) _ p names(1) names(1)] by (simp add: prompts_of_def named_distinct)
    then show ?thesis by (auto simp: hash_prompt_def split: option.splits)
  qed
  show "\<exists>a t c b u e. map_of files p = Some a \<and> parseSchema dc a = Inr (t, c) \<and>
      map_of files' p = Some b \<and> parseSchema dc b = Inr (u, e) \<and> digest c = digest e" if p: "p \<in> set (schemas_of d)"
  proof -
    have "\<exists>v. hash_schema dc digest files p = Inr (p, v) \<and> hash_schema dc digest files' p = Inr (p, v)"
      using hashed_alike [OF abc(2) abc'(2) _ p names(2) names(2)] by (simp add: schemas_of_def named_distinct)
    then show ?thesis by (auto simp: hash_schema_def split: option.splits sum.splits)
  qed
  show "\<exists>f g. map_of functions i = Some f \<and> map_of functions' i = Some g \<and> signatureDigest digest f = signatureDigest digest g"
    if i: "i \<in> set (functions_of d)"
  proof -
    have "\<exists>v. hash_function digest functions i = Inr (i, v) \<and> hash_function digest functions' i = Inr (i, v)"
      using hashed_alike [OF abc(3) abc'(3) _ i names(3) names(3)] by (simp add: functions_of_def named_distinct)
    then show ?thesis by (auto simp: hash_function_def split: option.splits)
  qed
qed

end
