(* ===== verification/Reworded.thy ===== *)
theory Reworded
  imports Reviewed Alike
begin

text \<open>
  The message of an interruption is part of the executable hash, but of no part of the report: a version
  of a definition that only asks something else is reviewed as an executable change without a line.
\<close>

definition reword :: "string \<Rightarrow> string \<Rightarrow> 'a step0_scheme \<Rightarrow> 'a step0_scheme" where
  "reword i text s = (if ID s = i \<and> SKind s = KindInterrupt then s\<lparr>Message := text\<rparr> else s)"

definition reworded :: "string \<Rightarrow> string \<Rightarrow> definition_ \<Rightarrow> definition_" where
  "reworded i text d = d\<lparr>Steps := map (reword i text) (Steps d)\<rparr>"

definition reword_node :: "string \<Rightarrow> string \<Rightarrow> 'a node0_scheme \<Rightarrow> 'a node0_scheme" where
  "reword_node i text n = n\<lparr>nstep := reword i text (nstep n)\<rparr>"

definition reworded_version :: "string \<Rightarrow> string \<Rightarrow> validated \<Rightarrow> validated" where
  "reworded_version i text v = v\<lparr>vdefinition := reworded i text (vdefinition v), vsteps := map (reword_node i text) (vsteps v)\<rparr>"

lemma reword_sel [simp]: "ID (reword i x s) = ID s" "SKind (reword i x s) = SKind s" "Next (reword i x s) = Next s" "Input (reword i x s) = Input s"
  "Function (reword i x s) = Function s" "Capability (reword i x s) = Capability s" "Contract (reword i x s) = Contract s"
  "Connection (reword i x s) = Connection s" "Resource (reword i x s) = Resource s" "ModelPolicy (reword i x s) = ModelPolicy s"
  "Prompt (reword i x s) = Prompt s" "OutputSchema (reword i x s) = OutputSchema s" "Worker (reword i x s) = Worker s"
  "Objective (reword i x s) = Objective s" "Cases (reword i x s) = Cases s" "Default (reword i x s) = Default s"
  "ResponseSchema (reword i x s) = ResponseSchema s" "Over (reword i x s) = Over s" "SMaxItems (reword i x s) = SMaxItems s"
  "MaxParallel (reword i x s) = MaxParallel s" "OnItemFailure (reword i x s) = OnItemFailure s" "MinSucceeded (reword i x s) = MinSucceeded s"
  by (simp_all add: reword_def)

lemma reword_node_sel [simp]: "nstep (reword_node i x n) = reword i x (nstep n)" "nid (reword_node i x n) = nid n" "npath (reword_node i x n) = npath n"
  "nkind (reword_node i x n) = nkind n" "isItem (reword_node i x n) = isItem n" "attempts (reword_node i x n) = attempts n"
  "backoff (reword_node i x n) = backoff n" "fn (reword_node i x n) = fn n" "cap (reword_node i x n) = cap n" "nbudget (reword_node i x n) = nbudget n"
  "ntokens (reword_node i x n) = ntokens n" "item (reword_node i x (m :: node)) = item m"
  by (simp_all add: reword_node_def)

lemma reword_report [simp]: "stepSummary quote (reword_node i x n) = stepSummary quote n" "inputLines quote (reword_node i x n) = inputLines quote n"
  "edges (reword_node i x n) = edges n" "retry_report (reword_node i x n) = retry_report n" "worker_report k (reword_node i x n) = worker_report k n"
  "add_function (reword_node i x n) = add_function n"
  by (simp_all add: Let_def stepSummary_def inputLines_def edges_def retry_report_def worker_report_def add_function_def fun_eq_iff failure_policy_def cong: option.case_cong if_cong)

lemma reword_report_node [simp]: "graph_node quote known_ids (reword_node i x m) = graph_node quote known_ids m"
  "add_capability (reword_node i x m) = add_capability m" "add_resource (reword_node i x m) = add_resource m"
  "worst_tries (reword_node i x m) = worst_tries m" "worst_tokens (reword_node i x m) = worst_tokens m"
  by (simp_all add: graph_node_def add_capability_def add_resource_def resource_key_def worst_tries_def worst_tokens_def fun_eq_iff cong: option.case_cong if_cong)

lemma node_of_reword: "node_of (map (reword_node i x) ns) k = map_option (reword_node i x) (node_of ns k)"
  by (induction ns) (simp_all add: node_of_def)

lemma ordered_reword: "List.map_filter (node_of (map (reword_node i x) ns)) order = map (reword_node i x) (List.map_filter (node_of ns) order)"
  by (induction order) (auto simp: List.map_filter_simps node_of_reword split: option.splits)

lemma fold_map_same: "(\<And>x. f (g x) = f x) \<Longrightarrow> fold f (map g xs) s = fold f xs s"
  by (induction xs arbitrary: s) auto

text \<open>The whole report of a reworded version, but for its hash, is that of the version before.\<close>

lemma reworded_report:
  "buildReport quote digest readme warnings (reworded_version i x v) hash = buildReport quote digest readme warnings v hash"
proof -
  have o: "ordered (reworded_version i x v) = map (reword_node i x) (ordered v)"
    by (simp add: ordered_def reworded_version_def ordered_reword)
  have tries: "worstTries (map (reword_node i x) (vsteps v)) order = worstTries (vsteps v) order" for order
    by (simp add: worstTries_def ordered_reword comp_def)
  have toks: "worstTokens (map (reword_node i x) (vsteps v)) order = worstTokens (vsteps v) order" for order
    by (simp add: worstTokens_def ordered_reword fold_map_same)
  have sel: "vsteps (reworded_version i x v) = map (reword_node i x) (vsteps v)" "vinputs (reworded_version i x v) = vinputs v"
    "voutputs (reworded_version i x v) = voutputs v" "vrunlimits (reworded_version i x v) = vrunlimits v" "vfiles (reworded_version i x v) = vfiles v"
    "vorder (reworded_version i x v) = vorder v" "vdefinition (reworded_version i x v) = reworded i x (vdefinition v)"
    by (simp_all add: reworded_version_def)
  show ?thesis
    by (simp add: buildReport_def Let_def o sel tries toks fold_map_same comp_def reworded_def policy_report_def cong: option.case_cong)
qed

lemma same_sections: "reviewSections r = reviewSections r' \<Longrightarrow> rd_Executable (DiffReports (Some r) r') = []"
proof -
  assume e: "reviewSections r = reviewSections r'"
  have "section_diff (reviewSections r') (j, s) = []" if "(j, s) \<in> set (List.enumerate 0 (reviewSections r'))" for j s
    using that by (cases s) (auto simp: section_diff_def lineDiff_def in_set_enumerate_eq)
  then show ?thesis by (auto simp: DiffReports_def e)
qed

lemma reworded_document:
  assumes "hash_doc dc digest d files functions = Inr doc" and "s \<in> set (Steps d)" and "ID s = i" and "SKind s = KindInterrupt"
    and "Message s \<noteq> x" and "distinct (map ID (Steps d))"
  shows "hash_doc dc digest (reworded i x d) files functions \<noteq> Inr doc"
proof
  assume h: "hash_doc dc digest (reworded i x d) files functions = Inr doc"
  obtain n where n: "normalizeDefinition d = Inr n" "normalizeDefinition (reworded i x d) = Inr n"
    using document_fixes(1) [OF assms(1) h] by blast
  obtain m where m: "m \<in> set (nd_Steps n)" "norm_step s = Inr m" using normal_step [OF n(1) assms(2)] by blast
  obtain s' where s': "s' \<in> set (Steps (reworded i x d))" "norm_step s' = Inr m" using normal_step_of [OF n(2) m(1)] by blast
  then obtain s'' where s'': "s'' \<in> set (Steps d)" "s' = reword i x s''" by (auto simp: reworded_def)
  have alike: "ID s = ID s'" "Message s = Message s'"
    using norm_step_alike [OF m(2) s'(2)] by (simp_all add: bound_alike_def fields_alike_def)
  have "s'' = s" using assms(2,6) s'' alike(1) by (auto simp: distinct_map inj_on_def)
  then have "Message s' = x" using assms(3,4) s''(2) by (simp add: reword_def)
  then show False using assms(5) alike(2) by simp
qed

lemma same_authority_diff: "wf_authority ops \<Longrightarrow> authorityDiff ops ops = []"
  by (simp add: authority_diff_iff)

lemma reported_authority: "rep_Authority (buildReport quote digest readme warnings v hash) =
    (case Authority (vdefinition v) of Some ops \<Rightarrow> map authority_of ops | None \<Rightarrow> [])"
  by (simp add: buildReport_def Let_def)

lemma wf_reported_authority:
  assumes "run h d = Some ([], v)"
  shows "wf_authority (rep_Authority (buildReport quote digest readme warnings v hash))"
  using accepted_authority [OF assms] run_authority [OF assms]
  by (cases "Authority d") (auto simp: reported_authority wf_authority_def)

lemma outside_allows:
  assumes "wf_authority ops"
  shows "AuthorityOutside ops access = [] \<longleftrightarrow> (\<forall>op \<in> set ops. \<forall>r \<in> set (au_Resources op). Allows access (au_Connection op) r)"
proof -
  have "(\<exists>conn. access_connection access (au_Connection op) = Some conn \<and> (\<forall>r \<in> set (au_Resources op). allows conn r)) \<longleftrightarrow>
      (\<forall>r \<in> set (au_Resources op). Allows access (au_Connection op) r)" if "op \<in> set ops" for op
  proof -
    have "au_Resources op \<noteq> []" using that assms by (simp add: wf_authority_def wf_operation_def)
    then show ?thesis
      by (cases "access_connection access (au_Connection op)"; cases "au_Resources op") (auto simp: Allows_def)
  qed
  then show ?thesis by (simp add: outside_none)
qed

end
