(* ===== verification/Loading.thy ===== *)
theory Loading
  imports Yaml Normal
begin

text \<open>
  \<^verbatim>\<open>Validate\<close> (validate.go) from the file to the result: reading and parsing workflow.yaml, the checks
  of \<open>run\<close>, the executable hash, and the review report with the warnings of an accepted definition.
\<close>

section \<open>Warnings\<close>

text \<open>
  The warnings of an accepted definition, in the order the checks append them. The source marks the
  inputs it finds used while it resolves references; once resolution has succeeded, those are the
  inputs named by the references of the compiled steps.
\<close>

definition ref_type :: "validated \<Rightarrow> ref \<Rightarrow> ty option" where
  "ref_type v r = (let base = (if Root r = refInputs then map_option itype (map_of (vinputs v) (RName r))
       else case node_of (vsteps v) (RName r) of Some n \<Rightarrow> (case noutput n of Some t \<Rightarrow> Some t | None \<Rightarrow> Some AnyType) | None \<Rightarrow> None)
     in case walkType base (Path r) of Inr t \<Rightarrow> t | Inl e \<Rightarrow> None)"

definition over_warning :: "quoter \<Rightarrow> validated \<Rightarrow> node \<Rightarrow> string list" where
  "over_warning quote v n = (case over n of None \<Rightarrow> [] | Some r \<Rightarrow>
     if nkind n = KindMap \<and> 1 \<le> SMaxItems (nstep n) \<and> SMaxItems (nstep n) \<le> maxMapItems \<and> Option.bind (ref_type v r) MaxItems = None
     then [errText quote (Errf ''%s.over: the list's type does not bound its length; a list longer than max_items %d fails the step''
       [S (npath n), I (SMaxItems (nstep n))])] else [])"

definition intents_warning :: "quoter \<Rightarrow> node list \<Rightarrow> nat \<Rightarrow> operation \<Rightarrow> string list" where
  "intents_warning quote ns i op = (
     if 0 < o_MaxCallsPerRun op \<and> int (length (calls_of ns op)) \<le> o_MaxCallsPerRun op \<and> o_MaxCallsPerRun op < intents_of ns op
     then [errText quote (Errf ''%s: with retries its steps may send up to %d Effect Intents of %s on %s, but max_calls_per_run %d refuses each one past it before the provider is called''
       [S (''authority.operations['' @ itoa (int i) @ '']''), I (intents_of ns op), S (o_Capability op), S (o_Connection op), I (o_MaxCallsPerRun op)])]
     else [])"

definition input_refs :: "ref list \<Rightarrow> string list" where
  "input_refs rs = map RName (filter (\<lambda>r. Root r = refInputs) rs)"

definition arg_refs :: "'a node0_scheme \<Rightarrow> ref list" where
  "arg_refs n = List.map_filter (\<lambda>(name, a). ARef a) (args n)"

definition node_refs :: "node \<Rightarrow> ref list" where
  "node_refs n = arg_refs n @ (case over n of Some r \<Rightarrow> [r] | None \<Rightarrow> []) @
     (case item n of Some m \<Rightarrow> arg_refs m | None \<Rightarrow> []) @ List.map_filter cref (cases n)"

definition usedInputs :: "validated \<Rightarrow> string list" where
  "usedInputs v = input_refs (concat (map node_refs (vsteps v))) @
     (case RunKey (vdefinition v) of Some names \<Rightarrow> names | None \<Rightarrow> []) @ input_refs (map oref (voutputs v))"

definition checkUsage :: "quoter \<Rightarrow> string list \<Rightarrow> validated \<Rightarrow> string list" where
  "checkUsage quote used_policies v = (let tokens = worstTokens (vsteps v) (vorder v); tries = worstTries (vsteps v) (vorder v) in
     concat (map (\<lambda>name. if name \<in> set used_policies then [] else [''model_policies.'' @ name @ '': no step uses it''])
       (sortedKeys (ModelPolicies (vdefinition v)))) @
     concat (map (\<lambda>name. if name \<in> set (usedInputs v) then [] else [''inputs.'' @ name @ '': no step, run key or output uses it''])
       (sortedKeys (vinputs v))) @
     (if tokenLimit (vrunlimits v) < tokens then
        [''worst-case agent tokens '' @ grouped tokens @ '' exceed limits.max_tokens '' @ grouped (tokenLimit (vrunlimits v)) @ ''; a run stops at the limit'']
      else []) @
     (if maxAttempts (vrunlimits v) < tries then
        [''worst-case attempts '' @ itoa tries @ '' exceed limits.max_attempts '' @ itoa (maxAttempts (vrunlimits v)) @ ''; a run stops at the limit'']
      else []))"

definition warnings_of :: "quoter \<Rightarrow> string list \<Rightarrow> validated \<Rightarrow> string list" where
  "warnings_of quote used_policies v =
     concat (map (over_warning quote v) (ordered v)) @
     (case Authority (vdefinition v) of None \<Rightarrow> []
      | Some ops \<Rightarrow> concat (map (\<lambda>(i, op). intents_warning quote (vsteps v) i op) (List.enumerate 0 ops))) @
     checkUsage quote used_policies v"

section \<open>Validate\<close>

text \<open>
  \<open>Unhashed\<close> is the error of the hash, which is not one of the definition's problems. \<open>quote\<close> is
  \<^verbatim>\<open>strconv.Quote\<close> and \<open>digest\<close> is SHA-256 in hexadecimal.
\<close>

datatype validation = Misconfigured | Invalid "problem list" | Unhashed errmsg | Valid validated string report

definition readme_of :: "host \<Rightarrow> string option" where
  "readme_of h = (case h_source h ''README.md'' of ReadOk data \<Rightarrow> Some data | _ \<Rightarrow> None)"

definition policies_used :: "host \<Rightarrow> definition_ \<Rightarrow> string list" where
  "policies_used h d = (case collectSteps (validator_of h d) of (ns, ps, ld) \<Rightarrow> usedPolicies ld)"

definition Validate :: "yamlDecoder \<Rightarrow> quoter \<Rightarrow> (string \<Rightarrow> string) \<Rightarrow> host \<Rightarrow> validation option" where
  "Validate dec quote digest h = (
     if WDeadline (h_env h) \<le> 0 \<or> WTokens (h_env h) \<le> 0 then Some Misconfigured
     else (case h_source h workflow_file of
       ReadNotExist \<Rightarrow> Some (Invalid (prob workflow_file ''not found'' []))
     | ReadErr msg \<Rightarrow> Some (Invalid (prob workflow_file ''%s'' [S msg]))
     | ReadOk data \<Rightarrow> (case parseDefinition dec data of
         Inl ps \<Rightarrow> Some (Invalid ps)
       | Inr d \<Rightarrow> (case run h d of
           None \<Rightarrow> None
         | Some (p # ps, v) \<Rightarrow> Some (Invalid (p # ps))
         | Some ([], v) \<Rightarrow> (case executableHash (h_decode h) digest d (vfiles v) (h_registry h) of
             Inl e \<Rightarrow> Some (Unhashed e)
           | Inr hash \<Rightarrow> Some (Valid v hash
               (buildReport quote digest (readme_of h) (warnings_of quote (policies_used h d) v) v hash)))))))"

lemma Validate_valid:
  "Validate dec quote digest h = Some (Valid v hash r) \<longleftrightarrow> 0 < WDeadline (h_env h) \<and> 0 < WTokens (h_env h) \<and>
    (\<exists>data d. h_source h workflow_file = ReadOk data \<and> parseDefinition dec data = Inr d \<and> run h d = Some ([], v) \<and>
      executableHash (h_decode h) digest d (vfiles v) (h_registry h) = Inr hash \<and>
      r = buildReport quote digest (readme_of h) (warnings_of quote (policies_used h d) v) v hash)"
  by (auto simp: Validate_def split: read.splits sum.splits option.splits prod.splits list.splits)

end
