(* ===== verification/Loaded.thy ===== *)
theory Loaded
  imports Yaml Reviewed
begin

text \<open>
  What \<^verbatim>\<open>parseDefinition\<close> accepts, stated apart from the code (yaml.go): documents without
  structure or values that can be read in two ways, with the fields of the schema only; every
  value such a document holds can be read; and what each step wrote reaches validation.
\<close>

section \<open>Plain scalars\<close>

lemma plain_digits_text:
  assumes "list_all is_digit s" and "s \<noteq> []" and "hd s \<noteq> CHR ''0''"
  shows "s = nat_text (digits_val s) \<and> 0 < digits_val s"
  using assms
proof (induction s rule: rev_induct)
  case (snoc c s)
  have c: "is_digit c" using snoc.prems by simp
  then have lo: "48 \<le> (of_char c :: nat)" and hi: "(of_char c :: nat) \<le> 57" by (simp_all add: is_digit_def)
  then have d: "digit_val c < 10" "char_of (48 + digit_val c) = c" by (simp_all add: digit_val_def)
  show ?case
  proof (cases "s = []")
    case True
    then have "c \<noteq> CHR ''0''" using snoc.prems by simp
    then have "(of_char c :: nat) \<noteq> of_char (CHR ''0'')" by (simp only: of_char_eq_iff) simp
    then have "0 < digit_val c" using lo by (simp add: digit_val_def)
    then show ?thesis using True d by (subst nat_text.simps) (simp add: digits_val_def)
  next
    case False
    then have s: "s = nat_text (digits_val s)" "0 < digits_val s" using snoc by auto
    have n: "digits_val (s @ [c]) = 10 * digits_val s + digit_val c" by (rule digits_val_snoc)
    have "nat_text (digits_val (s @ [c])) = s @ [c]"
      by (subst nat_text.simps) (use s n d in simp)
    then show ?thesis using s(2) n by simp
  qed
qed simp

lemma nat_text_0: "nat_text 0 = ''0''"
  by (subst nat_text.simps) (simp add: char_of_digits)

lemma nat_text_lead: "0 < n \<Longrightarrow> hd (nat_text n) \<noteq> CHR ''0''"
proof (induction n rule: nat_text.induct)
  case (1 n)
  show ?case
  proof (cases "n < 10")
    case True
    have "char_of (48 + n) \<noteq> CHR ''0''"
    proof
      assume "char_of (48 + n) = CHR ''0''"
      then have "of_char (char_of (48 + n) :: char) = (of_char (CHR ''0'') :: nat)" by (rule arg_cong)
      with True 1(2) show False by (simp add: of_char_of)
    qed
    then show ?thesis using True by (subst nat_text.simps) simp
  next
    case False
    then show ?thesis using 1 by (subst nat_text.simps) simp
  qed
qed

lemma natural_text_iff: "natural_text s \<longleftrightarrow> (\<exists>n. s = nat_text n)"
proof
  show "\<exists>n. s = nat_text n" if "natural_text s"
  proof (cases "s = ''0''")
    case False
    then have "hd s \<noteq> CHR ''0''" using that by (cases s) (auto simp: natural_text_def is_digit_def)
    then show ?thesis using that plain_digits_text [of s] unfolding natural_text_def by metis
  qed (use nat_text_0 in metis)
  show "natural_text s" if "\<exists>n. s = nat_text n"
  proof -
    from that obtain n where "s = nat_text n" ..
    then show ?thesis using nat_text_lead [of n] nat_text_0 by (cases "n = 0") (auto simp: natural_text_def is_digit_def)
  qed
qed

lemma strip_minus_nat [simp]: "strip_minus (nat_text n) = nat_text n"
  using nat_text_hd [of n] by (cases "nat_text n") (auto simp: strip_minus_def)

lemma strip_minus_minus [simp]: "strip_minus (CHR ''-'' # s) = s"
  by (simp add: strip_minus_def)

lemma strip_minus_cases: "strip_minus s = t \<Longrightarrow> s = t \<or> s = CHR ''-'' # t"
  by (cases s) (auto simp: strip_minus_def split: if_splits)

text \<open>An integer in plain decimal within range is the text of a number, or minus zero.\<close>

lemma plain_integer_iff:
  "plainInteger s \<and> atoi s \<noteq> None \<longleftrightarrow> s = ''-0'' \<or> (\<exists>i. in_int64 i \<and> s = itoa i)"
proof
  assume s: "plainInteger s \<and> atoi s \<noteq> None"
  then obtain n where "strip_minus s = nat_text n" by (auto simp: plainInteger_def integerText_def natural_text_iff)
  from strip_minus_cases [OF this] show "s = ''-0'' \<or> (\<exists>i. in_int64 i \<and> s = itoa i)"
  proof
    assume n: "s = nat_text n"
    then have "s = itoa (int n)" by (simp add: itoa_def)
    moreover obtain c u where "nat_text n = c # u" using nat_text_nonempty [of n] by (cases "nat_text n") auto
    then have "in_int64 (int n)"
      using s n nat_text_hd [of n c u] parse_nat_text [of n] by (auto simp: range_checked_def split: if_splits)
    ultimately show ?thesis by blast
  next
    assume n: "s = CHR ''-'' # nat_text n"
    show ?thesis
    proof (cases "n = 0")
      case False
      then have "s = itoa (- int n)" using n by (simp add: itoa_def)
      moreover have "in_int64 (- int n)" using s n by (auto simp: range_checked_def split: if_splits)
      ultimately show ?thesis by blast
    qed (use n nat_text_0 in simp)
  qed
next
  assume "s = ''-0'' \<or> (\<exists>i. in_int64 i \<and> s = itoa i)"
  then show "plainInteger s \<and> atoi s \<noteq> None"
  proof
    assume "s = ''-0''"
    then have "s = CHR ''-'' # nat_text 0" by (simp add: nat_text_0)
    then show ?thesis by (auto simp: plainInteger_def integerText_def natural_text_iff range_checked_def in_int64_def min_int64_def max_int64_def)
  next
    assume "\<exists>i. in_int64 i \<and> s = itoa i"
    then show ?thesis using atoi_itoa by (auto simp: plainInteger_def integerText_def natural_text_iff) (auto simp: itoa_def)
  qed
qed

lemma split_clean: "d \<notin> set a \<Longrightarrow> split_at d a = [a]"
  by (induction a) auto

lemma split_clean_append: "d \<notin> set a \<Longrightarrow> split_at d (a @ d # b) = a # split_at d b"
  by (induction a) auto

lemma split_heads: "split_at d s = w # ws \<Longrightarrow> d \<notin> set w \<and> (ws = [] \<longrightarrow> s = w) \<and> (ws \<noteq> [] \<longrightarrow> (\<exists>u. s = w @ d # u \<and> split_at d u = ws))"
proof (induction s arbitrary: w ws)
  case (Cons c s)
  obtain v vs where v: "split_at d s = v # vs" by (cases "split_at d s") (auto elim: split_at.elims split: list.splits if_splits)
  show ?case using Cons.prems Cons.IH [OF v] v by (cases "c = d") auto
qed auto

lemma split_two: "split_at d s = [a, b] \<longleftrightarrow> s = a @ d # b \<and> d \<notin> set a \<and> d \<notin> set b"
proof
  assume "split_at d s = [a, b]"
  from split_heads [OF this] obtain u where u: "d \<notin> set a" "s = a @ d # u" "split_at d u = [b]" by auto
  from split_heads [OF u(3)] u show "s = a @ d # b \<and> d \<notin> set a \<and> d \<notin> set b" by simp
qed (simp add: split_clean_append split_clean)

text \<open>A sign, a whole number without leading zeros, a point, and digits.\<close>

definition decimal_text :: "string \<Rightarrow> bool" where
  "decimal_text s \<longleftrightarrow> (\<exists>sign n fraction. s = sign @ nat_text n @ ''.'' @ fraction \<and> sign \<in> {[], ''-''} \<and>
     fraction \<noteq> [] \<and> list_all is_digit fraction)"

lemma no_point: "list_all is_digit s \<Longrightarrow> CHR ''.'' \<notin> set s"
  by (auto simp: list_all_iff is_digit_def)

lemma plain_decimal_iff: "plainDecimal s \<longleftrightarrow> decimal_text s"
proof
  assume "plainDecimal s"
  then obtain w f where w: "split_at (CHR ''.'') (strip_minus s) = [w, f]" "natural_text w" "f \<noteq> []" "list_all is_digit f"
    by (auto simp: plainDecimal_def split: list.splits)
  then obtain n where "w = nat_text n" by (auto simp: natural_text_iff)
  with w have "strip_minus s = nat_text n @ ''.'' @ f" by (simp add: split_two)
  from strip_minus_cases [OF this] obtain sign where "s = sign @ nat_text n @ ''.'' @ f" "sign \<in> {[], ''-''}" by fastforce
  then show "decimal_text s" using w(3,4) unfolding decimal_text_def by blast
next
  assume "decimal_text s"
  then obtain sign n f where s: "s = sign @ nat_text n @ ''.'' @ f" "sign \<in> {[], ''-''}" "f \<noteq> []" "list_all is_digit f"
    by (auto simp: decimal_text_def)
  have "strip_minus s = nat_text n @ CHR ''.'' # f"
    using s nat_text_hd [of n] nat_text_nonempty [of n] by (cases "nat_text n") (auto simp: strip_minus_def)
  then have "split_at (CHR ''.'') (strip_minus s) = [nat_text n, f]"
    using s no_point [OF nat_text_digits] no_point [of f] by (simp add: split_two)
  then show "plainDecimal s" using s by (auto simp: plainDecimal_def natural_text_iff)
qed

section \<open>Plain documents\<close>

text \<open>
  The accepted subset, as the comment of yaml.go describes it: a quoted scalar is text; a bare one is
  a boolean, an integer, a decimal or unambiguous text in its one plain spelling. No anchor, alias,
  explicit tag or merge key, and the keys of a mapping are distinct texts.
\<close>

definition plain_scalar :: "rawNode \<Rightarrow> bool" where
  "plain_scalar n \<longleftrightarrow> yn_Style n \<noteq> 0 \<or> (yn_ShortTag n, yn_Value n) \<in>
     {(''!!bool'', ''true''), (''!!bool'', ''false''), (''!!int'', ''-0'')} \<union> {(''!!int'', itoa i) |i. in_int64 i} \<union>
     {(''!!float'', s) |s. decimal_text s} \<union> {(''!!str'', s) |s. toLower s \<notin> set ambiguousWords}"

inductive plain_node :: "rawNode \<Rightarrow> bool" where
  document: "\<lbrakk>yn_Kind n = DocumentNode; yn_Anchor n = []; \<forall>c \<in> set (yn_Content n). plain_node c\<rbrakk> \<Longrightarrow> plain_node n"
| sequence: "\<lbrakk>yn_Kind n = SequenceNode; yn_Anchor n = []; \<not> tagged n; \<forall>c \<in> set (yn_Content n). plain_node c\<rbrakk> \<Longrightarrow> plain_node n"
| scalar: "\<lbrakk>yn_Kind n = ScalarNode; yn_Anchor n = []; \<not> tagged n; plain_scalar n\<rbrakk> \<Longrightarrow> plain_node n"
| mapping: "\<lbrakk>yn_Kind n = MappingNode; yn_Anchor n = []; \<not> tagged n; distinct (map (yn_Value \<circ> fst) (entries_of (yn_Content n)));
    \<forall>(k, v) \<in> set (entries_of (yn_Content n)). text_key k \<and> \<not> merge_key k \<and> plain_node k \<and> plain_node v\<rbrakk> \<Longrightarrow> plain_node n"
| unwritten: "\<lbrakk>yn_Kind n = ZeroNode; yn_Anchor n = []; \<not> tagged n\<rbrakk> \<Longrightarrow> plain_node n"

inductive_simps plain_node_simps: "plain_node n"

lemma line_prob_neq [simp]: "line_prob p l f xs \<noteq> []"
  by (simp add: line_prob_def)

lemma check_scalar_iff: "check_scalar n = [] \<longleftrightarrow> plain_scalar n"
  using plain_integer_iff [of "yn_Value n"]
  by (auto simp: check_scalar_def plain_scalar_def Let_def plain_decimal_iff)

lemma check_key_iff:
  "fst (check_key seen k) = [] \<longleftrightarrow> text_key k \<and> map_of seen (yn_Value k) = None"
  "fst (check_key seen k) = [] \<Longrightarrow> snd (check_key seen k) = put (yn_Value k) (yn_Line k) seen"
  by (auto simp: check_key_def split: option.splits)

lemma check_entries_iff:
  assumes "\<And>k v. (k, v) \<in> set (entries_of xs) \<Longrightarrow> (checkNodes k = [] \<longleftrightarrow> P k) \<and> (checkNodes v = [] \<longleftrightarrow> P v)"
  shows "check_entries seen xs = [] \<longleftrightarrow>
    distinct (map (yn_Value \<circ> fst) (entries_of xs)) \<and> (\<forall>(k, v) \<in> set (entries_of xs). map_of seen (yn_Value k) = None) \<and>
    (\<forall>(k, v) \<in> set (entries_of xs). text_key k \<and> \<not> merge_key k \<and> P k \<and> P v)"
  using assms
proof (induction xs arbitrary: seen rule: entries_of.induct)
  case (1 k v rest)
  have kv: "(checkNodes k = [] \<longleftrightarrow> P k) \<and> (checkNodes v = [] \<longleftrightarrow> P v)" by (rule "1.prems") simp
  have ih: "check_entries seen' rest = [] \<longleftrightarrow>
    distinct (map (yn_Value \<circ> fst) (entries_of rest)) \<and> (\<forall>(k, v) \<in> set (entries_of rest). map_of seen' (yn_Value k) = None) \<and>
    (\<forall>(k, v) \<in> set (entries_of rest). text_key k \<and> \<not> merge_key k \<and> P k \<and> P v)" for seen'
    by (rule "1.IH", rule "1.prems") simp
  show ?case
  proof (cases "merge_key k \<or> fst (check_key seen k) \<noteq> []")
    case True
    then show ?thesis using check_key_iff(1) [of seen k] by (auto split: prod.splits)
  next
    case False
    then have "text_key k" "map_of seen (yn_Value k) = None" "\<not> merge_key k"
      and s: "check_key seen k = ([], put (yn_Value k) (yn_Line k) seen)"
      using check_key_iff [of seen k] by (auto intro: prod_eqI)
    note k = this
    let ?seen = "put (yn_Value k) (yn_Line k) seen"
    have "check_entries seen (k # v # rest) = [] \<longleftrightarrow> P k \<and> P v \<and> check_entries ?seen rest = []"
      using k(3) kv by (simp add: s)
    moreover have "(\<forall>(k', v') \<in> set (entries_of rest). map_of ?seen (yn_Value k') = None) \<longleftrightarrow>
      yn_Value k \<notin> set (map (yn_Value \<circ> fst) (entries_of rest)) \<and> (\<forall>(k', v') \<in> set (entries_of rest). map_of seen (yn_Value k') = None)"
      by (force simp: put_lookup split: if_splits)
    ultimately show ?thesis
      unfolding ih [of ?seen] entries_of.simps list.map distinct.simps list.set ball_simps(7) prod.case o_apply fst_conv
      using k by blast
  qed
qed auto

theorem checkNodes_iff: "checkNodes n = [] \<longleftrightarrow> plain_node n"
proof (induction n rule: measure_induct_rule [of size])
  case (less n)
  have content: "c \<in> set (yn_Content n) \<Longrightarrow> checkNodes c = [] \<longleftrightarrow> plain_node c" for c
    using less content_size by blast
  have es: "check_entries [] (yn_Content n) = [] \<longleftrightarrow> distinct (map (yn_Value \<circ> fst) (entries_of (yn_Content n))) \<and>
      (\<forall>(k, v) \<in> set (entries_of (yn_Content n)). text_key k \<and> \<not> merge_key k \<and> plain_node k \<and> plain_node v)"
    using check_entries_iff [of "yn_Content n" plain_node "[]"] less entry_size by simp
  show ?case
    by (subst plain_node_simps, subst checkNodes.simps)
      (cases "yn_Kind n", auto simp: Let_def es check_scalar_iff content)
qed

section \<open>The closed schema\<close>

text \<open>A tree of a Go type: a struct holds only fields of its own, each of the field's type.\<close>

inductive has_type :: "rawNode \<Rightarrow> goType \<Rightarrow> bool" where
  any_node: "has_type n TNode"
| pointer: "has_type n t \<Longrightarrow> has_type n (TPointer t)"
| struct: "\<lbrakk>yn_Kind n = MappingNode;
    \<forall>(k, v) \<in> set (entries_of (yn_Content n)). \<exists>t. (yn_Value k, t) \<in> set (struct_fields s) \<and> has_type v t\<rbrakk>
    \<Longrightarrow> has_type n (TStruct s)"
| map_of_any: "\<lbrakk>yn_Kind n = MappingNode; \<forall>(k, v) \<in> set (entries_of (yn_Content n)). has_type v t\<rbrakk> \<Longrightarrow> has_type n (TMap t)"
| slice: "\<lbrakk>yn_Kind n = SequenceNode; \<forall>c \<in> set (yn_Content n). has_type c t\<rbrakk> \<Longrightarrow> has_type n (TSlice t)"
| string_scalar: "scalar_of [''!!str''] n \<Longrightarrow> has_type n TString"
| bool_scalar: "scalar_of [''!!bool''] n \<Longrightarrow> has_type n TBool"
| int_scalar: "scalar_of [''!!int''] n \<Longrightarrow> has_type n TInt"
| float_scalar: "scalar_of [''!!int'', ''!!float''] n \<Longrightarrow> has_type n TFloat"

inductive_simps has_type_simps [simp]: "has_type n TNode" "has_type n (TPointer t)" "has_type n (TStruct s)" "has_type n (TMap t)"
  "has_type n (TSlice t)" "has_type n TString" "has_type n TBool" "has_type n TInt" "has_type n TFloat"

lemma struct_fields_distinct: "distinct (map fst (struct_fields s))"
  by (cases s) simp_all

lemma struct_field: "map_of (struct_fields s) k = Some t \<longleftrightarrow> (k, t) \<in> set (struct_fields s)"
  by (rule map_of_eq_Some_iff [OF struct_fields_distinct])

lemma has_type_strip: "has_type n (strip_pointers t) = has_type n t"
  by (induction t) simp_all

lemma enumerate_all: "(\<forall>(i, c) \<in> set (List.enumerate k xs). P c) \<longleftrightarrow> (\<forall>c \<in> set xs. P c)"
  by (induction xs arbitrary: k) auto

lemma typeCheck_iff: "typeCheck n t path = [] \<longleftrightarrow> has_type n t"
proof (induction n arbitrary: t path rule: measure_induct_rule [of size])
  case (less n)
  have entry: "(k, v) \<in> set (entries_of (yn_Content n)) \<Longrightarrow> typeCheck v t' p = [] \<longleftrightarrow> has_type v t'" for k v t' p
    using less entry_size by blast
  have child: "c \<in> set (yn_Content n) \<Longrightarrow> typeCheck c t' p = [] \<longleftrightarrow> has_type c t'" for c t' p
    using less content_size by blast
  have "typeCheck n t path = [] \<longleftrightarrow> has_type n (strip_pointers t)"
  proof (cases "strip_pointers t")
    case (TStruct s)
    let ?f = "\<lambda>(k, v). case map_of (struct_fields s) (yn_Value k) of
        None \<Rightarrow> line_prob (if path = [] then workflow_file else path) (yn_Line k) ''field %s not found; the schema is closed'' [S (yn_Value k)]
      | Some ft \<Rightarrow> typeCheck v ft (joinPath path (yn_Value k))"
    have "?f (k, v) = [] \<longleftrightarrow> (\<exists>t. (yn_Value k, t) \<in> set (struct_fields s) \<and> has_type v t)"
      if "(k, v) \<in> set (entries_of (yn_Content n))" for k v
      using entry [OF that] by (auto simp: struct_field [symmetric] split: option.splits)
    then have "(\<forall>x \<in> set (entries_of (yn_Content n)). ?f x = []) \<longleftrightarrow>
        (\<forall>(k, v) \<in> set (entries_of (yn_Content n)). \<exists>t. (yn_Value k, t) \<in> set (struct_fields s) \<and> has_type v t)"
      by (intro ball_cong refl) blast
    moreover have "typeCheck n t path = [] \<longleftrightarrow> yn_Kind n = MappingNode \<and> (\<forall>x \<in> set (entries_of (yn_Content n)). ?f x = [])"
      using TStruct by (subst typeCheck.simps) (simp add: Let_def)
    ultimately show ?thesis using TStruct by simp
  next
    case (TMap e)
    then show ?thesis using entry by (auto simp: typeCheck.simps [of n t path] Let_def)
  next
    case (TSlice e)
    have "(\<forall>x \<in> set (List.enumerate 0 (yn_Content n)). (case x of (i, c) \<Rightarrow> typeCheck c e (q i c)) = []) \<longleftrightarrow>
        (\<forall>(i, c) \<in> set (List.enumerate 0 (yn_Content n)). has_type c e)" for q :: "nat \<Rightarrow> rawNode \<Rightarrow> string"
      using child by (fastforce simp: in_set_enumerate_eq)
    then show ?thesis using TSlice enumerate_all [of 0 "yn_Content n" "\<lambda>c. has_type c e"]
      by (simp add: typeCheck.simps [of n t path] Let_def)
  next
    case (TPointer u)
    moreover have "strip_pointers t \<noteq> TPointer u" by (induction t) simp_all
    ultimately show ?thesis by simp
  qed (simp_all add: typeCheck.simps [of n t path] Let_def)
  then show ?case by (simp add: has_type_strip)
qed

section \<open>The values of a document\<close>

text \<open>
  What the YAML library promises of the nodes it decodes, besides their shape: a quoted scalar's short
  tag is text's, and a scalar has a float's tag only when its text reads as a float.
\<close>

inductive resolved :: "rawNode \<Rightarrow> bool" where
  aliased: "yn_Kind n = AliasNode \<Longrightarrow> resolved n"
| scalar: "\<lbrakk>yn_Kind n = ScalarNode; yn_Style n \<noteq> 0 \<Longrightarrow> tagged n \<or> yn_ShortTag n = ''!!str'';
    yn_ShortTag n = ''!!float'' \<Longrightarrow> parse_float (yn_Value n) \<noteq> None\<rbrakk> \<Longrightarrow> resolved n"
| sequence: "\<lbrakk>yn_Kind n = SequenceNode; \<forall>c \<in> set (yn_Content n). resolved c\<rbrakk> \<Longrightarrow> resolved n"
| mapping: "\<lbrakk>yn_Kind n = MappingNode; \<forall>(k, v) \<in> set (entries_of (yn_Content n)). resolved v\<rbrakk> \<Longrightarrow> resolved n"

inductive_simps resolved_simps: "resolved n"

text \<open>The one value a plain document writes.\<close>

inductive means :: "rawNode \<Rightarrow> val \<Rightarrow> bool" where
  m_text: "\<lbrakk>scalar_of [''!!str''] n\<rbrakk> \<Longrightarrow> means n (VStr (yn_Value n))"
| m_true: "\<lbrakk>scalar_of [''!!bool''] n; yn_Value n = ''true''\<rbrakk> \<Longrightarrow> means n (VBool True)"
| m_false: "\<lbrakk>scalar_of [''!!bool''] n; yn_Value n = ''false''\<rbrakk> \<Longrightarrow> means n (VBool False)"
| m_int: "\<lbrakk>scalar_of [''!!int''] n; yn_Value n = itoa i\<rbrakk> \<Longrightarrow> means n (VInt i)"
| m_minus_zero: "\<lbrakk>scalar_of [''!!int''] n; yn_Value n = ''-0''\<rbrakk> \<Longrightarrow> means n (VInt 0)"
| m_float: "\<lbrakk>scalar_of [''!!float''] n; decimal_text (yn_Value n); parse_float (yn_Value n) = Some x\<rbrakk> \<Longrightarrow> means n (VFloat x)"
| m_list: "\<lbrakk>yn_Kind n = SequenceNode; list_all2 means (yn_Content n) vs\<rbrakk> \<Longrightarrow> means n (VList vs)"
| m_object: "\<lbrakk>yn_Kind n = MappingNode; list_all2 (\<lambda>p kv. fst kv = yn_Value (fst p) \<and> means (snd p) (snd kv)) (entries_of (yn_Content n)) m;
    distinct (map fst m)\<rbrakk> \<Longrightarrow> means n (VObj m)"

lemma fold_put_distinct: "distinct (map fst (m @ kvs)) \<Longrightarrow> fold (\<lambda>(k, v) out. put k v out) kvs m = m @ kvs"
proof (induction kvs arbitrary: m)
  case (Cons p kvs)
  obtain k v where p: "p = (k, v)" by (cases p)
  then have "map_of m k = None" using Cons.prems by (auto simp: map_of_eq_None_iff)
  then show ?case using Cons by (simp add: p put_new)
qed simp

lemma scalar_means:
  assumes "yn_Kind n = ScalarNode" and "plain_node n" and "resolved n"
  shows "\<exists>v. scalarValue (yn_ShortTag n) (yn_Value n) (yn_Line n) = Inr v \<and> means n v"
proof (cases "yn_ShortTag n = ''!!str''")
  case True
  then show ?thesis using assms(1) by (auto simp: scalarValue_def scalar_of_def intro: m_text)
next
  case False
  have n: "\<not> tagged n" "plain_scalar n" using assms(1,2) by (auto simp: plain_node_simps [of n])
  have r: "yn_Style n = 0" "yn_ShortTag n = ''!!float'' \<Longrightarrow> parse_float (yn_Value n) \<noteq> None"
    using assms(1,3) False n(1) by (auto simp: resolved_simps [of n])
  then consider (b) "yn_ShortTag n = ''!!bool''" "yn_Value n = ''true'' \<or> yn_Value n = ''false''"
    | (z) "yn_ShortTag n = ''!!int''" "yn_Value n = ''-0''"
    | (i) i where "yn_ShortTag n = ''!!int''" "in_int64 i" "yn_Value n = itoa i"
    | (f) "yn_ShortTag n = ''!!float''" "decimal_text (yn_Value n)"
    using n(2) False unfolding plain_scalar_def by auto
  then show ?thesis
  proof cases
    case b
    then show ?thesis using assms(1) m_true [of n] m_false [of n] by (auto simp: scalarValue_def scalar_of_def)
  next
    case z
    have "atoi ''-0'' = Some 0" by code_simp
    then show ?thesis using z assms(1) by (auto simp: scalarValue_def scalar_of_def intro: m_minus_zero)
  next
    case i
    then show ?thesis using assms(1) atoi_itoa [of i] by (auto simp: scalarValue_def scalar_of_def intro: m_int)
  next
    case f
    then show ?thesis using assms(1) r(2) m_float [of n] by (auto simp: scalarValue_def scalar_of_def)
  qed
qed

lemma list_all2_choose:
  assumes "\<And>x. x \<in> set xs \<Longrightarrow> \<exists>y. P x y"
  shows "\<exists>ys. list_all2 P xs ys"
proof -
  from assms obtain f where "\<And>x. x \<in> set xs \<Longrightarrow> P x (f x)" by metis
  then have "list_all2 P xs (map f xs)" by (simp add: list_all2_map2 list.rel_refl_strong)
  then show ?thesis ..
qed

lemma nodeValue_means: "plain_node n \<Longrightarrow> resolved n \<Longrightarrow> \<exists>v. nodeValue (ynode_of n) = Inr v \<and> means n v"
proof (induction n rule: measure_induct_rule [of size])
  case (less n)
  from less.prems(2) show ?case
  proof cases
    case aliased
    then show ?thesis using less.prems(1) by (simp add: plain_node_simps [of n])
  next
    case scalar
    then show ?thesis using scalar_means less.prems by (simp add: ynode_of.simps [of n])
  next
    case sequence
    have "\<exists>v. nodeValue (ynode_of c) = Inr v \<and> means c v" if "c \<in> set (yn_Content n)" for c
      using less.IH [OF content_size [OF that]] less.prems(1) sequence that by (auto simp: plain_node_simps [of n])
    then obtain vs where vs: "list_all2 (\<lambda>c v. nodeValue (ynode_of c) = Inr v \<and> means c v) (yn_Content n) vs"
      using list_all2_choose [of "yn_Content n" "\<lambda>c v. nodeValue (ynode_of c) = Inr v \<and> means c v"] by blast
    then have "map_err nodeValue (map ynode_of (yn_Content n)) = Inr vs" "list_all2 means (yn_Content n) vs"
      by (auto simp: map_err_Inr list_all2_map1 elim: list_all2_mono)
    then show ?thesis using sequence by (auto simp: ynode_of.simps [of n] intro: m_list)
  next
    case mapping
    let ?es = "entries_of (yn_Content n)"
    let ?P = "\<lambda>p kv. fst kv = yn_Value (fst p) \<and> nodeValue (ynode_of (snd p)) = Inr (snd kv) \<and> means (snd p) (snd kv)"
    have plain: "distinct (map (yn_Value \<circ> fst) ?es)" "\<forall>(k, v) \<in> set ?es. plain_node v"
      using less.prems(1) mapping by (auto simp: plain_node_simps [of n])
    have "\<exists>kv. ?P p kv" if "p \<in> set ?es" for p
    proof -
      obtain k v where p: "p = (k, v)" by (cases p)
      have "\<exists>x. nodeValue (ynode_of v) = Inr x \<and> means v x"
        using less.IH [OF entry_size(2) [OF that [unfolded p]]] plain(2) mapping that p by blast
      then show ?thesis by (auto simp: p)
    qed
    then obtain m where m: "list_all2 ?P ?es m" using list_all2_choose [of ?es ?P] by blast
    then have keys: "map fst m = map (yn_Value \<circ> fst) ?es"
      by (induction rule: list_all2_induct) simp_all
    have "map_err (\<lambda>p. case nodeValue (snd p) of Inl e \<Rightarrow> Inl e | Inr v \<Rightarrow> Inr (fst p, v))
        (map (\<lambda>(k, v). (yn_Value k, ynode_of v)) ?es) = Inr m"
      using m by (auto simp: map_err_Inr list_all2_map1 elim!: list_all2_mono)
    then have "nodeValue (ynode_of n) = Inr (VObj m)"
      using mapping plain(1) keys fold_put_distinct [of "[]" m] by (simp add: ynode_of.simps [of n])
    moreover have "means n (VObj m)"
    proof (rule m_object)
      show "list_all2 (\<lambda>p kv. fst kv = yn_Value (fst p) \<and> means (snd p) (snd kv)) ?es m"
        using m by (rule list_all2_mono) blast
    qed (use mapping plain(1) keys in auto)
    ultimately show ?thesis by blast
  qed
qed

text \<open>What a tree means is unique: the text of a document has one reading.\<close>

lemma itoa_not_minus_zero: "itoa i \<noteq> ''-0''"
proof
  assume "itoa i = ''-0''"
  moreover have "CHR ''-'' \<notin> set (nat_text (nat i))"
    using nat_text_digits [of "nat i"] not_digit_minus by (auto simp: list_all_iff)
  ultimately have "i < 0" "nat_text (nat (- i)) = ''0''" by (auto simp: itoa_def split: if_splits)
  then show False using nat_text_inject [of "nat (- i)" 0] nat_text_0 by simp
qed

lemma list_all2_unique:
  assumes "list_all2 P xs ys" and "list_all2 Q xs zs" and "\<And>x y z. x \<in> set xs \<Longrightarrow> P x y \<Longrightarrow> Q x z \<Longrightarrow> y = z"
  shows "ys = zs"
  using assms by (induction arbitrary: zs rule: list_all2_induct) (auto simp: list_all2_Cons1)

lemma means_unique: "means n v \<Longrightarrow> means n w \<Longrightarrow> v = w"
proof (induction n arbitrary: v w rule: measure_induct_rule [of size])
  case (less n)
  show ?case
  proof (cases "yn_Kind n = ScalarNode")
    case True
    then show ?thesis
      using less.prems itoa_not_minus_zero itoa_not_minus_zero [symmetric] by (auto elim!: means.cases simp: scalar_of_def dest: itoa_inject)
  next
    case False
    from less.prems(1) show ?thesis
    proof cases
      case (m_list vs)
      with less.prems(2) obtain ws where ws: "w = VList ws" "list_all2 means (yn_Content n) ws"
        by (auto elim: means.cases simp: scalar_of_def)
      have "vs = ws"
        by (rule list_all2_unique [OF m_list(3) ws(2)]) (blast intro: less.IH content_size)
      then show ?thesis using m_list ws by simp
    next
      case (m_object m)
      let ?P = "\<lambda>p kv. fst kv = yn_Value (fst p) \<and> means (snd p) (snd kv)"
      from m_object less.prems(2) obtain m' where m': "w = VObj m'" "list_all2 ?P (entries_of (yn_Content n)) m'"
        by (auto elim: means.cases simp: scalar_of_def)
      have "m = m'"
      proof (rule list_all2_unique [OF m_object(3) m'(2)])
        show "x = y" if "p \<in> set (entries_of (yn_Content n))" "?P p x" "?P p y" for p x y
        proof -
          have "size (snd p) < size n" using entry_size(2) [of "fst p" "snd p" n] that(1) by simp
          then show ?thesis using that(2,3) less.IH by (auto intro: prod_eqI)
        qed
      qed
      then show ?thesis using m_object m' by simp
    qed (use False in \<open>auto simp: scalar_of_def\<close>)
  qed
qed

section \<open>Loading\<close>

lemma parseDefinition_iff:
  "parseDefinition dec data = Inr d \<longleftrightarrow> int (length data) \<le> maxDefinitionBytes \<and> yd_ends dec data \<and>
    (\<exists>doc d0. yd_first dec data = Decoded doc \<and> plain_node doc \<and> has_type (root_of doc) (TStruct TDefinition) \<and>
      yd_strict dec data = Inr d0 \<and> d = recordStepKeys (root_of doc) d0)"
  by (auto simp: parseDefinition_def Let_def checkNodes_iff typeCheck_iff split: firstDocument.splits sum.splits)

lemma record_keys_nth:
  "i < length ns \<Longrightarrow> i < length ss \<Longrightarrow> record_keys ns ss ! i = step_keys (ns ! i) (ss ! i)"
  by (induction ns ss arbitrary: i rule: record_keys.induct) (auto simp: nth_Cons split: nat.splits)

lemma record_keys_length [simp]: "length (record_keys ns ss) = length ss"
  by (induction ns ss rule: record_keys.induct) auto

text \<open>The fields an accepted step, and its item, may write.\<close>

definition fields_apply :: "step \<Rightarrow> bool" where
  "fields_apply s \<longleftrightarrow> (\<exists>fs. fieldsByKind (SKind s) = Some fs \<and> set (keys s) \<subseteq> set (accepted_fields fs False)) \<and>
    (\<forall>it. SKind s = KindMap \<longrightarrow> Item s = Some it \<longrightarrow>
      (\<exists>fs. fieldsByKind (SKind it) = Some fs \<and> SKind it \<in> set itemKinds \<and> set (keys it) \<subseteq> set (accepted_fields fs True)))"

lemma unexpected_fields_iff: "unexpected_fields s p i allowed = [] \<longleftrightarrow> set (keys s) \<subseteq> set (accepted_fields allowed i)"
  by (auto simp: unexpected_fields_def)

lemma compile_kind_known: "compile_kind v s p n ld = (n', ps, ld') \<Longrightarrow> known n' = known n"
  by (auto simp: compile_kind_def Let_def split: if_splits prod.splits)

lemma compile0_fields:
  assumes "compile0 v s p i ld = (n, [], ld')"
  shows "\<exists>fs. fieldsByKind (SKind s) = Some fs \<and> set (keys s) \<subseteq> set (accepted_fields fs i) \<and> (i \<longrightarrow> SKind s \<in> set itemKinds)"
    and "known n"
  using assms
  by (auto simp: compile0_def Let_def unexpected_fields_iff dest!: compile_kind_known split: if_splits option.splits prod.splits)

lemma compile_fields:
  assumes "compile v s p ld = (n, [], ld')"
  shows "fields_apply s"
proof -
  obtain m ps ld1 where c: "compile0 v s p False ld = (m, ps, ld1)" using prod_cases3 by blast
  have ps: "ps = []" using assms by (auto simp: compile_def c split: if_splits prod.splits)
  note m = compile0_fields [OF c [unfolded ps]]
  have "\<exists>fs. fieldsByKind (SKind it) = Some fs \<and> SKind it \<in> set itemKinds \<and> set (keys it) \<subseteq> set (accepted_fields fs True)"
    if "SKind s = KindMap" "Item s = Some it" for it
  proof -
    obtain k qs ld2 where k: "compile0 v it (p @ ''.item'') True ld1 = (k, qs, ld2)" using prod_cases3 by blast
    have "qs = []" using assms m(2) that by (auto simp: compile_def c compileMap_def k Let_def split: prod.splits)
    from compile0_fields(1) [OF k [unfolded this]] show ?thesis by blast
  qed
  then show ?thesis using m(1) by (auto simp: fields_apply_def)
qed

lemma run_fields:
  assumes "run h d = Some ([], v)" and "s \<in> set (Steps d)"
  shows "fields_apply s"
proof -
  obtain ns ld fl outs where c: "collectSteps (validator_of h d) = (ns, [], ld)"
    using run_parts [OF assms(1)] by metis
  obtain ms ps l where m: "collect_from (validator_of h d) 0 [] empty_loader (Steps d) = (ms, ps, l)" using prod_cases3 by blast
  have "ps = []" using c by (auto simp: collectSteps_def m)
  then show ?thesis
    using collect_from_each [OF m [unfolded \<open>ps = []\<close>], of "\<lambda>s n l. fields_apply s"] compile_fields assms(2)
    by (auto simp: list_all2_conv_all_nth in_set_conv_nth)
qed

text \<open>The fields the document wrote for a step, and for its item, are fields of the step's kind.\<close>

definition written_fields :: "rawNode \<Rightarrow> string set" where
  "written_fields n = (if yn_Kind n = MappingNode then (yn_Value \<circ> fst) ` set (entries_of (yn_Content n)) else {})"

definition step_fields_apply :: "rawNode \<Rightarrow> step \<Rightarrow> bool" where
  "step_fields_apply n s \<longleftrightarrow> (\<exists>fs. fieldsByKind (SKind s) = Some fs \<and> written_fields n \<subseteq> set (accepted_fields fs False)) \<and>
    (\<forall>it node. SKind s = KindMap \<longrightarrow> Item s = Some it \<longrightarrow> mappingChild (Some n) ''item'' = Some node \<longrightarrow>
      (\<exists>fs. fieldsByKind (SKind it) = Some fs \<and> SKind it \<in> set itemKinds \<and> written_fields node \<subseteq> set (accepted_fields fs True)))"

lemma written_keys: "set (mappingKeys (Some n)) = written_fields n"
  by (simp add: mappingKeys_def written_fields_def)

lemma step_keys_fields: "fields_apply (step_keys n s) \<Longrightarrow> step_fields_apply n (step_keys n s)"
  by (auto simp: fields_apply_def step_fields_apply_def step_keys_def Let_def written_keys split: option.splits)

text \<open>The nodes of the steps.\<close>

definition step_nodes :: "rawNode \<Rightarrow> rawNode list" where
  "step_nodes doc = (case mappingChild (Some (root_of doc)) ''steps'' of
     Some n \<Rightarrow> if yn_Kind n = SequenceNode then yn_Content n else [] | None \<Rightarrow> [])"

lemma recorded_step:
  assumes "i < length (step_nodes doc)" and "i < length (Steps d)"
  shows "Steps (recordStepKeys (root_of doc) d) ! i = step_keys (step_nodes doc ! i) (Steps d ! i)"
    and "length (Steps (recordStepKeys (root_of doc) d)) = length (Steps d)"
  using assms record_keys_nth [of i "step_nodes doc" "Steps d"]
  by (auto simp: recordStepKeys_def step_nodes_def split: option.splits if_splits)

lemma recorded_length [simp]: "length (Steps (recordStepKeys n d)) = length (Steps d)"
  by (simp add: recordStepKeys_def split: option.splits)

end
