(* ===== verification/Simulate.thy ===== *)
theory Simulate
  imports Agents Running
begin

text \<open>
  Simulation (simulate.go): an effect-suppressed dry run of a validated definition against
  fixtures. \<open>simulator\<close> is what the source's \<^verbatim>\<open>simulator\<close> never changes; \<open>simState\<close> is what it does:
  the outputs of the steps that ran, the attempts and tokens counted, the trace and the effect
  previews. Every operation returns the new state also when it ends in an error, because a
  failed simulation reports what it counted and traced until then.
\<close>

section \<open>Fixtures\<close>

record attemptFixture =
  at_Output :: string
  at_Error :: string
  at_Tokens :: int

record itemFixture =
  if_One :: attemptFixture
  if_Attempts :: "attemptFixture list"

record stepFixture =
  sf_Item :: itemFixture
  sf_Items :: "itemFixture gomap"
  sf_ItemDefault :: "itemFixture option"
  sf_Response :: string

record fixtures =
  fx_Inputs :: "string gomap"
  fx_Steps :: "stepFixture gomap"

definition no_fixture :: stepFixture where
  "no_fixture = \<lparr>sf_Item = \<lparr>if_One = \<lparr>at_Output = [], at_Error = [], at_Tokens = 0\<rparr>, if_Attempts = []\<rparr>,
     sf_Items = [], sf_ItemDefault = None, sf_Response = []\<rparr>"

definition step_fixture :: "fixtures \<Rightarrow> string \<Rightarrow> stepFixture" where
  "step_fixture f i = (case map_of (fx_Steps f) i of Some x \<Rightarrow> x | None \<Rightarrow> no_fixture)"

text \<open>The index test of \<^verbatim>\<open>checkFixtures\<close>: a key is the decimal text of a natural number.\<close>

definition item_index :: "string \<Rightarrow> bool" where
  "item_index key = (case atoi key of Some i \<Rightarrow> 0 \<le> i \<and> itoa i = key | None \<Rightarrow> False)"

text \<open>
  How an operation ends early: the run fails, a step or item fails after its retries, the
  simulation cannot go on (a fixture or internal problem), or it dereferences nil.
\<close>

datatype simError = RunFailed string | ItemFailed string | Problem errmsg | Crashed

definition check_fixture :: "validated \<Rightarrow> string \<Rightarrow> stepFixture \<Rightarrow> simError option" where
  "check_fixture v i f = (case step_of v i of
     None \<Rightarrow> Some (Problem (Errf ''fixtures name unknown step %s'' [S i]))
   | Some n \<Rightarrow>
       let hasAttempt = (at_Output (if_One (sf_Item f)) \<noteq> [] \<or> at_Error (if_One (sf_Item f)) \<noteq> [] \<or> if_Attempts (sf_Item f) \<noteq> []);
           hasItems = (sf_Items f \<noteq> [] \<or> sf_ItemDefault f \<noteq> None) in
       if nkind n = KindDeterministic then
         Some (Problem (Errf ''steps.%s is deterministic: it runs its reviewed code and takes no fixture'' [S i]))
       else if nkind n = KindBranch then
         Some (Problem (Errf ''steps.%s is a branch: it evaluates its cases and takes no fixture'' [S i]))
       else if nkind n = KindMap then
         (if hasAttempt \<or> sf_Response f \<noteq> [] then Some (Problem (Errf ''steps.%s is a map: give items and item_default'' [S i]))
          else (case item n of None \<Rightarrow> Some Crashed
            | Some m \<Rightarrow>
                if nkind m = KindDeterministic \<and> hasItems then
                  Some (Problem (Errf ''steps.%s runs a deterministic item: it takes no fixture'' [S i]))
                else first_err (\<lambda>key. err_if (\<not> item_index key) (Problem (Errf ''steps.%s.items: %q is not an item index'' [S i, S key])))
                  (sortedKeys (sf_Items f))))
       else if nkind n = KindInterrupt then
         err_if (hasAttempt \<or> hasItems) (Problem (Errf ''steps.%s is an interruption: give response'' [S i]))
       else if hasItems \<or> sf_Response f \<noteq> [] then
         Some (Problem (Errf ''steps.%s is a %s step: give output or attempts'' [S i, S (nkind n)]))
       else err_if (is_effect n \<and> (at_Error (if_One (sf_Item f)) \<noteq> [] \<or> if_Attempts (sf_Item f) \<noteq> []))
         (Problem (Errf ''steps.%s is an effect: it is only previewed, so give its simulated output; effect failures and reconciliation happen only in runs, through the effect protocol'' [S i])))"

definition checkFixtures :: "validated \<Rightarrow> fixtures \<Rightarrow> simError option" where
  "checkFixtures v f = first_err (\<lambda>i. check_fixture v i (step_fixture f i)) (sortedKeys (fx_Steps f))"

definition fixtureAttempt :: "itemFixture option \<Rightarrow> int \<Rightarrow> attemptFixture option" where
  "fixtureAttempt fo attempt = (case fo of None \<Rightarrow> None
   | Some f \<Rightarrow> if if_Attempts f \<noteq> [] then
         (if int (length (if_Attempts f)) < attempt then None else Some (if_Attempts f ! nat (attempt - 1)))
       else if attempt = 1 \<and> (at_Output (if_One f) \<noteq> [] \<or> at_Error (if_One f) \<noteq> []) then Some (if_One f)
       else None)"

section \<open>Agent fixtures\<close>

text \<open>
  \<^verbatim>\<open>encoding/json\<close> decoding the fixture into its struct, unknown fields refused: keys match a field
  up to case (of ASCII letters, the Kelvin sign and the long s), a null leaves a field as it is,
  and the result keeps its raw text. Of two spellings of one key the later one counts.
\<close>

record agentFixture =
  af_Status :: string
  af_Summary :: string
  af_Report :: string
  af_Sources :: "(string \<times> bool) list"
  af_Limitations :: "string list"
  af_Result :: string

definition fold_rune :: "nat \<times> string \<Rightarrow> string" where
  "fold_rune p = (if fst p = 383 then ''s'' else if fst p = 8490 then ''k'' else toLower (snd p))"

definition fold_key :: "string \<Rightarrow> string" where
  "fold_key k = concat (map fold_rune (runes k))"

definition json_mismatch :: "string \<Rightarrow> errmsg" where
  "json_mismatch k = Errf ''json: cannot unmarshal into Go struct field %s'' [S k]"

definition json_unknown :: "string \<Rightarrow> errmsg" where
  "json_unknown k = Errf ''json: unknown field %q'' [S k]"

definition json_string :: "string \<Rightarrow> string \<Rightarrow> val \<Rightarrow> errmsg + string" where
  "json_string k old x = (case x of VStr s \<Rightarrow> Inr s | VNil \<Rightarrow> Inr old | _ \<Rightarrow> Inl (json_mismatch k))"

definition json_entries :: "val gomap \<Rightarrow> (string \<times> val) list" where
  "json_entries m = map (\<lambda>k. (k, case map_of m k of Some x \<Rightarrow> x | None \<Rightarrow> VNil)) (sortedKeys m)"

fun fold_err :: "('a \<Rightarrow> 'b \<Rightarrow> 'e + 'b) \<Rightarrow> 'a list \<Rightarrow> 'b \<Rightarrow> 'e + 'b" where
  "fold_err f [] s = Inr s"
| "fold_err f (x # xs) s = (case f x s of Inl e \<Rightarrow> Inl e | Inr s' \<Rightarrow> fold_err f xs s')"

definition source_field :: "string \<times> val \<Rightarrow> string \<times> bool \<Rightarrow> errmsg + string \<times> bool" where
  "source_field kx s = (let (k, x) = kx; (u, c) = s in
     if fold_key k = ''url'' then (case json_string k u x of Inl e \<Rightarrow> Inl e | Inr u' \<Rightarrow> Inr (u', c))
     else if fold_key k = ''cited'' then (case x of VBool b \<Rightarrow> Inr (u, b) | VNil \<Rightarrow> Inr s | _ \<Rightarrow> Inl (json_mismatch k))
     else Inl (json_unknown k))"

definition decode_source :: "val \<Rightarrow> errmsg + string \<times> bool" where
  "decode_source x = (case x of VObj m \<Rightarrow> fold_err source_field (json_entries m) ([], False)
     | VNil \<Rightarrow> Inr ([], False) | _ \<Rightarrow> Inl (json_mismatch ''sources''))"

definition agent_field :: "string \<times> val \<Rightarrow> agentFixture \<Rightarrow> errmsg + agentFixture" where
  "agent_field kx f = (let (k, x) = kx; name = fold_key k in
     if name = ''status'' then (case json_string k (af_Status f) x of Inl e \<Rightarrow> Inl e | Inr s \<Rightarrow> Inr (f\<lparr>af_Status := s\<rparr>))
     else if name = ''summary'' then (case json_string k (af_Summary f) x of Inl e \<Rightarrow> Inl e | Inr s \<Rightarrow> Inr (f\<lparr>af_Summary := s\<rparr>))
     else if name = ''report'' then (case json_string k (af_Report f) x of Inl e \<Rightarrow> Inl e | Inr s \<Rightarrow> Inr (f\<lparr>af_Report := s\<rparr>))
     else if name = ''sources'' then
       (case x of VList xs \<Rightarrow> (case map_err decode_source xs of Inl e \<Rightarrow> Inl e | Inr ss \<Rightarrow> Inr (f\<lparr>af_Sources := ss\<rparr>))
        | VNil \<Rightarrow> Inr (f\<lparr>af_Sources := []\<rparr>) | _ \<Rightarrow> Inl (json_mismatch k))
     else if name = ''limitations'' then
       (case x of VList xs \<Rightarrow> (case map_err (json_string k []) xs of Inl e \<Rightarrow> Inl e | Inr ss \<Rightarrow> Inr (f\<lparr>af_Limitations := ss\<rparr>))
        | VNil \<Rightarrow> Inr (f\<lparr>af_Limitations := []\<rparr>) | _ \<Rightarrow> Inl (json_mismatch k))
     else if name = ''result'' then Inr (f\<lparr>af_Result := canonicalBytes x\<rparr>)
     else Inl (json_unknown k))"

definition decode_agent :: "val \<Rightarrow> errmsg + agentFixture" where
  "decode_agent x = (let zero = \<lparr>af_Status = [], af_Summary = [], af_Report = [], af_Sources = [], af_Limitations = [], af_Result = []\<rparr> in
     case x of VObj m \<Rightarrow> fold_err agent_field (json_entries m) zero
     | VNil \<Rightarrow> Inr zero | _ \<Rightarrow> Inl (Errf ''json: cannot unmarshal into Go value of type workflow.agentFixture'' []))"

text \<open>What one attempt gives: an output, or a failure the workflow sees (empty when there is none).\<close>

record onceResult =
  or_Out :: val
  or_Note :: string
  or_Tokens :: int
  or_Failure :: string

definition agentReport :: "decoder \<Rightarrow> string \<Rightarrow> agentFixture \<Rightarrow> errmsg + string" where
  "agentReport dc path f = (
     if af_Result f \<noteq> [] then
       (if af_Report f \<noteq> [] then Inl (Errf ''%s: give an agent fixture's report or its result, not both'' [S path])
        else (case parseCanonicalJSON dc (af_Result f) of
            Inl e \<Rightarrow> Inl (Errf ''%s: agent fixture result: %v'' [S path, E e])
          | Inr x \<Rightarrow> Inr (result_report (af_Summary f) (canonicalBytes x))))
     else if af_Report f = [] then Inr (''## Summary'' @ newline # af_Summary f @ [newline])
     else Inr (af_Report f))"

definition agentStatuses :: "string list" where
  "agentStatuses = [''succeeded'', ''partial'', ''failed'', ''cancelled'', ''interrupted'']"

definition agentResult :: "decoder \<Rightarrow> quoter \<Rightarrow> 'a node0_scheme \<Rightarrow> val \<Rightarrow> int \<Rightarrow> errmsg + onceResult" where
  "agentResult dc quote n x tokens = (case decode_agent x of
     Inl e \<Rightarrow> Inl (Errf ''%s: agent fixture: %v'' [S (npath n), E e])
   | Inr f \<Rightarrow>
       if af_Status f \<notin> set agentStatuses then
         Inl (Errf ''%s: agent fixture status %q; use succeeded, partial, failed, cancelled or interrupted'' [S (npath n), S (af_Status f)])
       else (case agentReport dc (npath n) f of Inl e \<Rightarrow> Inl e
         | Inr report \<Rightarrow>
             (case agentOutput dc n \<lparr>wr_Status = af_Status f, wr_Summary = af_Summary f, wr_Report = report, wr_ExecutionID = [],
                wr_FullReport = False, wr_Sources = af_Sources f, wr_Limitations = af_Limitations f, wr_Tokens = tokens\<rparr> of
                AgentOk out note \<Rightarrow> Inr \<lparr>or_Out = out, or_Note = note, or_Tokens = tokens, or_Failure = []\<rparr>
              | AgentFailure e note \<Rightarrow> Inr \<lparr>or_Out = VNil, or_Note = note, or_Tokens = tokens, or_Failure = errText quote e\<rparr>
              | AgentBroken e note \<Rightarrow> Inl (Errf ''%s: agent fixture: %v'' [S (npath n), E e]))))"

section \<open>The simulator's state\<close>

record traceEntry =
  te_Step :: string
  te_Kind :: string
  te_Item :: "nat option"
  te_Attempt :: int
  te_Status :: string
  te_Input :: val
  te_Output :: val
  te_Error :: string
  te_Tokens :: int
  te_Next :: string
  te_Note :: string

record effectPreview =
  ep_Step :: string
  ep_Capability :: string
  ep_Contract :: string
  ep_Connection :: string
  ep_Resource :: string
  ep_Input :: val

record simulator =
  sv :: validated
  sfx :: fixtures
  sinputs :: "val gomap"
  sdecode :: decoder
  squote :: quoter

record simState =
  ss_state :: "val gomap"
  ss_attempts :: int
  ss_tokens :: int
  ss_trace :: "traceEntry list"
  ss_previews :: "effectPreview list"

definition entry_of :: "'a node0_scheme \<Rightarrow> string \<Rightarrow> traceEntry" where
  "entry_of n status = \<lparr>te_Step = nid n, te_Kind = nkind n, te_Item = None, te_Attempt = 0, te_Status = status,
     te_Input = VNil, te_Output = VNil, te_Error = [], te_Tokens = 0, te_Next = [], te_Note = []\<rparr>"

definition entry :: "traceEntry \<Rightarrow> simState \<Rightarrow> simState" where
  "entry e st = st\<lparr>ss_trace := ss_trace st @ [e]\<rparr>"

definition runFailed :: "simulator \<Rightarrow> string \<Rightarrow> farg list \<Rightarrow> simError" where
  "runFailed s f as = RunFailed (errText (squote s) (Errf f as))"

definition slimits :: "simulator \<Rightarrow> runLimits" where
  "slimits s = vrunlimits (sv s)"

definition countAttempt :: "simulator \<Rightarrow> 'a node0_scheme \<Rightarrow> simState \<Rightarrow> simError + simState" where
  "countAttempt s n st = (
     if maxAttempts (slimits s) < ss_attempts st + 1
     then Inl (runFailed s ''%s: the run reached limits.max_attempts %d'' [S (npath n), I (maxAttempts (slimits s))])
     else Inr (st\<lparr>ss_attempts := ss_attempts st + 1\<rparr>))"

text \<open>\<^verbatim>\<open>countTokens\<close> adds before it compares, in 64 bits.\<close>

definition countTokens :: "simulator \<Rightarrow> 'a node0_scheme \<Rightarrow> int \<Rightarrow> simState \<Rightarrow> simState \<times> simError option" where
  "countTokens s n tokens st = (
     if tokens < 0 then (st, Some (Problem (Errf ''%s: fixture tokens must not be negative'' [S (npath n)])))
     else if nkind n = KindAgent \<and> ntokens n < tokens then
       (st, Some (Problem (Errf ''%s: the fixture reports %s tokens; the step's budget is %s''
         [S (npath n), S (grouped tokens), S (grouped (ntokens n))])))
     else let st' = st\<lparr>ss_tokens := wrap64 (ss_tokens st + tokens)\<rparr> in
       (st', if tokenLimit (slimits s) < ss_tokens st'
         then Some (runFailed s ''%s: the run exceeded limits.max_tokens %s'' [S (npath n), S (grouped (tokenLimit (slimits s)))])
         else None))"

section \<open>Attempts\<close>

definition call_once :: "simulator \<Rightarrow> 'a node0_scheme \<Rightarrow> val gomap \<Rightarrow> simError + onceResult" where
  "call_once s n input = (case fn n of None \<Rightarrow> Inl Crashed
   | Some f \<Rightarrow> (case call f (npath n) input of
       CallOk x \<Rightarrow> Inr \<lparr>or_Out = x, or_Note = [], or_Tokens = 0, or_Failure = []\<rparr>
     | CallFailure e \<Rightarrow> Inr \<lparr>or_Out = VNil, or_Note = [], or_Tokens = 0, or_Failure = errText (squote s) e\<rparr>
     | CallBroken e \<Rightarrow> Inl (Problem e)))"

definition answer_once :: "simulator \<Rightarrow> 'a node0_scheme \<Rightarrow> val \<Rightarrow> int \<Rightarrow> simError + onceResult" where
  "answer_once s n x tokens = (
     if nkind n = KindAgent then
       (case agentResult (sdecode s) (squote s) n x tokens of Inl e \<Rightarrow> Inl (Problem e) | Inr r \<Rightarrow> Inr r)
     else (case checkValue (noutput n) x of
         Some e \<Rightarrow> Inr \<lparr>or_Out = VNil, or_Note = [], or_Tokens = tokens,
           or_Failure = (if nkind n = KindCapability then ''malformed response: '' else ''invalid output: '') @ errText (squote s) e\<rparr>
       | None \<Rightarrow> Inr \<lparr>or_Out = x, or_Note = [], or_Tokens = tokens, or_Failure = []\<rparr>))"

definition once :: "simulator \<Rightarrow> 'a node0_scheme \<Rightarrow> itemFixture option \<Rightarrow> int \<Rightarrow> val gomap \<Rightarrow> simError + onceResult" where
  "once s n fixture attempt input = (
     if nkind n = KindDeterministic then call_once s n input
     else (case fixtureAttempt fixture attempt of
         None \<Rightarrow> Inl (Problem (Errf ''%s: no fixture for attempt %d'' [S (npath n), I attempt]))
       | Some a \<Rightarrow>
           if at_Error a \<noteq> [] then
             (if at_Output a \<noteq> [] then Inl (Problem (Errf ''%s: attempt %d gives both output and error'' [S (npath n), I attempt]))
              else Inr \<lparr>or_Out = VNil, or_Note = [], or_Tokens = at_Tokens a, or_Failure = at_Error a\<rparr>)
           else (case parseCanonicalJSON (sdecode s) (at_Output a) of
               Inl e \<Rightarrow> Inl (Problem (Errf ''%s: attempt %d output: %v'' [S (npath n), I attempt, E e]))
             | Inr x \<Rightarrow> answer_once s n x (at_Tokens a))))"

definition attempt_entry :: "'a node0_scheme \<Rightarrow> nat option \<Rightarrow> int \<Rightarrow> val gomap \<Rightarrow> onceResult \<Rightarrow> traceEntry" where
  "attempt_entry n index attempt input r = (let e = (entry_of n ''succeeded'')\<lparr>te_Item := index, te_Attempt := attempt,
       te_Input := VObj input, te_Tokens := or_Tokens r, te_Note := or_Note r\<rparr> in
     if or_Failure r \<noteq> [] then e\<lparr>te_Status := ''failed'', te_Error := or_Failure r\<rparr>
     else if nkind n = KindCapability \<and> is_effect n then
       e\<lparr>te_Status := ''previewed'', te_Output := or_Out r,
         te_Note := ''effect suppressed: not executed; the output is the fixture's simulated response''\<rparr>
     else e\<lparr>te_Output := or_Out r\<rparr>)"

definition preview_of :: "'a node0_scheme \<Rightarrow> val gomap \<Rightarrow> effectPreview list" where
  "preview_of n input = (case cap n of None \<Rightarrow> []
   | Some c \<Rightarrow> if nkind n = KindCapability \<and> Effect c then
       [\<lparr>ep_Step = nid n, ep_Capability = CID c, ep_Contract = CContract c, ep_Connection = Connection (nstep n),
         ep_Resource = Resource (nstep n), ep_Input = VObj input\<rparr>] else [])"

text \<open>One attempt after it was counted: the state it leaves, and its output, its failure, or an early end.\<close>

definition attempt_once :: "simulator \<Rightarrow> 'a node0_scheme \<Rightarrow> itemFixture option \<Rightarrow> nat option \<Rightarrow> val gomap \<Rightarrow> int \<Rightarrow> simState
    \<Rightarrow> simState \<times> (simError + onceResult)" where
  "attempt_once s n fixture index input attempt st = (case countAttempt s n st of Inl e \<Rightarrow> (st, Inl e)
   | Inr st1 \<Rightarrow> (case once s n fixture attempt input of Inl e \<Rightarrow> (st1, Inl e)
     | Inr r \<Rightarrow>
         let st2 = (if or_Failure r = [] then st1\<lparr>ss_previews := ss_previews st1 @ preview_of n input\<rparr> else st1) in
         (case countTokens s n (or_Tokens r) (entry (attempt_entry n index attempt input r) st2) of
            (st3, Some e) \<Rightarrow> (st3, Inl e)
          | (st3, None) \<Rightarrow> (st3, Inr r))))"

fun attempt_loop :: "simulator \<Rightarrow> 'a node0_scheme \<Rightarrow> itemFixture option \<Rightarrow> nat option \<Rightarrow> val gomap \<Rightarrow> int list \<Rightarrow> string \<Rightarrow> simState
    \<Rightarrow> simState \<times> (simError + val)" where
  "attempt_loop s n fixture index input [] lastErr st =
     (st, Inl (ItemFailed (errText (squote s) (Errf ''%s failed after %s: %s''
       [S (npath n), S (plural (attempts n) ''attempt''), S lastErr]))))"
| "attempt_loop s n fixture index input (a # as) lastErr st = (case attempt_once s n fixture index input a st of
     (st', Inl e) \<Rightarrow> (st', Inl e)
   | (st', Inr r) \<Rightarrow> if or_Failure r = [] then (st', Inr (or_Out r))
       else attempt_loop s n fixture index input as (or_Failure r) st')"

definition attemptStep :: "simulator \<Rightarrow> 'a node0_scheme \<Rightarrow> itemFixture option \<Rightarrow> nat option \<Rightarrow> val \<Rightarrow> simState \<Rightarrow> simState \<times> (simError + val)" where
  "attemptStep s n fixture index itm st =
     attempt_loop s n fixture index (inputOf n (sinputs s) (ss_state st) itm) [1..attempts n] [] st"

section \<open>Steps\<close>

definition item_fixture :: "stepFixture \<Rightarrow> nat \<Rightarrow> itemFixture option" where
  "item_fixture f i = (case map_of (sf_Items f) (itoa (int i)) of Some x \<Rightarrow> Some x | None \<Rightarrow> sf_ItemDefault f)"

text \<open>The loop over a map's list: the outcomes of the items, or the end of the step.\<close>

fun item_loop :: "simulator \<Rightarrow> 'a node0_scheme \<Rightarrow> 'b node0_scheme \<Rightarrow> (nat \<times> val) list \<Rightarrow> itemOutcome list \<Rightarrow> simState
    \<Rightarrow> simState \<times> (simError + itemOutcome list)" where
  "item_loop s n m [] outcomes st = (st, Inr outcomes)"
| "item_loop s n m ((i, element) # xs) outcomes st = (
     let f = item_fixture (step_fixture (sfx s) (nid n)) i in
     if f = None \<and> nkind m \<noteq> KindDeterministic then (st, Inl (Problem (Errf ''%s: no fixture for item %d'' [S (npath n), I (int i)])))
     else (case attemptStep s m f (Some i) element st of
         (st', Inl (ItemFailed msg)) \<Rightarrow>
           if OnItemFailure (nstep n) = ''fail'' then
             (entry ((entry_of n ''failed'')\<lparr>te_Error := msg, te_Note := ''stopped at the first failed item''\<rparr>) st',
              Inl (runFailed s ''%s: item %d failed: %s'' [S (npath n), I (int i), S msg]))
           else item_loop s n m xs (outcomes @ [\<lparr>Index = int i, Succeeded = False, Output = VNil, Error = msg\<rparr>]) st'
       | (st', Inl e) \<Rightarrow> (st', Inl e)
       | (st', Inr out) \<Rightarrow>
           item_loop s n m xs (outcomes @ [\<lparr>Index = int i, Succeeded = True, Output = out, Error = []\<rparr>]) st'))"

definition map_note :: "simulator \<Rightarrow> int \<Rightarrow> int \<Rightarrow> int \<Rightarrow> string" where
  "map_note s succeeded len par = errText (squote s)
     (Errf ''%d of %d items succeeded; simulated in index order, a run executes at most %d at once'' [I succeeded, I len, I par])"

definition finish_map :: "simulator \<Rightarrow> 'a node0_scheme \<Rightarrow> val list \<Rightarrow> itemOutcome list \<Rightarrow> simState \<Rightarrow> simState \<times> (simError + val)" where
  "finish_map s n xs outcomes st = (case mapOutput xs outcomes of Inl e \<Rightarrow> (st, Inl (Problem e))
   | Inr out \<Rightarrow>
       let succeeded = int_of (field_value out ''succeeded'');
           note = map_note s succeeded (int (length xs)) (min (MaxParallel (nstep n)) (parallel (slimits s))) in
       if OnItemFailure (nstep n) = ''partial'' \<and> succeeded < MinSucceeded (nstep n) then
         (entry ((entry_of n ''failed'')\<lparr>te_Output := out, te_Note := note\<rparr>) st,
          Inl (runFailed s ''%s: %d of %d items succeeded; min_succeeded %d''
            [S (npath n), I succeeded, I (int (length xs)), I (MinSucceeded (nstep n))]))
       else (entry ((entry_of n ''succeeded'')\<lparr>te_Output := out, te_Note := note\<rparr>) st, Inr out))"

definition mapStep :: "simulator \<Rightarrow> node \<Rightarrow> simState \<Rightarrow> simState \<times> (simError + val)" where
  "mapStep s n st = (case over n of None \<Rightarrow> (st, Inl Crashed)
   | Some r \<Rightarrow> (case resolveRef r (sinputs s) (ss_state st) VNil of
       VList xs \<Rightarrow>
         if SMaxItems (nstep n) < int (length xs) then
           (entry ((entry_of n ''failed'')\<lparr>te_Error := errText (squote s) (Errf ''%d items; max_items %d''
               [I (int (length xs)), I (SMaxItems (nstep n))]), te_Note := ''no item started''\<rparr>) st,
            Inl (runFailed s ''%s: the list has %d items; max_items %d, so no item started''
              [S (npath n), I (int (length xs)), I (SMaxItems (nstep n))]))
         else if xs = [] then finish_map s n xs [] st
         else (case item n of None \<Rightarrow> (st, Inl Crashed)
           | Some m \<Rightarrow> (case item_loop s n m (List.enumerate 0 xs) [] st of
               (st', Inl e) \<Rightarrow> (st', Inl e)
             | (st', Inr outcomes) \<Rightarrow> finish_map s n xs outcomes st'))
     | _ \<Rightarrow> (st, Inl (runFailed s ''%s: %s is not a list'' [S (npath n), S (Raw r)]))))"

definition sim_branch :: "simulator \<Rightarrow> 'a node0_scheme \<Rightarrow> simState \<Rightarrow> simState \<times> string" where
  "sim_branch s n st = (let d = decide n (\<lambda>r. resolveRef r (sinputs s) (ss_state st) VNil) in
     (entry ((entry_of n ''branched'')\<lparr>te_Next := d_Next d, te_Note := d_Note d\<rparr>) st, d_Next d))"

text \<open>An interruption: its answer, or \<open>None\<close> when the simulation waits for one.\<close>

definition interrupt :: "simulator \<Rightarrow> 'a node0_scheme \<Rightarrow> simState \<Rightarrow> simState \<times> (simError + val option)" where
  "interrupt s n st = (
     let input = inputOf n (sinputs s) (ss_state st) VNil; raw = sf_Response (step_fixture (sfx s) (nid n));
         e = (entry_of n ''waiting'')\<lparr>te_Input := VObj input\<rparr> in
     if raw = [] then (entry (e\<lparr>te_Note := Message (nstep n)\<rparr>) st, Inr None)
     else (case countAttempt s n st of Inl er \<Rightarrow> (st, Inl er)
       | Inr st1 \<Rightarrow> (case parseCanonicalJSON (sdecode s) raw of
           Inl er \<Rightarrow> (st1, Inl (Problem (Errf ''%s: response: %v'' [S (npath n), E er])))
         | Inr x \<Rightarrow> (case checkValue (nschema n) x of
             Some er \<Rightarrow> (entry (e\<lparr>te_Status := ''failed'', te_Error := errText (squote s) er\<rparr>) st1,
               Inl (runFailed s ''%s: the response is invalid: %v'' [S (npath n), E er]))
           | None \<Rightarrow> (entry (e\<lparr>te_Status := ''answered'', te_Output := x, te_Note := Message (nstep n)\<rparr>) st1, Inr (Some x))))))"

section \<open>The run\<close>

text \<open>
  One round of the loop: \<open>Inr (Some j)\<close> goes on with step \<open>j\<close> (the end when it is empty),
  \<open>Inr None\<close> waits for a human.
\<close>

definition record_output :: "string \<Rightarrow> string \<Rightarrow> simState \<times> (simError + val) \<Rightarrow> simState \<times> (simError + string option)" where
  "record_output i next_step r = (case r of
     (st, Inl (ItemFailed msg)) \<Rightarrow> (st, Inl (RunFailed msg))
   | (st, Inl e) \<Rightarrow> (st, Inl e)
   | (st, Inr out) \<Rightarrow> (st\<lparr>ss_state := put i out (ss_state st)\<rparr>, Inr (Some next_step)))"

definition sim_step :: "simulator \<Rightarrow> string \<Rightarrow> simState \<Rightarrow> simState \<times> (simError + string option)" where
  "sim_step s i st = (case step_of (sv s) i of None \<Rightarrow> (st, Inl Crashed)
   | Some n \<Rightarrow>
       if nkind n = KindBranch then (case sim_branch s n st of (st', j) \<Rightarrow> (st', Inr (Some j)))
       else if nkind n = KindMap then record_output i (Next (nstep n)) (mapStep s n st)
       else if nkind n = KindInterrupt then
         (case interrupt s n st of
            (st', Inl e) \<Rightarrow> (st', Inl e)
          | (st', Inr None) \<Rightarrow> (st', Inr None)
          | (st', Inr (Some out)) \<Rightarrow> record_output i (Next (nstep n)) (st', Inr out))
       else record_output i (Next (nstep n)) (attemptStep s n (Some (sf_Item (step_fixture (sfx s) i))) None VNil st))"

partial_function (option) sim_run :: "simulator \<Rightarrow> string \<Rightarrow> simState \<Rightarrow> (simState \<times> (simError + string)) option" where
  "sim_run s i st = (if i = [] then Some (st, Inr ''succeeded'')
     else (case sim_step s i st of
         (st', Inl e) \<Rightarrow> Some (st', Inl e)
       | (st', Inr None) \<Rightarrow> Some (st', Inr ''waiting_for_human'')
       | (st', Inr (Some j)) \<Rightarrow> sim_run s j st'))"

record simulation =
  si_Workflow :: string
  si_ExecutableHash :: string
  si_RunKey :: string
  si_Status :: string
  si_Error :: string
  si_Inputs :: "val gomap"
  si_Trace :: "traceEntry list"
  si_Previews :: "effectPreview list"
  si_Outputs :: "val gomap"
  si_Attempts :: int
  si_Tokens :: int

datatype simEnd = SimError errmsg | SimPanic | SimDone simulation

definition empty_state :: simState where
  "empty_state = \<lparr>ss_state = [], ss_attempts = 0, ss_tokens = 0, ss_trace = [], ss_previews = []\<rparr>"

definition sim_result :: "simulator \<Rightarrow> (string \<Rightarrow> string) \<Rightarrow> string \<Rightarrow> string \<Rightarrow> string \<Rightarrow> simState \<Rightarrow> simulation" where
  "sim_result s digest hash status er st = \<lparr>si_Workflow = DName (vdefinition (sv s)), si_ExecutableHash = hash,
     si_RunKey = runKey digest (vdefinition (sv s)) (sinputs s), si_Status = status, si_Error = er, si_Inputs = sinputs s,
     si_Trace = ss_trace st, si_Previews = ss_previews st,
     si_Outputs = (if status = ''succeeded'' then RunOutputs (vdefinition (sv s)) (sinputs s) (ss_state st) else []),
     si_Attempts = ss_attempts st, si_Tokens = ss_tokens st\<rparr>"

text \<open>
  \<^verbatim>\<open>Simulate\<close>. An item's failure never leaves the loop as itself, so an \<open>ItemFailed\<close> here would be
  an error like any other. \<open>hash\<close> is the executable hash the validated definition carries.
\<close>

definition Simulate :: "decoder \<Rightarrow> quoter \<Rightarrow> (string \<Rightarrow> string) \<Rightarrow> string \<Rightarrow> validated \<Rightarrow> fixtures \<Rightarrow> simEnd option" where
  "Simulate dc quote digest hash v f = (case checkFixtures v f of Some (Problem e) \<Rightarrow> Some (SimError e) | Some _ \<Rightarrow> Some SimPanic
   | None \<Rightarrow> (case AcceptInputs dc (vinputs v) (fx_Inputs f) [] of Inl e \<Rightarrow> Some (SimError e)
     | Inr inputs \<Rightarrow>
         let s = \<lparr>sv = v, sfx = f, sinputs = inputs, sdecode = dc, squote = quote\<rparr> in
         (case sim_run s (Start (vdefinition v)) empty_state of None \<Rightarrow> None
          | Some (st, Inl (RunFailed msg)) \<Rightarrow> Some (SimDone (sim_result s digest hash ''failed'' msg st))
          | Some (st, Inl (ItemFailed msg)) \<Rightarrow> Some (SimError (Errf ''%s'' [S msg]))
          | Some (st, Inl (Problem e)) \<Rightarrow> Some (SimError e)
          | Some (st, Inl Crashed) \<Rightarrow> Some SimPanic
          | Some (st, Inr status) \<Rightarrow> Some (SimDone (sim_result s digest hash status [] st)))))"

section \<open>The report\<close>

definition trace_label :: "traceEntry \<Rightarrow> string" where
  "trace_label e = te_Step e @ (case te_Item e of Some i \<Rightarrow> '' #'' @ itoa (int i) | None \<Rightarrow> []) @
     (if 0 < te_Attempt e then '' attempt '' @ itoa (te_Attempt e) else [])"

text \<open>The last preview of the entry's step is shown, whichever entry it belongs to.\<close>

definition preview_line :: "simulation \<Rightarrow> traceEntry \<Rightarrow> string" where
  "preview_line sim e = (case find (\<lambda>p. ep_Step p = te_Step e) (rev (si_Previews sim)) of
     Some p \<Rightarrow> ''  PREVIEW '' @ te_Step e @ '' '' @ ep_Capability p @ '' '' @ ep_Contract p @ '' on '' @ ep_Connection p @ '' '' @
       ep_Resource p @ '': '' @ canonicalBytes (ep_Input p)
   | None \<Rightarrow> ''  '' @ trace_label e @ '': '' @ te_Status e)"

definition trace_line :: "simulation \<Rightarrow> traceEntry \<Rightarrow> string" where
  "trace_line sim e = (if te_Status e = ''previewed'' then preview_line sim e else ''  '' @ trace_label e @ '': '' @ te_Status e) @
     (if te_Next e \<noteq> [] then '' -> '' @ te_Next e else []) @
     (if 0 < te_Tokens e then '' ('' @ grouped (te_Tokens e) @ '' tokens)'' else []) @
     (if te_Error e \<noteq> [] then '' - '' @ te_Error e else []) @ (if te_Note e \<noteq> [] then '' - '' @ te_Note e else [])"

definition simulationNotice :: string where
  "simulationNotice = ''Effects suppressed: nothing was executed, no Effect Receipt was written and no authority was granted.''"

definition simulation_lines :: "quoter \<Rightarrow> simulation \<Rightarrow> string list" where
  "simulation_lines quote sim =
     [''Simulation of '' @ si_Workflow sim, ''Executable hash: '' @ si_ExecutableHash sim, ''Run key: '' @ si_RunKey sim,
      ''Status: '' @ si_Status sim] @
     (if si_Error sim \<noteq> [] then [''Error: '' @ si_Error sim] else []) @
     [''Inputs: '' @ join '', '' (map (\<lambda>name. name @ ''='' @ formatValue quote (lookup_val (si_Inputs sim) name)) (sortedKeys (si_Inputs sim))),
      ''Trace''] @
     map (trace_line sim) (si_Trace sim) @
     (if si_Outputs sim \<noteq> [] then ''Outputs'' #
        map (\<lambda>name. ''  '' @ name @ '': '' @ canonicalBytes (lookup_val (si_Outputs sim) name)) (sortedKeys (si_Outputs sim)) else []) @
     [''Totals: '' @ plural (si_Attempts sim) ''attempt'' @ '', '' @ grouped (si_Tokens sim) @ '' tokens'', simulationNotice]"

definition simulationText :: "quoter \<Rightarrow> simulation \<Rightarrow> string" where
  "simulationText quote sim = concat (map (\<lambda>l. l @ [newline]) (simulation_lines quote sim))"

end
