(* ===== verification/Simulated.thy ===== *)
theory Simulated
  imports Simulate
begin

text \<open>
  What a simulation keeps and where it ends. The interface \<open>sim_invariant\<close> is what an invariant of
  the simulator's state has to promise for the primitive changes; the whole loop then keeps it,
  refines the runs of \<open>reaches\<close>, ends, and never dereferences nil for an accepted definition.
\<close>

section \<open>How operations end\<close>

text \<open>
  \<open>keeps P Q r\<close>: an operation that goes on (also after an item that failed) leaves \<open>P\<close>, one that
  ends the simulation leaves the weaker \<open>Q\<close>, and none crashes.
\<close>

definition keeps :: "(simState \<Rightarrow> bool) \<Rightarrow> (simState \<Rightarrow> bool) \<Rightarrow> simState \<times> (simError + 'b) \<Rightarrow> bool" where
  "keeps P Q r \<longleftrightarrow> (case r of (st, Inr x) \<Rightarrow> P st
     | (st, Inl e) \<Rightarrow> (case e of ItemFailed m \<Rightarrow> P st | Crashed \<Rightarrow> False | _ \<Rightarrow> Q st))"

named_theorems keep_simps "how results keep an invariant"

lemma keeps_simps [keep_simps]:
  "keeps P Q (st, Inr x) \<longleftrightarrow> P st" "keeps P Q (st, Inl (ItemFailed m)) \<longleftrightarrow> P st"
  "keeps P Q (st, Inl (RunFailed m)) \<longleftrightarrow> Q st" "keeps P Q (st, Inl (Problem p)) \<longleftrightarrow> Q st"
  "\<not> keeps P Q (st, Inl Crashed)" "keeps P Q (st, Inl (runFailed s f as)) \<longleftrightarrow> Q st"
  by (simp_all add: keeps_def runFailed_def)

lemma runFailed_neq [keep_simps, simp]: "runFailed s f as \<noteq> ItemFailed m" "runFailed s f as \<noteq> Crashed" "runFailed s f as \<noteq> Problem p"
  by (simp_all add: runFailed_def)

lemma keeps_error: "keeps P Q (st, Inl e) \<Longrightarrow> (\<And>st. P st \<Longrightarrow> Q st) \<Longrightarrow> Q st \<and> e \<noteq> Crashed"
  by (cases e) (simp_all add: keep_simps)

text \<open>A step or item whose attempts cannot crash: a deterministic one has its function.\<close>

definition callable :: "'a node0_scheme \<Rightarrow> bool" where
  "callable n \<longleftrightarrow> (nkind n = KindDeterministic \<longrightarrow> fn n \<noteq> None)"

lemma once_ends: "once s n f a input = Inl e \<Longrightarrow> callable n \<Longrightarrow> \<exists>p. e = Problem p"
  by (auto simp: once_def call_once_def answer_once_def callable_def split: if_splits option.splits callResult.splits sum.splits)

lemma countTokens_ends: "countTokens s n t st = (st', Some e) \<Longrightarrow> (\<exists>p. e = Problem p) \<or> (\<exists>m. e = RunFailed m)"
  by (auto simp: countTokens_def Let_def runFailed_def split: if_splits)

lemma attempt_once_ends:
  assumes "attempt_once s n f ix input a st = (st', Inl e)" and "callable n"
  shows "(\<exists>p. e = Problem p) \<or> (\<exists>m. e = RunFailed m)"
proof (cases "countAttempt s n st")
  case (Inl e')
  then show ?thesis using assms(1) by (auto simp: attempt_once_def countAttempt_def runFailed_def split: if_splits)
next
  case (Inr st1)
  show ?thesis
  proof (cases "once s n f a input")
    case (Inl e')
    then show ?thesis using assms(1) Inr once_ends [OF Inl assms(2)] by (auto simp: attempt_once_def)
  next
    case (Inr r)
    then show ?thesis
      using assms(1) \<open>countAttempt s n st = Inr st1\<close>
      by (auto simp: attempt_once_def Let_def dest!: countTokens_ends split: prod.splits option.splits)
  qed
qed

lemma attempt_loop_keeps:
  assumes "callable n" and "\<And>a st. P st \<Longrightarrow> keeps P Q (attempt_once s n f ix input a st)" and "P st"
  shows "keeps P Q (attempt_loop s n f ix input as lastErr st)"
  using assms(3)
proof (induction as arbitrary: lastErr st)
  case Nil
  then show ?case by (simp add: keep_simps)
next
  case (Cons a as)
  obtain st' r where o: "attempt_once s n f ix input a st = (st', r)" by fastforce
  note k = assms(2) [OF Cons.prems, of a, unfolded o]
  show ?case
  proof (cases r)
    case (Inl e)
    then show ?thesis using k attempt_once_ends [OF o [unfolded Inl] assms(1)] by (auto simp: o keep_simps)
  next
    case (Inr x)
    then show ?thesis using k Cons.IH by (simp add: o keep_simps)
  qed
qed

section \<open>The interface of an invariant\<close>

text \<open>The steps and map items the simulator executes.\<close>

definition runs :: "simulator \<Rightarrow> node \<Rightarrow> bool" where
  "runs s n \<longleftrightarrow> callable n \<and> step_of (sv s) (nid n) = Some n"

definition runs_item :: "simulator \<Rightarrow> node0 \<Rightarrow> bool" where
  "runs_item s m \<longleftrightarrow> callable m \<and> nkind m \<in> set itemKinds \<and>
     (\<exists>n. step_of (sv s) (nid m) = Some n \<and> nkind n = KindMap \<and> item n = Some m)"

locale sim_invariant =
  fixes s :: simulator and P Q :: "simState \<Rightarrow> bool"
  assumes weaken: "P st \<Longrightarrow> Q st"
    and attempt: "P st \<Longrightarrow> runs s n \<Longrightarrow> keeps P Q (attempt_once s n f ix input a st)"
    and item_attempt: "P st \<Longrightarrow> runs_item s m \<Longrightarrow> keeps P Q (attempt_once s m f ix input a st)"
    and log: "P st \<Longrightarrow> te_Attempt e = 0 \<Longrightarrow> te_Status e \<noteq> ''previewed'' \<Longrightarrow> P (entry e st)"
    and count: "P st \<Longrightarrow> countAttempt s (n :: node) st = Inr st' \<Longrightarrow> P st'"
begin

lemma attemptStep_keeps: "P st \<Longrightarrow> runs s n \<Longrightarrow> keeps P Q (attemptStep s n f ix itm st)"
  unfolding attemptStep_def by (rule attempt_loop_keeps [OF _ attempt]) (simp_all add: runs_def)

lemma item_keeps: "P st \<Longrightarrow> runs_item s m \<Longrightarrow> keeps P Q (attemptStep s m f ix itm st)"
  unfolding attemptStep_def by (rule attempt_loop_keeps [OF _ item_attempt]) (simp_all add: runs_item_def)

lemma log_failed: "P st \<Longrightarrow> te_Attempt e = 0 \<Longrightarrow> te_Status e = ''failed'' \<Longrightarrow> Q (entry e st)"
  using log [of st e] weaken by simp

lemma item_loop_keeps:
  assumes "runs_item s m" and "P st"
  shows "keeps P Q (item_loop s (n :: node) (m :: node0) xs outcomes st) \<and> (\<forall>st' msg. item_loop s n m xs outcomes st \<noteq> (st', Inl (ItemFailed msg)))"
  using assms(2)
proof (induction xs arbitrary: outcomes st)
  case Nil
  then show ?case by (simp add: keep_simps)
next
  case (Cons x xs)
  obtain i element where x: "x = (i, element)" by fastforce
  let ?f = "item_fixture (step_fixture (sfx s) (nid n)) i"
  obtain st' r where a: "attemptStep s m ?f (Some i) element st = (st', r)" by fastforce
  note k = item_keeps [OF Cons.prems assms(1), of ?f "Some i" element, unfolded a]
  show ?case
  proof (cases "?f = None \<and> nkind m \<noteq> KindDeterministic")
    case True
    then show ?thesis using weaken [OF Cons.prems] by (simp add: x keep_simps)
  next
    case f: False
    show ?thesis
    proof (cases r)
      case (Inr out)
      then show ?thesis
        using k Cons.IH unfolding x item_loop.simps Let_def a if_not_P [OF f] by (simp add: keep_simps)
    next
      case (Inl e)
      show ?thesis
      proof (cases e)
        case (ItemFailed msg)
        then have "P st'" using k Inl by (simp add: keep_simps)
        then show ?thesis
          using Inl ItemFailed Cons.IH [of st'] log_failed [of st']
          unfolding x item_loop.simps Let_def a if_not_P [OF f] by (simp add: keep_simps entry_of_def)
      qed (use Inl k in \<open>simp_all add: x item_loop.simps Let_def a if_not_P [OF f] keep_simps\<close>)
    qed
  qed
qed

lemma finish_map_keeps: "P st \<Longrightarrow> keeps P Q (finish_map s (n :: node) xs outcomes st)"
  using weaken log by (auto simp: finish_map_def Let_def keep_simps entry_of_def log_failed split: sum.splits)

lemma mapStep_keeps:
  assumes "P st" and "over n \<noteq> None" and "item n = Some m" and "runs_item s m"
  shows "keeps P Q (mapStep s n st)"
proof -
  obtain r where r: "over n = Some r" using assms(2) by blast
  have bad: "keeps P Q (st, Inl (runFailed s f as))" for f as using weaken [OF assms(1)] by (simp add: keep_simps)
  show ?thesis
  proof (cases "resolveRef r (sinputs s) (ss_state st) VNil")
    case (VList xs)
    obtain st' q where l: "item_loop s n m (List.enumerate 0 xs) [] st = (st', q)" by fastforce
    note k = item_loop_keeps [OF assms(4,1), of n "List.enumerate 0 xs" "[]", unfolded l]
    show ?thesis
    proof (cases q)
      case (Inl e)
      then show ?thesis using k assms(1) by (cases e)
          (simp_all add: mapStep_def r VList assms(3) l keep_simps entry_of_def log_failed finish_map_keeps)
    next
      case (Inr outcomes)
      then show ?thesis
        using k assms(1) by (simp add: mapStep_def r VList assms(3) l keep_simps entry_of_def log_failed finish_map_keeps)
    qed
  qed (simp_all add: mapStep_def r bad)
qed

lemma branch_keeps: "P st \<Longrightarrow> P (fst (sim_branch s n st))"
  unfolding sim_branch_def Let_def fst_conv by (rule log) (simp_all add: entry_of_def)

lemma interrupt_keeps:
  assumes "P st" shows "keeps P Q (interrupt s (n :: node) st)"
proof (cases "sf_Response (step_fixture (sfx s) (nid n)) = []")
  case True
  then show ?thesis using assms by (simp add: interrupt_def Let_def keep_simps log entry_of_def)
next
  case False
  show ?thesis
  proof (cases "countAttempt s n st")
    case (Inl e)
    then have "e = runFailed s ''%s: the run reached limits.max_attempts %d'' [S (npath n), farg.I (maxAttempts (slimits s))]"
      by (simp add: countAttempt_def split: if_splits)
    then show ?thesis using False Inl weaken [OF assms] by (simp add: interrupt_def Let_def keep_simps)
  next
    case (Inr st1)
    note p = count [OF assms Inr]
    show ?thesis
      using False Inr p weaken [OF p]
      by (auto simp: interrupt_def Let_def keep_simps entry_of_def log_failed log split: sum.splits option.splits)
  qed
qed

end

text \<open>No operation of a step touches the outputs recorded before it.\<close>

lemma countTokens_state [simp]: "ss_state (fst (countTokens s n t st)) = ss_state st"
  by (simp add: countTokens_def Let_def)

lemma attempt_once_state [simp]: "ss_state (fst (attempt_once s n f ix input a st)) = ss_state st"
  by (auto simp: attempt_once_def countAttempt_def countTokens_def entry_def Let_def split: sum.splits if_splits option.splits prod.splits)

lemma attempt_once_keeps:
  assumes "callable n" and "\<And>r. snd (attempt_once s n f ix input a st) = Inr r \<Longrightarrow> P (fst (attempt_once s n f ix input a st))"
    and "\<And>e. snd (attempt_once s n f ix input a st) = Inl e \<Longrightarrow> Q (fst (attempt_once s n f ix input a st))"
  shows "keeps P Q (attempt_once s n f ix input a st)"
proof -
  obtain st' r where o: "attempt_once s n f ix input a st = (st', r)" by fastforce
  show ?thesis
  proof (cases r)
    case (Inl e)
    then show ?thesis using assms(3) attempt_once_ends [OF o [unfolded Inl] assms(1)] by (auto simp: o keep_simps)
  next
    case (Inr x)
    then show ?thesis using assms(2) by (simp add: o keep_simps)
  qed
qed

interpretation outputs_kept: sim_invariant s "\<lambda>st. ss_state st = \<sigma>" "\<lambda>st. ss_state st = \<sigma>" for s \<sigma>
  by unfold_locales (auto intro: attempt_once_keeps simp: runs_def runs_item_def entry_def countAttempt_def split: if_splits)

section \<open>What a step's output is\<close>

text \<open>A deterministic step whose function gives a text with every refusal: \<^verbatim>\<open>once\<close> takes an empty text for success.\<close>

definition speaks :: "quoter \<Rightarrow> 'a node0_scheme \<Rightarrow> bool" where
  "speaks quote n \<longleftrightarrow> (\<forall>f input e. nkind n = KindDeterministic \<longrightarrow> fn n = Some f \<longrightarrow> Call f input = Refused e \<longrightarrow> errText quote e \<noteq> [])"

text \<open>The output of a step's or item's attempt has the type of its function, or the step's.\<close>

definition attempt_typed :: "'a node0_scheme \<Rightarrow> val \<Rightarrow> bool" where
  "attempt_typed n x \<longleftrightarrow> (if nkind n = KindDeterministic then (\<exists>f. fn n = Some f \<and> conforms (Some (Result f)) x)
     else conforms (noutput n) x)"

text \<open>
  The output of a map: one outcome for each element of a list within \<^verbatim>\<open>max_items\<close>, in order; each output
  of the type of the item; and no more failures than its policy allows.
\<close>

definition outcomes_typed :: "quoter \<Rightarrow> node \<Rightarrow> node0 \<Rightarrow> itemOutcome list \<Rightarrow> bool" where
  "outcomes_typed quote n m os \<longleftrightarrow> (OnItemFailure (nstep n) = ''fail'' \<longrightarrow> (\<forall>oc \<in> set os. Succeeded oc)) \<and>
     (\<forall>oc \<in> set os. Succeeded oc \<longrightarrow> speaks quote m \<longrightarrow> attempt_typed m (Output oc))"

definition map_output :: "quoter \<Rightarrow> node \<Rightarrow> val \<Rightarrow> bool" where
  "map_output quote n x \<longleftrightarrow> (\<exists>m xs os. item n = Some m \<and> int (length xs) \<le> SMaxItems (nstep n) \<and> mapOutput xs os = Inr x \<and>
     map Index os = map int [0..<length xs] \<and> outcomes_typed quote n m os \<and>
     (OnItemFailure (nstep n) = ''partial'' \<longrightarrow> MinSucceeded (nstep n) \<le> int (length (filter Succeeded os))))"

definition step_output :: "quoter \<Rightarrow> node \<Rightarrow> val \<Rightarrow> bool" where
  "step_output quote n x \<longleftrightarrow> (if nkind n = KindMap then map_output quote n x
     else if nkind n = KindInterrupt then conforms (nschema n) x
     else speaks quote n \<longrightarrow> attempt_typed n x)"

lemma panic_text: "errText quote (Errf ''%s panicked: %v'' [S f, S r]) \<noteq> []"
  by simp

lemma agent_text: "errText quote (Errf ''worker ended %s'' as) \<noteq> []" "errText quote (Errf ''typed result: %v'' as) \<noteq> []"
  by simp_all

lemma agentOutput_failure:
  assumes "agentOutput dc n r = AgentFailure e note"
  shows "errText quote e \<noteq> []"
proof -
  have "(\<exists>as. e = Errf ''worker ended %s'' as) \<or> (\<exists>as. e = Errf ''typed result: %v'' as)"
    using assms unfolding agentOutput_def Let_def by (auto split: if_splits option.splits sum.splits)
  then show ?thesis using agent_text by blast
qed

lemma agentResult_typed: "agentResult dc quote n x t = Inr r \<Longrightarrow> or_Failure r = [] \<Longrightarrow> conforms (noutput n) (or_Out r)"
  unfolding agentResult_def
  by (auto dest: agentOutput_ok agentOutput_failure [of dc n _ _ _ quote] split: sum.splits if_splits agentEnd.splits)

lemma call_text:
  assumes "call f path input = CallFailure e" and "\<And>e'. Call f input = Refused e' \<Longrightarrow> errText quote e' \<noteq> []"
  shows "errText quote e \<noteq> []"
  using assms panic_text by (auto simp: call_def split: outcome.splits option.splits)

lemma call_ok: "call f path input = CallOk x \<Longrightarrow> conforms (Some (Result f)) x"
  by (auto simp: call_def checkValue_def checkAt_conforms split: outcome.splits option.splits)

lemma once_typed:
  assumes "once s n fx a input = Inr r" and "or_Failure r = []" and "speaks (squote s) n"
  shows "attempt_typed n (or_Out r)"
proof (cases "nkind n = KindDeterministic")
  case True
  then obtain f where f: "fn n = Some f" "call_once s n input = Inr r"
    using assms(1) by (auto simp: once_def call_once_def split: option.splits)
  then show ?thesis
    using True assms(2,3) call_ok [of f "npath n" input] call_text [of f "npath n" input _ "squote s"]
    by (auto simp: call_once_def attempt_typed_def speaks_def split: callResult.splits)
next
  case False
  have "conforms (noutput n) (or_Out r)" if "answer_once s n x t = Inr r" for x t
    using that assms(2) agentResult_typed [of "sdecode s" "squote s" n x t r]
    by (auto simp: answer_once_def checkValue_def checkAt_conforms split: if_splits option.splits sum.splits)
  then show ?thesis
    using False assms(1,2) by (auto simp: once_def attempt_typed_def split: option.splits if_splits sum.splits)
qed

lemma attempt_once_typed:
  assumes "attempt_once s n fx ix input a st = (st', Inr r)" and "or_Failure r = []" and "speaks (squote s) n"
  shows "attempt_typed n (or_Out r)"
  using assms(1) once_typed [OF _ assms(2,3)]
  by (auto simp: attempt_once_def Let_def split: sum.splits prod.splits option.splits)

lemma attempt_loop_typed:
  "attempt_loop s n fx ix input as lastErr st = (st', Inr x) \<Longrightarrow> speaks (squote s) n \<Longrightarrow> attempt_typed n x"
proof (induction as arbitrary: lastErr st)
  case (Cons a as)
  then show ?case by (auto dest: attempt_once_typed split: prod.splits sum.splits if_splits)
qed simp

lemma item_loop_typed:
  assumes "item_loop s n m es outcomes st = (st', Inr os)"
  shows "\<exists>oc. os = outcomes @ oc \<and> map Index oc = map (\<lambda>e. int (fst e)) es \<and> outcomes_typed (squote s) n m oc"
  using assms
proof (induction es arbitrary: outcomes st)
  case Nil
  then show ?case by (simp add: outcomes_typed_def)
next
  case (Cons e es)
  obtain i element where e: "e = (i, element)" by fastforce
  let ?f = "item_fixture (step_fixture (sfx s) (nid n)) i"
  obtain st1 r where a: "attemptStep s m ?f (Some i) element st = (st1, r)" by fastforce
  have f: "\<not> (?f = None \<and> nkind m \<noteq> KindDeterministic)" using Cons.prems by (auto simp: e Let_def split: if_splits)
  have next_item: "\<exists>oc. os = outcomes @ oc \<and> map Index oc = map (\<lambda>e. int (fst e)) (e # es) \<and> outcomes_typed (squote s) n m oc"
    if l: "item_loop s n m es (outcomes @ [c]) st1 = (st', Inr os)" and c: "Index c = int i" "outcomes_typed (squote s) n m [c]" for c
  proof -
    obtain oc where "os = (outcomes @ [c]) @ oc" "map Index oc = map (\<lambda>e. int (fst e)) es" "outcomes_typed (squote s) n m oc"
      using Cons.IH [OF l] by blast
    then show ?thesis using c by (intro exI [of _ "c # oc"]) (simp add: e outcomes_typed_def)
  qed
  show ?case
  proof (cases r)
    case (Inr out)
    have "speaks (squote s) m \<longrightarrow> attempt_typed m out" using a attempt_loop_typed unfolding Inr attemptStep_def by blast
    then show ?thesis
      using Cons.prems next_item [of "\<lparr>Index = int i, Succeeded = True, Output = out, Error = []\<rparr>"]
      unfolding e item_loop.simps Let_def a if_not_P [OF f] Inr by (simp add: outcomes_typed_def)
  next
    case (Inl er)
    then obtain msg where "er = ItemFailed msg" "OnItemFailure (nstep n) \<noteq> ''fail''"
      using Cons.prems unfolding e item_loop.simps Let_def a if_not_P [OF f] by (cases er) (auto split: if_splits)
    then show ?thesis
      using Cons.prems next_item [of "\<lparr>Index = int i, Succeeded = False, Output = VNil, Error = msg\<rparr>"]
      unfolding e item_loop.simps Let_def a if_not_P [OF f] Inl by (simp add: outcomes_typed_def)
  qed
qed

lemma mapOutput_succeeded: "mapOutput xs os = Inr x \<Longrightarrow> int_of (field_value x ''succeeded'') = int (length (filter Succeeded os))"
proof -
  assume x: "mapOutput xs os = Inr x"
  have "mset (filter Succeeded (sort_key Index os)) = mset (filter Succeeded os)" by simp
  then have "length (filter Succeeded (sort_key Index os)) = length (filter Succeeded os)" by (rule mset_eq_length)
  then show ?thesis using x by (auto simp: mapOutput_iff Let_def)
qed

lemma finish_map_output:
  assumes "finish_map s n xs os st = (st', Inr x)"
  shows "mapOutput xs os = Inr x"
    "OnItemFailure (nstep n) = ''partial'' \<Longrightarrow> MinSucceeded (nstep n) \<le> int (length (filter Succeeded os))"
  using assms mapOutput_succeeded [of xs os]
  by (auto simp: finish_map_def Let_def split: sum.splits if_splits)

lemma mapStep_output:
  assumes "mapStep s n st = (st', Inr x)" and "item n = Some m"
  shows "map_output (squote s) n x"
proof -
  obtain r xs where r: "over n = Some r" "resolveRef r (sinputs s) (ss_state st) VNil = VList xs"
    using assms(1) unfolding mapStep_def by (auto split: option.splits val.splits)
  have xs: "int (length xs) \<le> SMaxItems (nstep n)" "xs = [] \<and> finish_map s n xs [] st = (st', Inr x) \<or>
      (\<exists>st1 os. item_loop s n m (List.enumerate 0 xs) [] st = (st1, Inr os) \<and> finish_map s n xs os st1 = (st', Inr x))"
    using assms by (auto simp: mapStep_def r split: if_splits prod.splits sum.splits)
  from xs(2) obtain os st1 where os: "finish_map s n xs os st1 = (st', Inr x)" "map Index os = map int [0..<length xs]"
      "outcomes_typed (squote s) n m os"
  proof (elim disjE, goal_cases)
    case 1
    then show ?thesis by (intro 1(1) [of "[]" st]) (auto simp: outcomes_typed_def)
  next
    case 2
    then obtain st1 os where l: "item_loop s n m (List.enumerate 0 xs) [] st = (st1, Inr os)" "finish_map s n xs os st1 = (st', Inr x)"
      by blast
    have "map (\<lambda>e. int (fst e)) (List.enumerate 0 xs) = map int [0..<length xs]"
      using arg_cong [OF map_fst_enumerate [of 0 xs], of "map int"] by (simp only: map_map comp_def add_0)
    then show ?thesis using item_loop_typed [OF l(1)] by (intro 2(1) [OF l(2)]) simp_all
  qed
  then show ?thesis using xs(1) assms(2) finish_map_output [OF os(1)] by (auto simp: map_output_def)
qed

lemma interrupt_output: "interrupt s n st = (st', Inr (Some x)) \<Longrightarrow> conforms (nschema n) x"
  by (auto simp: interrupt_def Let_def checkValue_def checkAt_conforms split: if_splits sum.splits option.splits)

section \<open>The run\<close>

lemma compiled_callable: "compiled_ok v n \<Longrightarrow> callable n"
  unfolding compiled_ok_def callable_def by (elim conjE) auto

lemma same0_callable: "same0 m n \<Longrightarrow> callable m = callable n"
  by (simp add: callable_def same0_def)

text \<open>No operation of an accepted definition's steps can dereference nil.\<close>

lemma plan_runs:
  assumes p: "plan_ok h d (sv s) fl" and n: "step_of (sv s) i = Some n"
  shows "runs s n" and "nkind n = KindMap \<Longrightarrow> over n \<noteq> None \<and> (\<exists>m. item n = Some m \<and> runs_item s m)"
proof -
  obtain n0 where n0: "node_ok (validator_of h d) n0" "same_node n n0" using plan_node(4) [OF p n] by blast
  note e = same_node_sel [OF n0(2)]
  note i = plan_node(2) [OF p n]
  have "compiled_ok (validator_of h d) n0" "same0 n n0" using n0 by (simp_all add: node_ok_def same_node_def)
  then show "runs s n" using compiled_callable same0_callable n i by (auto simp: runs_def)
  assume k: "nkind n = KindMap"
  have "item_ok (validator_of h d) n0" using n0(1) by (simp add: node_ok_def)
  then obtain r m0 where m0: "over n0 = Some r" "item n0 = Some m0" "compiled_ok (validator_of h d) m0"
      "nkind m0 \<in> set itemKinds" "nid m0 = nid n0"
    using k e unfolding item_ok_def by auto
  obtain m where m: "item n = Some m" "same0 m m0" using n0(2) m0(2) by (auto simp: same_node_def option_rel_Some2)
  have "callable m" "nkind m \<in> set itemKinds" "nid m = i"
    using m0 m(2) e i compiled_callable same0_callable same0_kind [OF m(2)] by auto
  then show "over n \<noteq> None \<and> (\<exists>m. item n = Some m \<and> runs_item s m)"
    using m0(1) m(1) e k n by (auto simp: runs_item_def)
qed

text \<open>
  A round of the loop of a live run goes on to the next step of the run, waits at an interruption,
  or ends: it never crashes.
\<close>

definition next_ok :: "simulator \<Rightarrow> string list \<Rightarrow> string \<Rightarrow> (simState \<Rightarrow> bool) \<Rightarrow> (simState \<Rightarrow> bool)
    \<Rightarrow> simState \<times> (simError + string option) \<Rightarrow> bool" where
  "next_ok s trace i P Q r \<longleftrightarrow> (case r of
     (st, Inl e) \<Rightarrow> Q st \<and> ((\<exists>m. e = RunFailed m) \<or> (\<exists>p. e = Problem p))
   | (st, Inr None) \<Rightarrow> P st \<and> reaches (sv s) (sinputs s) trace i (ss_state st) \<and>
       (\<exists>n. step_of (sv s) i = Some n \<and> nkind n = KindInterrupt)
   | (st, Inr (Some j)) \<Rightarrow> P st \<and> reaches (sv s) (sinputs s) (trace @ [i]) j (ss_state st))"

locale sim_run_invariant = sim_invariant +
  assumes recording: "P st \<Longrightarrow> step_of (sv s) i = Some n \<Longrightarrow> step_output (squote s) n x \<Longrightarrow> P (st\<lparr>ss_state := put i x (ss_state st)\<rparr>)"
begin

lemma recorded_ok:
  assumes r: "reaches (sv s) (sinputs s) trace i \<sigma>" and i: "i \<noteq> []" and n: "step_of (sv s) i = Some n" "nkind n \<noteq> KindBranch"
    and k: "keeps P Q r" "keeps (\<lambda>st. ss_state st = \<sigma>) (\<lambda>st. ss_state st = \<sigma>) r"
    and o: "\<And>st x. r = (st, Inr x) \<Longrightarrow> step_output (squote s) n x"
  shows "next_ok s trace i P Q (record_output i (Next (nstep n)) r)"
proof -
  obtain st q where rq: "r = (st, q)" by fastforce
  show ?thesis
  proof (cases q)
    case (Inl e)
    then show ?thesis using k(1) weaken by (cases e) (auto simp: rq record_output_def next_ok_def keep_simps)
  next
    case (Inr x)
    have st: "P st" "ss_state st = \<sigma>" using k by (simp_all add: rq Inr keep_simps)
    have "P (st\<lparr>ss_state := put i x (ss_state st)\<rparr>)" using o [of st x] by (intro recording [OF st(1) n(1)]) (simp add: rq Inr)
    then show ?thesis
      using reaches.step [OF r i n] st by (simp add: rq Inr record_output_def next_ok_def)
  qed
qed

lemma sim_step_ok:
  assumes p: "plan_ok h d (sv s) fl" and r: "reaches (sv s) (sinputs s) trace i (ss_state st)" and i: "i \<noteq> []" and st: "P st"
  shows "next_ok s trace i P Q (sim_step s i st)"
proof -
  obtain n where n: "step_of (sv s) i = Some n" using live_step [OF p r i] by blast
  note call = plan_runs [OF p n]
  consider "nkind n = KindBranch" | "nkind n = KindMap" | "nkind n = KindInterrupt"
    | "nkind n \<noteq> KindBranch" "nkind n \<noteq> KindMap" "nkind n \<noteq> KindInterrupt" by blast
  then show ?thesis
  proof cases
    case 1
    obtain b where b: "Branch (sv s) i (sinputs s) (ss_state st) = Inr b" using live_branch [OF p r i n 1] by blast
    then have "b = decide n (\<lambda>r. resolveRef r (sinputs s) (ss_state st) VNil)"
      by (auto simp: Branch_def n 1 split: option.splits)
    then show ?thesis
      using reaches.branch [OF r i b] branch_keeps [OF st, of n]
      by (simp add: sim_step_def n 1 next_ok_def sim_branch_def Let_def entry_def)
  next
    case 2
    obtain m where m: "over n \<noteq> None" "item n = Some m" "runs_item s m" using call(2) [OF 2] by blast
    have "next_ok s trace i P Q (record_output i (Next (nstep n)) (mapStep s n st))"
      using mapStep_keeps [OF st m] outputs_kept.mapStep_keeps [OF refl m] mapStep_output [OF _ m(2)]
      by (intro recorded_ok [OF r i n]) (auto simp: 2 step_output_def)
    then show ?thesis by (simp add: sim_step_def n 2)
  next
    case 3
    obtain st' q where e: "interrupt s n st = (st', q)" by fastforce
    note k = interrupt_keeps [OF st, of n, unfolded e]
    note k' = outputs_kept.interrupt_keeps [OF refl, of st s n, unfolded e]
    have ni: "e' \<noteq> ItemFailed m" if "q = Inl e'" for e' m
      using e that by (auto simp: interrupt_def Let_def countAttempt_def split: if_splits sum.splits option.splits)
    show ?thesis
    proof (cases q)
      case (Inl e')
      then show ?thesis using k ni by (cases e') (auto simp: sim_step_def n 3 e next_ok_def keep_simps)
    next
      case (Inr x)
      show ?thesis
      proof (cases x)
        case None
        then show ?thesis using k k' Inr r n 3 by (simp add: sim_step_def e next_ok_def keep_simps)
      next
        case (Some out)
        have "next_ok s trace i P Q (record_output i (Next (nstep n)) (st', Inr out))"
          using k k' Inr Some interrupt_output [of s n st st' out] e
          by (intro recorded_ok [OF r i n]) (auto simp: 3 step_output_def keep_simps)
        then show ?thesis using Inr Some by (simp add: sim_step_def n 3 e)
      qed
    qed
  next
    case 4
    have "step_output (squote s) n x" if "attemptStep s n f None VNil st = (st', Inr x)" for f st' x
      using that 4 attempt_loop_typed unfolding attemptStep_def step_output_def by fastforce
    then have "next_ok s trace i P Q (record_output i (Next (nstep n)) (attemptStep s n (Some (sf_Item (step_fixture (sfx s) i))) None VNil st))"
      using attemptStep_keeps [OF st call(1)] outputs_kept.attemptStep_keeps [OF refl call(1)]
      by (intro recorded_ok [OF r i n 4(1)]) auto
    then show ?thesis by (simp add: sim_step_def n 4)
  qed
qed

text \<open>The whole loop: it ends, wherever it stands in a run, and what it leaves is the end of a run or a wait.\<close>

definition run_end :: "simState \<times> (simError + string) \<Rightarrow> bool" where
  "run_end r \<longleftrightarrow> (case r of
     (st, Inl e) \<Rightarrow> Q st \<and> ((\<exists>m. e = RunFailed m) \<or> (\<exists>p. e = Problem p))
   | (st, Inr status) \<Rightarrow> P st \<and> (\<exists>trace i. reaches (sv s) (sinputs s) trace i (ss_state st) \<and>
       (status = ''succeeded'' \<and> i = [] \<or>
        status = ''waiting_for_human'' \<and> (\<exists>n. step_of (sv s) i = Some n \<and> nkind n = KindInterrupt))))"

lemma sim_run_ok:
  assumes p: "plan_ok h d (sv s) fl"
  shows "reaches (sv s) (sinputs s) trace i (ss_state st) \<Longrightarrow> P st \<Longrightarrow> \<exists>r. sim_run s i st = Some r \<and> run_end r"
proof (induction "length (vsteps (sv s)) - length trace" arbitrary: trace i st rule: less_induct)
  case less
  show ?case
  proof (cases "i = []")
    case True
    then show ?thesis using less.prems by (subst sim_run.simps) (auto simp: run_end_def)
  next
    case False
    obtain st' q where e: "sim_step s i st = (st', q)" by fastforce
    note ok = sim_step_ok [OF p less.prems(1) False less.prems(2), unfolded e]
    show ?thesis
    proof (cases q)
      case (Inl er)
      then show ?thesis using ok False by (subst sim_run.simps) (simp add: e next_ok_def run_end_def)
    next
      case (Inr x)
      show ?thesis
      proof (cases x)
        case None
        then show ?thesis using ok False Inr by (subst sim_run.simps) (auto simp: e next_ok_def run_end_def)
      next
        case (Some j)
        have "length trace < length (vsteps (sv s))" using reaches_distinct(4) [OF p less.prems(1) False] .
        moreover have "reaches (sv s) (sinputs s) (trace @ [i]) j (ss_state st')" "P st'"
          using ok by (simp_all add: Inr Some next_ok_def)
        ultimately have "\<exists>r. sim_run s j st' = Some r \<and> run_end r"
          by (intro less.hyps [of "trace @ [i]"]) simp_all
        then show ?thesis using False by (subst sim_run.simps) (simp add: e Inr Some)
      qed
    qed
  qed
qed

end

section \<open>Invariants of a simulation\<close>

lemma countTokens_cases: "countTokens s n t st = (st3, q) \<Longrightarrow>
    st3 = st\<lparr>ss_tokens := ss_tokens st3\<rparr> \<and> (q = None \<longrightarrow> ss_tokens st3 \<le> tokenLimit (slimits s))"
  by (cases st) (auto simp: countTokens_def Let_def split: if_splits)

text \<open>What one attempt does to the state: nothing, counting, or counting and logging its result.\<close>

lemma attempt_once_cases:
  obtains (refused) e where "attempt_once s n f ix input a st = (st, Inl e)" "maxAttempts (slimits s) < ss_attempts st + 1"
  | (stopped) e where "attempt_once s n f ix input a st = (st\<lparr>ss_attempts := ss_attempts st + 1\<rparr>, Inl e)"
      "ss_attempts st + 1 \<le> maxAttempts (slimits s)"
  | (logged) r tokens q where "attempt_once s n f ix input a st =
        (st\<lparr>ss_attempts := ss_attempts st + 1, ss_previews := ss_previews st @ (if or_Failure r = [] then preview_of n input else []),
          ss_trace := ss_trace st @ [attempt_entry n ix a input r], ss_tokens := tokens\<rparr>, q)"
      "ss_attempts st + 1 \<le> maxAttempts (slimits s)" "\<forall>x. q = Inr x \<longrightarrow> tokens \<le> tokenLimit (slimits s)"
proof (cases "maxAttempts (slimits s) < ss_attempts st + 1")
  case True
  then show thesis using refused by (simp add: attempt_once_def countAttempt_def)
next
  case False
  then have c: "countAttempt s n st = Inr (st\<lparr>ss_attempts := ss_attempts st + 1\<rparr>)" by (simp add: countAttempt_def)
  show thesis
  proof (cases "once s n f a input")
    case (Inl e)
    then show thesis using c False stopped by (simp add: attempt_once_def)
  next
    case (Inr r)
    let ?st = "st\<lparr>ss_attempts := ss_attempts st + 1, ss_previews := ss_previews st @ (if or_Failure r = [] then preview_of n input else []),
          ss_trace := ss_trace st @ [attempt_entry n ix a input r]\<rparr>"
    obtain st3 q where t: "countTokens s n (or_Tokens r) ?st = (st3, q)" by fastforce
    have "attempt_once s n f ix input a st = (st3, case q of Some e \<Rightarrow> Inl e | None \<Rightarrow> Inr r)"
      using c t by (auto simp: attempt_once_def Inr Let_def entry_def split: option.splits)
    moreover note countTokens_cases [OF t]
    ultimately show thesis using False logged [where r = r and tokens = "ss_tokens st3" and q = "case q of Some e \<Rightarrow> Inl e | None \<Rightarrow> Inr r"]
      by (auto split: option.splits)
  qed
qed

text \<open>Attempts and tokens: counted within the limits, and every logged attempt was counted.\<close>

definition logged_attempts :: "simState \<Rightarrow> nat" where
  "logged_attempts st = length (filter (\<lambda>e. te_Attempt e \<noteq> 0) (ss_trace st))"

definition within_attempts :: "simulator \<Rightarrow> simState \<Rightarrow> bool" where
  "within_attempts s st \<longleftrightarrow> ss_attempts st \<le> maxAttempts (slimits s) \<and> int (logged_attempts st) \<le> ss_attempts st"

definition within_budget :: "simulator \<Rightarrow> simState \<Rightarrow> bool" where
  "within_budget s st \<longleftrightarrow> within_attempts s st \<and> ss_tokens st \<le> tokenLimit (slimits s)"

lemma within_attempt:
  assumes "within_budget s st" and "callable n"
  shows "keeps (within_budget s) (within_attempts s) (attempt_once s n f ix input a st)"
  using assms by (intro attempt_once_keeps; cases rule: attempt_once_cases [of s n f ix input a st])
    (auto simp: within_budget_def within_attempts_def logged_attempts_def)

interpretation budget: sim_run_invariant s "within_budget s" "within_attempts s" for s
  by unfold_locales
    (auto simp: runs_def runs_item_def intro: within_attempt,
     auto simp: within_budget_def within_attempts_def logged_attempts_def entry_def countAttempt_def split: if_splits)

text \<open>
  Effects: every preview is of an effect step of the definition, the previews are the previewed
  entries of the trace, in order, and an attempt at an effect is never logged as done.
\<close>

definition effect_step :: "simulator \<Rightarrow> string \<Rightarrow> bool" where
  "effect_step s i \<longleftrightarrow> (\<exists>n. step_of (sv s) i = Some n \<and> nkind n = KindCapability \<and> is_effect n)"

definition suppressed :: "simulator \<Rightarrow> simState \<Rightarrow> bool" where
  "suppressed s st \<longleftrightarrow>
     map (\<lambda>e. (te_Step e, te_Input e)) (filter (\<lambda>e. te_Status e = ''previewed'') (ss_trace st)) =
       map (\<lambda>p. (ep_Step p, ep_Input p)) (ss_previews st) \<and>
     (\<forall>e \<in> set (ss_trace st). te_Attempt e \<noteq> 0 \<longrightarrow> effect_step s (te_Step e) \<longrightarrow> te_Status e \<in> {''previewed'', ''failed''}) \<and>
     (\<forall>p \<in> set (ss_previews st). \<exists>n. step_of (sv s) (ep_Step p) = Some n \<and> nkind n = KindCapability \<and>
        (\<exists>input. preview_of n input = [p]))"

lemma item_not_capability: "runs_item s m \<Longrightarrow> nkind m \<noteq> KindCapability"
  by (auto simp: runs_item_def itemKinds_def)

lemma preview_effect: "preview_of n input \<noteq> [] \<longleftrightarrow> nkind n = KindCapability \<and> is_effect n"
  by (simp add: preview_of_def is_effect_def split: option.splits)

lemma no_preview: "nkind n \<noteq> KindCapability \<Longrightarrow> preview_of n input = []"
  by (simp add: preview_of_def split: option.splits)

lemma preview_sel: "preview_of n input = [p] \<Longrightarrow> ep_Step p = nid n \<and> ep_Input p = VObj input"
  by (auto simp: preview_of_def split: option.splits if_splits)

lemma preview_single: "nkind n = KindCapability \<Longrightarrow> is_effect n \<Longrightarrow> \<exists>p. preview_of n input = [p]"
  by (auto simp: preview_of_def is_effect_def split: option.splits)

lemma attempt_entry_sel [simp]: "te_Step (attempt_entry n ix a input r) = nid n" "te_Input (attempt_entry n ix a input r) = VObj input"
  "te_Attempt (attempt_entry n ix a input r) = a"
  by (simp_all add: attempt_entry_def entry_of_def Let_def)

lemma attempt_entry_status: "te_Status (attempt_entry n ix a input r) = (if or_Failure r \<noteq> [] then ''failed''
    else if nkind n = KindCapability \<and> is_effect n then ''previewed'' else ''succeeded'')"
  by (simp add: attempt_entry_def entry_of_def Let_def)

lemma suppressed_attempt:
  assumes st: "suppressed s st" and n: "effect_step s (nid n) \<Longrightarrow> nkind n = KindCapability \<and> is_effect n"
    and pv: "nkind n = KindCapability \<and> is_effect n \<Longrightarrow>
      \<exists>n'. step_of (sv s) (nid n) = Some n' \<and> nkind n' = KindCapability \<and> preview_of n' input = preview_of n input"
  shows "suppressed s (fst (attempt_once s n f ix input a st))"
proof (cases rule: attempt_once_cases [of s n f ix input a st])
  case (logged r tokens q)
  show ?thesis
  proof (cases "or_Failure r = [] \<and> nkind n = KindCapability \<and> is_effect n")
    case True
    then obtain p where p: "preview_of n input = [p]" using preview_single by blast
    then show ?thesis
      using st True pv preview_sel [OF p] unfolding logged suppressed_def fst_conv by (auto simp: attempt_entry_status)
  next
    case False
    then have "(if or_Failure r = [] then preview_of n input else []) = []" using preview_effect by auto
    then show ?thesis
      using st False n unfolding logged suppressed_def fst_conv by (auto simp: attempt_entry_status)
  qed
qed (use st in \<open>simp_all add: suppressed_def\<close>)

lemma suppressed_step: "suppressed s st \<Longrightarrow> runs s n \<Longrightarrow> suppressed s (fst (attempt_once s n f ix input a st))"
  by (rule suppressed_attempt) (auto simp: runs_def effect_step_def)

lemma suppressed_item: "suppressed s st \<Longrightarrow> runs_item s m \<Longrightarrow> suppressed s (fst (attempt_once s m f ix input a st))"
  using item_not_capability [of s m] by (intro suppressed_attempt) (auto simp: runs_item_def effect_step_def)

interpretation effects: sim_run_invariant s "suppressed s" "suppressed s" for s
  by unfold_locales
    (auto simp: runs_def runs_item_def intro!: attempt_once_keeps intro: suppressed_step suppressed_item,
     auto simp: suppressed_def entry_def countAttempt_def split: if_splits)

text \<open>Every recorded output is what its step may produce.\<close>

definition outputs_typed :: "simulator \<Rightarrow> simState \<Rightarrow> bool" where
  "outputs_typed s st \<longleftrightarrow> (\<forall>i x. map_of (ss_state st) i = Some x \<longrightarrow> (\<exists>n. step_of (sv s) i = Some n \<and> step_output (squote s) n x))"

interpretation typed: sim_run_invariant s "outputs_typed s" "outputs_typed s" for s
  by unfold_locales
    (auto simp: outputs_typed_def runs_def runs_item_def entry_def countAttempt_def put_lookup intro!: attempt_once_keeps split: if_splits)

section \<open>Simulations of accepted definitions\<close>

lemma limits_positive: "checkLimits l = ([], rl, ok) \<Longrightarrow> 1 \<le> maxAttempts rl \<and> 1 \<le> parallel rl \<and> 1 \<le> tokenLimit rl"
  by (auto simp: checkLimits_def Let_def limit_check_def prob_def split: option.splits prod.splits if_splits)

lemma empty_state_ok:
  assumes "plan_ok h d (sv s) fl"
  shows "within_budget s empty_state" "suppressed s empty_state" "outputs_typed s empty_state"
    "reaches (sv s) (sinputs s) [] (Start (vdefinition (sv s))) (ss_state empty_state)"
proof -
  have "checkLimits (Limits d) = ([], vrunlimits (sv s), True)" using assms unfolding plan_ok_def by (elim conjE)
  from limits_positive [OF this] show "within_budget s empty_state"
    by (simp add: within_budget_def within_attempts_def logged_attempts_def slimits_def empty_state_def)
qed (simp_all add: suppressed_def outputs_typed_def empty_state_def reaches.start)

text \<open>What the report of a simulation of an accepted definition satisfies.\<close>

definition report_ok :: "quoter \<Rightarrow> validated \<Rightarrow> simulation \<Rightarrow> bool" where
  "report_ok quote v sim \<longleftrightarrow>
     si_Attempts sim \<le> maxAttempts (vrunlimits v) \<and>
     int (length (filter (\<lambda>e. te_Attempt e \<noteq> 0) (si_Trace sim))) \<le> si_Attempts sim \<and>
     (si_Status sim = ''failed'' \<or> si_Tokens sim \<le> tokenLimit (vrunlimits v)) \<and>
     map (\<lambda>e. (te_Step e, te_Input e)) (filter (\<lambda>e. te_Status e = ''previewed'') (si_Trace sim)) =
       map (\<lambda>p. (ep_Step p, ep_Input p)) (si_Previews sim) \<and>
     (\<forall>e \<in> set (si_Trace sim). te_Attempt e \<noteq> 0 \<longrightarrow> (\<exists>n. step_of v (te_Step e) = Some n \<and> nkind n = KindCapability \<and> is_effect n) \<longrightarrow>
        te_Status e \<in> {''previewed'', ''failed''}) \<and>
     (\<forall>p \<in> set (si_Previews sim). \<exists>n. step_of v (ep_Step p) = Some n \<and> nkind n = KindCapability \<and>
        (\<exists>input. preview_of n input = [p])) \<and>
     (si_Status sim \<in> {''succeeded'', ''failed'', ''waiting_for_human''}) \<and>
     (si_Status sim = ''succeeded'' \<longrightarrow> (\<exists>trace st. reaches v (si_Inputs sim) trace [] st \<and>
        si_Outputs sim = RunOutputs (vdefinition v) (si_Inputs sim) st \<and>
        (\<forall>i x. map_of st i = Some x \<longrightarrow> (\<exists>n. step_of v i = Some n \<and> step_output quote n x)))) \<and>
     (si_Status sim = ''waiting_for_human'' \<longrightarrow> (\<exists>trace i st n. reaches v (si_Inputs sim) trace i st \<and>
        step_of v i = Some n \<and> nkind n = KindInterrupt))"

lemma fixtures_problem:
  fixes s :: simulator
  assumes p: "plan_ok h d (sv s) fl" and e: "checkFixtures (sv s) f = Some e"
  shows "\<exists>q. e = Problem q"
proof -
  obtain i where i: "check_fixture (sv s) i (step_fixture f i) = Some e"
    using first_err_SomeD [OF e [unfolded checkFixtures_def]] by blast
  have item: "item n \<noteq> None" if "step_of (sv s) i = Some n" "nkind n = KindMap" for n
    using plan_runs(2) [OF p that] by auto
  have keys: "\<exists>q. x = Problem q" if "first_err (\<lambda>key. err_if (g key) (Problem (k key))) xs = Some x" for x g and k :: "string \<Rightarrow> errmsg" and xs
    using first_err_SomeD [OF that] by (auto simp: err_if_def split: if_splits)
  show ?thesis
    using i item keys unfolding check_fixture_def Let_def err_if_def
    by (auto split: option.splits if_splits simp: err_if_def)
qed

lemma Simulate_ok:
  assumes "run h d = Some ([], v)"
  shows "\<exists>r. Simulate dc quote digest hash v f = Some r \<and> r \<noteq> SimPanic \<and> (\<forall>sim. r = SimDone sim \<longrightarrow> report_ok quote v sim)"
proof -
  obtain fl where p: "plan_ok h d v fl" using run_ok [OF assms] by blast
  show ?thesis
  proof (cases "checkFixtures v f")
    case None
    show ?thesis
    proof (cases "AcceptInputs dc (vinputs v) (fx_Inputs f) []")
      case (Inr inputs)
      let ?s = "\<lparr>sv = v, sfx = f, sinputs = inputs, sdecode = dc, squote = quote\<rparr>"
      have p': "plan_ok h d (sv ?s) fl" using p by simp
      note e = empty_state_ok [OF p']
      obtain st q where r: "sim_run ?s (Start (vdefinition v)) empty_state = Some (st, q)" and b: "budget.run_end ?s (st, q)"
        using budget.sim_run_ok [OF p' e(4,1)] by auto
      have t: "effects.run_end ?s (st, q)" "typed.run_end ?s (st, q)"
        using effects.sim_run_ok [OF p' e(4,2)] typed.sim_run_ok [OF p' e(4,3)] r by auto
      show ?thesis
      proof (cases q)
        case (Inr status)
        have "report_ok quote v (sim_result ?s digest hash status [] st)"
          using b t unfolding Inr budget.run_end_def effects.run_end_def typed.run_end_def prod.case sum.case
          by (auto simp: report_ok_def sim_result_def within_budget_def within_attempts_def logged_attempts_def slimits_def
              suppressed_def effect_step_def outputs_typed_def)
        then show ?thesis using Inr r None \<open>AcceptInputs dc (vinputs v) (fx_Inputs f) [] = Inr inputs\<close> by (simp add: Simulate_def)
      next
        case (Inl er)
        have "report_ok quote v (sim_result ?s digest hash ''failed'' m st)" for m
          using b t unfolding Inl budget.run_end_def effects.run_end_def typed.run_end_def prod.case sum.case
          by (auto simp: report_ok_def sim_result_def within_attempts_def logged_attempts_def slimits_def
              suppressed_def effect_step_def)
        moreover have "(\<exists>m. er = RunFailed m) \<or> (\<exists>x. er = Problem x)" using b by (auto simp: Inl budget.run_end_def)
        ultimately show ?thesis using Inl r None \<open>AcceptInputs dc (vinputs v) (fx_Inputs f) [] = Inr inputs\<close>
          by (auto simp: Simulate_def)
      qed
    qed (simp add: Simulate_def None)
  next
    case (Some e)
    let ?s = "\<lparr>sv = v, sfx = f, sinputs = [], sdecode = dc, squote = quote\<rparr>"
    have "plan_ok h d (sv ?s) fl" using p by simp
    from fixtures_problem [OF this, of f e] obtain q where "e = Problem q" using Some by auto
    then show ?thesis by (simp add: Simulate_def Some)
  qed
qed

text \<open>The token count wraps: a fixture can hide that the run went over its limit.\<close>

lemma tokens_wrap:
  assumes "nkind n \<noteq> KindAgent" and "0 < ss_tokens st" and "ss_tokens st \<le> max_int64" and "0 \<le> tokenLimit (slimits s)"
  shows "countTokens s n max_int64 st = (st\<lparr>ss_tokens := ss_tokens st - max_int64 - 2\<rparr>, None)"
proof -
  have "wrap64 (ss_tokens st + max_int64) = ss_tokens st - max_int64 - 2"
    using assms(2,3) by (subst wrap64_over) (simp_all add: max_int64_def)
  then show ?thesis using assms by (simp add: countTokens_def Let_def max_int64_def)
qed

end
