(* ===== verification/Registered.thy ===== *)
theory Registered
  imports Simulated Gate Verdicts Ranking Adversarial Citations
begin

text \<open>
  The registry of reviewed functions, and that each of them gives a text with every refusal. The
  simulator takes an empty text for success, so this is what makes a recorded output of a deterministic
  step the result of its function.
\<close>

section \<open>The registry\<close>

text \<open>\<^verbatim>\<open>reviewedFunctions\<close> of functions.go: later functions of one id would replace earlier ones.\<close>

definition reviewed :: "(string \<Rightarrow> string) \<Rightarrow> url_parser \<Rightarrow> func list" where
  "reviewed lower parse_url = [collectClaims lower, expandBallots, majorityFilter, splitEvenly, tallyVerdicts, checkCitations,
     dedupSources lower parse_url, rankClaims lower parse_url, expandBallotsV2, tallyAdversarial lower parse_url,
     requireZero, gateProposals]"

definition reviewedFunctions :: "(string \<Rightarrow> string) \<Rightarrow> url_parser \<Rightarrow> func gomap" where
  "reviewedFunctions lower parse_url = fold (\<lambda>f out. put (fID f) f out) (reviewed lower parse_url) []"

lemma put_member: "x \<in> set (put k v m) \<Longrightarrow> x = (k, v) \<or> x \<in> set m"
  by (induction m) (auto simp: put_def split: if_splits)

lemma reviewedFunctions_member:
  assumes "(i, f) \<in> set (reviewedFunctions lower parse_url)"
  shows "f \<in> set (reviewed lower parse_url) \<and> i = fID f"
proof -
  have "\<forall>p \<in> set (fold (\<lambda>f out. put (fID f) f out) fs m). p \<in> set m \<or> (snd p \<in> set fs \<and> fst p = fID (snd p))" for fs m
  proof (induction fs arbitrary: m)
    case (Cons g fs)
    show ?case using Cons.IH [of "put (fID g) g m"] put_member by fastforce
  qed simp
  then show ?thesis using assms by (fastforce simp: reviewedFunctions_def)
qed

section \<open>Refusals have a text\<close>

text \<open>A format with a character that is printed as it is, and an error of such a format.\<close>

fun loud :: "string \<Rightarrow> bool" where
  "loud (c # d # cs) \<longleftrightarrow> c \<noteq> CHR ''%'' \<or> d = CHR ''%'' \<or> loud cs"
| "loud [c] \<longleftrightarrow> True"
| "loud [] \<longleftrightarrow> False"

primrec texted :: "errmsg \<Rightarrow> bool" where
  "texted (Errf f as) = loud f"

lemma loud_text: "loud f \<Longrightarrow> sprintf quote f as \<noteq> []"
  by (induction quote f as rule: sprintf.induct) (auto split: list.splits)

lemma texted_errText: "texted e \<Longrightarrow> errText quote e \<noteq> []"
  by (cases e) (simp add: loud_text)

definition errs_texted :: "errmsg option \<Rightarrow> bool" where
  "errs_texted r \<longleftrightarrow> (\<forall>e. r = Some e \<longrightarrow> texted e)"

lemma errs_texted_simps [simp]: "errs_texted None" "errs_texted (Some e) \<longleftrightarrow> texted e"
  by (simp_all add: errs_texted_def)

lemma errs_texted_intros [intro!]:
  "errs_texted a \<Longrightarrow> errs_texted b \<Longrightarrow> errs_texted (or_err a b)"
  "(q \<Longrightarrow> texted e) \<Longrightarrow> errs_texted (err_if q e)"
  "(\<And>x. x \<in> set xs \<Longrightarrow> errs_texted (g x)) \<Longrightarrow> errs_texted (first_err g xs)"
  by (auto simp: errs_texted_def or_err_def err_if_def split: option.splits if_splits dest!: first_err_SomeD)

lemma atPath_texted [simp]: "texted (atPath path format as)"
  by (simp add: atPath_def)

lemma parts_texted: "errs_texted (wrong_kind path want v)" "errs_texted (check_length t s path)" "errs_texted (check_count t xs path)"
  "errs_texted (check_bounds t v path)" "errs_texted (check_enum t v path)"
  by (auto simp: wrong_kind_def check_length_def check_count_def check_bounds_def check_enum_def Let_def split: option.split)

lemma checkAt_texted: "errs_texted (checkAt t v path)"
proof (induction t v path rule: checkAt.induct)
  case (2 t v path)
  show ?case
    unfolding checkAt.simps(2) [of t v path]
    using 2 by (auto simp: parts_texted split: kind.split val.split option.split)
qed simp

lemma checkArgs_texted: "errs_texted (checkArgs ps as)"
  unfolding checkArgs_def
  by (auto simp: param_bounds_def checkAt_texted split: option.split val.split)

lemma votes_texted:
  "count_votes tally vs = Inl e \<Longrightarrow> texted e" "tally_votes t vs = Inl e \<Longrightarrow> texted e"
  "gate_candidates n m cs = Inl e \<Longrightarrow> texted e" "read_votes lower parse_url k bs ns vs = Inl e \<Longrightarrow> texted e"
proof -
  show "count_votes tally vs = Inl e \<Longrightarrow> texted e"
    by (induction tally vs rule: count_votes.induct) (auto split: option.splits)
  show "tally_votes t vs = Inl e \<Longrightarrow> texted e"
    by (induction t vs rule: tally_votes.induct) (auto split: option.splits if_splits)
  show "gate_candidates n m cs = Inl e \<Longrightarrow> texted e"
    by (induction n m cs rule: gate_candidates.induct) (auto split: if_splits)
  show "read_votes lower parse_url k bs ns vs = Inl e \<Longrightarrow> texted e"
    by (induction lower parse_url k bs ns vs rule: read_votes.induct) (auto simp: Let_def split: option.splits if_splits)
qed

definition bodies_texted :: "(val gomap \<Rightarrow> outcome) \<Rightarrow> bool" where
  "bodies_texted body \<longleftrightarrow> (\<forall>input e. body input = Refused e \<longrightarrow> texted e)"

lemma checked_texted: "bodies_texted body \<Longrightarrow> bodies_texted (checked ps body)"
  using checkArgs_texted by (fastforce simp: bodies_texted_def checked_def errs_texted_def split: option.splits)

lemma silent_bodies:
  "bodies_texted (collect_body lower)" "bodies_texted expand_body" "bodies_texted split_body" "bodies_texted citation_body"
  "bodies_texted (dedup_body lower parse_url)" "bodies_texted (rank_body lower parse_url)" "bodies_texted expand2_body"
  by (simp_all add: bodies_texted_def collect_body_def expand_body_def split_body_def citation_body_def dedup_body_def rank_body_def
      expand2_body_def Let_def split_beta)

lemma refusing_bodies:
  "bodies_texted majority_body" "bodies_texted tally_body" "bodies_texted (tallyClaims lower parse_url)" "bodies_texted require_body"
  "bodies_texted gate_body"
  by (auto simp: bodies_texted_def majority_body_def tally_body_def tallyClaims_def require_body_def gate_body_def Let_def votes_texted
      split: sum.splits option.splits if_splits)

lemma reviewed_texted: "f \<in> set (reviewed lower parse_url) \<Longrightarrow> bodies_texted (Call f)"
  unfolding reviewed_def
  by (auto simp: collectClaims_def expandBallots_def majorityFilter_def splitEvenly_def tallyVerdicts_def checkCitations_def
      dedupSources_def rankClaims_def expandBallotsV2_def tallyAdversarial_def requireZero_def gateProposals_def
      intro!: checked_texted silent_bodies refusing_bodies)

text \<open>The steps and items of a definition that is accepted with these functions.\<close>

lemma plan_speaks:
  assumes p: "plan_ok h d v fl" and r: "set (h_registry h) \<subseteq> set (reviewedFunctions lower parse_url)" and n: "step_of v i = Some n"
  shows "speaks quote n" and "nkind n = KindMap \<Longrightarrow> item n = Some m \<Longrightarrow> speaks quote m"
proof -
  have speaks: "speaks quote a" if "compiled_ok (validator_of h d) b" "same0 a b" for a b :: "'x node0_scheme"
  proof -
    have e: "fn a = fn b" "nkind a = nkind b" using that(2) by (simp_all add: same0_def)
    have "texted e" if "nkind a = KindDeterministic" "fn a = Some f" "Call f input = Refused e" for f input e
    proof -
      have "map_of (h_registry h) (Function (nstep b)) = Some f"
        using \<open>compiled_ok (validator_of h d) b\<close> that(1,2) e by (auto simp: compiled_ok_def validator_of_def split: prod.splits)
      then have "(Function (nstep b), f) \<in> set (reviewedFunctions lower parse_url)" using r map_of_SomeD by fast
      then have "f \<in> set (reviewed lower parse_url)" by (simp add: reviewedFunctions_member)
      then show ?thesis using reviewed_texted that(3) by (auto simp: bodies_texted_def)
    qed
    then show ?thesis by (auto simp: speaks_def texted_errText)
  qed
  obtain n0 where n0: "node_ok (validator_of h d) n0" "same_node n n0" using plan_node(4) [OF p n] by blast
  have "compiled_ok (validator_of h d) n0" "same0 n n0" using n0 by (simp_all add: node_ok_def same_node_def)
  then show "speaks quote n" by (rule speaks)
  assume k: "nkind n = KindMap" and m: "item n = Some m"
  have "item_ok (validator_of h d) n0" using n0(1) by (simp add: node_ok_def)
  moreover have "nkind n0 = KindMap" using k same_node_sel [OF n0(2)] by simp
  ultimately obtain m0 where m0: "item n0 = Some m0" "compiled_ok (validator_of h d) m0" unfolding item_ok_def by auto
  then have "same0 m m0" using n0(2) m by (auto simp: same_node_def)
  with m0(2) show "speaks quote m" by (rule speaks)
qed

text \<open>What is recorded for a step, once every refusal has a text.\<close>

lemma recorded_typed:
  assumes p: "plan_ok h d v fl" and r: "set (h_registry h) \<subseteq> set (reviewedFunctions lower parse_url)" and n: "step_of v i = Some n"
    and x: "step_output quote n x"
  shows "(nkind n = KindMap \<longrightarrow> (\<exists>m xs os. item n = Some m \<and> int (length xs) \<le> SMaxItems (nstep n) \<and> mapOutput xs os = Inr x \<and>
       map Index os = map int [0..<length xs] \<and> (\<forall>oc \<in> set os. Succeeded oc \<longrightarrow> attempt_typed m (Output oc)) \<and>
       (OnItemFailure (nstep n) = ''fail'' \<longrightarrow> (\<forall>oc \<in> set os. Succeeded oc)) \<and>
       (OnItemFailure (nstep n) = ''partial'' \<longrightarrow> MinSucceeded (nstep n) \<le> int (length (filter Succeeded os))))) \<and>
    (nkind n = KindInterrupt \<longrightarrow> conforms (nschema n) x) \<and>
    (nkind n \<noteq> KindMap \<and> nkind n \<noteq> KindInterrupt \<longrightarrow> attempt_typed n x)"
proof (intro conjI impI)
  assume k: "nkind n = KindMap"
  then obtain m xs os where m: "item n = Some m" "int (length xs) \<le> SMaxItems (nstep n)" "mapOutput xs os = Inr x"
      "map Index os = map int [0..<length xs]" "outcomes_typed quote n m os"
      "OnItemFailure (nstep n) = ''partial'' \<longrightarrow> MinSucceeded (nstep n) \<le> int (length (filter Succeeded os))"
    using x by (auto simp: step_output_def map_output_def)
  moreover note plan_speaks(2) [OF p r n k m(1)]
  ultimately show "\<exists>m xs os. item n = Some m \<and> int (length xs) \<le> SMaxItems (nstep n) \<and> mapOutput xs os = Inr x \<and>
       map Index os = map int [0..<length xs] \<and> (\<forall>oc \<in> set os. Succeeded oc \<longrightarrow> attempt_typed m (Output oc)) \<and>
       (OnItemFailure (nstep n) = ''fail'' \<longrightarrow> (\<forall>oc \<in> set os. Succeeded oc)) \<and>
       (OnItemFailure (nstep n) = ''partial'' \<longrightarrow> MinSucceeded (nstep n) \<le> int (length (filter Succeeded os)))"
    by (auto simp: outcomes_typed_def)
next
  assume "nkind n = KindInterrupt"
  then show "conforms (nschema n) x" using x by (simp add: step_output_def)
next
  assume "nkind n \<noteq> KindMap \<and> nkind n \<noteq> KindInterrupt"
  then show "attempt_typed n x" using x plan_speaks(1) [OF p r n] by (simp add: step_output_def)
qed

section \<open>A function of the registry\<close>

lemma version_texts: "itoa 1 = ''1''" "itoa 2 = ''2''"
  by (simp_all add: itoa_def nat_text.simps char_of_def bit_0)

lemma reviewed_split: "(''split_evenly@1'', splitEvenly) \<in> set (reviewedFunctions lower parse_url)"
proof (rule map_of_SomeD)
  show "map_of (reviewedFunctions lower parse_url) ''split_evenly@1'' = Some splitEvenly"
    by (simp add: reviewedFunctions_def reviewed_def put_lookup fID_def version_texts collectClaims_def expandBallots_def majorityFilter_def
        splitEvenly_def tallyVerdicts_def checkCitations_def dedupSources_def rankClaims_def expandBallotsV2_def tallyAdversarial_def
        requireZero_def gateProposals_def)
qed

end
