(* ===== verification/Example.thy ===== *)
theory Example
  imports Running
begin

text \<open>
  A worked definition: an integer input is halved, a branch reads the remainder, and a last step
  splits the half. Every check of the validator is evaluated on it, so that the properties of
  validated definitions have an instance.
\<close>

section \<open>The definition and its host\<close>

definition no_step :: step where
  "no_step = \<lparr>ID = [], SKind = [], Description = [], Next = [], Retry = None, Input = [], Function = [], Capability = [],
     Contract = [], Connection = [], Resource = [], ModelPolicy = [], Prompt = [], OutputSchema = [], Worker = [],
     Objective = [], Budget = None, Cases = [], Default = [], Message = [], ResponseSchema = [], Over = [],
     SMaxItems = 0, MaxParallel = 0, OnItemFailure = [], MinSucceeded = 0, keys = [], Item = None\<rparr>"

definition ex_s :: step where
  "ex_s = no_step\<lparr>ID := ''s'', SKind := ''deterministic'', Function := ''split_evenly@1'', Next := ''b'',
     Input := [(''total'', YScalar ''!!str'' ''$inputs.n'' 9), (''parts'', YScalar ''!!int'' ''2'' 10)],
     keys := [''id'', ''kind'', ''function'', ''input'', ''next'']\<rparr>"

definition ex_b :: step where
  "ex_b = no_step\<lparr>ID := ''b'', SKind := ''branch'',
     Cases := [\<lparr>When = Some \<lparr>w_Ref = ''$steps.s.output.remainder'', w_Op = ''eq'', w_Value = YScalar ''!!int'' ''0'' 14\<rparr>, CNext = ''t''\<rparr>],
     Default := ''t'', keys := [''id'', ''kind'', ''cases'', ''default'']\<rparr>"

definition ex_t :: step where
  "ex_t = no_step\<lparr>ID := ''t'', SKind := ''deterministic'', Function := ''split_evenly@1'',
     Input := [(''total'', YScalar ''!!str'' ''$steps.s.output.share'' 19), (''parts'', YScalar ''!!int'' ''1'' 20)],
     Next := ''p'', keys := [''id'', ''kind'', ''function'', ''input'', ''next'']\<rparr>"

definition ex_p :: step where
  "ex_p = no_step\<lparr>ID := ''p'', SKind := ''capability'', Capability := ''ledger.post'', Contract := ''1.0.0'', Connection := ''main'',
     Resource := ''book'', Input := [(''amount'', YScalar ''!!str'' ''$steps.t.output.share'' 27)],
     keys := [''id'', ''kind'', ''capability'', ''contract'', ''connection'', ''resource'', ''input'']\<rparr>"

definition ex_contract :: capabilityContract where
  "ex_contract = \<lparr>CID = ''ledger.post'', CContract = ''1.0.0'', Effect = True, Idempotent = False, Reconciles = True, ConflictKeys = [],
     CInput = Some (ObjectType [fld ''amount'' IntegerType]), COutput = None, Connections = [], Resources = [], ResourcePrefix = []\<rparr>"

definition ex_def :: definition_ where
  "ex_def = \<lparr>SchemaVersion = 1, DName = ''halve'', DDescription = [],
     Inputs = [(''n'', \<lparr>i_Type = ''integer'', i_Description = [], i_Required = True, i_Default = YAbsent, i_Enum = [],
        i_Minimum = None, i_Maximum = None, i_MaxLength = None, i_Sensitive = True\<rparr>)],
     RunKey = Some [''n''], ModelPolicies = [],
     Limits = Some \<lparr>l_MaxDuration = ''1h'', l_MaxAttempts = 10, l_MaxParallel = 1, l_MaxTokens = 1000\<rparr>,
     Authority = Some [\<lparr>o_Capability = ''ledger.post'', o_Connection = ''main'', o_Resources = [''book''], o_MaxCallsPerRun = 1\<rparr>], Schedule = None, Retention = Some ''ordinary'', Start = ''s'', Steps = [ex_s, ex_b, ex_t, ex_p],
     Outputs = [(''out'', ''$steps.t.output.share'')]\<rparr>"

definition ex_host :: host where
  "ex_host = \<lparr>h_source = (\<lambda>p. ReadOk []), h_decode = (\<lambda>s. Inl (Errf [] [])),
     h_env = \<lparr>Capabilities = (\<lambda>i. if i = ''ledger.post'' then Some ex_contract else None),
       Access = [\<lparr>AID = ''main'', AResources = [''book'']\<rparr>], WDeadline = 1, WTokens = 1, AccessUnchecked = False\<rparr>,
     h_registry = [(''split_evenly@1'', splitEvenly)], h_location = (\<lambda>_. False)\<rparr>"

lemmas num_ev = parse_nat_def is_digit_def ccode_def digits_val_def digit_val_def range_checked_def in_int64_def min_int64_def
  max_int64_def itoa_def nat_text.simps char_of_def bit_0

lemmas kind_ev = KindDeterministic_def KindCapability_def KindAI_def KindBranch_def KindInterrupt_def KindMap_def KindAgent_def

lemma ex_limits: "checkLimits (Limits ex_def) = ([], \<lparr>duration = 3600000000000, maxAttempts = 10, parallel = 1, tokenLimit = 1000\<rparr>, True)"
  by (simp add: ex_def_def checkLimits_def duration_check_def limit_check_def parsePositiveDuration_def parseDuration_def num_ev
    duration_sum.simps duration_part_def span_digits_def unit_ns_def two63_def two64_def bound_defs prob_def)

lemma ex_header: "checkHeader ex_def = []"
  by (simp add: ex_def_def checkHeader_def currentSchemaVersion_def on_def namePattern_def num_ev is_lower_def)

definition ex_ins :: "inputInfo gomap" where
  "ex_ins = [(''n'', \<lparr>iname = ''n'', spec = snd (hd (Inputs ex_def)), itype = plain KInteger, idefault = VNil, hasDefault = False\<rparr>)]"

lemma ex_inputs: "checkInputs (Inputs ex_def) = ([], ex_ins)"
  by (simp add: ex_def_def ex_ins_def checkInputs_def compileInput_def sortedKeys_def identifierPattern_def num_ev is_lower_def
    input_kind_def Let_def written_def on_def List.map_filter_simps plain_def)

definition ex_det :: "step \<Rightarrow> node" where
  "ex_det s = \<lparr>nstep = step0.truncate s, nid = ID s, npath = ''steps.'' @ ID s, nkind = KindDeterministic, isItem = False,
     attempts = 1, backoff = 0, args = [], noutput = Some (Result splitEvenly), fn = Some splitEvenly, cap = None, nschema = None,
     nbudget = 0, ntokens = 0, over = None, elem = None, cases = [], known = True, item = None\<rparr>"

lemma validator_ex [simp]: "registry (validator_of ex_host ex_def) = [(''split_evenly@1'', splitEvenly)]"
   "defn (validator_of ex_host ex_def) = ex_def" "env (validator_of ex_host ex_def) = h_env ex_host"
  by (simp_all add: validator_of_def ex_host_def ex_limits)

lemma ex_sN: "compile (validator_of ex_host ex_def) ex_s ''steps.s'' ld = (ex_det ex_s, [], ld)"
  by (simp add: ex_s_def no_step_def compile_def compile0_def compile_kind_def Let_def new_node_def kind_ev fieldsByKind_def containsByte_def
    unexpected_fields_def retryPolicy_def compileFunction_def ex_det_def accepted_fields_def on_def step0.truncate_def node0.extend_def)

lemma ex_tN: "compile (validator_of ex_host ex_def) ex_t ''steps.t'' ld = (ex_det ex_t, [], ld)"
  by (simp add: ex_t_def no_step_def compile_def compile0_def compile_kind_def Let_def new_node_def kind_ev fieldsByKind_def containsByte_def
    unexpected_fields_def retryPolicy_def compileFunction_def ex_det_def accepted_fields_def on_def step0.truncate_def node0.extend_def)

definition ex_cap :: node where
  "ex_cap = \<lparr>nstep = step0.truncate ex_p, nid = ''p'', npath = ''steps.p'', nkind = KindCapability, isItem = False,
     attempts = 1, backoff = 0, args = [], noutput = Some (ObjectType []), fn = None, cap = Some ex_contract, nschema = None,
     nbudget = 0, ntokens = 0, over = None, elem = None, cases = [], known = True, item = None\<rparr>"

lemma ex_pattern: "capabilityPattern ''ledger.post''"
  by (simp add: capabilityPattern_def num_ev is_lower_def)

lemma ex_pC: "compileCapability (h_env ex_host) ex_def ex_p ''steps.p'' 1 = ([], Some ex_contract)"
  by (simp add: compileCapability_def capability_fields_def contract_checks_def ex_p_def no_step_def on_def ex_pattern ex_host_def
    ex_contract_def access_connection_def allows_def authorityCovers_def ex_def_def hasPrefix_def)

lemma ex_pN: "compile (validator_of ex_host ex_def) ex_p ''steps.p'' ld = (ex_cap, [], ld)"
proof -
  have p: "SKind ex_p = ''capability''" "ID ex_p = ''p''" "Retry ex_p = None"
      "keys ex_p = [''id'', ''kind'', ''capability'', ''contract'', ''connection'', ''resource'', ''input'']"
    by (simp_all add: ex_p_def no_step_def)
  show ?thesis
    by (simp add: compile_def compile0_def compile_kind_def Let_def new_node_def kind_ev fieldsByKind_def p ex_pC
      unexpected_fields_def retryPolicy_def ex_cap_def accepted_fields_def on_def node0.extend_def orEmptyObject_def ex_contract_def)
qed

definition ex_ref :: "ref" where "ex_ref = \<lparr>Raw = ''$steps.s.output.remainder'', Root = refSteps, RName = ''s'', Path = [''remainder'']\<rparr>"

lemma ex_r1: "parseRef ''$steps.s.output.remainder'' = Inr ex_ref"
  by (simp add: parseRef_def ex_ref_def num_ev root_defs Let_def refSegment_def is_lower_def is_alpha_def is_alnum_def is_upper_def)

definition ex_bn :: node where
  "ex_bn = \<lparr>nstep = step0.truncate ex_b, nid = ''b'', npath = ''steps.b'', nkind = KindBranch, isItem = False,
     attempts = 1, backoff = 0, args = [], noutput = None, fn = None, cap = None, nschema = None,
     nbudget = 0, ntokens = 0, over = None, elem = None,
   cases = [\<lparr>cref = Some ex_ref, cop = ''eq'', cvalue = VInt 0, hasValue = True, cnext = ''t''\<rparr>], known = True, item = None\<rparr>"

lemma ex_bN: "compile (validator_of ex_host ex_def) ex_b ''steps.b'' ld = (ex_bn, [], ld)"
  by (simp add: ex_b_def no_step_def compile_def compile0_def compile_kind_def Let_def new_node_def kind_ev fieldsByKind_def containsByte_def
    unexpected_fields_def retryPolicy_def ex_bn_def accepted_fields_def on_def step0.truncate_def node0.extend_def
    compileBranch_def compileCase_def case_ref_def ex_r1 case_op_def conditionOps_def unaryOp_def case_value_def written_def scalarValue_def num_ev List.map_filter_simps)

definition ex_nodes :: "node list" where "ex_nodes = [ex_det ex_s, ex_bn, ex_det ex_t, ex_cap]"

lemma ex_steps: "collectSteps (validator_of ex_host ex_def) = (ex_nodes, [], empty_loader)"
proof -
  have i: "ID ex_s = ''s''" "ID ex_b = ''b''" "ID ex_t = ''t''" "ID ex_p = ''p''" "Steps ex_def = [ex_s, ex_b, ex_t, ex_p]"
    by (simp_all add: ex_s_def ex_b_def ex_t_def ex_p_def no_step_def ex_def_def)
  show ?thesis
    by (simp add: collectSteps_def i identifierPattern_def num_ev is_lower_def ex_sN ex_bN ex_tN [simplified] ex_pN ex_nodes_def on_def
      Let_def ex_det_def ex_bn_def ex_cap_def)
qed

lemma ex_graph: "graph_of ex_nodes = [(''s'', [''b'']), (''b'', [''t'']), (''t'', [''p'']), (''p'', [])]"
  by (simp add: ex_nodes_def graph_of_def ex_det_def ex_bn_def ex_cap_def ex_s_def ex_b_def ex_t_def ex_p_def no_step_def edges_def link_def
    kind_ev step0.truncate_def List.map_filter_simps)

definition ex_fl :: flow where
  "ex_fl = \<lparr>fstart = ''s'', fgraph = graph_of ex_nodes, freach = [''s'', ''b'', ''t'', ''p''], facyclic = True, forder = [''s'', ''b'', ''t'', ''p''],
     fdom = [(''s'', [''s'']), (''b'', [''s'', ''b'']), (''t'', [''s'', ''b'', ''t'']),
      (''p'', [''s'', ''b'', ''t'', ''p''])]\<rparr>"

definition ex_g :: graph where "ex_g = [(''s'', [''b'']), (''b'', [''t'']), (''t'', [''p'']), (''p'', [])]"

lemma ex_dfs: "acyclicFlag (dfs ex_g)" "cycles (dfs ex_g) = []"
 by (simp_all add: ex_g_def dfs_def dfs_start_def visit_def enter_def leave_def nexts_def)

lemma ex_reach: "reachable ex_g ''s'' = [''s'', ''b'', ''t'', ''p'']"
  by (simp add: ex_g_def reachable_def ids_def fresh_def nexts_def)

lemma ex_topo: "topological_order ex_g = Some [''s'', ''b'', ''t'', ''p'']"
  by (simp add: ex_g_def topological_order_def topo.simps indegrees_def lower_all_def)

lemma ex_dom: "dominators ex_g ''s'' [''s'', ''b'', ''t'', ''p''] [''s'', ''b'', ''t'', ''p''] =
    [(''s'', [''s'']), (''b'', [''s'', ''b'']), (''t'', [''s'', ''b'', ''t'']),
      (''p'', [''s'', ''b'', ''t'', ''p''])]"
  by (simp add: ex_g_def dominators_def dom_step_def dom_of_def preds_def put_def)

lemmas node_ev = ex_nodes_def ex_det_def ex_bn_def ex_cap_def ex_s_def ex_b_def ex_t_def ex_p_def no_step_def edges_def kind_ev step0.truncate_def List.map_filter_simps

lemma ex_links: "start_problems ''s'' ex_nodes = []" "unknown_edges ex_nodes = []" "unreachable_steps ''s'' ex_nodes [''s'', ''b'', ''t'', ''p''] = []"
  by (simp_all add: start_problems_def unknown_edges_def unreachable_steps_def node_ev on_def)

lemma ex_check: "checkGraph ''s'' ex_nodes = Some ([], ex_fl)"
  by (simp add: checkGraph_def Let_def ex_graph [folded ex_g_def] ex_dfs ex_reach ex_topo ex_dom ex_fl_def ex_links)

definition ex_arg :: "ref \<Rightarrow> ty \<Rightarrow> arg" where "ex_arg r t = \<lparr>ARef = Some r, ALit = VNil, AConst = False, AType = Some t\<rparr>"
definition ex_lit :: "int \<Rightarrow> arg" where "ex_lit n = \<lparr>ARef = None, ALit = VInt n, AConst = True, AType = Some IntegerType\<rparr>"
definition ex_ref_n :: "ref" where "ex_ref_n = \<lparr>Raw = ''$inputs.n'', Root = refInputs, RName = ''n'', Path = []\<rparr>"
definition ex_ref_t :: "ref" where "ex_ref_t = \<lparr>Raw = ''$steps.s.output.share'', Root = refSteps, RName = ''s'', Path = [''share'']\<rparr>"

lemma ex_r2: "parseRef ''$inputs.n'' = Inr ex_ref_n"
  by (simp add: parseRef_def ex_ref_n_def num_ev root_defs Let_def refSegment_def is_lower_def is_alpha_def is_alnum_def is_upper_def)
lemma ex_r3: "parseRef ''$steps.s.output.share'' = Inr ex_ref_t"
  by (simp add: parseRef_def ex_ref_t_def num_ev root_defs Let_def refSegment_def is_lower_def is_alpha_def is_alnum_def is_upper_def)

definition ex_s2 :: node where
  "ex_s2 = (ex_det ex_s)\<lparr>args := [(''parts'', ex_lit 2), (''total'', ex_arg ex_ref_n (plain KInteger))], noutput := Some (split_result 2 2)\<rparr>"
definition ex_t2 :: node where
  "ex_t2 = (ex_det ex_t)\<lparr>args := [(''parts'', ex_lit 1), (''total'', ex_arg ex_ref_t IntegerType)], noutput := Some (split_result 1 1)\<rparr>"

lemma ex_det_sel [simp]: "nid (ex_det s) = ID s" "nstep (ex_det s) = step0.truncate s" "nkind (ex_det s) = KindDeterministic"
    "fn (ex_det s) = Some splitEvenly" "npath (ex_det s) = ''steps.'' @ ID s" "args (ex_det s) = []" "noutput (ex_det s) = Some (Result splitEvenly)"
    "over (ex_det s) = None" "known (ex_det s)"
  by (simp_all add: ex_det_def)
lemma ex_s_sel [simp]: "ID ex_s = ''s''" "Input ex_s = [(''total'', YScalar ''!!str'' ''$inputs.n'' 9), (''parts'', YScalar ''!!int'' ''2'' 10)]"
 "ID ex_t = ''t''" "Input ex_t = [(''total'', YScalar ''!!str'' ''$steps.s.output.share'' 19), (''parts'', YScalar ''!!int'' ''1'' 20)]"
  by (simp_all add: ex_s_def ex_t_def no_step_def)

lemma ex_args_s: "compiled_args ex_ins ex_fl ex_nodes (ex_det ex_s) (Some ''s'') None =
   [(''parts'', Inr (ex_lit 2)), (''total'', Inr (ex_arg ex_ref_n (plain KInteger)))]"
  by (simp add: compiled_args_def sortedKeys_def compileArg_def scalarValue_def num_ev isRefText_def ex_r2 refType_def ex_ref_n_def
   root_defs ex_ins_def ex_lit_def ex_arg_def wrap_ref_def walkType_def IntegerType_def)

lemma int_fits: "assignable (Some (plain KInteger)) (Some IntegerType) = None" "assignable (Some IntegerType) (Some IntegerType) = None"
    "checkValue (Some IntegerType) (VInt n) = None"
  by (simp_all add: IntegerType_def plain_def assignable.simps checkValue_def isAny_def checkAt.simps check_bounds_def check_enum_def below_def beyond_def)

lemma int_kind: "Kind IntegerType = KInteger" "Enum IntegerType = []"
  by (simp_all add: IntegerType_def plain_def)

lemma ex_params: "Params splitEvenly = split_params" "Refine splitEvenly = Some split_refine" "Result splitEvenly = split_result 1 maxSplitParts"
  by (simp_all add: splitEvenly_def)

lemma ex_fun_s: "checkFunctionArgs splitEvenly ((ex_det ex_s)\<lparr>args := [(''parts'', ex_lit 2), (''total'', ex_arg ex_ref_n (plain KInteger))]\<rparr>)
   = ([], [(''total'', \<lparr>SType = Some (plain KInteger), Literal = VNil, IsConst = False\<rparr>),
    (''parts'', \<lparr>SType = Some IntegerType, Literal = VInt 2, IsConst = True\<rparr>)])"
  by (simp add: checkFunctionArgs_def ex_params split_params_def check_param_def on_def sortedKeys_def hasKey_def ex_lit_def ex_arg_def
   int_fits maxSplitParts_def param_bounds_def put_def or_err_def err_if_def)
lemma ex_res_s: "resolve ex_ins ex_fl ex_nodes (ex_det ex_s) = (ex_s2, [])"
  by (simp add: resolve_def resolve0_def Let_def ex_args_s good_args_def List.map_filter_simps arg_problems_def
   ex_fun_s ex_params kind_ev ex_s2_def split_refine_def)

definition ex_ref_o :: "ref" where "ex_ref_o = \<lparr>Raw = ''$steps.t.output.share'', Root = refSteps, RName = ''t'', Path = [''share'']\<rparr>"
lemma ex_r4: "parseRef ''$steps.t.output.share'' = Inr ex_ref_o"
  by (simp add: parseRef_def ex_ref_o_def num_ev root_defs Let_def refSegment_def is_lower_def is_alpha_def is_alnum_def is_upper_def)

definition ex_cap2 :: node where
  "ex_cap2 = ex_cap\<lparr>args := [(''amount'', ex_arg ex_ref_o IntegerType)]\<rparr>"

definition ex_nodes2 :: "node list" where "ex_nodes2 = [ex_s2, ex_bn, ex_det ex_t, ex_cap]"
definition ex_nodes3 :: "node list" where "ex_nodes3 = [ex_s2, ex_bn, ex_t2, ex_cap]"
definition ex_nodes4 :: "node list" where "ex_nodes4 = [ex_s2, ex_bn, ex_t2, ex_cap2]"

lemma ex_cap_sel [simp]: "nid ex_cap = ''p''" "nkind ex_cap = KindCapability" "npath ex_cap = ''steps.p''" "args ex_cap = []"
   "Input (nstep ex_cap) = [(''amount'', YScalar ''!!str'' ''$steps.t.output.share'' 27)]" "known ex_cap" "cap ex_cap = Some ex_contract"
  by (simp_all add: ex_cap_def ex_p_def no_step_def step0.truncate_def)

lemma ex_cap2_sel [simp]: "nid ex_cap2 = ''p''" "nkind ex_cap2 = KindCapability" "cap ex_cap2 = Some ex_contract" "attempts ex_cap2 = 1"
  "Capability (nstep ex_cap2) = ''ledger.post''" "Connection (nstep ex_cap2) = ''main''" "Resource (nstep ex_cap2) = ''book''"
  by (simp_all add: ex_cap2_def ex_cap_def ex_p_def no_step_def step0.truncate_def)

lemma ex_bn_sel [simp]: "nid ex_bn = ''b''" "nkind ex_bn = KindBranch" "npath ex_bn = ''steps.b''" "args ex_bn = []"
   "nstep ex_bn = step0.truncate ex_b" "Input ex_b = []" "known ex_bn"
   "cases ex_bn = [\<lparr>cref = Some ex_ref, cop = ''eq'', cvalue = VInt 0, hasValue = True, cnext = ''t''\<rparr>]"
  by (simp_all add: ex_bn_def ex_b_def no_step_def)

lemma ex_s2_sel [simp]: "nid ex_s2 = ''s''" "nkind ex_s2 = KindDeterministic" "noutput ex_s2 = Some (split_result 2 2)"
    "nid ex_t2 = ''t''" "nkind ex_t2 = KindDeterministic" "noutput ex_t2 = Some (split_result 1 1)"
  by (simp_all add: ex_s2_def ex_t2_def)

lemma ex_doms: "dominates ex_fl ''s'' ''b''" "dominates ex_fl ''s'' ''t''" "dominates ex_fl ''t'' ''p''"
  by (simp_all add: dominates_def ex_fl_def dom_of_def)

lemma split_fields: "walkType (Some (split_result lo hi)) [''share''] = Inr (Some IntegerType)"
   "walkType (Some (split_result lo hi)) [''remainder''] = Inr (Some IntegerType)"
  by (simp_all add: walkType_def split_result_def field_def ObjectType_def put_def IntegerType_def plain_def)

lemma ex_node_of2: "node_of ex_nodes2 ''s'' = Some ex_s2"  "node_of ex_nodes2 ''b'' = Some ex_bn" "node_of ex_nodes2 ''t'' = Some (ex_det ex_t)"
  "node_of ex_nodes2 ''p'' = Some ex_cap" "node_of ex_nodes3 ''p'' = Some ex_cap" "node_of ex_nodes3 ''t'' = Some ex_t2" "node_of ex_nodes4 ''t'' = Some ex_t2"  "node_of ex_nodes ''s'' = Some (ex_det ex_s)"
  by (simp_all add: ex_nodes_def ex_nodes2_def ex_nodes3_def ex_nodes4_def node_of_def)

lemma ex_ref_types: "refType ex_ins ex_fl ex_nodes2 ex_ref (Some ''b'') None = Inr (Some IntegerType)"
  "refType ex_ins ex_fl ex_nodes2 ex_ref_t (Some ''t'') None = Inr (Some IntegerType)"
  "refType ex_ins ex_fl ex_nodes3 ex_ref_o (Some ''p'') None = Inr (Some IntegerType)"
  by (simp_all add: refType_def ex_ref_def ex_ref_t_def ex_ref_o_def root_defs ex_node_of2 ex_doms split_fields wrap_ref_def kind_ev)

lemma ex_args_t: "compiled_args ex_ins ex_fl ex_nodes2 (ex_det ex_t) (Some ''t'') None =
   [(''parts'', Inr (ex_lit 1)), (''total'', Inr (ex_arg ex_ref_t IntegerType))]"
  by (simp add: compiled_args_def sortedKeys_def compileArg_def scalarValue_def num_ev isRefText_def ex_r3 ex_ref_types
   ex_lit_def ex_arg_def)

lemma ex_fun_t: "checkFunctionArgs splitEvenly ((ex_det ex_t)\<lparr>args := [(''parts'', ex_lit 1), (''total'', ex_arg ex_ref_t IntegerType)]\<rparr>)
   = ([], [(''total'', \<lparr>SType = Some IntegerType, Literal = VNil, IsConst = False\<rparr>),
    (''parts'', \<lparr>SType = Some IntegerType, Literal = VInt 1, IsConst = True\<rparr>)])"
  by (simp add: checkFunctionArgs_def ex_params split_params_def check_param_def on_def sortedKeys_def hasKey_def ex_lit_def ex_arg_def
   int_fits maxSplitParts_def param_bounds_def put_def or_err_def err_if_def)

lemma ex_res_t: "resolve ex_ins ex_fl ex_nodes2 (ex_det ex_t) = (ex_t2, [])"
  by (simp add: resolve_def resolve0_def Let_def ex_args_t good_args_def List.map_filter_simps arg_problems_def
   ex_fun_t ex_params kind_ev ex_t2_def split_refine_def)

lemma ex_res_b: "resolve ex_ins ex_fl ex_nodes2 ex_bn = (ex_bn, [])"
  by (simp add: resolve_def resolve0_def Let_def compiled_args_def sortedKeys_def good_args_def List.map_filter_simps arg_problems_def
   resolveBranch_def resolve_case_def ex_ref_types kind_ev conditionOps_def unaryOp_def int_kind int_fits [unfolded IntegerType_def plain_def])

lemma ex_res_p: "resolve ex_ins ex_fl ex_nodes3 ex_cap = (ex_cap2, [])"
proof -
  have a: "compiled_args ex_ins ex_fl ex_nodes3 ex_cap (Some ''p'') None = [(''amount'', Inr (ex_arg ex_ref_o IntegerType))]"
    by (simp add: compiled_args_def sortedKeys_def compileArg_def scalarValue_def isRefText_def ex_r4 ex_ref_types ex_arg_def)
  have c: "checkCapabilityInput ex_contract (ex_cap\<lparr>args := [(''amount'', ex_arg ex_ref_o IntegerType)]\<rparr>) = []"
    by (simp add: checkCapabilityInput_def ex_contract_def orEmptyObject_def ObjectType_def put_def on_def hasKey_def sortedKeys_def
      ex_arg_def int_fits)
  show ?thesis
    by (simp add: resolve_def resolve0_def Let_def a good_args_def List.map_filter_simps arg_problems_def c kind_ev ex_cap2_def)
qed

lemma ex_resolved: "resolve_steps ex_ins ex_fl [''s'', ''b'', ''t'', ''p''] ex_nodes = (ex_nodes4, [])"
proof -
  have r: "replace_node ex_nodes ex_s2 = ex_nodes2" "replace_node ex_nodes2 ex_bn = ex_nodes2" "replace_node ex_nodes2 ex_t2 = ex_nodes3"
      "replace_node ex_nodes3 ex_cap2 = ex_nodes4"
    by (simp_all add: replace_node_def ex_nodes_def ex_nodes2_def ex_nodes3_def ex_nodes4_def)
  have f: "freach ex_fl = [''s'', ''b'', ''t'', ''p'']" by (simp add: ex_fl_def)
  show ?thesis by (simp add: r f ex_node_of2 ex_res_s ex_res_b ex_res_t ex_res_p)
qed

lemma ex_outputs: "checkOutputs ex_ins ex_fl ex_nodes4 (Outputs ex_def) = ([], [\<lparr>oname = ''out'', oref = ex_ref_o, always = True\<rparr>])"
proof -
  have t: "terminals ex_fl = [''p'']" "facyclic ex_fl" by (simp_all add: terminals_def ex_fl_def ex_graph nexts_def)
  have o: "Root ex_ref_o = refSteps" "RName ex_ref_o = ''t''" "Path ex_ref_o = [''share'']" by (simp_all add: ex_ref_o_def)
  have "refType ex_ins ex_fl ex_nodes4 ex_ref_o None None = Inr (Some IntegerType)"
    by (simp add: refType_def o root_defs ex_node_of2 split_fields wrap_ref_def kind_ev)
  then have "checkOutput ex_ins ex_fl ex_nodes4 ''out'' ''$steps.t.output.share'' = ([], Some \<lparr>oname = ''out'', oref = ex_ref_o, always = True\<rparr>)"
    by (simp add: checkOutput_def identifierPattern_def num_ev is_lower_def ex_r4 ex_node_of2 t Let_def o root_defs ex_doms)
  moreover have "Outputs ex_def = [(''out'', ''$steps.t.output.share'')]" by (simp add: ex_def_def)
  ultimately show ?thesis by (simp add: checkOutputs_def sortedKeys_def List.map_filter_simps)
qed

lemma ex_authority: "checkAuthority (h_env ex_host) ex_nodes4 (Authority ex_def) = []"
proof -
  have calls: "calls_of ex_nodes4 \<lparr>o_Capability = ''ledger.post'', o_Connection = ''main'', o_Resources = [''book''], o_MaxCallsPerRun = 1\<rparr> = [ex_cap2]"
    by (simp add: calls_of_def ex_nodes4_def kind_ev)
  show ?thesis
    by (simp add: checkAuthority_def ex_def_def check_operation_def authority_capability_def authority_connection_def
      authority_resources_def connOK_def ex_host_def calls on_def access_connection_def allows_def opaquePattern_def num_ev maxCallsPerRun_def
      hasPrefix_def runeCount_ascii Let_def)
qed

lemma ex_last: "checkRunKey ex_ins (RunKey ex_def) = []"
   "checkSchedule (h_location ex_host) ex_ins (RunKey ex_def) (Schedule ex_def) = []" "readme_problems (h_source ex_host) = []"
  "checkPolicies rl ok (ModelPolicies ex_def) = []"
  by (simp_all add: ex_def_def checkRunKey_def on_def ex_ins_def maxRunKeyInputs_def
    plain_def checkSchedule_def readme_problems_def ex_host_def checkPolicies_def sortedKeys_def)

definition ex_v :: validated where
  "ex_v = \<lparr>vdefinition = ex_def, vfiles = [], vsteps = ex_nodes4, vorder = [''s'', ''b'', ''t'', ''p''], vinputs = ex_ins,
     vrunlimits = \<lparr>duration = 3600000000000, maxAttempts = 10, parallel = 1, tokenLimit = 1000\<rparr>,
     voutputs = [\<lparr>oname = ''out'', oref = ex_ref_o, always = True\<rparr>]\<rparr>"

lemma ex_run: "run ex_host ex_def = Some ([], ex_v)"
proof -
  have s: "Start ex_def = ''s''" "facyclic ex_fl" "forder ex_fl = [''s'', ''b'', ''t'', ''p'']" by (simp_all add: ex_def_def ex_fl_def)
  show ?thesis
    by (simp add: run_def ex_limits ex_inputs ex_steps s ex_check ex_resolved ex_outputs ex_authority ex_last ex_header ex_v_def empty_loader_def Let_def del: resolve_steps.simps)
qed
section \<open>A run of it\<close>

definition ex_inputs :: "val gomap" where
  "ex_inputs = [(''n'', VInt 9)]"

text \<open>What \<^verbatim>\<open>split_evenly\<close> returns for 9 in 2 parts, and the outputs recorded once step s has run.\<close>

definition ex_split :: val where
  "ex_split = VObj [(''shares'', VList [VInt 5, VInt 4]), (''share'', VInt 4), (''remainder'', VInt 1)]"

definition ex_store :: "val gomap" where
  "ex_store = put ''s'' ex_split []"

definition ex_store_p :: "val gomap" where
  "ex_store_p = put ''t'' (VObj [(''shares'', VList [VInt 4]), (''share'', VInt 4), (''remainder'', VInt 0)]) ex_store"

lemma ex_v_sel [simp]: "vdefinition ex_v = ex_def" "vsteps ex_v = ex_nodes4" "vinputs ex_v = ex_ins"
  by (simp_all add: ex_v_def)

lemma ex_step_of: "step_of ex_v ''s'' = Some ex_s2" "step_of ex_v ''b'' = Some ex_bn" "step_of ex_v ''t'' = Some ex_t2"
    "step_of ex_v ''p'' = Some ex_cap2"
  by (simp_all add: step_of_def ex_nodes4_def node_of_def)

lemma ex_reaches: "reaches ex_v ex_inputs [''s''] ''b'' ex_store"
proof -
  have "Start ex_def = ''s''" by (simp add: ex_def_def)
  then have "reaches ex_v ex_inputs [] ''s'' []" using reaches.start [of ex_v ex_inputs] by simp
  from reaches.step [OF this _ ex_step_of(1), of ex_split] show ?thesis
    by (simp add: kind_ev ex_store_def ex_s2_def ex_det_def ex_s_def no_step_def step0.truncate_def)
qed

lemma ex_floats: "fval (float_of_int 1) \<noteq> fval (float_of_int 0)"
  by (simp add: float_of_int_exact)

lemma ex_branch: "Branch ex_v ''b'' ex_inputs ex_store = Inr \<lparr>d_Next = ''t'', d_Case = 0, d_Note = ''no case matched; default'', d_Read = [(''$steps.s.output.remainder'', VInt 1)]\<rparr>"
proof -
  have "evaluate \<lparr>cref = Some ex_ref, cop = ''eq'', cvalue = VInt 0, hasValue = True, cnext = ''t''\<rparr> (VInt 1) = False"
    by (simp add: evaluate_def unaryOp_def equalValues_def float_eq_def ex_floats)
  then show ?thesis
    by (simp add: Branch_def ex_step_of kind_ev requireRan_def case_ref_of_def ex_ref_def root_defs hasKey_def ex_store_def put_def
      decide_def resolveRef_def lookup_val_def ex_split_def ex_b_def no_step_def step0.truncate_def)
qed

lemma ex_reaches_p: "reaches ex_v ex_inputs [''s'', ''b'', ''t''] ''p'' ex_store_p"
proof -
  from reaches.branch [OF ex_reaches _ ex_branch] have "reaches ex_v ex_inputs [''s'', ''b''] ''t'' ex_store" by simp
  from reaches.step [OF this _ ex_step_of(3), of "VObj [(''shares'', VList [VInt 4]), (''share'', VInt 4), (''remainder'', VInt 0)]"]
  show ?thesis by (simp add: kind_ev ex_store_p_def ex_t2_def ex_det_def ex_t_def no_step_def step0.truncate_def)
qed

lemma ex_cap_input: "CapabilityInput ex_v ''p'' ex_inputs ex_store_p = Inr [(''amount'', VInt 4)]"
proof -
  have "StepInput ex_v ''p'' ex_inputs ex_store_p = Inr [(''amount'', VInt 4)]"
    by (simp add: StepInput_def ex_step_of args_ran_def ex_cap2_def ex_arg_def sortedKeys_def requireRan_def ex_ref_o_def root_defs
      hasKey_put ex_store_p_def put_lookup inputOf_def arg_value_def resolveRef_def lookup_val_def)
  moreover have "checkValue (Some (ObjectType [fld ''amount'' IntegerType])) (VObj [(''amount'', VInt 4)]) = None"
    by (simp add: checkValue_def checkAt_conforms conforms_ObjectType conforms_plain hasKey_def)
  ultimately show ?thesis
    by (simp add: CapabilityInput_def capabilityNode_def ex_step_of ex_contract_def orEmptyObject_def)
qed

section \<open>Small instances\<close>

lemma strict_plain: "k \<noteq> KAny \<Longrightarrow> k \<noteq> KArray \<Longrightarrow> strict (Type k [] [] False None [] None None None None None None [])"
  by (simp add: strict.simps)

lemma wf_plain: "wf_ty (Type k [] [] False None [] None None None None None None [])"
  by (simp add: wf_ty.simps)

lemma schema_string: "schemaType (VObj [(''type'', VStr ''string'')]) path = Inr (Type KString [] [] False None [] None None None None None None [])"
  by (simp add: schemaType.simps schema_header_def sortedKeys_def schemaKeywords_def schema_kind_def schema_placement_def schema_only_def
    schema_count_def schema_bound_def schema_enum_def with_children_def hasKey_def Let_def)

lemma ex_accept: "AcceptInputs (\<lambda>_. Inr (JNumber ''9'')) (vinputs ex_v) [] [(''n'', ''9'')] = Inr ex_inputs"
proof -
  define inp where "inp = snd (hd ex_ins)"
  have ins: "ex_ins = [(''n'', inp)]" and t: "itype inp = plain KInteger" and d: "\<not> hasDefault inp"
    by (simp_all add: ex_ins_def inp_def)
  have "textValue (\<lambda>_. Inr (JNumber ''9'')) inp ''9'' = Inr (VInt 9)"
    by (simp add: textValue_def t plain_def integerText_def natural_text_def strip_minus_def num_ev parseCanonicalJSON_def
      canonicalNumber_def)
  moreover have "checkValue (Some (plain KInteger)) (VInt 9) = None"
    by (simp add: checkValue_def checkAt_conforms conforms_VInt plain_def in_float_range_def)
  ultimately show ?thesis
    by (simp add: AcceptInputs_def sortedKeys_def given_text_def ins t d ex_inputs_def hasKey_def default_input_def Let_def)
qed

text \<open>A cron expression whose step overflows.\<close>

lemma ex_cron_fields: "splitFields ''1/9223372036854775807 * * * *'' = [''1/9223372036854775807'', ''*'', ''*'', ''*'', ''*'']"
  by (simp add: splitFields_def runes_ascii ccode_def is_space_rune_def)

lemmas cron_ev = cronFields_def check_part_def cut_def check_step_def check_range_def plain_int_def num_ev

lemma ex_cron_valid: "validateCron ''1/9223372036854775807 * * * *'' = None"
  by (simp add: validateCron_def ex_cron_fields cron_ev)

lemma ex_cron_overflows: "cron_overflows ''1/9223372036854775807 * * * *''"
proof -
  have "part_range (cronFields ! 0) ''1/9223372036854775807'' = (1, 59, 9223372036854775807)"
    by (simp add: part_range_def atoi0_def cron_ev)
  moreover have "steps_overflow 1 59 9223372036854775807"
    unfolding steps_overflow_def by (rule exI [of _ 1]) (simp add: in_steps_def max_int64_def)
  ultimately show ?thesis
    unfolding cron_overflows_def five_ex field_overflows_def part_overflows_def ex_cron_fields by simp
qed

text \<open>Calls of the reviewed functions.\<close>

lemma ex_split_call: "Call splitEvenly [(''total'', VInt 9), (''parts'', VInt 2)] = Returned ex_split"
proof -
  have "checkArgs split_params [(''total'', VInt 9), (''parts'', VInt 2)] = None"
    by (simp add: checkArgs_None split_params_def arg_ok_def conforms_plain maxSplitTotal_def maxSplitParts_def)
  moreover have "shares_of 9 2 = [5, 4]" by (simp add: shares_of_def upt_rec)
  ultimately show ?thesis
    by (simp add: splitEvenly_def checked_Returned split_body_def arg_val_def ex_split_def)
qed

definition ex_votes :: "val gomap" where
  "ex_votes = [(''claims'', VList [VObj [(''id'', VStr ''c1'')], VObj [(''id'', VStr ''c2'')]]),
     (''votes'', VList [VObj [(''item'', VObj [(''claim_id'', VStr ''c1'')]),
        (''output'', VObj [(''result'', VObj [(''verdict'', VStr ''supported'')])])]]), (''quorum'', VInt 1)]"

definition ex_verdict :: val where
  "ex_verdict = VObj [(''accepted'', VList [VObj [(''id'', VStr ''c1''), (''refuted'', VInt 0), (''supported'', VInt 1), (''unclear'', VInt 0)]]),
     (''rejected'', VList [VObj [(''id'', VStr ''c2''), (''refuted'', VInt 0), (''supported'', VInt 0), (''unclear'', VInt 0)]]),
     (''accepted_count'', VInt 1), (''rejected_count'', VInt 1)]"

lemma ex_majority_call: "Call majorityFilter ex_votes = Returned ex_verdict"
proof -
  have "checkArgs majority_params ex_votes = None"
    by (simp add: checkArgs_None majority_params_def arg_ok_def ex_votes_def conforms_plain conforms_openObject hasKey_def)
  moreover have "majority_body ex_votes = Returned ex_verdict"
    by (simp add: majority_body_def ex_votes_def arg_val_def new_tally_def claim_id_def zero_counts_def verdicts_def vote_claim_def
      vote_verdict_def put_def tallied_claim_def tally_of_def sortedKeys_def count_of_def accepts_def ex_verdict_def Let_def)
  ultimately show ?thesis by (simp add: majorityFilter_def checked_Returned)
qed

definition ex_finding :: val where
  "ex_finding = VObj [(''item'', VObj [(''id'', VStr ''a1'')]),
     (''output'', VObj [(''sources'', VList [VObj [(''url'', VStr ''u'')]]),
        (''result'', VObj [(''claims'', VList [VObj [(''text'', VStr ''x''), (''sources'', VList [VStr ''u'', VStr ''w''])]])])])]"

definition ex_findings :: "val gomap" where
  "ex_findings = [(''findings'', VList [ex_finding]), (''max_claims'', VInt 2)]"

definition ex_claim :: claim where
  "ex_claim = \<lparr>c_id = ''c1'', c_angle = ''a1'', c_text = ''x'', c_sources = [''u''], c_unverified = [''w'']\<rparr>"

lemma ex_collect_call:
  "Call (collectClaims (\<lambda>s. s)) ex_findings =
     Returned (VObj [(''claims'', VList [claim_val ex_claim]), (''count'', VInt 1), (''dropped'', VInt 0)])"
proof -
  have "checkArgs collect_params ex_findings = None"
    by (simp add: checkArgs_None collect_params_def arg_ok_def ex_findings_def ex_finding_def findingType_def conforms_plain
      conforms_openObject conforms_ArrayType hasKey_def)
  moreover have "splitFields ''x'' = [''x'']" by (simp add: splitFields_def runes_ascii ccode_def is_space_rune_def)
  then have "claim_words (VObj [(''text'', VStr ''x''), (''sources'', VList [VStr ''u'', VStr ''w''])]) = ''x''"
    by (simp add: claim_words_def)
  then have "collect_all (\<lambda>s. s) 2 [ex_finding] = ([(''x'', ex_claim)], 0)"
    by (simp add: collect_all_def collect_finding_def ex_finding_def collect_one_def cited_of_def fetched_of_def cite_def add_once_def
      put_def ex_claim_def itoa_def num_ev List.map_filter_simps Let_def)
  ultimately show ?thesis
    by (simp add: collectClaims_def checked_Returned collect_body_def ex_findings_def arg_val_def)
qed

text \<open>A static bound that overflows: 2 to the 62 claims with 4 votes each.\<close>

definition ex_ballots :: "val gomap" where
  "ex_ballots = [(''claims'', VList [VObj [(''id'', VStr ''c1''), (''text'', VStr ''x''), (''sources'', VList [])]]), (''votes'', VInt 4)]"

definition ex_ballots_static :: "staticArg gomap" where
  "ex_ballots_static =
     [(''claims'', \<lparr>SType = Some (set_MaxItems (ArrayType (Some (openObject [fld ''id'' StringType, fld ''text'' StringType,
         fld ''sources'' (ArrayType (Some StringType))]))) (Some 4611686018427387904)), Literal = VNil, IsConst = False\<rparr>),
      (''votes'', \<lparr>SType = Some IntegerType, Literal = VInt 4, IsConst = True\<rparr>)]"

definition ex_ballots_out :: val where
  "ex_ballots_out = VObj [(''ballots'', VList (map (ballot (VObj [(''id'', VStr ''c1''), (''text'', VStr ''x''), (''sources'', VList [])])) [1, 2, 3, 4])),
     (''count'', VInt 4)]"

lemma ex_ballots_call: "Call expandBallots ex_ballots = Returned ex_ballots_out"
proof -
  have "checkArgs expand_params ex_ballots = None"
    by (simp add: checkArgs_None expand_params_def arg_ok_def ex_ballots_def conforms_plain conforms_openObject hasKey_def)
  moreover have "[1..4] = [1, 2, 3, 4 :: int]" by (simp add: upto.simps)
  ultimately show ?thesis
    by (simp add: expandBallots_def checked_Returned expand_body_def ballots_of_def arg_val_def ex_ballots_def ex_ballots_out_def)
qed

lemma ex_ballots_ok: "static_ok ex_ballots_static ex_ballots"
  by (simp add: static_ok_def ex_ballots_static_def ex_ballots_def conforms_set_MaxItems conforms_plain conforms_openObject hasKey_def)

lemma ex_ballots_refined: "\<not> conforms (Some (expand_refine ex_ballots_static)) ex_ballots_out"
proof -
  have w: "wrap64 18446744073709551616 = 0" by (simp add: wrap64_def)
  have "expand_refine ex_ballots_static = expand_result (Some 0)"
    by (simp add: expand_refine_def ex_ballots_static_def w set_MaxItems_def ArrayType_def)
  then show ?thesis
    by (simp add: expand_result_def conforms_ObjectType conforms_set_MaxItems ex_ballots_out_def hasKey_def)
      (rule exI [of _ "''ballots''"], simp)
qed

text \<open>Two integers one apart, above 2 to the 53, with the same float64.\<close>

lemma ex_large_equal: "equalValues (VInt 9007199254740993) (VInt 9007199254740992)"
proof -
  have b: "bits 9007199254740993 = 54" "bits 9007199254740992 = 54" "bits 1 = 1"
    by (simp_all add: bits.simps)
  have e: "leading_exp 9007199254740993 1 = 53" "leading_exp 9007199254740992 1 = 53"
    unfolding leading_exp_def b by simp_all
  have "round_half_even 9007199254740993 2 = 4503599627370496" "round_half_even 9007199254740992 2 = 4503599627370496"
    by (simp_all add: round_half_even_def)
  then have "round_ratio 9007199254740993 1 = round_ratio 9007199254740992 1"
    unfolding round_ratio_def e by simp
  then show ?thesis by (simp add: equalValues_def float_eq_def float_of_int_def split: option.splits)
qed

end
