(* ===== verification/ExampleSim.thy ===== *)
theory ExampleSim
  imports Example Registered
begin

text \<open>
  A simulation of the worked definition: it splits 9 in 2, takes the branch's default, and stops
  at the capability step, whose effect is previewed.
\<close>

lemma ex_registry: "set (h_registry ex_host) \<subseteq> set (reviewedFunctions lower parse_url)"
  using reviewed_split by (simp add: ex_host_def)

definition ex_decode :: decoder where
  "ex_decode s = (if s = ''9'' then Inr (JNumber ''9'') else Inr (JObject []))"

definition ex_fixtures :: fixtures where
  "ex_fixtures = \<lparr>fx_Inputs = [(''n'', ''9'')],
     fx_Steps = [(''p'', no_fixture\<lparr>sf_Item := \<lparr>if_One = \<lparr>at_Output = ''{}'', at_Error = [], at_Tokens = 7\<rparr>, if_Attempts = []\<rparr>\<rparr>)]\<rparr>"

definition ex_sim :: simulator where
  "ex_sim = \<lparr>sv = ex_v, sfx = ex_fixtures, sinputs = ex_inputs, sdecode = ex_decode, squote = (\<lambda>s. s)\<rparr>"

lemma ex_fixtures_ok: "checkFixtures ex_v ex_fixtures = None"
  by (simp add: checkFixtures_def ex_fixtures_def sortedKeys_def step_fixture_def no_fixture_def check_fixture_def ex_step_of
      ex_cap2_def kind_ev Let_def)

lemma ex_accept_value: "AcceptInputs ex_decode (vinputs ex_v) (fx_Inputs ex_fixtures) [] = Inr ex_inputs"
proof -
  define inp where "inp = snd (hd ex_ins)"
  have ins: "ex_ins = [(''n'', inp)]" and t: "itype inp = plain KInteger" and d: "\<not> hasDefault inp"
    by (simp_all add: ex_ins_def inp_def)
  have "given_value ex_decode ex_ins [(''n'', ''9'')] ''n'' = Inr (''n'', VInt 9)"
    by (simp add: given_value_def ins hasKey_def parseCanonicalJSON_def ex_decode_def canonicalNumber_def integerText_def
        natural_text_def strip_minus_def num_ev)
  moreover have "checkValue (Some (plain KInteger)) (VInt 9) = None"
    by (simp add: checkValue_def checkAt_conforms conforms_VInt plain_def in_float_range_def)
  ultimately show ?thesis
    by (simp add: AcceptInputs_def sortedKeys_def ins t d ex_inputs_def hasKey_def default_input_def Let_def ex_fixtures_def)
qed

lemma ex_call:
  assumes "1 \<le> parts" and "parts \<le> 2" and "0 \<le> tot" and "tot \<le> 9"
  shows "call splitEvenly p [(''parts'', VInt parts), (''total'', VInt tot)] =
    CallOk (VObj [(''shares'', VList (map VInt (shares_of tot parts))), (''share'', VInt (tot div parts)), (''remainder'', VInt (tot mod parts))])"
  unfolding split_evenly.ok_typed
  using assms by (simp add: splitEvenly_def checked_Returned split_body_def arg_val_def checkArgs_None split_params_def
      arg_ok_def conforms_plain maxSplitTotal_def maxSplitParts_def)

definition ex_shares_t :: val where
  "ex_shares_t = VObj [(''shares'', VList [VInt 4]), (''share'', VInt 4), (''remainder'', VInt 0)]"

lemma ex_calls: "call splitEvenly p [(''parts'', VInt 2), (''total'', VInt 9)] = CallOk ex_split"
  "call splitEvenly p [(''parts'', VInt 1), (''total'', VInt 4)] = CallOk ex_shares_t"
  by (simp_all add: ex_call ex_split_def ex_shares_t_def shares_of_def upt_rec)

lemma ex_input_s: "inputOf ex_s2 ex_inputs [] VNil = [(''parts'', VInt 2), (''total'', VInt 9)]"
  by (simp add: inputOf_def ex_s2_def arg_value_def ex_lit_def ex_arg_def resolveRef_def ex_ref_n_def root_defs lookup_val_def ex_inputs_def)

lemma ex_input_t: "inputOf ex_t2 ex_inputs ex_store VNil = [(''parts'', VInt 1), (''total'', VInt 4)]"
  by (simp add: inputOf_def ex_t2_def arg_value_def ex_lit_def ex_arg_def resolveRef_def ex_ref_t_def root_defs lookup_val_def ex_store_def
      put_def ex_split_def)

lemma ex_input_p: "inputOf ex_cap2 ex_inputs (put ''t'' ex_shares_t ex_store) VNil = [(''amount'', VInt 4)]"
  by (simp add: inputOf_def ex_cap2_def arg_value_def ex_arg_def resolveRef_def ex_ref_o_def root_defs lookup_val_def put_lookup
      ex_shares_t_def)

lemma ex_limits_v: "vrunlimits ex_v = \<lparr>duration = 3600000000000, maxAttempts = 10, parallel = 1, tokenLimit = 1000\<rparr>"
  by (simp add: ex_v_def)

lemma ex_lims: "maxAttempts (slimits ex_sim) = 10" "tokenLimit (slimits ex_sim) = 1000"
  by (simp_all add: slimits_def ex_sim_def ex_limits_v)

definition ex_st1 :: simState where
  "ex_st1 = \<lparr>ss_state = ex_store, ss_attempts = 1, ss_tokens = 0, ss_trace =
     [(entry_of ex_s2 ''succeeded'')\<lparr>te_Attempt := 1, te_Input := VObj [(''parts'', VInt 2), (''total'', VInt 9)], te_Output := ex_split\<rparr>],
     ss_previews = []\<rparr>"

lemma ex_sim_s: "sim_step ex_sim ''s'' empty_state = (ex_st1, Inr (Some ''b''))"
proof -
  have k: "nkind ex_s2 = KindDeterministic" "attempts ex_s2 = 1" "fn ex_s2 = Some splitEvenly" "Next (nstep ex_s2) = ''b''"
    by (simp_all add: ex_s2_def ex_det_def ex_s_def no_step_def step0.truncate_def)
  have "attemptStep ex_sim ex_s2 f None VNil empty_state = (ex_st1\<lparr>ss_state := []\<rparr>, Inr ex_split)" for f
    by (simp add: attemptStep_def ex_sim_def empty_state_def ex_input_s k attempt_once_def countAttempt_def ex_lims [unfolded ex_sim_def]
        once_def call_once_def ex_calls countTokens_def entry_def attempt_entry_def Let_def no_preview ex_st1_def entry_of_def wrap64_def)
  then show ?thesis
    by (simp add: sim_step_def record_output_def k ex_st1_def ex_store_def ex_sim_def ex_step_of)
qed

definition ex_st2 :: simState where
  "ex_st2 = ex_st1\<lparr>ss_trace := ss_trace ex_st1 @ [(entry_of ex_bn ''branched'')\<lparr>te_Next := ''t'', te_Note := ''no case matched; default''\<rparr>]\<rparr>"

lemma ex_sim_b: "sim_step ex_sim ''b'' ex_st1 = (ex_st2, Inr (Some ''t''))"
proof -
  have "decide ex_bn (\<lambda>r. resolveRef r ex_inputs ex_store VNil) =
      \<lparr>d_Next = ''t'', d_Case = 0, d_Note = ''no case matched; default'', d_Read = [(''$steps.s.output.remainder'', VInt 1)]\<rparr>"
    using ex_branch by (simp add: Branch_def ex_step_of requireRan_def case_ref_of_def ex_ref_def root_defs hasKey_def ex_store_def put_lookup)
  then show ?thesis
    by (simp add: sim_step_def ex_sim_def ex_step_of sim_branch_def ex_st1_def ex_st2_def Let_def entry_def)
qed

definition ex_st3 :: simState where
  "ex_st3 = ex_st2\<lparr>ss_state := put ''t'' ex_shares_t ex_store, ss_attempts := 2, ss_trace := ss_trace ex_st2 @
     [(entry_of ex_t2 ''succeeded'')\<lparr>te_Attempt := 1, te_Input := VObj [(''parts'', VInt 1), (''total'', VInt 4)], te_Output := ex_shares_t\<rparr>]\<rparr>"

lemma ex_sim_t: "sim_step ex_sim ''t'' ex_st2 = (ex_st3, Inr (Some ''p''))"
proof -
  have k: "attempts ex_t2 = 1" "fn ex_t2 = Some splitEvenly" "Next (nstep ex_t2) = ''p''"
    by (simp_all add: ex_t2_def ex_det_def ex_t_def no_step_def step0.truncate_def)
  have st: "ss_state ex_st2 = ex_store" "ss_attempts ex_st2 = 1" "ss_tokens ex_st2 = 0" "ss_previews ex_st2 = []"
    by (simp_all add: ex_st2_def ex_st1_def)
  have "attemptStep ex_sim ex_t2 f None VNil ex_st2 = (ex_st3\<lparr>ss_state := ex_store\<rparr>, Inr ex_shares_t)" for f
    by (simp add: attemptStep_def ex_sim_def st ex_input_t k attempt_once_def countAttempt_def ex_lims [unfolded ex_sim_def]
        once_def call_once_def ex_calls countTokens_def entry_def attempt_entry_def Let_def no_preview ex_st3_def entry_of_def wrap64_def)
  then show ?thesis
    by (simp add: sim_step_def record_output_def k ex_st3_def ex_sim_def ex_step_of)
qed

definition ex_preview :: effectPreview where
  "ex_preview = \<lparr>ep_Step = ''p'', ep_Capability = ''ledger.post'', ep_Contract = ''1.0.0'', ep_Connection = ''main'',
     ep_Resource = ''book'', ep_Input = VObj [(''amount'', VInt 4)]\<rparr>"

definition ex_st4 :: simState where
  "ex_st4 = ex_st3\<lparr>ss_state := put ''p'' (VObj []) (ss_state ex_st3), ss_attempts := 3, ss_tokens := 7, ss_previews := [ex_preview],
     ss_trace := ss_trace ex_st3 @ [(entry_of ex_cap2 ''previewed'')\<lparr>te_Attempt := 1, te_Input := VObj [(''amount'', VInt 4)],
       te_Output := VObj [], te_Tokens := 7, te_Note := ''effect suppressed: not executed; the output is the fixture's simulated response''\<rparr>]\<rparr>"

lemma ex_sim_p: "sim_step ex_sim ''p'' ex_st3 = (ex_st4, Inr (Some []))"
proof -
  have k: "Next (nstep ex_cap2) = []" "noutput ex_cap2 = Some (ObjectType [])"
    by (simp_all add: ex_cap2_def ex_cap_def ex_p_def no_step_def step0.truncate_def)
  have st: "ss_state ex_st3 = put ''t'' ex_shares_t ex_store" "ss_attempts ex_st3 = 2" "ss_tokens ex_st3 = 0" "ss_previews ex_st3 = []"
    by (simp_all add: ex_st3_def ex_st2_def ex_st1_def)
  have f: "sf_Item (step_fixture ex_fixtures ''p'') = \<lparr>if_One = \<lparr>at_Output = ''{}'', at_Error = [], at_Tokens = 7\<rparr>, if_Attempts = []\<rparr>"
    by (simp add: step_fixture_def ex_fixtures_def)
  have c: "checkValue (Some (ObjectType [])) (VObj []) = None"
    by (simp add: checkValue_def checkAt_conforms conforms_ObjectType)
  have e: "is_effect ex_cap2" by (simp add: is_effect_def ex_contract_def)
  have pv: "preview_of ex_cap2 [(''amount'', VInt 4)] = [ex_preview]"
    by (simp add: preview_of_def ex_preview_def ex_contract_def)
  have j: "parseCanonicalJSON ex_decode ''{}'' = Inr (VObj [])" by (simp add: parseCanonicalJSON_def ex_decode_def)
  have "attemptStep ex_sim ex_cap2 (Some (sf_Item (step_fixture ex_fixtures ''p''))) None VNil ex_st3 =
      (ex_st4\<lparr>ss_state := put ''t'' ex_shares_t ex_store\<rparr>, Inr (VObj []))"
    by (simp add: attemptStep_def ex_sim_def st ex_input_p k f attempt_once_def countAttempt_def ex_lims [unfolded ex_sim_def]
        once_def answer_once_def fixtureAttempt_def j c countTokens_def entry_def attempt_entry_def Let_def pv e ex_st4_def entry_of_def
        wrap64_def kind_ev)
  then show ?thesis
    by (simp add: sim_step_def record_output_def k ex_st4_def st ex_sim_def ex_step_of)
qed

definition ex_report :: simulation where
  "ex_report = sim_result ex_sim (\<lambda>s. s) ''h'' ''succeeded'' [] ex_st4"

lemma ex_simulate: "Simulate ex_decode (\<lambda>s. s) (\<lambda>s. s) ''h'' ex_v ex_fixtures = Some (SimDone ex_report)"
proof -
  have "sim_run ex_sim ''s'' empty_state = Some (ex_st4, Inr ''succeeded'')"
    by (simp add: sim_run.simps ex_sim_s ex_sim_b ex_sim_t ex_sim_p)
  moreover have "Start ex_def = ''s''" by (simp add: ex_def_def)
  ultimately show ?thesis
    using ex_accept_value by (simp add: Simulate_def ex_fixtures_ok ex_report_def ex_sim_def)
qed

lemma ex_report_sel: "si_Status ex_report = ''succeeded''" "si_Attempts ex_report = 3" "si_Tokens ex_report = 7"
  "si_Previews ex_report = [ex_preview]" "si_Inputs ex_report = ex_inputs"
  by (simp_all add: ex_report_def sim_result_def ex_st4_def ex_sim_def)

lemma ex_report_outputs: "si_Outputs ex_report = [(''out'', VInt 4)]"
proof -
  have "ss_state ex_st4 = put ''p'' (VObj []) (put ''t'' ex_shares_t ex_store)" by (simp add: ex_st4_def ex_st3_def)
  moreover have "Outputs ex_def = [(''out'', ''$steps.t.output.share'')]" by (simp add: ex_def_def)
  moreover have "vdefinition (sv ex_sim) = ex_def" by (simp add: ex_sim_def)
  ultimately show ?thesis
    by (simp add: ex_report_def sim_result_def RunOutputs_def sortedKeys_def output_value_def ex_r4 ex_ref_o_def root_defs put_lookup
        ex_shares_t_def List.map_filter_simps)
qed

end
