(* ===== verification/ExampleResume.thy ===== *)
theory ExampleResume
  imports ExampleSim Resumed Sensitive
begin

text \<open>
  Resuming the worked definition at its last step: the output the step reads is carried, and the
  capability step is the one left to run.
\<close>

definition ex_state :: "val gomap" where
  "ex_state = [(''t'', ex_shares_t)]"

definition ex_plan :: "(string \<Rightarrow> string) \<Rightarrow> resumePlan" where
  "ex_plan digest = \<lparr>rp_Resume = ''p'', rp_RunKey = runKey digest ex_def ex_inputs, rp_Inputs = ex_inputs,
     rp_State = [(''t'', ex_shares_t)], rp_Carried = [''t''], rp_Dropped = []\<rparr>"

lemma ex_after_p: "steps_after ex_v ''p'' = [''p'']"
proof -
  have g: "graph_of ex_nodes4 = ex_g"
    by (simp add: graph_of_def ex_nodes4_def ex_g_def ex_s2_def ex_t2_def ex_cap2_def node_ev link_def)
  show ?thesis
    by (simp add: steps_after_def g ex_g_def reachable_def ids_def fresh_def nexts_def)
qed

lemma ex_step_nil: "step_of ex_v i = None \<longleftrightarrow> i \<notin> {''s'', ''b'', ''t'', ''p''}"
  by (auto simp: step_of_def node_of_def ex_nodes4_def ex_s2_def ex_t2_def)

lemma ex_reads: "readsAfter ex_v [''p''] =
    [\<lparr>reader = ''steps.p.input.amount'', sref = ex_ref_o, optionalRead = False\<rparr>,
     \<lparr>reader = ''outputs.out'', sref = ex_ref_o, optionalRead = True\<rparr>]"
proof -
  have p: "over ex_cap2 = None" "item ex_cap2 = None" "cases ex_cap2 = []" "npath ex_cap2 = ''steps.p''"
      "args ex_cap2 = [(''amount'', ex_arg ex_ref_o IntegerType)]"
    by (simp_all add: ex_cap2_def ex_cap_def)
  have "step_reads ex_cap2 = [\<lparr>reader = ''steps.p.input.amount'', sref = ex_ref_o, optionalRead = False\<rparr>]"
    by (simp add: step_reads_def p arg_reads_def sortedKeys_def ex_arg_def required_read_def ex_ref_o_def)
  moreover have "output_reads ex_v = [\<lparr>reader = ''outputs.out'', sref = ex_ref_o, optionalRead = True\<rparr>]"
    by (simp add: output_reads_def ex_def_def sortedKeys_def List.map_filter_simps ex_r4) (simp add: ex_ref_o_def)
  moreover have "vorder ex_v = [''s'', ''b'', ''t'', ''p'']" by (simp add: ex_v_def ex_fl_def)
  ultimately show ?thesis by (simp add: readsAfter_def ex_step_of)
qed

lemma ex_declared: "declared_inputs ex_v ex_inputs = [(''n'', ''9'')]" "dropped_inputs ex_v ex_inputs = []"
  by (simp_all add: declared_inputs_def dropped_inputs_def ex_inputs_def sortedKeys_def ex_ins_def hasKey_def num_ev)

lemma ex_step_type_t: "step_type ex_v ''t'' = Some (split_result 1 1)"
  by (simp add: step_type_def ex_step_of ex_t2_def)

lemma ex_read_ok: "checkRead quote (step_type ex_v ''t'') ex_shares_t [''share''] = None"
proof -
  note ex_step_type_t
  moreover have "field (Some (split_result 1 1)) ''share'' = Some IntegerType" "\<not> isAny (Some (split_result 1 1))"
    using split_fields [of 1 1] by (auto simp: walkType_def split_result_def ObjectType_def split: option.splits if_splits)
  ultimately show ?thesis by (simp add: checkRead_def Let_def ex_shares_t_def int_fits)
qed

lemma ex_resume:
  "PlanResume ex_decode quote digest ex_v ''p'' ex_inputs ex_state (runKey digest ex_def ex_inputs) = (ex_plan digest, [])"
proof -
  have c: "candidates ex_v [''p''] ex_state = [''t'']" "dropped_steps ex_v ex_state = []"
      "repeated_steps ex_v ''p'' [''p''] ex_state = []"
    by (simp_all add: candidates_def dropped_steps_def repeated_steps_def ex_state_def sortedKeys_def ex_step_of on_def)
  have "accepted_inputs ex_decode digest ex_v ex_inputs (runKey digest ex_def ex_inputs) = ([], ex_inputs, runKey digest ex_def ex_inputs)"
    using ex_accept_value by (simp add: accepted_inputs_def ex_declared ex_fixtures_def on_def)
  moreover have "map_of ex_state ''t'' = Some ex_shares_t" by (simp add: ex_state_def)
  moreover have "RName ex_ref_o = ''t''" "Path ex_ref_o = [''share'']" by (simp_all add: ex_ref_o_def)
  moreover have "stale_output ex_v [''t'', ''t''] ex_state ''t'' = None" by (simp add: stale_output_def)
  ultimately show ?thesis
    by (simp add: PlanResume_def ex_step_of Let_def ex_after_p ex_reads c ex_declared read_problem_def
        ex_read_ok ex_plan_def List.map_filter_simps)
qed

lemma ex_continues: "continues ex_v (rp_Inputs (ex_plan digest)) (rp_Resume (ex_plan digest)) (rp_State (ex_plan digest)) [] ''p'' ex_state"
  using continues.start [of ex_v ex_inputs "''p''" ex_state] by (simp add: ex_plan_def ex_state_def)

section \<open>What the worked definition classifies as sensitive\<close>

lemma ex_sensitivity: "se_Inputs (Sensitivity ex_v) = [''n'']" "listed (se_StepArgs (Sensitivity ex_v)) ''s'' = [''total'']"
proof -
  have st: "Steps ex_def = [ex_s, ex_b, ex_t, ex_p]" by (simp add: ex_def_def)
  have n: "sensitive_inputs ex_def = [''n'']" by (simp add: sensitive_inputs_def ex_def_def sortedKeys_def)
  have "parseRef ''2'' = bad_ref ''2''" by (simp add: parseRef_def)
  then have a: "sensitive_args [''n''] ex_s = [''total'']"
    by (simp add: sensitive_args_def sortedKeys_def sensitive_ref_def ex_r2 bad_ref_def) (simp add: ex_ref_n_def)
  show "se_Inputs (Sensitivity ex_v) = [''n'']" by (simp add: Sensitivity_def sensitivityOf_def n Let_def)
  have "distinct (map ID (Steps ex_def))" by (simp add: st ex_b_def ex_p_def no_step_def)
  from sensitivity_listed(2) [OF this, of ex_s] show "listed (se_StepArgs (Sensitivity ex_v)) ''s'' = [''total'']"
    by (simp add: st n a Sensitivity_def)
qed

lemma ex_agree: "agree (se_Inputs (Sensitivity ex_v)) [(''n'', VInt 9)] [(''n'', VInt 7)]"
  by (simp add: agree_def ex_sensitivity)

lemma ex_unlisted: "''parts'' \<notin> set (listed (se_StepArgs (Sensitivity ex_v)) ''s'')"
  by (simp add: ex_sensitivity)

end
