(* ===== verification/ExampleZone.thy ===== *)
theory ExampleZone
  imports Scheduled
begin

text \<open>
  Timezones given by a transition table, as the timezone database gives them: the offset before the
  first transition, and for each transition its instant and the offset from then on. A table whose
  transitions are far enough apart is spaced around every nominal time. The example is
  \<^verbatim>\<open>America/New_York\<close>, the timezone of the program's own tests, from local mean time on.
\<close>

section \<open>Transition tables\<close>

type_synonym transition = "int \<times> int"

fun offset_in :: "int \<Rightarrow> transition list \<Rightarrow> int \<Rightarrow> int" where
  "offset_in a [] t = a"
| "offset_in a ((T, b) # ts) t = (if t < T then a else offset_in b ts t)"

fun start_in :: "int option \<Rightarrow> transition list \<Rightarrow> int \<Rightarrow> int option" where
  "start_in s [] t = s"
| "start_in s ((T, b) # ts) t = (if t < T then s else start_in (Some T) ts t)"

definition table_zone :: "int option \<Rightarrow> int \<Rightarrow> transition list \<Rightarrow> zone" where
  "table_zone s a ts = \<lparr>offset_at = offset_in a ts, zone_start = start_in s ts\<rparr>"

fun spaced_table :: "int \<Rightarrow> transition list \<Rightarrow> bool" where
  "spaced_table a [] \<longleftrightarrow> \<bar>a\<bar> \<le> 86400"
| "spaced_table a ((T, b) # ts) \<longleftrightarrow> \<bar>a\<bar> \<le> 86400 \<and> \<bar>a - b\<bar> \<le> 86400 \<and> (a = b \<or> 60 \<le> \<bar>a - b\<bar>) \<and>
     (case ts of [] \<Rightarrow> True | t # _ \<Rightarrow> T + 2 * window < fst t) \<and> spaced_table b ts"

lemma table_bound: "spaced_table a ts \<Longrightarrow> \<bar>offset_in a ts t\<bar> \<le> 86400"
  by (induction a ts t rule: offset_in.induct) auto

lemma table_spaced: "spaced_table a ts \<Longrightarrow> spaced (table_zone s a ts) w"
proof (induction ts arbitrary: a s)
  case Nil
  then show ?case unfolding spaced_def table_zone_def by - (rule exI [of _ 0], rule exI [of _ a], rule exI [of _ a], simp)
next
  case (Cons x ts)
  obtain T b where x: "x = (T, b)" by (cases x)
  have c: "\<bar>a - b\<bar> \<le> 86400" "a \<noteq> b \<longrightarrow> 60 \<le> \<bar>a - b\<bar>" "spaced_table b ts"
    and n: "case ts of [] \<Rightarrow> True | t # _ \<Rightarrow> T + 2 * window < fst t"
    using Cons.prems by (auto simp: x)
  consider "w + window < T" | "T \<le> w - window" | "w - window < T" "T \<le> w + window" by linarith
  then show ?case
  proof cases
    case 1
    then have "\<forall>t. w - window \<le> t \<longrightarrow> t \<le> w + window \<longrightarrow> offset_in a (x # ts) t = (if t < T then a else a)"
      by (simp add: x)
    then show ?thesis unfolding spaced_def table_zone_def by - (rule exI [of _ T], rule exI [of _ a], rule exI [of _ a], simp)
  next
    case 2
    obtain T' a' b' where "\<forall>t. w - window \<le> t \<longrightarrow> t \<le> w + window \<longrightarrow> offset_in b ts t = (if t < T' then a' else b')"
      "\<bar>a' - b'\<bar> \<le> 86400"
      "a' \<noteq> b' \<longrightarrow> 60 \<le> \<bar>a' - b'\<bar> \<and> (\<forall>t. T' \<le> t \<longrightarrow> t \<le> w + window \<longrightarrow> start_in (Some T) ts t = Some T')"
      using Cons.IH [OF c(3), of "Some T"] by (auto simp: spaced_def table_zone_def)
    note h = this
    have t: "offset_in a (x # ts) t = offset_in b ts t" "start_in s (x # ts) t = start_in (Some T) ts t"
      if "w - window \<le> t" for t
      using that 2 by (simp_all add: x)
    show ?thesis
    proof (cases "T' \<le> w - window")
      case True
      then have "\<forall>t. w - window \<le> t \<longrightarrow> t \<le> w + window \<longrightarrow> offset_in a (x # ts) t = (if t < T' then b' else b')"
        using h t by simp
      then show ?thesis unfolding spaced_def table_zone_def by - (rule exI [of _ T'], rule exI [of _ b'], rule exI [of _ b'], simp)
    next
      case False
      then have "T' \<le> t \<Longrightarrow> w - window \<le> t" for t by simp
      then show ?thesis unfolding spaced_def table_zone_def using h t
        by - (rule exI [of _ T'], rule exI [of _ a'], rule exI [of _ b'], simp)
    qed
  next
    case 3
    have "offset_in b ts t = b \<and> start_in (Some T) ts t = Some T" if "t \<le> w + window" for t
      using n that 3 by (cases ts) auto
    then show ?thesis using c unfolding spaced_def table_zone_def x
      by - (rule exI [of _ T], rule exI [of _ a], rule exI [of _ b], simp)
  qed
qed

lemma table_ok: "spaced_table a ts \<Longrightarrow> first_time \<le> lo \<Longrightarrow> zone_ok (table_zone s a ts) lo hi"
  using table_bound [of a ts] by (simp add: zone_ok_def table_spaced) (simp add: table_zone_def)

text \<open>The transitions before an instant can be skipped.\<close>

lemma table_skip:
  assumes "list_all (\<lambda>x. fst x \<le> t) past"
  shows "offset_in a (past @ (T, b) # ts) t = (if t < T then offset_in a past t else offset_in b ts t)"
    "start_in s (past @ (T, b) # ts) t = (if t < T then start_in s past t else start_in (Some T) ts t)"
  using assms by (induction past arbitrary: a s) auto

lemma table_last: "list_all (\<lambda>x. fst x \<le> t) ts \<Longrightarrow> ts \<noteq> [] \<Longrightarrow> offset_in a ts t = snd (last ts)"
  by (induction a ts t rule: offset_in.induct) (auto split: if_splits)

section \<open>New York\<close>

definition ny_change :: int where "ny_change = 1772953200"

definition ny_past :: "transition list" where
  "ny_past = [
     (- 2717650800, - 18000), (- 1633280400, - 14400), (- 1615140000, - 18000), (- 1601830800, - 14400),
     (- 1583690400, - 18000), (- 1570381200, - 14400), (- 1551636000, - 18000), (- 1536512400, - 14400),
     (- 1523210400, - 18000), (- 1504458000, - 14400), (- 1491760800, - 18000), (- 1473008400, - 14400),
     (- 1459706400, - 18000), (- 1441558800, - 14400), (- 1428256800, - 18000), (- 1410109200, - 14400),
     (- 1396807200, - 18000), (- 1378659600, - 14400), (- 1365357600, - 18000), (- 1347210000, - 14400),
     (- 1333908000, - 18000), (- 1315155600, - 14400), (- 1301853600, - 18000), (- 1283706000, - 14400),
     (- 1270404000, - 18000), (- 1252256400, - 14400), (- 1238954400, - 18000), (- 1220806800, - 14400),
     (- 1207504800, - 18000), (- 1189357200, - 14400), (- 1176055200, - 18000), (- 1157302800, - 14400),
     (- 1144605600, - 18000), (- 1125853200, - 14400), (- 1112551200, - 18000), (- 1094403600, - 14400),
     (- 1081101600, - 18000), (- 1062954000, - 14400), (- 1049652000, - 18000), (- 1031504400, - 14400),
     (- 1018202400, - 18000), (- 1000054800, - 14400), (- 986752800, - 18000), (- 968000400, - 14400),
     (- 955303200, - 18000), (- 936550800, - 14400), (- 923248800, - 18000), (- 905101200, - 14400),
     (- 891799200, - 18000), (- 880218000, - 14400), (- 769395600, - 14400), (- 765396000, - 18000),
     (- 747248400, - 14400), (- 733946400, - 18000), (- 715798800, - 14400), (- 702496800, - 18000),
     (- 684349200, - 14400), (- 671047200, - 18000), (- 652899600, - 14400), (- 639597600, - 18000),
     (- 620845200, - 14400), (- 608148000, - 18000), (- 589395600, - 14400), (- 576093600, - 18000),
     (- 557946000, - 14400), (- 544644000, - 18000), (- 526496400, - 14400), (- 513194400, - 18000),
     (- 495046800, - 14400), (- 481744800, - 18000), (- 463597200, - 14400), (- 447271200, - 18000),
     (- 431542800, - 14400), (- 415821600, - 18000), (- 400093200, - 14400), (- 384372000, - 18000),
     (- 368643600, - 14400), (- 352922400, - 18000), (- 337194000, - 14400), (- 321472800, - 18000),
     (- 305744400, - 14400), (- 289418400, - 18000), (- 273690000, - 14400), (- 257968800, - 18000),
     (- 242240400, - 14400), (- 226519200, - 18000), (- 210790800, - 14400), (- 195069600, - 18000),
     (- 179341200, - 14400), (- 163620000, - 18000), (- 147891600, - 14400), (- 131565600, - 18000),
     (- 116442000, - 14400), (- 100116000, - 18000), (- 84387600, - 14400), (- 68666400, - 18000),
     (- 52938000, - 14400), (- 37216800, - 18000), (- 21488400, - 14400), (- 5767200, - 18000),
     (9961200, - 14400), (25682400, - 18000), (41410800, - 14400), (57736800, - 18000), (73465200, - 14400),
     (89186400, - 18000), (104914800, - 14400), (120636000, - 18000), (126687600, - 14400),
     (152085600, - 18000), (162370800, - 14400), (183535200, - 18000), (199263600, - 14400),
     (215589600, - 18000), (230713200, - 14400), (247039200, - 18000), (262767600, - 14400),
     (278488800, - 18000), (294217200, - 14400), (309938400, - 18000), (325666800, - 14400),
     (341388000, - 18000), (357116400, - 14400), (372837600, - 18000), (388566000, - 14400),
     (404892000, - 18000), (420015600, - 14400), (436341600, - 18000), (452070000, - 14400),
     (467791200, - 18000), (483519600, - 14400), (499240800, - 18000), (514969200, - 14400),
     (530690400, - 18000), (544604400, - 14400), (562140000, - 18000), (576054000, - 14400),
     (594194400, - 18000), (607503600, - 14400), (625644000, - 18000), (638953200, - 14400),
     (657093600, - 18000), (671007600, - 14400), (688543200, - 18000), (702457200, - 14400),
     (719992800, - 18000), (733906800, - 14400), (752047200, - 18000), (765356400, - 14400),
     (783496800, - 18000), (796806000, - 14400), (814946400, - 18000), (828860400, - 14400),
     (846396000, - 18000), (860310000, - 14400), (877845600, - 18000), (891759600, - 14400),
     (909295200, - 18000), (923209200, - 14400), (941349600, - 18000), (954658800, - 14400),
     (972799200, - 18000), (986108400, - 14400), (1004248800, - 18000), (1018162800, - 14400),
     (1035698400, - 18000), (1049612400, - 14400), (1067148000, - 18000), (1081062000, - 14400),
     (1099202400, - 18000), (1112511600, - 14400), (1130652000, - 18000), (1143961200, - 14400),
     (1162101600, - 18000), (1173596400, - 14400), (1194156000, - 18000), (1205046000, - 14400),
     (1225605600, - 18000), (1236495600, - 14400), (1257055200, - 18000), (1268550000, - 14400),
     (1289109600, - 18000), (1299999600, - 14400), (1320559200, - 18000), (1331449200, - 14400),
     (1352008800, - 18000), (1362898800, - 14400), (1383458400, - 18000), (1394348400, - 14400),
     (1414908000, - 18000), (1425798000, - 14400), (1446357600, - 18000), (1457852400, - 14400),
     (1478412000, - 18000), (1489302000, - 14400), (1509861600, - 18000), (1520751600, - 14400),
     (1541311200, - 18000), (1552201200, - 14400), (1572760800, - 18000), (1583650800, - 14400),
     (1604210400, - 18000), (1615705200, - 14400), (1636264800, - 18000), (1647154800, - 14400),
     (1667714400, - 18000), (1678604400, - 14400), (1699164000, - 18000), (1710054000, - 14400),
     (1730613600, - 18000), (1741503600, - 14400), (1762063200, - 18000)]"

definition ny_coming :: "transition list" where
  "ny_coming = [
     (1793512800, - 18000), (1805007600, - 14400), (1825567200, - 18000), (1836457200, - 14400),
     (1857016800, - 18000), (1867906800, - 14400), (1888466400, - 18000), (1899356400, - 14400),
     (1919916000, - 18000), (1930806000, - 14400), (1951365600, - 18000), (1962860400, - 14400),
     (1983420000, - 18000), (1994310000, - 14400), (2014869600, - 18000), (2025759600, - 14400),
     (2046319200, - 18000), (2057209200, - 14400), (2077768800, - 18000), (2088658800, - 14400),
     (2109218400, - 18000), (2120108400, - 14400), (2140668000, - 18000)]"

definition ny_table :: "transition list" where
  "ny_table = ny_past @ (ny_change, - 14400) # ny_coming"

definition ny :: zone where
  "ny = table_zone None (- 17762) ny_table"

lemma ny_spaced: "spaced_table (- 17762) ny_table"
  by (simp add: ny_table_def ny_past_def ny_coming_def ny_change_def window_def)

lemma ny_ok: "first_time \<le> lo \<Longrightarrow> zone_ok ny lo hi"
  unfolding ny_def by (rule table_ok [OF ny_spaced])

lemma ny_offset:
  assumes "1762063200 \<le> t" and "t < 1793512800"
  shows "offset_at ny t = (if t < ny_change then - 18000 else - 14400)"
    "ny_change \<le> t \<Longrightarrow> zone_start ny t = Some ny_change"
proof -
  have p: "list_all (\<lambda>x. fst x \<le> t) ny_past" using assms(1) by (simp add: ny_past_def)
  have "offset_in (- 17762) ny_past t = - 18000"
    using table_last [OF p, of "- 17762"] by (simp add: ny_past_def)
  moreover have "offset_in (- 14400) ny_coming t = - 14400" "start_in (Some ny_change) ny_coming t = Some ny_change"
    using assms(2) by (simp_all add: ny_coming_def)
  ultimately show "offset_at ny t = (if t < ny_change then - 18000 else - 14400)"
    "ny_change \<le> t \<Longrightarrow> zone_start ny t = Some ny_change"
    by (simp_all add: ny_def table_zone_def ny_table_def table_skip [OF p])
qed

end
