(* ===== verification/ExampleSchedule.thy ===== *)
theory ExampleSchedule
  imports Example ExampleZone ScheduledRuns
begin

text \<open>
  A scheduled definition in New York, whose clock goes from 02:00 to 03:00 on 8 March 2026. The
  schedule is daily at 02:30, so its slot of that day is shifted.
\<close>

section \<open>A skipped time\<close>

definition gap_time :: int where "gap_time = 1772937000"

lemma gap_instant: "instant ny gap_time = (ny_change, True)"
proof -
  have "civil_of (day_number 1772940600) = civil_of (day_number 1772937000)" by (simp add: day_number_def)
  then show ?thesis
    by (simp add: instant_def probes_def probe_step_def gap_time_def ny_change_def ny_offset local_time_def zero_time_def sameWall_iff)
qed

section \<open>A daily timetable\<close>

definition sch_cron :: cronSpec where
  "sch_cron = \<lparr>minutes = (replicate 60 False)[30 := True], hours = (replicate 24 False)[2 := True],
     days = (replicate 32 True)[0 := False], months = (replicate 13 True)[0 := False], weekdays = replicate 7 True,
     dayStar = True, weekdayStar = True\<rparr>"

definition sch_tt :: timetable where
  "sch_tt = \<lparr>tt_Cron = ''30 2 * * *'', tt_Timezone = ''America/New_York'', tt_spec = sch_cron, tt_zone = ny\<rparr>"

text \<open>The cursor is the slot of the day before; the window ends late on 8 March.\<close>

definition sch_cursor :: slotCursor where "sch_cursor = \<lparr>At = 1772868600000000000, AtKey = []\<rparr>"
definition sch_until :: int where "sch_until = 1773036000000000000"
definition gap_day :: int where "gap_day = 739682"

lemma gap_nominal: "nominal_at gap_day 2 30 = gap_time" "slot_of sch_tt gap_time = slot_at sch_tt gap_day 2 30"
  by (simp_all add: nominal_at_def gap_day_def epoch_day_def gap_time_def slot_of_def day_number_def hour_of_def minute_of_def)

lemma gap_slot: "due_at (slot_at sch_tt gap_day 2 30) = ny_change" "Shifted (slot_at sch_tt gap_day 2 30)"
  by (simp_all add: slot_at_def gap_nominal gap_instant sch_tt_def)

lemma sch_days: "day_matches sch_cron d"
proof -
  have "valid_date (civil_of d)" using civil_of_day by blast
  then have m: "cmonth (civil_of d) < 13" "0 < cmonth (civil_of d)" and k: "0 < cday (civil_of d)"
      "cday (civil_of d) \<le> month_lengths (cyear (civil_of d)) ! (cmonth (civil_of d) - 1)"
    by (auto simp: valid_date_def)
  have "list_all (\<lambda>l. l < 32) (month_lengths y)" for y by (simp add: month_lengths_def)
  moreover have "cmonth (civil_of d) - 1 < length (month_lengths (cyear (civil_of d)))" using m by (simp add: month_lengths_sum)
  ultimately have "month_lengths (cyear (civil_of d)) ! (cmonth (civil_of d) - 1) < 32"
    by (simp add: list_all_length)
  then show ?thesis using m k weekday_of_bound [of d]
    by (simp add: day_matches_def dayMatches_def sch_cron_def nth_list_update)
qed

lemma sch_day: "slotsOn sch_tt d = [slot_at sch_tt d 2 30]"
proof -
  have "[0..<60] = [0..<30] @ [30] @ [31..<60]" "[0..<24] = [0..<2] @ [2] @ [3..<24]"
    by (simp_all add: upt_conv_Cons)
  moreover have "filter (\<lambda>m. minutes sch_cron ! m) [0..<60] = [30]" "filter (\<lambda>h. hours sch_cron ! h) [0..<24] = [2]"
    by (simp_all add: sch_cron_def upt_conv_Cons nth_list_update)
  ultimately show ?thesis by (simp add: slotsOn_def sch_days sch_tt_def)
qed

lemma before_gap: "due_at (slot_at sch_tt 739680 2 30) = 1772782200" "due_at (slot_at sch_tt 739681 2 30) = 1772868600"
  by (simp_all add: slot_at_def sch_tt_def nominal_at_def epoch_day_def instant_def probes_def probe_step_def ny_offset ny_change_def
    local_time_def zero_time_def sameWall_iff)

lemma sch_start: "civilDate ny (seconds (At sch_cursor)) = 739681" "civilDate ny (seconds sch_until) = 739683"
  by (simp_all add: civilDate_day day_number_def local_time_def seconds_def nano_def sch_cursor_def sch_until_def ny_offset ny_change_def epoch_day_def)

lemma sch_follows: "Follows sch_cursor (slot_at sch_tt gap_day 2 30)" "\<not> Follows sch_cursor (slot_at sch_tt 739680 2 30)"
   "\<not> Follows sch_cursor (slot_at sch_tt 739681 2 30)"
  by (simp_all add: Follows_def gap_slot before_gap sch_cursor_def nano_def ny_change_def)

lemma sch_next: "NextSlot sch_tt sch_cursor = Some (slot_at sch_tt gap_day 2 30)"
proof -
  have m: "maxScheduleHorizonDays = Suc (Suc (Suc 2925))" by (simp add: maxScheduleHorizonDays_def)
  have z: "tt_zone sch_tt = ny" by (simp add: sch_tt_def)
  show ?thesis using sch_follows unfolding NextSlot_def z sch_start m next_from.simps sch_day by (simp add: gap_day_def)
qed

lemma sch_range: "due_range sch_tt sch_cursor sch_until = (739680, 739684, False)"
  by (simp add: due_range_def sch_start sch_tt_def maxScheduleScanDays_def)

lemma sch_due: "\<not> Truncated (DueSlots sch_tt sch_cursor sch_until 10)"
  by (simp add: DueSlots_window [OF sch_range] window_of_def)

lemma gap_due: "scheduled sch_cron gap_time" "due_by sch_cursor sch_until (slot_of sch_tt gap_time)"
  by (simp_all add: scheduled_def sch_days due_by_def gap_nominal sch_follows gap_slot)
    (simp_all add: gap_time_def hour_of_def minute_of_def sch_cron_def nano_def ny_change_def sch_until_def)

section \<open>A scheduled definition\<close>

definition sch_s :: step where
  "sch_s = no_step\<lparr>ID := ''s'', SKind := ''deterministic'', Function := ''split_evenly@1'',
     Input := [(''total'', YScalar ''!!int'' ''10'' 9), (''parts'', YScalar ''!!int'' ''2'' 10)],
     keys := [''id'', ''kind'', ''function'', ''input'']\<rparr>"

definition sch_input :: inputSpec where
  "sch_input = \<lparr>i_Type = ''string'', i_Description = [], i_Required = True, i_Default = YAbsent, i_Enum = [],
     i_Minimum = None, i_Maximum = None, i_MaxLength = Some 5, i_Sensitive = False\<rparr>"

definition sch_plan :: schedule where
  "sch_plan = \<lparr>s_Cron = ''30 2 * * *'', s_Timezone = ''America/New_York'', s_CatchUp = Some \<lparr>c_Policy = ''skip'', c_MaxRuns = 0\<rparr>,
     s_Inputs = [(''day'', YScalar ''!!str'' ''$schedule.date'' 30)]\<rparr>"

definition sch_def :: definition_ where
  "sch_def = \<lparr>SchemaVersion = 1, DName = ''daily'', DDescription = [], Inputs = [(''day'', sch_input)],
     RunKey = Some [''day''], ModelPolicies = [],
     Limits = Some \<lparr>l_MaxDuration = ''1h'', l_MaxAttempts = 10, l_MaxParallel = 1, l_MaxTokens = 1000\<rparr>,
     Authority = None, Schedule = Some sch_plan, Retention = Some ''ordinary'', Start = ''s'', Steps = [sch_s],
     Outputs = [(''out'', ''$steps.s.output.share'')]\<rparr>"

definition sch_host :: host where
  "sch_host = ex_host\<lparr>h_location := (\<lambda>tz. tz = ''America/New_York'')\<rparr>"

lemma sch_limits: "checkLimits (Limits sch_def) = ([], \<lparr>duration = 3600000000000, maxAttempts = 10, parallel = 1, tokenLimit = 1000\<rparr>, True)"
  using ex_limits by (simp add: ex_def_def sch_def_def)

lemma sch_header: "checkHeader sch_def = []"
  by (simp add: sch_def_def checkHeader_def currentSchemaVersion_def on_def namePattern_def num_ev is_lower_def)

definition sch_type :: ty where "sch_type = Type KString [] [] False None [] None None None (Some 5) None None []"

definition sch_ins :: "inputInfo gomap" where
  "sch_ins = [(''day'', \<lparr>iname = ''day'', spec = sch_input, itype = sch_type, idefault = VNil, hasDefault = False\<rparr>)]"

lemma sch_inputs: "checkInputs (Inputs sch_def) = ([], sch_ins)"
  by (simp add: sch_def_def sch_ins_def sch_input_def sch_type_def checkInputs_def compileInput_def sortedKeys_def identifierPattern_def num_ev is_lower_def
    input_kind_def Let_def written_def on_def List.map_filter_simps)

lemma validator_sch [simp]: "registry (validator_of sch_host sch_def) = [(''split_evenly@1'', splitEvenly)]"
   "defn (validator_of sch_host sch_def) = sch_def" "env (validator_of sch_host sch_def) = h_env ex_host"
  by (simp_all add: validator_of_def sch_host_def ex_host_def sch_limits)

lemma sch_sN: "compile (validator_of sch_host sch_def) sch_s ''steps.s'' ld = (ex_det sch_s, [], ld)"
  by (simp add: sch_s_def no_step_def compile_def compile0_def compile_kind_def Let_def new_node_def kind_ev fieldsByKind_def containsByte_def
    unexpected_fields_def retryPolicy_def compileFunction_def ex_det_def accepted_fields_def on_def step0.truncate_def node0.extend_def)

lemma sch_s_sel [simp]: "ID sch_s = ''s''" "Input sch_s = [(''total'', YScalar ''!!int'' ''10'' 9), (''parts'', YScalar ''!!int'' ''2'' 10)]"
  by (simp_all add: sch_s_def no_step_def)

lemma sch_steps: "collectSteps (validator_of sch_host sch_def) = ([ex_det sch_s], [], empty_loader)"
proof -
  have "Steps sch_def = [sch_s]" by (simp add: sch_def_def)
  then show ?thesis by (simp add: collectSteps_def identifierPattern_def num_ev is_lower_def sch_sN on_def Let_def)
qed

lemma sch_graph: "graph_of [ex_det sch_s] = [(''s'', [])]"
  by (simp add: graph_of_def ex_det_def sch_s_def no_step_def edges_def link_def kind_ev step0.truncate_def List.map_filter_simps)

definition sch_fl :: flow where
  "sch_fl = \<lparr>fstart = ''s'', fgraph = [(''s'', [])], freach = [''s''], facyclic = True, forder = [''s''], fdom = [(''s'', [''s''])]\<rparr>"

lemma sch_flow: "acyclicFlag (dfs [(''s'', [])])" "cycles (dfs [(''s'', [])]) = []" "reachable [(''s'', [])] ''s'' = [''s'']"
    "topological_order [(''s'', [])] = Some [''s'']" "dominators [(''s'', [])] ''s'' [''s''] [''s''] = [(''s'', [''s''])]"
  by (simp_all add: dfs_def dfs_start_def visit_def enter_def leave_def nexts_def reachable_def ids_def fresh_def
    topological_order_def topo.simps indegrees_def lower_all_def dominators_def dom_step_def dom_of_def preds_def put_def)

lemma sch_links: "start_problems ''s'' [ex_det sch_s] = []" "unknown_edges [ex_det sch_s] = []" "unreachable_steps ''s'' [ex_det sch_s] [''s''] = []"
  by (simp_all add: start_problems_def unknown_edges_def unreachable_steps_def ex_det_def sch_s_def no_step_def edges_def kind_ev
    step0.truncate_def List.map_filter_simps on_def)

lemma sch_check: "checkGraph ''s'' [ex_det sch_s] = Some ([], sch_fl)"
  by (simp add: checkGraph_def Let_def sch_graph sch_flow sch_fl_def sch_links)

definition sch_s2 :: node where
  "sch_s2 = (ex_det sch_s)\<lparr>args := [(''parts'', ex_lit 2), (''total'', ex_lit 10)], noutput := Some (split_result 2 2)\<rparr>"

lemma sch_args: "compiled_args sch_ins sch_fl [ex_det sch_s] (ex_det sch_s) (Some ''s'') None =
   [(''parts'', Inr (ex_lit 2)), (''total'', Inr (ex_lit 10))]"
  by (simp add: compiled_args_def sortedKeys_def compileArg_def scalarValue_def num_ev isRefText_def ex_lit_def)

lemma sch_fun: "checkFunctionArgs splitEvenly ((ex_det sch_s)\<lparr>args := [(''parts'', ex_lit 2), (''total'', ex_lit 10)]\<rparr>)
   = ([], [(''total'', \<lparr>SType = Some IntegerType, Literal = VInt 10, IsConst = True\<rparr>),
    (''parts'', \<lparr>SType = Some IntegerType, Literal = VInt 2, IsConst = True\<rparr>)])"
  by (simp add: checkFunctionArgs_def ex_params split_params_def check_param_def on_def sortedKeys_def hasKey_def ex_lit_def
   int_fits maxSplitParts_def maxSplitTotal_def param_bounds_def put_def or_err_def err_if_def)

lemma sch_resolve: "resolve sch_ins sch_fl [ex_det sch_s] (ex_det sch_s) = (sch_s2, [])"
  by (simp add: resolve_def resolve0_def Let_def sch_args good_args_def List.map_filter_simps arg_problems_def
   sch_fun ex_params kind_ev sch_s2_def split_refine_def)

lemma sch_s2_sel [simp]: "nid sch_s2 = ''s''" "nkind sch_s2 = KindDeterministic" "noutput sch_s2 = Some (split_result 2 2)"
  by (simp_all add: sch_s2_def)

lemma sch_resolved: "resolve_steps sch_ins sch_fl [''s''] [ex_det sch_s] = ([sch_s2], [])"
proof -
  have "replace_node [ex_det sch_s] sch_s2 = [sch_s2]" "node_of [ex_det sch_s] ''s'' = Some (ex_det sch_s)" "freach sch_fl = [''s'']"
    by (simp_all add: replace_node_def node_of_def sch_fl_def)
  then show ?thesis by (simp add: sch_resolve)
qed

lemma sch_outputs: "checkOutputs sch_ins sch_fl [sch_s2] (Outputs sch_def) = ([], [\<lparr>oname = ''out'', oref = ex_ref_t, always = True\<rparr>])"
proof -
  have t: "terminals sch_fl = [''s'']" "facyclic sch_fl"
    by (simp_all add: terminals_def sch_fl_def nexts_def)
  have o: "Root ex_ref_t = refSteps" "RName ex_ref_t = ''s''" "Path ex_ref_t = [''share'']" "node_of [sch_s2] ''s'' = Some sch_s2"
    by (simp_all add: ex_ref_t_def node_of_def)
  have "refType sch_ins sch_fl [sch_s2] ex_ref_t None None = Inr (Some IntegerType)"
    by (simp add: refType_def o root_defs split_fields wrap_ref_def kind_ev)
  then have "checkOutput sch_ins sch_fl [sch_s2] ''out'' ''$steps.s.output.share'' = ([], Some \<lparr>oname = ''out'', oref = ex_ref_t, always = True\<rparr>)"
    by (simp add: checkOutput_def identifierPattern_def num_ev is_lower_def ex_r3 t Let_def o root_defs)
  moreover have "Outputs sch_def = [(''out'', ''$steps.s.output.share'')]" by (simp add: sch_def_def)
  ultimately show ?thesis by (simp add: checkOutputs_def sortedKeys_def List.map_filter_simps)
qed

lemma sch_ref: "parseRef ''$schedule.date'' = Inr \<lparr>Raw = ''$schedule.date'', Root = refSchedule, RName = ''date'', Path = []\<rparr>"
  by (simp add: parseRef_def num_ev root_defs Let_def refSegment_def is_lower_def is_alpha_def is_alnum_def is_upper_def)

lemma sch_cron_ok: "validateCron ''30 2 * * *'' = None"
proof -
  have a: "plain_int ''30'' = Some 30" "plain_int ''2'' = Some 2" by (simp_all add: plain_int_def atoi.simps num_ev)
  have f: "splitFields ''30 2 * * *'' = [''30'', ''2'', ''*'', ''*'', ''*'']" 
    by (simp add: splitFields_def runes_ascii num_ev is_space_rune_def)
  show ?thesis
    by (simp add: validateCron_def f cronFields_def check_part_def cut_def check_range_def a err_if_def or_err_def Let_def)
qed

lemma sch_last: "checkRunKey sch_ins (RunKey sch_def) = []"
   "checkSchedule (h_location sch_host) sch_ins (RunKey sch_def) (Schedule sch_def) = []" "readme_problems (h_source sch_host) = []"
   "checkPolicies rl ok (ModelPolicies sch_def) = []" "checkAuthority e nds (Authority sch_def) = []"
  by (simp_all add: sch_def_def sch_plan_def sch_host_def checkRunKey_def on_def sch_ins_def maxRunKeyInputs_def sch_cron_ok catch_up_problems_def
    schedule_input_def scalarValue_def sch_type_def sch_input_def image_iff hasKey_def isRefText_def sch_ref refSchedule_def
    checkSchedule_def readme_problems_def ex_host_def checkPolicies_def sortedKeys_def checkAuthority_def Let_def) auto

definition sch_v :: validated where
  "sch_v = \<lparr>vdefinition = sch_def, vfiles = [], vsteps = [sch_s2], vorder = [''s''], vinputs = sch_ins,
     vrunlimits = \<lparr>duration = 3600000000000, maxAttempts = 10, parallel = 1, tokenLimit = 1000\<rparr>,
     voutputs = [\<lparr>oname = ''out'', oref = ex_ref_t, always = True\<rparr>]\<rparr>"

lemma sch_run: "run sch_host sch_def = Some ([], sch_v)"
proof -
  have s: "Start sch_def = ''s''" "facyclic sch_fl" "forder sch_fl = [''s'']" by (simp_all add: sch_def_def sch_fl_def)
  have e: "h_env sch_host = h_env ex_host" by (simp add: sch_host_def)
  show ?thesis
    by (simp add: run_def sch_limits sch_inputs sch_steps s sch_check sch_resolved sch_outputs sch_last sch_header sch_v_def
      empty_loader_def Let_def e del: resolve_steps.simps)
qed

section \<open>Its runs are refused\<close>

text \<open>
  Its input takes text of at most five characters. Validation only asks of \<^verbatim>\<open>$schedule.date\<close> that the
  input is text, so the definition is accepted, and every scheduled run of it is refused.
\<close>

lemma pad_length: "w \<le> length (pad w n)"
  by (simp add: pad_def Let_def)

lemma date_length: "10 \<le> length (date_text n)"
  using pad_length [of 4 "cyear (civil_of n)"] pad_length [of 2 "int (cmonth (civil_of n))"] pad_length [of 2 "int (cday (civil_of n))"]
  by (simp add: date_text_def Let_def)

lemma sch_inputs_of: "ScheduleInputs sch_v sl = Inr [(''day'', canonicalBytes (VStr (Date sl)))]"
  by (simp add: ScheduleInputs_def sch_v_def sch_def_def sch_plan_def sortedKeys_def schedule_value_def scalarValue_def isRefText_def
    sch_ref refSchedule_def)

lemma too_long: "5 < length t \<Longrightarrow> list_all (\<lambda>c. ccode c < 128) t \<Longrightarrow> checkValue (Some sch_type) (VStr t) \<noteq> None"
  by (simp add: checkValue_def sch_type_def isAny_def checkAt.simps check_length_def runeCount_ascii Let_def below_def beyond_def err_if_def or_err_def)

lemma sch_refused:
  assumes "dc (canonicalBytes (VStr (Date sl))) = Inr (JString (Date sl))" and "5 < length (Date sl)"
    and "list_all (\<lambda>c. ccode c < 128) (Date sl)"
  shows "\<exists>e. AcceptInputs dc (vinputs sch_v) [(''day'', canonicalBytes (VStr (Date sl)))] [] = Inl e"
  using too_long [OF assms(2,3)] assms(1)
  by (auto simp: AcceptInputs_def sch_v_def sch_ins_def given_value_def hasKey_def parseCanonicalJSON_def sortedKeys_def Let_def)

lemma nat_text_ascii: "list_all (\<lambda>c. ccode c < 128) (nat_text n)"
proof (induction n rule: nat_text.induct)
  case (1 n)
  have "ccode (char_of (48 + n mod 10 :: nat)) < 128" by (simp add: ccode_def)
  then show ?case using 1 by (subst nat_text.simps) (simp add: ccode_def)
qed

lemma date_ascii: "list_all (\<lambda>c. ccode c < 128) (date_text n)"
proof -
  have "list_all (\<lambda>c. ccode c < 128) (pad w k)" for w k
    by (auto simp: pad_def Let_def nat_text_ascii list_all_iff ccode_def [of "CHR ''0''"] ccode_def [of "CHR ''-''"] dest: nat_text_ascii [unfolded list_all_iff, rule_format])
  then show ?thesis by (simp add: date_text_def Let_def) (simp add: ccode_def)
qed

lemma sch_all_refused:
  assumes "dc (canonicalBytes (VStr (Date (slot_at t day h m)))) = Inr (JString (Date (slot_at t day h m)))"
  shows "\<exists>e. AcceptInputs dc (vinputs sch_v) [(''day'', canonicalBytes (VStr (Date (slot_at t day h m))))] [] = Inl e"
proof -
  have d: "Date (slot_at t day h m) = date_text day" by (simp add: slot_at_def split_beta)
  have "5 < length (date_text day)" using date_length [of day] by simp
  with date_ascii [of day] show ?thesis by (intro sch_refused assms) (simp_all add: d)
qed

end
