(* ===== verification/ExampleResearch.thy ===== *)
theory ExampleResearch
  imports Gate Verdicts Ranking Adversarial Citations
begin

text \<open>
  A small research run for the reviewed functions: one page, a claim it is quoted for, votes whose
  verifiers read that page, the report that cites it, and a gated ledger proposal. URLs are parsed
  by a function that knows https and a host up to the first slash.
\<close>

definition rx_parse :: url_parser where
  "rx_parse s = (if \<not> hasPrefix s ''https://'' then None else
     Some \<lparr>u_Scheme = ''https'', u_Hostname = takeWhile (\<lambda>c. c \<noteq> CHR ''/'') (drop 8 s), u_Opaque = [],
       u_EscapedPath = dropWhile (\<lambda>c. c \<noteq> CHR ''/'') (drop 8 s), u_RawQuery = []\<rparr>)"

definition rx_lower :: "string \<Rightarrow> string" where "rx_lower s = s"

definition rx_url :: string where "rx_url = ''https://a.org/1''"

definition rx_page :: val where "rx_page = VObj [(''url'', VStr rx_url)]"

section \<open>Search, extraction and ballots\<close>

definition rx_hit :: "string \<Rightarrow> val" where
  "rx_hit u = VObj [(''url'', VStr u), (''title'', VStr ''t''), (''snippet'', VStr []), (''relevance'', VStr ''high'')]"

definition rx_results :: "val gomap" where
  "rx_results = [(''results'', VList [VObj [(''item'', VObj [(''label'', VStr ''l'')]), (''output'', VObj [(''result'',
     VObj [(''results'', VList [rx_hit rx_url, rx_hit ''https://a.org/1/'', rx_hit ''ftp''])])])]]), (''max_sources'', VInt 2)]"

definition rx_extractions :: "val gomap" where
  "rx_extractions = [(''extractions'', VObj [(''results'', VList [VObj [(''index'', VInt 0), (''item'', VObj [(''id'', VStr ''s1''),
       (''url'', VStr rx_url), (''title'', VStr ''t'')]), (''output'', VObj [(''sources'', VList [rx_page]), (''result'', VObj [
       (''source_quality'', VStr ''primary''), (''claims'', VList [VObj [(''claim'', VStr ''x''), (''quote'', VStr ''q''),
       (''importance'', VStr ''central'')]])])])]]), (''failures'', VList []), (''failed'', VInt 0)]), (''max_claims'', VInt 5)]"

section \<open>Votes\<close>

definition rx_ranked_claim :: val where
  "rx_ranked_claim = VObj [(''id'', VStr ''c1''), (''text'', VStr ''x''), (''quote'', VStr ''q''), (''importance'', VStr ''central''),
     (''source_url'', VStr rx_url), (''source_quality'', VStr ''primary'')]"

definition rx_refute :: "bool \<Rightarrow> val" where
  "rx_refute b = VObj [(''item'', VObj [(''claim_id'', VStr ''c1'')]), (''output'', VObj [(''sources'', VList [rx_page]),
     (''result'', VObj [(''refuted'', VBool b), (''evidence'', VStr ''e''), (''evidence_urls'', VList [VStr rx_url]),
       (''confidence'', VStr ''high'')])])]"

definition rx_adversarial :: "bool list \<Rightarrow> int \<Rightarrow> int \<Rightarrow> val gomap" where
  "rx_adversarial bs needed minValid = [(''claims'', VList [rx_ranked_claim]), (''votes'', VList (map rx_refute bs)), (''votes_per_claim'', VInt 3),
     (''refutations_required'', VInt needed), (''min_valid_votes'', VInt minValid),
     (''sources'', VObj (map (\<lambda>n. (n, VInt 1)) [''count'', ''candidates'', ''duplicates'', ''budget_dropped''])),
     (''ranked'', VObj (map (\<lambda>n. (n, VInt 1)) [''extracted'', ''unfetched'', ''sources_read'', ''extraction_failed'']))]"

definition rx_votes :: "val gomap" where
  "rx_votes = [(''claims'', VList [VObj [(''id'', VStr ''c1''), (''text'', VStr ''x'')]]),
     (''votes'', VList [VObj [(''item'', VObj [(''claim_id'', VStr ''c1'')]), (''output'', VObj [(''sources'', VList [rx_page]),
       (''result'', VObj [(''verdict'', VStr ''supported''), (''evidence'', VList [VStr rx_url])])])]]), (''quorum'', VInt 1)]"

section \<open>The report\<close>

definition rx_accepted :: val where
  "rx_accepted = VObj [(''id'', VStr ''c1''), (''sources'', VList [VStr rx_url])]"

definition rx_report :: "string \<Rightarrow> val gomap" where
  "rx_report body = [(''report'', VObj [(''title'', VStr ''T''), (''summary'', VStr ''Answer [S1].''), (''body_markdown'', VStr body),
     (''citations'', VList [VObj [(''marker'', VStr ''S1''), (''url'', VStr rx_url)]])]), (''claims'', VList [rx_accepted])]"

definition rx_gate :: "val gomap" where
  "rx_gate = [(''candidates'', VList [VObj [(''id'', VStr ''t1''), (''date'', VStr ''2026-01-02''), (''name'', VStr ''n''),
       (''merchant_name'', VStr ''m''), (''net_cents'', VInt 100)]]),
     (''proposals'', VList [VObj [(''id'', VStr ''t1''), (''category'', VStr ''food''), (''confidence'', VFloat (Fin 1)), (''reason'', VStr ''r''),
       (''rule'', VBool False)]]), (''categories'', VList [VStr ''food'']), (''min_confidence'', VFloat (Fin 1))]"

section \<open>The calls\<close>

definition returned :: "outcome \<Rightarrow> val option" where
  "returned x = (case x of Returned v \<Rightarrow> Some v | _ \<Rightarrow> None)"

lemma returned_field: "map_option (\<lambda>r. field_value r n) (returned x) = Some v \<Longrightarrow> \<exists>r. x = Returned r \<and> field_value r n = v"
  by (auto simp: returned_def split: outcome.splits)

lemmas arg_defs = checkArgs_None arg_ok_def conforms_openObject conforms_plain hasKey_def

lemma checked_field:
  assumes "checkArgs ps args = None" and "map_option (\<lambda>r. field_value r n) (returned (body args)) = Some v"
  shows "\<exists>r. checked ps body args = Returned r \<and> field_value r n = v"
  using returned_field [OF assms(2)] assms(1) by (simp add: checked_def)

lemma rx_dedup_call: "\<exists>r. Call (dedupSources rx_lower rx_parse) rx_results = Returned r \<and> field_value r ''duplicates'' = VInt 1"
proof -
  have "checkArgs dedup_params rx_results = None"
    by (simp add: arg_defs dedup_params_def rx_results_def rx_hit_def rx_page_def)
  moreover have "map_option (\<lambda>r. field_value r ''duplicates'') (returned (dedup_body rx_lower rx_parse rx_results)) = Some (VInt 1)"
    by code_simp
  ultimately show ?thesis by (simp add: dedupSources_def checked_field)
qed

lemma rx_rank_call: "\<exists>r. Call (rankClaims rx_lower rx_parse) rx_extractions = Returned r \<and> field_value r ''count'' = VInt 1"
proof -
  have "checkArgs rank_params rx_extractions = None"
    by (simp add: arg_defs rank_params_def rx_extractions_def rx_page_def extractedSource_def)
  moreover have "map_option (\<lambda>r. field_value r ''count'') (returned (rank_body rx_lower rx_parse rx_extractions)) = Some (VInt 1)"
    by code_simp
  ultimately show ?thesis by (simp add: rankClaims_def checked_field)
qed

lemma rx_adversarial_args: "checkArgs adversarial_params (rx_adversarial [True, b] n m) = None" if "n \<in> {2, 3}" "m = 2"
  using that by (auto simp: arg_defs adversarial_params_def rx_adversarial_def rx_refute_def rx_ranked_claim_def rx_page_def split: if_splits)

lemma rx_adversarial_call:
  "\<exists>r. Call (tallyAdversarial rx_lower rx_parse) (rx_adversarial [True, False] 2 2) = Returned r \<and> field_value r ''confirmed_count'' = VInt 1"
proof -
  have "map_option (\<lambda>r. field_value r ''confirmed_count'')
      (returned (tallyClaims rx_lower rx_parse (rx_adversarial [True, False] 2 2))) = Some (VInt 1)" by code_simp
  then show ?thesis by (simp add: tallyAdversarial_def checked_field rx_adversarial_args)
qed

lemma rx_adversarial_panic:
  "Call (tallyAdversarial rx_lower rx_parse) (rx_adversarial [True, True] 3 2) = Panicked ''runtime error: index out of range [0] with length 0''"
proof -
  have "tallyClaims rx_lower rx_parse (rx_adversarial [True, True] 3 2) = Panicked ''runtime error: index out of range [0] with length 0''"
    by code_simp
  then show ?thesis by (simp add: tallyAdversarial_def checked_def rx_adversarial_args)
qed

lemma rx_votes_call: "\<exists>r. Call tallyVerdicts rx_votes = Returned r \<and> field_value r ''accepted_count'' = VInt 1"
proof -
  have "checkArgs tally_params rx_votes = None" by (simp add: arg_defs tally_params_def rx_votes_def rx_page_def)
  moreover have "map_option (\<lambda>r. field_value r ''accepted_count'') (returned (tally_body rx_votes)) = Some (VInt 1)" by code_simp
  ultimately show ?thesis by (simp add: tallyVerdicts_def checked_field)
qed

lemma rx_report_args: "checkArgs citation_params (rx_report body) = None"
  by (simp add: arg_defs citation_params_def rx_report_def rx_accepted_def)

lemma rx_report_call: "\<exists>r. Call checkCitations (rx_report ''Fact [S1].'') = Returned r \<and> field_value r ''status'' = VStr ''verified''"
proof -
  have "map_option (\<lambda>r. field_value r ''status'') (returned (citation_body (rx_report ''Fact [S1].''))) = Some (VStr ''verified'')" by code_simp
  then show ?thesis by (simp add: checkCitations_def checked_field rx_report_args)
qed

lemma rx_link_call: "\<exists>r. Call checkCitations (rx_report ''See [https://e.x/](https://e.x/).'') = Returned r \<and>
    field_value r ''body_markdown'' = VStr ''See https://e.x/.''"
proof -
  have "map_option (\<lambda>r. field_value r ''body_markdown'') (returned (citation_body (rx_report ''See [https://e.x/](https://e.x/).''))) =
      Some (VStr ''See https://e.x/.'')" by code_simp
  then show ?thesis by (simp add: checkCitations_def checked_field rx_report_args)
qed

lemma rx_gate_call: "\<exists>r. Call gateProposals rx_gate = Returned r \<and> field_value r ''kept'' = VInt 1"
proof -
  have "checkArgs gate_params rx_gate = None"
    by (auto simp: arg_defs gate_params_def rx_gate_def conforms_simps NumberType_def plain_def in_float_range_def)
  moreover have "map_option (\<lambda>r. field_value r ''kept'') (returned (gate_body rx_gate)) = Some (VInt 1)" by code_simp
  ultimately show ?thesis by (simp add: gateProposals_def checked_field)
qed

end
