(* ===== verification/ExampleReview.thy ===== *)
theory ExampleReview
  imports ExampleSchedule Reworded
begin

text \<open>
  A definition that only asks the owner a question, accepted for any message of it that fits: what its
  review shows and what its hash covers. The reports of the other worked definitions.
\<close>

section \<open>Asking a question\<close>

definition ask_step :: "string \<Rightarrow> step" where
  "ask_step text = no_step\<lparr>ID := ''ask'', SKind := ''interrupt'', Message := text, ResponseSchema := ''schemas/answer.json'',
     keys := [''id'', ''kind'', ''message'', ''response_schema'']\<rparr>"

definition ask_def :: "string \<Rightarrow> definition_" where
  "ask_def text = \<lparr>SchemaVersion = 1, DName = ''ask'', DDescription = [], Inputs = [(''day'', sch_input)],
     RunKey = Some [''day''], ModelPolicies = [],
     Limits = Some \<lparr>l_MaxDuration = ''1h'', l_MaxAttempts = 10, l_MaxParallel = 1, l_MaxTokens = 1000\<rparr>,
     Authority = None, Schedule = None, Retention = Some ''ordinary'', Start = ''ask'', Steps = [ask_step text], Outputs = []\<rparr>"

definition ask_schema :: json where
  "ask_schema = JObject [(''type'', JString ''object''), (''additionalProperties'', JBool False),
     (''properties'', JObject [(''ok'', JObject [(''type'', JString ''boolean'')])])]"

definition ask_host :: host where
  "ask_host = ex_host\<lparr>h_decode := (\<lambda>_. Inr ask_schema)\<rparr>"

definition ask_type :: ty where
  "ask_type = Type KObject [(''ok'', plain KBoolean)] [] False None [] None None None None None None []"

definition ask_val :: val where
  "ask_val = VObj [(''type'', VStr ''object''), (''additionalProperties'', VBool False),
     (''properties'', VObj [(''ok'', VObj [(''type'', VStr ''boolean'')])])]"

lemma ask_json: "parseCanonicalJSON (\<lambda>_. Inr ask_schema) data = Inr ask_val"
  by (simp add: parseCanonicalJSON_def ask_schema_def ask_val_def)

lemma ask_schemaType: "schemaType ask_val [] = Inr ask_type"
proof -
  have b: "schemaType (VObj [(''type'', VStr ''boolean'')]) p = Inr (plain KBoolean)" for p
    by (subst schemaType.simps) (simp add: schema_header_def sortedKeys_def schemaKeywords_def schema_kind_def schema_placement_def
      schema_only_def hasKey_def List.map_filter_simps schema_count_def schema_bound_def schema_enum_def with_children_def plain_def)
  show ?thesis
    by (subst schemaType.simps) (simp add: ask_val_def b ask_type_def schema_header_def sortedKeys_def schemaKeywords_def schema_kind_def schema_placement_def
      schema_only_def hasKey_def List.map_filter_simps schema_count_def schema_bound_def schema_enum_def with_children_def)
qed

lemma ask_parse: "parseSchema (\<lambda>_. Inr ask_schema) data = Inr (ask_type, canonicalBytes ask_val)"
  by (simp add: parseSchema_def ask_json ask_schemaType)


lemma ask_limits: "checkLimits (Limits (ask_def text)) = ([], \<lparr>duration = 3600000000000, maxAttempts = 10, parallel = 1, tokenLimit = 1000\<rparr>, True)"
  using ex_limits by (simp add: ex_def_def ask_def_def)

lemma validator_ask [simp]: "src (validator_of ask_host (ask_def text)) = (\<lambda>p. ReadOk [])"
   "decode (validator_of ask_host (ask_def text)) = (\<lambda>_. Inr ask_schema)" "defn (validator_of ask_host (ask_def text)) = ask_def text"
  by (simp_all add: validator_of_def ask_host_def ex_host_def ask_limits)

definition ask_loader :: loader where
  "ask_loader = empty_loader\<lparr>lfiles := [(''schemas/answer.json'', [])], lschemas := [(''schemas/answer.json'', ask_type)]\<rparr>"

lemma ask_load: "loadSchema (\<lambda>p. ReadOk []) (\<lambda>_. Inr ask_schema) ''schemas/answer.json'' p empty_loader = (Some ask_type, [], ask_loader)"
proof -
  have "file_shape ''schemas/answer.json'' p ''.json'' ''schemas'' = []" by code_simp
  then show ?thesis
    by (simp add: loadSchema_def empty_loader_def loadFile_def maxSchemaBytes_def schema_of_def ask_parse ask_type_def ask_loader_def put_def)
qed

definition ask_node :: "string \<Rightarrow> node" where
  "ask_node text = \<lparr>nstep = step0.truncate (ask_step text), nid = ''ask'', npath = ''steps.ask'', nkind = KindInterrupt, isItem = False,
     attempts = 1, backoff = 0, args = [], noutput = Some ask_type, fn = None, cap = None, nschema = Some ask_type,
     nbudget = 0, ntokens = 0, over = None, elem = None, cases = [], known = True, item = None\<rparr>"

lemma ask_compile:
  assumes "text \<noteq> []" and "int (length text) \<le> maxMessageBytes"
  shows "compile (validator_of ask_host (ask_def text)) (ask_step text) ''steps.ask'' empty_loader = (ask_node text, [], ask_loader)"
proof -
  have "compileInterrupt (validator_of ask_host (ask_def text)) (ask_step text) ''steps.ask'' empty_loader = ([], Some ask_type, ask_loader)"
    using assms by (simp add: compileInterrupt_def ask_step_def no_step_def ask_load on_def)
  then show ?thesis
    by (simp add: compile_def compile0_def compile_kind_def Let_def new_node_def kind_ev fieldsByKind_def ask_step_def no_step_def
      unexpected_fields_def retryPolicy_def ask_node_def accepted_fields_def on_def step0.truncate_def node0.extend_def)
qed


lemma ask_steps:
  assumes "text \<noteq> []" and "int (length text) \<le> maxMessageBytes"
  shows "collectSteps (validator_of ask_host (ask_def text)) = ([ask_node text], [], ask_loader)"
proof -
  have i: "ID (ask_step text) = ''ask''" "Steps (ask_def text) = [ask_step text]" by (simp_all add: ask_step_def no_step_def ask_def_def)
  show ?thesis
    by (simp add: collectSteps_def i identifierPattern_def num_ev is_lower_def ask_compile [OF assms] on_def Let_def)
qed

definition ask_fl :: flow where
  "ask_fl = \<lparr>fstart = ''ask'', fgraph = [(''ask'', [])], freach = [''ask''], facyclic = True, forder = [''ask''], fdom = [(''ask'', [''ask''])]\<rparr>"

lemma ask_flow: "acyclicFlag (dfs [(''ask'', [])])" "cycles (dfs [(''ask'', [])]) = []" "reachable [(''ask'', [])] ''ask'' = [''ask'']"
    "topological_order [(''ask'', [])] = Some [''ask'']" "dominators [(''ask'', [])] ''ask'' [''ask''] [''ask''] = [(''ask'', [''ask''])]"
  by (simp_all add: dfs_def dfs_start_def visit_def enter_def leave_def nexts_def reachable_def ids_def fresh_def
    topological_order_def topo.simps indegrees_def lower_all_def dominators_def dom_step_def dom_of_def preds_def put_def)

lemma ask_node_sel [simp]: "nid (ask_node text) = ''ask''" "nkind (ask_node text) = KindInterrupt" "item (ask_node text) = None"
    "over (ask_node text) = None" "fn (ask_node text) = None" "cap (ask_node text) = None" "npath (ask_node text) = ''steps.ask''"
    "args (ask_node text) = []" "cases (ask_node text) = []" "known (ask_node text)" "attempts (ask_node text) = 1" "isItem (ask_node text) = False"
    "nstep (ask_node text) = step0.truncate (ask_step text)"
  by (simp_all add: ask_node_def)

lemma ask_edges: "edges (ask_node text) = []"
  by (simp add: edges_def kind_ev ask_step_def no_step_def step0.truncate_def)

lemma ask_check: "checkGraph ''ask'' [ask_node text] = Some ([], ask_fl)"
proof -
  have g: "graph_of [ask_node text] = [(''ask'', [])]" by (simp add: graph_of_def ask_edges link_def)
  have "start_problems ''ask'' [ask_node text] = []" "unknown_edges [ask_node text] = []" "unreachable_steps ''ask'' [ask_node text] [''ask''] = []"
    by (simp_all add: start_problems_def unknown_edges_def unreachable_steps_def ask_edges List.map_filter_simps on_def)
  then show ?thesis by (simp add: checkGraph_def Let_def g ask_flow ask_fl_def)
qed

lemma ask_input_empty: "Input (ask_step text) = []"
  by (simp add: ask_step_def no_step_def step0.truncate_def)

lemma ask_resolve: "resolve sch_ins ask_fl [ask_node text] (ask_node text) = (ask_node text, [])"
proof -
  have "(ask_node text)\<lparr>args := []\<rparr> = ask_node text" by (simp add: ask_node_def)
  then show ?thesis
    by (simp add: resolve_def resolve0_def Let_def compiled_args_def ask_input_empty sortedKeys_def good_args_def List.map_filter_simps arg_problems_def kind_ev)
qed

lemma ask_resolved: "resolve_steps sch_ins ask_fl [''ask''] [ask_node text] = ([ask_node text], [])"
proof -
  have "replace_node [ask_node text] (ask_node text) = [ask_node text]" "node_of [ask_node text] ''ask'' = Some (ask_node text)" "freach ask_fl = [''ask'']"
    by (simp_all add: replace_node_def node_of_def ask_fl_def)
  then show ?thesis by (simp add: ask_resolve)
qed

definition ask_v :: "string \<Rightarrow> validated" where
  "ask_v text = \<lparr>vdefinition = ask_def text, vfiles = [(''schemas/answer.json'', [])], vsteps = [ask_node text], vorder = [''ask''], vinputs = sch_ins,
     vrunlimits = \<lparr>duration = 3600000000000, maxAttempts = 10, parallel = 1, tokenLimit = 1000\<rparr>, voutputs = []\<rparr>"

lemma ask_last: "checkInputs (Inputs (ask_def text)) = ([], sch_ins)" "checkHeader (ask_def text) = []"
  "checkOutputs sch_ins ask_fl [ask_node text] (Outputs (ask_def text)) = ([], [])"
   "checkRunKey sch_ins (RunKey (ask_def text)) = []"
   "checkSchedule (h_location ask_host) sch_ins (RunKey (ask_def text)) (Schedule (ask_def text)) = []" "readme_problems (h_source ask_host) = []"
   "checkPolicies rl ok (ModelPolicies (ask_def text)) = []" "checkAuthority e nds (Authority (ask_def text)) = []"
  using sch_inputs sch_header by (simp_all add: sch_def_def ask_def_def ask_host_def checkRunKey_def on_def sch_ins_def maxRunKeyInputs_def
    sch_type_def checkSchedule_def readme_problems_def ex_host_def checkPolicies_def sortedKeys_def checkAuthority_def Let_def
    checkOutputs_def List.map_filter_simps checkHeader_def sch_input_def namePattern_def num_ev is_lower_def)

lemma ask_run:
  assumes "text \<noteq> []" and "int (length text) \<le> maxMessageBytes"
  shows "run ask_host (ask_def text) = Some ([], ask_v text)"
proof -
  have s: "Start (ask_def text) = ''ask''" "facyclic ask_fl" "forder ask_fl = [''ask'']" by (simp_all add: ask_def_def ask_fl_def)
  show ?thesis
    by (simp add: run_def ask_limits ask_steps [OF assms] s ask_check ask_resolved ask_last ask_v_def ask_loader_def empty_loader_def Let_def
      del: resolve_steps.simps)
qed


section \<open>Its hash\<close>

definition ask_decode :: decoder where
  "ask_decode = (\<lambda>_. Inr ask_schema)"

lemma ask_step_sel: "ID (ask_step text) = ''ask''" "SKind (ask_step text) = KindInterrupt" "Message (ask_step text) = text" "Item (ask_step text) = None"
  by (simp_all add: ask_step_def no_step_def kind_ev)

lemma ask_def_steps: "Steps (ask_def text) = [ask_step text]"
  by (simp add: ask_def_def)

text \<open>The same question with notes.\<close>

definition ask_noted :: "string \<Rightarrow> definition_" where
  "ask_noted text = (ask_def text)\<lparr>DDescription := ''asks the owner'', Steps := [(ask_step text)\<lparr>Description := ''the question''\<rparr>]\<rparr>"

lemma ask_noted_same: "same_behaviour (ask_def text) (ask_noted text)"
proof -
  have "same_step (ask_step text) ((ask_step text)\<lparr>Description := ''the question''\<rparr>)"
    by (simp add: same_step_def same_step0_def step0.truncate_def ask_step_def no_step_def)
  then show ?thesis
    by (simp add: same_behaviour_def ask_noted_def ask_def_def same_input_def option.rel_refl)
qed

lemma ask_norm_step: "\<exists>m. norm_step (ask_step text) = Inr m"
  by (simp add: norm_step_def norm_step0_def ask_step_def no_step_def normValues_def sortedKeys_def)

lemma ask_doc: "\<exists>x. hash_doc ask_decode digest (ask_def text) [(''schemas/answer.json'', [])] [] = Inr x"
proof -
  obtain m where m: "norm_step (ask_step text) = Inr m" using ask_norm_step by blast
  have "\<exists>n. normalizeDefinition (ask_def text) = Inr n"
    by (simp add: normalizeDefinition_def ask_def_def m sortedKeys_def norm_input_def norm_optional_def sch_input_def norm_schedules_def)
  moreover have "prompts_of (ask_def text) = []" "schemas_of (ask_def text) = [''schemas/answer.json'']" "functions_of (ask_def text) = []"
    by (simp_all add: prompts_of_def schemas_of_def functions_of_def named_by_def ask_def_steps step_parts_def ask_step_def no_step_def step0.truncate_def)
  ultimately show ?thesis
    by (auto simp: hash_doc_def hash_schema_def ask_decode_def ask_parse)
qed

lemma ask_reworded: "reworded_version ''ask'' text' (ask_v text) = ask_v text'"
proof -
  have "reword_node ''ask'' text' (ask_node text) = ask_node text'"
    by (simp add: reword_node_def ask_node_def reword_def ask_step_def no_step_def kind_ev step0.truncate_def)
  moreover have "reworded ''ask'' text' (ask_def text) = ask_def text'"
    by (simp add: reworded_def ask_def_def reword_def ask_step_def no_step_def kind_ev)
  ultimately show ?thesis by (simp add: reworded_version_def ask_v_def)
qed

end
