(* ===== verification/ExampleLoad.thy ===== *)
theory ExampleLoad
  imports ExampleReview Loaded Loading
begin

text \<open>The file of the definition that asks a question, as the YAML library reads it.\<close>

definition text_node :: "string \<Rightarrow> int \<Rightarrow> rawNode" where
  "text_node s line = RawNode ScalarNode 0 ''!!str'' ''!!str'' s [] line []"

definition number_node :: "string \<Rightarrow> int \<Rightarrow> rawNode" where
  "number_node s line = RawNode ScalarNode 0 ''!!int'' ''!!int'' s [] line []"

definition flag_node :: "int \<Rightarrow> rawNode" where
  "flag_node line = RawNode ScalarNode 0 ''!!bool'' ''!!bool'' ''true'' [] line []"

definition map_node :: "int \<Rightarrow> (string \<times> rawNode) list \<Rightarrow> rawNode" where
  "map_node line xs = RawNode MappingNode 0 ''!!map'' ''!!map'' [] [] line (concat (map (\<lambda>(k, v). [text_node k line, v]) xs))"

definition list_node :: "int \<Rightarrow> rawNode list \<Rightarrow> rawNode" where
  "list_node line xs = RawNode SequenceNode 0 ''!!seq'' ''!!seq'' [] [] line xs"

definition ask_tree :: "string \<Rightarrow> rawNode" where
  "ask_tree text = map_node 1 [(''schema_version'', number_node ''1'' 1), (''name'', text_node ''ask'' 2),
     (''inputs'', map_node 4 [(''day'', map_node 5 [(''type'', text_node ''string'' 5), (''required'', flag_node 6), (''max_length'', number_node ''5'' 7)])]),
     (''run_key'', map_node 9 [(''inputs'', list_node 9 [text_node ''day'' 9])]),
     (''limits'', map_node 11 [(''max_duration'', text_node ''1h'' 11), (''max_attempts'', number_node ''10'' 12),
       (''max_parallel'', number_node ''1'' 13), (''max_tokens'', number_node ''1000'' 14)]),
     (''retention'', map_node 16 [(''classification'', text_node ''ordinary'' 16)]), (''start'', text_node ''ask'' 17),
     (''steps'', list_node 19 [map_node 19 [(''id'', text_node ''ask'' 19), (''kind'', text_node ''interrupt'' 20),
       (''message'', RawNode ScalarNode 2 ''!!str'' ''!!str'' text [] 21 []), (''response_schema'', text_node ''schemas/answer.json'' 22)]])]"

definition ask_file :: "string \<Rightarrow> rawNode" where
  "ask_file text = RawNode DocumentNode 0 [] [] [] [] 1 [ask_tree text]"

definition ask_yaml :: "string \<Rightarrow> yamlDecoder" where
  "ask_yaml text = \<lparr>yd_first = (\<lambda>_. Decoded (ask_file text)), yd_ends = (\<lambda>_. True),
     yd_strict = (\<lambda>_. Inr (ask_def text\<lparr>Steps := [ask_step text\<lparr>keys := []\<rparr>]\<rparr>))\<rparr>"

lemmas tree_defs = text_node_def number_node_def flag_node_def map_node_def list_node_def

lemma ask_nodes: "checkNodes (ask_file text) = []"
  by (simp add: ask_file_def ask_tree_def tree_defs checkNodes.simps check_entries.simps Let_def tagged_def TaggedStyle_def merge_key_def
    check_key_def text_key_def put_lookup check_scalar_def plainInteger_def integerText_def natural_text_def strip_minus_def hasPrefix_def is_digit_def num_ev
    ambiguousWords_def toLower_def lower_char_def is_upper_def ccode_def on_def put_def)

lemma ask_types: "typeCheck (ask_tree text) (TStruct TDefinition) [] = []"
  by (simp add: typeCheck_iff ask_tree_def tree_defs scalar_of_def)

lemma ask_root: "root_of (ask_file text) = ask_tree text"
  by (simp add: root_of_def ask_file_def)

lemma ask_parsed: "parseDefinition (ask_yaml text) [] = Inr (ask_def text)"
proof -
  have "recordStepKeys (ask_tree text) (ask_def text\<lparr>Steps := [ask_step text\<lparr>keys := []\<rparr>]\<rparr>) = ask_def text"
    by (simp add: recordStepKeys_def ask_tree_def tree_defs mappingChild_def ask_def_def step_keys_def mappingKeys_def ask_step_def no_step_def)
  then show ?thesis
    by (simp add: parseDefinition_def ask_yaml_def ask_nodes ask_types ask_root maxDefinitionBytes_def)
qed

lemma ask_hashed: "\<exists>hash. executableHash (h_decode ask_host) digest (ask_def text) (vfiles (ask_v text)) (h_registry ask_host) = Inr hash"
proof -
  obtain x where "hash_doc ask_decode digest (ask_def text) [(''schemas/answer.json'', [])] [] = Inr x" using ask_doc by blast
  moreover have "functions_of (ask_def text) = []"
    by (simp add: functions_of_def named_by_def step_parts_def ask_def_def ask_step_def no_step_def step0.truncate_def)
  ultimately show ?thesis
    by (auto simp: executableHash_def hash_doc_def ask_host_def ask_decode_def ask_v_def split: sum.splits)
qed

lemma ask_valid:
  assumes "text \<noteq> []" and "int (length text) \<le> maxMessageBytes"
  shows "\<exists>hash r. Validate (ask_yaml text) quote digest ask_host = Some (Valid (ask_v text) hash r)"
proof -
  have "h_source ask_host workflow_file = ReadOk []" "0 < WDeadline (h_env ask_host)" "0 < WTokens (h_env ask_host)"
    by (simp_all add: ask_host_def ex_host_def)
  then show ?thesis
    using ask_parsed ask_run [OF assms] ask_hashed unfolding Validate_valid by blast
qed

text \<open>A value with each shape.\<close>

definition example_value :: rawNode where
  "example_value = map_node 3 [(''count'', number_node ''-5'' 3),
     (''xs'', list_node 4 [flag_node 4, RawNode ScalarNode 4 ''!!str'' ''!!str'' ''on'' [] 5 []])]"

lemma example_value_nodes: "checkNodes example_value = []"
  by (simp add: example_value_def tree_defs checkNodes.simps check_entries.simps Let_def tagged_def TaggedStyle_def merge_key_def
    check_key_def text_key_def check_scalar_def plainInteger_def integerText_def natural_text_def strip_minus_def hasPrefix_def num_ev
    ambiguousWords_def toLower_def lower_char_def is_upper_def on_def put_def)

inductive_simps resolved_raw: "resolved (RawNode kind style tag short value anchor line content)"

lemma example_value_resolved: "resolved example_value"
  by (simp add: example_value_def tree_defs resolved_raw tagged_def TaggedStyle_def)

lemma example_value_read: "nodeValue (ynode_of example_value) = Inr (VObj [(''count'', VInt (-5)), (''xs'', VList [VBool True, VStr ''on''])])"
  by (simp add: example_value_def tree_defs ynode_of.simps scalarValue_def num_ev put_def)

lemma ask_file_steps: "step_nodes (ask_file text) = [map_node 19 [(''id'', text_node ''ask'' 19), (''kind'', text_node ''interrupt'' 20),
       (''message'', RawNode ScalarNode 2 ''!!str'' ''!!str'' text [] 21 []), (''response_schema'', text_node ''schemas/answer.json'' 22)]]"
  by (simp add: step_nodes_def ask_root ask_tree_def tree_defs mappingChild_def)

end
