(* ===== verification/Spec2Isabelle.thy ===== *)
theory Spec2Isabelle
  imports Prelude GoNum GoText Values Types Assign Refs Schema Messages AgentResult Definition Functions Gate Verdicts Research Ranking Adversarial Citations Compile Yaml Compiled Graph Flow Cron Resolve Validate Execute Fanout Resolved Inputs Running Resume Resumed Sensitive Calendar Timetable Scheduled ScheduledRuns Agents Canonical Reports Review Normal Reviewed Normalized Alike Reworded Loading Loaded Simulate Simulated Registered Example ExampleSim ExampleResume ExampleZone ExampleSchedule ExampleResearch ExampleReview ExampleLoad
begin

text \<open>
  A verification development for the declarative workflows of the Evie agent runtime
  (Go, package \<^verbatim>\<open>src/internal/workflow\<close>). A workflow is a closed YAML document. The package decides whether
  it may run, computes what every step of a run reads and produces, and simulates a run against
  fixtures. The package performs no effect and starts no goroutine; the durable runtime
  (\<^verbatim>\<open>internal/workflowruntime\<close>) calls it and records what happened.

  \<^bold>\<open>The program and the theories.\<close>

  \<^item> \<open>Prelude\<close>, \<open>GoNum\<close>, \<open>GoText\<close>: Go's maps with text keys (association lists read through
    \<open>map_of\<close>; sorted iteration is iteration over the sorted distinct keys), the two loop shapes of
    the package (stop at the first error; collect every problem), 64-bit wrap-around, rounding to
    \<^verbatim>\<open>float64\<close>, and the \<^verbatim>\<open>strings\<close>/\<^verbatim>\<open>strconv\<close> functions the source calls.
  \<^item> \<open>Values\<close>, \<open>Types\<close>, \<open>Assign\<close>, \<open>Refs\<close>, \<open>Schema\<close>: canonical values and their encoding, the closed type
    system with \<^verbatim>\<open>checkValue\<close>, \<^verbatim>\<open>assignable\<close>, \<^verbatim>\<open>equalValues\<close> and literals (types.go), references and field
    paths (refs.go), and the accepted JSON Schema subset (schema.go).
  \<^item> \<open>Definition\<close>: the records of the document (definition.go) and the values of its YAML nodes.
  \<^item> \<open>Yaml\<close>, \<open>Loaded\<close> (yaml.go): loading the file: the accepted YAML subset, the check of the tree against the Go types, the
    keys each step wrote. \<open>Loaded\<close> states apart from the code what is accepted (\<open>plain_node\<close>, \<open>has_type\<close>) and what a tree
    means (\<open>means\<close>), and shows the code exact.
  \<^item> \<open>Functions\<close>: the reviewed deterministic functions and their static refinements (functions.go).
  \<^item> \<open>Gate\<close>, \<open>Verdicts\<close>, \<open>Research\<close>, \<open>Ranking\<close>, \<open>Adversarial\<close>, \<open>Citations\<close>: the other reviewed functions of the
    registry (gate_proposals.go, research.go, citations.go): deduplicating search results, ranking claims,
    tallying votes, checking the citations of a report. Each is an instance of the locale
    \<open>reviewed_function\<close>; what each returns is stated against a reference that does not share its loops.
  \<^item> \<open>Compile\<close>, \<open>Graph\<close>, \<open>Flow\<close>, \<open>Cron\<close>, \<open>Resolve\<close>, \<open>Validate\<close>: the validator (validate.go, catalog.go), in the
    order of \<^verbatim>\<open>run\<close>: header, schemas, inputs, steps; the graph (depth-first cycle search, breadth-first
    reachability, topological order, dominators); references and their types; outputs, standing
    authority, run key, schedule and the worst-case budget. \<open>run h d\<close> is the whole validator: it returns
    the list of problems and the compiled definition. \<open>Compiled\<close> and \<open>Resolved\<close> say what a definition
    without a problem is known to satisfy. \<open>Loading.Validate\<close> is the entry point: it reads and parses the file, runs the
    checks, and adds the executable hash and the review report with the warnings.
  \<^item> \<open>Execute\<close>, \<open>Fanout\<close>, \<open>Agents\<close>: what a run asks of an accepted definition (execute.go, fanout.go, ai.go):
    run inputs, step inputs, branches, capability inputs, map items and outputs, agent and AI steps.
    \<open>Inputs\<close> and \<open>Running\<close> prove them total and typed. \<open>Running.reaches\<close> is the step relation of a run:
    the runtime and the simulator only choose what a step outputs.
  \<^item> \<open>Reports\<close>, \<open>Review\<close>, \<open>Reviewed\<close> (report.go, review.go): the report the owner reads before approving a definition, and its
    text; the requested Standing Authority in canonical order with its hash, the check against Workspace Access,
    Workspace Access in canonical form, and the review diff of two versions. \<open>Reviewed\<close> shows the report's
    resources and authority exact for an accepted definition.
  \<^item> \<open>Canonical\<close>, \<open>Normal\<close>, \<open>Normalized\<close>, \<open>Alike\<close>, \<open>Reworded\<close> (hash.go): JSON documents as \<^verbatim>\<open>encoding/json\<close> writes structs, the normalized
    definition and the executable hash. \<open>Canonical.sorted_form\<close> is the locale of the three collections put in an order
    (operations, connections, steps). \<open>Normalized\<close> shows what the hash leaves out (documentation and order), \<open>Alike\<close> that it
    leaves out nothing else: one document fixes every setting and every field of every step and item; \<open>Reworded\<close> that a changed interruption message reaches the hash but not the review.
  \<^item> \<open>Resume\<close>, \<open>Resumed\<close>, \<open>Sensitive\<close> (resume.go): resuming a run under a later version of its definition, which
    outputs are carried or dropped, and where sensitive inputs are used directly
    (what a step computes from one is a step output, which is not classified).
  \<^item> \<open>Calendar\<close>, \<open>Timetable\<close>, \<open>Scheduled\<close>, \<open>ScheduledRuns\<close> (schedule.go): civil dates, the slots of a cron in a
    timezone, the next slot and the slots due in a window, and the inputs of a scheduled run. A timezone is
    the offset at each instant and the start of the zone in effect; \<open>zone_ok\<close> is what the theorems ask of it
    on a range of nominal times: offsets of at most a day everywhere, and within 36 hours of a nominal time of the range,
    which is what the source probes, at most one change of offset, by a minute or more and at most a day, whose zone
    begins there. The zones of the IANA database are so from 1953 on, and most of them, \<^verbatim>\<open>America/New_York\<close> among
    them, from their local mean time on. \<open>ExampleZone\<close> shows that a transition table whose transitions are that far
    apart is a zone of this kind, and that the table of \<^verbatim>\<open>America/New_York\<close> up to 2037 is. \<open>Scheduled\<close> shows the slots of a window or after a cursor to be exactly those the cron names.
  \<^item> \<open>Messages\<close>, \<open>AgentResult\<close>, \<open>Simulate\<close>, \<open>Simulated\<close>, \<open>Registered\<close>: the simulator (simulate.go), with the text of the
    errors that become data, and the extraction of an agent's typed result from its report. \<open>Registered\<close> is the registry
    of reviewed functions (functions.go), each of which gives a text with every refusal; the simulator takes that for granted.
  \<^item> \<open>Example\<close>, \<open>ExampleSim\<close>, \<open>ExampleResume\<close>, \<open>ExampleZone\<close>, \<open>ExampleSchedule\<close>, \<open>ExampleResearch\<close>, \<open>ExampleReview\<close>, \<open>ExampleLoad\<close>: worked definitions, loaded, validated,
    run, simulated, resumed, scheduled and reviewed by evaluation, and calls of the research functions. The witnesses of the properties are about them.

  \<^bold>\<open>How they interact.\<close> \<open>Validate.run\<close> yields the record \<open>validated\<close>; every operation of execution and
  simulation takes it. The graph facts proved in \<open>Flow\<close> (every step a reference names dominates its
  reader; no cycle) are what make \<open>StepInput\<close> and \<open>Branch\<close> total on every run (\<open>Running\<close>), and the
  simulator's loop is shown to be such a run (\<open>Simulated\<close>), so it ends and refines it. The locales
  \<open>sim_invariant\<close> and \<open>sim_run_invariant\<close> of \<open>Simulated\<close> state what an invariant of the simulator's state must
  satisfy at its few points of change; the invariants on outputs, budgets, effects and types are
  interpretations.

  \<^bold>\<open>Errors and partiality.\<close> An \<^verbatim>\<open>error\<close> result is \<open>Inl\<close>; a problem list is a list; a nil dereference or
  an index out of range is a branch of its own (\<open>Crashed\<close>, \<open>SimPanic\<close>, \<open>None\<close>), shown unreachable where
  it is. Integers are mathematical integers with \<open>wrap64\<close> written where the source computes in 64
  bits. Loops of the source that count against the steps of the graph take fuel equal to the
  number of steps plus one, and running out of it is \<open>None\<close>: \<open>run_ends\<close>, \<open>validation_total\<close> and \<open>simulation_ends\<close>
  show that the fuel is enough.

  \<^bold>\<open>Parameters.\<close> Third-party and library code is an argument: the YAML library (\<open>yamlDecoder\<close>: the nodes
  of the first document, whether another follows, and the strict decoding into the struct), the JSON tokenizer (\<open>decoder\<close>: bytes to a tree whose numbers keep their text),
  SHA-256 (\<open>digest\<close>), Unicode lower case, \<^verbatim>\<open>url.Parse\<close>, \<^verbatim>\<open>strconv.Quote\<close>, the timezone database. No theorem assumes
  more of them than its hypotheses say.

  \<^bold>\<open>Not modelled.\<close> Concurrency does not occur in the package. The outline, and the embedded templates and built-in definitions. Outside the package: the durable runtime, storage, model and
  tool clients, the web interface. Known simplifications: the indexes of map outcomes are compared
  as integers (the source subtracts them, which cannot overflow for indexes of a list); two spellings of
  one JSON key that differ only by case in a fixture are two keys; the text of a validation problem
  is not rendered, only its constructor and arguments.
\<close>

section \<open>Properties\<close>

text \<open>
  C1: On every run of a definition the validator accepts without a problem, the step about to
  execute exists; its input resolves, a branch decides, and a map's list reference is to a step
  that has run. \<^verbatim>\<open>requireRan\<close>'s error (``has not run''), which the comment on it says a valid
  graph never asks for, is never returned.
\<close>

theorem every_read_has_run:
  assumes "run h d = Some ([], v)" and "reaches v inputs trace i st" and "i \<noteq> []"
  shows "\<exists>n. step_of v i = Some n \<and> (\<exists>input. StepInput v i inputs st = Inr input) \<and>
    (nkind n = KindBranch \<longrightarrow> (\<exists>b. Branch v i inputs st = Inr b)) \<and>
    (nkind n = KindMap \<longrightarrow> (\<forall>q. over n = Some q \<longrightarrow> requireRan n q st = None))"
proof -
  obtain fl where p: "plan_ok h d v fl" using run_ok [OF assms(1)] by blast
  obtain n where n: "step_of v i = Some n" using live_step [OF p assms(2,3)] by blast
  show ?thesis
    using n live_input [OF p assms(2,3)] live_branch [OF p assms(2,3) n] live_map [OF p assms(2,3) n] by blast
qed

lemma every_read_has_run_witness:
  "run ex_host ex_def = Some ([], ex_v) \<and> reaches ex_v ex_inputs [''s''] ''b'' ex_store \<and>
    (\<exists>n. step_of ex_v ''b'' = Some n \<and> (\<exists>input. StepInput ex_v ''b'' ex_inputs ex_store = Inr input) \<and>
    (nkind n = KindBranch \<longrightarrow> (\<exists>b. Branch ex_v ''b'' ex_inputs ex_store = Inr b)) \<and>
    (nkind n = KindMap \<longrightarrow> (\<forall>q. over n = Some q \<longrightarrow> requireRan n q ex_store = None)))"
  using ex_run ex_reaches every_read_has_run [OF ex_run ex_reaches] by simp

text \<open>
  C2: A run of an accepted definition ends: no step executes twice, so it executes at most as many
  steps as the definition has, and until it is over it has a next step to take.
\<close>

theorem run_ends:
  assumes "run h d = Some ([], v)" and "reaches v inputs trace i st"
  shows "distinct trace \<and> length trace \<le> length (vsteps v) \<and>
    (i \<noteq> [] \<longrightarrow> length trace < length (vsteps v) \<and> (\<exists>j st'. reaches v inputs (trace @ [i]) j st'))"
proof -
  obtain fl where p: "plan_ok h d v fl" using run_ok [OF assms(1)] by blast
  show ?thesis using reaches_distinct [OF p assms(2)] live_progress [OF p assms(2)] by blast
qed

lemma run_ends_witness:
  "distinct [''s''] \<and> length [''s''] \<le> length (vsteps ex_v) \<and>
    length [''s''] < length (vsteps ex_v) \<and> (\<exists>j st'. reaches ex_v ex_inputs ([''s''] @ [''b'']) j st')"
  using run_ends [OF ex_run ex_reaches] by simp

text \<open>
  C3: Validation always returns. The loop that orders the steps restarts its scan whenever it takes
  one and would spin for ever on a cycle; it is only entered once the search found none.
\<close>

theorem validation_total:
  shows "(\<exists>r. Validate dec quote digest h = Some r) \<and> (\<exists>ps v. run h d = Some (ps, v))"
proof -
  have run: "\<exists>ps v. run h d = Some (ps, v)" for d
  proof -
    obtain ns sps ld where c: "collectSteps (validator_of h d) = (ns, sps, ld)" using prod_cases3 by blast
    have "distinct (map nid ns)" using collected_distinct [of "validator_of h d"] by (simp add: c)
    then obtain gps fl where "checkGraph (Start d) ns = Some (gps, fl)" using checkGraph_total by blast
    then show ?thesis by (simp add: run_def c split_beta Let_def)
  qed
  moreover have "\<exists>r. Validate dec quote digest h = Some r"
  proof (cases "h_source h workflow_file")
    case (ReadOk data)
    show ?thesis
    proof (cases "parseDefinition dec data")
      case (Inr d)
      obtain ps v where "run h d = Some (ps, v)" using run by blast
      then show ?thesis using ReadOk Inr by (cases ps) (auto simp: Validate_def split: sum.split)
    qed (simp add: Validate_def ReadOk)
  qed (simp_all add: Validate_def)
  ultimately show ?thesis by blast
qed

text \<open>
  C4: Loading is exact: \<^verbatim>\<open>parseDefinition\<close> accepts a file just when it is small enough and holds one document
  that is plain, has the closed schema's type, and decodes; the result is the decoded definition with the
  keys its steps wrote. \<open>plain_node\<close> and \<open>has_type\<close> are inductive descriptions that share nothing with the checks.
\<close>

theorem loading_is_exact:
  shows "parseDefinition dec data = Inr d \<longleftrightarrow> int (length data) \<le> maxDefinitionBytes \<and> yd_ends dec data \<and>
    (\<exists>doc d0. yd_first dec data = Decoded doc \<and> plain_node doc \<and> has_type (root_of doc) (TStruct TDefinition) \<and>
      yd_strict dec data = Inr d0 \<and> d = recordStepKeys (root_of doc) d0)"
  by (rule parseDefinition_iff)

text \<open>
  C5: The reviewed text means exactly one thing. A tree that passes \<^verbatim>\<open>checkNodes\<close> always has a value (\<^verbatim>\<open>nodeValue\<close> does
  not fail on it), and that value is the only one its text can mean. \<open>resolved\<close> is what the YAML library documents
  of its nodes: quoted scalars are text, and a scalar is tagged a float only when it parses as one.
\<close>

theorem documents_mean_one_value:
  assumes "checkNodes n = []" and "resolved n"
  shows "\<exists>v. nodeValue (ynode_of n) = Inr v \<and> (\<forall>w. means n w \<longleftrightarrow> w = v)"
proof -
  obtain v where v: "nodeValue (ynode_of n) = Inr v" "means n v"
    using nodeValue_means assms checkNodes_iff by blast
  have "means n w \<longleftrightarrow> w = v" for w using v(2) means_unique by blast
  with v(1) show ?thesis by blast
qed

lemma documents_mean_one_value_witness:
  "nodeValue (ynode_of example_value) = Inr (VObj [(''count'', VInt (-5)), (''xs'', VList [VBool True, VStr ''on''])]) \<and>
    (\<forall>w. means example_value w \<longleftrightarrow> w = VObj [(''count'', VInt (-5)), (''xs'', VList [VBool True, VStr ''on''])])"
  using documents_mean_one_value [OF example_value_nodes example_value_resolved] example_value_read by auto

text \<open>
  C6: No reviewed text is ignored: in a file that \<^verbatim>\<open>Validate\<close> accepts, every key the YAML wrote for a step, and for a
  map step's item, is a field its kind uses. This composes the loader, which records the keys, with the checks of
  each step, which refuse the keys of other kinds.
\<close>

theorem written_fields_apply:
  assumes "Validate dec quote digest h = Some (Valid v hash r)"
  shows "\<exists>data doc. h_source h workflow_file = ReadOk data \<and> yd_first dec data = Decoded doc \<and>
    (\<forall>i < length (step_nodes doc). i < length (Steps (vdefinition v)) \<longrightarrow>
      step_fields_apply (step_nodes doc ! i) (Steps (vdefinition v) ! i))"
proof -
  obtain data d where d: "h_source h workflow_file = ReadOk data" "parseDefinition dec data = Inr d" "run h d = Some ([], v)"
    using assms unfolding Validate_valid by blast
  obtain doc d0 where doc: "yd_first dec data = Decoded doc" "d = recordStepKeys (root_of doc) d0"
    using d(2) unfolding parseDefinition_iff by blast
  have "vdefinition v = d" using run_parts [OF d(3)] by metis
  moreover have "step_fields_apply (step_nodes doc ! i) (Steps d ! i)" if i: "i < length (step_nodes doc)" "i < length (Steps d)" for i
    using run_fields [OF d(3) nth_mem [OF i(2)]] recorded_step [OF i(1), of d0] i(2) step_keys_fields doc(2) by simp
  ultimately show ?thesis using d(1) doc(1) by auto
qed

lemma written_fields_apply_witness:
  "written_fields (step_nodes (ask_file ''Go?'') ! 0) \<subseteq> set (accepted_fields [''next'', ''input'', ''message'', ''response_schema''] False)"
proof -
  obtain hash r where "Validate (ask_yaml ''Go?'') (\<lambda>s. s) (\<lambda>s. s) ask_host = Some (Valid (ask_v ''Go?'') hash r)"
    using ask_valid [of "''Go?''" "\<lambda>s. s" "\<lambda>s. s"] by (auto simp: maxMessageBytes_def)
  from written_fields_apply [OF this]
  have "step_fields_apply (step_nodes (ask_file ''Go?'') ! 0) (Steps (vdefinition (ask_v ''Go?'')) ! 0)"
    by (auto simp: ask_yaml_def ask_v_def ask_def_steps ask_file_steps)
  then show ?thesis
    by (simp add: step_fields_apply_def ask_v_def ask_def_steps ask_step_sel fieldsByKind_def kind_ev)
qed

text \<open>
  C7: The graph check is exact. It calls the graph acyclic just when it has no cycle; and when it
  reports nothing, every step is reachable from the start, the order it leaves is a topological
  order of all steps, and \<^verbatim>\<open>dominates\<close> holds just when every path from the start to the later step
  passes through the earlier one.
\<close>

theorem graph_check_exact:
  assumes "distinct (map nid ns)"
  shows "\<exists>ps fl. checkGraph start ns = Some (ps, fl) \<and> (facyclic fl \<longleftrightarrow> acyclic (edge_rel (graph_of ns))) \<and>
    (ps = [] \<longrightarrow> (\<forall>b \<in> set (map nid ns). (start, b) \<in> (edge_rel (graph_of ns))\<^sup>*) \<and>
       set (forder fl) = set (map nid ns) \<and> distinct (forder fl) \<and> topological (graph_of ns) (forder fl) \<and>
       (\<forall>a. \<forall>b \<in> set (map nid ns). dominates fl a b \<longleftrightarrow> a \<noteq> b \<and> on_every_path (graph_of ns) start a b))"
proof -
  obtain ps fl where c: "checkGraph start ns = Some (ps, fl)" using checkGraph_total [OF assms] by blast
  have "(\<forall>b \<in> set (map nid ns). (start, b) \<in> (edge_rel (graph_of ns))\<^sup>*) \<and>
       set (forder fl) = set (map nid ns) \<and> distinct (forder fl) \<and> topological (graph_of ns) (forder fl) \<and>
       (\<forall>a. \<forall>b \<in> set (map nid ns). dominates fl a b \<longleftrightarrow> a \<noteq> b \<and> on_every_path (graph_of ns) start a b)" if "ps = []"
    using checkGraph_ok [OF assms c [unfolded that]] by (simp add: flow_ok_def)
  then show ?thesis using c checkGraph_flag(1) [OF assms c] by blast
qed

lemma graph_check_exact_witness:
  "distinct (map nid ex_nodes) \<and> (\<exists>ps fl. checkGraph ''s'' ex_nodes = Some (ps, fl) \<and> (facyclic fl \<longleftrightarrow> acyclic (edge_rel (graph_of ex_nodes))) \<and>
    (ps = [] \<longrightarrow> (\<forall>b \<in> set (map nid ex_nodes). (''s'', b) \<in> (edge_rel (graph_of ex_nodes))\<^sup>*) \<and>
       set (forder fl) = set (map nid ex_nodes) \<and> distinct (forder fl) \<and> topological (graph_of ex_nodes) (forder fl) \<and>
       (\<forall>a. \<forall>b \<in> set (map nid ex_nodes). dominates fl a b \<longleftrightarrow> a \<noteq> b \<and> on_every_path (graph_of ex_nodes) ''s'' a b)))"
proof -
  have d: "distinct (map nid ex_nodes)" by (simp add: ex_nodes_def)
  show ?thesis using d graph_check_exact [OF d, of "''s''"] by blast
qed

text \<open>
  C8: Every capability step of an accepted definition is authorised: its capability is in the
  catalog with the contract, connection and resource the step names, within Workspace Access
  (unless access is not checked) and covered by an operation of the requested Standing Authority;
  and an effect not proven idempotent has a single attempt.
\<close>

theorem capability_steps_authorized:
  assumes "run h d = Some ([], v)" and "n \<in> set (vsteps v)" and "nkind n = KindCapability"
  shows "\<exists>c. cap n = Some c \<and> Capabilities (h_env h) (Capability (nstep n)) = Some c \<and>
    Contract (nstep n) = CContract c \<and>
    (AccessUnchecked (h_env h) \<or> Allows (Access (h_env h)) (Connection (nstep n)) (Resource (nstep n))) \<and>
    authorityCovers d (Capability (nstep n)) (Connection (nstep n)) (Resource (nstep n)) \<and>
    (Effect c \<and> \<not> Idempotent c \<longrightarrow> attempts n = 1)"
proof -
  obtain n0 where n0: "node_ok (validator_of h d) n0" "same_node n n0" using validated_node [OF assms(1,2)] .
  have one: "1 \<le> attempts n" using n0 same0_cap [of n n0] by (simp add: node_ok_def compiled_ok_def same_node_def)
  obtain c where "cap n = Some c" "capability_authorized (h_env h) d (nstep n) (attempts n) c"
    using validated_capability [OF assms] by blast
  with one show ?thesis by (auto simp: capability_authorized_def)
qed

lemma capability_steps_authorized_witness:
  "\<exists>c. cap ex_cap2 = Some c \<and> Capabilities (h_env ex_host) (Capability (nstep ex_cap2)) = Some c \<and>
    Contract (nstep ex_cap2) = CContract c \<and>
    (AccessUnchecked (h_env ex_host) \<or> Allows (Access (h_env ex_host)) (Connection (nstep ex_cap2)) (Resource (nstep ex_cap2))) \<and>
    authorityCovers ex_def (Capability (nstep ex_cap2)) (Connection (nstep ex_cap2)) (Resource (nstep ex_cap2)) \<and>
    (Effect c \<and> \<not> Idempotent c \<longrightarrow> attempts ex_cap2 = 1)"
  by (rule capability_steps_authorized [OF ex_run]) (simp_all add: ex_nodes4_def)

text \<open>
  C9: The input a capability call sends fits the contract's input type and has no absent field,
  for a capability step of the definition.
\<close>

theorem capability_input_fits:
  assumes "CapabilityInput v i inputs steps = Inr out"
  shows "\<exists>n c. step_of v i = Some n \<and> cap n = Some c \<and> nkind n = KindCapability \<and>
    conforms (Some (orEmptyObject (CInput c))) (VObj out) \<and> (\<forall>(name, x) \<in> set out. x \<noteq> VNil)"
  by (rule CapabilityInput_ok [OF assms])

lemma capability_input_fits_witness:
  "\<exists>n c. step_of ex_v ''p'' = Some n \<and> cap n = Some c \<and> nkind n = KindCapability \<and>
    conforms (Some (orEmptyObject (CInput c))) (VObj [(''amount'', VInt 4)]) \<and> (\<forall>(name, x) \<in> set [(''amount'', VInt 4)]. x \<noteq> VNil)"
  by (rule capability_input_fits [OF ex_cap_input])

text \<open>
  C10: Simulation refines execution. A simulation that succeeds has taken the steps of a run of the
  definition to its end, and its outputs are the run's. Every step output it recorded was checked: against the
  response schema for an interrupt; against the result type its function declares for a deterministic step, and
  against the compiled output type for the other kinds (\<open>attempt_typed\<close>). The output of a map is made of one
  outcome for each element of a list within \<^verbatim>\<open>max_items\<close>, in order; each output that succeeded is typed in the same
  way for the item, and there are no more failures than the map's policy allows. The functions are the
  reviewed ones: each gives a text with every refusal, which the simulator takes for granted.
\<close>

theorem simulation_refines_runs:
  assumes "run h d = Some ([], v)" and "set (h_registry h) \<subseteq> set (reviewedFunctions lower parse_url)"
    and "Simulate dc quote digest hash v f = Some (SimDone sim)" and "si_Status sim = ''succeeded''"
  shows "\<exists>trace st. reaches v (si_Inputs sim) trace [] st \<and> si_Outputs sim = RunOutputs d (si_Inputs sim) st \<and>
    (\<forall>i x. map_of st i = Some x \<longrightarrow> (\<exists>n. step_of v i = Some n \<and>
       (nkind n = KindMap \<longrightarrow> (\<exists>m xs os. item n = Some m \<and> int (length xs) \<le> SMaxItems (nstep n) \<and> mapOutput xs os = Inr x \<and>
          map Index os = map int [0..<length xs] \<and> (\<forall>oc \<in> set os. Succeeded oc \<longrightarrow> attempt_typed m (Output oc)) \<and>
          (OnItemFailure (nstep n) = ''fail'' \<longrightarrow> (\<forall>oc \<in> set os. Succeeded oc)) \<and>
          (OnItemFailure (nstep n) = ''partial'' \<longrightarrow> MinSucceeded (nstep n) \<le> int (length (filter Succeeded os))))) \<and>
       (nkind n = KindInterrupt \<longrightarrow> conforms (nschema n) x) \<and>
       (nkind n \<noteq> KindMap \<and> nkind n \<noteq> KindInterrupt \<longrightarrow> attempt_typed n x)))"
proof -
  obtain fl where p: "plan_ok h d v fl" using run_ok [OF assms(1)] by blast
  have "report_ok quote v sim" using Simulate_ok [OF assms(1), of dc quote digest hash f] assms(3) by simp
  moreover have "vdefinition v = d" using p unfolding plan_ok_def by blast
  ultimately obtain trace st where "reaches v (si_Inputs sim) trace [] st" "si_Outputs sim = RunOutputs d (si_Inputs sim) st"
      and t: "\<And>i x. map_of st i = Some x \<Longrightarrow> \<exists>n. step_of v i = Some n \<and> step_output quote n x"
    using assms(4) unfolding report_ok_def by auto
  then show ?thesis using recorded_typed [OF p assms(2)] by (intro exI [of _ trace] exI [of _ st] conjI allI impI) (assumption+, blast)
qed

lemma simulation_refines_runs_witness:
  "si_Outputs ex_report = [(''out'', VInt 4)] \<and> (\<exists>trace st. reaches ex_v ex_inputs trace [] st \<and> [(''out'', VInt 4)] = RunOutputs ex_def ex_inputs st)"
proof -
  obtain trace st where "reaches ex_v (si_Inputs ex_report) trace [] st" "si_Outputs ex_report = RunOutputs ex_def (si_Inputs ex_report) st"
    using simulation_refines_runs [OF ex_run ex_registry ex_simulate ex_report_sel(1)] by (elim exE conjE)
  then show ?thesis using ex_report_outputs unfolding ex_report_sel by auto
qed

text \<open>
  C11: A successor continues safely. When \<^verbatim>\<open>PlanResume\<close> finds no problem, every step a run from the resume
  point with the carried outputs is about to execute exists, was not recorded by the predecessor
  and has not run yet; its input resolves, a branch decides, and a map's list reference is to a
  step whose output is there. The successor keeps the predecessor's Run Key.
\<close>

theorem resumed_runs_continue:
  assumes "run h d = Some ([], v)" and "PlanResume dc quote digest v resume inputs state key = (plan, [])"
    and "continues v (rp_Inputs plan) (rp_Resume plan) (rp_State plan) trace i st" and "i \<noteq> []"
  shows "(\<exists>n. step_of v i = Some n \<and> (\<exists>input. StepInput v i (rp_Inputs plan) st = Inr input) \<and>
      (nkind n = KindBranch \<longrightarrow> (\<exists>b. Branch v i (rp_Inputs plan) st = Inr b)) \<and>
      (nkind n = KindMap \<longrightarrow> (\<forall>q. over n = Some q \<longrightarrow> requireRan n q st = None)) \<and>
      map_of state i = None \<and> i \<notin> set trace) \<and>
    runKey digest d (rp_Inputs plan) = key"
proof -
  obtain fl where p: "plan_ok h d v fl" using run_ok [OF assms(1)] by blast
  then have "vdefinition v = d" unfolding plan_ok_def by (elim conjE)
  then show ?thesis using continued_step [OF p assms(2,3,4)] PlanResume_ok(5) [OF assms(2)] by simp
qed

lemma resumed_runs_continue_witness:
  "\<exists>input. StepInput ex_v ''p'' ex_inputs ex_state = Inr input"
  using resumed_runs_continue [OF ex_run ex_resume ex_continues] by (auto simp: ex_plan_def)

text \<open>
  C12: The classification of direct uses is complete. Take two sets of inputs that agree on every input not
  marked sensitive, and the same recorded step outputs and the same element of a map. Then every argument of
  a step or of a map's item, every value a branch reads, the list of a map and every run output that
  \<^verbatim>\<open>Sensitivity\<close> does not list are the same for both. A step output is held fixed: what a step computes
  from a sensitive argument is not classified, here or in the code.
\<close>

theorem sensitive_values_are_listed:
  assumes "run h d = Some ([], v)" and "agree (se_Inputs (Sensitivity v)) a b" and "step_of v i = Some n"
  shows "(\<forall>name. name \<notin> set (listed (se_StepArgs (Sensitivity v)) i) \<longrightarrow> map_of (inputOf n a st itm) name = map_of (inputOf n b st itm) name) \<and>
    (\<forall>m name. item n = Some m \<longrightarrow> name \<notin> set (listed (se_ItemArgs (Sensitivity v)) i) \<longrightarrow>
       map_of (inputOf m a st itm) name = map_of (inputOf m b st itm) name) \<and>
    (\<forall>t. nkind n = KindBranch \<longrightarrow> t \<notin> set (listed (se_BranchReads (Sensitivity v)) i) \<longrightarrow>
       lookup_val (d_Read (decide n (\<lambda>r. resolveRef r a st itm))) t = lookup_val (d_Read (decide n (\<lambda>r. resolveRef r b st itm))) t) \<and>
    (\<forall>q. nkind n = KindMap \<longrightarrow> over n = Some q \<longrightarrow> resolveRef q a st itm = resolveRef q b st itm) \<and>
    (\<forall>name. name \<notin> set (se_Outputs (Sensitivity v)) \<longrightarrow> map_of (RunOutputs d a st) name = map_of (RunOutputs d b st) name)"
proof -
  obtain fl where p: "plan_ok h d v fl" using run_ok [OF assms(1)] by blast
  then have d: "Sensitivity v = sensitivityOf d" unfolding plan_ok_def Sensitivity_def by (elim conjE) simp
  note u = unlisted_step [OF assms(1) assms(2) [unfolded d] assms(3)]
  have "se_Inputs (sensitivityOf d) = sensitive_inputs d" by (simp add: sensitivityOf_def Let_def)
  then have "\<forall>name. name \<notin> set (se_Outputs (sensitivityOf d)) \<longrightarrow> map_of (RunOutputs d a st) name = map_of (RunOutputs d b st) name"
    using unlisted_outputs assms(2) [unfolded d] by simp
  then show ?thesis unfolding d using u by (intro conjI allI impI) blast+
qed

lemma sensitive_values_are_listed_witness:
  "map_of (inputOf ex_s2 [(''n'', VInt 9)] [] VNil) ''parts'' = map_of (inputOf ex_s2 [(''n'', VInt 7)] [] VNil) ''parts''"
  using sensitive_values_are_listed [OF ex_run ex_agree ex_step_of(1)] ex_unlisted by blast

text \<open>
  C13: Documentation and order never reach the executable hash: definitions that differ only in descriptions
  and in the order of their collections have the same one.
\<close>

theorem hash_ignores_documentation:
  assumes "same_behaviour d d'" and "executableHash dc digest d files functions = Inr x"
  shows "executableHash dc digest d' files functions = Inr x"
proof -
  obtain doc where "hash_doc dc digest d files functions = Inr doc" "x = ''sha256:'' @ digest (encode doc)"
    using assms(2) by (auto simp: executableHash_def split: sum.splits)
  then show ?thesis using hash_same [OF assms(1)] by (simp add: executableHash_def)
qed

lemma hash_ignores_documentation_witness:
  "\<exists>x. executableHash ask_decode (\<lambda>s. s) (ask_def ''Go?'') [(''schemas/answer.json'', [])] [] = Inr x \<and>
    executableHash ask_decode (\<lambda>s. s) (ask_noted ''Go?'') [(''schemas/answer.json'', [])] [] = Inr x"
proof -
  obtain doc where "hash_doc ask_decode (\<lambda>s. s) (ask_def ''Go?'') [(''schemas/answer.json'', [])] [] = Inr doc" using ask_doc by blast
  then obtain x where x: "executableHash ask_decode (\<lambda>s. s) (ask_def ''Go?'') [(''schemas/answer.json'', [])] [] = Inr x"
    by (simp add: executableHash_def)
  from hash_ignores_documentation [OF ask_noted_same x] x show ?thesis by blast
qed

text \<open>
  C14: Everything but documentation and order reaches the document that is hashed. Two definitions with one
  document have one normalized form and the same settings. Every step of one is alike to a step of the other,
  with its id, in every field a run reads: its kind's fields, input, branch cases, attempts and pause between them,
  budget and, for a map step, every such field of its item. A prompt, a schema or a function that one names is
  there for both, with the same digest. The relations \<open>settings_alike\<close> and \<open>bound_alike\<close> are stated on the definitions
  as decoded; durations count by their whole milliseconds, and written values by what they mean.
\<close>

theorem hash_fixes_behaviour:
  assumes "hash_doc dc digest d files functions = Inr x" and "hash_doc dc digest d' files' functions' = Inr x"
  shows "(\<exists>n. normalizeDefinition d = Inr n \<and> normalizeDefinition d' = Inr n) \<and> settings_alike d d' \<and>
    (\<forall>s \<in> set (Steps d). \<exists>s' \<in> set (Steps d'). bound_alike s s') \<and> (\<forall>s' \<in> set (Steps d'). \<exists>s \<in> set (Steps d). bound_alike s' s) \<and>
    (\<forall>p \<in> set (prompts_of d). \<exists>a b. map_of files p = Some a \<and> map_of files' p = Some b \<and> digest a = digest b) \<and>
    (\<forall>p \<in> set (schemas_of d). \<exists>a t c b u e. map_of files p = Some a \<and> parseSchema dc a = Inr (t, c) \<and>
      map_of files' p = Some b \<and> parseSchema dc b = Inr (u, e) \<and> digest c = digest e) \<and>
    (\<forall>i \<in> set (functions_of d). \<exists>f g. map_of functions i = Some f \<and> map_of functions' i = Some g \<and>
      signatureDigest digest f = signatureDigest digest g)"
  by (intro conjI ballI document_fixes(1) [OF assms] settings_fixed [OF assms] steps_fixed [OF assms]
      steps_fixed [OF assms(2,1)] files_fixed [OF assms])

lemma hash_fixes_behaviour_witness:
  "settings_alike (ask_def ''Go?'') (ask_noted ''Go?'') \<and> (\<exists>s' \<in> set (Steps (ask_noted ''Go?'')). bound_alike (ask_step ''Go?'') s')"
proof -
  obtain x where x: "hash_doc ask_decode (\<lambda>s. s) (ask_def ''Go?'') [(''schemas/answer.json'', [])] [] = Inr x" using ask_doc by blast
  have "ask_step ''Go?'' \<in> set (Steps (ask_def ''Go?''))" by (simp add: ask_def_def)
  with hash_fixes_behaviour [OF x hash_same [OF ask_noted_same x]] show ?thesis by blast
qed

text \<open>
  C15: What an accepted definition requests is within Workspace Access: the check made again at activation
  reports nothing under the access of validation, and under any access it reports nothing exactly when
  every resource of every operation is allowed on the operation's connection.
\<close>

theorem requested_authority_is_within_access:
  assumes "run h d = Some ([], v)" and "\<not> AccessUnchecked (h_env h)"
  shows "AuthorityOutside (rep_Authority (buildReport quote digest readme warnings v hash)) (Access (h_env h)) = [] \<and>
    (\<forall>access. AuthorityOutside (rep_Authority (buildReport quote digest readme warnings v hash)) access = [] \<longleftrightarrow>
      (\<forall>op \<in> set (rep_Authority (buildReport quote digest readme warnings v hash)).
        \<forall>r \<in> set (au_Resources op). Allows access (au_Connection op) r))"
proof -
  let ?ops = "rep_Authority (buildReport quote digest readme warnings v hash)"
  have wf: "wf_authority ?ops" using wf_reported_authority [OF assms(1)] .
  have "AuthorityOutside ?ops (Access (h_env h)) = []"
    using accepted_authority [OF assms(1)] assms(2) run_authority [OF assms(1)]
    by (cases "Authority d") (auto simp: reported_authority outside_none)
  moreover have "AuthorityOutside ?ops access = [] \<longleftrightarrow> (\<forall>op \<in> set ?ops. \<forall>r \<in> set (au_Resources op). Allows access (au_Connection op) r)" for access
    using wf by (rule outside_allows)
  ultimately show ?thesis by blast
qed

lemma requested_authority_is_within_access_witness:
  "AuthorityOutside (rep_Authority (buildReport (\<lambda>s. s) (\<lambda>s. s) None [] ex_v ''h'')) (Access (h_env ex_host)) = [] \<and>
    AuthorityOutside (rep_Authority (buildReport (\<lambda>s. s) (\<lambda>s. s) None [] ex_v ''h'')) [] \<noteq> []"
proof -
  have "\<not> AccessUnchecked (h_env ex_host)" by (simp add: ex_host_def)
  note r = requested_authority_is_within_access [OF ex_run this]
  have "\<not> Allows [] c x" for c x by (simp add: Allows_def access_connection_def)
  then have "AuthorityOutside (rep_Authority (buildReport (\<lambda>s. s) (\<lambda>s. s) None [] ex_v ''h'')) [] \<noteq> []"
    using r by (simp add: reported_authority ex_def_def authority_of_def)
  with r show ?thesis by blast
qed

text \<open>
  C16: The authority part of a review diff is empty exactly when the two versions request the same operations,
  whatever the order of the operations and of their resources, and exactly then the documents the two
  authority hashes digest are one. A change of authority is always shown, and always changes the document.
\<close>

theorem authority_diff_is_exact:
  assumes "run h d = Some ([], v)" and "run h' d' = Some ([], v')"
  shows "(authorityDiff (rep_Authority (buildReport quote digest readme warnings v hash)) (rep_Authority (buildReport quote digest readme' warnings' v' hash')) = [] \<longleftrightarrow>
      mset (map sort_resources (rep_Authority (buildReport quote digest readme warnings v hash))) =
      mset (map sort_resources (rep_Authority (buildReport quote digest readme' warnings' v' hash')))) \<and>
    (authority_doc (rep_Authority (buildReport quote digest readme warnings v hash)) = authority_doc (rep_Authority (buildReport quote digest readme' warnings' v' hash')) \<longleftrightarrow>
      mset (map sort_resources (rep_Authority (buildReport quote digest readme warnings v hash))) =
      mset (map sort_resources (rep_Authority (buildReport quote digest readme' warnings' v' hash'))))"
  by (simp only: authority_diff_iff [OF wf_reported_authority [OF assms(1)] wf_reported_authority [OF assms(2)]] authority_doc_iff
    canonical_eq_iff [OF wf_reported_authority [OF assms(1), unfolded wf_authority_def, THEN conjunct1]])

lemma authority_diff_is_exact_witness:
  "authorityDiff (rep_Authority (buildReport (\<lambda>s. s) (\<lambda>s. s) None [] ex_v ''h'')) (rep_Authority (buildReport (\<lambda>s. s) (\<lambda>s. s) None [] (ask_v ''Go?'') ''h'')) \<noteq> []"
proof -
  have "run ask_host (ask_def ''Go?'') = Some ([], ask_v ''Go?'')" by (rule ask_run) (simp_all add: maxMessageBytes_def)
  from authority_diff_is_exact [OF ex_run this] show ?thesis
    by (simp add: reported_authority ex_def_def ask_v_def ask_def_def)
qed

text \<open>
  C17: The resources of a review report are exact: every capability step of an accepted definition is on a
  resource of the report, and each row lists in graph order the steps on it, as written when one of them is
  an effect and as only read otherwise.
\<close>

theorem reported_resources_are_exact:
  assumes "run h d = Some ([], v)"
  shows "(\<forall>r \<in> set (rep_Resources (buildReport quote digest readme warnings v hash)).
      rr_Steps r = map nid (filter (uses_resource (rr_Connection r) (rr_Resource r)) (ordered v)) \<and>
      rr_Access r = (if \<exists>n \<in> set (vsteps v). uses_resource (rr_Connection r) (rr_Resource r) n \<and> has_effect n then ''write'' else ''read'')) \<and>
    (\<forall>n \<in> set (vsteps v). nkind n = KindCapability \<longrightarrow>
      (\<exists>r \<in> set (rep_Resources (buildReport quote digest readme warnings v hash)). uses_resource (rr_Connection r) (rr_Resource r) n))"
  using reported_resources [OF assms] by (simp add: buildReport_def Let_def resource_ok_def)

lemma reported_resources_are_exact_witness:
  "\<exists>r \<in> set (rep_Resources (buildReport (\<lambda>s. s) (\<lambda>s. s) None [] ex_v ''h'')). rr_Connection r = ''main'' \<and> rr_Resource r = ''book'' \<and> rr_Access r = ''write''"
proof -
  note t = reported_resources_are_exact [OF ex_run, of "\<lambda>s. s" "\<lambda>s. s" None "[]" "''h''"]
  have n: "ex_cap2 \<in> set (vsteps ex_v)" "nkind ex_cap2 = KindCapability" "has_effect ex_cap2"
      "Connection (nstep ex_cap2) = ''main''" "Resource (nstep ex_cap2) = ''book''"
    by (simp_all add: ex_nodes4_def ex_cap2_def ex_cap_def has_effect_def ex_contract_def ex_p_def no_step_def step0.truncate_def)
  then obtain r where r: "r \<in> set (rep_Resources (buildReport (\<lambda>s. s) (\<lambda>s. s) None [] ex_v ''h''))" "uses_resource (rr_Connection r) (rr_Resource r) ex_cap2"
    using t by blast
  have "rr_Access r = (if \<exists>n \<in> set (vsteps ex_v). uses_resource (rr_Connection r) (rr_Resource r) n \<and> has_effect n then ''write'' else ''read'')"
    using t r(1) by blast
  moreover have "\<exists>n \<in> set (vsteps ex_v). uses_resource (rr_Connection r) (rr_Resource r) n \<and> has_effect n" using n r(2) by blast
  ultimately have "rr_Access r = ''write''" by simp
  with r n show ?thesis by (intro bexI [of _ r]) (auto simp: uses_resource_def)
qed

text \<open>
  C18: Run inputs the definition accepts are all declared, each fits its declared type, each name is
  given once, and every input that is required or has a default is there.
\<close>

theorem accepted_inputs_fit:
  assumes "run h d = Some ([], v)" and "AcceptInputs dc (vinputs v) values texts = Inr m"
  shows "(\<forall>(name, x) \<in> set m. \<exists>i. map_of (vinputs v) name = Some i \<and> conforms (Some (itype i)) x) \<and> distinct (map fst m) \<and>
    (\<forall>name i. map_of (vinputs v) name = Some i \<longrightarrow> i_Required (spec i) \<or> hasDefault i \<longrightarrow> hasKey m name)"
proof -
  obtain fl where "plan_ok h d v fl" using run_ok [OF assms(1)] by blast
  then have c: "checkInputs (Inputs d) = ([], vinputs v)" unfolding plan_ok_def by (elim conjE) (simp add: prod_eq_iff)
  note ok = AcceptInputs_ok [OF assms(2) checkInputs_ok [OF c]]
  then show ?thesis by blast
qed

lemma accepted_inputs_fit_witness:
  "AcceptInputs (\<lambda>_. Inr (JNumber ''9'')) (vinputs ex_v) [] [(''n'', ''9'')] = Inr ex_inputs \<and>
    (\<exists>i. map_of (vinputs ex_v) ''n'' = Some i \<and> conforms (Some (itype i)) (VInt 9)) \<and> distinct (map fst ex_inputs)"
  using accepted_inputs_fit [OF ex_run ex_accept] ex_accept by (simp add: ex_inputs_def)

text \<open>
  C19: \<^verbatim>\<open>checkAt\<close> decides the type system: it returns no error just for the values that conform to the
  type, whatever path it reports errors at.
\<close>

theorem check_value_exact:
  shows "checkAt t v path = None \<longleftrightarrow> conforms t v"
  by (rule checkAt_conforms)

text \<open>
  C20: Assignability is sound up to what it does not look at: every value of a closed source type (as
  JSON schemas give) conforms to the destination with its bounds and enumerations erased and its
  objects open.
\<close>

theorem assignable_is_sound:
  assumes "assignable (Some s) d = None" and "strict s" and "\<forall>t. d = Some t \<longrightarrow> wf_ty t" and "conforms (Some s) v"
  shows "conforms (map_option erase d) v"
  by (rule assignable_sound [OF assms(1) _ assms(3) _ assms(4)]) (simp_all add: assms(2))

lemma assignable_is_sound_witness:
  "conforms (map_option erase (Some NumberType)) (VInt 3)"
  by (rule assignable_is_sound [of IntegerType])
    (simp_all add: assignable.simps NumberType_def IntegerType_def plain_def conforms_plain [unfolded IntegerType_def plain_def]
      strict_plain wf_plain)

text \<open>
  C21: A slot is due at the first instant at which the wall clock of its timezone has reached its nominal
  time: never before the clock has, at the first occurrence of a repeated time, and at the end of the
  gap for a time that is skipped, which is exactly when the slot is marked shifted. The timezone has
  offsets of at most a day and, in a range around the nominal time (\<open>zone_ok\<close>), at most one change of
  offset within 36 hours, by a minute or more. The witness is \<^verbatim>\<open>America/New_York\<close>, from its transition table.
\<close>

theorem slots_are_due_when_the_clock_reaches_them:
  assumes "zone_ok (tt_zone t) lo hi" and "h < 24" and "m < 60" and "lo \<le> nominal_at day h m" and "nominal_at day h m \<le> hi"
  shows "(nominal_at day h m \<le> local_time (tt_zone t) (due_at (slot_at t day h m)) \<and>
      (\<forall>u < due_at (slot_at t day h m). local_time (tt_zone t) u < nominal_at day h m)) \<and>
    (Shifted (slot_at t day h m) \<longleftrightarrow> local_time (tt_zone t) (due_at (slot_at t day h m)) \<noteq> nominal_at day h m)"
  using instant_spec(1,2) [OF assms(1,4,5) nominal_fields(4) [OF assms(2,3)]]
  by (simp add: slot_at_def is_due_def split_beta)

lemma slots_are_due_when_the_clock_reaches_them_witness:
  "gap_time \<le> local_time ny (due_at (slot_at sch_tt gap_day 2 30)) \<and> Shifted (slot_at sch_tt gap_day 2 30)"
  using slots_are_due_when_the_clock_reaches_them [of sch_tt gap_time gap_time 2 30 gap_day] ny_ok [of gap_time]
  by (simp add: sch_tt_def [symmetric] gap_nominal gap_slot) (simp add: sch_tt_def first_time_def zero_time_def gap_time_def)

text \<open>
  C22: A window that is not truncated misses nothing. There is one increasing list of nominal times whose
  slots are the slots of the window: its first slot, its last \<open>keep\<close> slots and its length are the
  window's, and each of them is matched by the cron and its slot follows the cursor and is due by the end.
  Of a range on which the timezone is as \<open>zone_ok\<close> says (less a day at each end), every such time is in it.
\<close>

theorem due_slots_are_complete:
  assumes "zone_ok (tt_zone t) lo hi" and "\<not> Truncated (DueSlots t c until keep)"
  shows "\<exists>ws. sorted_wrt (<) ws \<and>
    First (DueSlots t c until keep) = (case ws of [] \<Rightarrow> None | w # _ \<Rightarrow> Some (slot_of t w)) \<and>
    Latest (DueSlots t c until keep) = (if 0 < keep then drop (length ws - nat keep) (map (slot_of t) ws) else []) \<and>
    Total (DueSlots t c until keep) = int (length ws) \<and>
    (\<forall>w \<in> set ws. scheduled (tt_spec t) w \<and> Follows c (slot_of t w) \<and> nano * due_at (slot_of t w) \<le> until) \<and>
    (\<forall>w \<in> {lo + 86400..hi - 86400}.
       scheduled (tt_spec t) w \<and> Follows c (slot_of t w) \<and> nano * due_at (slot_of t w) \<le> until \<longrightarrow> w \<in> set ws)"
proof -
  obtain ws where s: "sorted_wrt (<) ws" and d: "DueSlots t c until keep = window_of keep False (map (slot_of t) ws)"
    and w: "\<forall>w \<in> set ws. scheduled (tt_spec t) w \<and> due_by c until (slot_of t w)"
    "\<forall>w \<in> {lo + 86400..hi - 86400}. scheduled (tt_spec t) w \<and> due_by c until (slot_of t w) \<longrightarrow> w \<in> set ws"
    using DueSlots_complete [OF assms] by blast
  have f: "First (window_of keep False (map (slot_of t) ws)) = (case ws of [] \<Rightarrow> None | w # _ \<Rightarrow> Some (slot_of t w))"
    "Latest (window_of keep False (map (slot_of t) ws)) = (if 0 < keep then drop (length ws - nat keep) (map (slot_of t) ws) else [])"
    "Total (window_of keep False (map (slot_of t) ws)) = int (length ws)"
    by (cases ws) (simp_all add: window_of_def)
  show ?thesis unfolding d f using s w [unfolded due_by_def] by (intro exI [of _ ws] conjI refl) assumption+
qed

lemma due_slots_are_complete_witness:
  "\<exists>ws. Total (DueSlots sch_tt sch_cursor sch_until 10) = int (length ws) \<and> gap_time \<in> set ws"
proof -
  have z: "zone_ok (tt_zone sch_tt) first_time 2000000000" "tt_spec sch_tt = sch_cron" using ny_ok by (simp_all add: sch_tt_def)
  have g: "gap_time \<in> {first_time + 86400..2000000000 - 86400}" by (simp add: first_time_def zero_time_def gap_time_def)
  show ?thesis using due_slots_are_complete [OF z(1) sch_due] gap_due g unfolding z(2) due_by_def by blast
qed

text \<open>
  C23: The next slot is the first. When \<^verbatim>\<open>Next\<close> returns a slot, it is the slot of a nominal time the
  cron matches, it follows the cursor, and every other such slot is later and is due no earlier. When
  it returns none, no slot of the next eight years follows the cursor. The other slots are those of a
  range of nominal times on which the timezone is as \<open>zone_ok\<close> says, from four days before the cursor on.
\<close>

theorem next_slot_is_first:
  assumes "zone_ok (tt_zone t) lo hi" and "lo + 345600 \<le> seconds (At c)"
  shows "case NextSlot t c of
      Some s \<Rightarrow> \<exists>w. s = slot_of t w \<and> scheduled (tt_spec t) w \<and> Follows c s \<and>
        (\<forall>v \<in> {lo..hi}. scheduled (tt_spec t) v \<longrightarrow> Follows c (slot_of t v) \<longrightarrow> w \<le> v \<and> due_at s \<le> due_at (slot_of t v))
    | None \<Rightarrow> \<forall>v \<in> {lo..hi}. scheduled (tt_spec t) v \<longrightarrow>
        day_number v < civilDate (tt_zone t) (seconds (At c)) + 2927 \<longrightarrow> \<not> Follows c (slot_of t v)"
  by (rule NextSlot_first [OF assms])

lemma next_slot_is_first_witness:
  "\<exists>w. slot_at sch_tt gap_day 2 30 = slot_of sch_tt w \<and> scheduled sch_cron w"
proof -
  have z: "zone_ok (tt_zone sch_tt) first_time 2000000000" "tt_spec sch_tt = sch_cron" using ny_ok by (simp_all add: sch_tt_def)
  have g: "first_time + 345600 \<le> seconds (At sch_cursor)"
    by (simp add: first_time_def zero_time_def seconds_def nano_def sch_cursor_def)
  show ?thesis using next_slot_is_first [OF z(1) g] unfolding sch_next z(2) by auto
qed

text \<open>
  C24: The schedule of an accepted definition can be run. It has a timetable: its cron parsed, in its
  timezone, unless the cron is one whose parsing panics; its Catch-up Policy is skip, or at most
  \<^verbatim>\<open>maxCatchUpRuns\<close> recovery runs. For every slot it gives inputs the definition declares, the required
  ones among them; each is a literal of the input's type, or the slot's date or time for a text input.
\<close>

theorem accepted_schedules_run:
  assumes "run h d = Some ([], v)" and "Schedule d = Some s" and "location (s_Timezone s) = Some z"
  shows "(\<exists>cu. s_CatchUp s = Some cu \<and> policy_ok cu \<and>
      (if cron_overflows (s_Cron s) then ScheduleOf location v = Some Panic
       else \<exists>cs. parseCron (s_Cron s) = Some (Done (Inr cs)) \<and> ScheduleOf location v = Some (Done (Some
         \<lparr>sc_Timetable = \<lparr>tt_Cron = join '' '' (splitFields (s_Cron s)), tt_Timezone = s_Timezone s, tt_spec = cs, tt_zone = z\<rparr>,
          sc_CatchUp = c_Policy cu, sc_MaxRuns = c_MaxRuns cu\<rparr>)))) \<and>
    (\<exists>m. ScheduleInputs v slot = Inr m \<and> map fst m = sortedKeys (s_Inputs s) \<and>
      (\<forall>(name, b) \<in> set m. \<exists>inp x. map_of (vinputs v) name = Some inp \<and> b = canonicalBytes x \<and> scheduled_value slot inp x) \<and>
      (\<forall>name inp. map_of (vinputs v) name = Some inp \<longrightarrow> i_Required (spec inp) \<longrightarrow> name \<in> set (map fst m)))"
  using ScheduleInputs_accepted [OF assms(1,2), of slot] required_scheduled [OF assms(1,2)]
  by (intro conjI [OF ScheduleOf_accepted [OF assms(1,2), of location, OF assms(3)]]) (elim exE conjE, intro exI conjI allI impI, assumption+, simp)

lemma accepted_schedules_run_witness:
  "\<exists>m. ScheduleInputs sch_v (slot_at sch_tt gap_day 2 30) = Inr m \<and> map fst m = [''day'']"
proof -
  have s: "Schedule sch_def = Some sch_plan" by (simp add: sch_def_def)
  have "sortedKeys (s_Inputs sch_plan) = [''day'']" by (simp add: sch_plan_def sortedKeys_def)
  then show ?thesis
    using accepted_schedules_run [OF sch_run s, of "\<lambda>_. Some ny" ny "slot_at sch_tt gap_day 2 30"] by auto
qed

text \<open>
  C25: The status \<^verbatim>\<open>verified\<close> means what it says. The texts are those given, except that a combined marker
  is written as separate ones, and every token the scanner finds in them is allowed: an accepted
  claim relies on the URL of a link or of a bare URL, and a marker names a citation that is kept.
\<close>

theorem verified_reports_are_sourced:
  assumes "Call checkCitations given = Returned r" and "field_value r ''status'' = VStr ''verified''"
  shows "\<exists>report claims cs. map_of given ''report'' = Some report \<and> map_of given ''claims'' = Some (VList claims) \<and>
    field_value r ''citations'' = VList (map (citation_val (supports_of claims)) cs) \<and>
    list_all (sourced_text claims (map ci_marker cs)) (report_texts report) \<and>
    map (field_value r) [''title'', ''summary'', ''body_markdown''] = map (VStr \<circ> split_markers) (report_texts report)"
  by (rule verified_clean [OF assms])

lemma verified_reports_are_sourced_witness:
  "\<exists>r report. Call checkCitations (rx_report ''Fact [S1].'') = Returned r \<and> map_of (rx_report ''Fact [S1].'') ''report'' = Some report \<and>
    field_value r ''body_markdown'' = VStr (split_markers (stringField report [''body_markdown'']))"
proof -
  obtain r where r: "Call checkCitations (rx_report ''Fact [S1].'') = Returned r" "field_value r ''status'' = VStr ''verified''"
    using rx_report_call by blast
  then show ?thesis using verified_reports_are_sourced [OF r] by (auto simp: report_texts_def)
qed

text \<open>
  C26: The citations a checked report keeps are sound: no two share a marker, each marker has the form
  S1 to S999, each URL is a source of a claim given as accepted, and the title, the summary or the body
  cites it. The claim ids it carries are those of the claims that list its URL as a source.
\<close>

theorem report_citations_are_sourced:
  assumes "Call checkCitations given = Returned r"
  shows "\<exists>report claims cs. map_of given ''report'' = Some report \<and> map_of given ''claims'' = Some (VList claims) \<and>
    field_value r ''citations'' = VList (map (citation_val (supports_of claims)) cs) \<and> distinct (map ci_marker cs) \<and>
    list_all (\<lambda>e. sound_entry claims e \<and> list_ex (\<lambda>s. cites s (ci_marker e)) (report_texts report)) cs \<and>
    (\<forall>e \<in> set cs. \<forall>i. i \<in> set (supporters (supports_of claims) (ci_url e)) \<longleftrightarrow>
       list_ex (\<lambda>c. stringField c [''id''] = i \<and> relies_on c (ci_url e)) claims)"
  using citations_sourced [OF assms] by (simp add: supporters_iff list_ex_iff)

lemma report_citations_are_sourced_witness:
  "\<exists>r cs. Call checkCitations (rx_report ''Fact [S1].'') = Returned r \<and>
    field_value r ''citations'' = VList (map (citation_val (supports_of [rx_accepted])) cs) \<and> list_all (sound_entry [rx_accepted]) cs"
proof -
  obtain r where r: "Call checkCitations (rx_report ''Fact [S1].'') = Returned r" using rx_report_call by blast
  then show ?thesis using report_citations_are_sourced [OF r] by (auto simp: rx_report_def list_all_iff)
qed

text \<open>
  C27: A confirmed claim cites only what was read for it: each of its sources is a URL that a verifier of that
  claim, one that did not refute it, is recorded as fetching, or the claim's own source when such a
  verifier fetched a URL with the same key. A URL named by a model alone is never cited.
\<close>

theorem confirmed_sources_were_fetched:
  assumes "Call (tallyAdversarial lower parse_url) given = Returned r"
  shows "\<exists>claims votes confirmed. map_of given ''claims'' = Some (VList claims) \<and> map_of given ''votes'' = Some (VList votes) \<and>
    field_value r ''confirmed'' = VList confirmed \<and>
    (\<forall>x \<in> set confirmed. \<exists>c \<in> set claims. value_id x = claim_key c \<and>
       (\<exists>us. value_sources x = map VStr us \<and> list_all (fetched_for lower parse_url votes c) us))"
  by (rule confirmed_sources_fetched [OF assms])

lemma confirmed_sources_were_fetched_witness:
  "\<exists>r confirmed. Call (tallyAdversarial rx_lower rx_parse) (rx_adversarial [True, False] 2 2) = Returned r \<and>
    field_value r ''confirmed'' = VList confirmed \<and> list_all (\<lambda>x. value_id x = ''c1'') confirmed"
proof -
  obtain r where r: "Call (tallyAdversarial rx_lower rx_parse) (rx_adversarial [True, False] 2 2) = Returned r"
    using rx_adversarial_call by blast
  have "claim_key rx_ranked_claim = ''c1''" by code_simp
  then show ?thesis using confirmed_sources_were_fetched [OF r] r by (fastforce simp: rx_adversarial_def list_all_iff)
qed

text \<open>
  C28: The adversarial tally is exact. A claim is refuted with at least \<^verbatim>\<open>refutations_required\<close> valid votes that
  refute it, confirmed when it is not and has at least \<^verbatim>\<open>min_valid_votes\<close> valid votes, and unverified
  otherwise; each list keeps the order of the claims, and the sources of a confirmed claim are the
  URLs of its surviving votes.
\<close>

theorem adversarial_tally_is_exact:
  assumes "Call (tallyAdversarial lower parse_url) given = Returned r"
  shows "\<exists>claims votes needed minValid confirmed refuted unverified. map_of given ''claims'' = Some (VList claims) \<and>
    map_of given ''votes'' = Some (VList votes) \<and> map_of given ''refutations_required'' = Some (VInt needed) \<and>
    map_of given ''min_valid_votes'' = Some (VInt minValid) \<and> field_value r ''confirmed'' = VList confirmed \<and>
    field_value r ''refuted'' = VList refuted \<and> field_value r ''unverified'' = VList unverified \<and>
    map value_id confirmed = map claim_key (filter (\<lambda>c. confirms needed minValid (votes_on lower parse_url votes (claim_key c))) claims) \<and>
    map value_id refuted = map claim_key (filter (\<lambda>c. refutes needed (votes_on lower parse_url votes (claim_key c))) claims) \<and>
    map value_id unverified = map claim_key (filter (\<lambda>c. \<not> refutes needed (votes_on lower parse_url votes (claim_key c)) \<and>
       \<not> confirms needed minValid (votes_on lower parse_url votes (claim_key c))) claims) \<and>
    list_all2 (\<lambda>x c. value_sources x = map VStr (citations_of lower parse_url (stringField c [''source_url''])
        (votes_on lower parse_url votes (claim_key c)))) confirmed
      (filter (\<lambda>c. confirms needed minValid (votes_on lower parse_url votes (claim_key c))) claims)"
  by (rule adversarial_exact [OF assms])

lemma adversarial_tally_is_exact_witness:
  "\<exists>r confirmed. Call (tallyAdversarial rx_lower rx_parse) (rx_adversarial [True, False] 2 2) = Returned r \<and>
    field_value r ''confirmed'' = VList confirmed \<and> map value_id confirmed = map claim_key (filter (\<lambda>c. confirms 2 2
      (votes_on rx_lower rx_parse (map rx_refute [True, False]) (claim_key c))) [rx_ranked_claim])"
proof -
  obtain r where r: "Call (tallyAdversarial rx_lower rx_parse) (rx_adversarial [True, False] 2 2) = Returned r"
    using rx_adversarial_call by blast
  obtain claims votes needed minValid confirmed where a: "map_of (rx_adversarial [True, False] 2 2) ''claims'' = Some (VList claims)"
    "map_of (rx_adversarial [True, False] 2 2) ''votes'' = Some (VList votes)"
    "map_of (rx_adversarial [True, False] 2 2) ''refutations_required'' = Some (VInt needed)"
    "map_of (rx_adversarial [True, False] 2 2) ''min_valid_votes'' = Some (VInt minValid)"
    and c: "field_value r ''confirmed'' = VList confirmed"
    "map value_id confirmed = map claim_key (filter (\<lambda>c. confirms needed minValid (votes_on rx_lower rx_parse votes (claim_key c))) claims)"
    using adversarial_tally_is_exact [OF r] by (elim exE conjE) (rule that)
  have "claims = [rx_ranked_claim]" "votes = map rx_refute [True, False]" "needed = 2" "minValid = 2"
    using a by (simp_all add: rx_adversarial_def)
  with c r show ?thesis by blast
qed

text \<open>
  C29: \<^verbatim>\<open>rank_claims\<close> keeps the first \<^verbatim>\<open>max_claims\<close> of the candidates ordered by importance, source quality, source and
  position, numbered in that order. Every candidate comes from an extraction that succeeded, and its source
  is a page that extraction is recorded as fetching: a claim about a page that was not read is dropped.
\<close>

theorem ranked_claims_were_read:
  assumes "Call (rankClaims lower parse_url) given = Returned r"
  shows "\<exists>ex limit cs. map_of given ''extractions'' = Some ex \<and> map_of given ''max_claims'' = Some (VInt limit) \<and>
    cs = sort_key rank_order (all_candidates lower parse_url (extraction_entries ex)) \<and>
    field_value r ''claims'' = VList (numbered ''c'' ranked_claim (take (nat limit) cs)) \<and>
    field_value r ''extracted'' = VInt (int (length cs)) \<and> field_value r ''dropped'' = VInt (int (length (drop (nat limit) cs))) \<and>
    (\<forall>c \<in> set cs. \<exists>en \<in> set (extraction_entries ex). ex_succeeded en \<and> lookup_field c ''source_url'' = VStr (source_url en) \<and>
      (\<exists>key s. sourceKey lower parse_url (source_url en) = Some key \<and> s \<in> set (listField (ex_output en) [''sources'']) \<and>
         sourceKey lower parse_url (stringField s [''url'']) = Some key))"
proof -
  obtain ex limit cs where r: "map_of given ''extractions'' = Some ex" "map_of given ''max_claims'' = Some (VInt limit)"
    "cs = sort_key rank_order (all_candidates lower parse_url (extraction_entries ex))"
    "field_value r ''claims'' = VList (numbered ''c'' ranked_claim (take (nat limit) cs))"
    "field_value r ''extracted'' = VInt (int (length cs))" "field_value r ''dropped'' = VInt (int (length (drop (nat limit) cs)))"
    using rank_exact [OF assms] by (elim exE conjE) (rule that)
  have "c \<in> set cs \<Longrightarrow> c \<in> set (all_candidates lower parse_url (extraction_entries ex))" for c by (simp add: r(3))
  with r candidate_fetched show ?thesis by (intro exI [of _ ex] exI [of _ limit] exI [of _ cs]) blast
qed

lemma ranked_claims_were_read_witness:
  "\<exists>r n. Call (rankClaims rx_lower rx_parse) rx_extractions = Returned r \<and> field_value r ''extracted'' = VInt (int n)"
proof -
  obtain r where r: "Call (rankClaims rx_lower rx_parse) rx_extractions = Returned r" using rx_rank_call by blast
  then show ?thesis using ranked_claims_were_read [OF r] by blast
qed

text \<open>
  C30: \<^verbatim>\<open>dedup_sources\<close> is the obvious thing computed in one pass: sort the hits by relevance, angle and
  position, take the first hit of every source key, keep the first \<^verbatim>\<open>max_sources\<close> of those, numbered.
  The counts of candidates, invalid hits, duplicates and hits over the budget are exact, and the keys kept
  are distinct.
\<close>

theorem sources_are_deduplicated:
  assumes "Call (dedupSources lower parse_url) given = Returned r"
  shows "\<exists>results limit hits fh. map_of given ''results'' = Some (VList results) \<and> map_of given ''max_sources'' = Some (VInt limit) \<and>
    1 \<le> limit \<and> hits = sort_key relevance_order (search_hits results) \<and> fh = first_hits (hit_key lower parse_url) hits \<and>
    distinct (map fst fh) \<and> (\<forall>k. map_of fh k = find (\<lambda>c. hit_key lower parse_url c = Some k) hits) \<and>
    field_value r ''sources'' = VList (numbered ''s'' keep_source (take (nat limit) fh)) \<and>
    field_value r ''candidates'' = VInt (int (length hits)) \<and>
    field_value r ''invalid'' = VInt (int (length (filter (\<lambda>c. hit_key lower parse_url c = None) hits))) \<and>
    field_value r ''duplicates'' = VInt (int (length (filter (\<lambda>c. hit_key lower parse_url c \<noteq> None) hits)) - int (length fh)) \<and>
    field_value r ''budget_dropped'' = VInt (int (length (drop (nat limit) fh)))"
  using dedup_exact [OF assms] by (simp add: first_hits_distinct first_hits_find)

lemma sources_are_deduplicated_witness:
  "\<exists>r. Call (dedupSources rx_lower rx_parse) rx_results = Returned r \<and> field_value r ''candidates'' = VInt 3"
proof -
  obtain r where r: "Call (dedupSources rx_lower rx_parse) rx_results = Returned r" using rx_dedup_call by blast
  have "length (search_hits (list_of (arg_val rx_results ''results''))) = 3" by code_simp
  moreover obtain results hits where "map_of rx_results ''results'' = Some (VList results)" "hits = sort_key relevance_order (search_hits results)"
    "field_value r ''candidates'' = VInt (int (length hits))"
    using sources_are_deduplicated [OF r] by (elim exE conjE) (rule that)
  ultimately have "field_value r ''candidates'' = VInt 3" by (simp add: arg_val_def)
  with r show ?thesis by blast
qed

text \<open>
  C31: References round-trip. A reference written from a root, a name and a field path that its
  grammar allows parses back to them, and every text the parser accepts is the text of the
  reference it returns.
\<close>

theorem reference_round_trip:
  shows "parseRef s = Inr r \<longleftrightarrow> valid_ref (Root r) (RName r) (Path r) \<and> Raw r = s \<and> s = ref_text (Root r) (RName r) (Path r)"
proof
  assume r: "parseRef s = Inr r"
  have v: "valid_ref (Root r) (RName r) (Path r)" and s: "s = ref_text (Root r) (RName r) (Path r)" using parseRef_sound [OF r] by auto
  with r parseRef_ref_text [OF v] have "r = \<lparr>Raw = s, Root = Root r, RName = RName r, Path = Path r\<rparr>" by simp
  then have "Raw r = s" by (metis ref.select_convs(1))
  with v s show "valid_ref (Root r) (RName r) (Path r) \<and> Raw r = s \<and> s = ref_text (Root r) (RName r) (Path r)" by blast
next
  assume a: "valid_ref (Root r) (RName r) (Path r) \<and> Raw r = s \<and> s = ref_text (Root r) (RName r) (Path r)"
  then show "parseRef s = Inr r" using parseRef_ref_text [of "Root r" "RName r" "Path r"] by (cases r) auto
qed

text \<open>
  C32: \<^verbatim>\<open>collect_claims\<close> returns at most its cap of claims, identified c1, c2 and so on in order, no two
  with the same normalised text, each with distinct sources that some finding really fetched.
\<close>

theorem collected_claims_are_sourced:
  assumes "Call (collectClaims lower) given = Returned r"
  shows "\<exists>limit findings cs. map_of given ''max_claims'' = Some (VInt limit) \<and> map_of given ''findings'' = Some (VList findings) \<and>
    field_value r ''claims'' = VList (map claim_val cs) \<and> field_value r ''count'' = VInt (int (length cs)) \<and>
    int (length cs) \<le> limit \<and> distinct (map (lower \<circ> c_text) cs) \<and>
    map c_id cs = map (\<lambda>i. ''c'' @ itoa (int i + 1)) [0..<length cs] \<and>
    (\<forall>c \<in> set cs. distinct (c_sources c) \<and> set (c_sources c) \<subseteq> (\<Union>f \<in> set findings. fetched_of f))"
  using collect_exact [OF assms] .

lemma collected_claims_are_sourced_witness:
  "\<exists>limit findings cs. map_of ex_findings ''max_claims'' = Some (VInt limit) \<and> map_of ex_findings ''findings'' = Some (VList findings) \<and>
    field_value (VObj [(''claims'', VList [claim_val ex_claim]), (''count'', VInt 1), (''dropped'', VInt 0)]) ''claims'' = VList (map claim_val cs) \<and>
    field_value (VObj [(''claims'', VList [claim_val ex_claim]), (''count'', VInt 1), (''dropped'', VInt 0)]) ''count'' = VInt (int (length cs)) \<and>
    int (length cs) \<le> limit \<and> distinct (map ((\<lambda>s. s) \<circ> c_text) cs) \<and>
    map c_id cs = map (\<lambda>i. ''c'' @ itoa (int i + 1)) [0..<length cs] \<and>
    (\<forall>c \<in> set cs. distinct (c_sources c) \<and> set (c_sources c) \<subseteq> (\<Union>f \<in> set findings. fetched_of f))"
  by (rule collected_claims_are_sourced [OF ex_collect_call])

text \<open>
  C33: None of the twelve reviewed functions of the registry returns a value outside its result type: the
  defect \<^verbatim>\<open>call\<close> guards against never happens for them, whatever lower-casing and URL parsing do.
\<close>

theorem reviewed_functions_keep_their_types:
  shows "list_all (\<lambda>f. call f path input \<noteq> CallBroken e) [collectClaims lower, expandBallots, majorityFilter, splitEvenly,
    tallyVerdicts, checkCitations, dedupSources lower parse_url, rankClaims lower parse_url, expandBallotsV2,
    tallyAdversarial lower parse_url, requireZero, gateProposals]"
  by (simp add: require_zero.never_broken split_evenly.never_broken expand_ballots.never_broken collect_claims.never_broken
      majority_filter.never_broken tally_verdicts.never_broken check_citations.never_broken dedup_sources.never_broken
      rank_claims.never_broken expand_ballots2.never_broken tally_adversarial.never_broken gate_proposals.never_broken)

text \<open>
  C34: A simulation of an accepted definition always ends, with an error or a report, whatever its
  fixtures say: it neither loops nor dereferences nil.
\<close>

theorem simulation_ends:
  assumes "run h d = Some ([], v)"
  shows "\<exists>r. Simulate dc quote digest hash v f = Some r \<and> r \<noteq> SimPanic"
  using Simulate_ok [OF assms] by blast

lemma simulation_ends_witness:
  "\<exists>r. Simulate ex_decode (\<lambda>s. s) (\<lambda>s. s) ''h'' ex_v ex_fixtures = Some r \<and> r \<noteq> SimPanic"
  by (rule simulation_ends [OF ex_run])

text \<open>
  C35: A simulation of an accepted definition stays within the run limits: it counts at most
  \<^verbatim>\<open>max_attempts\<close> attempts, every attempt it logs was counted, and unless it failed it reports at
  most \<^verbatim>\<open>max_tokens\<close> tokens.
\<close>

theorem simulation_within_limits:
  assumes "run h d = Some ([], v)" and "Simulate dc quote digest hash v f = Some (SimDone sim)"
  shows "si_Attempts sim \<le> maxAttempts (vrunlimits v) \<and>
    int (length (filter (\<lambda>e. te_Attempt e \<noteq> 0) (si_Trace sim))) \<le> si_Attempts sim \<and>
    (si_Status sim = ''failed'' \<or> si_Tokens sim \<le> tokenLimit (vrunlimits v))"
  using Simulate_ok [OF assms(1), of dc quote digest hash f] assms(2) by (simp add: report_ok_def)

lemma simulation_within_limits_witness:
  "si_Attempts ex_report \<le> maxAttempts (vrunlimits ex_v) \<and>
    int (length (filter (\<lambda>e. te_Attempt e \<noteq> 0) (si_Trace ex_report))) \<le> si_Attempts ex_report \<and>
    (si_Status ex_report = ''failed'' \<or> si_Tokens ex_report \<le> tokenLimit (vrunlimits ex_v))"
  by (rule simulation_within_limits [OF ex_run ex_simulate])

text \<open>
  C36: A simulation executes no effect. Every attempt it logs at an effect step was only previewed or
  failed, the effect previews are the previewed entries of the trace, in order and with their
  inputs, and each names an effect step of the definition and what that step would request.
\<close>

theorem simulated_effects_are_previews:
  assumes "run h d = Some ([], v)" and "Simulate dc quote digest hash v f = Some (SimDone sim)"
  shows "map (\<lambda>e. (te_Step e, te_Input e)) (filter (\<lambda>e. te_Status e = ''previewed'') (si_Trace sim)) =
      map (\<lambda>p. (ep_Step p, ep_Input p)) (si_Previews sim) \<and>
    (\<forall>e \<in> set (si_Trace sim). te_Attempt e \<noteq> 0 \<longrightarrow> (\<exists>n. step_of v (te_Step e) = Some n \<and> nkind n = KindCapability \<and> is_effect n) \<longrightarrow>
       te_Status e \<in> {''previewed'', ''failed''}) \<and>
    (\<forall>p \<in> set (si_Previews sim). \<exists>n c. step_of v (ep_Step p) = Some n \<and> nkind n = KindCapability \<and> cap n = Some c \<and> Effect c \<and>
       ep_Capability p = CID c \<and> ep_Contract p = CContract c \<and> ep_Connection p = Connection (nstep n) \<and> ep_Resource p = Resource (nstep n))"
proof -
  have r: "report_ok quote v sim" using Simulate_ok [OF assms(1), of dc quote digest hash f] assms(2) by simp
  then have pv: "\<forall>p \<in> set (si_Previews sim). \<exists>n. step_of v (ep_Step p) = Some n \<and> nkind n = KindCapability \<and> (\<exists>input. preview_of n input = [p])"
    unfolding report_ok_def by (elim conjE)
  have "\<forall>p \<in> set (si_Previews sim). \<exists>n c. step_of v (ep_Step p) = Some n \<and> nkind n = KindCapability \<and> cap n = Some c \<and> Effect c \<and>
       ep_Capability p = CID c \<and> ep_Contract p = CContract c \<and> ep_Connection p = Connection (nstep n) \<and> ep_Resource p = Resource (nstep n)"
  proof
    fix p assume "p \<in> set (si_Previews sim)"
    with pv obtain n input where "step_of v (ep_Step p) = Some n" "nkind n = KindCapability" "preview_of n input = [p]" by metis
    then show "\<exists>n c. step_of v (ep_Step p) = Some n \<and> nkind n = KindCapability \<and> cap n = Some c \<and> Effect c \<and>
       ep_Capability p = CID c \<and> ep_Contract p = CContract c \<and> ep_Connection p = Connection (nstep n) \<and> ep_Resource p = Resource (nstep n)"
      by (auto simp: preview_of_def split: option.splits if_splits)
  qed
  then show ?thesis using r unfolding report_ok_def by (intro conjI) (elim conjE, assumption)+
qed

lemma simulated_effects_are_previews_witness:
  "si_Previews ex_report = [ex_preview] \<and> (\<exists>n c. step_of ex_v (ep_Step ex_preview) = Some n \<and> cap n = Some c \<and> Effect c \<and>
    ep_Capability ex_preview = CID c \<and> ep_Resource ex_preview = Resource (nstep n))"
  using simulated_effects_are_previews [OF ex_run ex_simulate] unfolding ex_report_sel by auto

text \<open>
  C37: The report \<^verbatim>\<open>agentResult\<close> writes around a fixture's typed result and the extraction agree: whatever
  text the summary holds (headings and code fences too), \<^verbatim>\<open>extractAgentResult\<close> reads back exactly
  the block, when the block is one line of JSON.
\<close>

theorem typed_result_round_trip:
  assumes "newline \<notin> set block" and "\<not> hasPrefix block ''#''" and "\<not> hasPrefix block ''`''"
  shows "extractAgentResult dc (result_report summary block) =
    (case parseCanonicalJSON dc (block @ [newline]) of
       Inl e \<Rightarrow> Inl (Errf ''the ## Result block is not valid JSON: %v'' [E e])
     | Inr x \<Rightarrow> (case x of VObj m \<Rightarrow> Inr x | _ \<Rightarrow> Inl (Errf ''the ## Result block is not a JSON object'' [])))"
  by (rule extract_result_report [OF assms])

lemma typed_result_round_trip_witness:
  "extractAgentResult ex_decode (result_report ''## Result'' ''{}'') = Inr (VObj [])"
  by (subst typed_result_round_trip) (simp_all add: newline_def hasPrefix_def parseCanonicalJSON_def ex_decode_def)

text \<open>
  C38: An accepted schedule can still be one whose runs are all refused: the example's input takes at most
  five characters and is set from \<^verbatim>\<open>$schedule.date\<close>. Validation accepts it, and whatever the slot, the inputs
  of its run are refused when the run starts.
\<close>

theorem scheduled_inputs_refused:
  assumes "dc (canonicalBytes (VStr (Date (slot_at t day h m)))) = Inr (JString (Date (slot_at t day h m)))"
  shows "run sch_host sch_def = Some ([], sch_v) \<and> (\<exists>inputs e. ScheduleInputs sch_v (slot_at t day h m) = Inr inputs \<and>
    AcceptInputs dc (vinputs sch_v) inputs [] = Inl e)"
  using sch_all_refused [of dc t day h m, OF assms] unfolding sch_inputs_of by (simp add: sch_run)

lemma scheduled_inputs_refused_witness:
  "\<exists>inputs e. ScheduleInputs sch_v (slot_at sch_tt gap_day 2 30) = Inr inputs \<and>
    AcceptInputs (\<lambda>_. Inr (JString (Date (slot_at sch_tt gap_day 2 30)))) (vinputs sch_v) inputs [] = Inl e"
  by (rule scheduled_inputs_refused [where t = sch_tt and day = gap_day and h = 2 and m = 30, THEN conjunct2]) simp

text \<open>
  C39: The tally indexes the first surviving vote without asking whether there is one. It panics only
  when \<^verbatim>\<open>refutations_required\<close> exceeds \<^verbatim>\<open>min_valid_votes\<close> and a claim has enough valid votes, all of them
  refuting, yet fewer than refute it; the witness is such a call.
\<close>

theorem adversarial_tally_panics_only_without_survivors:
  assumes "Call (tallyAdversarial lower parse_url) given = Panicked e"
  shows "\<exists>claims votes needed minValid. map_of given ''claims'' = Some (VList claims) \<and> map_of given ''votes'' = Some (VList votes) \<and>
    map_of given ''refutations_required'' = Some (VInt needed) \<and> map_of given ''min_valid_votes'' = Some (VInt minValid) \<and>
    minValid < needed \<and> (\<exists>c \<in> set claims. \<exists>n. n = num (valid_votes (votes_on lower parse_url votes (claim_key c))) \<and>
      n = num (refuting (votes_on lower parse_url votes (claim_key c))) \<and> minValid \<le> n \<and> n < needed)"
  by (rule tally_panics [OF assms])

lemma adversarial_tally_panics_only_without_survivors_witness:
  "num (refuting (votes_on rx_lower rx_parse (map rx_refute [True, True]) (claim_key rx_ranked_claim))) = 2"
  using adversarial_tally_panics_only_without_survivors [OF rx_adversarial_panic] by (auto simp: rx_adversarial_def)

text \<open>
  C40: The message of an interruption is part of the executable hash but of no line of the review. A version
  that only asks the owner something else has another document to hash, and its review diff lists no
  executable and no authority change.
\<close>

theorem changed_messages_are_not_shown:
  assumes "run h d = Some ([], v)" and "hash_doc dc digest d files functions = Inr doc"
    and "s \<in> set (Steps d)" and "SKind s = KindInterrupt" and "Message s \<noteq> text" and "distinct (map ID (Steps d))"
  shows "hash_doc dc digest (reworded (ID s) text d) files functions \<noteq> Inr doc \<and>
    rd_Executable (DiffReports (Some (buildReport quote digest readme warnings v hash))
      (buildReport quote digest readme warnings (reworded_version (ID s) text v) hash')) = [] \<and>
    rd_Authority (DiffReports (Some (buildReport quote digest readme warnings v hash))
      (buildReport quote digest readme warnings (reworded_version (ID s) text v) hash')) = []"
proof -
  let ?r = "buildReport quote digest readme warnings v"
  have "rd_Executable (DiffReports (Some (?r hash)) (?r hash')) = []"
    by (rule same_sections) (simp add: reviewSections_def buildReport_def Let_def)
  moreover have "rep_Authority (?r hash) = rep_Authority (?r hash')" by (simp add: reported_authority)
  then have "rd_Authority (DiffReports (Some (?r hash)) (?r hash')) = []"
    using same_authority_diff [OF wf_reported_authority [OF assms(1)]] by (simp add: DiffReports_def)
  ultimately show ?thesis using reworded_document [OF assms(2,3) refl assms(4-6)] by (simp add: reworded_report)
qed

lemma changed_messages_are_not_shown_witness:
  "run ask_host (ask_def ''Read the ledger?'') = Some ([], ask_v ''Read the ledger?'') \<and>
    run ask_host (ask_def ''Wire the money?'') = Some ([], ask_v ''Wire the money?'') \<and>
    rd_Executable (DiffReports (Some (buildReport (\<lambda>s. s) (\<lambda>s. s) None [] (ask_v ''Read the ledger?'') ''a''))
      (buildReport (\<lambda>s. s) (\<lambda>s. s) None [] (ask_v ''Wire the money?'') ''b'')) = []"
proof -
  have r: "run ask_host (ask_def t) = Some ([], ask_v t)" if "t \<in> {''Read the ledger?'', ''Wire the money?''}" for t
    using that by (intro ask_run) (auto simp: maxMessageBytes_def)
  obtain x where x: "hash_doc ask_decode (\<lambda>s. s) (ask_def ''Read the ledger?'') [(''schemas/answer.json'', [])] [] = Inr x" using ask_doc by blast
  have "reworded_version ''ask'' ''Wire the money?'' (ask_v ''Read the ledger?'') = ask_v ''Wire the money?''" by (rule ask_reworded)
  with changed_messages_are_not_shown [OF r x, of "ask_step ''Read the ledger?''" "''Wire the money?''" "\<lambda>s. s" None "[]" "''a''" "''b''"] r
  show ?thesis by (simp add: ask_step_sel ask_def_steps)
qed

section \<open>Further facts\<close>

text \<open>
  Every cycle the depth-first search reports is a path of the step graph from a step back to
  itself, and it reports no cycle only when there is none.
\<close>

theorem cycles_are_real:
  shows "list_all (is_cycle (graph_of (fst (collectSteps v)))) (cycles (dfs (graph_of (fst (collectSteps v))))) \<and>
    (cycles (dfs (graph_of (fst (collectSteps v)))) = [] \<longleftrightarrow> acyclic (edge_rel (graph_of (fst (collectSteps v)))))"
  using steps.dfs_cycles steps.dfs_cycles_iff by (simp add: list_all_iff)

text \<open>
  A branch decision is the first case, in order, whose condition holds of what its reference
  reads, and the default step when none holds.
\<close>

theorem branch_takes_first_case:
  assumes "run h d = Some ([], v)" and "step_of v i = Some n" and "Branch v i inputs st = Inr b"
  shows "case find (\<lambda>(_, c). evaluate c (resolveRef (case_ref_of c) inputs st VNil)) (List.enumerate 1 (cases n)) of
      Some (k, c) \<Rightarrow> d_Case b = k \<and> d_Next b = cnext c
    | None \<Rightarrow> d_Case b = 0 \<and> d_Next b = Default (nstep n)"
proof -
  obtain fl where p: "plan_ok h d v fl" using run_ok [OF assms(1)] by blast
  have n: "nkind n = KindBranch" "b = decide n (\<lambda>r. resolveRef r inputs st VNil)"
    using assms(2,3) by (auto simp: Branch_def split: option.splits if_splits)
  show ?thesis unfolding n(2) by (rule decide_spec [OF plan_branch(2) [OF p assms(2) n(1)]])
qed

text \<open>
  Whatever a definition writes, a step has at least one attempt and at most
  \<^verbatim>\<open>maxStepAttempts\<close>, and waits no longer than \<^verbatim>\<open>maxBackoff\<close> between them.
\<close>

theorem retries_bounded:
  shows "1 \<le> fst (snd (retryPolicy r p)) \<and> fst (snd (retryPolicy r p)) \<le> maxStepAttempts \<and>
    0 \<le> snd (snd (retryPolicy r p)) \<and> snd (snd (retryPolicy r p)) \<le> maxBackoff"
  using retryPolicy_bounds [of r p] by (cases "retryPolicy r p") auto

text \<open>
  Validation and run time disagree on closed destinations: an object with a field the contract
  does not declare is assignable to the contract's closed input type, and every value of it is
  refused by the check \<^verbatim>\<open>CapabilityInput\<close> makes before the call.
\<close>

theorem assignable_ignores_closedness:
  assumes "conforms (Some (ObjectType [fld ''amount'' IntegerType, fld ''note'' StringType])) x"
  shows "assignable (Some (ObjectType [fld ''amount'' IntegerType, fld ''note'' StringType])) (Some (ObjectType [fld ''amount'' IntegerType])) = None \<and>
    checkValue (Some (ObjectType [fld ''amount'' IntegerType])) x \<noteq> None"
proof -
  have "assignable (Some (ObjectType [fld ''amount'' IntegerType, fld ''note'' StringType])) (Some (ObjectType [fld ''amount'' IntegerType])) = None"
    by (simp add: ObjectType_def put_def assignable.simps IntegerType_def StringType_def plain_def sortedKeys_def err_if_def requires_def)
  moreover have "checkValue (Some (ObjectType [fld ''amount'' IntegerType])) x \<noteq> None"
  proof (cases x)
    case (VObj m)
    with assms have "hasKey m ''note''" by (simp add: conforms_ObjectType)
    then obtain y where "map_of m ''note'' = Some y" by (cases "map_of m ''note''") (simp_all add: hasKey_def)
    then have "\<not> conforms (Some (ObjectType [fld ''amount'' IntegerType])) x"
      unfolding VObj conforms_ObjectType by (auto intro!: exI [of _ "''note''"])
    then show ?thesis by (simp add: checkValue_def checkAt_conforms)
  qed (use assms in \<open>simp_all add: ObjectType_def conforms_simps\<close>)
  ultimately show ?thesis by blast
qed

text \<open>
  Reading follows typing: when a field path has a type, following it through a conforming value
  gives a value of that type, or nothing where an optional field is absent.
\<close>

theorem reading_is_typed:
  assumes "walkType t p = Inr u" and "conforms t v"
  shows "conforms u (walkValue v p) \<or> walkValue v p = VNil"
  by (rule walk_sound [OF assms])

text \<open>
  Every type a JSON schema file gives is strict: no position is untyped and every object is
  closed; and it requires only properties it declares.
\<close>

theorem schemas_are_closed:
  assumes "parseSchema dc file = Inr (t, canonical)"
  shows "strict t \<and> wf_ty t"
  using assms by (auto simp: parseSchema_def dest: schemaType_strict_wf split: sum.splits)

text \<open>
  Every integer of a decoded document, at any depth, is a 64-bit integer: one out of range is an
  error and never wraps.
\<close>

theorem json_integers_fit:
  assumes "parseCanonicalJSON dc data = Inr v"
  shows "ints_in_range v"
  using assms by (auto simp: parseCanonicalJSON_def dest: canonicalJSON_ints split: sum.splits)

text \<open>
  Parsing an accepted schedule expression ends in one of two ways, and which one is decided by its
  text. If a step overflows 64 bits before it passes the end of its field, parsing panics;
  otherwise each set holds exactly the values its field denotes, and the star flags are those of
  the day fields.
\<close>

theorem cron_exact:
  assumes "validateCron expr = None"
  shows "if cron_overflows expr then parseCron expr = Some Panic
    else \<exists>c. parseCron expr = Some (Done (Inr c)) \<and>
      (\<forall>k < 60. minutes c ! k \<longleftrightarrow> matches_field 0 expr k) \<and> (\<forall>k < 24. hours c ! k \<longleftrightarrow> matches_field 1 expr k) \<and>
      (\<forall>k < 32. days c ! k \<longleftrightarrow> matches_field 2 expr k) \<and> (\<forall>k < 13. months c ! k \<longleftrightarrow> matches_field 3 expr k) \<and>
      (\<forall>k < 7. weekdays c ! k \<longleftrightarrow> matches_field 4 expr k) \<and>
      dayStar c = hasPrefix (splitFields expr ! 2) ''*'' \<and> weekdayStar c = hasPrefix (splitFields expr ! 4) ''*''"
  by (rule parseCron_spec [OF assms])

text \<open>
  A schedule whose minute field is \<^verbatim>\<open>1/9223372036854775807\<close> passes validation and panics when the
  timetable parses it: the step has no upper bound, the loop's sum wraps to a negative index.
\<close>

theorem cron_step_panics:
  shows "validateCron ''1/9223372036854775807 * * * *'' = None \<and> parseCron ''1/9223372036854775807 * * * *'' = Some Panic"
  using ex_cron_valid parseCron_spec [OF ex_cron_valid] ex_cron_overflows by simp

text \<open>
  \<^verbatim>\<open>split_evenly\<close> splits exactly: the shares are as many as the parts, never increase, differ by at
  most one and add up to the total.
\<close>

theorem split_is_exact:
  assumes "Call splitEvenly given = Returned r"
  shows "\<exists>tot parts shares. map_of given ''total'' = Some (VInt tot) \<and> map_of given ''parts'' = Some (VInt parts) \<and>
    field_value r ''shares'' = VList (map VInt shares) \<and> int (length shares) = parts \<and> sum_list shares = tot \<and>
    sorted_wrt (\<ge>) shares \<and> (\<forall>s \<in> set shares. s = tot div parts \<or> s = tot div parts + 1)"
proof -
  from assms have c: "checkArgs split_params given = None" and b: "split_body given = Returned r"
    by (simp_all add: splitEvenly_def checked_Returned)
  from c obtain tot parts where p: "map_of given ''total'' = Some (VInt tot)" "map_of given ''parts'' = Some (VInt parts)" "1 \<le> parts"
    by (rule split_args)
  have "field_value r ''shares'' = VList (map VInt (shares_of tot parts))"
    using b p by (auto simp: split_body_def arg_val_def)
  moreover have "int (length (shares_of tot parts)) = parts" "sum_list (shares_of tot parts) = tot"
    "sorted_wrt (\<ge>) (shares_of tot parts)" "\<forall>s \<in> set (shares_of tot parts). s = tot div parts \<or> s = tot div parts + 1"
    using p(3) sum_shares [of parts tot] shares_bounds [of parts _ tot] shares_decreasing [of tot parts] by simp_all
  ultimately show ?thesis using p(1,2) by blast
qed

text \<open>
  \<^verbatim>\<open>majority_filter\<close> partitions its claims in order: the accepted ones are exactly those that at
  least \<^verbatim>\<open>quorum\<close> votes support, every other one is rejected, and a vote for an unknown claim or
  with an unknown verdict is never counted.
\<close>

theorem majority_is_exact:
  assumes "Call majorityFilter given = Returned r"
  shows "\<exists>claims votes quorum tally. map_of given ''claims'' = Some (VList claims) \<and> map_of given ''votes'' = Some (VList votes) \<and>
    map_of given ''quorum'' = Some (VInt quorum) \<and> (\<forall>x \<in> set votes. vote_claim x \<in> claim_id ` set claims \<and> vote_verdict x \<in> set verdicts) \<and>
    field_value r ''accepted'' = VList (map (tallied_claim tally) (filter (\<lambda>c. quorum \<le> votes_for votes (claim_id c) ''supported'') claims)) \<and>
    field_value r ''rejected'' = VList (map (tallied_claim tally) (filter (\<lambda>c. \<not> quorum \<le> votes_for votes (claim_id c) ''supported'') claims)) \<and>
    (\<forall>c \<in> set claims. \<forall>v \<in> set verdicts. map_of (tally_of tally (claim_id c)) v = Some (votes_for votes (claim_id c) v))"
  using majority_exact [OF assms] .

text \<open>
  The result types refined at validation hold at run time: when the arguments of a call fit what
  validation knew of them, what \<^verbatim>\<open>split_evenly\<close> and \<^verbatim>\<open>collect_claims\<close> return conforms to the
  refined type.
\<close>

theorem refined_results_hold:
  assumes "static_ok static given"
  shows "(Call splitEvenly given = Returned r \<longrightarrow> conforms (Some (split_refine static)) r) \<and>
    (Call (collectClaims lower) given = Returned r \<longrightarrow> conforms (Some (collect_refine static)) r)"
  using split_refined [OF _ assms] collect_refined [OF _ assms] by blast

text \<open>
  The bound \<^verbatim>\<open>expand_ballots\<close> puts on its list is a product in 64 bits: with a list type of up to
  2 to the 62 claims and 4 votes each it wraps to zero, so a single claim's ballots lie outside
  the refined type of the call that produced them.
\<close>

theorem ballots_bound_overflows:
  shows "Call expandBallots ex_ballots = Returned ex_ballots_out \<and> static_ok ex_ballots_static ex_ballots \<and>
    \<not> conforms (Some (expand_refine ex_ballots_static)) ex_ballots_out"
  using ex_ballots_call ex_ballots_ok ex_ballots_refined by blast

text \<open>
  A map step's output is exact: it exists just when the outcomes have distinct indexes within the
  list, and then it holds the successes in input order, the failures in input order, and how many
  there are of each.
\<close>

theorem map_output_exact:
  shows "mapOutput xs os = Inr out \<longleftrightarrow> distinct (map Index os) \<and> list_all (\<lambda>o1. 0 \<le> Index o1 \<and> Index o1 < int (length xs)) os \<and>
    (let rs = map (result_val xs) (filter Succeeded (sort_key Index os));
       fs = map (failure_val xs) (filter (\<lambda>o1. \<not> Succeeded o1) (sort_key Index os)) in
     out = VObj [(''results'', VList rs), (''failures'', VList fs), (''succeeded'', VInt (int (length rs))),
       (''failed'', VInt (int (length fs)))])"
  using mapOutput_iff [of xs os out] by (simp add: outcomes_ok_def Let_def conj_assoc list_all_iff)

text \<open>
  The output of a map step does not depend on the order in which its items finished: permuting
  the outcomes gives the same output, or an error both times.
\<close>

theorem map_output_order_free:
  assumes "mset os = mset os'"
  shows "(\<exists>e. mapOutput xs os = Inl e) \<and> (\<exists>e. mapOutput xs os' = Inl e) \<or> mapOutput xs os = mapOutput xs os'"
  by (rule mapOutput_perm [OF assms])

text \<open>
  Equality of values goes through float64: 9007199254740993 equals 9007199254740992, so a branch
  that compares against one takes the case for the other, and an enumeration that lists one
  accepts the other.
\<close>

theorem large_integers_compare_equal:
  shows "equalValues (VInt 9007199254740993) (VInt 9007199254740992) \<and>
    evaluate \<lparr>cref = None, cop = ''eq'', cvalue = VInt 9007199254740992, hasValue = True, cnext = n\<rparr> (VInt 9007199254740993)"
  using ex_large_equal by (simp add: evaluate_def unaryOp_def)

text \<open>
  The token count of a simulation wraps in 64 bits before it is compared: once some tokens are
  counted, a fixture of an AI or capability step that reports the largest \<^verbatim>\<open>int64\<close> turns the total
  negative, and the check of \<^verbatim>\<open>max_tokens\<close> passes.
\<close>

theorem simulated_tokens_wrap:
  assumes "nkind n \<noteq> KindAgent" and "0 < ss_tokens st" and "ss_tokens st \<le> max_int64" and "0 \<le> tokenLimit (slimits s)"
  shows "countTokens s n max_int64 st = (st\<lparr>ss_tokens := ss_tokens st - max_int64 - 2\<rparr>, None) \<and> ss_tokens st - max_int64 - 2 < 0"
  using tokens_wrap [OF assms] assms(2,3) by simp

text \<open>
  What a successor reads of a carried output is typed: every reference of a remaining step or of the
  run's outputs to a carried step, followed through the recorded value, gives a value of the type
  the same path has in this version's output type, or nothing.
\<close>

theorem carried_reads_are_typed:
  assumes "PlanResume dc quote digest v resume inputs state key = (plan, [])"
    and "r \<in> set (readsAfter v (steps_after v resume))" and "map_of (rp_State plan) (RName (sref r)) = Some x"
    and "walkType (step_type v (RName (sref r))) (Path (sref r)) = Inr u"
  shows "conforms u (walkValue x (Path (sref r))) \<or> walkValue x (Path (sref r)) = VNil"
  by (rule carried_read [OF assms])

text \<open>
  The cleaned report can still show an unverified URL: a link loses its target and keeps its text, and
  the text is not cleaned in turn. The report below links a URL under its own text; after the check the URL
  is in the body, a bare URL for the scanner, although no accepted claim relies on it.
\<close>

theorem unverified_link_text_survives:
  shows "(\<exists>r. Call checkCitations (rx_report ''See [https://e.x/](https://e.x/).'') = Returned r \<and>
      field_value r ''body_markdown'' = VStr ''See https://e.x/.'') \<and>
    Bare ''https://e.x/.'' \<in> set (tokens ''See https://e.x/.'') \<and> \<not> relies_on rx_accepted (trim_tail ''https://e.x/.'')"
proof -
  have "Bare ''https://e.x/.'' \<in> set (tokens ''See https://e.x/.'')" by code_simp
  moreover have "\<not> relies_on rx_accepted (trim_tail ''https://e.x/.'')" by code_simp
  ultimately show ?thesis using rx_link_call by blast
qed

text \<open>
  \<^verbatim>\<open>tally_verdicts\<close> accepts a claim with at least \<^verbatim>\<open>quorum\<close> supported votes, where a vote that names no
  evidence its verifier fetched counts as insufficient. Every count is exact, and the sources of a claim
  are the evidence of its supported votes, each fetched by the verifier that named it.
\<close>

theorem verdict_tally_is_exact:
  assumes "Call tallyVerdicts given = Returned r"
  shows "\<exists>claims votes quorum t. map_of given ''claims'' = Some (VList claims) \<and> map_of given ''votes'' = Some (VList votes) \<and>
    map_of given ''quorum'' = Some (VInt quorum) \<and>
    field_value r ''accepted'' = VList (map (counted True t) (filter (\<lambda>c. quorum \<le> int (length (cast_for votes (claim_id c) ''supported''))) claims)) \<and>
    field_value r ''rejected'' = VList (map (counted False t) (filter (\<lambda>c. \<not> quorum \<le> int (length (cast_for votes (claim_id c) ''supported''))) claims)) \<and>
    (\<forall>c \<in> set claims. bb_sources (box_of t c) = citable [] (cast_for votes (claim_id c) ''supported'') \<and>
       (\<forall>x. count_of (bb_counts (box_of t c)) x = int (length (cast_for votes (claim_id c) x))) \<and>
       (\<forall>u \<in> set (bb_sources (box_of t c)). \<exists>v \<in> set votes. vote_claim v = claim_id c \<and> cast_verdict v = ''supported'' \<and> u \<in> vote_fetched v))"
proof -
  obtain claims votes quorum t where a: "map_of given ''claims'' = Some (VList claims)" "map_of given ''votes'' = Some (VList votes)"
    "map_of given ''quorum'' = Some (VInt quorum)"
    "field_value r ''accepted'' = VList (map (counted True t) (filter (\<lambda>c. quorum \<le> int (length (cast_for votes (claim_id c) ''supported''))) claims))"
    "field_value r ''rejected'' = VList (map (counted False t) (filter (\<lambda>c. \<not> quorum \<le> int (length (cast_for votes (claim_id c) ''supported''))) claims))"
    and c: "\<forall>c \<in> set claims. bb_sources (box_of t c) = citable [] (cast_for votes (claim_id c) ''supported'') \<and>
       (\<forall>x. count_of (bb_counts (box_of t c)) x = int (length (cast_for votes (claim_id c) x)))"
    using tally_exact [OF assms] by (elim exE conjE) (rule that)
  have "\<forall>c \<in> set claims. \<forall>u \<in> set (bb_sources (box_of t c)). \<exists>v \<in> set votes.
      vote_claim v = claim_id c \<and> cast_verdict v = ''supported'' \<and> u \<in> vote_fetched v"
    using c citable_fetched by metis
  with a c show ?thesis by (intro exI [of _ claims] exI [of _ votes] exI [of _ quorum] exI [of _ t] conjI) blast+
qed

text \<open>
  The gate keeps for every candidate, in candidate order, the first proposal that names it, uses a known category
  exactly, reaches the threshold and asks for a rule only with a merchant name; everything else is
  counted as dropped. Candidates have distinct ids, so no two lines are about one transaction.
\<close>

theorem gate_keeps_acceptable_proposals:
  assumes "Call gateProposals given = Returned r"
  shows "\<exists>cs ps least lines. map_of given ''candidates'' = Some (VList cs) \<and> map_of given ''proposals'' = Some (VList ps) \<and>
    gateNumber (arg_val given ''min_confidence'') = Some least \<and> distinct (map item_id cs) \<and>
    lines = List.map_filter (\<lambda>c. map_option (gate_line c)
      (find (gate_accepts (known_categories (list_of (arg_val given ''categories''))) least c) ps)) cs \<and>
    field_value r ''lines'' = VList lines \<and> field_value r ''kept'' = VInt (int (length lines)) \<and>
    field_value r ''dropped'' = VInt (int (length ps) - int (length lines))"
  by (rule gate_exact [OF assms])

text \<open>
  \<^verbatim>\<open>NormalizeAccess\<close> accepts exactly the well-formed access. What it returns is well-formed and sorted, allows
  exactly what the given access allows, and is the one form of every access that allows the same.
\<close>

theorem access_is_normalized:
  shows "case NormalizeAccess a of
      Inl e \<Rightarrow> \<not> wf_access a
    | Inr b \<Rightarrow> wf_access a \<and> wf_access b \<and> sorted (map AID b) \<and> (\<forall>c \<in> set b. sorted (AResources c)) \<and>
        (\<forall>conn r. Allows b conn r = Allows a conn r) \<and>
        (\<forall>a' b'. NormalizeAccess a' = Inr b' \<longrightarrow> (\<forall>conn r. Allows a' conn r = Allows a conn r) \<longrightarrow> b' = b)"
proof (cases "NormalizeAccess a")
  case (Inl e)
  then have "\<not> wf_access a" using NormalizeAccess_iff [of a] by auto
  with Inl show ?thesis by simp
next
  case (Inr b)
  have "wf_access a" using Inr NormalizeAccess_iff [of a] by simp
  moreover have "b' = b" if "NormalizeAccess a' = Inr b'" "\<forall>conn r. Allows a' conn r = Allows a conn r" for a' b'
    using normal_access_unique [OF that(1) Inr] that(2) by blast
  ultimately show ?thesis using Inr normalized_access [OF Inr] by (simp only: sum.case) blast
qed

end
